(* ===== verification/Prelude.thy ===== *)
theory Prelude
  imports Main "HOL-Library.AList" "HOL-Library.Char_ord" "HOL-Library.List_Lexorder"
begin

text \<open>
  Shared vocabulary of the development.

  \<^item> Rust's \<open>String\<close> is \<open>string\<close>, read as its sequence of UTF-8 bytes; the order of strings is
    the bytewise lexicographic order of \<open>List_Lexorder\<close> over \<open>Char_ord\<close>, as in Rust.
  \<^item> A \<open>HashMap\<close> is an association list with distinct keys, in an arbitrary order
    (\<open>AList.update\<close>, \<open>AList.delete\<close>, \<open>map_of\<close>); a \<open>BTreeMap\<close> is an association list with
    strictly increasing keys, written by \<open>bt_insert\<close>.
  \<^item> Decimal and hexadecimal printing of integers and \<open>str::parse::<u64>\<close> are written out.

  The collection \<open>assoc_simps\<close> gathers the rewrite rules on maps that component proofs add to
  the simplifier.
\<close>

named_theorems assoc_simps \<open>lookups in updated association lists\<close>

subsection \<open>Hash maps\<close>

abbreviation keys :: "('k \<times> 'v) list \<Rightarrow> 'k list" where
  "keys m \<equiv> List.map fst m"

text \<open>Mapping a function over the values (\<open>values_mut\<close>).\<close>

definition map_vals :: "('v \<Rightarrow> 'w) \<Rightarrow> ('k \<times> 'v) list \<Rightarrow> ('k \<times> 'w) list" where
  "map_vals f m = map (\<lambda>(k, v). (k, f v)) m"

lemma keys_map_vals [simp]: "keys (map_vals f m) = keys m"
  by (induction m) (auto simp: map_vals_def)

lemma map_of_map_vals [assoc_simps, simp]: "map_of (map_vals f m) k = map_option f (map_of m k)"
  by (induction m) (auto simp: map_vals_def)

lemma map_vals_compose: "map_vals g (map_vals f m) = map_vals (g \<circ> f) m"
  by (induction m) (auto simp: map_vals_def)

lemma map_of_alist_update [assoc_simps, simp]:
  "map_of (AList.update k v m) k' = (if k' = k then Some v else map_of m k')"
  by (simp add: update_conv')

lemma map_of_alist_delete [assoc_simps, simp]:
  "map_of (AList.delete k m) k' = (if k' = k then None else map_of m k')"
  by (simp add: delete_conv')

lemma set_keys_map_of: "k \<in> set (keys m) \<longleftrightarrow> map_of m k \<noteq> None"
  by (simp add: map_of_eq_None_iff)

lemma distinct_keys_update [simp]: "distinct (keys m) \<Longrightarrow> distinct (keys (AList.update k v m))"
  by (rule distinct_update)

text \<open>Two association lists with distinct keys and the same lookups hold the same entries.\<close>

lemma distinct_keys_same_lookup_set:
  assumes "distinct (keys m)" "distinct (keys m')" "map_of m = map_of m'"
  shows "set m = set m'"
proof -
  have "(k, v) \<in> set m \<longleftrightarrow> (k, v) \<in> set m'" for k v
    using assms by (metis map_of_eq_Some_iff)
  then show ?thesis by auto
qed

subsection \<open>Ordered maps\<close>

fun bt_insert :: "'k::linorder \<Rightarrow> 'v \<Rightarrow> ('k \<times> 'v) list \<Rightarrow> ('k \<times> 'v) list" where
  "bt_insert k v [] = [(k, v)]"
| "bt_insert k v ((k', v') # m) =
     (if k < k' then (k, v) # (k', v') # m
      else if k = k' then (k, v) # m
      else (k', v') # bt_insert k v m)"

definition bt_wf :: "('k::linorder \<times> 'v) list \<Rightarrow> bool" where
  "bt_wf m \<longleftrightarrow> sorted_wrt (<) (keys m)"

lemma bt_wf_Nil [simp, intro]: "bt_wf []"
  by (simp add: bt_wf_def)

lemma bt_wf_Cons: "bt_wf ((k, v) # m) \<longleftrightarrow> (\<forall>k' \<in> set (keys m). k < k') \<and> bt_wf m"
  by (auto simp: bt_wf_def)

lemma set_keys_bt_insert [simp]: "set (keys (bt_insert k v m)) = insert k (set (keys m))"
  by (induction k v m rule: bt_insert.induct) auto

lemma fst_image_bt_insert [simp]: "fst ` set (bt_insert k v m) = insert k (fst ` set m)"
  using set_keys_bt_insert [of k v m] by simp

lemma map_of_bt_insert [assoc_simps, simp]:
  "bt_wf m \<Longrightarrow> map_of (bt_insert k v m) k' = (if k' = k then Some v else map_of m k')"
  by (induction k v m rule: bt_insert.induct) (auto simp: bt_wf_Cons)

lemma bt_wf_insert [simp, intro]: "bt_wf m \<Longrightarrow> bt_wf (bt_insert k v m)"
proof (induction k v m rule: bt_insert.induct)
  case (1 k v)
  then show ?case by (simp add: bt_wf_Cons)
next
  case (2 k v k' v' m)
  then have m: "\<forall>x \<in> set (keys m). k' < x" "bt_wf m" by (simp_all add: bt_wf_Cons)
  consider "k < k'" | "k = k'" | "k' < k" by (rule linorder_less_linear [THEN disjE]) auto
  then show ?case
  proof cases
    case 1
    with m show ?thesis by (auto simp: bt_wf_Cons)
  next
    case 2
    with m show ?thesis by (simp add: bt_wf_Cons)
  next
    case 3
    with m "2.IH" have "bt_wf (bt_insert k v m)" by simp
    moreover have "\<forall>x \<in> set (keys (bt_insert k v m)). k' < x"
      using m(1) 3 unfolding set_keys_bt_insert by blast
    ultimately have "bt_wf ((k', v') # bt_insert k v m)" unfolding bt_wf_Cons by blast
    moreover have "bt_insert k v ((k', v') # m) = (k', v') # bt_insert k v m"
      using 3 by auto
    ultimately show ?thesis by simp
  qed
qed

lemma bt_wf_distinct: "bt_wf m \<Longrightarrow> distinct (keys m)"
  by (auto simp: bt_wf_def strict_sorted_iff)

lemma bt_wf_sorted: "bt_wf m \<Longrightarrow> sorted (keys m)"
  by (auto simp: bt_wf_def strict_sorted_iff)

text \<open>An ordered map is determined by its lookup function.\<close>

lemma bt_wf_ext:
  assumes "bt_wf m" "bt_wf m'" "map_of m = map_of m'"
  shows "m = m'"
proof -
  have s: "set m = set m'"
    using distinct_keys_same_lookup_set bt_wf_distinct assms by blast
  then have "set (keys m) = set (keys m')" by simp
  moreover have "sorted (keys m)" "sorted (keys m')" "distinct (keys m)" "distinct (keys m')"
    using assms bt_wf_sorted bt_wf_distinct by blast+
  ultimately have k: "keys m = keys m'" by (simp add: sorted_distinct_set_unique)
  have "distinct (keys m')" by (rule bt_wf_distinct [OF assms(2)])
  with k s show ?thesis
    by (metis (no_types, lifting) map_fst_zip map_snd_zip eq_key_imp_eq_value list.inj_map_strong
        prod.collapse distinct_map inj_onD list.set_map)
qed

text \<open>Folding insertions over a list: \<open>BTreeMap::from_iter\<close>.\<close>

definition bt_of :: "('k::linorder \<times> 'v) list \<Rightarrow> ('k \<times> 'v) list" where
  "bt_of xs = fold (\<lambda>(k, v) m. bt_insert k v m) xs []"

lemma bt_fold_wf: "bt_wf m \<Longrightarrow> bt_wf (fold (\<lambda>(k, v) m. bt_insert k v m) xs m)"
  by (induction xs arbitrary: m) auto

lemma bt_fold_lookup:
  "bt_wf m \<Longrightarrow> map_of (fold (\<lambda>(k, v) m. bt_insert k v m) xs m) k
     = (case map_of (rev xs) k of Some v \<Rightarrow> Some v | None \<Rightarrow> map_of m k)"
proof (induction xs arbitrary: m)
  case Nil
  then show ?case by simp
next
  case (Cons x xs)
  obtain k' v' where x: "x = (k', v')" by (cases x)
  from Cons show ?case
    by (auto simp: x map_add_def split: option.splits)
qed

lemma bt_of_wf [simp, intro]: "bt_wf (bt_of xs)"
  by (simp add: bt_of_def bt_fold_wf)

lemma map_of_bt_of: "map_of (bt_of xs) k = map_of (rev xs) k"
  by (simp add: bt_of_def bt_fold_lookup split: option.splits)

lemma set_keys_bt_of: "set (keys (bt_of xs)) = set (keys xs)"
proof -
  have "k \<in> set (keys (bt_of xs)) \<longleftrightarrow> k \<in> set (keys (rev xs))" for k
    by (simp only: set_keys_map_of map_of_bt_of)
  then show ?thesis by auto
qed

subsection \<open>Vectors\<close>

text \<open>\<open>if let Some(x) = v.iter_mut().find(p) { *x = y } else { v.push(y) }\<close>.\<close>

fun upsert :: "('a \<Rightarrow> bool) \<Rightarrow> 'a \<Rightarrow> 'a list \<Rightarrow> 'a list" where
  "upsert p y [] = [y]"
| "upsert p y (x # xs) = (if p x then y # xs else x # upsert p y xs)"

lemma upsert_fresh: "\<forall>x \<in> set xs. \<not> p x \<Longrightarrow> upsert p y xs = xs @ [y]"
  by (induction xs) auto

lemma in_upsert: "y \<in> set (upsert p y xs)"
  by (induction xs) auto

lemma set_upsert_subset: "set (upsert p y xs) \<subseteq> insert y (set xs)"
  by (induction xs) auto

text \<open>Replacing an element that has the same key keeps the keys distinct.\<close>

lemma map_upsert_key:
  assumes "\<And>x. x \<in> set xs \<Longrightarrow> p x \<longleftrightarrow> f x = f y"
  shows "map f (upsert p y xs) = (if f y \<in> f ` set xs then map f xs else map f xs @ [f y])"
  using assms by (induction xs) auto

lemma distinct_upsert_key:
  assumes "\<And>x. x \<in> set xs \<Longrightarrow> p x \<longleftrightarrow> f x = f y" and "distinct (map f xs)"
  shows "distinct (map f (upsert p y xs))"
  using assms(2) by (simp add: map_upsert_key [of xs p f y, OF assms(1)])

text \<open>\<open>entry(k).or_default().push(v)\<close> on an ordered map, and the lookup with a default.\<close>

definition bt_push :: "'k::linorder \<Rightarrow> 'v \<Rightarrow> ('k \<times> 'v list) list \<Rightarrow> ('k \<times> 'v list) list" where
  "bt_push k v m = bt_insert k ((case map_of m k of Some vs \<Rightarrow> vs | None \<Rightarrow> []) @ [v]) m"

definition pget :: "('k \<times> 'v list) list \<Rightarrow> 'k \<Rightarrow> 'v list" where
  "pget m k = (case map_of m k of Some vs \<Rightarrow> vs | None \<Rightarrow> [])"

lemma pget_Nil [simp]: "pget [] k = []"
  by (simp add: pget_def)

lemma bt_wf_push [simp, intro]: "bt_wf m \<Longrightarrow> bt_wf (bt_push k v m)"
  by (simp add: bt_push_def)

lemma pget_bt_push [assoc_simps]:
  "bt_wf m \<Longrightarrow> pget (bt_push k v m) k' = (if k' = k then pget m k @ [v] else pget m k')"
  by (simp add: pget_def bt_push_def split: option.splits)

lemma set_keys_bt_push [simp]: "set (keys (bt_push k v m)) = insert k (set (keys m))"
  by (simp add: bt_push_def)

lemma map_of_bt_push: "bt_wf m \<Longrightarrow>
   map_of (bt_push k v m) k' = (if k' = k then Some (pget m k @ [v]) else map_of m k')"
  by (simp add: bt_push_def pget_def)

lemma map_of_rev_distinct: "distinct (keys m) \<Longrightarrow> map_of (rev m) = map_of m"
  by (rule map_of_eqI) (auto simp: rev_map [symmetric])

lemma set_update_subset: "set (AList.update k v m) \<subseteq> insert (k, v) (set m)"
  by (induction m) auto

lemma in_map_filter: "y \<in> set (List.map_filter f xs) \<longleftrightarrow> (\<exists>x \<in> set xs. f x = Some y)"
  by (induction xs) (auto simp: List.map_filter_simps split: option.splits)

end
