(* ===== verification/Text_Format.thy ===== *)
theory Text_Format
  imports Prelude
begin

text \<open>
  The printing and parsing of unsigned integers the code relies on: \<open>u64::to_string\<close>
  (\<open>show_nat\<close>), \<open>{:#x}\<close> (\<open>show_hex\<close>), \<open>i64::to_string\<close> (\<open>show_int\<close>) and
  \<open>str::parse::<u64>\<close> (\<open>parse_u64\<close>: an optional leading plus sign, digits only, overflow is an
  error), with the round trip and injectivity lemmas the components use.
\<close>

abbreviation u64_bound :: nat where
  "u64_bound \<equiv> 18446744073709551616"

definition digit_char :: "nat \<Rightarrow> char" where
  "digit_char d = char_of (if d < 10 then 48 + d else 87 + d)"

function show_base :: "nat \<Rightarrow> nat \<Rightarrow> string" where
  "show_base b n =
     (if b < 2 \<or> n < b then [digit_char n]
      else show_base b (n div b) @ [digit_char (n mod b)])"
  by pat_completeness auto
termination
  by (relation "measure (\<lambda>(b, n). n)") auto

declare show_base.simps [simp del]

definition show_nat :: "nat \<Rightarrow> string" where
  "show_nat n = show_base 10 n"

definition show_hex :: "nat \<Rightarrow> string" where
  "show_hex n = ''0x'' @ show_base 16 n"

definition show_int :: "int \<Rightarrow> string" where
  "show_int i = (if i < 0 then CHR ''-'' # show_nat (nat (- i)) else show_nat (nat i))"

definition digit_val :: "char \<Rightarrow> nat option" where
  "digit_val c = (if 48 \<le> (of_char c :: nat) \<and> (of_char c :: nat) \<le> 57
                  then Some (of_char c - 48) else None)"

fun parse_digits :: "nat \<Rightarrow> string \<Rightarrow> nat option" where
  "parse_digits acc [] = Some acc"
| "parse_digits acc (c # cs) =
     (case digit_val c of
        None \<Rightarrow> None
      | Some d \<Rightarrow> (if acc * 10 + d < u64_bound then parse_digits (acc * 10 + d) cs else None))"

fun parse_u64 :: "string \<Rightarrow> nat option" where
  "parse_u64 [] = None"
| "parse_u64 (c # cs) =
     (if c = CHR ''+'' then (if cs = [] then None else parse_digits 0 cs)
      else parse_digits 0 (c # cs))"

subsection \<open>Digits\<close>

lemma of_char_digit_char: "d < 16 \<Longrightarrow> (of_char (digit_char d) :: nat) = (if d < 10 then 48 + d else 87 + d)"
  by (simp add: digit_char_def)

lemma digit_char_inj:
  assumes "digit_char d = digit_char e" "d < 16" "e < 16"
  shows "d = e"
proof -
  have "(of_char (digit_char d) :: nat) = of_char (digit_char e)" using assms(1) by simp
  with assms(2,3) show ?thesis by (simp add: of_char_digit_char split: if_splits)
qed

lemma digit_val_digit_char [simp]: "d < 10 \<Longrightarrow> digit_val (digit_char d) = Some d"
  by (simp add: digit_val_def of_char_digit_char)

lemma digit_char_ne_plus: "d < 10 \<Longrightarrow> digit_char d \<noteq> CHR ''+''"
proof
  assume "d < 10" "digit_char d = CHR ''+''"
  then have "(of_char (digit_char d) :: nat) = of_char (CHR ''+'')" by simp
  with \<open>d < 10\<close> show False by (simp add: of_char_digit_char)
qed

lemma digit_char_range: "d < 16 \<Longrightarrow> (of_char (digit_char d) :: nat) \<in> {48..57} \<union> {97..102}"
  by (auto simp: of_char_digit_char)

lemma digit_char_ne_dash: "d < 16 \<Longrightarrow> digit_char d \<noteq> CHR ''-''"
  using digit_char_range [of d] by auto

subsection \<open>Printing\<close>

lemma show_base_nonempty [simp]: "show_base b n \<noteq> []"
  by (subst show_base.simps) simp

lemma Nil_ne_show_base [simp]: "[] \<noteq> show_base b n"
  using show_base_nonempty by metis

lemma show_base_digits:
  "2 \<le> b \<Longrightarrow> c \<in> set (show_base b n) \<Longrightarrow> \<exists>d < b. c = digit_char d"
proof (induction b n rule: show_base.induct)
  case (1 b n)
  show ?case
  proof (cases "n < b")
    case True
    with "1.prems" show ?thesis by (auto simp: show_base.simps [of b n])
  next
    case False
    with "1.prems" have "c \<in> set (show_base b (n div b)) \<or> c = digit_char (n mod b)"
      by (auto simp: show_base.simps [of b n])
    moreover have "n mod b < b" using "1.prems"(1) by simp
    moreover have "c \<in> set (show_base b (n div b)) \<Longrightarrow> \<exists>d < b. c = digit_char d"
      using "1.IH" "1.prems"(1) False by simp
    ultimately show ?thesis by blast
  qed
qed

lemma show_base_inj:
  "2 \<le> b \<Longrightarrow> b \<le> 16 \<Longrightarrow> show_base b n = show_base b m \<Longrightarrow> n = m"
proof (induction b n arbitrary: m rule: show_base.induct)
  case (1 b n)
  have uf: "show_base b k = (if k < b then [digit_char k]
      else show_base b (k div b) @ [digit_char (k mod b)])" for k
    using "1.prems"(1) by (subst show_base.simps) simp
  show ?case
  proof (cases "n < b \<or> m < b")
    case True
    with "1.prems" have "n < b" "m < b" "digit_char n = digit_char m"
      by (auto simp: uf [of n] uf [of m] split: if_splits)
    with "1.prems"(2) show ?thesis by (auto intro: digit_char_inj)
  next
    case False
    with "1.prems" have e: "show_base b (n div b) = show_base b (m div b)"
      "digit_char (n mod b) = digit_char (m mod b)"
      by (simp_all add: uf [of n] uf [of m])
    have "n mod b < b" "m mod b < b" using "1.prems"(1) by simp_all
    then have "n mod b = m mod b"
      using digit_char_inj [OF e(2)] "1.prems"(2) by linarith
    moreover have "n div b = m div b"
      using "1.IH" [of "m div b"] False "1.prems"(1,2) e(1) by simp
    ultimately show ?thesis by (metis div_mult_mod_eq)
  qed
qed

lemma show_nat_inj: "show_nat n = show_nat m \<longleftrightarrow> n = m"
  using show_base_inj [of 10 n m] by (auto simp: show_nat_def)

lemma show_hex_inj: "show_hex n = show_hex m \<longleftrightarrow> n = m"
  using show_base_inj [of 16 n m] by (auto simp: show_hex_def)

lemma show_nat_no_dash: "CHR ''-'' \<notin> set (show_nat n)"
proof
  assume "CHR ''-'' \<in> set (show_nat n)"
  then obtain d where "d < 10" "CHR ''-'' = digit_char d"
    using show_base_digits [of 10 "CHR ''-''" n] by (auto simp: show_nat_def)
  then show False using digit_char_ne_dash [of d] by simp
qed

lemma show_int_inj: "show_int i = show_int j \<longleftrightarrow> i = j"
proof -
  have ne: "CHR ''-'' # show_nat a \<noteq> show_nat b" for a b
    using show_nat_no_dash [of b] by (metis list.set_intros(1))
  have ne': "show_nat b \<noteq> CHR ''-'' # show_nat a" for a b
    by (rule ne [symmetric])
  show ?thesis
    by (cases "i < 0"; cases "j < 0") (auto simp: show_int_def show_nat_inj ne ne')
qed

subsection \<open>Parsing inverts printing\<close>

lemma parse_digits_append:
  "parse_digits acc (xs @ ys) = (case parse_digits acc xs of None \<Rightarrow> None | Some a \<Rightarrow> parse_digits a ys)"
  by (induction acc xs rule: parse_digits.induct) (auto split: option.splits)

lemma parse_digits_show_base: "n < u64_bound \<Longrightarrow> parse_digits 0 (show_base 10 n) = Some n"
proof (induction "10::nat" n rule: show_base.induct)
  case (1 n)
  show ?case
  proof (cases "n < 10")
    case True
    then show ?thesis by (subst show_base.simps) simp
  next
    case False
    have "n div 10 < u64_bound" using "1.prems" by simp
    then have p: "parse_digits 0 (show_base 10 (n div 10)) = Some (n div 10)"
      using "1.hyps" False by simp
    have d: "digit_val (digit_char (n mod 10)) = Some (n mod 10)"
      by (rule digit_val_digit_char) simp
    have s: "show_base 10 n = show_base 10 (n div 10) @ [digit_char (n mod 10)]"
      using False by (subst show_base.simps) simp
    show ?thesis
      unfolding s parse_digits_append p using "1.prems" by (simp add: d)
  qed
qed

lemma parse_u64_show_nat [simp]: "n < u64_bound \<Longrightarrow> parse_u64 (show_nat n) = Some n"
proof -
  assume n: "n < u64_bound"
  obtain c cs where s: "show_nat n = c # cs"
    by (metis show_base_nonempty show_nat_def neq_Nil_conv)
  have "c \<in> set (show_base 10 n)" using s by (simp add: show_nat_def)
  then obtain d where "d < 10" "c = digit_char d" using show_base_digits [of 10 c n] by auto
  then have "c \<noteq> CHR ''+''" using digit_char_ne_plus [of d] by simp
  then show ?thesis
    using parse_digits_show_base [OF n] s by (simp add: show_nat_def)
qed

lemma parse_digits_bound: "parse_digits acc s = Some n \<Longrightarrow> acc < u64_bound \<Longrightarrow> n < u64_bound"
  by (induction acc s rule: parse_digits.induct) (auto split: option.splits if_splits)

lemma parse_u64_bound: "parse_u64 s = Some n \<Longrightarrow> n < u64_bound"
  by (cases s) (auto split: if_splits dest!: parse_digits_bound simp del: parse_digits.simps)

text \<open>On numbers with the same count of digits the string order is the numeric order.\<close>

lemma show_base_length_mono_div:
  "length (show_base 10 n) = (if n < 10 then 1 else Suc (length (show_base 10 (n div 10))))"
  by (subst show_base.simps) simp

lemma digit_char_less: "d < 10 \<Longrightarrow> e < 10 \<Longrightarrow> digit_char d < digit_char e \<longleftrightarrow> d < e"
  by (simp add: less_char_def of_char_digit_char)

lemma snoc_lexord_less:
  "length xs = length ys \<Longrightarrow>
   (xs @ [x] < ys @ [y]) \<longleftrightarrow> (xs < ys \<or> xs = ys \<and> x < (y :: 'a :: linorder))"
  by (induction xs ys rule: list_induct2) auto

lemma div_mod_lex:
  "(n div 10 < m div 10 \<or> n div 10 = m div 10 \<and> n mod 10 < m mod 10) \<longleftrightarrow> n < (m :: nat)"
proof -
  define a b c d where "a = n div 10" "b = n mod 10" "c = m div 10" "d = m mod 10"
  have "n = 10 * a + b" "m = 10 * c + d" "b < 10" "d < 10"
    by (simp_all add: a_b_c_d_def)
  then show ?thesis unfolding a_b_c_d_def [symmetric] by arith
qed

lemma show_base_less:
  "length (show_base 10 n) = length (show_base 10 m) \<Longrightarrow>
   show_base 10 n < show_base 10 m \<longleftrightarrow> n < m"
proof (induction "10::nat" n arbitrary: m rule: show_base.induct)
  case (1 n)
  have uf: "show_base 10 k = (if k < 10 then [digit_char k]
      else show_base 10 (k div 10) @ [digit_char (k mod 10)])" for k
    by (subst show_base.simps) simp
  show ?case
  proof (cases "n < 10")
    case True
    then have "m < 10" using "1.prems" by (auto simp: uf [of n] uf [of m] split: if_splits)
    with True show ?thesis by (simp add: uf [of n] uf [of m] digit_char_less)
  next
    case False
    then have m: "\<not> m < 10" using "1.prems" by (auto simp: uf [of n] uf [of m] split: if_splits)
    with False "1.prems" have len: "length (show_base 10 (n div 10)) = length (show_base 10 (m div 10))"
      by (simp add: uf [of n] uf [of m])
    have IH: "show_base 10 (n div 10) < show_base 10 (m div 10) \<longleftrightarrow> n div 10 < m div 10"
      using "1.hyps" False len by simp
    have eq: "show_base 10 (n div 10) = show_base 10 (m div 10) \<longleftrightarrow> n div 10 = m div 10"
      using show_base_inj [of 10 "n div 10" "m div 10"] by auto
    have "show_base 10 n < show_base 10 m \<longleftrightarrow>
        (n div 10 < m div 10 \<or> n div 10 = m div 10 \<and> n mod 10 < m mod 10)"
      using False m by (simp add: uf [of n] uf [of m] snoc_lexord_less [OF len] IH eq digit_char_less)
    also have "\<dots> \<longleftrightarrow> n < m" by (rule div_mod_lex)
    finally show ?thesis .
  qed
qed

lemma digit_chars:
  "digit_char 0 = CHR ''0''" "digit_char (Suc 0) = CHR ''1''" "digit_char 2 = CHR ''2''"
  "digit_char 9 = CHR ''9''"
  by (simp_all add: digit_char_def char_of_def bit_iff_odd)

lemma show_nat_examples:
  "show_nat 0 = ''0''" "show_nat (Suc 0) = ''1''" "show_nat 2 = ''2''" "show_nat 9 = ''9''"
  "show_nat 10 = ''10''"
  by (simp_all add: show_nat_def show_base.simps digit_chars)

end
