(* ===== verification/Json_Value.thy ===== *)
theory Json_Value
  imports Text_Format "HOL-Library.Word"
begin

text \<open>
  The JSON values that flow through every component (\<open>serde_json::Value\<close>), with the accessors
  the code calls on them. Numbers are integers, or floating point numbers kept as their printed
  form: the code never computes with them. An object is a map with strictly increasing keys (the
  crate's default \<open>Map\<close>), so two objects with the same entries are the same value.

  Conversions between JSON and the structs that derive \<open>Serialize\<close> and \<open>Deserialize\<close> are not code
  of the repository: the component theories take them as parameters, and state the law they rely
  on, that decoding inverts encoding, in the locale \<open>codec\<close>.
\<close>

type_synonym u64 = "64 word"
type_synonym u32 = "32 word"

datatype jnum = JInt int | JFloat string

datatype json =
    JNull
  | JBool bool
  | JNum jnum
  | JStr string
  | JArr "json list"
  | JObj "(string \<times> json) list"

fun as_str :: "json \<Rightarrow> string option" where
  "as_str (JStr s) = Some s"
| "as_str _ = None"

fun as_object :: "json \<Rightarrow> (string \<times> json) list option" where
  "as_object (JObj m) = Some m"
| "as_object _ = None"

definition json_get :: "json \<Rightarrow> string \<Rightarrow> json option" where
  "json_get v k = (case v of JObj m \<Rightarrow> map_of m k | _ \<Rightarrow> None)"

text \<open>The \<open>json!\<close> macro on an object: insertions in the order written.\<close>

definition json_object :: "(string \<times> json) list \<Rightarrow> json" where
  "json_object kvs = JObj (bt_of kvs)"

lemma json_get_object [simp]: "json_get (json_object kvs) k = map_of (rev kvs) k"
  by (simp add: json_get_def json_object_def map_of_bt_of)

lemma as_object_Some_iff: "as_object v = Some m \<longleftrightarrow> v = JObj m"
  by (cases v) auto

lemma as_str_Some_iff: "as_str v = Some s \<longleftrightarrow> v = JStr s"
  by (cases v) auto

text \<open>Well-formed values: every object in them has strictly increasing keys.\<close>

fun json_wf :: "json \<Rightarrow> bool" where
  "json_wf (JArr vs) = (\<forall>v \<in> set vs. json_wf v)"
| "json_wf (JObj m) = (bt_wf m \<and> (\<forall>kv \<in> set m. json_wf (snd kv)))"
| "json_wf _ = True"

text \<open>The interface of a derived encoder and decoder pair.\<close>

locale codec =
  fixes enc :: "'a \<Rightarrow> json"
    and dec :: "json \<Rightarrow> 'a option"
  assumes dec_enc: "dec (enc a) = Some a"
begin

lemma enc_inj: "enc a = enc b \<longleftrightarrow> a = b"
  by (metis dec_enc option.inject)

lemma dec_map_enc: "map dec (map enc as) = map Some as"
  by (simp add: dec_enc)

lemma filter_dec_enc: "List.map_filter dec (map enc as) = as"
  by (induction as) (simp_all add: List.map_filter_simps dec_enc)

end

text \<open>Conversions between \<open>i64\<close> (kept as \<open>int\<close>) and \<open>u64\<close>: the \<open>as\<close> casts of the code.\<close>

definition i64_as_u64 :: "int \<Rightarrow> u64" where
  "i64_as_u64 i = word_of_int i"

definition u64_as_i64 :: "u64 \<Rightarrow> int" where
  "u64_as_i64 w = sint w"

lemma u64_as_i64_small: "unat w < 2 ^ 63 \<Longrightarrow> u64_as_i64 w = int (unat w)"
proof -
  assume "unat w < 2 ^ 63"
  then have "int (unat w) < int (2 ^ 63)" by (simp only: of_nat_less_iff)
  moreover have "- (2 ^ 63) \<le> int (unat w)"
    by (rule order_trans [OF _ of_nat_0_le_iff]) simp
  ultimately have "signed_take_bit 63 (int (unat w)) = int (unat w)"
    by (intro signed_take_bit_int_eq_self) simp_all
  then show ?thesis by (simp add: u64_as_i64_def sint_uint)
qed

lemma i64_as_u64_of_nat: "n < 2 ^ 64 \<Longrightarrow> unat (i64_as_u64 (int n)) = n"
  by (simp add: i64_as_u64_def unat_of_nat take_bit_nat_eq_self)

end
