(* ===== verification/Pregel_Types.thy ===== *)
theory Pregel_Types
  imports Json_Value
begin

text \<open>
  \<open>foundation/pregel/src/types.rs\<close>: the reserved write kinds and their channel names, loop status,
  task kinds, and the records that are persisted as JSON in a checkpoint (send packets and
  interrupt records). The derived JSON conversions of those two records are fields of the
  parameter record \<open>serde\<close>; \<open>derived_serde\<close> is a concrete instance that follows the documented
  derive conventions (a struct is an object, or a sequence of all its fields; unknown keys are
  ignored; a missing optional field is \<open>None\<close>), and \<open>serde_ok\<close> is the law the code relies on.
\<close>

type_synonym pending_write = "string \<times> string \<times> json"

definition TASKS_CHANNEL :: string where
  "TASKS_CHANNEL = ''__tasks__''"

datatype reserved_write =
  RError | RInterrupt | RResume | RScheduled | RPush | RReturn | RNoWrites | RTasks

fun reserved_as_str :: "reserved_write \<Rightarrow> string" where
  "reserved_as_str RError = ''__error__''"
| "reserved_as_str RInterrupt = ''__interrupt__''"
| "reserved_as_str RResume = ''__resume__''"
| "reserved_as_str RScheduled = ''__scheduled__''"
| "reserved_as_str RPush = ''__push__''"
| "reserved_as_str RReturn = ''__return__''"
| "reserved_as_str RNoWrites = ''__no_writes__''"
| "reserved_as_str RTasks = TASKS_CHANNEL"

datatype loop_status =
  Running | Done | InterruptedBefore | InterruptedAfter | Cancelled | Failed | OutOfSteps

datatype task_kind = Pull | Push

record send_packet =
  sp_id :: string
  sp_target :: string
  sp_payload :: json
  sp_origin_task_id :: "string option"
  sp_origin_step :: u64

record interrupt_record =
  ir_interrupt_id :: string
  ir_namespace :: string
  ir_task_id :: string
  ir_node_name :: string
  ir_step :: u64
  ir_value :: json

record resume_map =
  rm_by_namespace :: "(string \<times> json) list"
  rm_by_interrupt_id :: "(string \<times> json) list"

lemma reserved_as_str_inj: "reserved_as_str a = reserved_as_str b \<longleftrightarrow> a = b"
  by (cases a; cases b) (simp_all add: TASKS_CHANNEL_def)

lemma reserved_write_UNIV:
  "r \<in> set [RError, RInterrupt, RResume, RScheduled, RPush, RReturn, RNoWrites, RTasks]"
  by (cases r) simp_all

subsection \<open>The JSON conversions of the persisted records\<close>

record serde =
  packet_to_value :: "send_packet \<Rightarrow> json"
  packet_from_value :: "json \<Rightarrow> send_packet option"
  interrupt_to_value :: "interrupt_record \<Rightarrow> json"
  interrupt_from_value :: "json \<Rightarrow> interrupt_record option"
  json_text :: "json \<Rightarrow> string"

definition serde_ok :: "serde \<Rightarrow> bool" where
  "serde_ok S \<longleftrightarrow>
     (\<forall>p. packet_from_value S (packet_to_value S p) = Some p) \<and>
     (\<forall>r. interrupt_from_value S (interrupt_to_value S r) = Some r)"

lemma serde_ok_packet [simp]:
  "serde_ok S \<Longrightarrow> packet_from_value S (packet_to_value S p) = Some p"
  by (simp add: serde_ok_def)

lemma serde_ok_interrupt [simp]:
  "serde_ok S \<Longrightarrow> interrupt_from_value S (interrupt_to_value S r) = Some r"
  by (simp add: serde_ok_def)

lemma serde_ok_codecs:
  assumes "serde_ok S"
  shows "codec (packet_to_value S) (packet_from_value S)"
    and "codec (interrupt_to_value S) (interrupt_from_value S)"
  using assms by (auto intro!: codec.intro)

text \<open>Field decoders: a string, an unsigned 64-bit integer, an optional string.\<close>

fun de_u64 :: "json \<Rightarrow> u64 option" where
  "de_u64 (JNum (JInt i)) = (if 0 \<le> i \<and> i < 18446744073709551616 then Some (word_of_int i) else None)"
| "de_u64 _ = None"

fun de_opt_str :: "json option \<Rightarrow> string option option" where
  "de_opt_str None = Some None"
| "de_opt_str (Some JNull) = Some None"
| "de_opt_str (Some (JStr s)) = Some (Some s)"
| "de_opt_str (Some _) = None"

definition en_opt_str :: "string option \<Rightarrow> json" where
  "en_opt_str s = (case s of None \<Rightarrow> JNull | Some t \<Rightarrow> JStr t)"

definition en_u64 :: "u64 \<Rightarrow> json" where
  "en_u64 w = JNum (JInt (uint w))"

lemma de_en_u64 [simp]: "de_u64 (en_u64 w) = Some w"
  using uint_lt2p [of w] by (simp add: en_u64_def)

lemma de_en_opt_str [simp]: "de_opt_str (Some (en_opt_str s)) = Some s"
  by (cases s) (simp_all add: en_opt_str_def)

definition derived_packet_to_value :: "send_packet \<Rightarrow> json" where
  "derived_packet_to_value p = json_object
     [(''id'', JStr (sp_id p)), (''target'', JStr (sp_target p)), (''payload'', sp_payload p),
      (''origin_task_id'', en_opt_str (sp_origin_task_id p)), (''origin_step'', en_u64 (sp_origin_step p))]"

definition packet_of_fields ::
    "json option \<Rightarrow> json option \<Rightarrow> json option \<Rightarrow> json option \<Rightarrow> json option \<Rightarrow> send_packet option" where
  "packet_of_fields i t p ot os =
     Option.bind (Option.bind i as_str) (\<lambda>i. Option.bind (Option.bind t as_str) (\<lambda>t.
     Option.bind p (\<lambda>p. Option.bind (de_opt_str ot) (\<lambda>ot. Option.bind (Option.bind os de_u64) (\<lambda>os.
       Some \<lparr>sp_id = i, sp_target = t, sp_payload = p, sp_origin_task_id = ot, sp_origin_step = os\<rparr>)))))"

definition derived_packet_from_value :: "json \<Rightarrow> send_packet option" where
  "derived_packet_from_value v =
     (case v of
        JObj m \<Rightarrow> packet_of_fields (map_of m ''id'') (map_of m ''target'') (map_of m ''payload'')
                    (map_of m ''origin_task_id'') (map_of m ''origin_step'')
      | JArr [i, t, p, ot, os] \<Rightarrow> packet_of_fields (Some i) (Some t) (Some p) (Some ot) (Some os)
      | _ \<Rightarrow> None)"

definition derived_interrupt_to_value :: "interrupt_record \<Rightarrow> json" where
  "derived_interrupt_to_value r = json_object
     [(''interrupt_id'', JStr (ir_interrupt_id r)), (''namespace'', JStr (ir_namespace r)),
      (''task_id'', JStr (ir_task_id r)), (''node_name'', JStr (ir_node_name r)),
      (''step'', en_u64 (ir_step r)), (''value'', ir_value r)]"

definition interrupt_of_fields ::
    "json option \<Rightarrow> json option \<Rightarrow> json option \<Rightarrow> json option \<Rightarrow> json option \<Rightarrow> json option
     \<Rightarrow> interrupt_record option" where
  "interrupt_of_fields i ns t n s v =
     Option.bind (Option.bind i as_str) (\<lambda>i. Option.bind (Option.bind ns as_str) (\<lambda>ns.
     Option.bind (Option.bind t as_str) (\<lambda>t. Option.bind (Option.bind n as_str) (\<lambda>n.
     Option.bind (Option.bind s de_u64) (\<lambda>s. Option.bind v (\<lambda>v.
       Some \<lparr>ir_interrupt_id = i, ir_namespace = ns, ir_task_id = t, ir_node_name = n,
             ir_step = s, ir_value = v\<rparr>))))))"

definition derived_interrupt_from_value :: "json \<Rightarrow> interrupt_record option" where
  "derived_interrupt_from_value v =
     (case v of
        JObj m \<Rightarrow> interrupt_of_fields (map_of m ''interrupt_id'') (map_of m ''namespace'')
                    (map_of m ''task_id'') (map_of m ''node_name'') (map_of m ''step'') (map_of m ''value'')
      | JArr [i, ns, t, n, s, v] \<Rightarrow>
          interrupt_of_fields (Some i) (Some ns) (Some t) (Some n) (Some s) (Some v)
      | _ \<Rightarrow> None)"

definition derived_serde :: "(json \<Rightarrow> string) \<Rightarrow> serde" where
  "derived_serde text =
     \<lparr>packet_to_value = derived_packet_to_value, packet_from_value = derived_packet_from_value,
      interrupt_to_value = derived_interrupt_to_value,
      interrupt_from_value = derived_interrupt_from_value, json_text = text\<rparr>"

interpretation packet_codec: codec derived_packet_to_value derived_packet_from_value
  by unfold_locales
    (simp add: derived_packet_to_value_def derived_packet_from_value_def json_object_def
      map_of_bt_of packet_of_fields_def)

interpretation interrupt_codec: codec derived_interrupt_to_value derived_interrupt_from_value
  by unfold_locales
    (simp add: derived_interrupt_to_value_def derived_interrupt_from_value_def json_object_def
      map_of_bt_of interrupt_of_fields_def)

lemma serde_ok_derived [simp]: "serde_ok (derived_serde text)"
  by (simp add: serde_ok_def derived_serde_def packet_codec.dec_enc interrupt_codec.dec_enc)

end
