(* ===== verification/Pregel_Channel.thy ===== *)
theory Pregel_Channel
  imports Pregel_Types
begin

text \<open>
  \<open>foundation/pregel/src/channel.rs\<close>: the six channel kinds of the Pregel runtime. Each struct is a
  record with its own \<open>snapshot\<close>, \<open>update\<close>, \<open>consume\<close>, \<open>finish\<close> operations (an \<open>&mut self\<close> method
  returning \<open>bool\<close> is a function to the flag and the new channel); \<open>channel\<close> is the boxed trait
  object and \<open>chan_update\<close> and its companions are its dynamic dispatch. The contract of the
  \<open>Channel\<close> trait is the locale \<open>channel_ops\<close>, interpreted on all six kinds and on the box.
\<close>

type_synonym reducer = "json option \<Rightarrow> json list \<Rightarrow> json"

datatype channel_kind =
    LastValue
  | Ephemeral
  | Topic bool
  | Tasks
  | BinaryAggregate reducer
  | NamedBarrier "string list"

subsection \<open>The contract of the Channel trait\<close>

datatype chan_op = OpUpdate "json list" | OpConsume | OpFinish

fun run_chan_op ::
    "('c \<Rightarrow> json list \<Rightarrow> bool \<times> 'c) \<Rightarrow> ('c \<Rightarrow> bool \<times> 'c) \<Rightarrow> ('c \<Rightarrow> bool \<times> 'c) \<Rightarrow> chan_op \<Rightarrow> 'c \<Rightarrow> bool \<times> 'c" where
  "run_chan_op up co fi (OpUpdate vs) c = up c vs"
| "run_chan_op up co fi OpConsume c = co c"
| "run_chan_op up co fi OpFinish c = fi c"

fun run_chan_ops ::
    "('c \<Rightarrow> json list \<Rightarrow> bool \<times> 'c) \<Rightarrow> ('c \<Rightarrow> bool \<times> 'c) \<Rightarrow> ('c \<Rightarrow> bool \<times> 'c) \<Rightarrow> chan_op list \<Rightarrow> 'c \<Rightarrow> 'c" where
  "run_chan_ops up co fi [] c = c"
| "run_chan_ops up co fi (x # xs) c = run_chan_ops up co fi xs (snd (run_chan_op up co fi x c))"

locale channel_ops =
  fixes snapshot :: "'c \<Rightarrow> json"
    and update :: "'c \<Rightarrow> json list \<Rightarrow> bool \<times> 'c"
    and consume :: "'c \<Rightarrow> bool \<times> 'c"
    and finish :: "'c \<Rightarrow> bool \<times> 'c"
    and available :: "'c \<Rightarrow> bool"
  assumes update_Nil: "update c [] = (False, c)"
    and update_quiet: "\<not> fst (update c vs) \<Longrightarrow> snapshot (snd (update c vs)) = snapshot c"
    and consume_quiet: "\<not> fst (consume c) \<Longrightarrow> snapshot (snd (consume c)) = snapshot c"
    and finish_snapshot: "snapshot (snd (finish c)) = snapshot c"
    and update_available: "available (snd (update c vs)) = available c"
    and consume_available: "available (snd (consume c)) = available c"
    and finish_flag: "fst (finish c) = available c"
    and finish_available: "\<not> available (snd (finish c))"
begin

lemma finish_twice: "\<not> fst (finish (snd (finish c)))"
  by (simp add: finish_flag finish_available)

lemma step_available:
  "available (snd (run_chan_op update consume finish x c)) \<longleftrightarrow> x \<noteq> OpFinish \<and> available c"
  by (cases x) (simp_all add: update_available consume_available finish_available)

text \<open>A channel is available exactly until the first \<open>finish\<close>.\<close>

lemma run_available:
  "available (run_chan_ops update consume finish xs c) \<longleftrightarrow> OpFinish \<notin> set xs \<and> available c"
  by (induction xs arbitrary: c) (auto simp: step_available)

lemma step_quiet:
  "\<not> fst (run_chan_op update consume finish x c) \<Longrightarrow>
   snapshot (snd (run_chan_op update consume finish x c)) = snapshot c"
  by (cases x) (simp_all add: update_quiet consume_quiet finish_snapshot)

end

subsection \<open>LastValueChannel\<close>

record last_value_channel =
  lv_value :: "json option"
  lv_available :: bool

definition lv_new :: last_value_channel where
  "lv_new = \<lparr>lv_value = None, lv_available = True\<rparr>"

definition lv_snapshot :: "last_value_channel \<Rightarrow> json" where
  "lv_snapshot c = (case lv_value c of Some v \<Rightarrow> v | None \<Rightarrow> JNull)"

definition lv_update :: "last_value_channel \<Rightarrow> json list \<Rightarrow> bool \<times> last_value_channel" where
  "lv_update c values =
     (if values = [] then (False, c)
      else (lv_value c \<noteq> Some (last values), c\<lparr>lv_value := Some (last values)\<rparr>))"

definition lv_consume :: "last_value_channel \<Rightarrow> bool \<times> last_value_channel" where
  "lv_consume c = (False, c)"

definition lv_finish :: "last_value_channel \<Rightarrow> bool \<times> last_value_channel" where
  "lv_finish c = (lv_available c, c\<lparr>lv_available := False\<rparr>)"

lemmas lv_defs = lv_snapshot_def lv_update_def lv_consume_def lv_finish_def lv_new_def

interpretation lv: channel_ops lv_snapshot lv_update lv_consume lv_finish lv_available
  by unfold_locales (auto simp: lv_defs)

subsection \<open>EphemeralChannel\<close>

record ephemeral_channel =
  ep_value :: "json option"
  ep_pending_clear :: bool
  ep_available :: bool

definition ep_new :: ephemeral_channel where
  "ep_new = \<lparr>ep_value = None, ep_pending_clear = False, ep_available = True\<rparr>"

definition ep_snapshot :: "ephemeral_channel \<Rightarrow> json" where
  "ep_snapshot c = (case ep_value c of Some v \<Rightarrow> v | None \<Rightarrow> JNull)"

definition ep_update :: "ephemeral_channel \<Rightarrow> json list \<Rightarrow> bool \<times> ephemeral_channel" where
  "ep_update c values =
     (if values = [] then (False, c)
      else (ep_value c \<noteq> Some (last values),
            c\<lparr>ep_value := Some (last values), ep_pending_clear := False\<rparr>))"

definition ep_consume :: "ephemeral_channel \<Rightarrow> bool \<times> ephemeral_channel" where
  "ep_consume c =
     (if ep_pending_clear c then
        (if ep_value c \<noteq> None then (True, c\<lparr>ep_value := None, ep_pending_clear := False\<rparr>)
         else (False, c\<lparr>ep_pending_clear := False\<rparr>))
      else if ep_value c \<noteq> None then (False, c\<lparr>ep_pending_clear := True\<rparr>)
      else (False, c))"

definition ep_finish :: "ephemeral_channel \<Rightarrow> bool \<times> ephemeral_channel" where
  "ep_finish c = (ep_available c, c\<lparr>ep_available := False\<rparr>)"

lemmas ep_defs = ep_snapshot_def ep_update_def ep_consume_def ep_finish_def ep_new_def

interpretation ep: channel_ops ep_snapshot ep_update ep_consume ep_finish ep_available
  by unfold_locales (auto simp: ep_defs)

subsection \<open>TopicChannel and TasksChannel\<close>

record topic_channel =
  tp_values :: "json list"
  tp_accumulate :: bool
  tp_available :: bool

definition tp_new :: "bool \<Rightarrow> topic_channel" where
  "tp_new acc = \<lparr>tp_values = [], tp_accumulate = acc, tp_available = True\<rparr>"

definition tp_snapshot :: "topic_channel \<Rightarrow> json" where
  "tp_snapshot c = JArr (tp_values c)"

definition tp_update :: "topic_channel \<Rightarrow> json list \<Rightarrow> bool \<times> topic_channel" where
  "tp_update c values =
     (if values = [] then (False, c)
      else (True, c\<lparr>tp_values := (if tp_accumulate c then tp_values c @ values else values)\<rparr>))"

definition tp_consume :: "topic_channel \<Rightarrow> bool \<times> topic_channel" where
  "tp_consume c =
     (if tp_accumulate c \<or> tp_values c = [] then (False, c) else (True, c\<lparr>tp_values := []\<rparr>))"

definition tp_finish :: "topic_channel \<Rightarrow> bool \<times> topic_channel" where
  "tp_finish c = (tp_available c, c\<lparr>tp_available := False\<rparr>)"

lemmas tp_defs = tp_snapshot_def tp_update_def tp_consume_def tp_finish_def tp_new_def

interpretation tp: channel_ops tp_snapshot tp_update tp_consume tp_finish tp_available
  by unfold_locales (auto simp: tp_defs split: if_splits)

record tasks_channel =
  tk_values :: "json list"
  tk_available :: bool

definition tk_new :: tasks_channel where
  "tk_new = \<lparr>tk_values = [], tk_available = True\<rparr>"

definition tk_snapshot :: "tasks_channel \<Rightarrow> json" where
  "tk_snapshot c = JArr (tk_values c)"

definition tk_update :: "tasks_channel \<Rightarrow> json list \<Rightarrow> bool \<times> tasks_channel" where
  "tk_update c values =
     (if values = [] then (False, c) else (True, c\<lparr>tk_values := tk_values c @ values\<rparr>))"

definition tk_consume :: "tasks_channel \<Rightarrow> bool \<times> tasks_channel" where
  "tk_consume c = (if tk_values c = [] then (False, c) else (True, c\<lparr>tk_values := []\<rparr>))"

definition tk_finish :: "tasks_channel \<Rightarrow> bool \<times> tasks_channel" where
  "tk_finish c = (tk_available c, c\<lparr>tk_available := False\<rparr>)"

lemmas tk_defs = tk_snapshot_def tk_update_def tk_consume_def tk_finish_def tk_new_def

interpretation tk: channel_ops tk_snapshot tk_update tk_consume tk_finish tk_available
  by unfold_locales (auto simp: tk_defs split: if_splits)

subsection \<open>BinaryAggregateChannel\<close>

record binary_aggregate_channel =
  ba_value :: "json option"
  ba_reducer :: reducer
  ba_available :: bool

definition ba_new :: "reducer \<Rightarrow> binary_aggregate_channel" where
  "ba_new red = \<lparr>ba_value = None, ba_reducer = red, ba_available = True\<rparr>"

definition ba_snapshot :: "binary_aggregate_channel \<Rightarrow> json" where
  "ba_snapshot c = (case ba_value c of Some v \<Rightarrow> v | None \<Rightarrow> JNull)"

definition ba_update :: "binary_aggregate_channel \<Rightarrow> json list \<Rightarrow> bool \<times> binary_aggregate_channel" where
  "ba_update c values =
     (if values = [] then (False, c)
      else (True, c\<lparr>ba_value := Some (ba_reducer c (ba_value c) values)\<rparr>))"

definition ba_consume :: "binary_aggregate_channel \<Rightarrow> bool \<times> binary_aggregate_channel" where
  "ba_consume c = (False, c)"

definition ba_finish :: "binary_aggregate_channel \<Rightarrow> bool \<times> binary_aggregate_channel" where
  "ba_finish c = (ba_available c, c\<lparr>ba_available := False\<rparr>)"

lemmas ba_defs = ba_snapshot_def ba_update_def ba_consume_def ba_finish_def ba_new_def

interpretation ba: channel_ops ba_snapshot ba_update ba_consume ba_finish ba_available
  by unfold_locales (auto simp: ba_defs split: if_splits)

subsection \<open>NamedBarrierChannel\<close>

record named_barrier_channel =
  nb_expected :: "string set"
  nb_seen :: "string set"
  nb_available :: bool

definition nb_new :: "string list \<Rightarrow> named_barrier_channel" where
  "nb_new expected = \<lparr>nb_expected = set expected, nb_seen = {}, nb_available = True\<rparr>"

definition barrier_met :: "named_barrier_channel \<Rightarrow> bool" where
  "barrier_met c \<longleftrightarrow> (\<forall>name \<in> nb_expected c. name \<in> nb_seen c)"

definition nb_snapshot :: "named_barrier_channel \<Rightarrow> json" where
  "nb_snapshot c = (if barrier_met c then JBool True else JNull)"

text \<open>The loop over the written values; the flag is the running value of \<open>changed\<close>.\<close>

fun nb_update_loop :: "bool \<Rightarrow> named_barrier_channel \<Rightarrow> json list \<Rightarrow> bool \<times> named_barrier_channel" where
  "nb_update_loop changed c [] = (changed, c)"
| "nb_update_loop changed c (v # vs) =
     (case as_str v of
        Some name \<Rightarrow>
          (if name \<in> nb_expected c then
             (if name \<in> nb_seen c then nb_update_loop changed c vs
              else nb_update_loop True (c\<lparr>nb_seen := insert name (nb_seen c)\<rparr>) vs)
           else nb_update_loop changed c vs)
      | None \<Rightarrow> nb_update_loop changed c vs)"

definition nb_update :: "named_barrier_channel \<Rightarrow> json list \<Rightarrow> bool \<times> named_barrier_channel" where
  "nb_update c values = nb_update_loop False c values"

definition nb_consume :: "named_barrier_channel \<Rightarrow> bool \<times> named_barrier_channel" where
  "nb_consume c =
     (if \<not> barrier_met c \<or> nb_seen c = {} then (False, c) else (True, c\<lparr>nb_seen := {}\<rparr>))"

definition nb_finish :: "named_barrier_channel \<Rightarrow> bool \<times> named_barrier_channel" where
  "nb_finish c = (nb_available c, c\<lparr>nb_available := False\<rparr>)"

lemmas nb_defs = nb_snapshot_def nb_update_def nb_consume_def nb_finish_def nb_new_def barrier_met_def

text \<open>One update adds exactly the expected names among the strings written, and reports whether
  that was a change.\<close>

definition names_in :: "json list \<Rightarrow> string set" where
  "names_in vs = {n. JStr n \<in> set vs}"

lemma names_in_simps [simp]:
  "names_in [] = {}"
  "names_in (v # vs) = (case as_str v of Some n \<Rightarrow> insert n (names_in vs) | None \<Rightarrow> names_in vs)"
  by (auto simp: names_in_def as_str_Some_iff split: option.splits)

lemma nb_update_loop_state:
  "snd (nb_update_loop ch c vs) = c\<lparr>nb_seen := nb_seen c \<union> (nb_expected c \<inter> names_in vs)\<rparr>"
  by (induction ch c vs rule: nb_update_loop.induct) (auto simp: insert_absorb split: option.splits)

lemma nb_update_loop_flag:
  "fst (nb_update_loop ch c vs) \<longleftrightarrow> ch \<or> \<not> nb_expected c \<inter> names_in vs \<subseteq> nb_seen c"
  by (induction ch c vs rule: nb_update_loop.induct) (auto split: option.splits)

lemma nb_update_seen: "nb_seen (snd (nb_update c vs)) = nb_seen c \<union> (nb_expected c \<inter> names_in vs)"
  by (simp add: nb_update_def nb_update_loop_state)

interpretation nb: channel_ops nb_snapshot nb_update nb_consume nb_finish nb_available
proof unfold_locales
  fix c vs
  assume "\<not> fst (nb_update c vs)"
  then have "nb_seen c \<union> (nb_expected c \<inter> names_in vs) = nb_seen c"
    by (auto simp: nb_update_def nb_update_loop_flag)
  then show "nb_snapshot (snd (nb_update c vs)) = nb_snapshot c"
    by (simp add: nb_update_def nb_update_loop_state nb_snapshot_def barrier_met_def)
qed (auto simp: nb_defs nb_update_loop_state split: if_splits)

subsection \<open>The boxed channel\<close>

datatype channel =
    LastValueC last_value_channel
  | EphemeralC ephemeral_channel
  | TopicC topic_channel
  | TasksC tasks_channel
  | BinaryAggregateC binary_aggregate_channel
  | NamedBarrierC named_barrier_channel

fun build_channel :: "channel_kind \<Rightarrow> channel" where
  "build_channel LastValue = LastValueC lv_new"
| "build_channel Ephemeral = EphemeralC ep_new"
| "build_channel (Topic accumulate) = TopicC (tp_new accumulate)"
| "build_channel Tasks = TasksC tk_new"
| "build_channel (BinaryAggregate red) = BinaryAggregateC (ba_new red)"
| "build_channel (NamedBarrier expected) = NamedBarrierC (nb_new expected)"

fun chan_snapshot :: "channel \<Rightarrow> json" where
  "chan_snapshot (LastValueC c) = lv_snapshot c"
| "chan_snapshot (EphemeralC c) = ep_snapshot c"
| "chan_snapshot (TopicC c) = tp_snapshot c"
| "chan_snapshot (TasksC c) = tk_snapshot c"
| "chan_snapshot (BinaryAggregateC c) = ba_snapshot c"
| "chan_snapshot (NamedBarrierC c) = nb_snapshot c"

fun chan_update :: "channel \<Rightarrow> json list \<Rightarrow> bool \<times> channel" where
  "chan_update (LastValueC c) vs = map_prod id LastValueC (lv_update c vs)"
| "chan_update (EphemeralC c) vs = map_prod id EphemeralC (ep_update c vs)"
| "chan_update (TopicC c) vs = map_prod id TopicC (tp_update c vs)"
| "chan_update (TasksC c) vs = map_prod id TasksC (tk_update c vs)"
| "chan_update (BinaryAggregateC c) vs = map_prod id BinaryAggregateC (ba_update c vs)"
| "chan_update (NamedBarrierC c) vs = map_prod id NamedBarrierC (nb_update c vs)"

fun chan_consume :: "channel \<Rightarrow> bool \<times> channel" where
  "chan_consume (LastValueC c) = map_prod id LastValueC (lv_consume c)"
| "chan_consume (EphemeralC c) = map_prod id EphemeralC (ep_consume c)"
| "chan_consume (TopicC c) = map_prod id TopicC (tp_consume c)"
| "chan_consume (TasksC c) = map_prod id TasksC (tk_consume c)"
| "chan_consume (BinaryAggregateC c) = map_prod id BinaryAggregateC (ba_consume c)"
| "chan_consume (NamedBarrierC c) = map_prod id NamedBarrierC (nb_consume c)"

fun chan_finish :: "channel \<Rightarrow> bool \<times> channel" where
  "chan_finish (LastValueC c) = map_prod id LastValueC (lv_finish c)"
| "chan_finish (EphemeralC c) = map_prod id EphemeralC (ep_finish c)"
| "chan_finish (TopicC c) = map_prod id TopicC (tp_finish c)"
| "chan_finish (TasksC c) = map_prod id TasksC (tk_finish c)"
| "chan_finish (BinaryAggregateC c) = map_prod id BinaryAggregateC (ba_finish c)"
| "chan_finish (NamedBarrierC c) = map_prod id NamedBarrierC (nb_finish c)"

fun chan_available :: "channel \<Rightarrow> bool" where
  "chan_available (LastValueC c) = lv_available c"
| "chan_available (EphemeralC c) = ep_available c"
| "chan_available (TopicC c) = tp_available c"
| "chan_available (TasksC c) = tk_available c"
| "chan_available (BinaryAggregateC c) = ba_available c"
| "chan_available (NamedBarrierC c) = nb_available c"

lemma chan_update_Nil [simp]: "chan_update c [] = (False, c)"
  by (cases c) (simp_all add: lv.update_Nil ep.update_Nil tp.update_Nil tk.update_Nil ba.update_Nil
      nb.update_Nil)

interpretation chan: channel_ops chan_snapshot chan_update chan_consume chan_finish chan_available
proof unfold_locales
  fix c vs
  show "chan_update c [] = (False, c)" by simp
  show "\<not> fst (chan_update c vs) \<Longrightarrow> chan_snapshot (snd (chan_update c vs)) = chan_snapshot c"
    by (cases c) (simp_all add: lv.update_quiet ep.update_quiet tp.update_quiet tk.update_quiet
        ba.update_quiet nb.update_quiet)
  show "\<not> fst (chan_consume c) \<Longrightarrow> chan_snapshot (snd (chan_consume c)) = chan_snapshot c"
    by (cases c) (simp_all add: lv.consume_quiet ep.consume_quiet tp.consume_quiet tk.consume_quiet
        ba.consume_quiet nb.consume_quiet)
  show "chan_snapshot (snd (chan_finish c)) = chan_snapshot c"
    by (cases c) (simp_all add: lv.finish_snapshot ep.finish_snapshot tp.finish_snapshot
        tk.finish_snapshot ba.finish_snapshot nb.finish_snapshot)
  show "chan_available (snd (chan_update c vs)) = chan_available c"
    by (cases c) (simp_all add: lv.update_available ep.update_available tp.update_available
        tk.update_available ba.update_available nb.update_available)
  show "chan_available (snd (chan_consume c)) = chan_available c"
    by (cases c) (simp_all add: lv.consume_available ep.consume_available tp.consume_available
        tk.consume_available ba.consume_available nb.consume_available)
  show "fst (chan_finish c) = chan_available c"
    by (cases c) (simp_all add: lv.finish_flag ep.finish_flag tp.finish_flag tk.finish_flag
        ba.finish_flag nb.finish_flag)
  show "\<not> chan_available (snd (chan_finish c))"
    by (cases c) (simp_all add: lv.finish_available ep.finish_available tp.finish_available
        tk.finish_available ba.finish_available nb.finish_available)
qed

lemma build_channel_available [simp]: "chan_available (build_channel k)"
  by (cases k) (simp_all add: lv_new_def ep_new_def tp_new_def tk_new_def ba_new_def nb_new_def)

subsection \<open>Properties\<close>

abbreviation run_chan :: "chan_op list \<Rightarrow> channel \<Rightarrow> channel" where
  "run_chan \<equiv> run_chan_ops chan_update chan_consume chan_finish"

text \<open>a channel of any kind takes part in scheduling exactly until it is finished: after any
  sequence of updates, consumes and finishes it is available iff no finish occurred.\<close>

theorem channel_available_until_finish:
  "chan_available (run_chan ops (build_channel k)) \<longleftrightarrow> OpFinish \<notin> set ops"
  by (simp add: chan.run_available)

text \<open>an ephemeral value is visible for exactly one step: after the last of the values written
  it survives the consume of its own barrier, and the next consume clears it and reports the
  change.\<close>

theorem ephemeral_lives_one_step:
  "let c1 = snd (ep_update c (vs @ [v])); c2 = snd (ep_consume c1); c3 = snd (ep_consume c2)
   in ep_snapshot c1 = v \<and> ep_snapshot c2 = v \<and> fst (ep_consume c2) \<and> ep_value c3 = None \<and>
      ep_snapshot c3 = JNull"
  by (simp add: ep_defs Let_def)

fun updates_of :: "chan_op list \<Rightarrow> json list" where
  "updates_of [] = []"
| "updates_of (OpUpdate vs # xs) = vs @ updates_of xs"
| "updates_of (_ # xs) = updates_of xs"

lemma topic_run:
  "tp_accumulate c \<Longrightarrow> run_chan ops (TopicC c) =
     TopicC (c\<lparr>tp_values := tp_values c @ updates_of ops,
               tp_available := tp_available c \<and> OpFinish \<notin> set ops\<rparr>)"
proof (induction ops arbitrary: c)
  case (Cons x ops)
  then show ?case by (cases x) (auto simp: tp_defs)
qed simp

text \<open>an accumulating topic never loses a value: whatever happens to it, its snapshot is the
  array of all values written so far, in order.\<close>

theorem topic_accumulates:
  "chan_snapshot (run_chan ops (build_channel (Topic True))) = JArr (updates_of ops)"
  by (simp add: topic_run tp_new_def tp_snapshot_def)

text \<open>the tasks mailbox and a plain topic hold a batch for one step only: the consume of a
  barrier empties them, and reports a change exactly when they held something.\<close>

theorem mailbox_drained_by_consume:
  "tk_snapshot (snd (tk_consume c)) = JArr [] \<and> (fst (tk_consume c) \<longleftrightarrow> tk_values c \<noteq> []) \<and>
   tp_snapshot (snd (tp_consume (d\<lparr>tp_accumulate := False\<rparr>))) = JArr [] \<and>
   (fst (tp_consume (d\<lparr>tp_accumulate := False\<rparr>)) \<longleftrightarrow> tp_values d \<noteq> [])"
  by (auto simp: tk_defs tp_defs)

abbreviation run_barrier :: "chan_op list \<Rightarrow> named_barrier_channel \<Rightarrow> named_barrier_channel" where
  "run_barrier \<equiv> run_chan_ops nb_update nb_consume nb_finish"

lemma barrier_run_updates:
  "run_barrier (map OpUpdate vss) c = c\<lparr>nb_seen := nb_seen c \<union> (nb_expected c \<inter> names_in (concat vss))\<rparr>"
proof (induction vss arbitrary: c)
  case (Cons vs vss)
  have "names_in (vs @ ws) = names_in vs \<union> names_in ws" for ws by (auto simp: names_in_def)
  with Cons show ?case by (simp add: nb_update_def nb_update_loop_state Int_Un_distrib Un_assoc)
qed simp

text \<open>a named barrier opens exactly when every expected name has been written, whatever the
  number of updates, their order, repetitions and unexpected names; the consume that follows closes
  a barrier that expects anything and forgets the names seen.\<close>

theorem barrier_opens_iff:
  "let c = run_barrier (map OpUpdate vss) (nb_new expected)
   in (nb_snapshot c = JBool True \<longleftrightarrow> set expected \<subseteq> names_in (concat vss)) \<and>
      (nb_snapshot c = JNull \<longleftrightarrow> \<not> set expected \<subseteq> names_in (concat vss)) \<and>
      (fst (nb_consume c) \<longleftrightarrow> expected \<noteq> [] \<and> set expected \<subseteq> names_in (concat vss)) \<and>
      (if barrier_met c then nb_seen (snd (nb_consume c)) = {} else snd (nb_consume c) = c)"
proof -
  have "barrier_met (run_barrier (map OpUpdate vss) (nb_new expected)) \<longleftrightarrow>
      set expected \<subseteq> names_in (concat vss)"
    by (auto simp: barrier_run_updates nb_new_def barrier_met_def)
  then show ?thesis
    by (cases "set expected \<subseteq> names_in (concat vss)")
      (auto simp: Let_def nb_snapshot_def nb_consume_def barrier_run_updates nb_new_def Int_absorb2)
qed

end
