(* ===== verification/Graph_Error.thy ===== *)
theory Graph_Error
  imports Pregel_Types
begin

text \<open>
  \<open>foundation/graph-core/src/error.rs\<close> and \<open>retry.rs\<close>: the error type every node returns, the
  interrupt value it may carry, and the retry policies. A \<open>Duration\<close> is a number of
  nanoseconds, a \<open>usize\<close> a natural number. The floating point part of the exponential delay (the
  initial interval times a power of the multiplier, in milliseconds) is the argument \<open>scaled\<close>,
  which also receives the clamp; nothing but the length of a sleep depends on it.
\<close>

record interrupt =
  in_value :: json
  in_id :: "string option"

datatype graph_error = ExecutionFailed string | Cancelled_Err | Interrupted_Err interrupt

definition interrupt_new :: "json \<Rightarrow> interrupt" where
  "interrupt_new v = \<lparr>in_value = v, in_id = None\<rparr>"

definition interrupt_with_id :: "json \<Rightarrow> string \<Rightarrow> interrupt" where
  "interrupt_with_id v i = \<lparr>in_value = v, in_id = Some i\<rparr>"

definition show_interrupt :: "(json \<Rightarrow> string) \<Rightarrow> interrupt \<Rightarrow> string" where
  "show_interrupt text i =
     (case in_id i of
        Some n \<Rightarrow> ''interrupt(id='' @ n @ ''): '' @ text (in_value i)
      | None \<Rightarrow> ''interrupt: '' @ text (in_value i))"

fun show_graph_error :: "(json \<Rightarrow> string) \<Rightarrow> graph_error \<Rightarrow> string" where
  "show_graph_error text (ExecutionFailed m) = ''execution failed: '' @ m"
| "show_graph_error text Cancelled_Err = ''run cancelled''"
| "show_graph_error text (Interrupted_Err i) = ''graph interrupted: '' @ show_interrupt text i"

fun is_retryable :: "graph_error \<Rightarrow> bool" where
  "is_retryable (ExecutionFailed _) = True"
| "is_retryable _ = False"

fun is_interrupt :: "graph_error \<Rightarrow> bool" where
  "is_interrupt (Interrupted_Err _) = True"
| "is_interrupt _ = False"

subsection \<open>Retry policies\<close>

datatype 'f retry_policy =
    NoRetry
  | Fixed nat nat
  | Exponential nat nat nat 'f

fun max_attempts :: "'f retry_policy \<Rightarrow> nat" where
  "max_attempts NoRetry = 1"
| "max_attempts (Fixed n _) = n"
| "max_attempts (Exponential n _ _ _) = n"

fun delay_for_attempt ::
    "(nat \<Rightarrow> nat \<Rightarrow> 'f \<Rightarrow> int \<Rightarrow> nat) \<Rightarrow> 'f retry_policy \<Rightarrow> nat \<Rightarrow> nat option" where
  "delay_for_attempt scaled NoRetry attempt = None"
| "delay_for_attempt scaled (Fixed n interval) attempt =
     (if attempt \<le> n then Some interval else None)"
| "delay_for_attempt scaled (Exponential n initial maximum multiplier) attempt =
     (if attempt > n then None
      else Some (scaled (initial div 1000000) (maximum div 1000000) multiplier (int attempt - 1) * 1000000))"

fun allows_retries :: "'f retry_policy \<Rightarrow> bool" where
  "allows_retries NoRetry = False"
| "allows_retries _ = True"

definition should_retry :: "'f retry_policy \<Rightarrow> nat \<Rightarrow> bool" where
  "should_retry policy attempt \<longleftrightarrow> attempt < max_attempts policy"

definition delay ::
    "(nat \<Rightarrow> nat \<Rightarrow> 'f \<Rightarrow> int \<Rightarrow> nat) \<Rightarrow> 'f retry_policy \<Rightarrow> nat \<Rightarrow> nat" where
  "delay scaled policy attempt =
     (case delay_for_attempt scaled policy attempt of Some d \<Rightarrow> d | None \<Rightarrow> 0)"

text \<open>Whenever a policy that allows retries asks for one, the delay is the configured one: the
  attempt counter handed to \<open>delay\<close> is always within the bound \<open>delay_for_attempt\<close> checks.\<close>

lemma delay_for_should_retry:
  "allows_retries p \<Longrightarrow> should_retry p a \<Longrightarrow> delay_for_attempt f p a \<noteq> None"
  by (cases p) (simp_all add: should_retry_def)

end
