(* ===== verification/Pregel_Graph.thy ===== *)
theory Pregel_Graph
  imports Pregel_Channel Graph_Error
begin

text \<open>
  \<open>foundation/pregel/src/node.rs\<close>, \<open>config.rs\<close> and \<open>validate.rs\<close>: the static graph, its builder
  operations, the run configuration, and the structural validation that runs before a graph is
  executed. A node is its name, its trigger channels and the channels it reads; what it computes
  is user code and a parameter of the runner.
\<close>

record pnode =
  nd_name :: string
  nd_triggers :: "string list"
  nd_reads :: "string list"

record pregel_graph =
  g_nodes :: "(string \<times> pnode) list"
  g_channels :: "(string \<times> channel_kind) list"
  g_input_channels :: "string list"
  g_output_channels :: "string list"
  g_trigger_to_nodes :: "(string \<times> string list) list"

datatype durability = Sync | Async | Exit

record 'f pregel_config =
  cf_max_steps :: u64
  cf_retry_policy :: "'f retry_policy"
  cf_durability :: durability
  cf_interrupt_before :: "string list"
  cf_interrupt_after :: "string list"

definition default_pregel_config :: "'f pregel_config" where
  "default_pregel_config =
     \<lparr>cf_max_steps = 100, cf_retry_policy = NoRetry, cf_durability = Sync,
      cf_interrupt_before = [], cf_interrupt_after = []\<rparr>"

subsection \<open>The graph builder\<close>

definition graph_new :: pregel_graph where
  "graph_new = \<lparr>g_nodes = [], g_channels = [], g_input_channels = [], g_output_channels = [],
                g_trigger_to_nodes = []\<rparr>"

definition add_channel :: "string \<Rightarrow> channel_kind \<Rightarrow> pregel_graph \<Rightarrow> pregel_graph" where
  "add_channel n k g = g\<lparr>g_channels := AList.update n k (g_channels g)\<rparr>"

definition add_node :: "pnode \<Rightarrow> pregel_graph \<Rightarrow> pregel_graph" where
  "add_node nd g = g\<lparr>g_nodes := AList.update (nd_name nd) nd (g_nodes g)\<rparr>"

definition set_input_channels :: "string list \<Rightarrow> pregel_graph \<Rightarrow> pregel_graph" where
  "set_input_channels ns g = g\<lparr>g_input_channels := ns\<rparr>"

definition set_output_channels :: "string list \<Rightarrow> pregel_graph \<Rightarrow> pregel_graph" where
  "set_output_channels ns g = g\<lparr>g_output_channels := ns\<rparr>"

text \<open>\<open>entry(k).or_default().push(v)\<close>: append to the list under a key, creating it.\<close>

definition push_entry :: "'k \<Rightarrow> 'v \<Rightarrow> ('k \<times> 'v list) list \<Rightarrow> ('k \<times> 'v list) list" where
  "push_entry k v m = AList.update k ((case map_of m k of Some vs \<Rightarrow> vs | None \<Rightarrow> []) @ [v]) m"

definition build_trigger_index :: "pregel_graph \<Rightarrow> pregel_graph" where
  "build_trigger_index g =
     g\<lparr>g_trigger_to_nodes :=
         fold (\<lambda>(name, nd) m. fold (\<lambda>t. push_entry t name) (nd_triggers nd) m) (g_nodes g) []\<rparr>"

lemma pget_push_entry [assoc_simps]:
  "pget (push_entry k v m) k' = (if k' = k then pget m k @ [v] else pget m k')"
  by (simp add: pget_def push_entry_def split: option.splits)

lemma pget_fold_push:
  "pget (fold (\<lambda>t. push_entry t v) ts m) k = pget m k @ replicate (count_list ts k) v"
  by (induction ts arbitrary: m)
    (auto simp: pget_push_entry replicate_append_same [symmetric] simp del: replicate_append_same)

text \<open>The index lists, under each trigger, the nodes subscribed to it, in the order of the map.\<close>

lemma trigger_index_fold:
  "pget (fold (\<lambda>(name, nd) m. fold (\<lambda>t. push_entry t name) (nd_triggers nd) m) ns m) k
     = pget m k @ concat (map (\<lambda>(name, nd). replicate (count_list (nd_triggers nd) k) name) ns)"
  by (induction ns arbitrary: m) (auto simp: pget_fold_push)

subsection \<open>Validation\<close>

definition reserved_all :: "reserved_write list" where
  "reserved_all = [RError, RInterrupt, RResume, RScheduled, RPush, RReturn, RNoWrites, RTasks]"

definition matches_reserved_name :: "string \<Rightarrow> bool" where
  "matches_reserved_name name \<longleftrightarrow> (\<exists>r \<in> set reserved_all. reserved_as_str r = name)"

type_synonym 'a gresult = "graph_error + 'a"

text \<open>\<open>a?; b\<close>.\<close>

definition and_then :: "unit gresult \<Rightarrow> unit gresult \<Rightarrow> unit gresult" where
  "and_then a b = (case a of Inl e \<Rightarrow> Inl e | Inr _ \<Rightarrow> b)"

lemma and_then_ok: "and_then a b = Inr () \<longleftrightarrow> a = Inr () \<and> b = Inr ()"
  by (cases a) (simp_all add: and_then_def)

text \<open>\<open>for x in xs { f(x)?; }\<close>: stop at the first error.\<close>

fun try_each :: "('a \<Rightarrow> unit gresult) \<Rightarrow> 'a list \<Rightarrow> unit gresult" where
  "try_each f [] = Inr ()"
| "try_each f (x # xs) = (case f x of Inl e \<Rightarrow> Inl e | Inr _ \<Rightarrow> try_each f xs)"

lemma try_each_ok: "try_each f xs = Inr () \<longleftrightarrow> (\<forall>x \<in> set xs. f x = Inr ())"
  by (induction xs) (auto split: sum.splits)

definition is_tasks_kind :: "channel_kind \<Rightarrow> bool" where
  "is_tasks_kind k = (case k of Tasks \<Rightarrow> True | _ \<Rightarrow> False)"

definition validate_channel_name :: "string \<Rightarrow> channel_kind \<Rightarrow> unit gresult" where
  "validate_channel_name name kind =
     (if name = TASKS_CHANNEL then
        (if is_tasks_kind kind then Inr ()
         else Inl (ExecutionFailed (''reserved channel '' @ TASKS_CHANNEL @ '' must use ChannelKind::Tasks'')))
      else if matches_reserved_name name then
        Inl (ExecutionFailed (''channel name '' @ name @ '' is reserved''))
      else if is_tasks_kind kind then
        Inl (ExecutionFailed (''ChannelKind::Tasks must use reserved channel name '' @ TASKS_CHANNEL))
      else Inr ())"

definition validate_node_name :: "string \<Rightarrow> unit gresult" where
  "validate_node_name name =
     (if matches_reserved_name name then
        Inl (ExecutionFailed (''node name '' @ name @ '' is reserved''))
      else Inr ())"

definition validate_node_channels :: "string \<Rightarrow> pnode \<Rightarrow> string set \<Rightarrow> unit gresult" where
  "validate_node_channels node_name nd known =
     (let reads_push_payload = (\<exists>t \<in> set (nd_triggers nd). t = TASKS_CHANNEL) in
      and_then
        (try_each (\<lambda>t. if t \<notin> known
           then Inl (ExecutionFailed (''node '' @ node_name @ '' subscribes to unknown channel '' @ t))
           else Inr ()) (nd_triggers nd))
        (try_each (\<lambda>r. if reads_push_payload \<and> r \<notin> known then Inr ()
           else if r \<notin> known
           then Inl (ExecutionFailed (''node '' @ node_name @ '' reads unknown channel '' @ r))
           else Inr ()) (nd_reads nd)))"

definition validate_input_channels :: "string list \<Rightarrow> string set \<Rightarrow> unit gresult" where
  "validate_input_channels ins known =
     try_each (\<lambda>c. if c \<notin> known then Inl (ExecutionFailed (''input channel '' @ c @ '' is not defined''))
                   else Inr ()) ins"

definition validate_output_channels :: "string list \<Rightarrow> string set \<Rightarrow> unit gresult" where
  "validate_output_channels outs known =
     try_each (\<lambda>c. if c \<notin> known then Inl (ExecutionFailed (''output channel '' @ c @ '' is not defined''))
                   else Inr ()) outs"

definition validate_interrupt_nodes :: "string list \<Rightarrow> string \<Rightarrow> string set \<Rightarrow> unit gresult" where
  "validate_interrupt_nodes nodes label known =
     try_each (\<lambda>n. if n \<notin> known then Inl (ExecutionFailed (label @ '' references unknown node '' @ n))
                   else Inr ()) nodes"

definition validate_with_config :: "pregel_graph \<Rightarrow> 'f pregel_config \<Rightarrow> unit gresult" where
  "validate_with_config g config =
     (let known = set (keys (g_channels g)) in
      and_then (try_each (\<lambda>(name, kind). validate_channel_name name kind) (g_channels g))
     (and_then (try_each (\<lambda>(name, nd).
                  and_then (validate_node_name name) (validate_node_channels name nd known)) (g_nodes g))
     (and_then (validate_input_channels (g_input_channels g) known)
     (and_then (validate_output_channels (g_output_channels g) known)
     (and_then (validate_interrupt_nodes (cf_interrupt_before config) ''interrupt_before''
                  (set (keys (g_nodes g))))
               (validate_interrupt_nodes (cf_interrupt_after config) ''interrupt_after''
                  (set (keys (g_nodes g)))))))))"

text \<open>What an accepted graph promises to the runtime.\<close>

definition graph_ok :: "pregel_graph \<Rightarrow> 'f pregel_config \<Rightarrow> bool" where
  "graph_ok g config \<longleftrightarrow>
     (\<forall>(n, k) \<in> set (g_channels g). (n = TASKS_CHANNEL \<longleftrightarrow> is_tasks_kind k) \<and>
        (matches_reserved_name n \<longrightarrow> n = TASKS_CHANNEL)) \<and>
     (\<forall>(n, nd) \<in> set (g_nodes g). \<not> matches_reserved_name n \<and>
        set (nd_triggers nd) \<subseteq> set (keys (g_channels g)) \<and>
        (TASKS_CHANNEL \<in> set (nd_triggers nd) \<or> set (nd_reads nd) \<subseteq> set (keys (g_channels g)))) \<and>
     set (g_input_channels g) \<subseteq> set (keys (g_channels g)) \<and>
     set (g_output_channels g) \<subseteq> set (keys (g_channels g)) \<and>
     set (cf_interrupt_before config) \<subseteq> set (keys (g_nodes g)) \<and>
     set (cf_interrupt_after config) \<subseteq> set (keys (g_nodes g))"

lemma validate_channel_name_ok:
  "validate_channel_name n k = Inr () \<longleftrightarrow>
     (n = TASKS_CHANNEL \<longleftrightarrow> is_tasks_kind k) \<and> (matches_reserved_name n \<longrightarrow> n = TASKS_CHANNEL)"
  by (auto simp: validate_channel_name_def)

lemma validate_node_channels_ok:
  "validate_node_channels n nd known = Inr () \<longleftrightarrow>
     set (nd_triggers nd) \<subseteq> known \<and> (TASKS_CHANNEL \<in> set (nd_triggers nd) \<or> set (nd_reads nd) \<subseteq> known)"
  by (auto simp: validate_node_channels_def Let_def and_then_ok try_each_ok subset_iff split: if_splits)

lemma validate_lists_ok:
  "validate_input_channels ins known = Inr () \<longleftrightarrow> set ins \<subseteq> known"
  "validate_output_channels outs known = Inr () \<longleftrightarrow> set outs \<subseteq> known"
  "validate_interrupt_nodes nodes label known = Inr () \<longleftrightarrow> set nodes \<subseteq> known"
  by (auto simp: validate_input_channels_def validate_output_channels_def
      validate_interrupt_nodes_def try_each_ok split: if_splits)

lemma validate_node_name_ok: "validate_node_name n = Inr () \<longleftrightarrow> \<not> matches_reserved_name n"
  by (simp add: validate_node_name_def)

text \<open>validation is sound and complete for the structural conditions: a graph and its
  configuration are accepted exactly when every channel name is used according to its kind, no
  node has a reserved name, every trigger, input and output channel exists, every read channel
  exists unless the node is triggered by the mailbox, and every interrupt list names nodes.\<close>

theorem validate_accepts_iff: "validate_with_config g config = Inr () \<longleftrightarrow> graph_ok g config"
  by (auto simp: validate_with_config_def graph_ok_def Let_def and_then_ok try_each_ok
      validate_channel_name_ok validate_node_name_ok validate_node_channels_ok validate_lists_ok
      split: prod.splits)

end
