(* ===== verification/Hash_Stream.thy ===== *)
theory Hash_Stream
  imports Pregel_Types
begin

text \<open>
  The hashed identifiers of \<open>foundation/pregel/src/algo.rs\<close> (\<open>task_id_for\<close>, \<open>stable_hash_value\<close>,
  and the input hash of \<open>task_cache_key\<close>). What is hashed is a byte stream; the standard library
  feeds it to SipHash, whose 64-bit result is the parameter \<open>sip\<close>. A string is its bytes followed
  by 255, an unsigned 64-bit value eight little-endian bytes, a field-less enum its discriminant
  as a 64-bit value, \<open>u8\<close> and \<open>bool\<close> one byte. Bytes are naturals below 256.

  The lemmas show which streams determine what was hashed: the stream of a task id does (for
  strings without the byte 255, which UTF-8 never contains), the stream of a JSON value does as
  long as no object occurs in it, and with objects two different values can have one stream.
\<close>

fun le_bytes :: "nat \<Rightarrow> nat \<Rightarrow> nat list" where
  "le_bytes 0 n = []"
| "le_bytes (Suc k) n = n mod 256 # le_bytes k (n div 256)"

lemma length_le_bytes [simp]: "length (le_bytes k n) = k"
  by (induction k arbitrary: n) auto

lemma le_bytes_inj:
  "n < 256 ^ k \<Longrightarrow> m < 256 ^ k \<Longrightarrow> le_bytes k n = le_bytes k m \<Longrightarrow> n = m"
proof (induction k arbitrary: n m)
  case 0
  then show ?case by simp
next
  case (Suc k)
  then have "n div 256 = m div 256" "n mod 256 = m mod 256"
    using Suc.IH [of "n div 256" "m div 256"] by (auto simp: less_mult_imp_div_less mult.commute)
  then show ?case by (metis div_mult_mod_eq)
qed

definition hash_u64 :: "u64 \<Rightarrow> nat list" where
  "hash_u64 w = le_bytes 8 (unat w)"

definition hash_usize :: "nat \<Rightarrow> nat list" where
  "hash_usize n = le_bytes 8 n"

definition hash_str :: "string \<Rightarrow> nat list" where
  "hash_str s = map of_char s @ [255]"

definition hash_kind :: "task_kind \<Rightarrow> nat list" where
  "hash_kind k = le_bytes 8 (case k of Pull \<Rightarrow> 0 | Push \<Rightarrow> 1)"

lemma hash_kind_inj: "hash_kind k = hash_kind l \<Longrightarrow> k = l"
  using le_bytes_inj [of 0 8 1] le_bytes_inj [of 1 8 0]
  by (cases k; cases l) (simp_all add: hash_kind_def del: le_bytes.simps)

text \<open>UTF-8 text has no byte 255.\<close>

definition utf8_like :: "string \<Rightarrow> bool" where
  "utf8_like s \<longleftrightarrow> (255 :: nat) \<notin> of_char ` set s"

lemma utf8_like_Cons [simp]:
  "utf8_like (c # cs) \<longleftrightarrow> (of_char c :: nat) \<noteq> 255 \<and> utf8_like cs"
  by (auto simp: utf8_like_def)

lemma utf8_like_Nil [simp]: "utf8_like []"
  by (simp add: utf8_like_def)

lemma hash_str_prefix:
  "utf8_like s \<Longrightarrow> utf8_like t \<Longrightarrow> hash_str s @ xs = hash_str t @ ys \<Longrightarrow> s = t \<and> xs = ys"
proof (induction s arbitrary: t)
  case Nil
  then show ?case by (cases t) (auto simp: hash_str_def)
next
  case (Cons c cs)
  then obtain d ds where t: "t = d # ds" by (cases t) (auto simp: hash_str_def)
  with Cons.prems have "c = d" "hash_str cs @ xs = hash_str ds @ ys"
    by (auto simp: hash_str_def)
  with Cons t show ?case by auto
qed

lemma hash_u64_prefix: "hash_u64 v @ xs = hash_u64 w @ ys \<Longrightarrow> v = w \<and> xs = ys"
proof -
  assume a: "hash_u64 v @ xs = hash_u64 w @ ys"
  then have e: "le_bytes 8 (unat v) = le_bytes 8 (unat w)" "xs = ys"
    by (simp_all add: hash_u64_def)
  have b: "unat (x :: u64) < 256 ^ 8" for x using unsigned_less [of x] by simp
  have "unat v = unat w" using le_bytes_inj [OF b b e(1)] .
  with e(2) show ?thesis by (simp add: word_unat_eq_iff)
qed

lemma hash_usize_prefix:
  "hash_usize n @ xs = hash_usize m @ ys \<Longrightarrow> n < u64_bound \<Longrightarrow> m < u64_bound \<Longrightarrow> n = m \<and> xs = ys"
  using le_bytes_inj [of n 8 m] by (auto simp: hash_usize_def)

subsection \<open>Task identifiers\<close>

definition task_id_stream :: "string \<Rightarrow> string \<Rightarrow> u64 \<Rightarrow> task_kind \<Rightarrow> nat list" where
  "task_id_stream namespace node_name step kind =
     hash_str namespace @ hash_str node_name @ hash_u64 step @ hash_kind kind"

definition task_id_for ::
    "(nat list \<Rightarrow> nat) \<Rightarrow> string \<Rightarrow> string \<Rightarrow> u64 \<Rightarrow> task_kind \<Rightarrow> string" where
  "task_id_for sip namespace node_name step kind =
     ''task-'' @ show_nat (unat step) @ ''-'' @
     show_hex (sip (task_id_stream namespace node_name step kind))"

lemma task_id_stream_inj:
  assumes "task_id_stream a n s k = task_id_stream b m t l"
    and "utf8_like a" "utf8_like b" "utf8_like n" "utf8_like m"
  shows "a = b \<and> n = m \<and> s = t \<and> k = l"
proof -
  from assms have "a = b" and r: "hash_str n @ hash_u64 s @ hash_kind k = hash_str m @ hash_u64 t @ hash_kind l"
    using hash_str_prefix unfolding task_id_stream_def by blast+
  with assms have "n = m" and r2: "hash_u64 s @ hash_kind k = hash_u64 t @ hash_kind l"
    using hash_str_prefix by blast+
  then have "s = t" and r3: "hash_kind k = hash_kind l"
    using hash_u64_prefix by blast+
  from r3 have "k = l" by (rule hash_kind_inj)
  with \<open>a = b\<close> \<open>n = m\<close> \<open>s = t\<close> show ?thesis by simp
qed

lemma split_at_dash:
  "CHR ''-'' \<notin> set xs \<Longrightarrow> CHR ''-'' \<notin> set ys \<Longrightarrow>
   xs @ CHR ''-'' # us = ys @ CHR ''-'' # vs \<Longrightarrow> xs = ys \<and> us = vs"
proof (induction xs arbitrary: ys)
  case Nil
  then show ?case by (cases ys) auto
next
  case (Cons x xs)
  then show ?case by (cases ys) auto
qed

lemma task_id_for_eqD:
  assumes "task_id_for sip a n s k = task_id_for sip b m t l"
  shows "s = t" and "sip (task_id_stream a n s k) = sip (task_id_stream b m t l)"
proof -
  have "show_nat (unat s) = show_nat (unat t) \<and>
      show_hex (sip (task_id_stream a n s k)) = show_hex (sip (task_id_stream b m t l))"
    using assms by (intro split_at_dash) (simp_all add: task_id_for_def show_nat_no_dash)
  then show "s = t" and "sip (task_id_stream a n s k) = sip (task_id_stream b m t l)"
    by (simp_all add: show_nat_inj show_hex_inj word_unat_eq_iff)
qed

subsection \<open>The stream of a JSON value\<close>

definition number_text :: "jnum \<Rightarrow> string" where
  "number_text n = (case n of JInt i \<Rightarrow> show_int i | JFloat s \<Rightarrow> s)"

fun stable_hash_value :: "json \<Rightarrow> nat list"
  and stable_hash_values :: "json list \<Rightarrow> nat list"
  and stable_hash_entries :: "(string \<times> json) list \<Rightarrow> nat list" where
  "stable_hash_value JNull = [0]"
| "stable_hash_value (JBool b) = [1, if b then 1 else 0]"
| "stable_hash_value (JNum n) = 2 # hash_str (number_text n)"
| "stable_hash_value (JStr s) = 3 # hash_str s"
| "stable_hash_value (JArr vs) = 4 # hash_usize (length vs) @ stable_hash_values vs"
| "stable_hash_value (JObj m) = 5 # stable_hash_entries m"
| "stable_hash_values [] = []"
| "stable_hash_values (v # vs) = stable_hash_value v @ stable_hash_values vs"
| "stable_hash_entries [] = []"
| "stable_hash_entries ((k, v) # m) = hash_str k @ stable_hash_value v @ stable_hash_entries m"

text \<open>Values without objects, whose strings are UTF-8, whose arrays are shorter than \<open>2 ^ 64\<close>, and
  whose floating point numbers do not print as integers.\<close>

fun hash_plain :: "json \<Rightarrow> bool" where
  "hash_plain (JNum (JInt i)) = True"
| "hash_plain (JNum (JFloat s)) = (utf8_like s \<and> (\<forall>i. s \<noteq> show_int i))"
| "hash_plain (JStr s) = utf8_like s"
| "hash_plain (JArr vs) = (length vs < u64_bound \<and> (\<forall>v \<in> set vs. hash_plain v))"
| "hash_plain (JObj m) = False"
| "hash_plain _ = True"

lemma utf8_like_show_nat: "utf8_like (show_nat n)"
proof -
  have "(of_char c :: nat) \<noteq> 255" if c: "c \<in> set (show_base 10 n)" for c
  proof -
    obtain d where "d < 10" "c = digit_char d" using show_base_digits [of 10 c n] c by auto
    then show ?thesis using digit_char_range [of d] by auto
  qed
  then show ?thesis unfolding utf8_like_def show_nat_def image_iff by metis
qed

lemma utf8_like_number_text: "hash_plain (JNum n) \<Longrightarrow> utf8_like (number_text n)"
  by (cases n) (auto simp: number_text_def show_int_def utf8_like_show_nat)

lemma number_text_inj:
  "hash_plain (JNum n) \<Longrightarrow> hash_plain (JNum m) \<Longrightarrow> number_text n = number_text m \<Longrightarrow> n = m"
proof -
  assume a: "hash_plain (JNum n)" "hash_plain (JNum m)" and e: "number_text n = number_text m"
  show "n = m"
  proof (cases n)
    case (JInt i)
    with a(2) e show ?thesis by (cases m) (simp_all add: number_text_def show_int_inj, metis)
  next
    case (JFloat s)
    with a(1) e show ?thesis by (cases m) (simp_all add: number_text_def)
  qed
qed

lemma stable_hash_values_prefix:
  assumes IH: "\<And>v w xs ys. v \<in> set vs \<Longrightarrow> hash_plain v \<Longrightarrow> hash_plain w \<Longrightarrow>
      stable_hash_value v @ xs = stable_hash_value w @ ys \<Longrightarrow> v = w \<and> xs = ys"
    and "length vs = length ws"
    and "\<forall>v \<in> set vs. hash_plain v" "\<forall>w \<in> set ws. hash_plain w"
    and "stable_hash_values vs @ xs = stable_hash_values ws @ ys"
  shows "vs = ws \<and> xs = ys"
  using assms(2) assms(1,3-)
proof (induction vs ws rule: list_induct2)
  case Nil
  then show ?case by simp
next
  case (Cons v vs w ws)
  have "v \<in> set (v # vs)" "hash_plain v" "hash_plain w" using Cons.prems(2,3) by simp_all
  moreover have "stable_hash_value v @ stable_hash_values vs @ xs
      = stable_hash_value w @ stable_hash_values ws @ ys" using Cons.prems(4) by simp
  ultimately have e: "v = w \<and> stable_hash_values vs @ xs = stable_hash_values ws @ ys"
    by (rule Cons.prems(1))
  have "vs = ws \<and> xs = ys"
  proof (rule Cons.IH)
    show "v' = w' \<and> xs' = ys'"
      if "v' \<in> set vs" "hash_plain v'" "hash_plain w'"
        "stable_hash_value v' @ xs' = stable_hash_value w' @ ys'" for v' w' xs' ys'
      using that(1) by (intro Cons.prems(1) [OF _ that(2-4)]) simp
  qed (use Cons.prems(2,3) e in simp_all)
  with e show ?case by simp
qed

lemma stable_hash_value_prefix:
  "hash_plain v \<Longrightarrow> hash_plain w \<Longrightarrow> stable_hash_value v @ xs = stable_hash_value w @ ys
   \<Longrightarrow> v = w \<and> xs = ys"
proof (induction v arbitrary: w xs ys)
  case (JNum n)
  then obtain m where w: "w = JNum m" by (cases w) auto
  with JNum have "number_text n = number_text m \<and> xs = ys"
    by (intro hash_str_prefix utf8_like_number_text) simp_all
  with JNum w show ?case using number_text_inj by blast
next
  case (JStr s)
  then obtain t where "w = JStr t" by (cases w) auto
  with JStr show ?case using hash_str_prefix [of s t xs ys] by simp
next
  case (JArr vs)
  then obtain ws where w: "w = JArr ws" by (cases w) auto
  with JArr.prems have "length vs = length ws \<and>
      stable_hash_values vs @ xs = stable_hash_values ws @ ys"
    by (intro hash_usize_prefix) simp_all
  then have e: "length vs = length ws" "stable_hash_values vs @ xs = stable_hash_values ws @ ys"
    by blast+
  have p: "\<forall>v \<in> set vs. hash_plain v" "\<forall>v \<in> set ws. hash_plain v"
    using JArr.prems(1,2) w by simp_all
  have "vs = ws \<and> xs = ys"
    using JArr.IH e(1) p e(2) by (rule stable_hash_values_prefix)
  then show ?case using w by simp
next
  case (JBool b)
  then show ?case by (cases w) (auto split: if_splits)
next
  case JNull
  then show ?case by (cases w) auto
next
  case (JObj m)
  then show ?case by simp
qed

lemma stable_hash_value_inj:
  "hash_plain v \<Longrightarrow> hash_plain w \<Longrightarrow> stable_hash_value v = stable_hash_value w \<Longrightarrow> v = w"
  using stable_hash_value_prefix [of v w "[]" "[]"] by simp

subsection \<open>Properties\<close>

text \<open>what a task identifier tells. Two identifiers are equal exactly when the steps are equal
  and the hashes of the two streams are: tasks of different steps never share an identifier,
  whatever the hash function does.\<close>

theorem task_id_for_eq_iff:
  "task_id_for sip a n s k = task_id_for sip b m t l \<longleftrightarrow>
     s = t \<and> sip (task_id_stream a n s k) = sip (task_id_stream b m t l)"
proof
  assume "task_id_for sip a n s k = task_id_for sip b m t l"
  from task_id_for_eqD [OF this] show "s = t \<and> sip (task_id_stream a n s k) = sip (task_id_stream b m t l)"
    by blast
next
  assume "s = t \<and> sip (task_id_stream a n s k) = sip (task_id_stream b m t l)"
  then show "task_id_for sip a n s k = task_id_for sip b m t l"
    unfolding task_id_for_def by metis
qed

text \<open>what is hashed determines the task: for UTF-8 strings, the byte streams of two tasks are
  equal only if namespace, node name, step and kind are. Moving a byte between the namespace and the
  node name gives another stream.\<close>

theorem task_id_stream_injective:
  assumes "utf8_like a" "utf8_like b" "utf8_like n" "utf8_like m"
  shows "task_id_stream a n s k = task_id_stream b m t l \<longleftrightarrow> a = b \<and> n = m \<and> s = t \<and> k = l"
  using task_id_stream_inj [of a n s k b m t l] assms by auto

lemma task_id_stream_injective_witness:
  "task_id_stream ''pkt'' ''ab'' 1 Push \<noteq> task_id_stream ''pkta'' ''b'' 1 Push"
  by (subst task_id_stream_injective) (simp_all add: utf8_like_def)

text \<open>for values without objects the hashed stream determines the value: arrays are hashed with
  their length, strings with a terminator, and numbers as the text of their own kind.\<close>

theorem stable_hash_plain_injective:
  assumes "hash_plain v" "hash_plain w"
  shows "stable_hash_value v = stable_hash_value w \<longleftrightarrow> v = w"
  using stable_hash_value_inj [OF assms] by auto

lemma stable_hash_plain_injective_witness:
  "stable_hash_value (JArr [JStr ''a'', JArr [JNull]]) \<noteq> stable_hash_value (JArr [JArr [JStr ''a''], JNull])"
  by (subst stable_hash_plain_injective) (simp_all add: utf8_like_def)

end
