(* ===== verification/Checkpoint_Types.thy ===== *)
theory Checkpoint_Types
  imports Pregel_Types
begin

text \<open>
  \<open>foundation/checkpoint/src/checkpoint.rs\<close> and \<open>config.rs\<close>: one persisted checkpoint, its kernel
  metadata, and the run configuration that addresses it. The clock and the UUID generator of a
  constructor are arguments: \<open>fresh\<close> is the identifier drawn, \<open>now\<close> the time since the epoch in
  nanoseconds. The type parameter \<open>'s\<close> is the state (\<open>channel_values\<close>); the user metadata is
  the crate's default \<open>()\<close>.
\<close>

datatype checkpoint_source = SrcInput | SrcLoop | SrcUpdate | SrcFork

record kernel_metadata =
  km_source :: checkpoint_source
  km_step :: int
  km_created_at :: "nat option"
  km_parents :: "(string \<times> string) list"
  km_children :: "(string \<times> string list) list"
  km_summary :: "string option"

record 's checkpoint =
  ck_v :: u32
  ck_id :: string
  ck_ts :: string
  ck_channel_values :: 's
  ck_channel_versions :: "(string \<times> string) list"
  ck_versions_seen :: "(string \<times> (string \<times> string) list) list"
  ck_updated_channels :: "string list option"
  ck_pending_sends :: "pending_write list"
  ck_pending_writes :: "pending_write list"
  ck_pending_interrupts :: "json list"
  ck_kernel :: kernel_metadata
  ck_user :: unit

definition CHECKPOINT_VERSION :: u32 where
  "CHECKPOINT_VERSION = 2"

definition writes_idx_map :: "string \<Rightarrow> int option" where
  "writes_idx_map write_type =
     (if write_type = ''__error__'' then Some (- 1)
      else if write_type = ''__scheduled__'' then Some (- 2)
      else if write_type = ''__interrupt__'' then Some (- 3)
      else if write_type = ''__resume__'' then Some (- 4)
      else None)"

definition with_id ::
    "string \<Rightarrow> nat \<Rightarrow> 's \<Rightarrow> checkpoint_source \<Rightarrow> int \<Rightarrow> 's checkpoint" where
  "with_id cid now state source step =
     \<lparr>ck_v = CHECKPOINT_VERSION, ck_id = cid, ck_ts = show_nat (now div 1000000),
      ck_channel_values = state, ck_channel_versions = [], ck_versions_seen = [],
      ck_updated_channels = None, ck_pending_sends = [], ck_pending_writes = [],
      ck_pending_interrupts = [],
      ck_kernel = \<lparr>km_source = source, km_step = step, km_created_at = Some now, km_parents = [],
                   km_children = [], km_summary = None\<rparr>,
      ck_user = ()\<rparr>"

definition from_state ::
    "string \<Rightarrow> nat \<Rightarrow> 's \<Rightarrow> checkpoint_source \<Rightarrow> int \<Rightarrow> 's checkpoint" where
  "from_state fresh now state source step =
     \<lparr>ck_v = CHECKPOINT_VERSION, ck_id = fresh, ck_ts = show_nat (now div 1000000),
      ck_channel_values = state, ck_channel_versions = [], ck_versions_seen = [],
      ck_updated_channels = None, ck_pending_sends = [], ck_pending_writes = [],
      ck_pending_interrupts = [],
      ck_kernel = \<lparr>km_source = source, km_step = step, km_created_at = Some now, km_parents = [],
                   km_children = [], km_summary = None\<rparr>,
      ck_user = ()\<rparr>"

definition fork_from ::
    "string \<Rightarrow> nat \<Rightarrow> 's checkpoint \<Rightarrow> string \<Rightarrow> string \<Rightarrow> 's checkpoint" where
  "fork_from fresh now c parent_namespace parent_checkpoint_id =
     (let forked = from_state fresh now (ck_channel_values c) SrcFork (km_step (ck_kernel c))
      in forked\<lparr>ck_channel_versions := ck_channel_versions c,
                ck_versions_seen := ck_versions_seen c,
                ck_updated_channels := ck_updated_channels c,
                ck_pending_sends := ck_pending_sends c,
                ck_pending_writes := ck_pending_writes c,
                ck_pending_interrupts := ck_pending_interrupts c,
                ck_kernel := (ck_kernel forked)
                  \<lparr>km_parents := AList.update parent_namespace parent_checkpoint_id (km_parents (ck_kernel c)),
                   km_children := km_children (ck_kernel c)\<rparr>\<rparr>)"

text \<open>The run configuration: which thread, namespace and checkpoint, and the resume values.\<close>

record runnable_config =
  rc_thread_id :: "string option"
  rc_checkpoint_id :: "string option"
  rc_checkpoint_ns :: string
  rc_user_id :: "string option"
  rc_resume_from_node_id :: "string option"
  rc_depth :: "u32 option"
  rc_acp_session_id :: "string option"
  rc_resume_value :: "json option"
  rc_resume_values_by_namespace :: "(string \<times> json) list"
  rc_resume_values_by_interrupt_id :: "(string \<times> json) list"

definition default_config :: runnable_config where
  "default_config =
     \<lparr>rc_thread_id = None, rc_checkpoint_id = None, rc_checkpoint_ns = [], rc_user_id = None,
      rc_resume_from_node_id = None, rc_depth = None, rc_acp_session_id = None,
      rc_resume_value = None, rc_resume_values_by_namespace = [],
      rc_resume_values_by_interrupt_id = []\<rparr>"

datatype checkpoint_err =
  ThreadIdRequired | Serialization string | Storage string | NotFound string

end
