(* ===== verification/Pregel_Algo.thy ===== *)
theory Pregel_Algo
  imports Pregel_Graph Hash_Stream Checkpoint_Types
begin

text \<open>
  \<open>foundation/pregel/src/algo.rs\<close>: the barrier algorithm of the Pregel runtime. Task
  preparation (\<open>prepare_next_tasks\<close> and its helpers), the normalisation of pending sends and
  writes, \<open>apply_writes\<close>, and the snapshot and restore of channels. The derived JSON conversions
  are the parameter \<open>S :: serde\<close>, the hash function is \<open>sip\<close>. The channels of a run are a hash
  map \<open>(string \<times> channel) list\<close>; the state of a checkpoint is a JSON value.
\<close>

type_synonym ckpt = "json checkpoint"
type_synonym channels = "(string \<times> channel) list"

record prepared_task =
  pt_id :: string
  pt_kind :: task_kind
  pt_node_name :: string
  pt_step :: u64
  pt_triggers :: "string list"
  pt_input :: json
  pt_packet_id :: "string option"
  pt_origin_task_id :: "string option"
  pt_cached_writes :: "(string \<times> json) list"

record executable_task =
  et_prepared :: prepared_task
  et_writes :: "(string \<times> json) list"
  et_attempt :: u32

datatype task_outcome =
    TaskSuccess executable_task
  | TaskInterrupted executable_task interrupt
  | TaskCancelled executable_task
  | TaskFailed executable_task graph_error

subsection \<open>Reserved writes and send packets\<close>

definition classify_reserved_write :: "string \<Rightarrow> reserved_write option" where
  "classify_reserved_write channel =
     find (\<lambda>r. reserved_as_str r = channel)
       [RError, RInterrupt, RResume, RScheduled, RPush, RReturn, RNoWrites, RTasks]"

definition decode_send_packet ::
    "serde \<Rightarrow> json \<Rightarrow> string option \<Rightarrow> u64 \<Rightarrow> send_packet option" where
  "decode_send_packet S v default_task default_step =
     (case packet_from_value S v of
        Some p \<Rightarrow> Some p
      | None \<Rightarrow>
          (case as_object v of
             None \<Rightarrow> None
           | Some object \<Rightarrow>
               (case Option.bind (map_of object ''target'') as_str of
                  None \<Rightarrow> None
                | Some target \<Rightarrow>
                    Some \<lparr>sp_id = (case Option.bind (map_of object ''id'') as_str of
                                     Some i \<Rightarrow> i
                                   | None \<Rightarrow> ''pkt-'' @ target @ ''-'' @ show_nat (unat default_step)),
                          sp_target = target,
                          sp_payload = (case map_of object ''payload'' of Some p \<Rightarrow> p | None \<Rightarrow> JNull),
                          sp_origin_task_id = default_task,
                          sp_origin_step = default_step\<rparr>)))"

definition pending_send_packet_id :: "serde \<Rightarrow> json \<Rightarrow> string option" where
  "pending_send_packet_id S v = map_option sp_id (decode_send_packet S v None 0)"

definition push_unique_pending_send ::
    "serde \<Rightarrow> string \<Rightarrow> send_packet \<Rightarrow> pending_write list \<Rightarrow> pending_write list" where
  "push_unique_pending_send S task_id packet sends =
     upsert (\<lambda>(_, ch, v). ch = TASKS_CHANNEL \<and>
               map_option sp_id (decode_send_packet S v None (sp_origin_step packet)) = Some (sp_id packet))
       (task_id, TASKS_CHANNEL, packet_to_value S packet) sends"

definition normalize_send_step ::
    "serde \<Rightarrow> pending_write \<Rightarrow> pending_write list \<Rightarrow> pending_write list" where
  "normalize_send_step S w normalized =
     (case w of (task_id, ch, v) \<Rightarrow>
        if ch \<noteq> TASKS_CHANNEL then normalized @ [(task_id, ch, v)]
        else (case decode_send_packet S v None 0 of
                Some packet \<Rightarrow> push_unique_pending_send S task_id packet normalized
              | None \<Rightarrow> normalized @ [(task_id, ch, v)]))"

definition normalize_pending_sends :: "serde \<Rightarrow> pending_write list \<Rightarrow> pending_write list" where
  "normalize_pending_sends S sends = fold (normalize_send_step S) sends []"

definition pending_write_is_singleton :: "string \<Rightarrow> bool" where
  "pending_write_is_singleton ch =
     (case classify_reserved_write ch of
        Some RReturn \<Rightarrow> True | Some RError \<Rightarrow> True | Some RResume \<Rightarrow> True | Some RNoWrites \<Rightarrow> True
      | _ \<Rightarrow> False)"

definition same_slot :: "string \<Rightarrow> string \<Rightarrow> pending_write \<Rightarrow> bool" where
  "same_slot task_id ch w = (case w of (t, c, _) \<Rightarrow> t = task_id \<and> c = ch)"

definition push_unique_pending_write ::
    "string \<Rightarrow> string \<Rightarrow> json \<Rightarrow> pending_write list \<Rightarrow> pending_write list" where
  "push_unique_pending_write task_id ch v pending =
     (if \<not> pending_write_is_singleton ch then
        (if (task_id, ch, v) \<in> set pending then pending else pending @ [(task_id, ch, v)])
      else upsert (same_slot task_id ch) (task_id, ch, v) pending)"

definition normalize_pending_writes :: "pending_write list \<Rightarrow> pending_write list" where
  "normalize_pending_writes pending =
     fold (\<lambda>(task_id, ch, v). push_unique_pending_write task_id ch v) pending []"

subsection \<open>Snapshots and task inputs\<close>

definition snapshot_channels :: "channels \<Rightarrow> json" where
  "snapshot_channels chs =
     JObj (bt_of (List.map_filter (\<lambda>name. map_option (\<lambda>c. (name, chan_snapshot c)) (map_of chs name))
                    (sort (keys chs))))"

definition build_task_input :: "string list \<Rightarrow> string list \<Rightarrow> channels \<Rightarrow> json" where
  "build_task_input triggers reads chs =
     JObj (bt_of (List.map_filter (\<lambda>name. map_option (\<lambda>c. (name, chan_snapshot c)) (map_of chs name))
                    (remdups_adj (sort (triggers @ reads)))))"

definition build_push_input :: "json \<Rightarrow> json" where
  "build_push_input payload =
     (case payload of JObj m \<Rightarrow> JObj m | other \<Rightarrow> JObj (bt_insert ''$payload'' other []))"

subsection \<open>Preparing tasks\<close>

definition should_run :: "channels \<Rightarrow> pregel_graph \<Rightarrow> u64 \<Rightarrow> string list \<Rightarrow> pnode \<Rightarrow> bool" where
  "should_run chs g step updated nd =
     (if step = 0 \<and> updated = [] then
        (\<exists>t \<in> set (nd_triggers nd). t \<in> set (g_input_channels g))
      else
        (\<exists>t \<in> set (nd_triggers nd). t \<in> set updated \<and>
           (case map_of chs t of Some c \<Rightarrow> chan_available c | None \<Rightarrow> False)))"

definition pull_task :: "(nat list \<Rightarrow> nat) \<Rightarrow> channels \<Rightarrow> u64 \<Rightarrow> string \<Rightarrow> pnode \<Rightarrow> prepared_task" where
  "pull_task sip chs step name nd =
     \<lparr>pt_id = task_id_for sip ''pregel'' name step Pull, pt_kind = Pull, pt_node_name = name,
      pt_step = step, pt_triggers = nd_triggers nd,
      pt_input = build_task_input (nd_triggers nd) (nd_reads nd) chs,
      pt_packet_id = None, pt_origin_task_id = None, pt_cached_writes = []\<rparr>"

type_synonym tasks_by_id = "(string \<times> prepared_task) list"

definition put_task :: "prepared_task \<Rightarrow> tasks_by_id \<Rightarrow> tasks_by_id" where
  "put_task t m = bt_insert (pt_id t) t m"

definition prepare_pull_tasks ::
    "(nat list \<Rightarrow> nat) \<Rightarrow> channels \<Rightarrow> pregel_graph \<Rightarrow> u64 \<Rightarrow> string list \<Rightarrow> tasks_by_id \<Rightarrow> tasks_by_id" where
  "prepare_pull_tasks sip chs g step updated =
     fold (\<lambda>(name, nd) m.
             if \<not> should_run chs g step updated nd then m
             else put_task (pull_task sip chs step name nd) m)
       (g_nodes g)"

definition saturating_pred :: "u64 \<Rightarrow> u64" where
  "saturating_pred w = (if w = 0 then 0 else w - 1)"

definition push_task :: "(nat list \<Rightarrow> nat) \<Rightarrow> u64 \<Rightarrow> send_packet \<Rightarrow> prepared_task" where
  "push_task sip step packet =
     \<lparr>pt_id = task_id_for sip (sp_id packet) (sp_target packet) step Push, pt_kind = Push,
      pt_node_name = sp_target packet, pt_step = step, pt_triggers = [TASKS_CHANNEL],
      pt_input = build_push_input (sp_payload packet),
      pt_packet_id = Some (sp_id packet), pt_origin_task_id = sp_origin_task_id packet,
      pt_cached_writes = []\<rparr>"

definition prepare_push_tasks ::
    "serde \<Rightarrow> (nat list \<Rightarrow> nat) \<Rightarrow> ckpt \<Rightarrow> pregel_graph \<Rightarrow> u64 \<Rightarrow> tasks_by_id \<Rightarrow> tasks_by_id" where
  "prepare_push_tasks S sip ck g step =
     fold (\<lambda>(_, ch, v) m.
             if ch \<noteq> TASKS_CHANNEL then m
             else (case decode_send_packet S v None (saturating_pred step) of
                     None \<Rightarrow> m
                   | Some packet \<Rightarrow>
                       if map_of (g_nodes g) (sp_target packet) = None then m
                       else put_task (push_task sip step packet) m))
       (ck_pending_sends ck)"

definition prepare_next_tasks ::
    "serde \<Rightarrow> (nat list \<Rightarrow> nat) \<Rightarrow> ckpt \<Rightarrow> channels \<Rightarrow> pregel_graph \<Rightarrow> u64 \<Rightarrow> string list
     \<Rightarrow> prepared_task list" where
  "prepare_next_tasks S sip ck chs g step updated =
     map snd (prepare_push_tasks S sip ck g step (prepare_pull_tasks sip chs g step updated []))"

definition resume_task :: "channels \<Rightarrow> u64 \<Rightarrow> interrupt_record \<Rightarrow> pnode \<Rightarrow> prepared_task" where
  "resume_task chs step r nd =
     \<lparr>pt_id = ir_task_id r, pt_kind = Pull, pt_node_name = ir_node_name r, pt_step = step,
      pt_triggers = nd_triggers nd,
      pt_input = build_task_input (nd_triggers nd) (nd_reads nd) chs,
      pt_packet_id = None, pt_origin_task_id = None, pt_cached_writes = []\<rparr>"

definition prepare_resume_tasks_from_interrupts ::
    "serde \<Rightarrow> ckpt \<Rightarrow> channels \<Rightarrow> pregel_graph \<Rightarrow> u64 \<Rightarrow> string set \<Rightarrow> prepared_task list" where
  "prepare_resume_tasks_from_interrupts S ck chs g step resume_ids =
     List.map_filter (\<lambda>r. map_option (resume_task chs step r) (map_of (g_nodes g) (ir_node_name r)))
       (filter (\<lambda>r. ir_interrupt_id r \<in> resume_ids)
          (List.map_filter (interrupt_from_value S) (ck_pending_interrupts ck)))"

subsection \<open>Applying writes\<close>

type_synonym write_acc = "(string \<times> json list) list \<times> pending_write list \<times> pending_write list"

definition collect_write ::
    "serde \<Rightarrow> prepared_task \<Rightarrow> string \<times> json \<Rightarrow> write_acc \<Rightarrow> write_acc" where
  "collect_write S task w acc =
     (case w of (ch, v) \<Rightarrow> case acc of (grouped, sends, writes) \<Rightarrow>
        (case classify_reserved_write ch of
           Some r \<Rightarrow>
             if r \<in> {RTasks, RPush, RScheduled} then
               (case decode_send_packet S v (Some (pt_id task)) (pt_step task) of
                  Some packet \<Rightarrow> (grouped, push_unique_pending_send S (pt_id task) packet sends, writes)
                | None \<Rightarrow> (grouped, sends, push_unique_pending_write (pt_id task) ch v writes))
             else if r = RNoWrites then acc
             else (grouped, sends, push_unique_pending_write (pt_id task) ch v writes)
         | None \<Rightarrow> (bt_push ch v grouped, sends, writes)))"

definition collect_writes :: "serde \<Rightarrow> executable_task list \<Rightarrow> write_acc \<Rightarrow> write_acc" where
  "collect_writes S tasks =
     fold (\<lambda>task. fold (collect_write S (et_prepared task)) (et_writes task)) tasks"

text \<open>\<open>values().max()\<close>: the greatest version string.\<close>

definition max_version :: "(string \<times> string) list \<Rightarrow> string option" where
  "max_version versions =
     (case map snd versions of [] \<Rightarrow> None | v # vs \<Rightarrow> Some (fold max vs v))"

type_synonym update_acc = "channels \<times> (string \<times> string) list \<times> string list"

definition update_step :: "string \<Rightarrow> string \<times> json list \<Rightarrow> update_acc \<Rightarrow> update_acc" where
  "update_step version grp acc =
     (case grp of (name, vs) \<Rightarrow> case acc of (chs, versions, updated) \<Rightarrow>
        (case map_of chs name of
           None \<Rightarrow> acc
         | Some c \<Rightarrow>
             (case chan_update c vs of (changed, c') \<Rightarrow>
                (AList.update name c' chs,
                 if changed then AList.update name version versions else versions,
                 if changed then updated @ [name] else updated))))"

definition mark_seen ::
    "pregel_graph \<Rightarrow> string list \<Rightarrow> string \<Rightarrow> executable_task
     \<Rightarrow> (string \<times> (string \<times> string) list) list \<Rightarrow> (string \<times> (string \<times> string) list) list" where
  "mark_seen g updated version task seen =
     (let name = pt_node_name (et_prepared task);
          node_channels = (case map_of (g_nodes g) name of
                             Some nd \<Rightarrow> set (nd_reads nd @ nd_triggers nd)
                           | None \<Rightarrow> {});
          old = (case map_of seen name of Some m \<Rightarrow> m | None \<Rightarrow> [])
      in AList.update name
           (fold (\<lambda>ch m. AList.update ch version m) (filter (\<lambda>ch. ch \<in> node_channels) updated) old) seen)"

definition apply_writes ::
    "serde \<Rightarrow> (string option \<Rightarrow> string) \<Rightarrow> pregel_graph \<Rightarrow> executable_task list
     \<Rightarrow> ckpt \<times> channels \<Rightarrow> string list \<times> ckpt \<times> channels" where
  "apply_writes S next_version g tasks st =
     (case st of (ck, chs) \<Rightarrow>
        case collect_writes S tasks ([], [], []) of (grouped, sends, writes) \<Rightarrow>
          let version = next_version (max_version (ck_channel_versions ck)) in
          case fold (update_step version) grouped (chs, ck_channel_versions ck, []) of
            (chs', versions', updated) \<Rightarrow>
              let chs'' = map_vals (\<lambda>c. snd (chan_consume c)) chs' in
              (updated,
               ck\<lparr>ck_channel_versions := versions',
                  ck_versions_seen := fold (mark_seen g updated version) tasks (ck_versions_seen ck),
                  ck_pending_sends := sends,
                  ck_pending_writes := writes,
                  ck_updated_channels := Some updated,
                  ck_channel_values := snapshot_channels chs''\<rparr>,
               chs''))"

definition finish_channels :: "channels \<Rightarrow> channels" where
  "finish_channels chs = map_vals (\<lambda>c. snd (chan_finish c)) chs"

subsection \<open>Restoring channels\<close>

definition restore_channel :: "ckpt \<Rightarrow> string \<Rightarrow> channel_kind \<Rightarrow> channel" where
  "restore_channel ck name kind =
     (let c0 = build_channel kind;
          c1 = (case json_get (ck_channel_values ck) name of
                  Some v \<Rightarrow> snd (chan_update c0 [v])
                | None \<Rightarrow> c0)
      in if name = TASKS_CHANNEL then
           (let task_values = map (\<lambda>(_, _, v). v)
                  (filter (\<lambda>(_, ch, _). ch = TASKS_CHANNEL) (ck_pending_sends ck))
            in if task_values \<noteq> [] then snd (chan_update c1 task_values) else c1)
         else c1)"

definition restore_channels_from_checkpoint :: "ckpt \<Rightarrow> pregel_graph \<Rightarrow> channels" where
  "restore_channels_from_checkpoint ck g =
     fold (\<lambda>(name, kind) chs. AList.update name (restore_channel ck name kind) chs) (g_channels g) []"

end
