(* ===== verification/Pregel_Barrier.thy ===== *)
theory Pregel_Barrier
  imports Pregel_Algo "HOL-Library.Multiset"
begin

text \<open>
  What the barrier algorithm of \<open>Pregel_Algo\<close> does. \<open>writes_for\<close> collects, in task order, the
  values the tasks of a step write to a channel; the effect of \<open>apply_writes\<close> on channels,
  versions and the list of updated channels is stated through it, and from that follows when the
  order in which tasks complete cannot matter. The second half states the normal forms that
  \<open>normalize_pending_sends\<close> and \<open>normalize_pending_writes\<close> produce.
\<close>

subsection \<open>Reserved names\<close>

lemma classify_reserved_iff: "classify_reserved_write ch = Some r \<longleftrightarrow> reserved_as_str r = ch"
  by (cases r) (auto simp: classify_reserved_write_def TASKS_CHANNEL_def split: if_splits)

lemma classify_reserved_as_str [simp]: "classify_reserved_write (reserved_as_str r) = Some r"
  by (simp add: classify_reserved_iff)

lemma matches_reserved_iff_classify:
  "matches_reserved_name ch \<longleftrightarrow> classify_reserved_write ch \<noteq> None"
proof -
  have "matches_reserved_name ch \<longleftrightarrow> (\<exists>r. reserved_as_str r = ch)"
    unfolding matches_reserved_name_def reserved_all_def using reserved_write_UNIV by blast
  then show ?thesis by (auto simp flip: classify_reserved_iff)
qed

subsection \<open>Collecting the writes of a step\<close>

definition task_writes_for :: "executable_task \<Rightarrow> string \<Rightarrow> json list" where
  "task_writes_for t n =
     (if matches_reserved_name n then [] else map snd (filter (\<lambda>w. fst w = n) (et_writes t)))"

definition writes_for :: "executable_task list \<Rightarrow> string \<Rightarrow> json list" where
  "writes_for ts n = concat (map (\<lambda>t. task_writes_for t n) ts)"

lemma writes_for_Cons: "writes_for (t # ts) n = task_writes_for t n @ writes_for ts n"
  by (simp add: writes_for_def)

definition grouped_of :: "write_acc \<Rightarrow> (string \<times> json list) list" where
  "grouped_of acc = fst acc"

lemma collect_write_wf: "bt_wf (grouped_of acc) \<Longrightarrow> bt_wf (grouped_of (collect_write S p w acc))"
  by (auto simp: collect_write_def grouped_of_def split: prod.splits option.splits)

lemma collect_write_group:
  "bt_wf (grouped_of acc) \<Longrightarrow>
   pget (grouped_of (collect_write S p w acc)) n =
     pget (grouped_of acc) n @
       (if matches_reserved_name n then [] else map snd (filter (\<lambda>w. fst w = n) [w]))"
  by (auto simp: collect_write_def grouped_of_def matches_reserved_iff_classify pget_bt_push
      split: prod.splits option.splits)

lemma collect_task_group:
  assumes "bt_wf (grouped_of acc)"
  shows "bt_wf (grouped_of (fold (collect_write S p) ws acc)) \<and>
         pget (grouped_of (fold (collect_write S p) ws acc)) n =
           pget (grouped_of acc) n @
             (if matches_reserved_name n then [] else map snd (filter (\<lambda>w. fst w = n) ws))"
  using assms
  by (induction ws arbitrary: acc) (auto simp: collect_write_wf collect_write_group)

lemma collect_writes_group:
  assumes "bt_wf (grouped_of acc)"
  shows "bt_wf (grouped_of (collect_writes S ts acc)) \<and>
         pget (grouped_of (collect_writes S ts acc)) n = pget (grouped_of acc) n @ writes_for ts n"
  using assms
proof (induction ts arbitrary: acc)
  case Nil
  then show ?case by (simp add: collect_writes_def writes_for_def)
next
  case (Cons t ts)
  let ?a = "fold (collect_write S (et_prepared t)) (et_writes t) acc"
  have "bt_wf (grouped_of ?a)" and
    "pget (grouped_of ?a) n = pget (grouped_of acc) n @ task_writes_for t n"
    using collect_task_group [OF Cons.prems] by (auto simp: task_writes_for_def)
  with Cons.IH [of ?a] show ?case
    by (simp add: collect_writes_def writes_for_Cons)
qed

text \<open>A group is never empty, so it is determined by the values collected.\<close>

definition groups_full :: "(string \<times> json list) list \<Rightarrow> bool" where
  "groups_full m \<longleftrightarrow> bt_wf m \<and> (\<forall>n. map_of m n \<noteq> Some [])"

lemma groups_full_push: "groups_full m \<Longrightarrow> groups_full (bt_push n v m)"
  by (auto simp: groups_full_def map_of_bt_push)

lemma collect_writes_full:
  "groups_full (grouped_of acc) \<Longrightarrow> groups_full (grouped_of (collect_writes S ts acc))"
proof (induction ts arbitrary: acc)
  case Nil
  then show ?case by (simp add: collect_writes_def)
next
  case (Cons t ts)
  have "groups_full (grouped_of (collect_write S p w a))" if "groups_full (grouped_of a)" for p w a
    using that by (auto simp: collect_write_def grouped_of_def groups_full_push
        split: prod.splits option.splits)
  then have "groups_full (grouped_of (fold (collect_write S p) ws a))"
    if "groups_full (grouped_of a)" for p ws a
    using that by (induction ws arbitrary: a) auto
  with Cons show ?case by (simp add: collect_writes_def)
qed

lemma groups_full_Nil [simp]: "groups_full []"
  by (simp add: groups_full_def)

lemma pget_eq_Nil_iff: "groups_full m \<Longrightarrow> pget m n = [] \<longleftrightarrow> map_of m n = None"
  by (auto simp: pget_def groups_full_def split: option.splits)

lemma groups_full_ext:
  assumes "groups_full m" "groups_full m'" "\<And>n. pget m n = pget m' n"
  shows "m = m'"
proof (rule bt_wf_ext)
  show "bt_wf m" "bt_wf m'" using assms(1,2) by (simp_all add: groups_full_def)
  show "map_of m = map_of m'"
  proof
    fix n
    show "map_of m n = map_of m' n"
      using assms(3) [of n] pget_eq_Nil_iff [OF assms(1), of n] pget_eq_Nil_iff [OF assms(2), of n]
      by (cases "map_of m n"; cases "map_of m' n") (auto simp: pget_def)
  qed
qed

lemma collect_groups:
  "groups_full (grouped_of (collect_writes S ts ([], [], [])))"
  "pget (grouped_of (collect_writes S ts ([], [], []))) n = writes_for ts n"
proof -
  have "groups_full (grouped_of ([], [], []))" by (simp add: grouped_of_def)
  then show "groups_full (grouped_of (collect_writes S ts ([], [], [])))"
    by (rule collect_writes_full)
  show "pget (grouped_of (collect_writes S ts ([], [], []))) n = writes_for ts n"
    using collect_writes_group [of "([], [], [])" S ts n] by (simp add: grouped_of_def)
qed

lemma collect_groups_eq:
  assumes "\<And>n. writes_for ts n = writes_for us n"
  shows "grouped_of (collect_writes S ts ([], [], [])) = grouped_of (collect_writes S us ([], [], []))"
  by (rule groups_full_ext) (simp_all add: collect_groups assms)

subsection \<open>Updating the channels\<close>

definition did_change :: "channels \<Rightarrow> string \<Rightarrow> json list \<Rightarrow> bool" where
  "did_change chs n vs = (case map_of chs n of Some c \<Rightarrow> fst (chan_update c vs) | None \<Rightarrow> False)"

lemma did_change_Nil [simp]: "\<not> did_change chs n []"
  by (simp add: did_change_def split: option.splits)

lemma update_step_simp:
  "update_step ver (n, vs) (chs, vers, upd) =
     (case map_of chs n of
        None \<Rightarrow> (chs, vers, upd)
      | Some c \<Rightarrow>
          (AList.update n (snd (chan_update c vs)) chs,
           if did_change chs n vs then AList.update n ver vers else vers,
           if did_change chs n vs then upd @ [n] else upd))"
  by (auto simp: update_step_def did_change_def split: option.splits prod.splits)

lemma keys_update_present: "map_of m k \<noteq> None \<Longrightarrow> keys (AList.update k v m) = keys m"
  by (induction m) (auto split: if_splits)

text \<open>The fold over the groups, for groups with distinct names.\<close>

lemma update_fold_all:
  assumes "distinct (keys gs)"
  shows "keys (fst (fold (update_step ver) gs (chs, vers, upd))) = keys chs \<and>
    map_of (fst (fold (update_step ver) gs (chs, vers, upd))) n =
      map_option (\<lambda>c. snd (chan_update c (pget gs n))) (map_of chs n) \<and>
    snd (snd (fold (update_step ver) gs (chs, vers, upd))) =
      upd @ filter (\<lambda>k. did_change chs k (pget gs k)) (keys gs) \<and>
    map_of (fst (snd (fold (update_step ver) gs (chs, vers, upd)))) n =
      (if did_change chs n (pget gs n) then Some ver else map_of vers n)"
  using assms
proof (induction gs arbitrary: chs vers upd)
  case Nil
  then show ?case by (simp add: option.map_ident)
next
  case (Cons g gs)
  obtain k vs where g: "g = (k, vs)" by (cases g)
  have fresh: "k \<notin> set (keys gs)" and d: "distinct (keys gs)"
    using Cons.prems g by auto
  have pk: "pget (g # gs) n' = (if n' = k then vs else pget gs n')" for n'
    by (simp add: pget_def g)
  have gone: "pget gs k = []"
    using fresh by (simp add: pget_def map_of_eq_None_iff [THEN iffD2])
  obtain chs1 vers1 upd1 where st: "update_step ver g (chs, vers, upd) = (chs1, vers1, upd1)"
    by (cases "update_step ver g (chs, vers, upd)")
  have k1: "keys chs1 = keys chs"
    and v1: "map_of vers1 n' = (if n' = k \<and> did_change chs k vs then Some ver else map_of vers n')"
    and c1: "map_of chs1 n' =
        (if n' = k then map_option (\<lambda>c. snd (chan_update c vs)) (map_of chs k) else map_of chs n')"
    and u1: "upd1 = upd @ (if did_change chs k vs then [k] else [])" for n'
    using st
    by (auto simp: g update_step_simp keys_update_present did_change_def split: option.splits if_splits)
  have dc: "did_change chs1 n' ws = did_change chs n' ws" if "n' \<noteq> k" for n' ws
    using c1 [of n'] that by (simp add: did_change_def)
  have f: "filter (\<lambda>k. did_change chs1 k (pget gs k)) (keys gs) =
      filter (\<lambda>k'. did_change chs k' (pget (g # gs) k')) (keys gs)"
    using fresh by (intro filter_cong refl) (auto simp: dc pk)
  have head: "filter (\<lambda>k'. did_change chs k' (pget (g # gs) k')) (keys (g # gs)) =
      (if did_change chs k vs then [k] else []) @
      filter (\<lambda>k'. did_change chs k' (pget (g # gs) k')) (keys gs)"
    using pk [of k] by (simp add: g)
  note IH = Cons.IH [OF d, of chs1 vers1 upd1]
  have "map_of (fst (fold (update_step ver) gs (chs1, vers1, upd1))) n =
      map_option (\<lambda>c. snd (chan_update c (pget (g # gs) n))) (map_of chs n)"
    using IH c1 [of n] gone by (auto simp: pk option.map_comp o_def option.map_ident)
  moreover have "map_of (fst (snd (fold (update_step ver) gs (chs1, vers1, upd1)))) n =
      (if did_change chs n (pget (g # gs) n) then Some ver else map_of vers n)"
    using IH v1 [of n] gone dc [of n] by (auto simp: pk)
  ultimately show ?case
    using IH k1 unfolding fold.simps o_def st head f u1 by (simp only: append_assoc)
qed

lemmas update_fold = update_fold_all [THEN conjunct1]
  update_fold_all [THEN conjunct2, THEN conjunct1]
  update_fold_all [THEN conjunct2, THEN conjunct2, THEN conjunct1]
  update_fold_all [THEN conjunct2, THEN conjunct2, THEN conjunct2]

text \<open>The whole of \<open>apply_writes\<close>, read off its definition.\<close>

definition aw_version :: "(string option \<Rightarrow> string) \<Rightarrow> ckpt \<Rightarrow> string" where
  "aw_version nv ck = nv (max_version (ck_channel_versions ck))"

definition consume_all :: "channels \<Rightarrow> channels" where
  "consume_all chs = map_vals (\<lambda>c. snd (chan_consume c)) chs"

lemma apply_writes_parts:
  assumes "apply_writes S nv g ts (ck, chs) = (updated, ck', chs')"
  defines "gs \<equiv> grouped_of (collect_writes S ts ([], [], []))"
  defines "r \<equiv> fold (update_step (aw_version nv ck)) gs (chs, ck_channel_versions ck, [])"
  shows "updated = snd (snd r)" and "chs' = consume_all (fst r)"
    and "ck_channel_versions ck' = fst (snd r)"
    and "ck_updated_channels ck' = Some updated"
    and "ck_channel_values ck' = snapshot_channels chs'"
    and "ck_pending_sends ck' = fst (snd (collect_writes S ts ([], [], [])))"
    and "ck_pending_writes ck' = snd (snd (collect_writes S ts ([], [], [])))"
    and "ck_pending_interrupts ck' = ck_pending_interrupts ck"
    and "ck_kernel ck' = ck_kernel ck" and "ck_id ck' = ck_id ck"
    and "ck_versions_seen ck' = fold (mark_seen g updated (aw_version nv ck)) ts (ck_versions_seen ck)"
  using assms(1)
  by (auto simp: apply_writes_def gs_def r_def grouped_of_def aw_version_def consume_all_def Let_def
      split: prod.splits)

definition step_updated :: "channels \<Rightarrow> executable_task list \<Rightarrow> string list" where
  "step_updated chs ts = sorted_list_of_set {n \<in> set (keys chs). did_change chs n (writes_for ts n)}"

lemma did_change_dom: "did_change chs n vs \<Longrightarrow> n \<in> set (keys chs)"
  by (auto simp: did_change_def split: option.splits dest: map_of_SomeD)
     (metis fst_conv image_eqI map_of_SomeD)

lemma filter_groups:
  assumes "groups_full gs" "\<And>n. pget gs n = writes_for ts n"
  shows "filter (\<lambda>k. did_change chs k (pget gs k)) (keys gs) = step_updated chs ts"
proof -
  have w: "bt_wf gs" using assms(1) by (simp add: groups_full_def)
  have "n \<in> set (keys gs)" if "did_change chs n (pget gs n)" for n
    using that pget_eq_Nil_iff [OF assms(1), of n] by (cases "map_of gs n") (auto simp only: set_keys_map_of did_change_Nil)
  then have "{n \<in> set (keys chs). did_change chs n (writes_for ts n)} =
      set (filter (\<lambda>k. did_change chs k (pget gs k)) (keys gs))"
    using did_change_dom by (auto simp: assms(2))
  moreover have "sorted (filter (\<lambda>k. did_change chs k (pget gs k)) (keys gs))"
    "distinct (filter (\<lambda>k. did_change chs k (pget gs k)) (keys gs))"
    using bt_wf_sorted [OF w] bt_wf_distinct [OF w] by (auto intro: sorted_wrt_filter)
  ultimately show ?thesis
    unfolding step_updated_def by (metis sorted_list_of_set.idem_if_sorted_distinct)
qed

lemma groups_distinct: "groups_full gs \<Longrightarrow> distinct (keys gs)"
  unfolding groups_full_def by (blast intro: bt_wf_distinct)

lemma apply_writes_keys:
  assumes "apply_writes S nv g ts (ck, chs) = (updated, ck', chs')"
  shows "keys chs' = keys chs"
  using apply_writes_parts(2) [OF assms] update_fold(1) [OF groups_distinct [OF collect_groups(1)]]
  by (simp add: consume_all_def)

lemma apply_writes_lookup:
  assumes "apply_writes S nv g ts (ck, chs) = (updated, ck', chs')"
  shows "map_of chs' n =
     map_option (\<lambda>c. snd (chan_consume (snd (chan_update c (writes_for ts n))))) (map_of chs n)"
  using apply_writes_parts(2) [OF assms] update_fold(2) [OF groups_distinct [OF collect_groups(1)]]
  by (simp add: consume_all_def option.map_comp o_def collect_groups(2))

lemma apply_writes_updated:
  assumes "apply_writes S nv g ts (ck, chs) = (updated, ck', chs')"
  shows "updated = step_updated chs ts"
  using apply_writes_parts(1) [OF assms] update_fold(3) [OF groups_distinct [OF collect_groups(1)]]
  by (simp only: filter_groups [OF collect_groups(1) collect_groups(2)] append_Nil)

lemma apply_writes_versions:
  assumes "apply_writes S nv g ts (ck, chs) = (updated, ck', chs')"
  shows "map_of (ck_channel_versions ck') n =
     (if did_change chs n (writes_for ts n) then Some (aw_version nv ck)
      else map_of (ck_channel_versions ck) n)"
  using apply_writes_parts(3) [OF assms] update_fold(4) [OF groups_distinct [OF collect_groups(1)]]
  by (simp add: collect_groups(2))

text \<open>C2: the effect of \<open>apply_writes\<close> at a step barrier. Every channel of the run is kept, and its
  new state is the old one updated once with all the values the step's tasks write to it, in task
  order, and then consumed; the returned list of updated channels holds, in strictly increasing
  order, exactly the channels whose update reported a change; exactly those get the new version,
  every other version is kept; the checkpoint records that list and the snapshot of the new
  channels, and its interrupts, kernel metadata and identifier are untouched.\<close>

theorem apply_writes_effect:
  "case apply_writes S next_version g ts (ck, chs) of (updated, ck', chs') \<Rightarrow>
     keys chs' = keys chs \<and>
     map_of chs' = (\<lambda>n. map_option (\<lambda>c. snd (chan_consume (snd (chan_update c (writes_for ts n)))))
                         (map_of chs n)) \<and>
     updated = sorted_list_of_set {n \<in> set (keys chs). did_change chs n (writes_for ts n)} \<and>
     map_of (ck_channel_versions ck') =
       (\<lambda>n. if n \<in> set updated then Some (next_version (max_version (ck_channel_versions ck)))
            else map_of (ck_channel_versions ck) n) \<and>
     ck_updated_channels ck' = Some updated \<and>
     ck_channel_values ck' = snapshot_channels chs' \<and>
     ck_pending_interrupts ck' = ck_pending_interrupts ck \<and>
     ck_kernel ck' = ck_kernel ck \<and> ck_id ck' = ck_id ck"
proof (cases "apply_writes S next_version g ts (ck, chs)")
  case (fields updated ck' chs')
  note f = fields
  have up: "updated = step_updated chs ts" by (rule apply_writes_updated [OF f])
  have "n \<in> set updated \<longleftrightarrow> did_change chs n (writes_for ts n)" for n
    using did_change_dom [of chs n] by (auto simp: up step_updated_def)
  then have "map_of (ck_channel_versions ck') =
      (\<lambda>n. if n \<in> set updated then Some (next_version (max_version (ck_channel_versions ck)))
            else map_of (ck_channel_versions ck) n)"
    using apply_writes_versions [OF f] by (auto simp: aw_version_def)
  moreover have "map_of chs' =
      (\<lambda>n. map_option (\<lambda>c. snd (chan_consume (snd (chan_update c (writes_for ts n))))) (map_of chs n))"
    using apply_writes_lookup [OF f] by auto
  ultimately show ?thesis
    using apply_writes_keys [OF f] apply_writes_parts(4,5,8-10) [OF f] up
    by (simp add: f step_updated_def)
qed

subsection \<open>The order in which tasks complete\<close>

definition single_writer :: "executable_task list \<Rightarrow> bool" where
  "single_writer ts \<longleftrightarrow> (\<forall>n. length (filter (\<lambda>t. task_writes_for t n \<noteq> []) ts) \<le> 1)"

lemma concat_filter_nonempty: "concat (map f (filter (\<lambda>x. f x \<noteq> []) xs)) = concat (map f xs)"
  by (induction xs) auto

lemma mset_eq_short: "mset xs = mset ys \<Longrightarrow> length xs \<le> 1 \<Longrightarrow> xs = ys"
  by (cases xs rule: list.exhaust) (auto simp: length_Suc_conv dest: mset_eq_length)

lemma single_writer_writes_for:
  assumes "mset ts = mset us" "single_writer ts"
  shows "writes_for ts n = writes_for us n"
proof -
  let ?w = "\<lambda>t. task_writes_for t n"
  have "mset (filter (\<lambda>t. ?w t \<noteq> []) ts) = mset (filter (\<lambda>t. ?w t \<noteq> []) us)"
    using assms(1) by simp
  then have "filter (\<lambda>t. ?w t \<noteq> []) ts = filter (\<lambda>t. ?w t \<noteq> []) us"
    using assms(2) by (intro mset_eq_short) (auto simp: single_writer_def)
  then show ?thesis
    unfolding writes_for_def
    using concat_filter_nonempty [of ?w ts] concat_filter_nonempty [of ?w us] by simp
qed

text \<open>C27: when no channel is written by two tasks of the step, the order in which the tasks are
  handed to \<open>apply_writes\<close> does not matter: the updated channels, the channel states, the channel
  versions and the persisted channel values are the same.\<close>

theorem apply_writes_order_irrelevant:
  assumes "mset ts = mset us" and "single_writer ts"
  shows "(case apply_writes S nv g ts (ck, chs) of (updated, ck1, chs1) \<Rightarrow>
            (updated, chs1, ck_channel_versions ck1, ck_channel_values ck1)) =
         (case apply_writes S nv g us (ck, chs) of (updated, ck1, chs1) \<Rightarrow>
            (updated, chs1, ck_channel_versions ck1, ck_channel_values ck1))"
proof -
  obtain u1 k1 c1 where a: "apply_writes S nv g ts (ck, chs) = (u1, k1, c1)"
    by (cases "apply_writes S nv g ts (ck, chs)")
  obtain u2 k2 c2 where b: "apply_writes S nv g us (ck, chs) = (u2, k2, c2)"
    by (cases "apply_writes S nv g us (ck, chs)")
  have "grouped_of (collect_writes S ts ([], [], [])) = grouped_of (collect_writes S us ([], [], []))"
    by (rule collect_groups_eq) (rule single_writer_writes_for [OF assms])
  with apply_writes_parts(1-3,5) [OF a] apply_writes_parts(1-3,5) [OF b]
  show ?thesis by (simp add: a b)
qed

definition ex_task :: "string \<Rightarrow> (string \<times> json) list \<Rightarrow> executable_task" where
  "ex_task name ws =
     \<lparr>et_prepared = \<lparr>pt_id = name, pt_kind = Pull, pt_node_name = name, pt_step = 0, pt_triggers = [],
        pt_input = JNull, pt_packet_id = None, pt_origin_task_id = None, pt_cached_writes = []\<rparr>,
      et_writes = ws, et_attempt = 0\<rparr>"

lemma ex_tasks_single_writer:
  "single_writer [ex_task ''A'' [(''a'', JBool True)], ex_task ''B'' [(''b'', JBool False)]]"
  by (simp add: single_writer_def ex_task_def task_writes_for_def)

lemma apply_writes_order_irrelevant_witness:
  fixes chs :: channels
  defines "chs \<equiv> [(''a'', build_channel LastValue), (''b'', build_channel LastValue)]"
  shows "(case apply_writes (derived_serde (\<lambda>_. [])) (\<lambda>_. ''1'') graph_new
            [ex_task ''A'' [(''a'', JBool True)], ex_task ''B'' [(''b'', JBool False)]]
            (with_id ''c'' 0 JNull SrcLoop 0, chs) of (updated, ck1, chs1) \<Rightarrow>
            (updated, chs1, ck_channel_versions ck1, ck_channel_values ck1)) =
         (case apply_writes (derived_serde (\<lambda>_. [])) (\<lambda>_. ''1'') graph_new
            [ex_task ''B'' [(''b'', JBool False)], ex_task ''A'' [(''a'', JBool True)]]
            (with_id ''c'' 0 JNull SrcLoop 0, chs) of (updated, ck1, chs1) \<Rightarrow>
            (updated, chs1, ck_channel_versions ck1, ck_channel_values ck1))"
  by (rule apply_writes_order_irrelevant [OF _ ex_tasks_single_writer]) simp

text \<open>when two tasks write one last-value channel, the order in which their outcomes are applied
  decides the value that stays: \<open>run_step\<close> lists outcomes in completion order, so the result of
  such a step depends on scheduling.\<close>

theorem last_value_depends_on_order:
  "(case apply_writes S nv g [ex_task ''A'' [(''a'', JBool True)], ex_task ''B'' [(''a'', JBool False)]]
      (ck, [(''a'', build_channel LastValue)]) of (_, ck1, _) \<Rightarrow> json_get (ck_channel_values ck1) ''a'') =
     Some (JBool False) \<and>
   (case apply_writes S nv g [ex_task ''B'' [(''a'', JBool False)], ex_task ''A'' [(''a'', JBool True)]]
      (ck, [(''a'', build_channel LastValue)]) of (_, ck1, _) \<Rightarrow> json_get (ck_channel_values ck1) ''a'') =
     Some (JBool True)"
  by (simp add: apply_writes_def collect_writes_def collect_write_def ex_task_def classify_reserved_write_def
      TASKS_CHANNEL_def bt_push_def update_step_def lv_new_def lv_update_def lv_consume_def lv_snapshot_def
      snapshot_channels_def json_get_def bt_of_def map_vals_def List.map_filter_simps Let_def)

end
