(* ===== verification/Pregel_Pending.thy ===== *)
theory Pregel_Pending
  imports Pregel_Barrier
begin

text \<open>
  The normal forms of pending sends and pending writes. A pending send is read as a packet by
  \<open>pkt\<close>; \<open>packets_of\<close> is the association list from packet id to sender and packet that a list of
  sends stands for. Normalising keeps one entry per packet id, the last one, at the position of
  the first; normalising pending writes keeps one entry per task and channel for the control
  channels, and drops duplicates for the others.
\<close>

subsection \<open>Send packets\<close>

lemma decode_send_default: "decode_send_packet S v d s = None \<longleftrightarrow> decode_send_packet S v d' s' = None"
  by (auto simp: decode_send_packet_def split: option.splits)

lemma decode_send_encoded [simp]:
  "serde_ok S \<Longrightarrow> decode_send_packet S (packet_to_value S p) d s = Some p"
  by (simp add: decode_send_packet_def)

definition pkt :: "serde \<Rightarrow> pending_write \<Rightarrow> (string \<times> string \<times> send_packet) option" where
  "pkt S w = (case w of (t, ch, v) \<Rightarrow>
     if ch \<noteq> TASKS_CHANNEL then None
     else map_option (\<lambda>p. (sp_id p, t, p)) (decode_send_packet S v None 0))"

definition packets_of :: "serde \<Rightarrow> pending_write list \<Rightarrow> (string \<times> string \<times> send_packet) list" where
  "packets_of S ws = List.map_filter (pkt S) ws"

text \<open>Entries a run produces: an entry that decodes is an encoded packet.\<close>

definition sends_encoded :: "serde \<Rightarrow> pending_write list \<Rightarrow> bool" where
  "sends_encoded S ws \<longleftrightarrow>
     (\<forall>(t, ch, v) \<in> set ws. ch = TASKS_CHANNEL \<and> decode_send_packet S v None 0 \<noteq> None
        \<longrightarrow> (\<exists>p. v = packet_to_value S p))"

definition sends_normal :: "serde \<Rightarrow> pending_write list \<Rightarrow> bool" where
  "sends_normal S ws \<longleftrightarrow> sends_encoded S ws \<and> distinct (keys (packets_of S ws))"

lemma packets_of_Nil [simp]: "packets_of S [] = []"
  by (simp add: packets_of_def List.map_filter_simps)

lemma packets_of_Cons: "packets_of S (w # ws) =
    (case pkt S w of Some q \<Rightarrow> q # packets_of S ws | None \<Rightarrow> packets_of S ws)"
  by (simp add: packets_of_def List.map_filter_simps split: option.splits)

lemma packets_of_append: "packets_of S (ws @ vs) = packets_of S ws @ packets_of S vs"
  by (induction ws) (auto simp: packets_of_Cons split: option.splits)

lemma sends_encoded_Nil [simp]: "sends_encoded S []"
  by (simp add: sends_encoded_def)

lemma sends_encoded_snoc:
  "sends_encoded S (ws @ [(t, ch, v)]) \<longleftrightarrow> sends_encoded S ws \<and>
     (ch = TASKS_CHANNEL \<and> decode_send_packet S v None 0 \<noteq> None \<longrightarrow> (\<exists>p. v = packet_to_value S p))"
  by (auto simp: sends_encoded_def)

text \<open>The test of \<open>push_unique_pending_send\<close> on such entries is equality of packet ids.\<close>

lemma push_test:
  assumes "serde_ok S" "sends_encoded S ws" "(t, ch, v) \<in> set ws"
  shows "(ch = TASKS_CHANNEL \<and> map_option sp_id (decode_send_packet S v None s) = Some i) \<longleftrightarrow>
         map_option fst (pkt S (t, ch, v)) = Some i"
proof (cases "ch = TASKS_CHANNEL \<and> decode_send_packet S v None 0 \<noteq> None")
  case True
  with assms(2,3) obtain p where "v = packet_to_value S p"
    by (auto simp: sends_encoded_def)
  with assms(1) True show ?thesis by (simp add: pkt_def)
next
  case False
  then show ?thesis
    using decode_send_default [of S v None s None 0] by (auto simp: pkt_def)
qed

lemma packets_of_upsert:
  assumes "\<And>w. w \<in> set ws \<Longrightarrow> P w \<longleftrightarrow> map_option fst (pkt S w) = Some (fst q)" and "pkt S y = Some q"
  shows "packets_of S (upsert P y ws) = upsert (\<lambda>r. fst r = fst q) q (packets_of S ws)"
  using assms(1)
proof (induction ws)
  case Nil
  then show ?case by (simp add: packets_of_Cons assms(2))
next
  case (Cons w ws)
  have "packets_of S (upsert P y ws) = upsert (\<lambda>r. fst r = fst q) q (packets_of S ws)"
    using Cons by simp
  moreover have "P w \<longleftrightarrow> map_option fst (pkt S w) = Some (fst q)" using Cons.prems by simp
  ultimately show ?case
    by (cases "pkt S w") (auto simp: packets_of_Cons assms(2))
qed

lemma push_packets:
  assumes "serde_ok S" "sends_encoded S ws"
  shows "packets_of S (push_unique_pending_send S t p ws) =
         upsert (\<lambda>r. fst r = sp_id p) (sp_id p, t, p) (packets_of S ws)"
proof -
  let ?q = "(sp_id p, t, p)"
  have "packets_of S (push_unique_pending_send S t p ws) =
      upsert (\<lambda>r. fst r = fst ?q) ?q (packets_of S ws)"
    unfolding push_unique_pending_send_def
  proof (rule packets_of_upsert)
    show "pkt S (t, TASKS_CHANNEL, packet_to_value S p) = Some ?q"
      using assms(1) by (simp add: pkt_def)
    fix w assume w: "w \<in> set ws"
    obtain t' ch v where "w = (t', ch, v)" by (cases w)
    with w show "(case w of (_, ch, v) \<Rightarrow> ch = TASKS_CHANNEL \<and>
        map_option sp_id (decode_send_packet S v None (sp_origin_step p)) = Some (sp_id p)) \<longleftrightarrow>
        map_option fst (pkt S w) = Some (fst ?q)"
      using push_test [OF assms, of t' ch v] by simp
  qed
  then show ?thesis by simp
qed

lemma map_of_upsert_key: "map_of (upsert (\<lambda>r. fst r = k) (k, x) m) = (map_of m)(k \<mapsto> x)"
proof (induction m)
  case (Cons r m)
  then show ?case by (cases r) (auto simp: fun_eq_iff)
qed simp

lemma distinct_keys_upsert:
  "distinct (keys m) \<Longrightarrow> distinct (keys (upsert (\<lambda>r. fst r = k) (k, x) m))"
  by (rule distinct_upsert_key) auto

lemma push_encoded:
  assumes "sends_encoded S ws"
  shows "sends_encoded S (push_unique_pending_send S t p ws)"
  unfolding sends_encoded_def
proof
  fix w assume "w \<in> set (push_unique_pending_send S t p ws)"
  then have "w = (t, TASKS_CHANNEL, packet_to_value S p) \<or> w \<in> set ws"
    using set_upsert_subset unfolding push_unique_pending_send_def by (meson insertE subset_iff)
  with assms show "case w of (t, ch, v) \<Rightarrow> ch = TASKS_CHANNEL \<and> decode_send_packet S v None 0 \<noteq> None
      \<longrightarrow> (\<exists>p. v = packet_to_value S p)"
    by (auto simp: sends_encoded_def)
qed

text \<open>One step of the normalisation.\<close>

lemma normalize_step_encoded: "sends_encoded S ws \<Longrightarrow> sends_encoded S (normalize_send_step S w ws)"
  by (cases w) (auto simp: normalize_send_step_def sends_encoded_snoc push_encoded split: option.splits)

lemma normalize_step_packets:
  assumes "serde_ok S" "sends_encoded S ws"
  shows "packets_of S (normalize_send_step S w ws) =
    (case pkt S w of None \<Rightarrow> packets_of S ws
     | Some q \<Rightarrow> upsert (\<lambda>r. fst r = fst q) q (packets_of S ws))"
proof -
  obtain t ch v where w: "w = (t, ch, v)" by (cases w)
  show ?thesis
  proof (cases "ch = TASKS_CHANNEL")
    case False
    then show ?thesis by (simp add: w normalize_send_step_def pkt_def packets_of_append packets_of_Cons)
  next
    case True
    then show ?thesis
      using push_packets [OF assms, of t]
      by (cases "decode_send_packet S v None 0")
        (simp_all add: w normalize_send_step_def pkt_def packets_of_append packets_of_Cons)
  qed
qed

lemma upsert_filter_other:
  assumes "\<And>x. x \<in> set xs \<Longrightarrow> p x \<Longrightarrow> \<not> q x" and "\<not> q y"
  shows "filter q (upsert p y xs) = filter q xs"
  using assms by (induction xs) auto

lemma normalize_step_others:
  assumes "serde_ok S" "sends_encoded S ws"
  shows "filter (\<lambda>u. pkt S u = None) (normalize_send_step S w ws) =
         filter (\<lambda>u. pkt S u = None) ws @ (if pkt S w = None then [w] else [])"
proof -
  obtain t ch v where w: "w = (t, ch, v)" by (cases w)
  have "filter (\<lambda>u. pkt S u = None) (push_unique_pending_send S t p ws) = filter (\<lambda>u. pkt S u = None) ws"
    for p
    unfolding push_unique_pending_send_def
  proof (rule upsert_filter_other)
    show "pkt S (t, TASKS_CHANNEL, packet_to_value S p) \<noteq> None"
      using assms(1) by (simp add: pkt_def)
    fix u assume u: "u \<in> set ws" "case u of (_, ch, v) \<Rightarrow> ch = TASKS_CHANNEL \<and>
        map_option sp_id (decode_send_packet S v None (sp_origin_step p)) = Some (sp_id p)"
    obtain t' ch v where "u = (t', ch, v)" by (cases u)
    with u show "pkt S u \<noteq> None"
      using push_test [OF assms, of t' ch v "sp_origin_step p" "sp_id p"] by auto
  qed
  then show ?thesis
    by (cases "ch = TASKS_CHANNEL"; cases "decode_send_packet S v None 0")
      (simp_all add: w normalize_send_step_def pkt_def)
qed

lemma normalize_fold:
  assumes "serde_ok S" "sends_normal S acc"
  shows "sends_normal S (fold (normalize_send_step S) ws acc) \<and>
    map_of (packets_of S (fold (normalize_send_step S) ws acc)) =
      map_of (packets_of S acc) ++ map_of (rev (packets_of S ws)) \<and>
    filter (\<lambda>u. pkt S u = None) (fold (normalize_send_step S) ws acc) =
      filter (\<lambda>u. pkt S u = None) acc @ filter (\<lambda>u. pkt S u = None) ws"
  using assms(2)
proof (induction ws arbitrary: acc)
  case Nil
  then show ?case by simp
next
  case (Cons w ws)
  let ?a = "normalize_send_step S w acc"
  have e: "sends_encoded S acc" and d: "distinct (keys (packets_of S acc))"
    using Cons.prems by (simp_all add: sends_normal_def)
  note P = normalize_step_packets [OF assms(1) e, of w]
  have "distinct (keys (packets_of S ?a))"
    unfolding P using d by (cases "pkt S w") (auto simp: distinct_keys_upsert)
  then have n: "sends_normal S ?a" using normalize_step_encoded [OF e] by (simp add: sends_normal_def)
  have m: "map_of (packets_of S ?a) = map_of (packets_of S acc) ++ map_of (rev (packets_of S [w]))"
    unfolding P by (cases "pkt S w") (auto simp: packets_of_Cons map_of_upsert_key)
  have "packets_of S (w # ws) = packets_of S [w] @ packets_of S ws"
    using packets_of_append [of S "[w]" ws] by simp
  with Cons.IH [OF n] m normalize_step_others [OF assms(1) e, of w] show ?case
    by (simp add: map_add_assoc)
qed

text \<open>A normal list is left alone.\<close>

lemma normalize_step_fresh:
  assumes "serde_ok S" "sends_normal S (acc @ [w])"
  shows "normalize_send_step S w acc = acc @ [w]"
proof -
  obtain t ch v where w: "w = (t, ch, v)" by (cases w)
  show ?thesis
  proof (cases "ch = TASKS_CHANNEL \<and> decode_send_packet S v None 0 \<noteq> None")
    case False
    then show ?thesis by (auto simp: w normalize_send_step_def split: option.splits)
  next
    case True
    with assms(2) obtain p where v: "v = packet_to_value S p"
      by (auto simp: sends_normal_def sends_encoded_snoc w)
    have e: "sends_encoded S acc"
      using assms(2) by (simp add: sends_normal_def sends_encoded_snoc w)
    have "sp_id p \<notin> set (keys (packets_of S acc))"
      using assms True by (simp add: sends_normal_def packets_of_append packets_of_Cons w v pkt_def)
    then have fresh: "map_option fst (pkt S u) \<noteq> Some (sp_id p)" if "u \<in> set acc" for u
      using that by (induction acc) (auto simp: packets_of_Cons split: option.splits)
    have "push_unique_pending_send S t p acc = acc @ [(t, TASKS_CHANNEL, packet_to_value S p)]"
      unfolding push_unique_pending_send_def
    proof (rule upsert_fresh, rule ballI)
      fix u assume u: "u \<in> set acc"
      obtain t' c' v' where "u = (t', c', v')" by (cases u)
      with u fresh [OF u] show "\<not> (case u of (_, ch, v) \<Rightarrow> ch = TASKS_CHANNEL \<and>
          map_option sp_id (decode_send_packet S v None (sp_origin_step p)) = Some (sp_id p))"
        using push_test [OF assms(1) e, of t' c' v' "sp_origin_step p" "sp_id p"] by simp
    qed
    with True assms(1) show ?thesis by (simp add: w v normalize_send_step_def)
  qed
qed

lemma sends_normal_prefix: "sends_normal S (xs @ ys) \<Longrightarrow> sends_normal S xs"
  by (auto simp: sends_normal_def sends_encoded_def packets_of_append)

lemma normalize_normal:
  "serde_ok S \<Longrightarrow> sends_normal S (acc @ ws) \<Longrightarrow> fold (normalize_send_step S) ws acc = acc @ ws"
proof (induction ws arbitrary: acc)
  case (Cons w ws)
  then have "sends_normal S (acc @ [w])" using sends_normal_prefix [of S "acc @ [w]" ws] by simp
  with Cons show ?case by (simp add: normalize_step_fresh)
qed simp

lemma normalize_sends_idem:
  assumes "serde_ok S"
  shows "normalize_pending_sends S (normalize_pending_sends S ws) = normalize_pending_sends S ws"
proof -
  have "sends_normal S []" by (simp add: sends_normal_def)
  then have "sends_normal S (normalize_pending_sends S ws)"
    using normalize_fold [OF assms] by (simp add: normalize_pending_sends_def)
  with normalize_normal [OF assms, of "[]" "normalize_pending_sends S ws"] show ?thesis
    by (simp add: normalize_pending_sends_def)
qed

text \<open>\<open>normalize_pending_sends\<close> keeps one mailbox entry per packet id. The packet ids of the
  result are distinct; under each id stands the last task and packet that were sent with it; the
  entries that are not packets (another channel, or undecodable) are kept unchanged and in order;
  and normalising once more changes nothing.\<close>

theorem normalize_pending_sends_spec:
  assumes "serde_ok S"
  shows "distinct (keys (packets_of S (normalize_pending_sends S ws))) \<and>
    map_of (packets_of S (normalize_pending_sends S ws)) = map_of (rev (packets_of S ws)) \<and>
    filter (\<lambda>u. pkt S u = None) (normalize_pending_sends S ws) = filter (\<lambda>u. pkt S u = None) ws \<and>
    normalize_pending_sends S (normalize_pending_sends S ws) = normalize_pending_sends S ws"
proof -
  have "sends_normal S []" by (simp add: sends_normal_def)
  note n = normalize_fold [OF assms this, of ws]
  then have "sends_normal S (normalize_pending_sends S ws)" by (simp add: normalize_pending_sends_def)
  with n normalize_normal [OF assms, of "[]" "normalize_pending_sends S ws"]
  show ?thesis by (simp add: normalize_pending_sends_def sends_normal_def)
qed

lemma normalize_pending_sends_spec_witness:
  "serde_ok (derived_serde (\<lambda>_. [])) \<and>
   (let ws = [(''t1'', TASKS_CHANNEL, json_object [(''target'', JStr ''n''), (''id'', JStr ''p'')]),
              (''t2'', TASKS_CHANNEL, json_object [(''target'', JStr ''m''), (''id'', JStr ''p'')])]
    in map_of (packets_of (derived_serde (\<lambda>_. [])) (normalize_pending_sends (derived_serde (\<lambda>_. [])) ws))
       = map_of (rev (packets_of (derived_serde (\<lambda>_. [])) ws)))"
  using normalize_pending_sends_spec [OF serde_ok_derived] unfolding Let_def by (metis serde_ok_derived)

subsection \<open>Pending writes\<close>

definition last_write :: "pending_write list \<Rightarrow> string \<Rightarrow> string \<Rightarrow> json option" where
  "last_write ws t ch = map_of (rev (map (\<lambda>(t, ch, v). ((t, ch), v)) ws)) (t, ch)"

definition write_kept :: "pending_write list \<Rightarrow> pending_write \<Rightarrow> bool" where
  "write_kept ws w = (case w of (t, ch, v) \<Rightarrow>
     if pending_write_is_singleton ch then last_write ws t ch = Some v else w \<in> set ws)"

definition singles :: "pending_write list \<Rightarrow> (string \<times> string) list" where
  "singles ws = map (\<lambda>(t, ch, v). (t, ch)) (filter (\<lambda>(t, ch, v). pending_write_is_singleton ch) ws)"

definition writes_normal :: "pending_write list \<Rightarrow> bool" where
  "writes_normal ws \<longleftrightarrow> distinct ws \<and> distinct (singles ws)"

lemma last_write_snoc:
  "last_write (ws @ [(t, ch, v)]) t' ch' = (if t' = t \<and> ch' = ch then Some v else last_write ws t' ch')"
  by (auto simp: last_write_def)

lemma singles_Cons: "singles ((t, ch, v) # ws) =
    (if pending_write_is_singleton ch then (t, ch) # singles ws else singles ws)"
  by (simp add: singles_def)

lemma singles_snoc: "singles (ws @ [(t, ch, v)]) =
    (if pending_write_is_singleton ch then singles ws @ [(t, ch)] else singles ws)"
  by (simp add: singles_def)

lemma singles_Nil [simp]: "singles [] = []"
  by (simp add: singles_def)

lemma in_singles: "(t, ch) \<in> set (singles ws) \<longleftrightarrow> pending_write_is_singleton ch \<and> (\<exists>v. (t, ch, v) \<in> set ws)"
  by (auto simp: singles_def image_iff split: prod.splits)

lemma same_slot_simp [simp]: "same_slot t ch (a, c, u) \<longleftrightarrow> a = t \<and> c = ch"
  by (simp add: same_slot_def)

lemma upsert_singles:
  assumes "pending_write_is_singleton ch"
  shows "singles (upsert (same_slot t ch) (t, ch, v) ws) =
    (if (t, ch) \<in> set (singles ws) then singles ws else singles ws @ [(t, ch)])"
proof (induction ws)
  case Nil
  then show ?case using assms by (simp add: singles_Cons)
next
  case (Cons w ws)
  obtain a c u where "w = (a, c, u)" by (cases w)
  with Cons assms show ?case by (auto simp: singles_Cons)
qed

lemma upsert_writes_set:
  assumes "pending_write_is_singleton ch" "distinct (singles ws)"
  shows "set (upsert (same_slot t ch) (t, ch, v) ws) =
    insert (t, ch, v) {w \<in> set ws. \<not> (fst w = t \<and> fst (snd w) = ch)}"
  using assms(2)
proof (induction ws)
  case (Cons w ws)
  obtain a c u where w: "w = (a, c, u)" by (cases w)
  show ?case
  proof (cases "a = t \<and> c = ch")
    case True
    with Cons.prems assms(1) have "(t, ch) \<notin> set (singles ws)" by (simp add: w singles_Cons)
    with assms(1) True show ?thesis by (auto simp: w in_singles)
  next
    case False
    have "distinct (singles ws)" using Cons.prems by (simp add: w singles_Cons split: if_splits)
    then have IH: "set (upsert (same_slot t ch) (t, ch, v) ws) =
        insert (t, ch, v) {w \<in> set ws. \<not> (fst w = t \<and> fst (snd w) = ch)}"
      by (rule Cons.IH)
    have "set (upsert (same_slot t ch) (t, ch, v) (w # ws)) =
        insert w (set (upsert (same_slot t ch) (t, ch, v) ws))"
      using False by (auto simp: w)
    then show ?thesis unfolding IH using False by (auto simp: w)
  qed
qed simp

lemma distinct_upsert_writes:
  assumes "pending_write_is_singleton ch" "writes_normal ws"
  shows "distinct (upsert (same_slot t ch) (t, ch, v) ws)"
  using assms(2)
proof (induction ws)
  case (Cons w ws)
  obtain a c u where w: "w = (a, c, u)" by (cases w)
  have n: "writes_normal ws" using Cons.prems by (auto simp: writes_normal_def w singles_Cons split: if_splits)
  show ?case
  proof (cases "a = t \<and> c = ch")
    case True
    with Cons.prems assms(1) have "(t, ch) \<notin> set (singles ws)"
      by (simp add: w singles_Cons writes_normal_def)
    with assms(1) True n show ?thesis by (auto simp: w in_singles writes_normal_def)
  next
    case False
    have d: "distinct (singles ws)" using n by (simp add: writes_normal_def)
    show ?thesis using Cons.IH [OF n] Cons.prems False
      by (auto simp: w upsert_writes_set [OF assms(1) d] writes_normal_def)
  qed
qed simp

lemma push_write_kept:
  assumes "writes_normal acc" "\<And>w. w \<in> set acc \<longleftrightarrow> write_kept ws w"
  shows "writes_normal (push_unique_pending_write t ch v acc) \<and>
    (w \<in> set (push_unique_pending_write t ch v acc) \<longleftrightarrow> write_kept (ws @ [(t, ch, v)]) w)"
proof (cases "pending_write_is_singleton ch")
  case True
  have "distinct (singles acc)" using assms(1) by (simp add: writes_normal_def)
  then show ?thesis
    using True distinct_upsert_writes [OF True assms(1), of t v]
    by (cases w)
      (auto simp: push_unique_pending_write_def writes_normal_def upsert_singles upsert_writes_set in_singles
        assms(2) write_kept_def last_write_snoc)
next
  case False
  then show ?thesis
    using assms(1)
    by (cases w) (auto simp: push_unique_pending_write_def writes_normal_def singles_snoc
        assms(2) write_kept_def last_write_snoc)
qed

lemma normalize_writes_fold:
  assumes "writes_normal acc" "\<And>w. w \<in> set acc \<longleftrightarrow> write_kept ws w"
  shows "writes_normal (fold (\<lambda>(t, ch, v). push_unique_pending_write t ch v) vs acc) \<and>
    (w \<in> set (fold (\<lambda>(t, ch, v). push_unique_pending_write t ch v) vs acc) \<longleftrightarrow> write_kept (ws @ vs) w)"
  using assms
proof (induction vs arbitrary: acc ws)
  case (Cons x vs)
  obtain t ch v where x: "x = (t, ch, v)" by (cases x)
  let ?a = "push_unique_pending_write t ch v acc"
  have "writes_normal ?a" "w \<in> set ?a \<longleftrightarrow> write_kept (ws @ [x]) w" for w
    using push_write_kept [OF Cons.prems, of t ch v] by (auto simp: x)
  from Cons.IH [OF this] show ?case by (simp add: x)
qed simp

lemma normalize_writes_normal:
  "writes_normal (acc @ ws) \<Longrightarrow> fold (\<lambda>(t, ch, v). push_unique_pending_write t ch v) ws acc = acc @ ws"
proof (induction ws arbitrary: acc)
  case (Cons w ws)
  obtain t ch v where w: "w = (t, ch, v)" by (cases w)
  have a: "singles (xs @ ys) = singles xs @ singles ys" for xs ys by (simp add: singles_def)
  have "push_unique_pending_write t ch v acc = acc @ [(t, ch, v)]"
  proof (cases "pending_write_is_singleton ch")
    case True
    then have "(t, ch) \<notin> set (singles acc)"
      using Cons.prems by (auto simp: writes_normal_def a w singles_Cons)
    then have "\<forall>x \<in> set acc. \<not> same_slot t ch x" using True by (auto simp: in_singles same_slot_def)
    then show ?thesis using True by (simp add: push_unique_pending_write_def upsert_fresh)
  next
    case False
    then show ?thesis using Cons.prems by (auto simp: push_unique_pending_write_def writes_normal_def w)
  qed
  then show ?case using Cons by (simp add: w)
qed simp

lemma normalize_writes_idem: "normalize_pending_writes (normalize_pending_writes ws) = normalize_pending_writes ws"
proof -
  have "writes_normal []" by (simp add: writes_normal_def)
  moreover have "w \<in> set [] \<longleftrightarrow> write_kept [] w" for w :: pending_write
    by (cases w) (simp add: write_kept_def last_write_def)
  ultimately have "writes_normal (normalize_pending_writes ws)"
    using normalize_writes_fold [of "[]" "[]" ws] by (simp add: normalize_pending_writes_def)
  then show ?thesis
    using normalize_writes_normal [of "[]" "normalize_pending_writes ws"]
    by (simp add: normalize_pending_writes_def)
qed

lemma normalize_writes_kept: "w \<in> set (normalize_pending_writes ws) \<longleftrightarrow> write_kept ws w"
proof -
  have "writes_normal []" by (simp add: writes_normal_def)
  moreover have "w \<in> set [] \<longleftrightarrow> write_kept [] w" for w :: pending_write
    by (cases w) (simp add: write_kept_def last_write_def)
  ultimately show ?thesis using normalize_writes_fold [of "[]" "[]" ws w] by (simp add: normalize_pending_writes_def)
qed

lemma last_write_append:
  "last_write (xs @ ys) t ch = (case last_write ys t ch of Some v \<Rightarrow> Some v | None \<Rightarrow> last_write xs t ch)"
  by (auto simp: last_write_def map_add_def split: option.split)

lemma write_kept_normalize: "write_kept (xs @ normalize_pending_writes ws) w = write_kept (xs @ ws) w"
proof -
  obtain t ch v where w: "w = (t, ch, v)" by (cases w)
  have k: "write_kept (normalize_pending_writes ws) x = write_kept ws x" for x
    by (metis normalize_writes_idem normalize_writes_kept)
  show ?thesis
  proof (cases "pending_write_is_singleton ch")
    case True
    then have "last_write (normalize_pending_writes ws) t ch = Some u \<longleftrightarrow> last_write ws t ch = Some u" for u
      using k [of "(t, ch, u)"] by (simp add: write_kept_def)
    then have "last_write (normalize_pending_writes ws) t ch = last_write ws t ch" by (metis option.exhaust)
    then show ?thesis using True by (simp add: w write_kept_def last_write_append)
  next
    case False
    then show ?thesis using k [of w] normalize_writes_kept [of w ws] by (simp add: w write_kept_def)
  qed
qed

text \<open>\<open>normalize_pending_writes\<close> never loses a write it should keep. The result has no duplicate
  entry and at most one entry per task and channel for the control channels (return, error,
  resume, no-writes); it holds, for those, exactly the last value the task wrote, and for every
  other channel exactly the writes that were there.\<close>

theorem normalize_pending_writes_spec:
  "distinct (normalize_pending_writes ws) \<and>
   distinct (map (\<lambda>(t, ch, v). (t, ch))
     (filter (\<lambda>(t, ch, v). pending_write_is_singleton ch) (normalize_pending_writes ws))) \<and>
   set (normalize_pending_writes ws) =
     {(t, ch, v). if pending_write_is_singleton ch then last_write ws t ch = Some v
                  else (t, ch, v) \<in> set ws}"
proof -
  have "writes_normal []" by (simp add: writes_normal_def)
  moreover have "w \<in> set [] \<longleftrightarrow> write_kept [] w" for w :: pending_write
    by (cases w) (simp add: write_kept_def last_write_def)
  ultimately have n: "writes_normal (normalize_pending_writes ws)"
    and s: "w \<in> set (normalize_pending_writes ws) \<longleftrightarrow> write_kept ws w" for w
    using normalize_writes_fold [of "[]" "[]" ws w] by (simp_all add: normalize_pending_writes_def)
  have "set (normalize_pending_writes ws) =
     {(t, ch, v). if pending_write_is_singleton ch then last_write ws t ch = Some v
                  else (t, ch, v) \<in> set ws}"
    using s by (auto simp: write_kept_def)
  with n show ?thesis by (simp add: writes_normal_def singles_def)
qed

end
