(* ===== verification/Pregel_Tasks.thy ===== *)
theory Pregel_Tasks
  imports Pregel_Algo
begin

text \<open>
  What \<open>prepare_next_tasks\<close> schedules, and what a channel snapshot and the restore of channels
  from a checkpoint preserve. The candidates of a step are the pull tasks of the nodes that
  should run and the push tasks of the pending packets whose target exists; the ordered map keyed
  by task id keeps one task per id.
\<close>

subsection \<open>Scheduling\<close>

definition pull_candidates ::
    "(nat list \<Rightarrow> nat) \<Rightarrow> channels \<Rightarrow> pregel_graph \<Rightarrow> u64 \<Rightarrow> string list \<Rightarrow> prepared_task list" where
  "pull_candidates sip chs g step updated =
     map (\<lambda>(name, nd). pull_task sip chs step name nd)
       (filter (\<lambda>(name, nd). should_run chs g step updated nd) (g_nodes g))"

definition pending_packets :: "serde \<Rightarrow> ckpt \<Rightarrow> u64 \<Rightarrow> send_packet list" where
  "pending_packets S ck step =
     List.map_filter (\<lambda>(_, ch, v). if ch = TASKS_CHANNEL
         then decode_send_packet S v None (saturating_pred step) else None) (ck_pending_sends ck)"

definition push_candidates ::
    "serde \<Rightarrow> (nat list \<Rightarrow> nat) \<Rightarrow> ckpt \<Rightarrow> pregel_graph \<Rightarrow> u64 \<Rightarrow> prepared_task list" where
  "push_candidates S sip ck g step =
     map (push_task sip step)
       (filter (\<lambda>p. sp_target p \<in> set (keys (g_nodes g))) (pending_packets S ck step))"

definition by_id :: "prepared_task \<Rightarrow> string \<times> prepared_task" where
  "by_id t = (pt_id t, t)"

lemma prepare_pull_fold:
  "prepare_pull_tasks sip chs g step updated m = fold put_task (pull_candidates sip chs g step updated) m"
proof -
  have "fold (\<lambda>(name, nd) m. if \<not> should_run chs g step updated nd then m
           else put_task (pull_task sip chs step name nd) m) ns m =
        fold put_task (map (\<lambda>(name, nd). pull_task sip chs step name nd)
           (filter (\<lambda>(name, nd). should_run chs g step updated nd) ns)) m" for ns
    by (induction ns arbitrary: m) auto
  then show ?thesis by (simp add: prepare_pull_tasks_def pull_candidates_def)
qed

lemma prepare_push_fold:
  "prepare_push_tasks S sip ck g step m = fold put_task (push_candidates S sip ck g step) m"
proof -
  have "fold (\<lambda>(_, ch, v) m. if ch \<noteq> TASKS_CHANNEL then m
             else (case decode_send_packet S v None (saturating_pred step) of
                     None \<Rightarrow> m
                   | Some packet \<Rightarrow>
                       if map_of (g_nodes g) (sp_target packet) = None then m
                       else put_task (push_task sip step packet) m)) ws m =
        fold put_task (map (push_task sip step)
          (filter (\<lambda>p. sp_target p \<in> set (keys (g_nodes g)))
            (List.map_filter (\<lambda>(_, ch, v). if ch = TASKS_CHANNEL
              then decode_send_packet S v None (saturating_pred step) else None) ws))) m" for ws
  proof (induction ws arbitrary: m)
    case (Cons w ws)
    have m: "map_of (g_nodes g) k = None \<longleftrightarrow> k \<notin> set (keys (g_nodes g))" for k
      by (simp add: map_of_eq_None_iff)
    obtain t ch v where "w = (t, ch, v)" by (cases w)
    then show ?case
      using Cons.IH unfolding m
      by (cases "decode_send_packet S v None (saturating_pred step)")
        (simp_all add: List.map_filter_simps)
  qed (simp add: List.map_filter_simps)
  then show ?thesis by (simp add: prepare_push_tasks_def push_candidates_def pending_packets_def)
qed

lemma fold_put_task: "fold put_task ts [] = bt_of (map by_id ts)"
proof -
  have "fold put_task ts m = fold (\<lambda>(k, v) m. bt_insert k v m) (map by_id ts) m" for m
    by (induction ts arbitrary: m) (simp_all add: put_task_def by_id_def)
  then show ?thesis by (simp add: bt_of_def)
qed

lemma prepare_next_eq:
  "prepare_next_tasks S sip ck chs g step updated =
     map snd (bt_of (map by_id (pull_candidates sip chs g step updated @ push_candidates S sip ck g step)))"
  unfolding prepare_next_tasks_def prepare_pull_fold prepare_push_fold
  unfolding fold_put_task [symmetric] by (simp add: fold_append)

text \<open>An ordered map of tasks keyed by their own id.\<close>

lemma bt_of_by_id:
  assumes "(k, t) \<in> set (bt_of (map by_id ts))"
  shows "k = pt_id t" and "t \<in> set ts"
proof -
  have "map_of (bt_of (map by_id ts)) k = Some t"
    by (rule map_of_is_SomeI [OF bt_wf_distinct [OF bt_of_wf] assms])
  then have "map_of (rev (map by_id ts)) k = Some t" by (simp add: map_of_bt_of)
  then have "(k, t) \<in> set (map by_id ts)" by (auto dest: map_of_SomeD)
  then show "k = pt_id t" and "t \<in> set ts" by (auto simp: by_id_def)
qed

lemma set_bt_of_by_id: "set (map snd (bt_of (map by_id ts))) \<subseteq> set ts"
  using bt_of_by_id(2) by fastforce

lemma ids_of_bt: "map pt_id (map snd (bt_of (map by_id ts))) = keys (bt_of (map by_id ts))"
  by (auto dest: bt_of_by_id(1))

lemma prepare_next_sorted:
  "sorted_wrt (<) (map pt_id (prepare_next_tasks S sip ck chs g step updated))"
  unfolding prepare_next_eq ids_of_bt using bt_of_wf unfolding bt_wf_def .

text \<open>what \<open>prepare_next_tasks\<close> returns. Task ids are strictly increasing, hence distinct;
  every task is a candidate of the step (the pull task of a node that should run, or the push task
  of a pending packet whose target node exists), the ids are exactly those of the candidates, and
  every task names a node of the graph.\<close>

theorem prepare_next_tasks_spec:
  "let ts = prepare_next_tasks S sip ck chs g step updated;
       candidates = set (pull_candidates sip chs g step updated) \<union> set (push_candidates S sip ck g step)
   in sorted_wrt (<) (map pt_id ts) \<and> set ts \<subseteq> candidates \<and> pt_id ` set ts = pt_id ` candidates \<and>
      pt_node_name ` set ts \<subseteq> set (keys (g_nodes g)) \<and> pt_step ` set ts \<subseteq> {step}"
proof -
  let ?c = "pull_candidates sip chs g step updated @ push_candidates S sip ck g step"
  let ?ts = "prepare_next_tasks S sip ck chs g step updated"
  have ts: "?ts = map snd (bt_of (map by_id ?c))" by (rule prepare_next_eq)
  have ids: "map pt_id ?ts = keys (bt_of (map by_id ?c))" unfolding ts by (rule ids_of_bt)
  have s: "sorted_wrt (<) (map pt_id ?ts)" by (rule prepare_next_sorted)
  have sub: "set ?ts \<subseteq> set ?c" unfolding ts by (rule set_bt_of_by_id)
  have "pt_id ` set ?ts = set (keys (bt_of (map by_id ?c)))" using ids by (metis list.set_map)
  also have "\<dots> = pt_id ` set ?c" by (simp only: set_keys_bt_of) (auto simp: by_id_def)
  finally have img: "pt_id ` set ?ts = pt_id ` set ?c" .
  have "pt_node_name ` set ?c \<subseteq> set (keys (g_nodes g))"
    by (auto simp: pull_candidates_def push_candidates_def pull_task_def push_task_def image_iff)
      (force)+
  moreover have "pt_step ` set ?c \<subseteq> {step}"
    by (auto simp: pull_candidates_def push_candidates_def pull_task_def push_task_def)
  ultimately show ?thesis using s sub img unfolding Let_def set_append by blast
qed

text \<open>C26: no scheduled work is lost. If no two candidates of the step have the same id, then every
  node that should run and every pending packet with an existing target gets its task.\<close>

theorem prepare_next_tasks_complete:
  assumes "inj_on pt_id (set (pull_candidates sip chs g step updated) \<union> set (push_candidates S sip ck g step))"
  shows "set (prepare_next_tasks S sip ck chs g step updated) =
         set (pull_candidates sip chs g step updated) \<union> set (push_candidates S sip ck g step)"
proof -
  let ?c = "pull_candidates sip chs g step updated @ push_candidates S sip ck g step"
  let ?ts = "prepare_next_tasks S sip ck chs g step updated"
  have ts: "?ts = map snd (bt_of (map by_id ?c))" by (rule prepare_next_eq)
  have sub: "set ?ts \<subseteq> set ?c" unfolding ts by (rule set_bt_of_by_id)
  have "pt_id ` set ?ts = set (keys (bt_of (map by_id ?c)))"
    unfolding ts by (metis ids_of_bt list.set_map)
  also have "\<dots> = pt_id ` set ?c" by (simp only: set_keys_bt_of) (auto simp: by_id_def)
  finally have "pt_id ` set ?ts = pt_id ` set ?c" .
  with sub assms show ?thesis by (metis inj_on_image_eq_iff order_refl set_append)
qed

definition one_node_graph :: pregel_graph where
  "one_node_graph = set_input_channels [''in'']
     (add_node \<lparr>nd_name = ''n'', nd_triggers = [''in''], nd_reads = []\<rparr>
       (add_channel ''in'' LastValue graph_new))"

lemmas one_node_defs = one_node_graph_def set_input_channels_def add_node_def add_channel_def graph_new_def

definition one_node :: pnode where
  "one_node = \<lparr>nd_name = ''n'', nd_triggers = [''in''], nd_reads = []\<rparr>"

lemma one_node_tasks:
  "prepare_next_tasks S sip (with_id ''c'' 0 JNull SrcInput 0) chs one_node_graph 0 [] =
     [pull_task sip chs 0 ''n'' one_node]"
  by (simp add: prepare_next_eq pull_candidates_def push_candidates_def pending_packets_def with_id_def
      one_node_defs one_node_def should_run_def List.map_filter_simps by_id_def bt_of_def)

lemma prepare_next_tasks_complete_witness:
  "let S = derived_serde (\<lambda>_. []); ck = with_id ''c'' 0 JNull SrcInput 0;
       chs = [(''in'', build_channel LastValue)]
   in set (prepare_next_tasks S (\<lambda>_. 0) ck chs one_node_graph 0 []) =
        {pull_task (\<lambda>_. 0) chs 0 ''n'' \<lparr>nd_name = ''n'', nd_triggers = [''in''], nd_reads = []\<rparr>}"
  unfolding Let_def
  by (subst prepare_next_tasks_complete)
    (simp_all add: pull_candidates_def push_candidates_def pending_packets_def with_id_def
      one_node_defs should_run_def List.map_filter_simps)

subsection \<open>Snapshot and restore\<close>

lemma map_of_map_filter_lookup:
  "map_of (List.map_filter (\<lambda>n. map_option (\<lambda>c. (n, f c)) (map_of m n)) ns) k =
     (if k \<in> set ns then map_option f (map_of m k) else None)"
  by (induction ns) (auto simp: List.map_filter_simps split: option.splits)

lemma json_get_snapshot: "json_get (snapshot_channels chs) n = map_option chan_snapshot (map_of chs n)"
proof -
  have r: "rev (List.map_filter f xs) = List.map_filter f (rev xs)"
    for f :: "string \<Rightarrow> (string \<times> json) option" and xs
    by (simp add: List.map_filter_def rev_map rev_filter)
  have "json_get (snapshot_channels chs) n =
      (if n \<in> set (keys chs) then map_option chan_snapshot (map_of chs n) else None)"
    unfolding snapshot_channels_def json_get_def json.case map_of_bt_of r
    by (simp only: map_of_map_filter_lookup set_rev set_sort)
  then show ?thesis by (simp add: map_of_eq_None_iff set_keys_map_of)
qed

lemma map_of_fold_update:
  "map_of (fold (\<lambda>(n, k) m. AList.update n (f n k) m) xs m0) n =
     (case map_of (rev xs) n of Some k \<Rightarrow> Some (f n k) | None \<Rightarrow> map_of m0 n)"
  by (induction xs arbitrary: m0) (auto simp: map_add_def split: option.splits)

lemma restore_lookup:
  assumes "distinct (keys (g_channels g))"
  shows "map_of (restore_channels_from_checkpoint ck g) n =
    map_option (restore_channel ck n) (map_of (g_channels g) n)"
proof -
  have "map_of (rev (g_channels g)) = map_of (g_channels g)"
    using assms by (simp add: map_of_inject_set rev_map flip: rev_map)
  then show ?thesis
    by (simp add: restore_channels_from_checkpoint_def map_of_fold_update split: option.splits)
qed

text \<open>for last-value and ephemeral channels a checkpoint round trip is faithful: restoring the
  channels from a checkpoint whose values are the snapshot of the live channels gives a channel
  with the same snapshot.\<close>

theorem restore_snapshot:
  assumes "distinct (keys (g_channels g))"
    and "map_of (g_channels g) n = Some kind" and "kind = LastValue \<or> kind = Ephemeral"
    and "n \<noteq> TASKS_CHANNEL"
    and "ck_channel_values ck = snapshot_channels chs" and "map_of chs n = Some c"
  shows "map_option chan_snapshot (map_of (restore_channels_from_checkpoint ck g) n) =
         Some (chan_snapshot c)"
  using assms
  by (auto simp: restore_lookup restore_channel_def json_get_snapshot Let_def lv_new_def lv_update_def
      lv_snapshot_def ep_new_def ep_update_def ep_snapshot_def)

lemma restore_snapshot_witness:
  "let chs = [(''in'', LastValueC \<lparr>lv_value = Some (JStr ''x''), lv_available = True\<rparr>)];
       ck = (with_id ''c'' 0 JNull SrcLoop 1)\<lparr>ck_channel_values := snapshot_channels chs\<rparr>
   in map_option chan_snapshot (map_of (restore_channels_from_checkpoint ck one_node_graph) ''in'') =
      Some (JStr ''x'')"
  unfolding Let_def
  by (subst restore_snapshot [where kind = LastValue and
        chs = "[(''in'', LastValueC \<lparr>lv_value = Some (JStr ''x''), lv_available = True\<rparr>)]" and
        c = "LastValueC \<lparr>lv_value = Some (JStr ''x''), lv_available = True\<rparr>"])
    (simp_all add: one_node_defs TASKS_CHANNEL_def lv_snapshot_def)

text \<open>a topic does not survive that round trip. Its snapshot is the array of its values, and
  restoring feeds that array to the new channel as one value, so the restored snapshot is the old
  one nested in another array, at every restore once more.\<close>

theorem restore_nests_topics:
  "let ck' = ck\<lparr>ck_channel_values := snapshot_channels [(''events'', TopicC c)]\<rparr>;
       restored = restore_channel ck' ''events'' (Topic (tp_accumulate c))
   in chan_snapshot restored = JArr [chan_snapshot (TopicC c)] \<and>
      chan_snapshot restored \<noteq> chan_snapshot (TopicC c)"
proof -
  have "JArr [v] \<noteq> v" for v
  proof
    assume "JArr [v] = v"
    then have "size (JArr [v]) = size v" by simp
    then show False by simp
  qed
  then show ?thesis
    by (auto simp: Let_def restore_channel_def json_get_snapshot TASKS_CHANNEL_def tp_new_def tp_update_def
        tp_snapshot_def simp del: json.inject)
qed

text \<open>a barrier that has seen only some of its names loses them in that round trip, so the
  remaining names no longer open it.\<close>

theorem restore_loses_barrier_progress:
  "let live = snd (chan_update (build_channel (NamedBarrier [''a'', ''b''])) [JStr ''a'']);
       ck' = ck\<lparr>ck_channel_values := snapshot_channels [(''join'', live)]\<rparr>;
       restored = restore_channel ck' ''join'' (NamedBarrier [''a'', ''b''])
   in chan_snapshot (snd (chan_update live [JStr ''b''])) = JBool True \<and>
      chan_snapshot (snd (chan_update restored [JStr ''b''])) = JNull"
  by (simp add: Let_def restore_channel_def json_get_snapshot TASKS_CHANNEL_def nb_new_def
      nb_update_def nb_snapshot_def barrier_met_def)

end
