(* ===== verification/Pregel_Loop.thy ===== *)
theory Pregel_Loop
  imports Pregel_Pending Pregel_Tasks
begin

text \<open>
  \<open>foundation/pregel/src/loop_state.rs\<close>: the state machine of one run. \<open>tick\<close> prepares the tasks
  of the next step or ends the run, \<open>after_tick\<close> applies the outcomes of a step at its barrier.
  Both are functions from the loop state to the returned \<open>Result\<close> and the new state; every early
  return of the source is a branch. Steps are 64-bit words. \<open>next_channel_version\<close> is the closure
  \<open>after_tick\<close> hands to \<open>apply_writes\<close>.
\<close>

record interrupt_state =
  is_before :: "string list"
  is_after :: "string list"
  is_resume_values :: "json list"
  is_consumed :: "string set"

record 'f pregel_loop =
  lp_step :: u64
  lp_stop :: u64
  lp_status :: loop_status
  lp_graph :: pregel_graph
  lp_namespace :: string
  lp_checkpoint :: ckpt
  lp_channels :: channels
  lp_pending_writes :: "pending_write list"
  lp_updated_channels :: "string list"
  lp_config :: "'f pregel_config"
  lp_interrupts :: interrupt_state

definition step_of_int :: "int \<Rightarrow> u64" where
  "step_of_int i = i64_as_u64 (max i 0)"

definition loop_new :: "pregel_graph \<Rightarrow> string \<Rightarrow> ckpt \<Rightarrow> channels \<Rightarrow> 'f pregel_config \<Rightarrow> 'f pregel_loop" where
  "loop_new g namespace ck chs config =
     \<lparr>lp_step = step_of_int (km_step (ck_kernel ck)), lp_stop = cf_max_steps config,
      lp_status = Running, lp_graph = g, lp_namespace = namespace, lp_checkpoint = ck,
      lp_channels = chs, lp_pending_writes = ck_pending_writes ck,
      lp_updated_channels = (case ck_updated_channels ck of Some u \<Rightarrow> u | None \<Rightarrow> []),
      lp_config = config,
      lp_interrupts = \<lparr>is_before = cf_interrupt_before config, is_after = cf_interrupt_after config,
                       is_resume_values = [], is_consumed = {}\<rparr>\<rparr>"

subsection \<open>Interrupt records\<close>

definition build_configured_interrupt :: "prepared_task \<Rightarrow> string \<Rightarrow> interrupt" where
  "build_configured_interrupt task when =
     interrupt_with_id
       (json_object [(''kind'', JStr ''pregel_interrupt''), (''when'', JStr when),
          (''node'', JStr (pt_node_name task)), (''task_id'', JStr (pt_id task)),
          (''step'', en_u64 (pt_step task))])
       (''pregel:'' @ when @ '':'' @ pt_node_name task @ '':'' @ show_nat (unat (pt_step task)))"

definition interrupt_record_from_task :: "prepared_task \<Rightarrow> interrupt \<Rightarrow> string \<Rightarrow> interrupt_record" where
  "interrupt_record_from_task task i namespace =
     \<lparr>ir_interrupt_id = (case in_id i of Some n \<Rightarrow> n
        | None \<Rightarrow> ''pregel:'' @ pt_node_name task @ '':'' @ show_nat (unat (pt_step task))),
      ir_namespace = namespace, ir_task_id = pt_id task, ir_node_name = pt_node_name task,
      ir_step = pt_step task, ir_value = in_value i\<rparr>"

definition get_str :: "json \<Rightarrow> string \<Rightarrow> string option" where
  "get_str v k = Option.bind (json_get v k) as_str"

definition interrupt_namespace :: "interrupt \<Rightarrow> string \<Rightarrow> string" where
  "interrupt_namespace i fallback =
     (case get_str (in_value i) ''namespace'' of Some n \<Rightarrow> n | None \<Rightarrow> fallback)"

definition reserved_interrupt_from_task ::
    "executable_task \<Rightarrow> string \<Rightarrow> (interrupt \<times> interrupt_record) option" where
  "reserved_interrupt_from_task task default_namespace =
     (case map_of (et_writes task) (reserved_as_str RInterrupt) of
        None \<Rightarrow> None
      | Some v \<Rightarrow>
          let iid = (case get_str v ''interrupt_id'' of
                       Some n \<Rightarrow> n
                     | None \<Rightarrow> (case get_str v ''id'' of
                                  Some n \<Rightarrow> n
                                | None \<Rightarrow> ''pregel:interrupt-write:'' @ pt_node_name (et_prepared task) @ '':'' @
                                    show_nat (unat (pt_step (et_prepared task)))));
              i = interrupt_with_id v iid
          in Some (i, interrupt_record_from_task (et_prepared task) i (interrupt_namespace i default_namespace)))"

definition reserved_error_from_task :: "serde \<Rightarrow> executable_task \<Rightarrow> string option" where
  "reserved_error_from_task S task =
     map_option (\<lambda>v. (case v of
          JStr message \<Rightarrow> message
        | JObj m \<Rightarrow> (case Option.bind (map_of m ''message'') as_str of
                       Some t \<Rightarrow> t | None \<Rightarrow> json_text S v)
        | _ \<Rightarrow> json_text S v))
       (map_of (et_writes task) (reserved_as_str RError))"

definition reserved_return_output :: "pending_write list \<Rightarrow> json option" where
  "reserved_return_output pending =
     (case map (\<lambda>(_, _, v). v) (filter (\<lambda>(_, ch, _). ch = reserved_as_str RReturn) pending) of
        [] \<Rightarrow> None
      | [v] \<Rightarrow> Some v
      | vs \<Rightarrow> Some (JArr vs))"

definition retain_unconsumed_interrupts :: "serde \<Rightarrow> json list \<Rightarrow> string set \<Rightarrow> json list" where
  "retain_unconsumed_interrupts S pending consumed =
     List.map_filter (\<lambda>v. case interrupt_from_value S v of
          None \<Rightarrow> None
        | Some r \<Rightarrow> if ir_interrupt_id r \<in> consumed then None else Some (interrupt_to_value S r)) pending"

definition push_pending_interrupt_record ::
    "serde \<Rightarrow> string set \<Rightarrow> interrupt_record \<Rightarrow> ckpt \<Rightarrow> ckpt" where
  "push_pending_interrupt_record S consumed r ck =
     (let pending = retain_unconsumed_interrupts S (ck_pending_interrupts ck) consumed in
      if \<exists>v \<in> set pending. (case interrupt_from_value S v of
            Some e \<Rightarrow> ir_interrupt_id e = ir_interrupt_id r | None \<Rightarrow> False)
      then ck\<lparr>ck_pending_interrupts := pending\<rparr>
      else ck\<lparr>ck_pending_interrupts := pending @ [interrupt_to_value S r]\<rparr>)"

definition push_pending_interrupt_records ::
    "serde \<Rightarrow> interrupt_record list \<Rightarrow> string set \<Rightarrow> ckpt \<Rightarrow> ckpt" where
  "push_pending_interrupt_records S rs consumed ck =
     fold (push_pending_interrupt_record S consumed) rs ck"

subsection \<open>Staged and merged writes\<close>

definition successes :: "task_outcome list \<Rightarrow> executable_task list" where
  "successes outcomes =
     List.map_filter (\<lambda>out. case out of TaskSuccess t \<Rightarrow> Some t | _ \<Rightarrow> None) outcomes"

definition task_pending_writes :: "executable_task \<Rightarrow> pending_write list" where
  "task_pending_writes t = map (\<lambda>(ch, v). (pt_id (et_prepared t), ch, v)) (et_writes t)"

definition stage_successful_task_writes :: "task_outcome list \<Rightarrow> string set \<Rightarrow> ckpt \<Rightarrow> ckpt" where
  "stage_successful_task_writes outcomes excluded ck =
     ck\<lparr>ck_pending_writes := normalize_pending_writes
          (ck_pending_writes ck @
           concat (map task_pending_writes
             (filter (\<lambda>t. pt_id (et_prepared t) \<notin> excluded) (successes outcomes))))\<rparr>"

definition merge_pending_sends_after_commit ::
    "serde \<Rightarrow> pending_write list \<Rightarrow> executable_task list \<Rightarrow> pending_write list \<Rightarrow> pending_write list" where
  "merge_pending_sends_after_commit S existing committed new =
     (let consumed = set (List.map_filter (\<lambda>t. pt_packet_id (et_prepared t)) committed)
      in normalize_pending_sends S
           (filter (\<lambda>(_, _, v). case pending_send_packet_id S v of
                      Some i \<Rightarrow> i \<notin> consumed | None \<Rightarrow> True) existing @ new))"

definition resume_write_matches_consumed_interrupts :: "json \<Rightarrow> interrupt_record list \<Rightarrow> bool" where
  "resume_write_matches_consumed_interrupts v records =
     (if records = [] then False
      else case get_str v ''interrupt_id'' of
             Some i \<Rightarrow> i \<in> set (map ir_interrupt_id records)
           | None \<Rightarrow>
               (case get_str v ''namespace'' of
                  Some n \<Rightarrow> n \<in> set (map ir_namespace records)
                | None \<Rightarrow> length records = 1))"

definition merge_pending_writes_after_commit ::
    "serde \<Rightarrow> pending_write list \<Rightarrow> json list \<Rightarrow> string set \<Rightarrow> executable_task list \<Rightarrow> pending_write list
     \<Rightarrow> pending_write list" where
  "merge_pending_writes_after_commit S existing pending_interrupts consumed committed new =
     (let committed_ids = set (map (\<lambda>t. pt_id (et_prepared t)) committed);
          records = filter (\<lambda>r. ir_interrupt_id r \<in> consumed)
                      (List.map_filter (interrupt_from_value S) pending_interrupts)
      in normalize_pending_writes
           (filter (\<lambda>(t, ch, v).
                if t \<in> committed_ids then False
                else if ch \<noteq> reserved_as_str RResume then True
                else \<not> resume_write_matches_consumed_interrupts v records) existing @ new))"

definition is_reserved_write :: "string \<Rightarrow> bool" where
  "is_reserved_write channel \<longleftrightarrow>
     channel \<in> set (map reserved_as_str [RError, RInterrupt, RResume, RScheduled, RPush, RReturn, RNoWrites, RTasks])"

definition loop_output :: "'f pregel_loop \<Rightarrow> json" where
  "loop_output l = ck_channel_values (lp_checkpoint l)"

definition final_output :: "'f pregel_loop \<Rightarrow> json" where
  "final_output l =
     (case reserved_return_output (ck_pending_writes (lp_checkpoint l)) of
        Some v \<Rightarrow> v | None \<Rightarrow> loop_output l)"

subsection \<open>tick\<close>

definition or_insert_task :: "prepared_task \<Rightarrow> tasks_by_id \<Rightarrow> tasks_by_id" where
  "or_insert_task t m = (if map_of m (pt_id t) = None then bt_insert (pt_id t) t m else m)"

definition tick_tasks :: "serde \<Rightarrow> (nat list \<Rightarrow> nat) \<Rightarrow> 'f pregel_loop \<Rightarrow> prepared_task list" where
  "tick_tasks S sip l =
     (let ck = lp_checkpoint l; ids = is_consumed (lp_interrupts l);
          tasks = prepare_next_tasks S sip ck (lp_channels l) (lp_graph l) (lp_step l) (lp_updated_channels l);
          resumable = (ck_pending_interrupts ck \<noteq> [] \<and> ids \<noteq> {});
          resume = prepare_resume_tasks_from_interrupts S ck (lp_channels l) (lp_graph l) (lp_step l) ids;
          tasks1 = (if tasks = [] \<and> resumable then resume else tasks)
      in if tasks1 \<noteq> [] \<and> resumable
         then map snd (fold or_insert_task resume (fold put_task tasks1 []))
         else tasks1)"

definition configured_records ::
    "string \<Rightarrow> string \<Rightarrow> prepared_task list \<Rightarrow> interrupt_record list" where
  "configured_records namespace when tasks =
     map (\<lambda>t. interrupt_record_from_task t (build_configured_interrupt t when) namespace) tasks"

definition tick ::
    "serde \<Rightarrow> (nat list \<Rightarrow> nat) \<Rightarrow> 'f pregel_loop \<Rightarrow> (prepared_task list option) gresult \<times> 'f pregel_loop" where
  "tick S sip l =
     (if lp_step l \<ge> lp_stop l then (Inr None, l\<lparr>lp_status := OutOfSteps\<rparr>)
      else
        let tasks = tick_tasks S sip l in
        if tasks = [] then (Inr None, l\<lparr>lp_status := Done\<rparr>)
        else
          case filter (\<lambda>t. pt_node_name t \<in> set (is_before (lp_interrupts l))) tasks of
            [] \<Rightarrow> (Inr (Some tasks), l)
          | t # ts \<Rightarrow>
              (Inl (Interrupted_Err (build_configured_interrupt t ''before'')),
               l\<lparr>lp_status := InterruptedBefore,
                 lp_checkpoint := push_pending_interrupt_records S
                   (configured_records (lp_namespace l) ''before'' (t # ts))
                   (is_consumed (lp_interrupts l)) (lp_checkpoint l)\<rparr>))"

subsection \<open>after_tick\<close>

definition next_channel_version :: "string option \<Rightarrow> string" where
  "next_channel_version current =
     show_nat (((case Option.bind current parse_u64 of Some n \<Rightarrow> n | None \<Rightarrow> 0) + 1) mod u64_bound)"

fun outcome_task :: "task_outcome \<Rightarrow> executable_task" where
  "outcome_task (TaskSuccess t) = t"
| "outcome_task (TaskInterrupted t _) = t"
| "outcome_task (TaskCancelled t) = t"
| "outcome_task (TaskFailed t _) = t"

definition direct_interrupts :: "string \<Rightarrow> task_outcome list \<Rightarrow> (interrupt \<times> interrupt_record) list" where
  "direct_interrupts namespace outcomes =
     List.map_filter (\<lambda>out. case out of
         TaskInterrupted t i \<Rightarrow>
           Some (i, interrupt_record_from_task (et_prepared t) i (interrupt_namespace i namespace))
       | _ \<Rightarrow> None) outcomes"

definition reserved_interrupts :: "string \<Rightarrow> task_outcome list \<Rightarrow> (interrupt \<times> interrupt_record) list" where
  "reserved_interrupts namespace outcomes =
     List.map_filter (\<lambda>t. reserved_interrupt_from_task t namespace) (successes outcomes)"

definition first_reserved_error :: "serde \<Rightarrow> task_outcome list \<Rightarrow> (string \<times> string) option" where
  "first_reserved_error S outcomes =
     (case List.map_filter (\<lambda>t. map_option (Pair (pt_id (et_prepared t))) (reserved_error_from_task S t))
             (successes outcomes) of
        [] \<Rightarrow> None | x # _ \<Rightarrow> Some x)"

definition interrupt_after_tasks :: "string list \<Rightarrow> task_outcome list \<Rightarrow> prepared_task list" where
  "interrupt_after_tasks nodes outcomes =
     filter (\<lambda>t. pt_node_name t \<in> set nodes) (map et_prepared (successes outcomes))"

definition first_failure :: "(json \<Rightarrow> string) \<Rightarrow> task_outcome list \<Rightarrow> string option" where
  "first_failure text outcomes =
     (case List.map_filter (\<lambda>out. case out of TaskFailed _ e \<Rightarrow> Some (show_graph_error text e) | _ \<Rightarrow> None)
             outcomes of
        [] \<Rightarrow> None | e # _ \<Rightarrow> Some e)"

definition has_cancelled :: "task_outcome list \<Rightarrow> bool" where
  "has_cancelled outcomes \<longleftrightarrow> (\<exists>out \<in> set outcomes. case out of TaskCancelled _ \<Rightarrow> True | _ \<Rightarrow> False)"

text \<open>The barrier itself, once no outcome stops the step.\<close>

definition commit_step :: "serde \<Rightarrow> task_outcome list \<Rightarrow> 'f pregel_loop \<Rightarrow> 'f pregel_loop" where
  "commit_step S outcomes l =
     (let ck = lp_checkpoint l;
          ids = is_consumed (lp_interrupts l);
          tasks = map outcome_task outcomes
      in case apply_writes S next_channel_version (lp_graph l) tasks (ck, lp_channels l) of
           (updated, ck1, chs1) \<Rightarrow>
             let ck2 = ck1\<lparr>ck_pending_sends :=
                             merge_pending_sends_after_commit S (ck_pending_sends ck) tasks (ck_pending_sends ck1),
                           ck_pending_writes :=
                             merge_pending_writes_after_commit S (ck_pending_writes ck)
                               (ck_pending_interrupts ck1) ids tasks (ck_pending_writes ck1)\<rparr>;
                 step' = lp_step l + 1;
                 ck3 = ck2\<lparr>ck_kernel := (ck_kernel ck2)\<lparr>km_step := u64_as_i64 step'\<rparr>\<rparr>;
                 ck4 = (if ids \<noteq> {}
                        then ck3\<lparr>ck_pending_interrupts :=
                               retain_unconsumed_interrupts S (ck_pending_interrupts ck3) ids\<rparr>
                        else ck3)
             in l\<lparr>lp_checkpoint := ck4, lp_channels := chs1, lp_updated_channels := updated,
                  lp_pending_writes := ck_pending_writes ck2, lp_step := step'\<rparr>)"

definition after_tick ::
    "serde \<Rightarrow> task_outcome list \<Rightarrow> 'f pregel_loop \<Rightarrow> unit gresult \<times> 'f pregel_loop" where
  "after_tick S outcomes l =
     (let ck = lp_checkpoint l;
          ids = is_consumed (lp_interrupts l);
          direct = direct_interrupts (lp_namespace l) outcomes;
          reserved = reserved_interrupts (lp_namespace l) outcomes;
          after_tasks = interrupt_after_tasks (is_after (lp_interrupts l)) outcomes
      in case direct of
           (i, _) # _ \<Rightarrow>
             (Inl (Interrupted_Err i),
              l\<lparr>lp_checkpoint := stage_successful_task_writes outcomes {}
                    (push_pending_interrupt_records S (map snd direct) ids ck),
                lp_status := InterruptedAfter\<rparr>)
         | [] \<Rightarrow>
         (case reserved of
           (i, _) # _ \<Rightarrow>
             (Inl (Interrupted_Err i),
              l\<lparr>lp_checkpoint := stage_successful_task_writes outcomes (set (map (ir_task_id \<circ> snd) reserved))
                    (push_pending_interrupt_records S (map snd reserved) ids ck),
                lp_status := InterruptedAfter\<rparr>)
         | [] \<Rightarrow>
         (case first_reserved_error S outcomes of
           Some (task_id, e) \<Rightarrow>
             (Inl (ExecutionFailed e),
              l\<lparr>lp_checkpoint := stage_successful_task_writes outcomes {task_id} ck, lp_status := Failed\<rparr>)
         | None \<Rightarrow>
         (case after_tasks of
           t # _ \<Rightarrow>
             (Inl (Interrupted_Err (build_configured_interrupt t ''after'')),
              l\<lparr>lp_checkpoint := stage_successful_task_writes outcomes {}
                    (push_pending_interrupt_records S
                       (configured_records (lp_namespace l) ''after'' after_tasks) ids ck),
                lp_status := InterruptedAfter\<rparr>)
         | [] \<Rightarrow>
         (if has_cancelled outcomes then
            (Inl Cancelled_Err,
             l\<lparr>lp_checkpoint := stage_successful_task_writes outcomes {} ck, lp_status := Cancelled\<rparr>)
          else
         (case first_failure (json_text S) outcomes of
           Some e \<Rightarrow>
             (Inl (ExecutionFailed e),
              l\<lparr>lp_checkpoint := stage_successful_task_writes outcomes {} ck, lp_status := Failed\<rparr>)
         | None \<Rightarrow> (Inr (), commit_step S outcomes l)))))))"

end
