(* ===== verification/Pregel_Loop_Facts.thy ===== *)
theory Pregel_Loop_Facts
  imports Pregel_Loop
begin

text \<open>
  What the state machine of \<open>Pregel_Loop\<close> guarantees: which results and states \<open>tick\<close> and
  \<open>after_tick\<close> can produce, that a step either commits as a whole or leaves channels and step
  alone, how interrupt records and pending writes evolve, and how channel versions advance.
\<close>

definition pushed_interrupts :: "serde \<Rightarrow> string set \<Rightarrow> interrupt_record \<Rightarrow> json list \<Rightarrow> json list" where
  "pushed_interrupts S ids r old =
     (let pending = retain_unconsumed_interrupts S old ids in
      if ir_interrupt_id r \<in> set (map ir_interrupt_id (List.map_filter (interrupt_from_value S) pending))
      then pending else pending @ [interrupt_to_value S r])"

lemma push_record_eq:
  "push_pending_interrupt_record S ids r ck =
     ck\<lparr>ck_pending_interrupts := pushed_interrupts S ids r (ck_pending_interrupts ck)\<rparr>"
proof -
  have "(\<exists>v \<in> set vs. (case interrupt_from_value S v of
            Some e \<Rightarrow> ir_interrupt_id e = ir_interrupt_id r | None \<Rightarrow> False)) \<longleftrightarrow>
        ir_interrupt_id r \<in> set (map ir_interrupt_id (List.map_filter (interrupt_from_value S) vs))" for vs
    by (induction vs) (auto simp: List.map_filter_simps split: option.splits)
  then show ?thesis
    by (simp add: push_pending_interrupt_record_def pushed_interrupts_def Let_def)
qed

lemma push_records_eq:
  "push_pending_interrupt_records S rs ids ck =
     ck\<lparr>ck_pending_interrupts := fold (pushed_interrupts S ids) rs (ck_pending_interrupts ck)\<rparr>"
  for ck :: ckpt
  unfolding push_pending_interrupt_records_def
  by (induction rs arbitrary: ck) (simp_all add: push_record_eq)

subsection \<open>tick\<close>

text \<open>C15: the outcomes of \<open>tick\<close>. It ends the run with \<open>OutOfSteps\<close> exactly when the step limit is
  reached and with \<open>Done\<close> exactly when below the limit nothing is left to run; it hands out tasks,
  and then leaves the state alone, only below the limit and when none of them is configured to
  interrupt; otherwise it reports an interrupt, and changes nothing but the status and the pending
  interrupts of the checkpoint.\<close>

theorem tick_outcomes:
  "case tick S sip l of
     (Inr None, l') \<Rightarrow>
       (if lp_stop l \<le> lp_step l then l' = l\<lparr>lp_status := OutOfSteps\<rparr>
        else tick_tasks S sip l = [] \<and> l' = l\<lparr>lp_status := Done\<rparr>)
   | (Inr (Some ts), l') \<Rightarrow>
       lp_step l < lp_stop l \<and> ts = tick_tasks S sip l \<and> ts \<noteq> [] \<and> l' = l \<and>
       pt_node_name ` set ts \<inter> set (is_before (lp_interrupts l)) = {}
   | (Inl e, l') \<Rightarrow>
       lp_step l < lp_stop l \<and> (\<exists>i. e = Interrupted_Err i) \<and>
       pt_node_name ` set (tick_tasks S sip l) \<inter> set (is_before (lp_interrupts l)) \<noteq> {} \<and>
       l' = l\<lparr>lp_status := InterruptedBefore,
              lp_checkpoint := (lp_checkpoint l)
                \<lparr>ck_pending_interrupts := ck_pending_interrupts (lp_checkpoint l')\<rparr>\<rparr>"
proof -
  show ?thesis
  proof (cases "lp_stop l \<le> lp_step l")
    case True
    then show ?thesis by (auto simp: tick_def)
  next
    case False
    show ?thesis
    proof (cases "filter (\<lambda>t. pt_node_name t \<in> set (is_before (lp_interrupts l))) (tick_tasks S sip l)")
      case Nil
      then have "pt_node_name ` set (tick_tasks S sip l) \<inter> set (is_before (lp_interrupts l)) = {}"
        by (auto simp: filter_empty_conv)
      with Nil False show ?thesis by (auto simp: tick_def Let_def not_le)
    next
      case (Cons t ts)
      then have t: "t \<in> set (tick_tasks S sip l)" "pt_node_name t \<in> set (is_before (lp_interrupts l))"
        by (auto dest!: arg_cong [of _ _ set])
      then have "tick_tasks S sip l \<noteq> []" by auto
      with Cons False t show ?thesis by (auto simp: tick_def Let_def not_le push_records_eq)
    qed
  qed
qed

subsection \<open>after_tick\<close>

text \<open>What a stopped step may change: the status, and in the checkpoint the pending writes and the
  pending interrupts.\<close>

definition only_staged :: "'f pregel_loop \<Rightarrow> 'f pregel_loop \<Rightarrow> bool" where
  "only_staged l l' \<longleftrightarrow>
     l' = l\<lparr>lp_status := lp_status l',
            lp_checkpoint := (lp_checkpoint l)
              \<lparr>ck_pending_writes := ck_pending_writes (lp_checkpoint l'),
               ck_pending_interrupts := ck_pending_interrupts (lp_checkpoint l')\<rparr>\<rparr>"

lemma only_staged_push:
  "only_staged l (l\<lparr>lp_checkpoint := stage_successful_task_writes outs ex
     (push_pending_interrupt_records S rs ids (lp_checkpoint l)), lp_status := st\<rparr>)"
  unfolding only_staged_def stage_successful_task_writes_def
  by (simp add: push_records_eq)

lemma only_staged_stage:
  "only_staged l (l\<lparr>lp_checkpoint := stage_successful_task_writes outs ex (lp_checkpoint l), lp_status := st\<rparr>)"
  by (simp add: only_staged_def stage_successful_task_writes_def)

text \<open>An outcome that lets the step commit: a success that writes neither an interrupt nor an error,
  of a node that is not configured to interrupt afterwards.\<close>

definition quiet_outcomes :: "'f pregel_loop \<Rightarrow> task_outcome set" where
  "quiet_outcomes l = TaskSuccess `
     {t. reserved_as_str RInterrupt \<notin> set (keys (et_writes t)) \<and>
         reserved_as_str RError \<notin> set (keys (et_writes t)) \<and>
         pt_node_name (et_prepared t) \<notin> set (is_after (lp_interrupts l))}"

lemma map_filter_Nil_iff: "List.map_filter f xs = [] \<longleftrightarrow> (\<forall>x \<in> set xs. f x = None)"
  by (induction xs) (auto simp: List.map_filter_simps split: option.splits)

lemma outcome_selectors:
  "(case out of TaskSuccess t \<Rightarrow> Some t | _ \<Rightarrow> None) = Some t' \<longleftrightarrow> out = TaskSuccess t'"
  "(case out of TaskCancelled _ \<Rightarrow> True | _ \<Rightarrow> False) \<longleftrightarrow> (\<exists>t. out = TaskCancelled t)"
  "(case out of TaskInterrupted t i \<Rightarrow> Some (f t i) | _ \<Rightarrow> None) = None \<longleftrightarrow> (\<forall>t i. out \<noteq> TaskInterrupted t i)"
  "(case out of TaskFailed t e \<Rightarrow> Some (h t e) | _ \<Rightarrow> None) = None \<longleftrightarrow> (\<forall>t e. out \<noteq> TaskFailed t e)"
  by (cases out; simp)+

lemma in_successes: "t \<in> set (successes outs) \<longleftrightarrow> TaskSuccess t \<in> set outs"
  by (simp add: successes_def in_map_filter outcome_selectors)

lemma no_reserved_interrupt:
  "reserved_interrupt_from_task t ns = None \<longleftrightarrow> reserved_as_str RInterrupt \<notin> set (keys (et_writes t))"
  by (auto simp: reserved_interrupt_from_task_def Let_def map_of_eq_None_iff split: option.splits
      dest: map_of_SomeD)
    (metis map_of_eq_None_iff option.distinct(1))

lemma no_reserved_error:
  "reserved_error_from_task S t = None \<longleftrightarrow> reserved_as_str RError \<notin> set (keys (et_writes t))"
  by (simp add: reserved_error_from_task_def map_of_eq_None_iff)

lemma quiet_iff:
  "set outs \<subseteq> quiet_outcomes l \<longleftrightarrow>
     direct_interrupts (lp_namespace l) outs = [] \<and> reserved_interrupts (lp_namespace l) outs = [] \<and>
     first_reserved_error S outs = None \<and> interrupt_after_tasks (is_after (lp_interrupts l)) outs = [] \<and>
     \<not> has_cancelled outs \<and> first_failure (json_text S) outs = None"
proof -
  have e: "first_reserved_error S outs = None \<longleftrightarrow>
      (\<forall>t. TaskSuccess t \<in> set outs \<longrightarrow> reserved_as_str RError \<notin> set (keys (et_writes t)))"
    unfolding first_reserved_error_def no_reserved_error [of S, symmetric]
    using map_filter_Nil_iff [of "\<lambda>t. map_option (Pair (pt_id (et_prepared t))) (reserved_error_from_task S t)"
        "successes outs"] in_successes [of _ outs]
    by (auto split: list.splits)
  have i: "reserved_interrupts (lp_namespace l) outs = [] \<longleftrightarrow>
      (\<forall>t. TaskSuccess t \<in> set outs \<longrightarrow> reserved_as_str RInterrupt \<notin> set (keys (et_writes t)))"
    unfolding reserved_interrupts_def map_filter_Nil_iff no_reserved_interrupt Ball_def in_successes ..
  have a: "interrupt_after_tasks (is_after (lp_interrupts l)) outs = [] \<longleftrightarrow>
      (\<forall>t. TaskSuccess t \<in> set outs \<longrightarrow> pt_node_name (et_prepared t) \<notin> set (is_after (lp_interrupts l)))"
    unfolding interrupt_after_tasks_def filter_empty_conv by (auto simp: in_successes)
  have d: "direct_interrupts (lp_namespace l) outs = [] \<longleftrightarrow> (\<forall>t i. TaskInterrupted t i \<notin> set outs)"
    unfolding direct_interrupts_def map_filter_Nil_iff outcome_selectors by blast
  have f: "first_failure (json_text S) outs = None \<longleftrightarrow> (\<forall>t e. TaskFailed t e \<notin> set outs)"
    unfolding first_failure_def
    using map_filter_Nil_iff [of "\<lambda>out. case out of TaskFailed _ e \<Rightarrow> Some (show_graph_error (json_text S) e) | _ \<Rightarrow> None" outs]
    unfolding outcome_selectors by (auto split: list.splits)
  have c: "has_cancelled outs \<longleftrightarrow> (\<exists>t. TaskCancelled t \<in> set outs)"
    unfolding has_cancelled_def outcome_selectors by blast
  have m: "out \<in> quiet_outcomes l \<longleftrightarrow> (\<forall>t i. out \<noteq> TaskInterrupted t i) \<and> (\<forall>t. out \<noteq> TaskCancelled t) \<and>
      (\<forall>t e. out \<noteq> TaskFailed t e) \<and>
      (\<forall>t. out = TaskSuccess t \<longrightarrow> reserved_as_str RInterrupt \<notin> set (keys (et_writes t)) \<and>
             reserved_as_str RError \<notin> set (keys (et_writes t)) \<and>
             pt_node_name (et_prepared t) \<notin> set (is_after (lp_interrupts l)))" for out
    by (cases out) (auto simp: quiet_outcomes_def)
  show ?thesis unfolding e i a d f c subset_eq Ball_def m by blast
qed

text \<open>C1: a step commits as a whole or leaves the run where it was. \<open>after_tick\<close> returns \<open>Ok\<close> exactly
  when every outcome is a success without interrupt or error write, of a node not configured to
  interrupt; then the step is committed. Otherwise step, channels, updated channels and every part
  of the checkpoint are unchanged except the pending writes and pending interrupts, and the status
  says why the run stopped.\<close>

theorem after_tick_all_or_nothing:
  "case after_tick S outs l of
     (Inr _, l') \<Rightarrow> set outs \<subseteq> quiet_outcomes l \<and> l' = commit_step S outs l \<and>
                   lp_step l' = lp_step l + 1
   | (Inl e, l') \<Rightarrow> \<not> set outs \<subseteq> quiet_outcomes l \<and> only_staged l l' \<and>
                   lp_status l' = (case e of Interrupted_Err _ \<Rightarrow> InterruptedAfter
                                   | Cancelled_Err \<Rightarrow> Cancelled | ExecutionFailed _ \<Rightarrow> Failed)"
proof -
  have c: "lp_step (commit_step S outs l) = lp_step l + 1"
    by (auto simp: commit_step_def Let_def split: prod.splits)
  show ?thesis
    unfolding after_tick_def Let_def quiet_iff [of outs l S]
    by (auto simp: only_staged_push only_staged_stage c split: list.splits option.splits)
qed

subsection \<open>The committed checkpoint\<close>

lemma commit_step_parts:
  assumes "apply_writes S next_channel_version (lp_graph l) (map outcome_task outs)
             (lp_checkpoint l, lp_channels l) = (updated, ck1, chs1)"
  shows "lp_channels (commit_step S outs l) = chs1"
    and "lp_updated_channels (commit_step S outs l) = updated"
    and "ck_channel_values (lp_checkpoint (commit_step S outs l)) = ck_channel_values ck1"
    and "ck_channel_versions (lp_checkpoint (commit_step S outs l)) = ck_channel_versions ck1"
    and "ck_pending_sends (lp_checkpoint (commit_step S outs l)) =
      merge_pending_sends_after_commit S (ck_pending_sends (lp_checkpoint l)) (map outcome_task outs)
        (ck_pending_sends ck1)"
    and "ck_pending_writes (lp_checkpoint (commit_step S outs l)) =
      merge_pending_writes_after_commit S (ck_pending_writes (lp_checkpoint l))
        (ck_pending_interrupts (lp_checkpoint l)) (is_consumed (lp_interrupts l)) (map outcome_task outs)
        (ck_pending_writes ck1)"
    and "ck_pending_interrupts (lp_checkpoint (commit_step S outs l)) =
      (if is_consumed (lp_interrupts l) = {} then ck_pending_interrupts (lp_checkpoint l)
       else retain_unconsumed_interrupts S (ck_pending_interrupts (lp_checkpoint l)) (is_consumed (lp_interrupts l)))"
    and "km_step (ck_kernel (lp_checkpoint (commit_step S outs l))) = u64_as_i64 (lp_step l + 1)"
  using assms apply_writes_parts(8) [OF assms] by (auto simp: commit_step_def Let_def)

definition committed_ids :: "task_outcome list \<Rightarrow> string set" where
  "committed_ids outs = set (map (\<lambda>out. pt_id (et_prepared (outcome_task out))) outs)"

text \<open>The control writes of a task that stay pending: not the markers for no writes, and not the packets, which
  are sent.\<close>

definition stays_pending :: "serde \<Rightarrow> prepared_task \<Rightarrow> string \<times> json \<Rightarrow> bool" where
  "stays_pending S task w =
     (case classify_reserved_write (fst w) of
        Some r \<Rightarrow>
          if r \<in> {RTasks, RPush, RScheduled} then decode_send_packet S (snd w) (Some (pt_id task)) (pt_step task) = None
          else r \<noteq> RNoWrites
      | None \<Rightarrow> False)"

definition control_writes :: "serde \<Rightarrow> executable_task list \<Rightarrow> pending_write list" where
  "control_writes S tasks =
     concat (map (\<lambda>t. map (\<lambda>w. (pt_id (et_prepared t), w)) (filter (stays_pending S (et_prepared t)) (et_writes t))) tasks)"

text \<open>What others had staged, without the answers to the interrupts that this run has consumed.\<close>

definition staged_by_others :: "serde \<Rightarrow> task_outcome list \<Rightarrow> 'f pregel_loop \<Rightarrow> pending_write list" where
  "staged_by_others S outs l =
     filter (\<lambda>(t, ch, v). t \<notin> committed_ids outs \<and>
         \<not> (ch = reserved_as_str RResume \<and>
            resume_write_matches_consumed_interrupts v
              (filter (\<lambda>r. ir_interrupt_id r \<in> is_consumed (lp_interrupts l))
                (List.map_filter (interrupt_from_value S) (ck_pending_interrupts (lp_checkpoint l))))))
       (ck_pending_writes (lp_checkpoint l))"

lemma collected_pending:
  "snd (snd (collect_writes S ts acc)) =
   fold (\<lambda>(t, ch, v). push_unique_pending_write t ch v) (control_writes S ts) (snd (snd acc))"
proof (induction ts arbitrary: acc)
  case Nil
  then show ?case by (simp add: collect_writes_def control_writes_def)
next
  case (Cons t ts)
  have "snd (snd (fold (collect_write S p) ws acc)) =
      fold (\<lambda>(t, ch, v). push_unique_pending_write t ch v)
        (map (\<lambda>w. (pt_id p, w)) (filter (stays_pending S p) ws)) (snd (snd acc))" for p ws acc
    by (induction ws arbitrary: acc)
      (auto simp: collect_write_def stays_pending_def split: prod.splits option.splits)
  with Cons [of "fold (collect_write S (et_prepared t)) (et_writes t) acc"] show ?case
    by (simp add: collect_writes_def control_writes_def)
qed

text \<open>C20: a commit settles the pending writes, exactly: what is pending afterwards are the control writes of the
  committed tasks' own outcomes and the writes other tasks had staged, without the answers that the run has
  consumed. Whatever a committed task had staged in an earlier attempt is gone. For the single-valued
  control channels the last write of a task counts.\<close>

theorem commit_settles_pending_writes:
  "set (ck_pending_writes (lp_checkpoint (commit_step S outs l))) =
   {w. write_kept (staged_by_others S outs l @ control_writes S (map outcome_task outs)) w}"
proof (cases "apply_writes S next_channel_version (lp_graph l) (map outcome_task outs)
          (lp_checkpoint l, lp_channels l)")
  case (fields updated ck1 chs1)
  have "ck_pending_writes ck1 = normalize_pending_writes (control_writes S (map outcome_task outs))"
    using apply_writes_parts(7) [OF fields] by (simp add: collected_pending normalize_pending_writes_def)
  moreover have "ck_pending_writes (lp_checkpoint (commit_step S outs l)) =
      normalize_pending_writes (staged_by_others S outs l @ ck_pending_writes ck1)"
    unfolding commit_step_parts(6) [OF fields] merge_pending_writes_after_commit_def Let_def staged_by_others_def
    by (intro arg_cong [of _ _ "\<lambda>xs. normalize_pending_writes (xs @ ck_pending_writes ck1)"] filter_cong)
      (auto simp: committed_ids_def o_def)
  ultimately show ?thesis by (auto simp: normalize_writes_kept write_kept_normalize)
qed

subsection \<open>Interrupts\<close>

definition interrupt_ids :: "serde \<Rightarrow> json list \<Rightarrow> string list" where
  "interrupt_ids S js = map ir_interrupt_id (List.map_filter (interrupt_from_value S) js)"

lemma map_filter_append: "List.map_filter f (xs @ ys) = List.map_filter f xs @ List.map_filter f ys"
  by (simp add: List.map_filter_def)

lemma interrupt_ids_retain:
  "serde_ok S \<Longrightarrow>
   interrupt_ids S (retain_unconsumed_interrupts S js ids) = filter (\<lambda>i. i \<notin> ids) (interrupt_ids S js)"
  by (induction js)
    (auto simp: interrupt_ids_def retain_unconsumed_interrupts_def List.map_filter_simps split: option.splits)

lemma interrupt_ids_pushed:
  "serde_ok S \<Longrightarrow> interrupt_ids S (pushed_interrupts S ids r js) =
     (let kept = filter (\<lambda>i. i \<notin> ids) (interrupt_ids S js) in
      if ir_interrupt_id r \<in> set kept then kept else kept @ [ir_interrupt_id r])"
  unfolding interrupt_ids_retain [of S js ids, symmetric]
  by (auto simp: pushed_interrupts_def Let_def interrupt_ids_def map_filter_append List.map_filter_simps)

lemma interrupt_ids_push_fold:
  assumes "serde_ok S" "distinct (interrupt_ids S js)"
  shows "distinct (interrupt_ids S (fold (pushed_interrupts S ids) rs js)) \<and>
    set (interrupt_ids S js) - ids \<subseteq> set (interrupt_ids S (fold (pushed_interrupts S ids) rs js)) \<and>
    set (map ir_interrupt_id rs) - ids \<subseteq> set (interrupt_ids S (fold (pushed_interrupts S ids) rs js)) \<and>
    set (interrupt_ids S (fold (pushed_interrupts S ids) rs js))
      \<subseteq> set (interrupt_ids S js) \<union> set (map ir_interrupt_id rs)"
  using assms(2)
proof (induction rs arbitrary: js)
  case (Cons r rs)
  let ?j = "pushed_interrupts S ids r js"
  have "distinct (interrupt_ids S ?j)"
    using Cons.prems by (simp add: interrupt_ids_pushed [OF assms(1)] Let_def)
  note IH = Cons.IH [OF this]
  have "set (interrupt_ids S ?j) = (set (interrupt_ids S js) - ids) \<union> {ir_interrupt_id r}"
    by (auto simp: interrupt_ids_pushed [OF assms(1)] Let_def)
  with IH show ?case by auto
qed auto

text \<open>the interrupts recorded in a checkpoint. Recording interrupts never makes two records with
  one id; every recorded interrupt that was not resumed in this run stays recorded; every new one
  whose id was not resumed is recorded; and nothing else appears.\<close>

theorem push_interrupts_spec:
  assumes "serde_ok S" and "distinct (interrupt_ids S (ck_pending_interrupts ck))"
  shows "let old = interrupt_ids S (ck_pending_interrupts ck);
             new = interrupt_ids S (ck_pending_interrupts (push_pending_interrupt_records S rs consumed ck))
         in distinct new \<and>
            (set old \<union> set (map ir_interrupt_id rs)) - consumed \<subseteq> set new \<and>
            set new \<subseteq> set old \<union> set (map ir_interrupt_id rs)"
  using interrupt_ids_push_fold [OF assms, of consumed rs]
  by (simp add: push_records_eq Let_def Un_Diff)

definition ex_record :: "string \<Rightarrow> interrupt_record" where
  "ex_record i = \<lparr>ir_interrupt_id = i, ir_namespace = [], ir_task_id = ''t'', ir_node_name = ''n'',
                  ir_step = 0, ir_value = JNull\<rparr>"

lemma push_interrupts_spec_witness:
  "distinct (interrupt_ids (derived_serde (\<lambda>_. []))
     (ck_pending_interrupts (push_pending_interrupt_records (derived_serde (\<lambda>_. []))
       [ex_record ''a'', ex_record ''a''] {} (with_id ''c'' 0 JNull SrcLoop 0))))"
proof -
  have "distinct (interrupt_ids (derived_serde (\<lambda>_. []))
      (ck_pending_interrupts (with_id ''c'' 0 JNull SrcLoop 0)))"
    by (simp add: interrupt_ids_def with_id_def List.map_filter_simps)
  from push_interrupts_spec [OF serde_ok_derived this, of "[ex_record ''a'', ex_record ''a'']" "{}"]
  show ?thesis by (simp add: Let_def)
qed

text \<open>an interrupt raised again under an id that was resumed in this run is lost when another
  interrupt is recorded after it. Both nodes stop again, \<open>after_tick\<close> reports the interrupt of the
  first, but only the second is among the pending interrupts of the checkpoint, so the first can
  no longer be answered.\<close>

theorem reraised_interrupt_dropped:
  "let S = derived_serde text;
       i = interrupt_new JNull;
       l1 = l\<lparr>lp_interrupts := (lp_interrupts l)\<lparr>is_consumed := {''pregel:A:0''}\<rparr>\<rparr>;
       r = after_tick S [TaskInterrupted (ex_task ''A'' []) i, TaskInterrupted (ex_task ''B'' []) i] l1
   in fst r = Inl (Interrupted_Err i) \<and>
      ''pregel:A:0'' \<notin> set (interrupt_ids S (ck_pending_interrupts (lp_checkpoint (snd r)))) \<and>
      ''pregel:B:0'' \<in> set (interrupt_ids S (ck_pending_interrupts (lp_checkpoint (snd r))))"
proof -
  show ?thesis
    by (auto simp: Let_def after_tick_def direct_interrupts_def List.map_filter_simps push_records_eq
        stage_successful_task_writes_def interrupt_ids_pushed [OF serde_ok_derived]
        interrupt_record_from_task_def interrupt_new_def ex_task_def show_nat_examples)
qed

subsection \<open>Configured interrupts\<close>

lemma fold_or_insert_keeps:
  "bt_wf m \<Longrightarrow> map_of m k = Some t \<Longrightarrow> map_of (fold or_insert_task ts m) k = Some t"
proof (induction ts arbitrary: m)
  case (Cons a ts)
  have "bt_wf (or_insert_task a m)" using Cons.prems by (simp add: or_insert_task_def)
  moreover have "map_of (or_insert_task a m) k = Some t"
    using Cons.prems by (cases "pt_id a = k") (auto simp: or_insert_task_def)
  ultimately show ?case using Cons.IH by simp
qed simp

lemma tick_tasks_include:
  assumes "t \<in> set (prepare_next_tasks S sip (lp_checkpoint l) (lp_channels l) (lp_graph l) (lp_step l)
                    (lp_updated_channels l))"
  shows "t \<in> set (tick_tasks S sip l)"
proof -
  define ts where "ts = prepare_next_tasks S sip (lp_checkpoint l) (lp_channels l) (lp_graph l) (lp_step l)
                    (lp_updated_channels l)"
  have ne: "ts \<noteq> []" using assms by (auto simp: ts_def)
  have "sorted_wrt (<) (map pt_id ts)" unfolding ts_def by (rule prepare_next_sorted)
  then have d: "distinct (map pt_id ts)" by (simp add: strict_sorted_iff)
  have k: "keys (map by_id ts) = map pt_id ts" by (simp add: by_id_def o_def)
  have "(pt_id t, t) \<in> set (rev (map by_id ts))" using assms by (auto simp: ts_def by_id_def)
  then have "map_of (rev (map by_id ts)) (pt_id t) = Some t"
    by (rule map_of_is_SomeI [rotated]) (use d k in \<open>simp add: rev_map [symmetric] by_id_def o_def\<close>)
  then have m: "map_of (fold put_task ts []) (pt_id t) = Some t"
    by (simp add: fold_put_task map_of_bt_of)
  have "bt_wf (fold put_task ts [])" by (simp add: fold_put_task)
  from fold_or_insert_keeps [OF this m] have "t \<in> snd ` set (fold or_insert_task rs (fold put_task ts []))" for rs
    by (force dest: map_of_SomeD)
  with assms ne show ?thesis
    by (auto simp: tick_tasks_def Let_def simp flip: ts_def)
qed

text \<open>a run that was stopped by \<open>interrupt_before\<close> cannot be resumed past the node. Whatever
  interrupt ids are marked as resumed, as long as the step has a task of a node in the list, \<open>tick\<close>
  reports the configured interrupt again and hands out no task.\<close>

theorem interrupt_before_fires_again:
  assumes "lp_step l < lp_stop l"
    and "t \<in> set (prepare_next_tasks S sip (lp_checkpoint l) (lp_channels l) (lp_graph l) (lp_step l)
                    (lp_updated_channels l))"
    and "pt_node_name t \<in> set (is_before (lp_interrupts l))"
  shows "let r = tick S sip (l\<lparr>lp_interrupts := (lp_interrupts l)\<lparr>is_consumed := resumed\<rparr>\<rparr>)
         in is_interrupt (projl (fst r)) \<and> lp_status (snd r) = InterruptedBefore \<and>
            lp_step (snd r) = lp_step l"
proof -
  let ?l = "l\<lparr>lp_interrupts := (lp_interrupts l)\<lparr>is_consumed := resumed\<rparr>\<rparr>"
  have "t \<in> set (tick_tasks S sip ?l)" by (rule tick_tasks_include) (simp add: assms(2))
  then have "filter (\<lambda>t. pt_node_name t \<in> set (is_before (lp_interrupts ?l))) (tick_tasks S sip ?l) \<noteq> []"
    and "tick_tasks S sip ?l \<noteq> []"
    using assms(3) by (auto simp: filter_empty_conv)
  with assms(1) show ?thesis
    by (auto simp: tick_def Let_def not_le split: list.splits)
qed

definition ex_loop :: "string list \<Rightarrow> string list \<Rightarrow> unit pregel_loop" where
  "ex_loop before after =
     loop_new one_node_graph [] (with_id ''c'' 0 JNull SrcInput 0) [(''in'', build_channel LastValue)]
       (default_pregel_config\<lparr>cf_interrupt_before := before, cf_interrupt_after := after\<rparr>)"

lemmas ex_loop_defs = ex_loop_def loop_new_def default_pregel_config_def

lemma interrupt_before_fires_again_witness:
  "lp_status (snd (tick (derived_serde (\<lambda>_. [])) (\<lambda>_. 0) ((ex_loop [''n''] [])
      \<lparr>lp_interrupts := (lp_interrupts (ex_loop [''n''] []))
        \<lparr>is_consumed := {''pregel:before:n:0''}\<rparr>\<rparr>))) = InterruptedBefore"
proof -
  let ?l = "ex_loop [''n''] []"
  have "lp_step ?l = 0" by (simp add: ex_loop_defs step_of_int_def i64_as_u64_def with_id_def)
  moreover have "lp_updated_channels ?l = []" by (simp add: ex_loop_defs with_id_def)
  moreover have "lp_checkpoint ?l = with_id ''c'' 0 JNull SrcInput 0" "lp_graph ?l = one_node_graph"
    "lp_stop ?l = 100" by (simp_all add: ex_loop_defs)
  ultimately have "lp_step ?l < lp_stop ?l"
    "pull_task (\<lambda>_. 0) (lp_channels ?l) 0 ''n'' one_node \<in> set (prepare_next_tasks (derived_serde (\<lambda>_. []))
       (\<lambda>_. 0) (lp_checkpoint ?l) (lp_channels ?l) (lp_graph ?l) (lp_step ?l) (lp_updated_channels ?l))"
    by (simp_all add: one_node_tasks)
  moreover have "pt_node_name (pull_task (\<lambda>_. 0) (lp_channels ?l) 0 ''n'' one_node)
      \<in> set (is_before (lp_interrupts ?l))"
    by (simp add: ex_loop_defs pull_task_def)
  ultimately show ?thesis
    using interrupt_before_fires_again [of ?l _ "derived_serde (\<lambda>_. [])" "\<lambda>_. 0" "{''pregel:before:n:0''}"]
    unfolding Let_def by blast
qed

text \<open>likewise for \<open>interrupt_after\<close>: a successful outcome of a node in the list stops the step
  again, however often it is resumed, and the step is never committed.\<close>

theorem interrupt_after_fires_again:
  assumes "TaskSuccess t \<in> set outs" and "pt_node_name (et_prepared t) \<in> set (is_after (lp_interrupts l))"
  shows "fst (after_tick S outs (l\<lparr>lp_interrupts := (lp_interrupts l)\<lparr>is_consumed := resumed\<rparr>\<rparr>)) \<noteq> Inr ()"
proof -
  let ?l = "l\<lparr>lp_interrupts := (lp_interrupts l)\<lparr>is_consumed := resumed\<rparr>\<rparr>"
  have "TaskSuccess t \<notin> quiet_outcomes ?l" using assms(2) by (auto simp: quiet_outcomes_def)
  with assms(1) have "\<not> set outs \<subseteq> quiet_outcomes ?l" by blast
  then show ?thesis
    unfolding quiet_iff [of outs ?l S] by (auto simp: after_tick_def Let_def split: list.splits option.splits)
qed

lemma interrupt_after_fires_again_witness:
  "fst (after_tick (derived_serde (\<lambda>_. [])) [TaskSuccess (ex_task ''n'' [])]
     ((ex_loop [] [''n''])\<lparr>lp_interrupts := (lp_interrupts (ex_loop [] [''n'']))
        \<lparr>is_consumed := {''pregel:after:n:0''}\<rparr>\<rparr>)) \<noteq> Inr ()"
  by (rule interrupt_after_fires_again [of "ex_task ''n'' []"]) (simp_all add: ex_loop_defs ex_task_def)

subsection \<open>Names, packets and versions\<close>

text \<open>the three tests for reserved names agree: the validation of a graph rejects exactly the
  names the barrier classifies as reserved, and these are the names \<open>is_reserved_write\<close> lists.\<close>

theorem reserved_tests_agree:
  "(is_reserved_write = matches_reserved_name) \<and>
   (matches_reserved_name = (\<lambda>ch. classify_reserved_write ch \<noteq> None)) \<and>
   inj reserved_as_str"
proof -
  have "is_reserved_write ch \<longleftrightarrow> matches_reserved_name ch" for ch
    unfolding is_reserved_write_def matches_reserved_name_def reserved_all_def by auto
  moreover have "inj reserved_as_str" by (rule injI) (simp add: reserved_as_str_inj)
  ultimately show ?thesis using matches_reserved_iff_classify by auto
qed

definition consumed_packets :: "task_outcome list \<Rightarrow> string set" where
  "consumed_packets outs =
     set (List.map_filter (\<lambda>out. pt_packet_id (et_prepared (outcome_task out))) outs)"

lemma map_filter_map: "List.map_filter f (map g xs) = List.map_filter (\<lambda>x. f (g x)) xs"
  by (induction xs) (auto simp: List.map_filter_simps split: option.splits)

lemma packets_of_filter:
  "packets_of S (filter (\<lambda>(_, _, v). case pending_send_packet_id S v of Some i \<Rightarrow> i \<notin> ids | None \<Rightarrow> True) ws) =
   filter (\<lambda>q. fst q \<notin> ids) (packets_of S ws)"
proof (induction ws)
  case (Cons w ws)
  obtain t ch v where w: "w = (t, ch, v)" by (cases w)
  show ?case
  proof (cases "decode_send_packet S v None 0")
    case None
    with Cons show ?thesis by (simp add: w packets_of_Cons pkt_def pending_send_packet_id_def)
  next
    case (Some p)
    with Cons show ?thesis by (simp add: w packets_of_Cons pkt_def pending_send_packet_id_def)
  qed
qed simp

text \<open>a delivered packet is not delivered twice. After a commit the mailbox holds, under a packet
  id, the packet this step sent with that id, if any; else, when a task of the step ran on that
  packet, nothing; else what it held before. In every case one packet per id.\<close>

theorem delivered_packets_removed:
  assumes "serde_ok S"
  shows "case apply_writes S next_channel_version (lp_graph l) (map outcome_task outs)
            (lp_checkpoint l, lp_channels l) of (_, ck1, _) \<Rightarrow>
         let mailbox = (\<lambda>ck. map_of (rev (packets_of S (ck_pending_sends ck))));
             after = lp_checkpoint (commit_step S outs l)
         in mailbox after =
              (mailbox (lp_checkpoint l) |` (- consumed_packets outs)) ++ mailbox ck1 \<and>
            distinct (keys (packets_of S (ck_pending_sends after)))"
proof (cases "apply_writes S next_channel_version (lp_graph l) (map outcome_task outs)
          (lp_checkpoint l, lp_channels l)")
  case (fields updated ck1 chs1)
  let ?after = "ck_pending_sends (lp_checkpoint (commit_step S outs l))"
  let ?old = "ck_pending_sends (lp_checkpoint l)"
  have r: "map_of (filter (\<lambda>q. fst q \<notin> ids) m) = map_of m |` (- ids)"
    for m :: "(string \<times> string \<times> send_packet) list" and ids
    by (induction m) (auto simp: fun_eq_iff restrict_map_def)
  define F where "F = filter (\<lambda>(_, _, v). case pending_send_packet_id S v of
      Some i \<Rightarrow> i \<notin> consumed_packets outs | None \<Rightarrow> True) ?old"
  have after: "?after = normalize_pending_sends S (F @ ck_pending_sends ck1)"
    unfolding commit_step_parts(5) [OF fields] merge_pending_sends_after_commit_def Let_def F_def
      consumed_packets_def map_filter_map ..
  have "sends_normal S []" by (simp add: sends_normal_def)
  note n = normalize_fold [OF assms this, of "F @ ck_pending_sends ck1",
      folded normalize_pending_sends_def, folded after]
  have d: "distinct (keys (packets_of S ?after))" using n by (simp add: sends_normal_def)
  have "map_of (rev (packets_of S ?after)) = map_of (packets_of S ?after)"
    using d by (simp add: map_of_inject_set rev_map flip: rev_map)
  also have "\<dots> = map_of (rev (packets_of S F)) ++ map_of (rev (packets_of S (ck_pending_sends ck1)))"
    using n by (simp add: packets_of_append)
  also have "map_of (rev (packets_of S F)) = map_of (rev (packets_of S ?old)) |` (- consumed_packets outs)"
    unfolding F_def packets_of_filter rev_filter r ..
  finally show ?thesis using d by (simp add: fields Let_def)
qed

lemma delivered_packets_removed_witness:
  "distinct (keys (packets_of (derived_serde (\<lambda>_. []))
     (ck_pending_sends (lp_checkpoint (commit_step (derived_serde (\<lambda>_. [])) [TaskSuccess (ex_task ''n'' [])]
        (ex_loop [] []))))))"
  using delivered_packets_removed [where l = "ex_loop [] []" and outs = "[TaskSuccess (ex_task ''n'' [])]",
      OF serde_ok_derived [of "\<lambda>_. []"]]
  unfolding Let_def by (auto split: prod.splits)

text \<open>channel versions stall. \<open>apply_writes\<close> takes the greatest version as a string, so with
  versions 9 and 10 it takes 9 and hands out 10 again: the channel already at 10 keeps its version
  although it changed, and so it goes for every later step that leaves the channel at 9 alone.\<close>

theorem channel_versions_stall:
  "let ck1 = ck\<lparr>ck_channel_versions := [(''a'', show_nat 9), (''b'', show_nat 10)]\<rparr>;
       (updated, ck2, _) = apply_writes S next_channel_version g [ex_task ''n'' [(''b'', JBool True)]]
                             (ck1, [(''b'', build_channel LastValue)])
   in updated = [''b''] \<and> map_of (ck_channel_versions ck2) ''b'' = map_of (ck_channel_versions ck1) ''b''"
proof -
  have "parse_u64 ''9'' = Some 9"
    using parse_u64_show_nat [of 9] by (simp add: show_nat_examples)
  then have "next_channel_version (max_version [(''a'', ''9''), (''b'', ''10'')]) = ''10''"
    by (simp add: max_version_def next_channel_version_def max_def show_nat_examples)
  then show ?thesis
    by (simp add: apply_writes_def collect_writes_def collect_write_def ex_task_def classify_reserved_write_def
        TASKS_CHANNEL_def bt_push_def update_step_def lv_new_def lv_update_def lv_consume_def
        Let_def show_nat_examples)
qed

end
