(* ===== verification/Pregel_Runner.thy ===== *)
theory Pregel_Runner
  imports Pregel_Loop Graph_Error
begin

text \<open>
  \<open>foundation/pregel/src/runner.rs\<close>: the execution of one task with retries, and the collection of
  the outcomes of a step. What is not code of the runner is an argument: a node run \<open>nrun\<close> gives
  the result of its \<open>n\<close>-th call, \<open>cancelled\<close> the answer of the \<open>n\<close>-th look at the cancellation
  token, and the order in which the spawned tasks finish is the order of the list \<open>finished\<close>. The
  retry loop has no bound of its own, so it is a partial function; \<open>None\<close> is a loop that never
  returns. Sleeping and streaming events have no effect on the outcome.
\<close>

record node_input =
  ni_step :: u64
  ni_trigger_values :: "(string \<times> json) list"
  ni_read_values :: "(string \<times> json) list"
  ni_managed_values :: "(string \<times> json) list"
  ni_local_read_values :: "(string \<times> json) list"
  ni_task_id :: string
  ni_resume_value :: "json option"
  ni_interrupt_counter :: u32

record node_context =
  nc_managed_values :: "(string \<times> json) list"
  nc_pending_interrupts :: "interrupt_record list"
  nc_resume_map :: resume_map

type_synonym node_run = "nat \<Rightarrow> node_input \<Rightarrow> graph_error + (string \<times> json) list"

subsection \<open>The input of a node\<close>

definition resume_lookup :: "resume_map \<Rightarrow> interrupt_record \<Rightarrow> json option" where
  "resume_lookup m r =
     (case map_of (rm_by_interrupt_id m) (ir_interrupt_id r) of
        Some v \<Rightarrow> Some v
      | None \<Rightarrow> map_of (rm_by_namespace m) (ir_namespace r))"

fun find_resume :: "resume_map \<Rightarrow> string \<Rightarrow> interrupt_record list \<Rightarrow> json option" where
  "find_resume m task_id [] = None"
| "find_resume m task_id (r # rs) =
     (if ir_task_id r \<noteq> task_id then find_resume m task_id rs
      else case resume_lookup m r of Some v \<Rightarrow> Some v | None \<Rightarrow> find_resume m task_id rs)"

definition resolve_resume_value :: "prepared_task \<Rightarrow> node_context \<Rightarrow> json option" where
  "resolve_resume_value task ctx =
     (case find_resume (nc_resume_map ctx) (pt_id task) (nc_pending_interrupts ctx) of
        Some v \<Rightarrow> Some v
      | None \<Rightarrow>
          (case nc_pending_interrupts ctx of
             [r] \<Rightarrow> (if ir_node_name r \<noteq> pt_node_name task then None
                     else resume_lookup (nc_resume_map ctx) r)
           | _ \<Rightarrow> None))"

definition build_node_input :: "prepared_task \<Rightarrow> node_context \<Rightarrow> node_input" where
  "build_node_input task ctx =
     \<lparr>ni_step = pt_step task,
      ni_trigger_values =
        (case pt_input task of
           JObj m \<Rightarrow> fold (\<lambda>(k, v) acc. AList.update k v acc)
             (List.map_filter (\<lambda>t. map_option (Pair t) (map_of m t)) (pt_triggers task)) []
         | _ \<Rightarrow> []),
      ni_read_values = (case pt_input task of JObj m \<Rightarrow> m | _ \<Rightarrow> []),
      ni_managed_values = nc_managed_values ctx,
      ni_local_read_values = (case pt_input task of JObj m \<Rightarrow> m | _ \<Rightarrow> []),
      ni_task_id = pt_id task,
      ni_resume_value = resolve_resume_value task ctx,
      ni_interrupt_counter = (if nc_pending_interrupts ctx \<noteq> [] then 1 else 0)\<rparr>"

subsection \<open>One task\<close>

definition exec_task :: "prepared_task \<Rightarrow> (string \<times> json) list \<Rightarrow> u32 \<Rightarrow> executable_task" where
  "exec_task task ws attempt = \<lparr>et_prepared = task, et_writes = ws, et_attempt = attempt\<rparr>"

text \<open>The loop. \<open>n\<close> counts calls of the node, \<open>p\<close> looks at the token.\<close>

partial_function (option) run_attempts ::
    "'f retry_policy \<Rightarrow> (nat \<Rightarrow> bool) \<Rightarrow> node_run \<Rightarrow> node_input \<Rightarrow> prepared_task \<Rightarrow> nat \<Rightarrow> nat \<Rightarrow> u32
     \<Rightarrow> task_outcome option" where
  "run_attempts policy cancelled nrun input task n p attempt =
     (if cancelled p then Some (TaskCancelled (exec_task task [] attempt))
      else case nrun n input of
        Inr ws \<Rightarrow>
          (if cancelled (p + 1) then Some (TaskCancelled (exec_task task [] attempt))
           else Some (TaskSuccess (exec_task task ws attempt)))
      | Inl e \<Rightarrow>
          (case e of
             Interrupted_Err i \<Rightarrow> Some (TaskInterrupted (exec_task task [] attempt) i)
           | _ \<Rightarrow>
               (if should_retry policy (unat attempt)
                then run_attempts policy cancelled nrun input task (n + 1) (p + 1) (attempt + 1)
                else Some (TaskFailed (exec_task task [] attempt) e))))"

definition run_task ::
    "'f retry_policy \<Rightarrow> (nat \<Rightarrow> bool) \<Rightarrow> node_run \<Rightarrow> prepared_task \<Rightarrow> pregel_graph \<Rightarrow> node_context
     \<Rightarrow> task_outcome option" where
  "run_task policy cancelled nrun task g ctx =
     (if cancelled 0 then Some (TaskCancelled (exec_task task [] 0))
      else if pt_cached_writes task \<noteq> [] then Some (TaskSuccess (exec_task task (pt_cached_writes task) 0))
      else case map_of (g_nodes g) (pt_node_name task) of
        None \<Rightarrow> Some (TaskFailed (exec_task task [] 0)
                  (ExecutionFailed (''pregel node not found: '' @ pt_node_name task)))
      | Some _ \<Rightarrow> run_attempts policy cancelled nrun (build_node_input task ctx) task 0 1 0)"

subsection \<open>One step\<close>

definition placeholder_task :: "string \<Rightarrow> prepared_task" where
  "placeholder_task name =
     \<lparr>pt_id = name, pt_kind = Pull, pt_node_name = name, pt_step = 0, pt_triggers = [], pt_input = JNull,
      pt_packet_id = None, pt_origin_task_id = None, pt_cached_writes = []\<rparr>"

definition cancelled_outcome :: "prepared_task option \<Rightarrow> task_outcome" where
  "cancelled_outcome task =
     TaskCancelled (exec_task (case task of Some t \<Rightarrow> t | None \<Rightarrow> placeholder_task ''cancelled'') [] 0)"

text \<open>What joining a spawned task gives: its outcome, or the text of a join error.\<close>

fun joined_outcome :: "string + task_outcome \<Rightarrow> task_outcome" where
  "joined_outcome (Inr out) = out"
| "joined_outcome (Inl text) =
     TaskFailed (exec_task (placeholder_task ''join-error'') [] 0) (ExecutionFailed text)"

fun stops_early :: "task_outcome \<Rightarrow> bool" where
  "stops_early (TaskCancelled _) = True"
| "stops_early (TaskFailed _ _) = True"
| "stops_early _ = False"

text \<open>The collecting loop: \<open>fired\<close> is true at a position of the list when the cancellation token
  wins the race against the next task to finish there.\<close>

fun collect_outcomes :: "(nat \<Rightarrow> bool) \<Rightarrow> prepared_task option \<Rightarrow> nat \<Rightarrow> (string + task_outcome) list
    \<Rightarrow> task_outcome list" where
  "collect_outcomes fired fallback i finished =
     (if fired i then [cancelled_outcome fallback]
      else case finished of
        [] \<Rightarrow> []
      | r # rest \<Rightarrow>
          (let out = joined_outcome r in
           if stops_early out then [out] else out # collect_outcomes fired fallback (i + 1) rest))"

declare collect_outcomes.simps [simp del]

definition run_step ::
    "(nat \<Rightarrow> bool) \<Rightarrow> (nat \<Rightarrow> bool) \<Rightarrow> prepared_task list \<Rightarrow> (string + task_outcome) list
     \<Rightarrow> task_outcome list" where
  "run_step cancelled fired tasks finished =
     (if \<exists>i \<le> length tasks. cancelled i then [cancelled_outcome (case tasks of t # _ \<Rightarrow> Some t | [] \<Rightarrow> None)]
      else collect_outcomes fired (case tasks of t # _ \<Rightarrow> Some t | [] \<Rightarrow> None) 0 finished)"

subsection \<open>Properties\<close>

lemma u32_succ: "unat (a :: u32) < n \<Longrightarrow> n < 4294967296 \<Longrightarrow> unat (a + 1) = unat a + 1"
  by (simp add: unat_word_ariths)

text \<open>From an attempt within the bound the loop returns, and the attempt it reports is within it.\<close>

lemma run_attempts_returns:
  assumes "max_attempts policy < 4294967296" and "unat attempt \<le> max_attempts policy"
  shows "\<exists>out. run_attempts policy cancelled nrun input task n p attempt = Some out \<and>
    et_prepared (outcome_task out) = task \<and> unat attempt \<le> unat (et_attempt (outcome_task out)) \<and>
    unat (et_attempt (outcome_task out)) \<le> max_attempts policy"
  using assms(2)
proof (induction "max_attempts policy - unat attempt" arbitrary: n p attempt rule: less_induct)
  case less
  show ?case
  proof (cases "\<not> cancelled p \<and> (\<exists>e. nrun n input = Inl e \<and> (\<forall>i. e \<noteq> Interrupted_Err i)) \<and>
      should_retry policy (unat attempt)")
    case False
    then show ?thesis
      using less.prems by (subst run_attempts.simps)
        (auto simp: exec_task_def split: sum.splits graph_error.splits)
  next
    case True
    then have b: "unat attempt < max_attempts policy" by (simp add: should_retry_def)
    then have s: "unat (attempt + 1) = unat attempt + 1" using assms(1) by (rule u32_succ)
    have "max_attempts policy - unat (attempt + 1) < max_attempts policy - unat attempt"
      "unat (attempt + 1) \<le> max_attempts policy" using b s by simp_all
    from less.hyps [OF this] obtain out where
      "run_attempts policy cancelled nrun input task (n + 1) (p + 1) (attempt + 1) = Some out"
      "et_prepared (outcome_task out) = task" "unat (attempt + 1) \<le> unat (et_attempt (outcome_task out))"
      "unat (et_attempt (outcome_task out)) \<le> max_attempts policy"
      by blast
    moreover have "run_attempts policy cancelled nrun input task n p attempt =
        run_attempts policy cancelled nrun input task (n + 1) (p + 1) (attempt + 1)"
      using True by (subst run_attempts.simps) (auto split: graph_error.splits)
    ultimately show ?thesis using s by auto
  qed
qed

text \<open>a task always comes to an outcome. For every retry policy whose bound fits the 32-bit
  attempt counter, \<open>run_task\<close> returns, whatever the node answers and whenever it is cancelled; the
  outcome is about the task it was given, and at most \<open>max_attempts\<close> retries were made.\<close>

theorem run_task_returns:
  assumes "max_attempts policy < 4294967296"
  shows "\<exists>out. run_task policy cancelled nrun task g ctx = Some out \<and>
    et_prepared (outcome_task out) = task \<and> unat (et_attempt (outcome_task out)) \<le> max_attempts policy"
proof -
  have "\<exists>out. run_attempts policy cancelled nrun (build_node_input task ctx) task 0 1 0 = Some out \<and>
      et_prepared (outcome_task out) = task \<and> unat (et_attempt (outcome_task out)) \<le> max_attempts policy"
    using run_attempts_returns [OF assms, of 0 cancelled nrun "build_node_input task ctx" task 0 1] by auto
  then show ?thesis by (auto simp: run_task_def exec_task_def split: option.splits)
qed

lemma run_task_returns_witness:
  "\<exists>out. run_task (NoRetry :: unit retry_policy) (\<lambda>_. False) (\<lambda>_ _. Inl (ExecutionFailed [])) (et_prepared (ex_task ''n'' []))
     one_node_graph \<lparr>nc_managed_values = [], nc_pending_interrupts = [],
       nc_resume_map = \<lparr>rm_by_namespace = [], rm_by_interrupt_id = []\<rparr>\<rparr> = Some out \<and>
     et_prepared (outcome_task out) = et_prepared (ex_task ''n'' []) \<and>
     unat (et_attempt (outcome_task out)) \<le> max_attempts (NoRetry :: unit retry_policy)"
  by (rule run_task_returns) simp

text \<open>the policy \<open>None\<close>, documented as no retry, retries once: a node that fails on its first call
  and succeeds on the second gives a successful task with attempt 1.\<close>

theorem no_retry_policy_retries:
  "run_attempts NoRetry (\<lambda>_. False) (\<lambda>n _. if n = 0 then Inl (ExecutionFailed m) else Inr ws) input task 0 1 0 =
     Some (TaskSuccess (exec_task task ws 1))"
  by (subst run_attempts.simps, simp add: should_retry_def, subst run_attempts.simps, simp)

lemma run_attempts_failing:
  assumes "m < 4294967296" "k \<le> m"
  shows "run_attempts (Fixed m d :: 'f retry_policy) (\<lambda>_. False) (\<lambda>n _. Inl (ExecutionFailed (f n))) input task (m - k) p (of_nat (m - k)) =
     Some (TaskFailed (exec_task task [] (of_nat m)) (ExecutionFailed (f m)))"
  using assms(2)
proof (induction k arbitrary: p)
  case 0
  have "unat (of_nat m :: u32) = m" using assms(1) by (simp add: unat_of_nat take_bit_nat_eq_self)
  then show ?case by (subst run_attempts.simps) (simp add: should_retry_def)
next
  case (Suc k)
  define a :: u32 where "a = of_nat (m - Suc k)"
  have u: "unat a = m - Suc k"
    unfolding a_def using assms(1) by (simp add: unat_of_nat take_bit_nat_eq_self del: of_nat_diff)
  have n: "m - Suc k + 1 = m - k" using Suc.prems by simp
  then have w: "a + 1 = of_nat (m - k)" unfolding a_def by (metis of_nat_1 of_nat_add)
  have "run_attempts (Fixed m d :: 'f retry_policy) (\<lambda>_. False) (\<lambda>n _. Inl (ExecutionFailed (f n))) input task (m - Suc k) p a =
      run_attempts (Fixed m d :: 'f retry_policy) (\<lambda>_. False) (\<lambda>n _. Inl (ExecutionFailed (f n))) input task (m - Suc k + 1) (p + 1)
      (a + 1)"
    using Suc.prems by (subst run_attempts.simps) (simp add: should_retry_def u)
  then show ?case unfolding n w unfolding a_def using Suc by simp
qed

text \<open>a node that keeps failing is called exactly \<open>max_attempts + 1\<close> times before the task fails
  with the last error.\<close>

theorem failing_node_attempts:
  assumes "m < 4294967296"
  shows "run_attempts (Fixed m d :: 'f retry_policy) (\<lambda>_. False) (\<lambda>n _. Inl (ExecutionFailed (f n))) input task 0 1 0 =
     Some (TaskFailed (exec_task task [] (of_nat m)) (ExecutionFailed (f m)))"
  using run_attempts_failing [OF assms, of m d f input task 1] by simp

definition plain_input :: node_input where
  "plain_input = build_node_input (placeholder_task ''a'')
     \<lparr>nc_managed_values = [], nc_pending_interrupts = [], nc_resume_map = \<lparr>rm_by_namespace = [], rm_by_interrupt_id = []\<rparr>\<rparr>"

lemma failing_node_attempts_witness:
  "run_attempts (Fixed 3 0 :: unit retry_policy) (\<lambda>_. False) (\<lambda>n _. Inl (ExecutionFailed (show_nat n))) plain_input
     (placeholder_task ''a'') 0 1 0 =
     Some (TaskFailed (exec_task (placeholder_task ''a'') [] 3) (ExecutionFailed (show_nat 3)))"
  by (subst failing_node_attempts) simp_all

lemma collect_stop_last:
  "filter stops_early (butlast (collect_outcomes fired fallback i finished)) = []"
proof (induction finished arbitrary: i)
  case (Cons r rest)
  then show ?case
    by (subst collect_outcomes.simps) (auto simp: Let_def)
qed (simp add: collect_outcomes.simps)

lemma collect_prefix:
  "\<exists>k. collect_outcomes fired fallback i finished = take k (map joined_outcome finished) \<or>
       collect_outcomes fired fallback i finished =
         take k (map joined_outcome finished) @ [cancelled_outcome fallback]"
proof (induction finished arbitrary: i)
  case Nil
  then show ?case by (simp add: collect_outcomes.simps)
next
  case (Cons r rest)
  show ?case
  proof (cases "fired i")
    case True
    then have "collect_outcomes fired fallback i (r # rest) =
        take 0 (map joined_outcome (r # rest)) @ [cancelled_outcome fallback]"
      by (simp add: collect_outcomes.simps)
    then show ?thesis by blast
  next
    case False
    note nf = this
    show ?thesis
    proof (cases "stops_early (joined_outcome r)")
      case True
      with nf have "collect_outcomes fired fallback i (r # rest) = take 1 (map joined_outcome (r # rest))"
        by (simp add: collect_outcomes.simps [of fired fallback i "r # rest"])
      then show ?thesis by blast
    next
      case False
      with nf have e: "collect_outcomes fired fallback i (r # rest) =
          joined_outcome r # collect_outcomes fired fallback (i + 1) rest"
        by (simp add: collect_outcomes.simps [of fired fallback i "r # rest"])
      from Cons.IH [of "i + 1"] obtain k where
        "collect_outcomes fired fallback (i + 1) rest = take k (map joined_outcome rest) \<or>
         collect_outcomes fired fallback (i + 1) rest =
           take k (map joined_outcome rest) @ [cancelled_outcome fallback]" by blast
      then have "collect_outcomes fired fallback i (r # rest) = take (Suc k) (map joined_outcome (r # rest)) \<or>
         collect_outcomes fired fallback i (r # rest) =
           take (Suc k) (map joined_outcome (r # rest)) @ [cancelled_outcome fallback]"
        unfolding e by auto
      then show ?thesis by blast
    qed
  qed
qed

text \<open>what a step hands to the barrier. The outcomes are those of the tasks in the order they
  finished, cut at the first failure or cancellation, which comes last; a fired cancellation token
  adds one cancelled outcome at the end; no outcome after a stop is reported.\<close>

theorem run_step_outcomes:
  "let outs = run_step cancelled fired tasks finished;
       fallback = cancelled_outcome (case tasks of t # _ \<Rightarrow> Some t | [] \<Rightarrow> None)
   in filter stops_early (butlast outs) = [] \<and>
      (\<exists>k. outs = take k (map joined_outcome finished) \<or>
           outs = take k (map joined_outcome finished) @ [fallback])"
proof (cases "\<exists>i \<le> length tasks. cancelled i")
  case True
  then have "run_step cancelled fired tasks finished =
      take 0 (map joined_outcome finished) @ [cancelled_outcome (case tasks of t # _ \<Rightarrow> Some t | [] \<Rightarrow> None)]"
    by (simp add: run_step_def)
  then show ?thesis unfolding Let_def by (metis butlast_snoc filter.simps(1) take_0 append_Nil)
next
  case False
  then have "run_step cancelled fired tasks finished =
      collect_outcomes fired (case tasks of t # _ \<Rightarrow> Some t | [] \<Rightarrow> None) 0 finished"
    unfolding run_step_def by (rule if_not_P)
  then show ?thesis unfolding Let_def using collect_stop_last collect_prefix by simp
qed

end
