(* ===== verification/Pregel_Resume.thy ===== *)
theory Pregel_Resume
  imports Pregel_Runner Pregel_Loop_Facts
begin

text \<open>
  The resume logic of \<open>foundation/pregel/src/runtime.rs\<close>: how the resume values of a run
  configuration and of a checkpoint are matched with the interrupts the checkpoint has pending, and
  which interrupts a run thereby consumes. Also the synthetic tasks of a state update and the
  state snapshot of \<open>state.rs\<close>.
\<close>

definition pending_interrupts_from_checkpoint :: "serde \<Rightarrow> ckpt \<Rightarrow> interrupt_record list" where
  "pending_interrupts_from_checkpoint S ck =
     List.map_filter (interrupt_from_value S) (ck_pending_interrupts ck)"

definition resume_map_from_config :: "runnable_config \<Rightarrow> resume_map" where
  "resume_map_from_config config =
     \<lparr>rm_by_namespace = rc_resume_values_by_namespace config,
      rm_by_interrupt_id = rc_resume_values_by_interrupt_id config\<rparr>"

definition unambiguous_resume_target :: "interrupt_record list \<Rightarrow> string \<Rightarrow> interrupt_record option" where
  "unambiguous_resume_target pending namespace =
     (case pending of
        [r] \<Rightarrow> Some r
      | _ \<Rightarrow>
          if namespace = [] then None
          else (case filter (\<lambda>r. ir_namespace r = namespace) pending of
                  [r] \<Rightarrow> Some r
                | _ \<Rightarrow> None))"

text \<open>\<open>entry(k).or_insert(v)\<close> on a hash map.\<close>

definition or_insert :: "'k \<Rightarrow> 'v \<Rightarrow> ('k \<times> 'v) list \<Rightarrow> ('k \<times> 'v) list" where
  "or_insert k v m = (if map_of m k = None then AList.update k v m else m)"

lemma map_of_or_insert [simp]:
  "map_of (or_insert k v m) k' =
     (case map_of m k' of Some x \<Rightarrow> Some x | None \<Rightarrow> if k' = k then Some v else None)"
  by (auto simp: or_insert_def split: option.splits)

definition merge_resume_value ::
    "json \<Rightarrow> interrupt_record list \<Rightarrow> string \<Rightarrow> resume_map \<Rightarrow> resume_map" where
  "merge_resume_value v pending namespace m =
     (case unambiguous_resume_target pending namespace of
        None \<Rightarrow> m
      | Some r \<Rightarrow> m\<lparr>rm_by_interrupt_id := or_insert (ir_interrupt_id r) v (rm_by_interrupt_id m),
                   rm_by_namespace := or_insert (ir_namespace r) v (rm_by_namespace m)\<rparr>)"

definition merge_resume_write ::
    "json \<Rightarrow> interrupt_record list \<Rightarrow> string \<Rightarrow> resume_map \<Rightarrow> resume_map" where
  "merge_resume_write v pending namespace m =
     (let (rv, ns, iid) =
        (case v of
           JObj obj \<Rightarrow> ((case map_of obj ''value'' of Some x \<Rightarrow> x | None \<Rightarrow> v),
                        Option.bind (map_of obj ''namespace'') as_str,
                        Option.bind (map_of obj ''interrupt_id'') as_str)
         | _ \<Rightarrow> (v, None, None));
          m1 = (case iid of Some i \<Rightarrow> m\<lparr>rm_by_interrupt_id := or_insert i rv (rm_by_interrupt_id m)\<rparr> | None \<Rightarrow> m);
          m2 = (case ns of Some n \<Rightarrow> m1\<lparr>rm_by_namespace := or_insert n rv (rm_by_namespace m1)\<rparr> | None \<Rightarrow> m1)
      in merge_resume_value rv pending namespace m2)"

definition resume_map_from_sources :: "serde \<Rightarrow> runnable_config \<Rightarrow> ckpt \<Rightarrow> resume_map" where
  "resume_map_from_sources S config ck =
     (let pending = pending_interrupts_from_checkpoint S ck;
          m0 = resume_map_from_config config;
          m1 = (case rc_resume_value config of
                  Some v \<Rightarrow> merge_resume_value v pending (rc_checkpoint_ns config) m0
                | None \<Rightarrow> m0)
      in fold (\<lambda>(_, ch, v) m. if ch \<noteq> reserved_as_str RResume then m
                              else merge_resume_write v pending (rc_checkpoint_ns config) m)
           (ck_pending_writes ck) m1)"

definition resume_values :: "resume_map \<Rightarrow> json list" where
  "resume_values m = map snd (rm_by_interrupt_id m) @ map snd (rm_by_namespace m)"

definition consumed_interrupt_ids :: "interrupt_record list \<Rightarrow> resume_map \<Rightarrow> string set" where
  "consumed_interrupt_ids pending m =
     set (map ir_interrupt_id
       (filter (\<lambda>r. map_of (rm_by_interrupt_id m) (ir_interrupt_id r) \<noteq> None \<or>
                    map_of (rm_by_namespace m) (ir_namespace r) \<noteq> None) pending))"

definition normalize_checkpoint_frontier :: "serde \<Rightarrow> ckpt \<Rightarrow> ckpt" where
  "normalize_checkpoint_frontier S ck =
     ck\<lparr>ck_pending_sends := normalize_pending_sends S (ck_pending_sends ck),
        ck_pending_writes := normalize_pending_writes (ck_pending_writes ck)\<rparr>"

definition checkpoint_has_recoverable_progress :: "ckpt \<Rightarrow> bool" where
  "checkpoint_has_recoverable_progress ck \<longleftrightarrow>
     ck_pending_sends ck \<noteq> [] \<or> ck_pending_writes ck \<noteq> [] \<or> ck_pending_interrupts ck \<noteq> []"

definition next_checkpoint :: "string \<Rightarrow> nat \<Rightarrow> ckpt \<Rightarrow> checkpoint_source \<Rightarrow> ckpt" where
  "next_checkpoint fresh now current source =
     (let c = from_state fresh now (ck_channel_values current) source (km_step (ck_kernel current))
      in c\<lparr>ck_channel_versions := ck_channel_versions current,
           ck_versions_seen := ck_versions_seen current,
           ck_updated_channels := ck_updated_channels current,
           ck_pending_sends := ck_pending_sends current,
           ck_pending_writes := ck_pending_writes current,
           ck_pending_interrupts := ck_pending_interrupts current,
           ck_kernel := (ck_kernel c)\<lparr>km_parents := km_parents (ck_kernel current),
                                      km_children := km_children (ck_kernel current)\<rparr>\<rparr>)"

definition merge_subgraph_links :: "(string \<times> string list) list \<Rightarrow> ckpt \<Rightarrow> ckpt" where
  "merge_subgraph_links links ck =
     ck\<lparr>ck_kernel := (ck_kernel ck)\<lparr>km_children :=
          fold (\<lambda>(namespace, ids) m.
                  AList.update namespace
                    (fold (\<lambda>i es. if i \<in> set es then es else es @ [i]) ids (pget m namespace)) m)
            links (km_children (ck_kernel ck))\<rparr>\<rparr>"

definition successful_node_ids :: "task_outcome list \<Rightarrow> string list" where
  "successful_node_ids outcomes = map (\<lambda>t. pt_node_name (et_prepared t)) (successes outcomes)"

record update_request =
  ur_as_node :: "string option"
  ur_values :: json

definition update_writes_from_value :: "json \<Rightarrow> (string \<times> json) list gresult" where
  "update_writes_from_value v =
     (case as_object v of
        None \<Rightarrow> Inl (ExecutionFailed ''state update values must be a JSON object'')
      | Some m \<Rightarrow> Inr m)"

definition synthetic_update_task ::
    "nat \<Rightarrow> u64 \<Rightarrow> update_request \<Rightarrow> pregel_graph \<Rightarrow> executable_task gresult" where
  "synthetic_update_task index step request g =
     (let task = (\<lambda>ws.
            \<lparr>et_prepared =
               \<lparr>pt_id = ''state-update-'' @ show_nat (unat step) @ ''-'' @ show_nat index,
                pt_kind = Pull,
                pt_node_name = (case ur_as_node request of Some n \<Rightarrow> n | None \<Rightarrow> ''__state_update__''),
                pt_step = step, pt_triggers = [], pt_input = ur_values request,
                pt_packet_id = None, pt_origin_task_id = None, pt_cached_writes = []\<rparr>,
             et_writes = ws, et_attempt = 0\<rparr>);
          missing = (case ur_as_node request of Some n \<Rightarrow> map_of (g_nodes g) n = None | None \<Rightarrow> False)
      in if missing
         then Inl (ExecutionFailed (''pregel node not found for state update: '' @ the (ur_as_node request)))
         else map_sum id task (update_writes_from_value (ur_values request)))"

subsection \<open>The snapshot of a checkpoint\<close>

record state_snapshot =
  ss_checkpoint_id :: string
  ss_step :: u64
  ss_channels :: json
  ss_parents :: "(string \<times> string) list"
  ss_children :: "(string \<times> string list) list"
  ss_updated_channels :: "string list"
  ss_pending_sends :: "pending_write list"
  ss_pending_writes :: "pending_write list"
  ss_pending_interrupts :: "interrupt_record list"

definition from_checkpoint :: "serde \<Rightarrow> ckpt \<Rightarrow> state_snapshot" where
  "from_checkpoint S ck =
     \<lparr>ss_checkpoint_id = ck_id ck, ss_step = step_of_int (km_step (ck_kernel ck)),
      ss_channels = ck_channel_values ck, ss_parents = km_parents (ck_kernel ck),
      ss_children = km_children (ck_kernel ck),
      ss_updated_channels = (case ck_updated_channels ck of Some u \<Rightarrow> u | None \<Rightarrow> []),
      ss_pending_sends = ck_pending_sends ck, ss_pending_writes = ck_pending_writes ck,
      ss_pending_interrupts = List.map_filter (interrupt_from_value S) (ck_pending_interrupts ck)\<rparr>"

subsection \<open>Properties\<close>

lemma fold_resume_mono:
  assumes "\<And>w m. map_of (f m) \<subseteq>\<^sub>m map_of (f (step w m))"
  shows "map_of (f m) \<subseteq>\<^sub>m map_of (f (fold step ws m))"
  by (induction ws arbitrary: m) (auto intro: map_le_trans [OF assms])

lemma or_insert_mono: "map_of m \<subseteq>\<^sub>m map_of (or_insert k v m)"
  by (auto simp: map_le_def)

lemma merge_value_mono:
  "map_of (rm_by_interrupt_id m) \<subseteq>\<^sub>m map_of (rm_by_interrupt_id (merge_resume_value v p n m))"
  "map_of (rm_by_namespace m) \<subseteq>\<^sub>m map_of (rm_by_namespace (merge_resume_value v p n m))"
  by (auto simp: merge_resume_value_def or_insert_mono split: option.splits)

lemma merge_write_mono:
  "map_of (rm_by_interrupt_id m) \<subseteq>\<^sub>m map_of (rm_by_interrupt_id (merge_resume_write v p n m))"
  "map_of (rm_by_namespace m) \<subseteq>\<^sub>m map_of (rm_by_namespace (merge_resume_write v p n m))"
proof -
  obtain rv ns iid where e: "(case v of
           JObj obj \<Rightarrow> ((case map_of obj ''value'' of Some x \<Rightarrow> x | None \<Rightarrow> v),
                        Option.bind (map_of obj ''namespace'') as_str,
                        Option.bind (map_of obj ''interrupt_id'') as_str)
         | _ \<Rightarrow> (v, None, None)) = (rv, ns, iid)"
    by (rule prod_cases3)
  define m1 where "m1 = (case iid of
      Some i \<Rightarrow> m\<lparr>rm_by_interrupt_id := or_insert i rv (rm_by_interrupt_id m)\<rparr> | None \<Rightarrow> m)"
  define m2 where "m2 = (case ns of
      Some n \<Rightarrow> m1\<lparr>rm_by_namespace := or_insert n rv (rm_by_namespace m1)\<rparr> | None \<Rightarrow> m1)"
  have w: "merge_resume_write v p n m = merge_resume_value rv p n m2"
    unfolding merge_resume_write_def e Let_def prod.case m1_def m2_def ..
  have "map_of (rm_by_interrupt_id m) \<subseteq>\<^sub>m map_of (rm_by_interrupt_id m2)"
    and "map_of (rm_by_namespace m) \<subseteq>\<^sub>m map_of (rm_by_namespace m2)"
    by (auto simp: m1_def m2_def or_insert_mono split: option.splits)
  then show "map_of (rm_by_interrupt_id m) \<subseteq>\<^sub>m map_of (rm_by_interrupt_id (merge_resume_write v p n m))"
    and "map_of (rm_by_namespace m) \<subseteq>\<^sub>m map_of (rm_by_namespace (merge_resume_write v p n m))"
    unfolding w by (blast intro: map_le_trans merge_value_mono)+
qed

text \<open>explicit resume values are never overridden: whatever resume value or resume writes there
  are besides, the resume map of a run extends the values the configuration gives by interrupt id
  and by namespace.\<close>

theorem resume_map_extends_config:
  "map_of (rc_resume_values_by_interrupt_id config)
     \<subseteq>\<^sub>m map_of (rm_by_interrupt_id (resume_map_from_sources S config ck)) \<and>
   map_of (rc_resume_values_by_namespace config)
     \<subseteq>\<^sub>m map_of (rm_by_namespace (resume_map_from_sources S config ck))"
proof -
  let ?p = "pending_interrupts_from_checkpoint S ck"
  let ?m0 = "resume_map_from_config config"
  let ?m1 = "case rc_resume_value config of
      Some v \<Rightarrow> merge_resume_value v ?p (rc_checkpoint_ns config) ?m0 | None \<Rightarrow> ?m0"
  let ?step = "\<lambda>(_, ch, v) m. if ch \<noteq> reserved_as_str RResume then m
      else merge_resume_write v ?p (rc_checkpoint_ns config) m"
  have e: "resume_map_from_sources S config ck = fold ?step (ck_pending_writes ck) ?m1"
    by (simp add: resume_map_from_sources_def Let_def)
  have "map_of (rm_by_interrupt_id ?m0) \<subseteq>\<^sub>m map_of (rm_by_interrupt_id ?m1)"
    and "map_of (rm_by_namespace ?m0) \<subseteq>\<^sub>m map_of (rm_by_namespace ?m1)"
    by (auto simp: merge_value_mono split: option.splits)
  moreover have "map_of (rm_by_interrupt_id ?m1) \<subseteq>\<^sub>m map_of (rm_by_interrupt_id (fold ?step ws ?m1))"
    and "map_of (rm_by_namespace ?m1) \<subseteq>\<^sub>m map_of (rm_by_namespace (fold ?step ws ?m1))" for ws
    by (rule fold_resume_mono; auto simp: merge_write_mono split: prod.splits)+
  ultimately show ?thesis
    unfolding e by (auto simp: resume_map_from_config_def intro: map_le_trans)
qed

definition value_config :: "json \<Rightarrow> string \<Rightarrow> runnable_config" where
  "value_config v namespace = default_config\<lparr>rc_resume_value := Some v, rc_checkpoint_ns := namespace\<rparr>"

lemma single_case: "(case xs of [x] \<Rightarrow> Some x | _ \<Rightarrow> None) = Some r \<longleftrightarrow> xs = [r]"
  by (cases xs; cases "tl xs") auto

lemma single_case_default: "(case xs of [x] \<Rightarrow> Some x | _ \<Rightarrow> d) = Some r \<Longrightarrow> xs = [r] \<or> d = Some r"
  by (cases xs; cases "tl xs") auto

lemma unambiguous_target_cases:
  assumes "unambiguous_resume_target P n = Some r"
  shows "r \<in> set P" and "r' \<in> set P \<Longrightarrow> ir_namespace r' = ir_namespace r \<Longrightarrow> r' = r"
proof -
  have "P = [r] \<or> filter (\<lambda>r. ir_namespace r = n) P = [r]"
    using single_case_default [OF assms [unfolded unambiguous_resume_target_def]]
    by (cases "n = []") (simp_all only: single_case if_True if_False option.distinct simp_thms)
  then have "r \<in> set P \<and> (r' \<in> set P \<longrightarrow> ir_namespace r' = ir_namespace r \<longrightarrow> r' = r)" for r'
  proof
    assume f: "filter (\<lambda>r. ir_namespace r = n) P = [r]"
    have m: "x \<in> set P \<and> ir_namespace x = n \<longleftrightarrow> x = r" for x
      using arg_cong [OF f, of set] by (auto simp: set_eq_iff)
    then show ?thesis by metis
  qed simp
  then show "r \<in> set P" and "r' \<in> set P \<Longrightarrow> ir_namespace r' = ir_namespace r \<Longrightarrow> r' = r" by blast+
qed

text \<open>a plain resume value answers at most one question. Without resume writes in the checkpoint
  it consumes the only pending interrupt if there is just one; else the only one of the run's
  namespace, if the run has a namespace and there is just one in it; else none.\<close>

theorem plain_resume_value_target:
  "let pending = pending_interrupts_from_checkpoint S (ck\<lparr>ck_pending_writes := []\<rparr>)
   in consumed_interrupt_ids pending (resume_map_from_sources S (value_config v n) (ck\<lparr>ck_pending_writes := []\<rparr>)) =
      set_option (map_option ir_interrupt_id (unambiguous_resume_target pending n))"
proof -
  define P where "P = pending_interrupts_from_checkpoint S (ck\<lparr>ck_pending_writes := []\<rparr>)"
  have m: "resume_map_from_sources S (value_config v n) (ck\<lparr>ck_pending_writes := []\<rparr>) =
      merge_resume_value v P n \<lparr>rm_by_namespace = [], rm_by_interrupt_id = []\<rparr>"
    by (simp add: resume_map_from_sources_def value_config_def default_config_def resume_map_from_config_def P_def)
  show ?thesis
  proof (cases "unambiguous_resume_target P n")
    case None
    then show ?thesis
      unfolding Let_def P_def [symmetric] m by (simp add: merge_resume_value_def consumed_interrupt_ids_def)
  next
    case (Some r)
    note c = unambiguous_target_cases [OF Some]
    have "{r' \<in> set P. ir_interrupt_id r' = ir_interrupt_id r \<or> ir_namespace r' = ir_namespace r} =
        {r' \<in> set P. ir_interrupt_id r' = ir_interrupt_id r}"
      using c by auto
    then have "ir_interrupt_id ` {r' \<in> set P. ir_interrupt_id r' = ir_interrupt_id r \<or> ir_namespace r' = ir_namespace r} =
        {ir_interrupt_id r}"
      using c(1) by auto
    moreover have "consumed_interrupt_ids P (merge_resume_value v P n \<lparr>rm_by_namespace = [], rm_by_interrupt_id = []\<rparr>) =
        ir_interrupt_id ` {r' \<in> set P. ir_interrupt_id r' = ir_interrupt_id r \<or> ir_namespace r' = ir_namespace r}"
      by (auto simp: merge_resume_value_def consumed_interrupt_ids_def Some or_insert_def)
    ultimately show ?thesis
      unfolding Let_def P_def [symmetric] m by (simp add: Some)
  qed
qed

text \<open>an answer reaches the task that asked. If an interrupt counts as resumed, then the task it
  was recorded for is given a resume value when it runs again.\<close>

theorem resumed_task_gets_value:
  assumes "r \<in> set (nc_pending_interrupts ctx)"
    and "distinct (map ir_interrupt_id (nc_pending_interrupts ctx))"
    and "ir_interrupt_id r \<in> consumed_interrupt_ids (nc_pending_interrupts ctx) (nc_resume_map ctx)"
    and "pt_id task = ir_task_id r"
  shows "ni_resume_value (build_node_input task ctx) \<noteq> None"
proof -
  let ?P = "nc_pending_interrupts ctx"
  obtain r' where r': "r' \<in> set ?P" "ir_interrupt_id r' = ir_interrupt_id r"
    "map_of (rm_by_interrupt_id (nc_resume_map ctx)) (ir_interrupt_id r') \<noteq> None \<or>
     map_of (rm_by_namespace (nc_resume_map ctx)) (ir_namespace r') \<noteq> None"
    using assms(3) by (auto simp: consumed_interrupt_ids_def)
  have "r' = r" using assms(1,2) r'(1,2) by (metis distinct_map inj_onD)
  with r'(3) have look: "resume_lookup (nc_resume_map ctx) r \<noteq> None"
    by (auto simp: resume_lookup_def split: option.splits)
  have "find_resume (nc_resume_map ctx) (pt_id task) P \<noteq> None" if "r \<in> set P" for P
    using that look assms(4) by (induction P) (auto split: option.splits)
  with assms(1) obtain x where "find_resume (nc_resume_map ctx) (pt_id task) ?P = Some x" by blast
  then show ?thesis by (simp add: build_node_input_def resolve_resume_value_def)
qed

definition ex_context :: node_context where
  "ex_context = \<lparr>nc_managed_values = [], nc_pending_interrupts = [ex_record ''i'', ex_record ''j''],
     nc_resume_map = \<lparr>rm_by_namespace = [], rm_by_interrupt_id = [(''j'', JBool True)]\<rparr>\<rparr>"

lemma resumed_task_gets_value_witness:
  "ni_resume_value (build_node_input ((et_prepared (ex_task ''t'' []))\<lparr>pt_id := ''t''\<rparr>) ex_context) \<noteq> None"
  by (rule resumed_task_gets_value [of "ex_record ''j''"])
    (simp_all add: ex_context_def ex_record_def consumed_interrupt_ids_def)

lemma merge_ids_fold:
  "set ids \<subseteq> set es \<Longrightarrow> fold (\<lambda>i es. if i \<in> set es then es else es @ [i]) ids es = es"
  by (induction ids) auto

lemma fold_ids_set: "set (fold (\<lambda>i es. if i \<in> set es then es else es @ [i]) ids es) = set ids \<union> set es"
  by (induction ids arbitrary: es) auto

text \<open>a new checkpoint is the old one under another identifier. \<open>next_checkpoint\<close> keeps
  everything a state snapshot shows except the checkpoint id: step, channels, lineage links,
  updated channels, pending sends, writes and interrupts.\<close>

theorem next_checkpoint_snapshot:
  "from_checkpoint S (next_checkpoint fresh now ck source) = (from_checkpoint S ck)\<lparr>ss_checkpoint_id := fresh\<rparr>"
  by (simp add: from_checkpoint_def next_checkpoint_def from_state_def Let_def)

end
