(* ===== verification/Pregel_Cache.thy ===== *)
theory Pregel_Cache
  imports Pregel_Loop
begin

text \<open>
  \<open>foundation/pregel/src/cache.rs\<close> and its users: the task cache interface (the locale
  \<open>task_cache\<close>), the in-memory cache, the cache key of a task (\<open>algo.rs\<close>), and the two functions of
  \<open>runtime.rs\<close> that read and fill the cache. A runtime without a cache is \<open>None\<close>. The lock of the
  in-memory cache is held for a whole operation; a poisoned lock is not modelled.
\<close>

record cache_key =
  tck_node_name :: string
  tck_step :: u64
  tck_input_hash :: string
  tck_kind :: task_kind
  tck_thread_id :: "string option"
  tck_checkpoint_ns :: string

record cached_task_writes =
  ctw_task_id :: string
  ctw_writes :: "(string \<times> json) list"

subsection \<open>The interface\<close>

locale task_cache =
  fixes get :: "cache_key \<Rightarrow> 'st \<Rightarrow> cached_task_writes option"
    and put :: "cache_key \<Rightarrow> cached_task_writes \<Rightarrow> 'st \<Rightarrow> 'st"
    and clear :: "'st \<Rightarrow> 'st"
    and clear_nodes :: "string list \<Rightarrow> 'st \<Rightarrow> 'st"
  assumes get_put: "get k (put k' v st) = (if k = k' then Some v else get k st)"
    and get_clear: "get k (clear st) = None"
    and get_clear_nodes: "get k (clear_nodes ns st) = (if tck_node_name k \<in> set ns then None else get k st)"
begin

lemma get_put_all:
  "get k (fold (\<lambda>(k, v) st. put k v st) kvs st) =
     (case map_of (rev kvs) k of Some v \<Rightarrow> Some v | None \<Rightarrow> get k st)"
  by (induction kvs arbitrary: st) (auto simp: get_put map_add_def split: option.splits)

lemma clear_then_put: "get k (put k' v (clear_nodes ns st)) =
    (if k = k' then Some v else if tck_node_name k \<in> set ns then None else get k st)"
  by (simp add: get_put get_clear_nodes)

end

subsection \<open>InMemoryPregelTaskCache\<close>

type_synonym memory_cache = "(cache_key \<times> cached_task_writes) list"

definition cache_new :: memory_cache where
  "cache_new = []"

definition cache_entries :: "memory_cache \<Rightarrow> (cache_key \<times> cached_task_writes) list" where
  "cache_entries c = c"

definition cache_get :: "cache_key \<Rightarrow> memory_cache \<Rightarrow> cached_task_writes option" where
  "cache_get k c = map_of c k"

definition cache_put :: "cache_key \<Rightarrow> cached_task_writes \<Rightarrow> memory_cache \<Rightarrow> memory_cache" where
  "cache_put k v c = AList.update k v c"

definition cache_clear :: "memory_cache \<Rightarrow> memory_cache" where
  "cache_clear c = []"

definition cache_clear_nodes :: "string list \<Rightarrow> memory_cache \<Rightarrow> memory_cache" where
  "cache_clear_nodes ns c = filter (\<lambda>(k, _). tck_node_name k \<notin> set ns) c"

lemmas cache_defs = cache_get_def cache_put_def cache_clear_def cache_clear_nodes_def cache_new_def

interpretation memory_cache: task_cache cache_get cache_put cache_clear cache_clear_nodes
proof
  fix k ns and st :: memory_cache
  show "cache_get k (cache_clear_nodes ns st) = (if tck_node_name k \<in> set ns then None else cache_get k st)"
    by (induction st) (auto simp: cache_defs)
qed (simp_all add: cache_defs)

subsection \<open>The cache key of a task\<close>

definition task_cache_key :: "(nat list \<Rightarrow> nat) \<Rightarrow> prepared_task \<Rightarrow> runnable_config \<Rightarrow> cache_key" where
  "task_cache_key sip task config =
     \<lparr>tck_node_name = pt_node_name task, tck_step = pt_step task,
      tck_input_hash = show_hex (sip (stable_hash_value (pt_input task))),
      tck_kind = pt_kind task, tck_thread_id = rc_thread_id config,
      tck_checkpoint_ns = rc_checkpoint_ns config\<rparr>"

subsection \<open>Using the cache\<close>

definition is_reserved_control_write :: "string \<Rightarrow> bool" where
  "is_reserved_control_write ch \<longleftrightarrow>
     ch \<in> {''__interrupt__'', ''__error__'', ''__return__'', ''__no_writes__''}"

definition attach_one ::
    "(nat list \<Rightarrow> nat) \<Rightarrow> memory_cache option \<Rightarrow> (string \<times> (string \<times> json) list) list \<Rightarrow> runnable_config
     \<Rightarrow> prepared_task \<Rightarrow> prepared_task" where
  "attach_one sip cache by_task config task =
     (let task1 = (if pt_cached_writes task = [] then
                     (case map_of by_task (pt_id task) of
                        Some ws \<Rightarrow> task\<lparr>pt_cached_writes := ws\<rparr> | None \<Rightarrow> task)
                   else task)
      in if pt_cached_writes task1 = [] then
           (case cache of
              Some c \<Rightarrow> (case cache_get (task_cache_key sip task1 config) c of
                           Some cached \<Rightarrow> task1\<lparr>pt_cached_writes := ctw_writes cached\<rparr>
                         | None \<Rightarrow> task1)
            | None \<Rightarrow> task1)
         else task1)"

definition attach_cached_writes ::
    "(nat list \<Rightarrow> nat) \<Rightarrow> memory_cache option \<Rightarrow> prepared_task list \<Rightarrow> ckpt \<Rightarrow> runnable_config
     \<Rightarrow> prepared_task list" where
  "attach_cached_writes sip cache tasks ck config =
     map (attach_one sip cache
            (fold (\<lambda>(t, ch, v) m. push_entry t (ch, v) m) (ck_pending_writes ck) []) config) tasks"

definition store_one ::
    "(nat list \<Rightarrow> nat) \<Rightarrow> runnable_config \<Rightarrow> executable_task \<Rightarrow> memory_cache \<Rightarrow> memory_cache" where
  "store_one sip config task c =
     (if pt_cached_writes (et_prepared task) \<noteq> [] then c
      else
        let ws = filter (\<lambda>(ch, _). \<not> is_reserved_control_write ch) (et_writes task) in
        if ws = [] then c
        else cache_put (task_cache_key sip (et_prepared task) config)
               \<lparr>ctw_task_id = pt_id (et_prepared task), ctw_writes = ws\<rparr> c)"

definition store_successful_task_writes ::
    "(nat list \<Rightarrow> nat) \<Rightarrow> task_outcome list \<Rightarrow> runnable_config \<Rightarrow> memory_cache option \<Rightarrow> memory_cache option" where
  "store_successful_task_writes sip outcomes config cache =
     map_option (fold (store_one sip config) (successes outcomes)) cache"

subsection \<open>Properties\<close>

definition staged_writes :: "ckpt \<Rightarrow> string \<Rightarrow> (string \<times> json) list" where
  "staged_writes ck t = map snd (filter (\<lambda>w. fst w = t) (ck_pending_writes ck))"

lemma pget_push_entries:
  "pget (fold (\<lambda>(t, ch, v) m. push_entry t (ch, v) m) ws m) k = pget m k @ map snd (filter (\<lambda>w. fst w = k) ws)"
  by (induction ws arbitrary: m) (auto simp: pget_push_entry)

lemma by_task_lookup:
  "(case map_of (fold (\<lambda>(t, ch, v) m. push_entry t (ch, v) m) (ck_pending_writes ck) []) k of
      Some ws \<Rightarrow> ws | None \<Rightarrow> []) = staged_writes ck k"
  using pget_push_entries [of "ck_pending_writes ck" "[]" k] by (simp add: pget_def staged_writes_def)

text \<open>where a task's cached writes come from. Writes the checkpoint has staged for exactly this
  task id win; without any, the entry of the task cache under the task's key is used; a task that
  already carries writes keeps them, and nothing else of a task changes.\<close>

theorem attach_cached_writes_spec:
  "attach_cached_writes sip cache tasks ck config =
     map (\<lambda>t. t\<lparr>pt_cached_writes :=
        (if pt_cached_writes t \<noteq> [] then pt_cached_writes t
         else if staged_writes ck (pt_id t) \<noteq> [] then staged_writes ck (pt_id t)
         else case Option.bind cache (cache_get (task_cache_key sip t config)) of
                Some e \<Rightarrow> ctw_writes e | None \<Rightarrow> [])\<rparr>) tasks"
proof -
  have "attach_one sip cache (fold (\<lambda>(t, ch, v) m. push_entry t (ch, v) m) (ck_pending_writes ck) []) config t =
      t\<lparr>pt_cached_writes :=
        (if pt_cached_writes t \<noteq> [] then pt_cached_writes t
         else if staged_writes ck (pt_id t) \<noteq> [] then staged_writes ck (pt_id t)
         else case Option.bind cache (cache_get (task_cache_key sip t config)) of
                Some e \<Rightarrow> ctw_writes e | None \<Rightarrow> [])\<rparr>" for t
    using by_task_lookup [of ck "pt_id t"]
    by (auto simp: attach_one_def Let_def task_cache_key_def split: option.splits)
  then show ?thesis by (simp add: attach_cached_writes_def)
qed

text \<open>what a successful task stores is what an identical task is given later, minus the control
  writes: interrupts, errors, no-write markers, and also the return value.\<close>

theorem cache_round_trip:
  assumes "pt_cached_writes (et_prepared t) = []"
    and "filter (\<lambda>(ch, _). \<not> is_reserved_control_write ch) (et_writes t) \<noteq> []"
    and "staged_writes ck (pt_id (et_prepared t)) = []"
  shows "attach_cached_writes sip (store_successful_task_writes sip [TaskSuccess t] config (Some c))
           [et_prepared t] ck config =
         [(et_prepared t)\<lparr>pt_cached_writes := filter (\<lambda>(ch, _). \<not> is_reserved_control_write ch) (et_writes t)\<rparr>]"
proof -
  let ?by = "fold (\<lambda>(t, ch, v) m. push_entry t (ch, v) m) (ck_pending_writes ck) []"
  let ?ws = "filter (\<lambda>(ch, _). \<not> is_reserved_control_write ch) (et_writes t)"
  have "(case map_of ?by (pt_id (et_prepared t)) of Some ws \<Rightarrow> ws | None \<Rightarrow> []) = []"
    using by_task_lookup [of ck "pt_id (et_prepared t)"] assms(3) by simp
  then have b: "(case map_of ?by (pt_id (et_prepared t)) of
      Some ws \<Rightarrow> (et_prepared t)\<lparr>pt_cached_writes := ws\<rparr> | None \<Rightarrow> et_prepared t) = et_prepared t"
    using assms(1) by (auto split: option.splits)
  have g: "cache_get (task_cache_key sip (et_prepared t) config) (store_one sip config t c) =
      Some \<lparr>ctw_task_id = pt_id (et_prepared t), ctw_writes = ?ws\<rparr>"
    using assms(1,2) by (simp add: store_one_def Let_def memory_cache.get_put)
  show ?thesis
    using b g assms(1)
    by (simp add: attach_cached_writes_def attach_one_def store_successful_task_writes_def successes_def
        List.map_filter_simps)
qed

lemma cache_round_trip_witness:
  "attach_cached_writes (\<lambda>_. 0) (store_successful_task_writes (\<lambda>_. 0)
       [TaskSuccess (ex_task ''n'' [(''__return__'', JNull), (''out'', JBool True)])] default_config (Some cache_new))
     [et_prepared (ex_task ''n'' [(''__return__'', JNull), (''out'', JBool True)])]
     (with_id ''c'' 0 JNull SrcLoop 0) default_config =
   [(et_prepared (ex_task ''n'' []))\<lparr>pt_cached_writes := [(''out'', JBool True)]\<rparr>]"
  by (subst cache_round_trip)
    (simp_all add: ex_task_def is_reserved_control_write_def staged_writes_def with_id_def)

text \<open>the cache key is ambiguous. The stream hashed for an object has no length, so an array of
  an object and what follows it can be read in two ways: these two inputs have one key whatever the
  hash function is, and a task with the second input is given the writes computed for the first.\<close>

theorem cache_key_ambiguous:
  "let k = CHR 0x03 # ''x'';
       v = JArr [JObj [], JStr ''x'', JNull, JObj [(k, JNull)]];
       w = JArr [JObj [(k, JNull)], JObj [], JStr ''x'', JNull]
   in v \<noteq> w \<and> task_cache_key sip (t\<lparr>pt_input := v\<rparr>) config = task_cache_key sip (t\<lparr>pt_input := w\<rparr>) config"
  by (simp add: Let_def task_cache_key_def hash_str_def hash_usize_def numeral_3_eq_3)

end
