(* ===== verification/Memory_Saver.thy ===== *)
theory Memory_Saver
  imports Checkpoint_Types "HOL-Library.Product_Lexorder" "HOL-Library.Multiset"
begin

text \<open>
  \<open>foundation/checkpoint/src/checkpointer.rs\<close> and \<open>memory_saver.rs\<close>: the checkpointer interface,
  as the locale \<open>checkpointer\<close>, and the in-memory implementation. The lock is taken for the whole
  of every operation, so an operation is one step on the state. Operations return their
  \<open>Result\<close> and the new state.
\<close>

subsection \<open>The interface\<close>

locale checkpointer =
  fixes part :: "runnable_config \<Rightarrow> 'k option"
    and ids :: "'k \<Rightarrow> 'st \<Rightarrow> string list"
    and put :: "runnable_config \<Rightarrow> 's checkpoint \<Rightarrow> 'st \<Rightarrow> (checkpoint_err + string) \<times> 'st"
    and get_tuple :: "runnable_config \<Rightarrow> 'st \<Rightarrow> checkpoint_err + ('s checkpoint \<times> kernel_metadata) option"
  assumes put_result: "part cfg = Some k \<Longrightarrow> fst (put cfg c st) = Inr (ck_id c)"
    and put_ids: "part cfg = Some k \<Longrightarrow>
      ids k' (snd (put cfg c st)) =
        (if k' = k \<and> ck_id c \<notin> set (ids k st) then ids k st @ [ck_id c] else ids k' st)"
    and put_rejected: "part cfg = None \<Longrightarrow> put cfg c st = (Inl ThreadIdRequired, st)"
    and get_rejected: "part cfg = None \<Longrightarrow> get_tuple cfg st = Inl ThreadIdRequired"
    and get_put_id: "part cfg = Some k \<Longrightarrow> part cfg' = Some k \<Longrightarrow> rc_checkpoint_id cfg' = Some (ck_id c) \<Longrightarrow>
      get_tuple cfg' (snd (put cfg c st)) = Inr (Some (c, ck_kernel c))"
    and get_put_latest: "part cfg = Some k \<Longrightarrow> part cfg' = Some k \<Longrightarrow> rc_checkpoint_id cfg' = None \<Longrightarrow>
      ck_id c \<notin> set (ids k st) \<Longrightarrow> get_tuple cfg' (snd (put cfg c st)) = Inr (Some (c, ck_kernel c))"
    and get_put_other: "part cfg = Some k \<Longrightarrow>
      part cfg' \<noteq> Some k \<or> (\<exists>i. rc_checkpoint_id cfg' = Some i \<and> i \<noteq> ck_id c) \<Longrightarrow>
      get_tuple cfg' (snd (put cfg c st)) = get_tuple cfg' st"
begin

fun put_all :: "runnable_config \<Rightarrow> 's checkpoint list \<Rightarrow> 'st \<Rightarrow> 'st" where
  "put_all cfg [] st = st"
| "put_all cfg (c # cs) st = put_all cfg cs (snd (put cfg c st))"

lemma put_all_append: "put_all cfg (cs @ ds) st = put_all cfg ds (put_all cfg cs st)"
  by (induction cs arbitrary: st) simp_all

lemma put_all_ids:
  assumes "part cfg = Some k"
  shows "set (ids k (put_all cfg cs st)) = set (ids k st) \<union> ck_id ` set cs"
proof (induction cs arbitrary: st)
  case (Cons c cs)
  have "set (ids k (snd (put cfg c st))) = insert (ck_id c) (set (ids k st))"
    by (auto simp: put_ids [OF assms])
  with Cons show ?case by simp
qed simp

text \<open>A lineage of checkpoints with new ids: the last one is the latest, each is found by its id,
  and a checkpoint stored before stays as it was.\<close>

lemma put_all_latest:
  assumes "part cfg = Some k" "part cfg' = Some k" "rc_checkpoint_id cfg' = None"
    and "ck_id c \<notin> ck_id ` set cs" "ck_id c \<notin> set (ids k st)"
  shows "get_tuple cfg' (put_all cfg (cs @ [c]) st) = Inr (Some (c, ck_kernel c))"
proof -
  have "ck_id c \<notin> set (ids k (put_all cfg cs st))"
    using assms(4,5) by (simp add: put_all_ids [OF assms(1)])
  then show ?thesis
    using get_put_latest [OF assms(1-3)] by (simp add: put_all_append)
qed

lemma put_all_other:
  assumes "part cfg = Some k"
    and "part cfg' \<noteq> Some k \<or> (\<exists>i. rc_checkpoint_id cfg' = Some i \<and> i \<notin> ck_id ` set cs)"
  shows "get_tuple cfg' (put_all cfg cs st) = get_tuple cfg' st"
  using assms(2)
proof (induction cs arbitrary: st)
  case (Cons c cs)
  have "get_tuple cfg' (put_all cfg cs (snd (put cfg c st))) = get_tuple cfg' (snd (put cfg c st))"
    using Cons.prems by (intro Cons.IH) auto
  also have "\<dots> = get_tuple cfg' st"
    using Cons.prems by (intro get_put_other [OF assms(1)]) auto
  finally show ?case by simp
qed simp

lemma put_all_by_id:
  assumes "part cfg = Some k" "part cfg' = Some k" "rc_checkpoint_id cfg' = Some (ck_id c)"
    and "c \<in> set cs" "distinct (map ck_id cs)"
  shows "get_tuple cfg' (put_all cfg cs st) = Inr (Some (c, ck_kernel c))"
proof -
  obtain xs ys where cs: "cs = xs @ c # ys" using assms(4) by (meson split_list)
  have "put_all cfg cs st = put_all cfg ys (snd (put cfg c (put_all cfg xs st)))"
    by (simp add: cs put_all_append)
  moreover have "get_tuple cfg' (put_all cfg ys (snd (put cfg c (put_all cfg xs st)))) =
      get_tuple cfg' (snd (put cfg c (put_all cfg xs st)))"
    using assms(3,5) by (intro put_all_other [OF assms(1)]) (auto simp: cs)
  ultimately show ?thesis using get_put_id [OF assms(1-3)] by simp
qed

end

subsection \<open>MemorySaver\<close>

record write_entry =
  we_task_id :: string
  we_idx :: int
  we_channel :: string
  we_value :: json

record 's memory_saver =
  ms_by_thread :: "(string \<times> (string \<times> 's checkpoint) list) list"
  ms_writes :: "(string \<times> write_entry list) list"
  ms_next_id :: u64

definition memory_saver_new :: "'s memory_saver" where
  "memory_saver_new = \<lparr>ms_by_thread = [], ms_writes = [], ms_next_id = 0\<rparr>"

definition thread_key :: "runnable_config \<Rightarrow> checkpoint_err + string" where
  "thread_key config =
     (case rc_thread_id config of
        None \<Rightarrow> Inl ThreadIdRequired
      | Some t \<Rightarrow> Inr (t @ '':'' @ rc_checkpoint_ns config))"

definition writes_key :: "runnable_config \<Rightarrow> string \<Rightarrow> checkpoint_err + string" where
  "writes_key config checkpoint_id =
     (case rc_thread_id config of
        None \<Rightarrow> Inl ThreadIdRequired
      | Some t \<Rightarrow> Inr (t @ '':'' @ rc_checkpoint_ns config @ '':'' @ checkpoint_id))"

definition ms_put ::
    "runnable_config \<Rightarrow> 's checkpoint \<Rightarrow> 's memory_saver \<Rightarrow> (checkpoint_err + string) \<times> 's memory_saver" where
  "ms_put config c st =
     (case thread_key config of
        Inl e \<Rightarrow> (Inl e, st)
      | Inr key \<Rightarrow>
          (Inr (ck_id c),
           st\<lparr>ms_next_id := ms_next_id st + 1,
              ms_by_thread := AList.update key
                (upsert (\<lambda>e. fst e = ck_id c) (ck_id c, c) (pget (ms_by_thread st) key)) (ms_by_thread st)\<rparr>))"

definition ms_get_tuple ::
    "runnable_config \<Rightarrow> 's memory_saver \<Rightarrow> checkpoint_err + ('s checkpoint \<times> kernel_metadata) option" where
  "ms_get_tuple config st =
     (case thread_key config of
        Inl e \<Rightarrow> Inl e
      | Inr key \<Rightarrow>
          (case map_of (ms_by_thread st) key of
             None \<Rightarrow> Inr None
           | Some [] \<Rightarrow> Inr None
           | Some list \<Rightarrow>
               (case rc_checkpoint_id config of
                  Some cid \<Rightarrow> Inr (map_option (\<lambda>c. (c, ck_kernel c)) (map_of list cid))
                | None \<Rightarrow> Inr (Some (snd (last list), ck_kernel (snd (last list)))))))"

text \<open>Paging: what lies after one cursor and before another, then the last \<open>limit\<close> entries. A cursor
  that does not occur is ignored.\<close>

definition page_after :: "string option \<Rightarrow> (string \<times> 'm) list \<Rightarrow> (string \<times> 'm) list" where
  "page_after cursor items =
     (case cursor of
        Some a \<Rightarrow> if a \<in> set (keys items) then tl (dropWhile (\<lambda>i. fst i \<noteq> a) items) else items
      | None \<Rightarrow> items)"

definition page_before :: "string option \<Rightarrow> (string \<times> 'm) list \<Rightarrow> (string \<times> 'm) list" where
  "page_before cursor items =
     (case cursor of
        Some b \<Rightarrow> if b \<in> set (keys items) then takeWhile (\<lambda>i. fst i \<noteq> b) items else items
      | None \<Rightarrow> items)"

definition page_limit :: "nat option \<Rightarrow> 'a list \<Rightarrow> 'a list" where
  "page_limit limit items =
     (case limit of Some n \<Rightarrow> drop (length items - n) items | None \<Rightarrow> items)"

definition ms_list ::
    "runnable_config \<Rightarrow> nat option \<Rightarrow> string option \<Rightarrow> string option \<Rightarrow> 's memory_saver
     \<Rightarrow> checkpoint_err + (string \<times> kernel_metadata) list" where
  "ms_list config limit before after st =
     (case thread_key config of
        Inl e \<Rightarrow> Inl e
      | Inr key \<Rightarrow>
          (case map_of (ms_by_thread st) key of
             None \<Rightarrow> Inr []
           | Some list \<Rightarrow>
               Inr (page_limit limit (page_before before (page_after after
                 (map (\<lambda>(i, c). (i, ck_kernel c)) list))))))"

definition add_write :: "string \<Rightarrow> nat \<times> string \<times> json \<Rightarrow> write_entry list \<Rightarrow> write_entry list" where
  "add_write task_id w entries =
     (case w of (idx, channel, v) \<Rightarrow>
        if \<exists>e \<in> set entries. we_task_id e = task_id \<and> we_idx e = int idx then entries
        else entries @ [\<lparr>we_task_id = task_id, we_idx = int idx, we_channel = channel, we_value = v\<rparr>])"

definition ms_put_writes ::
    "runnable_config \<Rightarrow> string \<Rightarrow> string \<Rightarrow> (string \<times> json) list \<Rightarrow> 's memory_saver
     \<Rightarrow> (checkpoint_err + unit) \<times> 's memory_saver" where
  "ms_put_writes config checkpoint_id task_id ws st =
     (case writes_key config checkpoint_id of
        Inl e \<Rightarrow> (Inl e, st)
      | Inr key \<Rightarrow>
          (Inr (), st\<lparr>ms_writes := AList.update key
             (fold (add_write task_id) (enumerate 0 ws) (pget (ms_writes st) key)) (ms_writes st)\<rparr>))"

definition ms_get_writes ::
    "runnable_config \<Rightarrow> string \<Rightarrow> 's memory_saver \<Rightarrow> checkpoint_err + pending_write list" where
  "ms_get_writes config checkpoint_id st =
     (case writes_key config checkpoint_id of
        Inl e \<Rightarrow> Inl e
      | Inr key \<Rightarrow>
          Inr (map (\<lambda>e. (we_task_id e, we_channel e, we_value e))
                (sort_key (\<lambda>e. (we_task_id e, we_idx e)) (pget (ms_writes st) key))))"

subsection \<open>MemorySaver implements the interface\<close>

definition ms_part :: "runnable_config \<Rightarrow> string option" where
  "ms_part config = (case thread_key config of Inr k \<Rightarrow> Some k | Inl _ \<Rightarrow> None)"

definition ms_ids :: "string \<Rightarrow> 's memory_saver \<Rightarrow> string list" where
  "ms_ids k st = keys (pget (ms_by_thread st) k)"

lemma ms_part_None: "ms_part cfg = None \<longleftrightarrow> thread_key cfg = Inl ThreadIdRequired"
  by (auto simp: ms_part_def thread_key_def split: option.splits)

lemma ms_part_Some: "ms_part cfg = Some k \<longleftrightarrow> thread_key cfg = Inr k"
  by (auto simp: ms_part_def split: sum.splits)

lemma ms_get_list:
  "thread_key cfg = Inr k \<Longrightarrow> ms_get_tuple cfg st =
     Inr (if pget (ms_by_thread st) k = [] then None
          else case rc_checkpoint_id cfg of
            Some cid \<Rightarrow> map_option (\<lambda>c. (c, ck_kernel c)) (map_of (pget (ms_by_thread st) k) cid)
          | None \<Rightarrow> (let c = snd (last (pget (ms_by_thread st) k)) in Some (c, ck_kernel c)))"
  by (auto simp: ms_get_tuple_def pget_def Let_def split: option.splits list.splits)

lemma ms_put_list:
  "thread_key cfg = Inr k \<Longrightarrow> pget (ms_by_thread (snd (ms_put cfg c st))) k' =
     (if k' = k then upsert (\<lambda>e. fst e = ck_id c) (ck_id c, c) (pget (ms_by_thread st) k)
      else pget (ms_by_thread st) k')"
  by (simp add: ms_put_def pget_def split: option.splits)

lemma upsert_map_of: "map_of (upsert (\<lambda>e. fst e = i) (i, x) m) j = (if j = i then Some x else map_of m j)"
proof (induction m)
  case (Cons r m)
  then show ?case by (cases r) auto
qed simp

lemma upsert_keys: "keys (upsert (\<lambda>e. fst e = i) (i, x) m) = (if i \<in> set (keys m) then keys m else keys m @ [i])"
  by (subst map_upsert_key) auto

lemma upsert_fresh_key: "i \<notin> fst ` set m \<Longrightarrow> upsert (\<lambda>e. fst e = i) y m = m @ [y]"
  by (rule upsert_fresh) auto

lemma upsert_nonempty [simp]: "upsert p y m \<noteq> []"
  by (cases m) auto

interpretation ms: checkpointer ms_part ms_ids ms_put ms_get_tuple
proof unfold_locales
  fix cfg cfg' :: runnable_config and k k' and c :: "'s checkpoint" and st :: "'s memory_saver"
  show "ms_part cfg = None \<Longrightarrow> ms_put cfg c st = (Inl ThreadIdRequired, st)"
    by (simp add: ms_part_None ms_put_def)
  show "ms_part cfg = None \<Longrightarrow> ms_get_tuple cfg st = Inl ThreadIdRequired"
    by (simp add: ms_part_None ms_get_tuple_def)
  assume p: "ms_part cfg = Some k"
  then have t: "thread_key cfg = Inr k" by (simp add: ms_part_Some)
  show "fst (ms_put cfg c st) = Inr (ck_id c)" by (simp add: ms_put_def t)
  show "ms_ids k' (snd (ms_put cfg c st)) =
      (if k' = k \<and> ck_id c \<notin> set (ms_ids k st) then ms_ids k st @ [ck_id c] else ms_ids k' st)"
    by (simp add: ms_ids_def ms_put_list [OF t] upsert_keys)
  show "ms_part cfg' = Some k \<Longrightarrow> rc_checkpoint_id cfg' = Some (ck_id c) \<Longrightarrow>
      ms_get_tuple cfg' (snd (ms_put cfg c st)) = Inr (Some (c, ck_kernel c))"
    by (simp add: ms_part_Some ms_get_list ms_put_list [OF t] upsert_map_of)
  show "ms_part cfg' = Some k \<Longrightarrow> rc_checkpoint_id cfg' = None \<Longrightarrow> ck_id c \<notin> set (ms_ids k st) \<Longrightarrow>
      ms_get_tuple cfg' (snd (ms_put cfg c st)) = Inr (Some (c, ck_kernel c))"
    by (subst ms_get_list [of cfg' k])
      (auto simp: ms_part_Some ms_put_list [OF t] ms_ids_def upsert_fresh_key Let_def)
  show "ms_part cfg' \<noteq> Some k \<or> (\<exists>i. rc_checkpoint_id cfg' = Some i \<and> i \<noteq> ck_id c) \<Longrightarrow>
      ms_get_tuple cfg' (snd (ms_put cfg c st)) = ms_get_tuple cfg' st"
  proof (cases "thread_key cfg'")
    case (Inl e)
    then show ?thesis by (simp add: ms_get_tuple_def)
  next
    case (Inr k'')
    assume "ms_part cfg' \<noteq> Some k \<or> (\<exists>i. rc_checkpoint_id cfg' = Some i \<and> i \<noteq> ck_id c)"
    then show ?thesis
      by (auto simp: ms_part_Some ms_get_list [OF Inr] Inr ms_put_list [OF t] upsert_map_of Let_def
          split: option.split)
  qed
qed

text \<open>C29: a checkpoint lineage in a \<open>MemorySaver\<close>. Into a saver in any state a series of checkpoints is stored
  for one thread and namespace, under distinct ids, the last one new. Then the latest is the last one
  stored, each is returned by its id with its metadata, and every other thread key, and every other id of
  this one, still reads what it read before. (Thread and namespace make the key; two pairs with the same
  key are one thread to the saver.)\<close>

theorem memory_saver_lineage:
  assumes "thread_key cfg = Inr k" and "distinct (map ck_id (cs @ [c]))" and "d \<in> set (cs @ [c])"
    and "ck_id c \<notin> set (ms_ids k st)"
    and "thread_key other \<noteq> Inr k \<or> (\<exists>i. rc_checkpoint_id other = Some i \<and> i \<notin> ck_id ` set (cs @ [c]))"
  shows "let st' = foldl (\<lambda>st c. snd (ms_put cfg c st)) st (cs @ [c])
         in ms_get_tuple (cfg\<lparr>rc_checkpoint_id := None\<rparr>) st' = Inr (Some (c, ck_kernel c)) \<and>
            ms_get_tuple (cfg\<lparr>rc_checkpoint_id := Some (ck_id d)\<rparr>) st' = Inr (Some (d, ck_kernel d)) \<and>
            ms_get_tuple other st' = ms_get_tuple other st"
proof -
  have fl: "foldl (\<lambda>st c. snd (ms_put cfg c st)) st ds = ms.put_all cfg ds st"
    for ds and st :: "'a memory_saver"
    by (induction ds arbitrary: st) simp_all
  have p: "ms_part cfg = Some k" "ms_part (cfg\<lparr>rc_checkpoint_id := x\<rparr>) = Some k" for x
    using assms(1) by (simp_all add: ms_part_Some thread_key_def split: option.splits)
  have f: "ck_id c \<notin> ck_id ` set cs" using assms(2) by auto
  have o: "ms_part other \<noteq> Some k \<or> (\<exists>i. rc_checkpoint_id other = Some i \<and> i \<notin> ck_id ` set (cs @ [c]))"
    using assms(5) by (simp add: ms_part_Some)
  show ?thesis
    using ms.put_all_latest [OF p(1) p(2) _ f assms(4)] ms.put_all_by_id [OF p(1) p(2) _ assms(3,2)]
      ms.put_all_other [OF p(1) o]
    by (simp add: fl Let_def)
qed

definition thread_cfg :: "string \<Rightarrow> string \<Rightarrow> runnable_config" where
  "thread_cfg t n = default_config\<lparr>rc_thread_id := Some t, rc_checkpoint_ns := n\<rparr>"

lemma thread_key_cfg [simp]: "thread_key (thread_cfg t n) = Inr (t @ '':'' @ n)"
  by (simp add: thread_key_def thread_cfg_def default_config_def)

lemma memory_saver_lineage_witness:
  "let before = snd (ms_put (thread_cfg ''u'' []) (with_id ''7'' 0 JNull SrcInput 0) memory_saver_new);
       after = foldl (\<lambda>st c. snd (ms_put (thread_cfg ''t'' []) c st)) before
        ([with_id ''1'' 0 JNull SrcInput 0] @ [with_id ''2'' 0 JNull SrcLoop 1])
   in ms_get_tuple ((thread_cfg ''t'' [])\<lparr>rc_checkpoint_id := Some ''1''\<rparr>) after =
        Inr (Some (with_id ''1'' 0 JNull SrcInput 0, ck_kernel (with_id ''1'' 0 JNull SrcInput 0))) \<and>
      ms_get_tuple (thread_cfg ''u'' []) after = ms_get_tuple (thread_cfg ''u'' []) before"
proof -
  let ?st = "snd (ms_put (thread_cfg ''u'' []) (with_id ''7'' 0 JNull SrcInput 0) memory_saver_new)"
  have n: "ck_id (with_id ''2'' 0 JNull SrcLoop 1) \<notin> set (ms_ids ''t:'' ?st)"
    by (simp add: ms_put_def memory_saver_new_def pget_def ms_ids_def with_id_def)
  show ?thesis
    using memory_saver_lineage [of "thread_cfg ''t'' []" "''t:''" "[with_id ''1'' 0 JNull SrcInput 0]"
        "with_id ''2'' 0 JNull SrcLoop 1" "with_id ''1'' 0 JNull SrcInput 0" ?st "thread_cfg ''u'' []"] n
    by (simp add: Let_def with_id_def)
qed

text \<open>the thread key joins thread id and namespace with a colon, and colons occur in both: a
  checkpoint stored for thread \<open>a:b\<close> in namespace \<open>c\<close> is read back as the state of thread \<open>a\<close> in
  namespace \<open>b:c\<close>.\<close>

theorem thread_keys_collide:
  "thread_cfg ''a:b'' ''c'' \<noteq> thread_cfg ''a'' ''b:c'' \<and>
   ms_get_tuple (thread_cfg ''a'' ''b:c'') (snd (ms_put (thread_cfg ''a:b'' ''c'') c memory_saver_new)) =
     Inr (Some (c, ck_kernel c))"
  by (simp add: ms_put_def ms_get_tuple_def memory_saver_new_def thread_cfg_def default_config_def
      thread_key_def pget_def)

subsection \<open>Pending writes\<close>

definition has_entry :: "string \<Rightarrow> nat \<Rightarrow> write_entry list \<Rightarrow> bool" where
  "has_entry t i es \<longleftrightarrow> (\<exists>e \<in> set es. we_task_id e = t \<and> we_idx e = int i)"

lemma add_write_eq: "add_write t (i, ch, v) es =
    (if has_entry t i es then es
     else es @ [\<lparr>we_task_id = t, we_idx = int i, we_channel = ch, we_value = v\<rparr>])"
  by (simp add: add_write_def has_entry_def)

lemma add_write_has: "has_entry t i (add_write t (i, ch, v) es)"
  by (auto simp: add_write_eq has_entry_def)

lemma add_writes_mono: "has_entry t i es \<Longrightarrow> has_entry t i (fold (add_write t') ws es)"
proof (induction ws arbitrary: es)
  case (Cons w ws)
  then show ?case by (cases w) (auto simp: add_write_eq has_entry_def)
qed simp

lemma add_writes_has: "(i, ch, v) \<in> set ws \<Longrightarrow> has_entry t i (fold (add_write t) ws es)"
proof (induction ws arbitrary: es)
  case (Cons w ws)
  then show ?case using add_writes_mono [OF add_write_has] by auto
qed simp

lemma add_writes_known:
  "(\<And>i ch v. (i, ch, v) \<in> set ws \<Longrightarrow> has_entry t i es) \<Longrightarrow> fold (add_write t) ws es = es"
proof (induction ws)
  case (Cons w ws)
  obtain i ch v where w: "w = (i, ch, v)" by (cases w)
  have "has_entry t i es" by (rule Cons.prems [of i ch v]) (simp add: w)
  moreover have "fold (add_write t) ws es = es"
    using Cons.prems by (intro Cons.IH) (meson list.set_intros(2))
  ultimately show ?case by (simp add: w add_write_eq)
qed simp

lemma alist_update_update [simp]: "AList.update k v (AList.update k v' m) = AList.update k v m"
  by (induction m) auto

text \<open>storing the writes of a task twice is storing them once: a resumed run that repeats
  \<open>put_writes\<close> with the same or fewer writes changes nothing, whatever their new values are.\<close>

theorem put_writes_idempotent:
  assumes "length vs \<le> length ws"
  shows "ms_put_writes cfg cid t vs (snd (ms_put_writes cfg cid t ws st)) =
         (fst (ms_put_writes cfg cid t ws st), snd (ms_put_writes cfg cid t ws st))"
proof (cases "writes_key cfg cid")
  case (Inl e)
  then show ?thesis by (simp add: ms_put_writes_def)
next
  case (Inr key)
  define es where "es = fold (add_write t) (enumerate 0 ws) (pget (ms_writes st) key)"
  have "has_entry t i es" if "(i, ch, v) \<in> set (enumerate 0 vs)" for i ch v
  proof -
    have "i < length ws" using that assms by (auto simp: in_set_enumerate_eq)
    then obtain ch' v' where "ws ! i = (ch', v')" "(i, ch', v') \<in> set (enumerate 0 ws)"
      by (cases "ws ! i") (auto simp: in_set_enumerate_eq)
    then show ?thesis unfolding es_def by (blast intro: add_writes_has)
  qed
  then have "fold (add_write t) (enumerate 0 vs) es = es" by (rule add_writes_known)
  then show ?thesis
    by (simp add: ms_put_writes_def Inr pget_def flip: es_def [unfolded pget_def])
qed

lemma put_writes_idempotent_witness:
  "ms_put_writes (thread_cfg ''t'' []) ''1'' ''a'' [(''x'', JNull)]
     (snd (ms_put_writes (thread_cfg ''t'' []) ''1'' ''a'' [(''x'', JBool True), (''y'', JNull)] memory_saver_new)) =
   (Inr (), snd (ms_put_writes (thread_cfg ''t'' []) ''1'' ''a'' [(''x'', JBool True), (''y'', JNull)] memory_saver_new))"
  by (subst put_writes_idempotent) (simp_all add: ms_put_writes_def writes_key_def thread_cfg_def default_config_def)

definition entries_of :: "string \<Rightarrow> nat \<Rightarrow> (string \<times> json) list \<Rightarrow> write_entry list" where
  "entries_of t n ws =
     map (\<lambda>(i, ch, v). \<lparr>we_task_id = t, we_idx = int i, we_channel = ch, we_value = v\<rparr>) (enumerate n ws)"

lemma add_writes_fresh:
  "(\<And>e. e \<in> set es \<Longrightarrow> we_task_id e = t \<Longrightarrow> we_idx e < int n) \<Longrightarrow>
   fold (add_write t) (enumerate n ws) es = es @ entries_of t n ws"
proof (induction ws arbitrary: n es)
  case (Cons w ws)
  obtain ch v where w: "w = (ch, v)" by (cases w)
  have "\<not> has_entry t n es" unfolding has_entry_def using Cons.prems by (metis less_irrefl)
  then have "add_write t (n, w) es = es @ [\<lparr>we_task_id = t, we_idx = int n, we_channel = ch, we_value = v\<rparr>]"
    by (simp add: w add_write_eq)
  moreover have "fold (add_write t) (enumerate (Suc n) ws)
      (es @ [\<lparr>we_task_id = t, we_idx = int n, we_channel = ch, we_value = v\<rparr>]) =
      (es @ [\<lparr>we_task_id = t, we_idx = int n, we_channel = ch, we_value = v\<rparr>]) @ entries_of t (Suc n) ws"
  proof (rule Cons.IH)
    fix e assume e: "e \<in> set (es @ [\<lparr>we_task_id = t, we_idx = int n, we_channel = ch, we_value = v\<rparr>])"
      "we_task_id e = t"
    then show "we_idx e < int (Suc n)" using Cons.prems [of e] by (cases "e \<in> set es") auto
  qed
  ultimately show ?case by (simp add: entries_of_def w)
qed (simp add: entries_of_def)

lemma entries_keys:
  "map (\<lambda>e. (we_task_id e, we_idx e)) (entries_of t n ws) = map (\<lambda>i. (t, int i)) [n..<n + length ws]"
  by (induction ws arbitrary: n) (auto simp: entries_of_def upt_conv_Cons simp del: upt_Suc)

lemma entries_values:
  "map (\<lambda>e. (we_task_id e, we_channel e, we_value e)) (entries_of t n ws) = map (\<lambda>(ch, v). (t, ch, v)) ws"
  by (induction ws arbitrary: n) (auto simp: entries_of_def)

lemma entries_task: "e \<in> set (entries_of t n ws) \<Longrightarrow> we_task_id e = t"
  by (auto simp: entries_of_def)

lemma sorted_entries:
  assumes "t < u"
  shows "sorted (map (\<lambda>e. (we_task_id e, we_idx e)) (entries_of t 0 ws @ entries_of u 0 vs))"
    and "distinct (map (\<lambda>e. (we_task_id e, we_idx e)) (entries_of t 0 ws @ entries_of u 0 vs))"
proof -
  have "sorted (map (\<lambda>i. (t', int i)) [n..<m])" for t' :: string and n m
    by (auto simp: sorted_iff_nth_mono)
  then show "sorted (map (\<lambda>e. (we_task_id e, we_idx e)) (entries_of t 0 ws @ entries_of u 0 vs))"
    using assms unfolding map_append entries_keys by (auto simp: sorted_append)
  show "distinct (map (\<lambda>e. (we_task_id e, we_idx e)) (entries_of t 0 ws @ entries_of u 0 vs))"
    using assms unfolding map_append entries_keys by (auto simp: distinct_map inj_on_def)
qed

lemma filter_eq_single: "distinct zs \<Longrightarrow> k \<in> set zs \<Longrightarrow> filter (\<lambda>x. x = k) zs = [k]"
  by (induction zs) (auto simp: filter_empty_conv)

lemma sort_key_unique:
  assumes "mset xs = mset ys" "sorted (map f ys)" "distinct (map f ys)"
  shows "sort_key f xs = ys"
proof (rule properties_for_sort_key)
  show "mset ys = mset xs" using assms(1) by simp
  show "sorted (map f ys)" by (rule assms(2))
  fix k assume k: "k \<in> set ys"
  have inj: "inj_on f (set ys)" using assms(3) by (simp add: distinct_map)
  have dy: "distinct ys" using assms(3) by (simp add: distinct_map)
  have s: "set xs = set ys" using assms(1) by (rule mset_eq_setD)
  have dx: "distinct xs" using dy assms(1) by (metis mset_eq_imp_distinct_iff)
  have "filter (\<lambda>x. f k = f x) zs = [k]" if "distinct zs" "set zs = set ys" for zs
  proof -
    have "filter (\<lambda>x. f k = f x) zs = filter (\<lambda>x. x = k) zs"
      using inj k that(2) by (intro filter_cong refl) (auto dest: inj_onD)
    also have "\<dots> = [k]"
      using that(1) k that(2) by (metis (mono_tags, lifting) filter_eq_single)
    finally show ?thesis .
  qed
  with dx dy s show "filter (\<lambda>x. f k = f x) ys = filter (\<lambda>x. f k = f x) xs" by simp
qed

text \<open>\<open>get_writes\<close> is deterministic. When two tasks store their writes for a checkpoint that has
  none yet, what is read back is the writes of the task with the smaller id in the order given,
  then those of the other, whichever of the two stored first.\<close>

theorem get_writes_ordered:
  assumes "t < u" and "writes_key cfg cid = Inr key" and "pget (ms_writes st) key = []"
  shows "ms_get_writes cfg cid (snd (ms_put_writes cfg cid u vs (snd (ms_put_writes cfg cid t ws st)))) =
           Inr (map (\<lambda>(ch, v). (t, ch, v)) ws @ map (\<lambda>(ch, v). (u, ch, v)) vs) \<and>
         ms_get_writes cfg cid (snd (ms_put_writes cfg cid t ws (snd (ms_put_writes cfg cid u vs st)))) =
           Inr (map (\<lambda>(ch, v). (t, ch, v)) ws @ map (\<lambda>(ch, v). (u, ch, v)) vs)"
proof -
  let ?f = "\<lambda>e. (we_task_id e, we_idx e)"
  have p: "pget (ms_writes (snd (ms_put_writes cfg cid x xs st'))) key =
      fold (add_write x) (enumerate 0 xs) (pget (ms_writes st') key)" for x xs and st' :: "'a memory_saver"
    by (simp add: ms_put_writes_def assms(2) pget_def)
  have one: "pget (ms_writes (snd (ms_put_writes cfg cid x xs st))) key = entries_of x 0 xs" for x xs
    using add_writes_fresh [of "[]" x 0 xs] by (simp add: p assms(3))
  have two: "pget (ms_writes (snd (ms_put_writes cfg cid y ys (snd (ms_put_writes cfg cid x xs st))))) key =
      entries_of x 0 xs @ entries_of y 0 ys" if "x \<noteq> y" for x xs y ys
    unfolding p [of y ys] one using that by (intro add_writes_fresh) (auto dest: entries_task)
  have srt: "sort_key ?f es = entries_of t 0 ws @ entries_of u 0 vs"
    if "mset es = mset (entries_of t 0 ws @ entries_of u 0 vs)" for es
    using that sorted_entries [OF assms(1)] by (rule sort_key_unique)
  have "t \<noteq> u" "u \<noteq> t" using assms(1) by auto
  then show ?thesis
    by (simp add: ms_get_writes_def assms(2) two srt entries_values)
qed

lemma get_writes_ordered_witness:
  "ms_get_writes (thread_cfg ''t'' []) ''1''
     (snd (ms_put_writes (thread_cfg ''t'' []) ''1'' ''a'' [(''x'', JNull)]
       (snd (ms_put_writes (thread_cfg ''t'' []) ''1'' ''b'' [(''y'', JNull)] (memory_saver_new :: json memory_saver))))) =
   Inr [(''a'', ''x'', JNull), (''b'', ''y'', JNull)]"
  using get_writes_ordered [of "''a''" "''b''" "thread_cfg ''t'' []" "''1''" "''t::1''" "memory_saver_new :: json memory_saver"
      "[(''y'', JNull)]" "[(''x'', JNull)]"]
  by (simp add: writes_key_def thread_cfg_def default_config_def memory_saver_new_def)

lemma dropWhile_takeWhile_key:
  assumes "distinct (keys (xs @ (a, x) # ys))"
  shows "tl (dropWhile (\<lambda>i. fst i \<noteq> a) (xs @ (a, x) # ys)) = ys"
    and "takeWhile (\<lambda>i. fst i \<noteq> a) (xs @ (a, x) # ys) = xs"
proof -
  have "\<forall>i \<in> set xs. fst i \<noteq> a" using assms by auto
  then show "tl (dropWhile (\<lambda>i. fst i \<noteq> a) (xs @ (a, x) # ys)) = ys"
    and "takeWhile (\<lambda>i. fst i \<noteq> a) (xs @ (a, x) # ys) = xs"
    by (simp_all add: dropWhile_append2 takeWhile_append2)
qed

lemma keys_split:
  assumes "keys l = xs @ ys"
  obtains X Y where "l = X @ Y" "keys X = xs" "keys Y = ys"
  using assms by (auto simp: map_eq_append_conv)

text \<open>paging through the history. Between two checkpoints \<open>after\<close> and \<open>before\<close> of the lineage,
  \<open>list\<close> returns the ids strictly between them in the order stored, and of these the last
  \<open>limit\<close>.\<close>

theorem list_between_cursors:
  assumes "thread_key cfg = Inr key" and "distinct (xs @ a # ys @ b # zs)"
    and "map_of (ms_by_thread st) key = Some list" and "keys list = xs @ a # ys @ b # zs"
  shows "map_sum id keys (ms_list cfg (Some n) (Some b) (Some a) st) = Inr (drop (length ys - n) ys)"
proof -
  let ?l = "map (\<lambda>(i, c). (i, ck_kernel c)) list"
  have k: "keys ?l = xs @ a # ys @ b # zs" using assms(4) by (simp add: split_def o_def)
  then obtain X Y where l: "?l = X @ Y" and X: "keys X = xs" and Y: "keys Y = a # ys @ b # zs"
    by (rule keys_split)
  then obtain m R where Y': "Y = (a, m) # R" and R: "keys R = ys @ b # zs" by (cases Y) auto
  from R obtain P Q where R': "R = P @ Q" and P: "keys P = ys" and Q: "keys Q = b # zs"
    by (rule keys_split)
  then obtain m' T where Q': "Q = (b, m') # T" by (cases Q) auto
  have e: "?l = X @ (a, m) # (P @ (b, m') # T)" using l Y' R' Q' by simp
  have d: "distinct (keys ?l)" using assms(2) k by simp
  have "page_after (Some a) ?l = P @ (b, m') # T"
    using dropWhile_takeWhile_key(1) [of X a m "P @ (b, m') # T"] d unfolding e
    by (simp add: page_after_def)
  moreover have "page_before (Some b) (P @ (b, m') # T) = P"
    using dropWhile_takeWhile_key(2) [of P b m' T] d unfolding e
    by (simp add: page_before_def)
  ultimately have "ms_list cfg (Some n) (Some b) (Some a) st = Inr (drop (length P - n) P)"
    by (simp add: ms_list_def assms(1,3) page_limit_def)
  then show ?thesis using P by (auto simp: drop_map)
qed

lemma list_between_cursors_witness:
  "map_sum id keys (ms_list (thread_cfg ''t'' []) (Some 1) (Some ''4'') (Some ''1'')
     (foldl (\<lambda>st i. snd (ms_put (thread_cfg ''t'' []) (with_id i 0 JNull SrcLoop 0) st)) memory_saver_new
       [''1'', ''2'', ''3'', ''4''])) = Inr [''3'']"
  by (subst list_between_cursors [where key = "''t:''" and xs = "[]" and ys = "[''2'', ''3'']" and zs = "[]"
        and list = "map (\<lambda>i. (i, with_id i 0 JNull SrcLoop 0)) [''1'', ''2'', ''3'', ''4'']"])
    (simp_all add: ms_put_def memory_saver_new_def pget_def with_id_def)

end
