(* ===== verification/Pregel_Runtime.thy ===== *)
theory Pregel_Runtime
  imports Pregel_Resume Pregel_Cache Pregel_Runner Memory_Saver
begin

text \<open>
  \<open>foundation/pregel/src/runtime.rs\<close>: the entry points of the runtime. The world they act on is
  the checkpointer (an in-memory saver, or none), the task cache (or none) and the number of
  checkpoint identifiers drawn; \<open>fresh n\<close> and \<open>now n\<close> are the \<open>n\<close>-th identifier and time. Running a
  step is the argument \<open>exec\<close>: from the number of the step, the node context and the tasks it
  gives the outcomes (\<open>Pregel_Runner\<close> says what they can be) and the subgraph links recorded so
  far. A checkpoint persisted in the background (\<open>Async\<close>) is written where its result is awaited.
  Stream events have no effect on the result and are left out.
\<close>

record 'f runtime =
  rt_graph :: pregel_graph
  rt_config :: "'f pregel_config"
  rt_managed_values :: "(string \<times> json) list"

record world =
  w_saver :: "json memory_saver option"
  w_cache :: "memory_cache option"
  w_drawn :: nat

record drawing =
  dr_fresh :: "nat \<Rightarrow> string"
  dr_now :: "nat \<Rightarrow> nat"

type_synonym exec = "nat \<Rightarrow> node_context \<Rightarrow> prepared_task list \<Rightarrow> task_outcome list \<times> (string \<times> string list) list"

subsection \<open>Checkpointer access\<close>

fun show_checkpoint_err :: "checkpoint_err \<Rightarrow> string" where
  "show_checkpoint_err ThreadIdRequired = ''thread_id required''"
| "show_checkpoint_err (Serialization m) = ''serialization: '' @ m"
| "show_checkpoint_err (Storage m) = ''storage: '' @ m"
| "show_checkpoint_err (NotFound m) = ''not found: '' @ m"

definition checkpoint_error :: "checkpoint_err \<Rightarrow> graph_error" where
  "checkpoint_error e = ExecutionFailed (show_checkpoint_err e)"

definition validate_checkpointer_config :: "json memory_saver option \<Rightarrow> runnable_config \<Rightarrow> unit gresult" where
  "validate_checkpointer_config saver config =
     (if saver \<noteq> None \<and> rc_thread_id config = None then Inl (checkpoint_error ThreadIdRequired) else Inr ())"

definition draw_checkpoint ::
    "drawing \<Rightarrow> json \<Rightarrow> checkpoint_source \<Rightarrow> int \<Rightarrow> world \<Rightarrow> ckpt \<times> world" where
  "draw_checkpoint D st source step w =
     (from_state (dr_fresh D (w_drawn w)) (dr_now D (w_drawn w)) st source step,
      w\<lparr>w_drawn := w_drawn w + 1\<rparr>)"

definition draw_next :: "drawing \<Rightarrow> ckpt \<Rightarrow> checkpoint_source \<Rightarrow> world \<Rightarrow> ckpt \<times> world" where
  "draw_next D current source w =
     (next_checkpoint (dr_fresh D (w_drawn w)) (dr_now D (w_drawn w)) current source,
      w\<lparr>w_drawn := w_drawn w + 1\<rparr>)"

text \<open>\<open>checkpointer.put(config, c).await.map_err(checkpoint_error)\<close>.\<close>

definition put_checkpoint :: "runnable_config \<Rightarrow> ckpt \<Rightarrow> world \<Rightarrow> unit gresult \<times> world" where
  "put_checkpoint config c w =
     (case w_saver w of
        None \<Rightarrow> (Inr (), w)
      | Some s \<Rightarrow>
          (case ms_put config c s of
             (Inl e, s') \<Rightarrow> (Inl (checkpoint_error e), w\<lparr>w_saver := Some s'\<rparr>)
           | (Inr _, s') \<Rightarrow> (Inr (), w\<lparr>w_saver := Some s'\<rparr>)))"

text \<open>The stored checkpoint of the configuration, or one built from the fallback input.\<close>

definition fetch_checkpoint ::
    "drawing \<Rightarrow> runnable_config \<Rightarrow> json \<Rightarrow> world \<Rightarrow> ckpt gresult \<times> world" where
  "fetch_checkpoint D config fallback w =
     (case w_saver w of
        None \<Rightarrow> map_prod Inr id (draw_checkpoint D fallback SrcInput 0 w)
      | Some s \<Rightarrow>
          (case ms_get_tuple config s of
             Inl e \<Rightarrow> (Inl (checkpoint_error e), w)
           | Inr (Some (c, _)) \<Rightarrow> (Inr c, w)
           | Inr None \<Rightarrow> map_prod Inr id (draw_checkpoint D fallback SrcInput 0 w)))"

definition load_checkpoint_or_default ::
    "serde \<Rightarrow> drawing \<Rightarrow> runnable_config \<Rightarrow> json \<Rightarrow> world \<Rightarrow> ckpt gresult \<times> world" where
  "load_checkpoint_or_default S D config fallback w =
     (case validate_checkpointer_config (w_saver w) config of
        Inl e \<Rightarrow> (Inl e, w)
      | Inr _ \<Rightarrow>
          (case w_saver w of
             None \<Rightarrow> map_prod Inr id (draw_checkpoint D fallback SrcInput 0 w)
           | Some s \<Rightarrow>
               (case ms_get_tuple config s of
                  Inl e \<Rightarrow> (Inl (checkpoint_error e), w)
                | Inr (Some (c, _)) \<Rightarrow> (Inr (normalize_checkpoint_frontier S c), w)
                | Inr None \<Rightarrow> map_prod Inr id (draw_checkpoint D fallback SrcInput 0 w))))"

definition persist_checkpoint ::
    "drawing \<Rightarrow> runnable_config \<Rightarrow> (string \<times> string list) list \<Rightarrow> checkpoint_source \<Rightarrow> 'f pregel_loop \<Rightarrow> world
     \<Rightarrow> unit gresult \<times> 'f pregel_loop \<times> world" where
  "persist_checkpoint D config links source l w =
     (if w_saver w = None then (Inr (), l, w)
      else case validate_checkpointer_config (w_saver w) config of
        Inl e \<Rightarrow> (Inl e, l, w)
      | Inr _ \<Rightarrow>
          let l1 = l\<lparr>lp_checkpoint := merge_subgraph_links links (lp_checkpoint l)\<rparr> in
          case draw_next D (lp_checkpoint l1) source w of (c, w1) \<Rightarrow>
          (case put_checkpoint config c w1 of
             (Inl e, w2) \<Rightarrow> (Inl e, l1, w2)
           | (Inr _, w2) \<Rightarrow> (Inr (), l1\<lparr>lp_checkpoint := c\<rparr>, w2)))"

definition persist_raw_checkpoint ::
    "drawing \<Rightarrow> runnable_config \<Rightarrow> ckpt \<Rightarrow> world \<Rightarrow> ckpt gresult \<times> world" where
  "persist_raw_checkpoint D config ck w =
     (if w_saver w = None then (Inr ck, w)
      else case validate_checkpointer_config (w_saver w) config of
        Inl e \<Rightarrow> (Inl e, w)
      | Inr _ \<Rightarrow>
          (case draw_next D ck SrcUpdate w of (c, w1) \<Rightarrow>
             (case put_checkpoint config c w1 of
                (Inl e, w2) \<Rightarrow> (Inl e, w2)
              | (Inr _, w2) \<Rightarrow> (Inr c, w2))))"

definition flush_inflight_checkpoint ::
    "runnable_config \<Rightarrow> ckpt option \<Rightarrow> world \<Rightarrow> unit gresult \<times> world" where
  "flush_inflight_checkpoint config inflight w =
     (case inflight of None \<Rightarrow> (Inr (), w) | Some c \<Rightarrow> put_checkpoint config c w)"

subsection \<open>Starting a run\<close>

definition init_loop ::
    "serde \<Rightarrow> drawing \<Rightarrow> 'f runtime \<Rightarrow> json \<Rightarrow> runnable_config \<Rightarrow> world \<Rightarrow> 'f pregel_loop gresult \<times> world" where
  "init_loop S D rt input config w =
     (case and_then (validate_with_config (rt_graph rt) (rt_config rt))
                    (validate_checkpointer_config (w_saver w) config) of
        Inl e \<Rightarrow> (Inl e, w)
      | Inr _ \<Rightarrow>
          (case fetch_checkpoint D config input w of
             (Inl e, w1) \<Rightarrow> (Inl e, w1)
           | (Inr ck0, w1) \<Rightarrow>
               let ck = normalize_checkpoint_frontier S ck0;
                   m = resume_map_from_sources S config ck;
                   consumed = consumed_interrupt_ids (pending_interrupts_from_checkpoint S ck) m;
                   l = loop_new (rt_graph rt) (rc_checkpoint_ns config) ck
                         (restore_channels_from_checkpoint ck (rt_graph rt)) (rt_config rt)
               in (Inr (l\<lparr>lp_interrupts := (lp_interrupts l)
                     \<lparr>is_resume_values := (if consumed = {} then [] else resume_values m),
                      is_consumed := consumed\<rparr>\<rparr>), w1)))"

subsection \<open>Running\<close>

type_synonym 'f run_state = "'f pregel_loop \<times> world \<times> ckpt option"

text \<open>What follows a committed step, by durability.\<close>

definition after_commit ::
    "drawing \<Rightarrow> 'f runtime \<Rightarrow> runnable_config \<Rightarrow> (string \<times> string list) list \<Rightarrow> 'f run_state
     \<Rightarrow> unit gresult \<times> 'f run_state" where
  "after_commit D rt config links st =
     (case st of (l, w, inflight) \<Rightarrow>
        (case cf_durability (rt_config rt) of
           Sync \<Rightarrow>
             (case persist_checkpoint D config links SrcLoop l w of
                (r, l', w') \<Rightarrow> (r, l', w', inflight))
         | Async \<Rightarrow>
             (case flush_inflight_checkpoint config inflight w of
                (Inl e, w1) \<Rightarrow> (Inl e, l, w1, None)
              | (Inr _, w1) \<Rightarrow>
                  (if w_saver w1 = None then (Inr (), l, w1, None)
                   else case draw_next D (lp_checkpoint l) SrcLoop w1 of
                          (c, w2) \<Rightarrow> (Inr (), l, w2, Some c)))
         | Exit \<Rightarrow> (Inr (), st)))"

text \<open>One turn of the loop: \<open>Inr False\<close> ends it, \<open>Inr True\<close> goes on.\<close>

definition run_turn ::
    "serde \<Rightarrow> (nat list \<Rightarrow> nat) \<Rightarrow> drawing \<Rightarrow> exec \<Rightarrow> 'f runtime \<Rightarrow> runnable_config \<Rightarrow> node_context \<Rightarrow> nat
     \<Rightarrow> 'f run_state \<Rightarrow> bool gresult \<times> 'f run_state" where
  "run_turn S sip D exec rt config ctx n st =
     (case st of (l, w, inflight) \<Rightarrow>
        (case tick S sip l of
           (Inl e, l1) \<Rightarrow> (Inl e, l1, w, inflight)
         | (Inr None, l1) \<Rightarrow> (Inr False, l1, w, inflight)
         | (Inr (Some tasks), l1) \<Rightarrow>
             let tasks1 = attach_cached_writes sip (w_cache w) tasks (lp_checkpoint l1) config in
             (case exec n ctx tasks1 of (outs, links) \<Rightarrow>
                let w1 = w\<lparr>w_cache := store_successful_task_writes sip outs config (w_cache w)\<rparr> in
                (case after_tick S outs l1 of
                   (Inl e, l2) \<Rightarrow> (Inl e, l2, w1, inflight)
                 | (Inr _, l2) \<Rightarrow>
                     let l3 = l2\<lparr>lp_checkpoint := merge_subgraph_links links (lp_checkpoint l2)\<rparr> in
                     (case after_commit D rt config links (l3, w1, inflight) of
                        (Inl e, st') \<Rightarrow> (Inl e, st')
                      | (Inr _, st') \<Rightarrow> (Inr True, st'))))))"

fun run_loop ::
    "serde \<Rightarrow> (nat list \<Rightarrow> nat) \<Rightarrow> drawing \<Rightarrow> exec \<Rightarrow> 'f runtime \<Rightarrow> runnable_config \<Rightarrow> node_context \<Rightarrow> nat
     \<Rightarrow> nat \<Rightarrow> 'f run_state \<Rightarrow> (unit gresult \<times> 'f run_state) option" where
  "run_loop S sip D exec rt config ctx 0 n st = None"
| "run_loop S sip D exec rt config ctx (Suc fuel) n st =
     (case run_turn S sip D exec rt config ctx n st of
        (Inl e, st') \<Rightarrow> Some (Inl e, st')
      | (Inr False, st') \<Rightarrow> Some (Inr (), st')
      | (Inr True, st') \<Rightarrow> run_loop S sip D exec rt config ctx fuel (n + 1) st')"

text \<open>The end of the inner block: finish the channels and write what is still to be written.\<close>

definition finish_run ::
    "drawing \<Rightarrow> 'f runtime \<Rightarrow> runnable_config \<Rightarrow> (string \<times> string list) list \<Rightarrow> 'f run_state
     \<Rightarrow> unit gresult \<times> 'f run_state" where
  "finish_run D rt config links st =
     (case st of (l, w, inflight) \<Rightarrow>
        let l1 = l\<lparr>lp_channels := finish_channels (lp_channels l)\<rparr> in
        (case cf_durability (rt_config rt) of
           Sync \<Rightarrow> (Inr (), l1, w, inflight)
         | Async \<Rightarrow> (case flush_inflight_checkpoint config inflight w of (r, w1) \<Rightarrow> (r, l1, w1, None))
         | Exit \<Rightarrow> (case persist_checkpoint D config links SrcLoop l1 w of (r, l2, w1) \<Rightarrow> (r, l2, w1, inflight))))"

text \<open>The result of the run: an error first flushes, then persists what can be recovered.\<close>

definition conclude_run ::
    "drawing \<Rightarrow> runnable_config \<Rightarrow> (string \<times> string list) list \<Rightarrow> unit gresult \<Rightarrow> 'f run_state
     \<Rightarrow> json gresult \<times> world" where
  "conclude_run D config links r st =
     (case st of (l, w, inflight) \<Rightarrow>
        (case r of
           Inr _ \<Rightarrow> (Inr (final_output l), w)
         | Inl e \<Rightarrow>
             (case flush_inflight_checkpoint config inflight w of
                (Inl e', w1) \<Rightarrow> (Inl e', w1)
              | (Inr _, w1) \<Rightarrow>
                  (if is_interrupt e \<or> checkpoint_has_recoverable_progress (lp_checkpoint l) then
                     (case persist_checkpoint D config links SrcLoop l w1 of
                        (Inl e', _, w2) \<Rightarrow> (Inl e', w2)
                      | (Inr _, _, w2) \<Rightarrow> (Inl e, w2))
                   else (Inl e, w1)))))"

definition node_context_for ::
    "serde \<Rightarrow> 'f runtime \<Rightarrow> runnable_config \<Rightarrow> ckpt \<Rightarrow> node_context" where
  "node_context_for S rt config ck =
     \<lparr>nc_managed_values = rt_managed_values rt,
      nc_pending_interrupts = pending_interrupts_from_checkpoint S ck,
      nc_resume_map = resume_map_from_sources S config ck\<rparr>"

text \<open>\<open>invoke\<close>. The fuel is the number of steps left plus one; \<open>None\<close> would mean that it does not
  suffice. \<open>links\<close> are the subgraph links recorded when the run ends.\<close>

definition invoke ::
    "serde \<Rightarrow> (nat list \<Rightarrow> nat) \<Rightarrow> drawing \<Rightarrow> exec \<Rightarrow> (string \<times> string list) list \<Rightarrow> 'f runtime \<Rightarrow> json
     \<Rightarrow> runnable_config \<Rightarrow> world \<Rightarrow> (json gresult \<times> world) option" where
  "invoke S sip D exec links rt input config w =
     (case init_loop S D rt input config w of
        (Inl e, w1) \<Rightarrow> Some (Inl e, w1)
      | (Inr l, w1) \<Rightarrow>
          (case run_loop S sip D exec rt config (node_context_for S rt config (lp_checkpoint l))
                  (Suc (unat (lp_stop l) - unat (lp_step l))) 0 (l, w1, None) of
             None \<Rightarrow> None
           | Some (Inl e, st) \<Rightarrow> Some (conclude_run D config links (Inl e) st)
           | Some (Inr _, st) \<Rightarrow>
               (case finish_run D rt config links st of
                  (r, st') \<Rightarrow> Some (conclude_run D config links r st'))))"

subsection \<open>Reading and updating state\<close>

definition get_state ::
    "serde \<Rightarrow> runnable_config \<Rightarrow> world \<Rightarrow> state_snapshot option gresult" where
  "get_state S config w =
     (case w_saver w of
        None \<Rightarrow> Inr None
      | Some s \<Rightarrow>
          (case validate_checkpointer_config (w_saver w) config of
             Inl e \<Rightarrow> Inl e
           | Inr _ \<Rightarrow>
               (case ms_get_tuple config s of
                  Inl e \<Rightarrow> Inl (checkpoint_error e)
                | Inr r \<Rightarrow> Inr (map_option (\<lambda>(c, _). from_checkpoint S (normalize_checkpoint_frontier S c)) r))))"

definition get_state_history ::
    "runnable_config \<Rightarrow> nat option \<Rightarrow> string option \<Rightarrow> string option \<Rightarrow> world
     \<Rightarrow> (string \<times> kernel_metadata) list gresult" where
  "get_state_history config limit before after w =
     (case w_saver w of
        None \<Rightarrow> Inr []
      | Some s \<Rightarrow>
          (case validate_checkpointer_config (w_saver w) config of
             Inl e \<Rightarrow> Inl e
           | Inr _ \<Rightarrow> map_sum checkpoint_error id (ms_list config limit before after s)))"

fun update_tasks ::
    "pregel_graph \<Rightarrow> u64 \<Rightarrow> nat \<Rightarrow> update_request list \<Rightarrow> executable_task list gresult" where
  "update_tasks g step i [] = Inr []"
| "update_tasks g step i (r # rs) =
     (case synthetic_update_task i step r g of
        Inl e \<Rightarrow> Inl e
      | Inr t \<Rightarrow> (case update_tasks g step (i + 1) rs of Inl e \<Rightarrow> Inl e | Inr ts \<Rightarrow> Inr (t # ts)))"

definition apply_update ::
    "serde \<Rightarrow> pregel_graph \<Rightarrow> executable_task list \<Rightarrow> ckpt \<Rightarrow> ckpt" where
  "apply_update S g tasks ck =
     (case apply_writes S next_channel_version g tasks (ck, restore_channels_from_checkpoint ck g) of
        (updated, ck1, _) \<Rightarrow>
          let ck2 = normalize_checkpoint_frontier S
                (ck1\<lparr>ck_pending_sends := ck_pending_sends ck @ ck_pending_sends ck1,
                     ck_pending_writes := ck_pending_writes ck @ ck_pending_writes ck1\<rparr>)
          in ck2\<lparr>ck_updated_channels := Some updated,
                 ck_kernel := (ck_kernel ck2)\<lparr>km_step := max (km_step (ck_kernel ck2)) 0 + 1\<rparr>\<rparr>)"

definition bulk_update_state ::
    "serde \<Rightarrow> drawing \<Rightarrow> 'f runtime \<Rightarrow> runnable_config \<Rightarrow> update_request list \<Rightarrow> world
     \<Rightarrow> state_snapshot gresult \<times> world" where
  "bulk_update_state S D rt config updates w =
     (case validate_checkpointer_config (w_saver w) config of
        Inl e \<Rightarrow> (Inl e, w)
      | Inr _ \<Rightarrow>
          (case load_checkpoint_or_default S D config (json_object []) w of
             (Inl e, w1) \<Rightarrow> (Inl e, w1)
           | (Inr ck, w1) \<Rightarrow>
               (case update_tasks (rt_graph rt) (step_of_int (km_step (ck_kernel ck))) 0 updates of
                  Inl e \<Rightarrow> (Inl e, w1)
                | Inr tasks \<Rightarrow>
                    (case persist_raw_checkpoint D config (apply_update S (rt_graph rt) tasks ck) w1 of
                       (Inl e, w2) \<Rightarrow> (Inl e, w2)
                     | (Inr c, w2) \<Rightarrow> (Inr (from_checkpoint S c), w2)))))"

definition update_state ::
    "serde \<Rightarrow> drawing \<Rightarrow> 'f runtime \<Rightarrow> runnable_config \<Rightarrow> update_request \<Rightarrow> world
     \<Rightarrow> state_snapshot gresult \<times> world" where
  "update_state S D rt config request w = bulk_update_state S D rt config [request] w"

definition clear_cache :: "world \<Rightarrow> world" where
  "clear_cache w = w\<lparr>w_cache := map_option cache_clear (w_cache w)\<rparr>"

definition clear_cache_for_nodes :: "string list \<Rightarrow> world \<Rightarrow> world" where
  "clear_cache_for_nodes ns w = w\<lparr>w_cache := map_option (cache_clear_nodes ns) (w_cache w)\<rparr>"

subsection \<open>Replay and fork\<close>

datatype replay_mode =
    InspectCheckpoint string
  | ResumeFromCheckpoint string
  | ForkFromCheckpoint string

definition in_namespace :: "string option \<Rightarrow> runnable_config \<Rightarrow> runnable_config" where
  "in_namespace namespace config =
     (case namespace of Some n \<Rightarrow> config\<lparr>rc_checkpoint_ns := n\<rparr> | None \<Rightarrow> config)"

text \<open>The stored checkpoint a replay starts from; \<open>Inr None\<close> when there is none.\<close>

definition source_checkpoint ::
    "serde \<Rightarrow> runnable_config \<Rightarrow> json memory_saver \<Rightarrow> ckpt option gresult" where
  "source_checkpoint S config s =
     (case ms_get_tuple config s of
        Inl e \<Rightarrow> Inl (checkpoint_error e)
      | Inr r \<Rightarrow> Inr (map_option (\<lambda>(c, _). normalize_checkpoint_frontier S c) r))"

definition add_child :: "string \<Rightarrow> string \<Rightarrow> ckpt \<Rightarrow> ckpt" where
  "add_child namespace child ck =
     ck\<lparr>ck_kernel := (ck_kernel ck)\<lparr>km_children :=
          (let cs = pget (km_children (ck_kernel ck)) namespace
           in AList.update namespace (if child \<in> set cs then cs else cs @ [child])
                (km_children (ck_kernel ck)))\<rparr>\<rparr>"

definition fork_checkpoint ::
    "serde \<Rightarrow> drawing \<Rightarrow> runnable_config \<Rightarrow> string option \<Rightarrow> string \<Rightarrow> world
     \<Rightarrow> state_snapshot option gresult \<times> world" where
  "fork_checkpoint S D config namespace cid w =
     (case w_saver w of
        None \<Rightarrow> (Inr None, w)
      | Some s \<Rightarrow>
          let source_config = in_namespace namespace config in
          (case validate_checkpointer_config (w_saver w) source_config of
             Inl e \<Rightarrow> (Inl e, w)
           | Inr _ \<Rightarrow>
               (case source_checkpoint S (source_config\<lparr>rc_checkpoint_id := Some cid\<rparr>) s of
                  Inl e \<Rightarrow> (Inl e, w)
                | Inr None \<Rightarrow> (Inr None, w)
                | Inr (Some ck) \<Rightarrow>
                    let n = w_drawn w;
                        forked = fork_from (dr_fresh D n) (dr_now D n) ck (rc_checkpoint_ns source_config) cid;
                        ck1 = add_child (rc_checkpoint_ns config) (ck_id forked) ck
                    in (case put_checkpoint (source_config\<lparr>rc_checkpoint_id := Some cid\<rparr>) ck1
                               (w\<lparr>w_drawn := n + 1\<rparr>) of
                          (Inl e, w1) \<Rightarrow> (Inl e, w1)
                        | (Inr _, w1) \<Rightarrow>
                            (case put_checkpoint config forked w1 of
                               (Inl e, w2) \<Rightarrow> (Inl e, w2)
                             | (Inr _, w2) \<Rightarrow> (Inr (Some (from_checkpoint S forked)), w2))))))"

definition replay ::
    "serde \<Rightarrow> (nat list \<Rightarrow> nat) \<Rightarrow> drawing \<Rightarrow> exec \<Rightarrow> (string \<times> string list) list \<Rightarrow> 'f runtime
     \<Rightarrow> runnable_config \<Rightarrow> replay_mode \<Rightarrow> string option \<Rightarrow> world
     \<Rightarrow> ((state_snapshot \<times> bool) option gresult \<times> world) option" where
  "replay S sip D exec links rt config mode namespace w =
     (case mode of
        InspectCheckpoint cid \<Rightarrow>
          Some (map_sum id (map_option (\<lambda>s. (s, False)))
                  (get_state S ((in_namespace namespace config)\<lparr>rc_checkpoint_id := Some cid\<rparr>) w), w)
      | ResumeFromCheckpoint cid \<Rightarrow>
          (let replay_config = (in_namespace namespace config)\<lparr>rc_checkpoint_id := Some cid\<rparr> in
           case w_saver w of
             None \<Rightarrow> Some (Inr None, w)
           | Some s \<Rightarrow>
               (case validate_checkpointer_config (w_saver w) replay_config of
                  Inl e \<Rightarrow> Some (Inl e, w)
                | Inr _ \<Rightarrow>
                    (case source_checkpoint S replay_config s of
                       Inl e \<Rightarrow> Some (Inl e, w)
                     | Inr None \<Rightarrow> Some (Inr None, w)
                     | Inr (Some ck) \<Rightarrow>
                         (case invoke S sip D exec links rt (ck_channel_values ck) replay_config w of
                            None \<Rightarrow> None
                          | Some (Inl e, w1) \<Rightarrow> Some (Inl e, w1)
                          | Some (Inr _, w1) \<Rightarrow>
                              Some (map_sum id (map_option (\<lambda>s. (s, False)))
                                      (get_state S (replay_config\<lparr>rc_checkpoint_id := None\<rparr>) w1), w1)))))
      | ForkFromCheckpoint cid \<Rightarrow>
          Some (map_prod (map_sum id (map_option (\<lambda>s. (s, True)))) id (fork_checkpoint S D config namespace cid w)))"

end
