(* ===== verification/Pregel_Runtime_Facts.thy ===== *)
theory Pregel_Runtime_Facts
  imports Pregel_Runtime
begin

text \<open>
  What the entry points of \<open>Pregel_Runtime\<close> guarantee: a run always ends, its checkpoints are where
  a later run finds them, a runtime with a checkpointer but no thread id does nothing, forks leave
  their source alone, and state updates are read back as they were returned.
\<close>

subsection \<open>Termination\<close>

lemma commit_step_fixed:
  "lp_stop (commit_step S outs l) = lp_stop l" "lp_step (commit_step S outs l) = lp_step l + 1"
  by (auto simp: commit_step_def Let_def split: prod.splits)

lemma after_tick_ok_step:
  "after_tick S outs l = (Inr u, l') \<Longrightarrow> lp_step l' = lp_step l + 1 \<and> lp_stop l' = lp_stop l"
  by (auto simp: after_tick_def Let_def commit_step_fixed split: list.splits option.splits if_splits)

lemma tick_ok_tasks:
  "tick S sip l = (Inr (Some ts), l') \<Longrightarrow> l' = l \<and> lp_step l < lp_stop l"
  by (auto simp: tick_def Let_def not_le split: if_splits list.splits)

lemma persist_loop_fixed:
  "persist_checkpoint D config links source l w = (r, l', w') \<Longrightarrow>
     lp_step l' = lp_step l \<and> lp_stop l' = lp_stop l"
  by (auto simp: persist_checkpoint_def Let_def split: if_splits sum.splits prod.splits)

lemma after_commit_fixed:
  "after_commit D rt config links (l, w, inflight) = (r, l', w', inflight') \<Longrightarrow>
     lp_step l' = lp_step l \<and> lp_stop l' = lp_stop l"
  by (auto simp: after_commit_def persist_loop_fixed split: durability.splits sum.splits prod.splits if_splits)

lemma run_turn_step:
  assumes "run_turn S sip D exec rt config ctx n (l, w, inflight) = (Inr True, l', w', inflight')"
  shows "lp_step l < lp_stop l \<and> lp_step l' = lp_step l + 1 \<and> lp_stop l' = lp_stop l"
proof -
  obtain r l1 where t: "tick S sip l = (r, l1)" by (cases "tick S sip l")
  with assms obtain ts where r: "r = Inr (Some ts)"
    by (cases r) (auto simp: run_turn_def split: option.splits)
  then have l1: "l1 = l" "lp_step l < lp_stop l" using t tick_ok_tasks by blast+
  define tasks1 where "tasks1 = attach_cached_writes sip (w_cache w) ts (lp_checkpoint l) config"
  obtain outs links where e: "exec n ctx tasks1 = (outs, links)" by (cases "exec n ctx tasks1")
  obtain r2 l2 where a: "after_tick S outs l = (r2, l2)" by (cases "after_tick S outs l")
  define w1 where "w1 = w\<lparr>w_cache := store_successful_task_writes sip outs config (w_cache w)\<rparr>"
  define l3 where "l3 = l2\<lparr>lp_checkpoint := merge_subgraph_links links (lp_checkpoint l2)\<rparr>"
  obtain r4 l4 w4 i4 where c: "after_commit D rt config links (l3, w1, inflight) = (r4, l4, w4, i4)"
    by (cases "after_commit D rt config links (l3, w1, inflight)")
  have eq: "run_turn S sip D exec rt config ctx n (l, w, inflight) =
      (case r2 of Inl e \<Rightarrow> (Inl e, l2, w1, inflight)
       | Inr _ \<Rightarrow> (case r4 of Inl e \<Rightarrow> (Inl e, l4, w4, i4) | Inr _ \<Rightarrow> (Inr True, l4, w4, i4)))"
    unfolding run_turn_def
    by (simp add: t r l1(1) Let_def e a c tasks1_def [symmetric] w1_def [symmetric] l3_def [symmetric]
        split: sum.splits)
  with assms obtain u where "r2 = Inr u" "l' = l4" by (auto split: sum.splits)
  with a after_tick_ok_step have "lp_step l2 = lp_step l + 1" "lp_stop l2 = lp_stop l" by blast+
  moreover have "lp_step l4 = lp_step l3 \<and> lp_stop l4 = lp_stop l3" by (rule after_commit_fixed [OF c])
  ultimately show ?thesis using l1 \<open>l' = l4\<close> by (simp add: l3_def)
qed

lemma u64_less_succ: "(a :: u64) < b \<Longrightarrow> unat (a + 1) = unat a + 1 \<and> unat a < unat b"
proof -
  assume "a < b"
  then have l: "unat a < unat b" by (simp add: word_less_nat_alt)
  then have "unat a + 1 < 2 ^ 64" using unsigned_less [of b, where 'a = nat] by simp
  then show ?thesis using l by (simp add: unat_word_ariths)
qed

lemma run_loop_fuel:
  assumes "unat (lp_stop l) - unat (lp_step l) < fuel"
  shows "run_loop S sip D exec rt config ctx fuel n (l, w, inflight) \<noteq> None"
  using assms
proof (induction fuel arbitrary: n l w inflight)
  case (Suc fuel)
  obtain r l' w' i' where t: "run_turn S sip D exec rt config ctx n (l, w, inflight) = (r, l', w', i')"
    by (cases "run_turn S sip D exec rt config ctx n (l, w, inflight)")
  show ?case
  proof (cases "r = Inr True")
    case True
    then have s: "lp_step l < lp_stop l" "lp_step l' = lp_step l + 1" "lp_stop l' = lp_stop l"
      using run_turn_step t by blast+
    with u64_less_succ [OF s(1)] Suc.prems have "unat (lp_stop l') - unat (lp_step l') < fuel"
      by (simp add: diff_less_Suc less_diff_conv2)
    from Suc.IH [OF this] show ?thesis by (simp add: t True)
  next
    case False
    then show ?thesis by (cases r) (auto simp: t split: bool.splits)
  qed
qed simp

text \<open>C4: every run ends. Whatever the nodes answer and however the graph loops, \<open>invoke\<close> returns:
  a turn that goes on has advanced the step by one below the step limit, so the number of steps
  left plus one turns suffice.\<close>

theorem invoke_returns: "invoke S sip D exec links rt input config w \<noteq> None"
proof (cases "init_loop S D rt input config w")
  case (Pair r w1)
  show ?thesis
  proof (cases r)
    case (Inl e)
    with Pair show ?thesis by (simp add: invoke_def)
  next
    case (Inr l)
    have "run_loop S sip D exec rt config (node_context_for S rt config (lp_checkpoint l))
        (Suc (unat (lp_stop l) - unat (lp_step l))) 0 (l, w1, None) \<noteq> None"
      by (rule run_loop_fuel) simp
    with Pair Inr show ?thesis
      by (auto simp: invoke_def split: sum.splits prod.splits)
  qed
qed

subsection \<open>Checkpoints\<close>

lemma frontier_idem:
  assumes "serde_ok S"
  shows "normalize_checkpoint_frontier S (normalize_checkpoint_frontier S ck) = normalize_checkpoint_frontier S ck"
  by (simp add: normalize_checkpoint_frontier_def normalize_sends_idem [OF assms] normalize_writes_idem)

lemma get_state_saved:
  assumes "w_saver w = Some s" "rc_thread_id config = Some t" "ms_get_tuple config s = Inr (Some (c, k))"
  shows "get_state S config w = Inr (Some (from_checkpoint S (normalize_checkpoint_frontier S c)))"
  using assms by (simp add: get_state_def validate_checkpointer_config_def)

lemma thread_part: "rc_thread_id config = Some t \<Longrightarrow> ms_part config = Some (t @ '':'' @ rc_checkpoint_ns config)"
  by (simp add: ms_part_Some thread_key_def)

text \<open>what a run persists is what is read back. After a successful \<open>persist_checkpoint\<close> under a
  new identifier, the latest state of the run is the snapshot of the loop's checkpoint, and the loop
  goes on with exactly that checkpoint.\<close>

theorem persisted_state_is_latest:
  assumes "w_saver w = Some s" and "rc_thread_id config = Some t"
    and "dr_fresh D (w_drawn w) \<notin> set (ms_ids (t @ '':'' @ rc_checkpoint_ns config) s)"
  shows "case persist_checkpoint D config links source l w of (r, l', w') \<Rightarrow>
     r = Inr () \<and> ck_id (lp_checkpoint l') = dr_fresh D (w_drawn w) \<and>
     get_state S (config\<lparr>rc_checkpoint_id := None\<rparr>) w' =
       Inr (Some (from_checkpoint S (normalize_checkpoint_frontier S (lp_checkpoint l')))) \<and>
     from_checkpoint S (lp_checkpoint l') =
       (from_checkpoint S (merge_subgraph_links links (lp_checkpoint l)))\<lparr>ss_checkpoint_id := dr_fresh D (w_drawn w)\<rparr>"
proof -
  define c where "c = next_checkpoint (dr_fresh D (w_drawn w)) (dr_now D (w_drawn w))
      (merge_subgraph_links links (lp_checkpoint l)) source"
  have id: "ck_id c = dr_fresh D (w_drawn w)" by (simp add: c_def next_checkpoint_def from_state_def Let_def)
  have p: "ms_part config = Some (t @ '':'' @ rc_checkpoint_ns config)" by (rule thread_part [OF assms(2)])
  have p': "ms_part (config\<lparr>rc_checkpoint_id := None\<rparr>) = Some (t @ '':'' @ rc_checkpoint_ns config)"
    using assms(2) thread_part [of "config\<lparr>rc_checkpoint_id := None\<rparr>" t] by simp
  have r: "fst (ms_put config c s) = Inr (ck_id c)" by (rule ms.put_result [OF p])
  then obtain s' where put: "ms_put config c s = (Inr (ck_id c), s')" by (cases "ms_put config c s") simp
  have "ms_get_tuple (config\<lparr>rc_checkpoint_id := None\<rparr>) (snd (ms_put config c s)) = Inr (Some (c, ck_kernel c))"
    using assms(3) id by (intro ms.get_put_latest [OF p p']) simp_all
  then have g: "ms_get_tuple (config\<lparr>rc_checkpoint_id := None\<rparr>) s' = Inr (Some (c, ck_kernel c))"
    by (simp add: put)
  have snap: "from_checkpoint S c =
      (from_checkpoint S (merge_subgraph_links links (lp_checkpoint l)))\<lparr>ss_checkpoint_id := dr_fresh D (w_drawn w)\<rparr>"
    unfolding c_def by (simp add: from_checkpoint_def next_checkpoint_def from_state_def Let_def)
  have e: "persist_checkpoint D config links source l w =
      (Inr (), l\<lparr>lp_checkpoint := c\<rparr>, w\<lparr>w_drawn := w_drawn w + 1, w_saver := Some s'\<rparr>)"
    using assms(1,2) put
    by (simp add: persist_checkpoint_def validate_checkpointer_config_def draw_next_def put_checkpoint_def
        Let_def c_def)
  show ?thesis
    using get_state_saved [OF _ _ g, of "w\<lparr>w_drawn := w_drawn w + 1, w_saver := Some s'\<rparr>" t S] assms(2) snap id
    by (simp add: e)
qed

text \<open>a checkpointer needs a thread. With a checkpointer and no thread id every entry point
  returns an error and leaves the checkpointer, the cache and the identifier counter as they were.\<close>

theorem no_thread_no_effect:
  assumes "w_saver w \<noteq> None" and "rc_thread_id config = None"
  shows "(\<exists>e. invoke S sip D exec links rt input config w = Some (Inl e, w)) \<and>
         (\<exists>e. bulk_update_state S D rt config updates w = (Inl e, w)) \<and>
         (\<exists>e. get_state S config w = Inl e) \<and> (\<exists>e. fork_checkpoint S D config None cid w = (Inl e, w))"
proof -
  have v: "validate_checkpointer_config (w_saver w) config = Inl (checkpoint_error ThreadIdRequired)"
    using assms by (simp add: validate_checkpointer_config_def)
  have "\<exists>e. init_loop S D rt input config w = (Inl e, w)"
    by (cases "validate_with_config (rt_graph rt) (rt_config rt)") (auto simp: init_loop_def v and_then_def)
  moreover obtain s where s: "w_saver w = Some s" using assms(1) by blast
  moreover have "validate_checkpointer_config (Some s) config = Inl (checkpoint_error ThreadIdRequired)"
    using v s by simp
  ultimately show ?thesis
    by (auto simp: invoke_def bulk_update_state_def get_state_def fork_checkpoint_def in_namespace_def v Let_def)
qed

definition ex_world :: world where
  "ex_world = \<lparr>w_saver = Some memory_saver_new, w_cache = None, w_drawn = 0\<rparr>"

definition ex_drawing :: drawing where
  "ex_drawing = \<lparr>dr_fresh = show_nat, dr_now = (\<lambda>n. n)\<rparr>"

definition ex_runtime :: "unit runtime" where
  "ex_runtime = \<lparr>rt_graph = one_node_graph, rt_config = default_pregel_config, rt_managed_values = []\<rparr>"

lemma no_thread_no_effect_witness:
  "\<exists>e. invoke (derived_serde (\<lambda>_. [])) (\<lambda>_. 0) ex_drawing (\<lambda>_ _ _. ([], [])) [] ex_runtime JNull default_config ex_world =
     Some (Inl e, ex_world)"
  using no_thread_no_effect [of ex_world default_config "derived_serde (\<lambda>_. [])" "\<lambda>_. 0" ex_drawing
      "\<lambda>_ _ _. ([], [])" "[]" ex_runtime JNull "[]" "[]"]
  by (simp add: ex_world_def default_config_def)

lemma persisted_state_is_latest_witness:
  "case persist_checkpoint ex_drawing (thread_cfg ''t'' []) [] SrcLoop (ex_loop [] []) ex_world of (r, l', w') \<Rightarrow>
     get_state (derived_serde (\<lambda>_. [])) ((thread_cfg ''t'' [])\<lparr>rc_checkpoint_id := None\<rparr>) w' =
       Inr (Some (from_checkpoint (derived_serde (\<lambda>_. []))
         (normalize_checkpoint_frontier (derived_serde (\<lambda>_. [])) (lp_checkpoint l'))))"
proof -
  have "w_saver ex_world = Some memory_saver_new" "rc_thread_id (thread_cfg ''t'' []) = Some ''t''"
    "dr_fresh ex_drawing (w_drawn ex_world) \<notin>
       set (ms_ids (''t'' @ '':'' @ rc_checkpoint_ns (thread_cfg ''t'' [])) (memory_saver_new :: json memory_saver))"
    by (simp_all add: ex_world_def thread_cfg_def default_config_def ms_ids_def memory_saver_new_def)
  from persisted_state_is_latest [OF this, where links = "[]" and source = SrcLoop and l = "ex_loop [] []"
      and S = "derived_serde (\<lambda>_. [])"]
  show ?thesis by (auto split: prod.splits)
qed

subsection \<open>State updates\<close>

lemma apply_update_normal:
  "serde_ok S \<Longrightarrow> normalize_checkpoint_frontier S (apply_update S g tasks ck) = apply_update S g tasks ck"
  by (simp add: apply_update_def Let_def normalize_checkpoint_frontier_def normalize_sends_idem
      normalize_writes_idem split: prod.splits)

lemma next_checkpoint_frontier:
  "normalize_checkpoint_frontier S (next_checkpoint i n c src) =
     next_checkpoint i n (normalize_checkpoint_frontier S c) src"
  by (simp add: normalize_checkpoint_frontier_def next_checkpoint_def from_state_def Let_def)

text \<open>update, then read. When a state update succeeds with a checkpointer and draws a new
  identifier, reading the latest state of that thread and namespace gives exactly the snapshot the
  update returned.\<close>

theorem update_then_get:
  assumes "serde_ok S" and "w_saver w = Some s" and "rc_thread_id config = Some t"
    and "bulk_update_state S D rt config updates w = (Inr snapshot, w')"
    and "\<And>n. dr_fresh D n \<notin> set (ms_ids (t @ '':'' @ rc_checkpoint_ns config) s)"
  shows "get_state S (config\<lparr>rc_checkpoint_id := None\<rparr>) w' = Inr (Some snapshot)"
proof -
  have v: "validate_checkpointer_config (Some x) config = Inr ()" for x
    using assms(3) by (simp add: validate_checkpointer_config_def)
  obtain r1 w1 where l: "load_checkpoint_or_default S D config (json_object []) w = (r1, w1)"
    by (cases "load_checkpoint_or_default S D config (json_object []) w")
  have s1: "w_saver w1 = Some s"
    using l assms(2) by (auto simp: load_checkpoint_or_default_def v draw_checkpoint_def map_prod_def
        split: sum.splits option.splits prod.splits)
  obtain ck tasks where r1: "r1 = Inr ck"
    and ts: "update_tasks (rt_graph rt) (step_of_int (km_step (ck_kernel ck))) 0 updates = Inr tasks"
    using assms(4) by (auto simp: bulk_update_state_def assms(2) v l split: sum.splits)
  define a where "a = apply_update S (rt_graph rt) tasks ck"
  define c where "c = next_checkpoint (dr_fresh D (w_drawn w1)) (dr_now D (w_drawn w1)) a SrcUpdate"
  obtain s' where put: "ms_put config c s = (Inr (ck_id c), s')"
    using ms.put_result [OF thread_part [OF assms(3)], of c s] by (cases "ms_put config c s") auto
  have b: "snapshot = from_checkpoint S c" "w' = w1\<lparr>w_drawn := w_drawn w1 + 1, w_saver := Some s'\<rparr>"
    using assms(4)
    by (simp_all add: bulk_update_state_def assms(2) v l r1 ts persist_raw_checkpoint_def s1 draw_next_def
        put_checkpoint_def put a_def [symmetric] c_def [symmetric])
  have id: "ck_id c = dr_fresh D (w_drawn w1)" by (simp add: c_def next_checkpoint_def from_state_def Let_def)
  have p': "ms_part (config\<lparr>rc_checkpoint_id := None\<rparr>) = Some (t @ '':'' @ rc_checkpoint_ns config)"
    using assms(3) thread_part [of "config\<lparr>rc_checkpoint_id := None\<rparr>" t] by simp
  have "ms_get_tuple (config\<lparr>rc_checkpoint_id := None\<rparr>) (snd (ms_put config c s)) = Inr (Some (c, ck_kernel c))"
    using assms(5) id by (intro ms.get_put_latest [OF thread_part [OF assms(3)] p']) simp_all
  then have "get_state S (config\<lparr>rc_checkpoint_id := None\<rparr>) w' =
      Inr (Some (from_checkpoint S (normalize_checkpoint_frontier S c)))"
    using assms(3) by (intro get_state_saved) (simp_all add: b put)
  also have "normalize_checkpoint_frontier S c = c"
    unfolding c_def next_checkpoint_frontier a_def apply_update_normal [OF assms(1)] ..
  finally show ?thesis by (simp add: b)
qed

lemma update_then_get_witness:
  "\<exists>snapshot w'. bulk_update_state (derived_serde (\<lambda>_. [])) ex_drawing ex_runtime (thread_cfg ''t'' [])
       [\<lparr>ur_as_node = None, ur_values = JObj [(''in'', JBool True)]\<rparr>] ex_world = (Inr snapshot, w') \<and>
     get_state (derived_serde (\<lambda>_. [])) ((thread_cfg ''t'' [])\<lparr>rc_checkpoint_id := None\<rparr>) w' = Inr (Some snapshot)"
proof -
  let ?S = "derived_serde (\<lambda>_. [])"
  let ?u = "[\<lparr>ur_as_node = None, ur_values = JObj [(''in'', JBool True)]\<rparr>]"
  have t: "rc_thread_id (thread_cfg ''t'' []) = Some ''t''" by (simp add: thread_cfg_def default_config_def)
  have "\<exists>snapshot w'. bulk_update_state ?S ex_drawing ex_runtime (thread_cfg ''t'' []) ?u ex_world = (Inr snapshot, w')"
    by (simp add: bulk_update_state_def ex_world_def validate_checkpointer_config_def t
        load_checkpoint_or_default_def ms_get_tuple_def memory_saver_new_def draw_checkpoint_def
        synthetic_update_task_def update_writes_from_value_def persist_raw_checkpoint_def draw_next_def
        put_checkpoint_def ms_put_def)
  then obtain snapshot w' where u:
    "bulk_update_state ?S ex_drawing ex_runtime (thread_cfg ''t'' []) ?u ex_world = (Inr snapshot, w')" by blast
  have "get_state ?S ((thread_cfg ''t'' [])\<lparr>rc_checkpoint_id := None\<rparr>) w' = Inr (Some snapshot)"
    by (rule update_then_get [where s = memory_saver_new, OF serde_ok_derived _ t u])
      (simp_all add: ex_world_def ms_ids_def memory_saver_new_def pget_def)
  with u show ?thesis by blast
qed

subsection \<open>Forks\<close>

text \<open>a fork is isolated from its source. When a checkpoint is forked in its own namespace and the
  new identifier is new, the latest state becomes the fork, which shows the same state as the
  source under the new id, with the source as its parent; and reading the source by its id
  still gives everything it held, plus the fork among its children.\<close>

theorem fork_isolated:
  assumes "w_saver w = Some s" and "rc_thread_id config = Some t" and "rc_checkpoint_id config = None"
    and "ms_get_tuple (config\<lparr>rc_checkpoint_id := Some cid\<rparr>) s = Inr (Some (ck0, k0))" and "ck_id ck0 = cid"
    and "dr_fresh D (w_drawn w) \<notin> set (ms_ids (t @ '':'' @ rc_checkpoint_ns config) s)"
    and "dr_fresh D (w_drawn w) \<noteq> cid"
  shows "let fid = dr_fresh D (w_drawn w);
             ck = normalize_checkpoint_frontier S ck0;
             forked = fork_from fid (dr_now D (w_drawn w)) ck (rc_checkpoint_ns config) cid
         in case fork_checkpoint S D config None cid w of (r, w') \<Rightarrow>
            r = Inr (Some (from_checkpoint S forked)) \<and>
            ss_channels (from_checkpoint S forked) = ck_channel_values ck0 \<and>
            map_of (ss_parents (from_checkpoint S forked)) (rc_checkpoint_ns config) = Some cid \<and>
            (\<exists>s'. w_saver w' = Some s' \<and>
               ms_get_tuple config s' = Inr (Some (forked, ck_kernel forked)) \<and>
               ms_get_tuple (config\<lparr>rc_checkpoint_id := Some cid\<rparr>) s' =
                 Inr (Some (add_child (rc_checkpoint_ns config) fid ck,
                            ck_kernel (add_child (rc_checkpoint_ns config) fid ck))))"
proof -
  define fid where "fid = dr_fresh D (w_drawn w)"
  define ck where "ck = normalize_checkpoint_frontier S ck0"
  define forked where "forked = fork_from fid (dr_now D (w_drawn w)) ck (rc_checkpoint_ns config) cid"
  define src where "src = config\<lparr>rc_checkpoint_id := Some cid\<rparr>"
  define ck1 where "ck1 = add_child (rc_checkpoint_ns config) fid ck"
  have ids: "ck_id forked = fid" "ck_id ck1 = cid"
    using assms(5) by (simp_all add: forked_def fork_from_def from_state_def Let_def ck1_def add_child_def ck_def
        normalize_checkpoint_frontier_def)
  have p: "ms_part config = Some (t @ '':'' @ rc_checkpoint_ns config)" by (rule thread_part [OF assms(2)])
  have ps: "ms_part src = Some (t @ '':'' @ rc_checkpoint_ns config)"
    using thread_part [of src t] assms(2) by (simp add: src_def)
  obtain s1 where s1: "ms_put src ck1 s = (Inr cid, s1)"
    using ms.put_result [OF ps, of ck1 s] ids(2) by (cases "ms_put src ck1 s") auto
  obtain s2 where s2: "ms_put config forked s1 = (Inr fid, s2)"
    using ms.put_result [OF p, of forked s1] ids(1) by (cases "ms_put config forked s1") auto
  have "fid \<notin> set (ms_ids (t @ '':'' @ rc_checkpoint_ns config) s1)"
    using ms.put_ids [OF ps, of "t @ '':'' @ rc_checkpoint_ns config" ck1 s] assms(6,7) ids(2) s1
    by (auto simp: fid_def split: if_splits)
  then have g: "ms_get_tuple config (snd (ms_put config forked s1)) = Inr (Some (forked, ck_kernel forked))"
    using ids(1) by (intro ms.get_put_latest [OF p p assms(3)]) simp
  have "ms_get_tuple src (snd (ms_put config forked s1)) = ms_get_tuple src s1"
    using ids(1) assms(7) by (intro ms.get_put_other [OF p]) (simp add: src_def fid_def)
  also have "ms_get_tuple src s1 = Inr (Some (ck1, ck_kernel ck1))"
    using ms.get_put_id [OF ps ps, of ck1 s] ids(2) s1 by (simp add: src_def)
  finally have gs: "ms_get_tuple src (snd (ms_put config forked s1)) = Inr (Some (ck1, ck_kernel ck1))" .
  have e: "fork_checkpoint S D config None cid w =
      (Inr (Some (from_checkpoint S forked)), w\<lparr>w_drawn := w_drawn w + 1, w_saver := Some s2\<rparr>)"
    using assms(1,2,4) s1 s2 ids(1)
    by (simp add: fork_checkpoint_def in_namespace_def validate_checkpointer_config_def source_checkpoint_def
        put_checkpoint_def Let_def ck_def [symmetric] fid_def [symmetric] forked_def [symmetric]
        src_def [symmetric] ck1_def [symmetric])
  show ?thesis
    using g gs s2
    by (simp add: e Let_def fid_def [symmetric] ck_def [symmetric] forked_def [symmetric] src_def [symmetric]
        ck1_def [symmetric])
      (simp add: forked_def fork_from_def from_state_def from_checkpoint_def Let_def ck_def
        normalize_checkpoint_frontier_def)
qed

lemma fork_isolated_witness:
  "let c0 = with_id ''1'' 0 (JBool True) SrcInput 0;
       w = ex_world\<lparr>w_saver := Some (snd (ms_put (thread_cfg ''t'' []) c0 memory_saver_new))\<rparr>
   in case fork_checkpoint (derived_serde (\<lambda>_. [])) ex_drawing (thread_cfg ''t'' []) None ''1'' w of (r, w') \<Rightarrow>
        (\<exists>snapshot. r = Inr (Some snapshot) \<and> ss_channels snapshot = JBool True)"
proof -
  let ?c0 = "with_id ''1'' 0 (JBool True) SrcInput 0 :: ckpt"
  let ?s = "snd (ms_put (thread_cfg ''t'' []) ?c0 memory_saver_new)"
  let ?w = "ex_world\<lparr>w_saver := Some ?s\<rparr>"
  have k: "thread_key (thread_cfg ''t'' []) = Inr ''t:''" by simp
  have "w_saver ?w = Some ?s" "rc_thread_id (thread_cfg ''t'' []) = Some ''t''"
    "rc_checkpoint_id (thread_cfg ''t'' []) = None" "ck_id ?c0 = ''1''"
    by (simp_all add: thread_cfg_def default_config_def with_id_def)
  moreover have "ms_get_tuple ((thread_cfg ''t'' [])\<lparr>rc_checkpoint_id := Some ''1''\<rparr>) ?s = Inr (Some (?c0, ck_kernel ?c0))"
    by (rule ms.get_put_id [of _ "''t:''"])
      (simp_all add: ms_part_Some thread_key_def thread_cfg_def default_config_def with_id_def)
  moreover have "dr_fresh ex_drawing (w_drawn ?w) = ''0''"
    by (simp add: ex_drawing_def ex_world_def show_nat_examples)
  moreover have "set (ms_ids (''t'' @ '':'' @ rc_checkpoint_ns (thread_cfg ''t'' [])) ?s) = {''1''}"
    using ms_put_list [OF k, of ?c0 memory_saver_new "''t:''"]
    by (simp add: ms_ids_def thread_cfg_def default_config_def memory_saver_new_def with_id_def)
  ultimately show ?thesis
    using fork_isolated [of ?w ?s "thread_cfg ''t'' []" "''t''" "''1''" ?c0 "ck_kernel ?c0" ex_drawing
        "derived_serde (\<lambda>_. [])"]
    by (auto simp: Let_def with_id_def split: prod.splits)
qed

end
