(* ===== verification/Memory_Store.thy ===== *)
theory Memory_Store
  imports Pregel_Types "HOL-Library.Sublist"
begin

text \<open>
  \<open>foundation/checkpoint/src/in_memory_store.rs\<close> and the types of \<open>store.rs\<close>: the long-term memory
  shared by threads, a hash map from a joined key to an item. Reading the clock is the argument
  \<open>now\<close>. The order of a hash map's entries is the order of the association list. Unicode lower
  casing, the text of a JSON value and the comparison of two numbers as \<open>f64\<close> are parameters of
  \<open>search\<close>. The contract of a key-value store is the locale \<open>kv_store\<close>; inside it the refinement of
  a mathematical map is proved for every sequence of operations.
\<close>

type_synonym namespace = "string list"

record item =
  it_value :: json
  it_key :: string
  it_namespace :: namespace
  it_created :: nat
  it_updated :: nat

type_synonym store = "(string \<times> item) list"

datatype filter_op = FEq json | FNe json | FGt json | FGte json | FLt json | FLte json

record search_options =
  so_query :: "string option"
  so_filter :: "(string \<times> filter_op) list option"
  so_limit :: nat
  so_offset :: nat

datatype match_type = MPrefix | MSuffix

record match_condition =
  mc_type :: match_type
  mc_path :: "string list"

record list_options =
  lo_conditions :: "match_condition list"
  lo_max_depth :: "nat option"
  lo_limit :: nat
  lo_offset :: nat

datatype store_op =
    SGet namespace string
  | SPut namespace string "json option"
  | SSearch namespace search_options
  | SListNamespaces list_options

datatype store_result =
    RGet "item option"
  | RPut
  | RSearch "item list"
  | RNamespaces "namespace list"

datatype cmp3 = OLess | OEqual | OGreater

subsection \<open>The contract of a key-value store\<close>

datatype ('n, 'w) kv_op = KPut 'n 'w | KDelete 'n

text \<open>\<open>upd n w prev\<close> is the entry that writing \<open>w\<close> under \<open>n\<close> leaves when \<open>prev\<close> was there.\<close>

fun kv_spec :: "('n \<Rightarrow> 'w \<Rightarrow> 'v option \<Rightarrow> 'v) \<Rightarrow> ('n, 'w) kv_op \<Rightarrow> ('n \<rightharpoonup> 'v) \<Rightarrow> ('n \<rightharpoonup> 'v)" where
  "kv_spec upd (KPut n w) m = m(n \<mapsto> upd n w (m n))"
| "kv_spec upd (KDelete n) m = m(n := None)"

fun kv_name :: "('n, 'w) kv_op \<Rightarrow> 'n" where
  "kv_name (KPut n w) = n"
| "kv_name (KDelete n) = n"

fun kv_apply :: "('n \<Rightarrow> 'w \<Rightarrow> 'st \<Rightarrow> 'st) \<Rightarrow> ('n \<Rightarrow> 'st \<Rightarrow> 'st) \<Rightarrow> ('n, 'w) kv_op \<Rightarrow> 'st \<Rightarrow> 'st" where
  "kv_apply put del (KPut n w) st = put n w st"
| "kv_apply put del (KDelete n) st = del n st"

locale kv_store =
  fixes ok :: "'n \<Rightarrow> bool"
    and upd :: "'n \<Rightarrow> 'w \<Rightarrow> 'v option \<Rightarrow> 'v"
    and put :: "'n \<Rightarrow> 'w \<Rightarrow> 'st \<Rightarrow> 'st"
    and del :: "'n \<Rightarrow> 'st \<Rightarrow> 'st"
    and get :: "'n \<Rightarrow> 'st \<Rightarrow> 'v option"
  assumes get_put: "ok n \<Longrightarrow> ok m \<Longrightarrow> get m (put n w st) = (if m = n then Some (upd n w (get n st)) else get m st)"
    and get_del: "ok n \<Longrightarrow> ok m \<Longrightarrow> get m (del n st) = (if m = n then None else get m st)"
begin

lemma apply_refines:
  assumes "ok (kv_name a)" "ok m" "\<And>k. ok k \<Longrightarrow> get k st = f k"
  shows "get m (kv_apply put del a st) = kv_spec upd a f m"
  using assms by (cases a) (auto simp: get_put get_del)

lemma run_refines:
  assumes "\<And>a. a \<in> set ops \<Longrightarrow> ok (kv_name a)" "\<And>k. ok k \<Longrightarrow> get k st = f k" "ok m"
  shows "get m (fold (kv_apply put del) ops st) = fold (kv_spec upd) ops f m"
  using assms
proof (induction ops arbitrary: st f)
  case (Cons a ops)
  have "get k (kv_apply put del a st) = kv_spec upd a f k" if "ok k" for k
    using that Cons.prems by (intro apply_refines) auto
  with Cons show ?case by simp
qed simp

end

subsection \<open>Keys\<close>

abbreviation nul :: char where "nul \<equiv> CHR 0x00"

text \<open>\<open>[String]::join("\0")\<close>.\<close>

fun join_nul :: "string list \<Rightarrow> string" where
  "join_nul [] = []"
| "join_nul [s] = s"
| "join_nul (s # t # ss) = s @ nul # join_nul (t # ss)"

definition map_key :: "namespace \<Rightarrow> string \<Rightarrow> string" where
  "map_key ns key = join_nul ns @ nul # key"

definition namespace_prefix :: "namespace \<Rightarrow> string" where
  "namespace_prefix ns = (if ns = [] then [] else join_nul ns @ [nul])"

definition plain_name :: "string \<Rightarrow> bool" where
  "plain_name s \<longleftrightarrow> nul \<notin> set s"

definition plain_key :: "namespace \<times> string \<Rightarrow> bool" where
  "plain_key p \<longleftrightarrow> fst p \<noteq> [] \<and> list_all plain_name (fst p) \<and> plain_name (snd p)"

lemma join_nul_Cons: "ss \<noteq> [] \<Longrightarrow> join_nul (s # ss) = s @ nul # join_nul ss"
  by (cases ss) auto

lemma map_key_join: "ns \<noteq> [] \<Longrightarrow> map_key ns key = join_nul (ns @ [key])"
  unfolding map_key_def
  by (induction ns rule: join_nul.induct) (auto simp: join_nul_Cons)

lemma nul_split:
  assumes "plain_name s" "plain_name t"
  shows "s @ nul # a = t @ nul # b \<longleftrightarrow> s = t \<and> a = b"
  using assms
proof (induction s arbitrary: t)
  case Nil
  then show ?case by (cases t) (auto simp: plain_name_def)
next
  case (Cons c s)
  then show ?case by (cases t) (auto simp: plain_name_def)
qed

lemma plain_ne_join:
  "plain_name s \<Longrightarrow> s \<noteq> t @ nul # a"
  by (auto simp: plain_name_def)

lemma plain_join: "plain_name (join_nul (t # us)) \<Longrightarrow> us = []"
  by (cases us) (auto simp: plain_name_def)

lemma join_nul_inj:
  assumes "list_all plain_name ss" "list_all plain_name ts" "ss \<noteq> []" "ts \<noteq> []"
  shows "join_nul ss = join_nul ts \<longleftrightarrow> ss = ts"
  using assms
proof (induction ss arbitrary: ts)
  case (Cons s ss)
  obtain t us where ts: "ts = t # us" using Cons.prems(4) by (cases ts) auto
  show ?case
  proof (cases "ss = [] \<or> us = []")
    case True
    with Cons.prems show ?thesis
      by (auto simp: ts dest!: plain_join)
  next
    case False
    with Cons show ?thesis by (simp add: ts join_nul_Cons nul_split)
  qed
qed simp

lemma map_key_inj:
  assumes "plain_key (ns, k)" "plain_key (ms, l)"
  shows "map_key ns k = map_key ms l \<longleftrightarrow> (ns, k) = (ms, l)"
  using assms join_nul_inj [of "ns @ [k]" "ms @ [l]"] by (auto simp: plain_key_def map_key_join)

subsection \<open>Operations\<close>

definition stored_item_new :: "nat \<Rightarrow> namespace \<Rightarrow> string \<Rightarrow> json \<Rightarrow> item" where
  "stored_item_new now ns key v =
     \<lparr>it_value = v, it_key = key, it_namespace = ns, it_created = now, it_updated = now\<rparr>"

definition stored_item_update :: "nat \<Rightarrow> json \<Rightarrow> item \<Rightarrow> item" where
  "stored_item_update now v it = it\<lparr>it_value := v, it_updated := now\<rparr>"

definition store_new :: store where
  "store_new = []"

definition store_put :: "nat \<Rightarrow> namespace \<Rightarrow> string \<Rightarrow> json \<Rightarrow> store \<Rightarrow> store" where
  "store_put now ns key v st =
     (let k = map_key ns key in
      case map_of st k of
        Some it \<Rightarrow> AList.update k (stored_item_update now v it) st
      | None \<Rightarrow> AList.update k (stored_item_new now ns key v) st)"

definition store_get_item :: "namespace \<Rightarrow> string \<Rightarrow> store \<Rightarrow> item option" where
  "store_get_item ns key st = map_of st (map_key ns key)"

definition store_get :: "namespace \<Rightarrow> string \<Rightarrow> store \<Rightarrow> json option" where
  "store_get ns key st = map_option it_value (map_of st (map_key ns key))"

definition store_delete :: "namespace \<Rightarrow> string \<Rightarrow> store \<Rightarrow> store" where
  "store_delete ns key st = AList.delete (map_key ns key) st"

text \<open>\<open>sort\<close> and \<open>dedup\<close>.\<close>

definition store_list :: "namespace \<Rightarrow> store \<Rightarrow> string list" where
  "store_list ns st =
     remdups_adj (sort (map (it_key \<circ> snd) (filter (\<lambda>(k, _). prefix (namespace_prefix ns) k) st)))"

definition compare_json :: "(jnum \<Rightarrow> jnum \<Rightarrow> cmp3 option) \<Rightarrow> json \<Rightarrow> json \<Rightarrow> cmp3 option" where
  "compare_json num_cmp a b =
     (case (a, b) of
        (JNum x, JNum y) \<Rightarrow> num_cmp x y
      | (JStr x, JStr y) \<Rightarrow> Some (if x < y then OLess else if x = y then OEqual else OGreater)
      | _ \<Rightarrow> None)"

fun filter_holds :: "(jnum \<Rightarrow> jnum \<Rightarrow> cmp3 option) \<Rightarrow> json option \<Rightarrow> filter_op \<Rightarrow> bool" where
  "filter_holds num_cmp (Some v) (FEq e) = (v = e)"
| "filter_holds num_cmp (Some v) (FNe e) = (v \<noteq> e)"
| "filter_holds num_cmp (Some v) (FGt e) = (compare_json num_cmp v e = Some OGreater)"
| "filter_holds num_cmp (Some v) (FGte e) = (compare_json num_cmp v e \<in> {Some OGreater, Some OEqual})"
| "filter_holds num_cmp (Some v) (FLt e) = (compare_json num_cmp v e = Some OLess)"
| "filter_holds num_cmp (Some v) (FLte e) = (compare_json num_cmp v e \<in> {Some OLess, Some OEqual})"
| "filter_holds num_cmp None _ = False"

definition page :: "nat \<Rightarrow> nat \<Rightarrow> 'a list \<Rightarrow> 'a list" where
  "page offset limit xs =
     take limit (if offset > 0 then (if offset \<ge> length xs then [] else drop offset xs) else xs)"

text \<open>Unicode lower casing, the text of a value, the comparison of numbers.\<close>

record search_env =
  se_lower :: "string \<Rightarrow> string"
  se_text :: "json \<Rightarrow> string"
  se_num_cmp :: "jnum \<Rightarrow> jnum \<Rightarrow> cmp3 option"

definition query_holds :: "search_env \<Rightarrow> string option \<Rightarrow> item \<Rightarrow> bool" where
  "query_holds E query it =
     (case query of
        None \<Rightarrow> True
      | Some q \<Rightarrow> q = [] \<or> sublist q (it_key it) \<or> sublist (se_lower E q) (se_lower E (se_text E (it_value it))))"

definition search_hits :: "search_env \<Rightarrow> namespace \<Rightarrow> search_options \<Rightarrow> store \<Rightarrow> item list" where
  "search_hits E ns opts st =
     (let hits = map snd (filter (\<lambda>(k, _). prefix (namespace_prefix ns) k) st);
          hits1 = filter (query_holds E (so_query opts)) hits
      in case so_filter opts of
           None \<Rightarrow> hits1
         | Some fs \<Rightarrow>
             fold (\<lambda>(field, op). filter (\<lambda>it. filter_holds (se_num_cmp E) (json_get (it_value it) field) op)) fs hits1)"

definition store_search :: "search_env \<Rightarrow> namespace \<Rightarrow> search_options \<Rightarrow> store \<Rightarrow> item list" where
  "store_search E ns opts st = page (so_offset opts) (so_limit opts) (search_hits E ns opts st)"

definition matches_path :: "string list \<Rightarrow> string list \<Rightarrow> bool" where
  "matches_path path part \<longleftrightarrow> list_all2 (\<lambda>p n. p = ''*'' \<or> n = p) path part"

definition matches_condition :: "namespace \<Rightarrow> match_condition \<Rightarrow> bool" where
  "matches_condition ns c =
     (let path = mc_path c in
      if length ns < length path then False
      else case mc_type c of
             MPrefix \<Rightarrow> matches_path path (take (length path) ns)
           | MSuffix \<Rightarrow> matches_path path (drop (length ns - length path) ns))"

definition store_list_namespaces :: "list_options \<Rightarrow> store \<Rightarrow> namespace list" where
  "store_list_namespaces opts st =
     (let found = filter (\<lambda>ns. list_all (matches_condition ns) (lo_conditions opts))
                    (remdups (map (it_namespace \<circ> snd) st));
          cut = (case lo_max_depth opts of
                   None \<Rightarrow> found
                 | Some d \<Rightarrow> remdups (map (\<lambda>ns. if length ns > d then take d ns else ns) found))
      in page (lo_offset opts) (lo_limit opts) (sort cut))"

fun store_step :: "search_env \<Rightarrow> nat \<Rightarrow> store_op \<Rightarrow> store \<Rightarrow> store_result \<times> store" where
  "store_step E now (SGet ns key) st = (RGet (store_get_item ns key st), st)"
| "store_step E now (SPut ns key (Some v)) st = (RPut, store_put now ns key v st)"
| "store_step E now (SPut ns key None) st = (RPut, store_delete ns key st)"
| "store_step E now (SSearch ns opts) st = (RSearch (store_search E ns opts st), st)"
| "store_step E now (SListNamespaces opts) st = (RNamespaces (store_list_namespaces opts st), st)"

text \<open>\<open>clock i\<close> is the time read by the operation at position \<open>i\<close>.\<close>

fun store_batch :: "search_env \<Rightarrow> (nat \<Rightarrow> nat) \<Rightarrow> nat \<Rightarrow> store_op list \<Rightarrow> store \<Rightarrow> store_result list \<times> store" where
  "store_batch E clock i [] st = ([], st)"
| "store_batch E clock i (op # ops) st =
     (case store_step E (clock i) op st of (r, st1) \<Rightarrow>
        case store_batch E clock (i + 1) ops st1 of (rs, st2) \<Rightarrow> (r # rs, st2))"

definition search_simple :: "search_env \<Rightarrow> namespace \<Rightarrow> string option \<Rightarrow> nat option \<Rightarrow> store \<Rightarrow> (string \<times> json) list" where
  "search_simple E ns query limit st =
     map (\<lambda>it. (it_key it, it_value it))
       (store_search E ns \<lparr>so_query = query, so_filter = None,
          so_limit = (case limit of Some n \<Rightarrow> n | None \<Rightarrow> 10), so_offset = 0\<rparr> st)"

subsection \<open>The store implements a map\<close>

text \<open>What a write leaves: the value, with the creation time of the entry it replaces.\<close>

definition item_upd :: "namespace \<times> string \<Rightarrow> nat \<times> json \<Rightarrow> item option \<Rightarrow> item" where
  "item_upd n w prev =
     (case prev of
        None \<Rightarrow> \<lparr>it_value = snd w, it_key = snd n, it_namespace = fst n, it_created = fst w, it_updated = fst w\<rparr>
      | Some it \<Rightarrow> it\<lparr>it_value := snd w, it_updated := fst w\<rparr>)"

definition put_at :: "namespace \<times> string \<Rightarrow> nat \<times> json \<Rightarrow> store \<Rightarrow> store" where
  "put_at n w st = store_put (fst w) (fst n) (snd n) (snd w) st"

definition delete_at :: "namespace \<times> string \<Rightarrow> store \<Rightarrow> store" where
  "delete_at n st = store_delete (fst n) (snd n) st"

lemma map_key_plain_iff:
  "plain_key n \<Longrightarrow> plain_key m \<Longrightarrow> map_key (fst n) (snd n) = map_key (fst m) (snd m) \<longleftrightarrow> n = m"
  using map_key_inj [of "fst n" "snd n" "fst m" "snd m"] by (simp add: prod_eq_iff)

interpretation memory_store: kv_store plain_key item_upd put_at delete_at "\<lambda>n. store_get_item (fst n) (snd n)"
  by unfold_locales
    (auto simp: put_at_def delete_at_def item_upd_def store_put_def store_delete_def store_get_item_def Let_def
       stored_item_new_def stored_item_update_def map_key_plain_iff split: option.splits)

text \<open>C14: the in-memory store refines a mathematical map from namespace and key to item. After any
  sequence of writes and deletes under non-empty namespaces without NUL characters, reading a key
  gives exactly what the map holds: the last value written since the last delete, with the time of
  that write and the creation time of the first.\<close>

theorem store_refines_map:
  assumes "list_all (plain_key \<circ> kv_name) ops" and "plain_key (ns, key)"
  shows "store_get_item ns key (fold (kv_apply put_at delete_at) ops store_new) =
         fold (kv_spec item_upd) ops Map.empty (ns, key)"
  using memory_store.run_refines [of ops store_new Map.empty "(ns, key)"] assms
  by (simp add: list_all_iff store_new_def store_get_item_def)

theorem store_refines_map_witness:
  "store_get_item [''a''] ''k'' (fold (kv_apply put_at delete_at)
     [KPut ([''a''], ''k'') (1, JNull), KPut ([''a'', ''b''], ''k'') (2, JNull), KPut ([''a''], ''k'') (3, JBool True)]
     store_new) =
   Some \<lparr>it_value = JBool True, it_key = ''k'', it_namespace = [''a''], it_created = 1, it_updated = 3\<rparr>"
  by (subst store_refines_map) (simp_all add: plain_key_def plain_name_def item_upd_def)

text \<open>Names outside these conditions are confused: the empty namespace and the namespace of one
  empty name share their entries, and so do a namespace and a longer one when a key contains NUL.\<close>

lemma store_names_collide:
  "store_get [''''] key (store_put now [] key v st) = Some v"
  "store_get [a, b] key (store_put now [a] (b @ nul # key) v st) = Some v"
  by (simp_all add: store_get_def store_put_def map_key_def Let_def stored_item_new_def stored_item_update_def
        split: option.splits)

subsection \<open>Listing\<close>

definition store_wf :: "store \<Rightarrow> bool" where
  "store_wf st \<longleftrightarrow> distinct (keys st) \<and>
     (\<forall>(k, it) \<in> set st. k = map_key (it_namespace it) (it_key it) \<and> plain_key (it_namespace it, it_key it))"

lemma store_wf_entry:
  assumes "store_wf st" "map_of st k = Some it"
  shows "k = map_key (it_namespace it) (it_key it)" "plain_key (it_namespace it, it_key it)"
  using assms(1) map_of_SomeD [OF assms(2)] by (auto simp: store_wf_def)

lemma store_wf_update:
  assumes "store_wf st" "k = map_key (it_namespace it) (it_key it)" "plain_key (it_namespace it, it_key it)"
  shows "store_wf (AList.update k it st)"
  using assms set_update_subset [of k it st] by (auto simp: store_wf_def)

text \<open>The invariant of the store.\<close>

lemma store_wf_put:
  assumes "store_wf st" "plain_key (ns, key)"
  shows "store_wf (store_put now ns key v st)"
  using assms store_wf_entry [OF assms(1)] unfolding store_put_def Let_def
  by (auto split: option.splits intro!: store_wf_update simp: stored_item_new_def stored_item_update_def)

lemma set_delete_subset: "set (AList.delete k m) \<subseteq> set m"
  by (induction m) auto

lemma store_wf_delete: "store_wf st \<Longrightarrow> store_wf (store_delete ns key st)"
  using set_delete_subset [of "map_key ns key" st]
  by (auto simp: store_wf_def store_delete_def distinct_delete)

lemma prefix_nul_split:
  assumes "plain_name s" "plain_name t"
  shows "prefix (s @ nul # a) (t @ nul # b) \<longleftrightarrow> s = t \<and> prefix a b"
  using nul_split [OF assms] by (auto simp: prefix_def) (metis append.assoc append_Cons)+

lemma prefix_plain: "plain_name t \<Longrightarrow> \<not> prefix (s @ nul # a) t"
  by (auto simp: prefix_def plain_name_def)

lemma prefix_join_nul:
  assumes "list_all plain_name ns" "list_all plain_name ts" "ns \<noteq> []" "ts \<noteq> []"
  shows "prefix (join_nul ns @ [nul]) (join_nul ts) \<longleftrightarrow> strict_prefix ns ts"
  using assms
proof (induction ns arbitrary: ts)
  case (Cons n ns)
  obtain t us where ts: "ts = t # us" using Cons.prems(4) by (cases ts) auto
  have p: "plain_name n" "plain_name t" using Cons.prems by (simp_all add: ts)
  show ?case
  proof (cases "us = []")
    case True
    have "\<not> prefix (join_nul (n # ns) @ [nul]) t"
      using prefix_plain [OF p(2), of n] prefix_plain [OF p(2), of "join_nul (n # ns)" "[]"] by simp
    with True show ?thesis by (auto simp: ts strict_prefix_def)
  next
    case us: False
    show ?thesis
    proof (cases "ns = []")
      case True
      with us show ?thesis
        using prefix_nul_split [OF p, of "[]" "join_nul us"] by (auto simp: ts join_nul_Cons strict_prefix_def)
    next
      case False
      with us Cons show ?thesis
        by (simp add: ts join_nul_Cons prefix_nul_split)
    qed
  qed
qed simp

lemma strict_prefix_snoc: "strict_prefix ns (ms @ [k]) \<longleftrightarrow> prefix ns ms"
  by (auto simp: strict_prefix_def prefix_snoc)

lemma namespace_prefix_iff:
  assumes "list_all plain_name ns" "plain_key (ms, k)"
  shows "prefix (namespace_prefix ns) (map_key ms k) \<longleftrightarrow> prefix ns ms"
proof (cases "ns = []")
  case False
  with assms show ?thesis
    using prefix_join_nul [of ns "ms @ [k]"]
    by (auto simp: namespace_prefix_def map_key_join plain_key_def strict_prefix_snoc)
qed (simp add: namespace_prefix_def)

lemma prefix_filter_items:
  assumes "store_wf st" "list_all plain_name ns"
  shows "map snd (filter (\<lambda>(k, _). prefix (namespace_prefix ns) k) st) =
         filter (\<lambda>it. prefix ns (it_namespace it)) (map snd st)"
proof -
  have "prefix (namespace_prefix ns) k \<longleftrightarrow> prefix ns (it_namespace it)" if "(k, it) \<in> set st" for k it
    using that assms namespace_prefix_iff [OF assms(2), of "it_namespace it" "it_key it"]
    by (auto simp: store_wf_def)
  then have "filter (\<lambda>(k, _). prefix (namespace_prefix ns) k) st = filter (\<lambda>(_, it). prefix ns (it_namespace it)) st"
    by (intro filter_cong) auto
  then show ?thesis by (simp add: filter_map comp_def case_prod_unfold)
qed

lemma sorted_remdups_adj_strict: "sorted (xs :: 'a :: linorder list) \<Longrightarrow> sorted_wrt (<) (remdups_adj xs)"
  by (induction xs rule: remdups_adj.induct) (auto simp: less_le)

text \<open>\<open>list\<close> returns the keys below a namespace. In a store whose names have no NUL, the result
  holds exactly the keys of the items whose namespace extends the given one, component by component,
  in strictly increasing order.\<close>

theorem store_list_spec:
  assumes "store_wf st" and "list_all plain_name ns"
  shows "set (store_list ns st) = set (map it_key (filter (\<lambda>it. prefix ns (it_namespace it)) (map snd st))) \<and>
         sorted_wrt (<) (store_list ns st)"
proof -
  have e: "map (it_key \<circ> snd) (filter (\<lambda>(k, _). prefix (namespace_prefix ns) k) st) =
      map it_key (filter (\<lambda>it. prefix ns (it_namespace it)) (map snd st))"
    by (simp flip: map_map add: prefix_filter_items [OF assms])
  show ?thesis unfolding store_list_def e
    by (simp add: sorted_remdups_adj_strict)
qed

lemma store_list_spec_witness:
  "set (store_list [''a''] (store_put 1 [''a''] ''k'' JNull (store_put 2 [''ab''] ''l'' JNull store_new))) = {''k''}"
proof -
  have "store_wf (store_put 1 [''a''] ''k'' JNull (store_put 2 [''ab''] ''l'' JNull store_new))"
    by (intro store_wf_put) (simp_all add: store_wf_def store_new_def plain_key_def plain_name_def)
  then show ?thesis
    by (subst store_list_spec [THEN conjunct1])
      (simp_all add: plain_name_def store_put_def store_new_def map_key_def stored_item_new_def Let_def)
qed

subsection \<open>Namespaces and paging\<close>

lemma page_drop_take: "page offset limit xs = take limit (drop offset xs)"
  by (simp add: page_def)

text \<open>search results are paged without gaps or overlaps: two consecutive pages are the one page
  of their joint size, no page is larger than its limit, and every hit is an item of the store that
  satisfies the query and every filter.\<close>

theorem search_pages:
  "store_search E ns (opts\<lparr>so_offset := i, so_limit := a\<rparr>) st @
     store_search E ns (opts\<lparr>so_offset := i + a, so_limit := b\<rparr>) st =
   store_search E ns (opts\<lparr>so_offset := i, so_limit := a + b\<rparr>) st \<and>
   length (store_search E ns (opts\<lparr>so_limit := a\<rparr>) st) \<le> a \<and>
   set (store_search E ns opts st) \<subseteq> snd ` set st"
proof -
  have h: "search_hits E ns (opts\<lparr>so_offset := i, so_limit := n\<rparr>) st = search_hits E ns opts st" for i n
    by (simp add: search_hits_def)
  have h': "search_hits E ns (opts\<lparr>so_limit := n\<rparr>) st = search_hits E ns opts st" for n
    by (simp add: search_hits_def)
  have sub: "set (fold (\<lambda>(field, op). filter (P field op)) fs hits) \<subseteq> set hits" for P fs and hits :: "item list"
    by (induction fs arbitrary: hits) (force simp: split_beta)+
  have "set (search_hits E ns opts st) \<subseteq> snd ` set st"
    unfolding search_hits_def Let_def
    by (auto split: option.splits dest!: subsetD [OF sub])
  then show ?thesis
    by (auto simp: store_search_def page_drop_take h h' take_add drop_drop add.commute
        dest: in_set_takeD in_set_dropD)
qed

lemma matches_path_length: "matches_path path part \<Longrightarrow> length part = length path"
  by (simp add: matches_path_def list_all2_lengthD)

lemma matches_condition_iff:
  "matches_condition ns c \<longleftrightarrow>
     (\<exists>part. matches_path (mc_path c) part \<and>
        (case mc_type c of MPrefix \<Rightarrow> prefix part ns | MSuffix \<Rightarrow> suffix part ns))"
proof (cases "mc_type c")
  case MPrefix
  have "matches_condition ns c \<longleftrightarrow> (\<exists>part. matches_path (mc_path c) part \<and> prefix part ns)" (is "?l \<longleftrightarrow> ?r")
  proof
    assume ?l with MPrefix show ?r
      by (auto simp: matches_condition_def Let_def take_is_prefix split: if_splits)
  next
    assume ?r
    then obtain part rest where p: "matches_path (mc_path c) part" "ns = part @ rest" by (auto elim: prefixE)
    show ?l using p MPrefix by (simp add: matches_condition_def matches_path_length [OF p(1), symmetric])
  qed
  with MPrefix show ?thesis by simp
next
  case MSuffix
  have "matches_condition ns c \<longleftrightarrow> (\<exists>part. matches_path (mc_path c) part \<and> suffix part ns)" (is "?l \<longleftrightarrow> ?r")
  proof
    assume ?l with MSuffix show ?r
      by (auto simp: matches_condition_def Let_def suffix_drop split: if_splits)
  next
    assume ?r
    then obtain part rest where p: "matches_path (mc_path c) part" "ns = rest @ part" by (auto elim: suffixE)
    show ?l using p MSuffix by (simp add: matches_condition_def matches_path_length [OF p(1), symmetric])
  qed
  with MSuffix show ?thesis by simp
qed

lemma strict_sorted_page:
  "distinct xs \<Longrightarrow> sorted_wrt (<) (page offset limit (sort xs :: 'a :: linorder list))"
  by (simp add: page_drop_take sorted_wrt_take sorted_wrt_drop strict_sorted_iff)

lemma set_page_subset: "set (page offset limit xs) \<subseteq> set xs"
  by (auto simp: page_drop_take dest: in_set_takeD in_set_dropD)

text \<open>listing namespaces. The result is strictly increasing, of at most \<open>limit\<close> namespaces, none
  deeper than \<open>max_depth\<close>; without offset and with room for all it is exactly the set of cut
  namespaces of the items that satisfy every condition, where a condition asks for a part at the
  start or the end of the namespace that agrees with its path up to wildcards.\<close>

theorem list_namespaces_spec:
  "let result = store_list_namespaces opts st;
       cut = (\<lambda>ns. case lo_max_depth opts of None \<Rightarrow> ns | Some d \<Rightarrow> take d ns);
       found = cut ` {ns \<in> it_namespace ` snd ` set st. \<forall>c. c \<in> set (lo_conditions opts) \<longrightarrow>
                 (\<exists>part. matches_path (mc_path c) part \<and>
                    (case mc_type c of MPrefix \<Rightarrow> prefix part ns | MSuffix \<Rightarrow> suffix part ns))}
   in sorted_wrt (<) result \<and> length result \<le> lo_limit opts \<and> set result \<subseteq> found \<and>
      (lo_offset opts = 0 \<longrightarrow> length st \<le> lo_limit opts \<longrightarrow> set result = found)"
proof -
  define found where "found = filter (\<lambda>ns. list_all (matches_condition ns) (lo_conditions opts))
    (remdups (map (it_namespace \<circ> snd) st))"
  define cut where "cut = (case lo_max_depth opts of None \<Rightarrow> found
    | Some d \<Rightarrow> remdups (map (\<lambda>ns. if length ns > d then take d ns else ns) found))"
  have r: "store_list_namespaces opts st = page (lo_offset opts) (lo_limit opts) (sort cut)"
    unfolding store_list_namespaces_def cut_def found_def Let_def ..
  have d: "distinct cut" by (simp add: cut_def found_def split: option.split)
  have "length found \<le> length (remdups (map (it_namespace \<circ> snd) st))"
    unfolding found_def by (rule length_filter_le)
  also have "\<dots> \<le> length st" by (metis length_map length_remdups_leq)
  finally have "length found \<le> length st" .
  then have len: "length cut \<le> length st"
    by (auto simp: cut_def split: option.split intro: order_trans [OF length_remdups_leq])
  have c: "set cut = (\<lambda>ns. case lo_max_depth opts of None \<Rightarrow> ns | Some d \<Rightarrow> take d ns) ` set found"
  proof -
    have "(\<lambda>ns. if length ns > d then take d ns else ns) = (take d :: namespace \<Rightarrow> namespace)" for d by auto
    then show ?thesis by (simp add: cut_def split: option.split)
  qed
  have f: "set found = {ns \<in> it_namespace ` snd ` set st. \<forall>c. c \<in> set (lo_conditions opts) \<longrightarrow> matches_condition ns c}"
    by (auto simp: found_def list_all_iff)
  show ?thesis unfolding r Let_def
    using strict_sorted_page [OF d] set_page_subset [of "lo_offset opts" "lo_limit opts" "sort cut"] len
    by (simp add: c f matches_condition_iff page_drop_take)
qed

end
