(* ===== verification/Uuid6.thy ===== *)
theory Uuid6
  imports Json_Value
begin

unbundle bit_operations_syntax

text \<open>
  \<open>foundation/checkpoint/src/uuid6.rs\<close>: time-ordered checkpoint identifiers. The 128-bit layout is a
  word, built and read with the shifts and masks of the code. The generator keeps the last timestamp
  in an atomic that any number of threads update with a compare-and-exchange loop: it is a step
  relation, one step per atomic access, whose states record the timestamps handed out. The clock and
  the random bits are arguments.
\<close>

type_synonym u128 = "128 word"

subsection \<open>Layout\<close>

definition uuid_from_int :: "u128 \<Rightarrow> u128 \<Rightarrow> u128" where
  "uuid_from_int int_val version =
     (let v1 = int_val AND NOT (push_bit 48 0xC000);
          v2 = v1 OR push_bit 48 0x8000;
          v3 = v2 AND NOT (push_bit 64 0xF000)
      in v3 OR push_bit 76 version)"

definition uuid_build :: "u64 \<Rightarrow> u64 \<Rightarrow> u64 \<Rightarrow> u128" where
  "uuid_build timestamp clock_seq node =
     (let time_high_and_time_mid = drop_bit 12 timestamp AND 0xFFFFFFFFFFFF;
          time_low_and_version = timestamp AND 0x0FFF;
          i1 = push_bit 80 (ucast time_high_and_time_mid);
          i2 = i1 OR push_bit 64 (ucast time_low_and_version);
          i3 = i2 OR push_bit 48 (ucast (clock_seq AND 0x3FFF));
          i4 = i3 OR ucast (node AND 0xFFFFFFFFFFFF)
      in uuid_from_int i4 6)"

definition uuid_timestamp :: "u128 \<Rightarrow> u64" where
  "uuid_timestamp v =
     (let time_low = ucast (drop_bit 64 v AND 0x0FFF);
          time_mid = ucast (drop_bit 80 v AND 0xFFFF);
          time_high = ucast (drop_bit 96 v AND 0xFFFFFFFF)
      in push_bit 28 time_high OR push_bit 12 time_mid OR time_low)"

text \<open>Big-endian digits: \<open>to_be_bytes\<close> is the base 256 with 16 digits.\<close>

fun be_digits :: "nat \<Rightarrow> nat \<Rightarrow> nat \<Rightarrow> nat list" where
  "be_digits b 0 n = []"
| "be_digits b (Suc k) n = (n div b ^ k) mod b # be_digits b k n"

definition uuid_bytes :: "u128 \<Rightarrow> nat list" where
  "uuid_bytes v = be_digits 256 16 (unat v)"

definition uuid_version :: "u128 \<Rightarrow> nat" where
  "uuid_version v = (uuid_bytes v ! 6) div 16 mod 16"

definition hex2 :: "nat \<Rightarrow> string" where
  "hex2 byte = [digit_char (byte div 16), digit_char (byte mod 16)]"

definition uuid_text :: "u128 \<Rightarrow> string" where
  "uuid_text v =
     concat (map (\<lambda>(i, b). hex2 b @ (if i \<in> {3, 5, 7, 9} then ''-'' else []))
       (zip [0..<16] (uuid_bytes v)))"

definition epoch_offset :: u64 where
  "epoch_offset = 0x01b21dd213814000"

definition clock_ticks :: "u64 \<Rightarrow> u64" where
  "clock_ticks nanoseconds = nanoseconds div 100 + epoch_offset"

subsection \<open>What is stored can be read back\<close>

lemma mask_consts:
  "(0xFFFFFFFFFFFF :: u64) = mask 48" "(0x0FFF :: u64) = mask 12" "(0x3FFF :: u64) = mask 14"
  "(0x0FFF :: u128) = mask 12" "(0xFFFF :: u128) = mask 16" "(0xFFFFFFFF :: u128) = mask 32"
  by (simp_all add: mask_eq_exp_minus_1)

lemma bit_fields:
  "bit (push_bit 48 0xC000 :: u128) n \<longleftrightarrow> n = 62 \<or> n = 63"
  "bit (push_bit 48 0x8000 :: u128) n \<longleftrightarrow> n = 63"
  "bit (push_bit 64 0xF000 :: u128) n \<longleftrightarrow> 76 \<le> n \<and> n < 80"
  "bit (push_bit 76 6 :: u128) n \<longleftrightarrow> n = 77 \<or> n = 78"
proof -
  have e: "push_bit 48 0xC000 = push_bit 62 (mask 2 :: u128)" "push_bit 64 0xF000 = push_bit 76 (mask 4 :: u128)"
    "push_bit 76 6 = push_bit 77 (mask 2 :: u128)"
    by (simp_all add: mask_eq_exp_minus_1 push_bit_eq_mult)
  have "bit (push_bit 62 (mask 2) :: u128) n \<longleftrightarrow> n = 62 \<or> n = 63"
    "bit (push_bit 76 (mask 4) :: u128) n \<longleftrightarrow> 76 \<le> n \<and> n < 80"
    "bit (push_bit 77 (mask 2) :: u128) n \<longleftrightarrow> n = 77 \<or> n = 78"
    by (auto simp: bit_simps)
  then show "bit (push_bit 48 0xC000 :: u128) n \<longleftrightarrow> n = 62 \<or> n = 63"
    "bit (push_bit 64 0xF000 :: u128) n \<longleftrightarrow> 76 \<le> n \<and> n < 80"
    "bit (push_bit 76 6 :: u128) n \<longleftrightarrow> n = 77 \<or> n = 78"
    unfolding e by (simp_all only:)
  have "push_bit 48 0x8000 = (2 ^ 63 :: u128)" by (simp add: push_bit_eq_mult)
  then show "bit (push_bit 48 0x8000 :: u128) n \<longleftrightarrow> n = 63"
    by (simp only: bit_exp_iff possible_bit_word) auto
qed

lemma bit_uuid_build:
  assumes "n < 128"
  shows "bit (uuid_build ts c nd) n \<longleftrightarrow>
     (if n < 48 then bit nd n
      else if n < 62 then bit c (n - 48)
      else if n < 64 then n = 63
      else if n < 76 then bit ts (n - 64)
      else if n < 80 then n = 77 \<or> n = 78
      else bit ts (n - 68))"
proof -
  define A B C D :: u128 where "A = push_bit 48 0xC000" "B = push_bit 48 0x8000" "C = push_bit 64 0xF000" "D = push_bit 76 6"
  note d = this
  have b: "bit A n \<longleftrightarrow> n = 62 \<or> n = 63" "bit B n \<longleftrightarrow> n = 63" "bit C n \<longleftrightarrow> 76 \<le> n \<and> n < 80" "bit D n \<longleftrightarrow> n = 77 \<or> n = 78"
    unfolding d by (rule bit_fields)+
  show ?thesis
    using assms unfolding uuid_build_def uuid_from_int_def Let_def mask_consts d [symmetric]
    by (auto simp: bit_simps b)
qed

lemma uuid_timestamp_bit:
  assumes "n < 64"
  shows "bit (uuid_timestamp (uuid_build ts c nd)) n \<longleftrightarrow> n < 60 \<and> bit ts n"
  using assms unfolding uuid_timestamp_def Let_def mask_consts
  by (auto simp: bit_simps bit_uuid_build)

lemma uuid_timestamp_build: "uuid_timestamp (uuid_build ts c nd) = take_bit 60 ts"
  by (rule bit_word_eqI) (simp add: uuid_timestamp_bit bit_take_bit_iff)

lemma bit_six: "bit (6 :: u128) n \<longleftrightarrow> n = 1 \<or> n = 2"
proof -
  have "bit (push_bit k (mask 2) :: u128) n \<longleftrightarrow> n = k \<or> n = Suc k" if "Suc k < 128" for k
    using that by (auto simp: bit_simps)
  from this [of 1] have "bit (push_bit 1 (mask 2) :: u128) n \<longleftrightarrow> n = 1 \<or> n = 2"
    by (simp add: numeral_2_eq_2 del: push_bit_Suc)
  moreover have "push_bit 1 (mask 2) = (6 :: u128)" by (simp add: mask_eq_exp_minus_1)
  ultimately show ?thesis by metis
qed

lemma nth_be_digits_Suc: "i < k \<Longrightarrow> be_digits b k n ! i = n div b ^ (k - Suc i) mod b"
  by (induction k arbitrary: i) (auto simp: nth_Cons' Suc_diff_Suc)

lemma nth_be_digits: "be_digits 256 16 n ! 6 = n div 256 ^ 9 mod 256"
  using nth_be_digits_Suc [of 6 16 256 n] by (simp only:) simp

lemma uuid_version_build: "uuid_version (uuid_build ts c nd) = 6"
proof -
  have "take_bit 4 (drop_bit 76 (uuid_build ts c nd)) = 6"
  proof (rule bit_word_eqI)
    fix n assume "n < LENGTH(128)"
    show "bit (take_bit 4 (drop_bit 76 (uuid_build ts c nd))) n \<longleftrightarrow> bit (6 :: u128) n"
      unfolding bit_six by (auto simp: bit_take_bit_iff bit_drop_bit_eq bit_uuid_build)
  qed
  then have "take_bit 4 (drop_bit 76 (unat (uuid_build ts c nd))) = unat (6 :: u128)"
    by (metis unsigned_take_bit_eq unat_drop_bit_eq)
  then have "unat (uuid_build ts c nd) div 2 ^ 76 mod 16 = 6"
    by (simp add: drop_bit_eq_div take_bit_eq_mod)
  moreover have "(u div 256 ^ 9) mod 256 div 16 mod 16 = u div 2 ^ 76 mod (16 :: nat)" for u
  proof -
    have "x mod 256 div 16 mod 16 = x div 16 mod 16" for x :: nat
      using mod_mult2_eq [of x 16 16] by simp
    then show ?thesis by (simp flip: div_mult2_eq)
  qed
  ultimately show ?thesis
    by (simp only: uuid_version_def uuid_bytes_def nth_be_digits)
qed

lemma uuid_build_high:
  "unat (drop_bit 64 (uuid_build ts c nd)) =
     unat (take_bit 60 ts) div 4096 * 65536 + 24576 + unat (take_bit 60 ts) mod 4096"
proof -
  define t :: u128 where "t = ucast (take_bit 60 ts)"
  have t: "unat t = unat (take_bit 60 ts)" "unat t < 2 ^ 60"
  proof -
    have "unat (take_bit 60 ts) < 2 ^ 60" by (metis unsigned_take_bit_eq take_bit_nat_less_exp)
    then show "unat t < 2 ^ 60" "unat t = unat (take_bit 60 ts)"
      by (simp_all add: t_def unsigned_ucast_eq take_bit_nat_eq_self)
  qed
  have "drop_bit 64 (uuid_build ts c nd) = push_bit 16 (drop_bit 12 t) OR (push_bit 13 (mask 2) OR take_bit 12 t)"
  proof (rule bit_word_eqI)
    fix n assume "n < LENGTH(128)"
    consider "n < 12" | "12 \<le> n" "n < 16" | "16 \<le> n" "n < 64" | "64 \<le> n" by linarith
    then show "bit (drop_bit 64 (uuid_build ts c nd)) n \<longleftrightarrow>
        bit (push_bit 16 (drop_bit 12 t) OR (push_bit 13 (mask 2) OR take_bit 12 t)) n"
    proof cases
      case 3
      then have "12 + (n - 16) = n - 4" "64 + n - 68 = n - 4" "\<not> n - 13 < 2" by linarith+
      with 3 show ?thesis by (auto simp: bit_simps bit_uuid_build t_def)
    next
      case 4
      then have "\<not> bit (uuid_build ts c nd) (64 + n)" by (auto dest: bit_imp_le_length)
      with 4 show ?thesis by (auto simp: bit_simps t_def)
    qed (auto simp: bit_simps bit_uuid_build t_def)
  qed
  also have "\<dots> = push_bit 16 (drop_bit 12 t) + (push_bit 13 (mask 2) + take_bit 12 t)"
    by (subst disjunctive_add, force simp: bit_simps)+ simp
  finally have e: "drop_bit 64 (uuid_build ts c nd) = push_bit 16 (drop_bit 12 t) + (push_bit 13 (mask 2) + take_bit 12 t)" .
  show ?thesis
    using t unfolding e
    by (simp add: unat_word_ariths mask_eq_exp_minus_1 unat_drop_bit_eq unsigned_take_bit_eq drop_bit_eq_div take_bit_eq_mod push_bit_eq_mult)
qed

lemma word_less_drop_bit: "drop_bit n u < drop_bit n v \<Longrightarrow> u < (v :: 'a :: len word)"
  by (metis drop_bit_eq_div leD leI word_less_nat_alt unat_drop_bit_eq div_le_mono)

lemma lex_pair_less:
  assumes "r < B" "s < (B :: nat)"
  shows "B * d + r < B * e + s \<longleftrightarrow> d < e \<or> d = e \<and> r < s"
proof -
  have "B * d + r < B * e + s" if "d < e" "r < B" for d e r s
  proof -
    have "B * d + r < B * Suc d" using that by simp
    also have "\<dots> \<le> B * e" using that(1) by (intro mult_le_mono2) simp
    finally show ?thesis by simp
  qed
  from this [of d e r s] this [of e d s r] assms show ?thesis
    by (cases d e rule: linorder_cases) auto
qed

lemma uuid_build_mono:
  assumes "ts < us" "us < 2 ^ 60"
  shows "uuid_build ts c nd < uuid_build us d md"
proof (rule word_less_drop_bit [of 64])
  have "unat ts < unat us" "unat us < 2 ^ 60"
    using assms by (simp_all add: word_less_nat_alt)
  moreover from this have "unat (take_bit 60 ts) = unat ts" "unat (take_bit 60 us) = unat us"
    by (simp_all add: unsigned_take_bit_eq take_bit_nat_eq_self)
  moreover have "a div 4096 * 65536 + 24576 + a mod 4096 < b div 4096 * 65536 + 24576 + b mod 4096"
    if "a < b" for a b :: nat
  proof -
    have m: "x mod 4096 < 4096" for x :: nat by simp
    have "a = 4096 * (a div 4096) + a mod 4096" "b = 4096 * (b div 4096) + b mod 4096" by simp_all
    with that have "a div 4096 < b div 4096 \<or> a div 4096 = b div 4096 \<and> a mod 4096 < b mod 4096"
      using lex_pair_less [OF m m] by metis
    then show ?thesis
      using lex_pair_less [of "24576 + a mod 4096" 65536 "24576 + b mod 4096" "a div 4096" "b div 4096"] m [of a] m [of b]
      by (simp add: mult.commute)
  qed
  ultimately show "drop_bit 64 (uuid_build ts c nd) < drop_bit 64 (uuid_build us d md)"
    by (simp add: word_less_nat_alt uuid_build_high)
qed

subsection \<open>The text of an identifier\<close>

lemma length_be_digits [simp]: "length (be_digits b k n) = k"
  by (induction k) auto

lemma be_digits_less_mod:
  assumes "2 \<le> b"
  shows "be_digits b k n < be_digits b k m \<longleftrightarrow> n mod b ^ k < m mod b ^ k"
proof (induction k)
  case (Suc k)
  have d: "x mod b ^ Suc k = b ^ k * (x div b ^ k mod b) + x mod b ^ k" for x
    by (metis mod_mult2_eq power_Suc2)
  have "x mod b ^ k < b ^ k" for x using assms by simp
  then show ?case unfolding d by (simp add: lex_pair_less Suc)
qed simp

lemma uuid_bytes_less: "uuid_bytes u < uuid_bytes v \<longleftrightarrow> u < v"
proof -
  have "unat w < 256 ^ 16" for w :: u128
    using unsigned_less [of w, where 'a = nat] by simp
  then show ?thesis
    by (simp add: uuid_bytes_def be_digits_less_mod word_less_nat_alt)
qed

text \<open>Joining pieces of equal length, each increasing in its digit, keeps the order.\<close>

lemma append_less_same [simp]: "(u @ v < u @ w) \<longleftrightarrow> (v < (w :: 'a :: linorder list))"
  by (induction u) auto

lemma append_less_piece: "length u = length v \<Longrightarrow> u < v \<Longrightarrow> u @ w < v @ (x :: 'a :: linorder list)"
  by (induction u v rule: list_induct2) auto

definition hex_piece :: "nat \<times> nat \<Rightarrow> string" where
  "hex_piece = (\<lambda>(i, b). hex2 b @ (if i \<in> {3, 5, 7, 9} then ''-'' else []))"

lemma hex2_less: "a < b \<Longrightarrow> b < 256 \<Longrightarrow> hex2 a < hex2 b"
proof -
  have ch: "digit_char d < digit_char e" if "d < e" "e < 16" for d e
    using that by (simp add: less_char_def of_char_digit_char)
  assume less: "a < b" "b < 256"
  have "16 * (a div 16) + a mod 16 < 16 * (b div 16) + b mod 16" using less(1) by simp
  then have "a div 16 < b div 16 \<or> a div 16 = b div 16 \<and> a mod 16 < b mod 16"
    by (subst (asm) lex_pair_less) simp_all
  moreover have "b div 16 < 16" "b mod 16 < 16" using less(2) by simp_all
  ultimately show ?thesis by (auto simp: hex2_def ch)
qed

lemma hex_pieces_less:
  assumes "length xs = length is" "length ys = length is" "xs < ys" "\<forall>y \<in> set ys. y < 256"
  shows "concat (map hex_piece (zip is xs)) < concat (map hex_piece (zip is ys))"
  using assms
proof (induction "is" arbitrary: xs ys)
  case (Cons i "is")
  then obtain x xs' y ys' where e: "xs = x # xs'" "ys = y # ys'" by (auto simp: length_Suc_conv)
  show ?case
  proof (cases "x < y")
    case True
    then have "hex_piece (i, x) < hex_piece (i, y)" "length (hex_piece (i, x)) = length (hex_piece (i, y))"
      using Cons.prems(4) hex2_less [of x y]
      by (auto simp: e hex_piece_def hex2_def intro: append_less_piece)
    then show ?thesis by (simp add: e append_less_piece)
  next
    case False
    with Cons show ?thesis by (simp add: e)
  qed
qed simp

lemma be_digits_bound: "2 \<le> b \<Longrightarrow> d \<in> set (be_digits b k n) \<Longrightarrow> d < b"
  by (induction k) auto

lemma uuid_text_less: "u < v \<Longrightarrow> uuid_text u < uuid_text v"
  using hex_pieces_less [of "uuid_bytes u" "[0..<16]" "uuid_bytes v"] be_digits_bound [of 256 _ 16 "unat v"]
  by (simp add: uuid_bytes_less) (simp add: uuid_bytes_def uuid_text_def hex_piece_def)

subsection \<open>The generator\<close>

datatype gen_pc = Idle | HasTime u64 | Loaded u64 u64

record generator =
  ug_last :: u64
  ug_pc :: "nat \<Rightarrow> gen_pc"
  ug_times :: "u64 list"
  ug_ids :: "u128 list"

definition generator_init :: generator where
  "generator_init = \<lparr>ug_last = 0, ug_pc = (\<lambda>_. Idle), ug_times = [], ug_ids = []\<rparr>"

text \<open>One atomic access of thread \<open>i\<close>: read the clock, load the last timestamp and advance past it,
  exchange it, or find it changed and go round again.\<close>

definition after_load :: "u64 \<Rightarrow> u64 \<Rightarrow> u64" where
  "after_load timestamp cur = (if timestamp \<le> cur then cur + 1 else timestamp)"

inductive gen_step :: "generator \<Rightarrow> generator \<Rightarrow> bool" where
  clock: "ug_pc s i = Idle \<Longrightarrow>
     gen_step s (s\<lparr>ug_pc := (ug_pc s)(i := HasTime (clock_ticks ns))\<rparr>)"
| load: "ug_pc s i = HasTime t \<Longrightarrow>
     gen_step s (s\<lparr>ug_pc := (ug_pc s)(i := Loaded (after_load t (ug_last s)) (ug_last s))\<rparr>)"
| exchanged: "ug_pc s i = Loaded t l \<Longrightarrow> ug_last s = l \<Longrightarrow>
     gen_step s (s\<lparr>ug_pc := (ug_pc s)(i := Idle), ug_last := t, ug_times := ug_times s @ [t],
                   ug_ids := ug_ids s @ [uuid_build t c nd]\<rparr>)"
| retry: "ug_pc s i = Loaded t l \<Longrightarrow> ug_last s \<noteq> l \<Longrightarrow>
     gen_step s (s\<lparr>ug_pc := (ug_pc s)(i := HasTime t)\<rparr>)"

inductive gen_reach :: "generator \<Rightarrow> bool" where
  init: "gen_reach generator_init"
| step: "gen_reach s \<Longrightarrow> gen_step s s' \<Longrightarrow> gen_reach s'"

inductive_cases gen_step_elim: "gen_step s s'"

text \<open>What a thread may hold: its timestamp is past the value it loaded, and below the bound of the
  clock plus one for every identifier handed out; the exchange will succeed at most at the bound.\<close>

definition pc_ok :: "nat \<Rightarrow> u64 \<Rightarrow> gen_pc \<Rightarrow> bool" where
  "pc_ok n cur pc =
     (case pc of
        Idle \<Rightarrow> True
      | HasTime t \<Rightarrow> unat t < 2 ^ 59 + n
      | Loaded t l \<Rightarrow> l < t \<and> l \<le> cur \<and> unat t < 2 ^ 59 + n + (if l = cur then 1 else 0))"

definition gen_inv :: "generator \<Rightarrow> bool" where
  "gen_inv s \<longleftrightarrow>
     unat (ug_last s) < 2 ^ 59 + length (ug_times s) \<and>
     (\<forall>i. pc_ok (length (ug_times s)) (ug_last s) (ug_pc s i)) \<and>
     sorted_wrt (<) (ug_times s) \<and> (\<forall>t \<in> set (ug_times s). t \<le> ug_last s \<and> t < 2 ^ 60) \<and>
     list_all2 (\<lambda>d t. \<exists>c nd. d = uuid_build t c nd) (ug_ids s) (ug_times s)"

lemma clock_ticks_bound: "unat (clock_ticks ns) < 2 ^ 59"
proof -
  have "unat (ns div 100) = unat ns div 100" by (simp add: unat_div)
  moreover have "unat ns < 18446744073709551616" using unsigned_less [of ns, where 'a = nat] by simp
  ultimately have "unat (ns div 100) \<le> 184467440737095516" by simp
  then show ?thesis unfolding clock_ticks_def epoch_offset_def by (simp add: unat_word_ariths)
qed

lemma after_load_ok:
  assumes "unat t < b" "unat cur < b" "b < 2 ^ 63"
  shows "cur < after_load t cur" "unat (after_load t cur) < b + 1"
proof -
  have "unat (cur + 1) = unat cur + 1"
    using assms(2,3) by (simp add: unat_word_ariths)
  then show "cur < after_load t cur" "unat (after_load t cur) < b + 1"
    using assms by (auto simp: after_load_def word_less_nat_alt not_le)
qed

lemma pc_ok_other:
  "pc_ok n cur pc \<Longrightarrow> cur < t \<Longrightarrow> pc_ok (Suc n) t pc"
  by (auto simp: pc_ok_def split: gen_pc.splits if_splits)

lemma gen_step_inv:
  assumes "gen_step s s'" "gen_inv s" "length (ug_times s') \<le> 2 ^ 59"
  shows "gen_inv s'"
  using assms(1)
proof cases
  case (clock i ns)
  with assms(2) show ?thesis
    using clock_ticks_bound [of ns] by (auto simp: gen_inv_def pc_ok_def)
next
  case (load i t)
  have "pc_ok (length (ug_times s)) (ug_last s) (HasTime t)" using assms(2) load(2) unfolding gen_inv_def by metis
  then have "unat t < 2 ^ 59 + length (ug_times s)" by (simp add: pc_ok_def)
  moreover have "unat (ug_last s) < 2 ^ 59 + length (ug_times s)" using assms(2) by (simp add: gen_inv_def)
  moreover have "2 ^ 59 + length (ug_times s) < 2 ^ 63" using assms(3) load(1) by simp
  ultimately have "pc_ok (length (ug_times s)) (ug_last s) (Loaded (after_load t (ug_last s)) (ug_last s))"
    using after_load_ok [of t "2 ^ 59 + length (ug_times s)" "ug_last s"] by (simp add: pc_ok_def)
  with load(1) assms(2) show ?thesis by (simp add: gen_inv_def)
next
  case (exchanged i t l c nd)
  have "pc_ok (length (ug_times s)) (ug_last s) (Loaded t l)" using assms(2) exchanged(2) unfolding gen_inv_def by metis
  with exchanged(3) have t: "ug_last s < t" "unat t < 2 ^ 59 + length (ug_times s) + 1" by (simp_all add: pc_ok_def)
  have "unat t < 2 ^ 60" using t(2) assms(3) exchanged(1) by simp
  then have "t < 2 ^ 60" by (simp add: word_less_nat_alt)
  moreover have "pc_ok (Suc (length (ug_times s))) t (ug_pc s j)" for j
    using assms(2) t(1) by (auto simp: gen_inv_def intro: pc_ok_other)
  moreover have "pc_ok (Suc (length (ug_times s))) t Idle" by (simp add: pc_ok_def)
  moreover have "\<forall>x \<in> set (ug_times s). x < t \<and> x \<le> t \<and> x < 2 ^ 60"
    using assms(2) t(1) by (auto simp: gen_inv_def)
  moreover have "list_all2 (\<lambda>d t. \<exists>c nd. d = uuid_build t c nd) (ug_ids s @ [uuid_build t c nd]) (ug_times s @ [t])"
    using assms(2) by (intro list_all2_appendI) (auto simp: gen_inv_def)
  ultimately show ?thesis
    using exchanged(1) assms(2) t(2) by (simp add: gen_inv_def sorted_wrt_append)
next
  case (retry i t l)
  have "pc_ok (length (ug_times s)) (ug_last s) (Loaded t l)" using assms(2) retry(2) unfolding gen_inv_def by metis
  with retry(3) have "pc_ok (length (ug_times s)) (ug_last s) (HasTime t)" by (auto simp: pc_ok_def)
  with retry(1) assms(2) show ?thesis by (simp add: gen_inv_def)
qed

lemma gen_step_length: "gen_step s s' \<Longrightarrow> length (ug_times s) \<le> length (ug_times s')"
  by (auto elim!: gen_step_elim)

lemma gen_reach_inv: "gen_reach s \<Longrightarrow> length (ug_times s) \<le> 2 ^ 59 \<Longrightarrow> gen_inv s"
proof (induction rule: gen_reach.induct)
  case init
  then show ?case by (simp add: gen_inv_def generator_init_def pc_ok_def)
next
  case (step s s')
  then show ?case
    using gen_step_inv [OF step.hyps(2)] gen_step_length [OF step.hyps(2)] by simp
qed

lemma gen_reach_length: "gen_reach s \<Longrightarrow> length (ug_ids s) = length (ug_times s)"
  by (induction rule: gen_reach.induct) (auto simp: generator_init_def elim!: gen_step_elim)

lemma sorted_ids:
  assumes "list_all2 (\<lambda>d t. \<exists>c nd. d = uuid_build t c nd) ids ts" "sorted_wrt (<) ts" "\<forall>t \<in> set ts. t < 2 ^ 60"
  shows "sorted_wrt (<) ids \<and> map uuid_timestamp ids = ts \<and> (\<forall>d \<in> set ids. uuid_version d = 6)"
  using assms
proof (induction rule: list_all2_induct)
  case (Cons d ds t ts)
  then obtain c nd where d: "d = uuid_build t c nd" by blast
  have "d < e" if "e \<in> set ds" for e
  proof -
    from that obtain i where i: "i < length ds" "e = ds ! i" by (auto simp: in_set_conv_nth)
    from list_all2_nthD [OF Cons.hyps(2) i(1)] obtain c' nd' where "e = uuid_build (ts ! i) c' nd'"
      unfolding i(2) by blast
    then obtain u where "u \<in> set ts" "e = uuid_build u c' nd'"
      using i(1) list_all2_lengthD [OF Cons.hyps(2)] by (metis nth_mem)
    with Cons.prems show ?thesis by (simp add: d uuid_build_mono)
  qed
  moreover have "take_bit 60 t = t"
    using Cons.prems by (simp add: word_unat_eq_iff word_less_nat_alt unsigned_take_bit_eq take_bit_nat_eq_self)
  ultimately show ?case using Cons by (simp add: d uuid_timestamp_build uuid_version_build)
qed simp

text \<open>C19: time-ordered identifiers, under any interleaving of any number of threads. As long as at most
  \<open>2 ^ 59\<close> identifiers have been handed out, whatever the clock does, they are strictly increasing in
  the order of the exchanges as 128-bit numbers and as printed text, hence distinct; each is of
  version 6, and the timestamps read back from them are strictly increasing.\<close>

theorem uuid6_ordered:
  assumes "gen_reach s" and "length (ug_ids s) \<le> 2 ^ 59"
  shows "sorted_wrt (<) (ug_ids s) \<and> sorted_wrt (<) (map uuid_text (ug_ids s)) \<and>
         sorted_wrt (<) (map uuid_timestamp (ug_ids s)) \<and> list_all (\<lambda>d. uuid_version d = 6) (ug_ids s)"
proof -
  have "gen_inv s" using assms gen_reach_inv gen_reach_length by metis
  then have "sorted_wrt (<) (ug_ids s)" "map uuid_timestamp (ug_ids s) = ug_times s"
    "\<forall>d \<in> set (ug_ids s). uuid_version d = 6" "sorted_wrt (<) (ug_times s)"
    using sorted_ids [of "ug_ids s" "ug_times s"] by (auto simp: gen_inv_def)
  then show ?thesis
    by (auto simp: list_all_iff sorted_wrt_map intro: sorted_wrt_mono_rel [OF _ \<open>sorted_wrt (<) (ug_ids s)\<close>] uuid_text_less)
qed

text \<open>Two threads that read the same time: the second finds the exchange lost and goes round.\<close>

lemma uuid6_ordered_witness:
  "\<exists>s. gen_reach s \<and> length (ug_ids s) = 2 \<and> sorted_wrt (<) (map uuid_text (ug_ids s))"
proof -
  define s1 where "s1 = generator_init\<lparr>ug_pc := (ug_pc generator_init)(0 := HasTime (clock_ticks 5))\<rparr>"
  define s2 where "s2 = s1\<lparr>ug_pc := (ug_pc s1)(1 := HasTime (clock_ticks 5))\<rparr>"
  define s3 where "s3 = s2\<lparr>ug_pc := (ug_pc s2)(0 := Loaded (after_load (clock_ticks 5) (ug_last s2)) (ug_last s2))\<rparr>"
  define a where "a = after_load (clock_ticks 5) (ug_last s2)"
  define s4 where "s4 = s3\<lparr>ug_pc := (ug_pc s3)(1 := Loaded a (ug_last s3))\<rparr>"
  define s5 where "s5 = s4\<lparr>ug_pc := (ug_pc s4)(0 := Idle), ug_last := a, ug_times := ug_times s4 @ [a],
    ug_ids := ug_ids s4 @ [uuid_build a 0 0]\<rparr>"
  define s6 where "s6 = s5\<lparr>ug_pc := (ug_pc s5)(1 := HasTime a)\<rparr>"
  define b where "b = after_load a (ug_last s6)"
  define s7 where "s7 = s6\<lparr>ug_pc := (ug_pc s6)(1 := Loaded b (ug_last s6))\<rparr>"
  define s8 where "s8 = s7\<lparr>ug_pc := (ug_pc s7)(1 := Idle), ug_last := b, ug_times := ug_times s7 @ [b],
    ug_ids := ug_ids s7 @ [uuid_build b 0 0]\<rparr>"
  note d = s1_def s2_def s3_def a_def s4_def s5_def s6_def b_def s7_def s8_def
  have a: "a \<noteq> 0" by (simp add: d after_load_def generator_init_def clock_ticks_def epoch_offset_def)
  have "gen_reach generator_init" by (rule gen_reach.init)
  then have "gen_reach s1" unfolding s1_def by (rule gen_reach.step) (rule gen_step.clock, simp add: generator_init_def)
  then have "gen_reach s2" unfolding s2_def by (rule gen_reach.step) (rule gen_step.clock, simp add: d generator_init_def)
  then have "gen_reach s3" unfolding s3_def by (rule gen_reach.step) (rule gen_step.load, simp add: d)
  moreover have "ug_last s3 = ug_last s2" by (simp add: s3_def)
  ultimately have "gen_reach s4" unfolding s4_def a_def
    by (metis (no_types, lifting) gen_reach.step gen_step.load s1_def s2_def s3_def fun_upd_apply zero_neq_one
        generator.select_convs(2) generator.surjective generator.update_convs(2))
  then have "gen_reach s5" unfolding s5_def by (rule gen_reach.step) (rule gen_step.exchanged [where l = 0], simp_all add: d generator_init_def)
  then have "gen_reach s6" unfolding s6_def
    by (rule gen_reach.step) (rule gen_step.retry [where l = 0], use a in \<open>simp_all add: s5_def s4_def s3_def s2_def s1_def generator_init_def\<close>)
  then have "gen_reach s7" unfolding s7_def b_def by (rule gen_reach.step) (rule gen_step.load, simp add: s6_def)
  then have r: "gen_reach s8" unfolding s8_def
    by (rule gen_reach.step) (rule gen_step.exchanged [where l = "ug_last s7"], simp_all add: s7_def)
  moreover have l: "length (ug_ids s8) = 2" by (simp add: d generator_init_def)
  moreover have "sorted_wrt (<) (map uuid_text (ug_ids s8))" using uuid6_ordered [OF r] l by simp
  ultimately show ?thesis by blast
qed

end
