(* ===== verification/Graph_Compile.thy ===== *)
theory Graph_Compile
  imports Graph_Error
begin

text \<open>
  \<open>foundation/graph-core/src/state_graph.rs\<close>, \<open>conditional.rs\<close>, \<open>compile_error.rs\<close> and \<open>next.rs\<close>: a
  state graph (nodes, edges, conditional edges), and \<open>compile_internal\<close>, which checks it and derives
  the routing table and the linear order. Hash maps are association lists, visited in list order; a
  node and a router are functions, kept as the parameters \<open>'n\<close> and \<open>'s \<Rightarrow> string\<close>.
\<close>

definition START :: string where "START = ''__start__''"
definition END :: string where "END = ''__end__''"

datatype next_step = Continue | Node string | End

datatype compilation_error =
    NodeNotFound string
  | MissingStart
  | MissingEnd
  | InvalidChain string
  | NodeHasBothEdgeAndConditional string
  | InvalidConditionalPathMap string

record 's router =
  ro_path :: "'s \<Rightarrow> string"
  ro_path_map :: "(string \<times> string) list option"

datatype 's next_entry = Unconditional string | Conditional "'s router"

definition resolve_route :: "'s router \<Rightarrow> 's \<Rightarrow> string" where
  "resolve_route r s =
     (let key = ro_path r s in
      case ro_path_map r of
        Some m \<Rightarrow> (case map_of m key of Some t \<Rightarrow> t | None \<Rightarrow> key)
      | None \<Rightarrow> key)"

record ('s, 'n) state_graph =
  sg_nodes :: "(string \<times> 'n) list"
  sg_edges :: "(string \<times> string) list"
  sg_conditional :: "(string \<times> 's router) list"

definition state_graph_new :: "('s, 'n) state_graph" where
  "state_graph_new = \<lparr>sg_nodes = [], sg_edges = [], sg_conditional = []\<rparr>"

definition sg_add_node :: "string \<Rightarrow> 'n \<Rightarrow> ('s, 'n) state_graph \<Rightarrow> ('s, 'n) state_graph" where
  "sg_add_node i n g = g\<lparr>sg_nodes := AList.update i n (sg_nodes g)\<rparr>"

definition sg_add_edge :: "string \<Rightarrow> string \<Rightarrow> ('s, 'n) state_graph \<Rightarrow> ('s, 'n) state_graph" where
  "sg_add_edge from_id to_id g = g\<lparr>sg_edges := sg_edges g @ [(from_id, to_id)]\<rparr>"

definition sg_add_conditional_edges ::
    "string \<Rightarrow> ('s \<Rightarrow> string) \<Rightarrow> (string \<times> string) list option \<Rightarrow> ('s, 'n) state_graph \<Rightarrow> ('s, 'n) state_graph" where
  "sg_add_conditional_edges source path path_map g =
     g\<lparr>sg_conditional := AList.update source \<lparr>ro_path = path, ro_path_map = path_map\<rparr> (sg_conditional g)\<rparr>"

record ('s, 'n) compiled_graph =
  cg_nodes :: "(string \<times> 'n) list"
  cg_first :: string
  cg_edge_order :: "string list"
  cg_next_map :: "(string \<times> 's next_entry) list"

subsection \<open>The checks of \<open>compile_internal\<close>, in their order\<close>

type_synonym 'a cresult = "compilation_error + 'a"

text \<open>A loop that returns the first error.\<close>

fun first_error :: "('a \<Rightarrow> compilation_error option) \<Rightarrow> 'a list \<Rightarrow> compilation_error option" where
  "first_error f [] = None"
| "first_error f (x # xs) = (case f x of Some e \<Rightarrow> Some e | None \<Rightarrow> first_error f xs)"

definition or_else :: "compilation_error option \<Rightarrow> 'a cresult \<Rightarrow> 'a cresult" where
  "or_else check rest = (case check of Some e \<Rightarrow> Inl e | None \<Rightarrow> rest)"

abbreviation has_node :: "('s, 'n) state_graph \<Rightarrow> string \<Rightarrow> bool" where
  "has_node g i \<equiv> i \<in> set (keys (sg_nodes g))"

definition check_edge :: "('s, 'n) state_graph \<Rightarrow> string \<times> string \<Rightarrow> compilation_error option" where
  "check_edge g e =
     (if fst e \<noteq> START \<and> \<not> has_node g (fst e) then Some (NodeNotFound (fst e))
      else if snd e \<noteq> END \<and> \<not> has_node g (snd e) then Some (NodeNotFound (snd e))
      else None)"

definition check_router :: "('s, 'n) state_graph \<Rightarrow> string \<times> 's router \<Rightarrow> compilation_error option" where
  "check_router g c =
     (if \<not> has_node g (fst c) then Some (NodeNotFound (fst c))
      else case ro_path_map (snd c) of
             None \<Rightarrow> None
           | Some m \<Rightarrow> first_error (\<lambda>t. if t \<noteq> END \<and> \<not> has_node g t then Some (InvalidConditionalPathMap t) else None)
                        (map snd m))"

definition start_targets :: "('s, 'n) state_graph \<Rightarrow> string list" where
  "start_targets g = map snd (filter (\<lambda>e. fst e = START) (sg_edges g))"

definition has_end :: "('s, 'n) state_graph \<Rightarrow> bool" where
  "has_end g \<longleftrightarrow> (\<exists>e \<in> set (sg_edges g). snd e = END) \<or>
     (\<exists>c \<in> set (sg_conditional g). case ro_path_map (snd c) of None \<Rightarrow> True | Some m \<Rightarrow> END \<in> set (map snd m))"

definition inner_edges :: "('s, 'n) state_graph \<Rightarrow> (string \<times> string) list" where
  "inner_edges g = filter (\<lambda>e. fst e \<noteq> START) (sg_edges g)"

text \<open>The walk along the linear chain, \<open>while let Some(next) = linear_next.get(&current)\<close>: every turn
  adds an unvisited key, so it ends.\<close>

function chain_walk :: "(string \<times> string) list \<Rightarrow> string \<Rightarrow> string list \<Rightarrow> string list cresult" where
  "chain_walk m current order =
     (case map_of m current of
        None \<Rightarrow> Inr order
      | Some nxt \<Rightarrow>
          if nxt = END then Inr order
          else if nxt \<in> set order then Inl (InvalidChain ''cycle detected'')
          else chain_walk m nxt (order @ [nxt]))"
  by pat_completeness auto
termination
proof (relation "measure (\<lambda>(m, current, order). card (set (map snd m) - set order))")
  fix m :: "(string \<times> string) list" and current nxt :: string and order :: "string list"
  assume "map_of m current = Some nxt" "nxt \<notin> set order"
  then have "nxt \<in> set (map snd m) - set order" by (force dest: map_of_SomeD)
  then have "set (map snd m) - set (order @ [nxt]) \<subset> set (map snd m) - set order" by auto
  then show "((m, nxt, order @ [nxt]), m, current, order)
      \<in> measure (\<lambda>(m, current, order). card (set (map snd m) - set order))"
    by (simp add: psubset_card_mono)
qed simp

declare chain_walk.simps [simp del]

definition compile_internal :: "('s, 'n) state_graph \<Rightarrow> ('s, 'n) compiled_graph cresult" where
  "compile_internal g =
     or_else (first_error (check_edge g) (sg_edges g))
      (or_else (first_error (check_router g) (sg_conditional g))
        (case start_targets g of
           [] \<Rightarrow> Inl MissingStart
         | _ # _ # _ \<Rightarrow> Inl (InvalidChain ''multiple edges from START (branch)'')
         | [first] \<Rightarrow>
             if \<not> has_end g then Inl MissingEnd
             else
               let froms = map fst (inner_edges g) in
               if card (set froms) \<noteq> length froms then Inl (InvalidChain ''duplicate from (branch)'')
               else
                 or_else (first_error (\<lambda>c. if fst c \<in> set froms then Some (NodeHasBothEdgeAndConditional (fst c)) else None)
                            (sg_conditional g))
                   (let next_map = fold (\<lambda>(s, r). AList.update s (Conditional r)) (sg_conditional g)
                          (map (\<lambda>(f, t). (f, Unconditional t)) (inner_edges g))
                    in case (if sg_conditional g = [] then chain_walk (inner_edges g) first [first] else Inr [first]) of
                         Inl e \<Rightarrow> Inl e
                       | Inr order \<Rightarrow>
                           Inr \<lparr>cg_nodes = sg_nodes g, cg_first = first, cg_edge_order = order, cg_next_map = next_map\<rparr>)))"

subsection \<open>What is accepted\<close>

lemma first_error_None: "first_error f xs = None \<longleftrightarrow> (\<forall>x \<in> set xs. f x = None)"
  by (induction xs) (auto split: option.splits)

lemma or_else_Inr: "or_else c r = Inr x \<longleftrightarrow> c = None \<and> r = Inr x"
  by (simp add: or_else_def split: option.splits)

text \<open>The walk returns the nodes in the order of the edges, without repetition.\<close>

definition follows :: "(string \<times> string) list \<Rightarrow> string list \<Rightarrow> bool" where
  "follows m order \<longleftrightarrow> (\<forall>i. Suc i < length order \<longrightarrow> map_of m (order ! i) = Some (order ! Suc i))"

lemma chain_walk_ok:
  "chain_walk m current order = Inr result \<Longrightarrow> order \<noteq> [] \<Longrightarrow> last order = current \<Longrightarrow> distinct order \<Longrightarrow>
   follows m order \<Longrightarrow>
   distinct result \<and> follows m result \<and> (\<exists>ext. result = order @ ext \<and> END \<notin> set ext) \<and>
   (map_of m (last result) = None \<or> map_of m (last result) = Some END)"
proof (induction m current order rule: chain_walk.induct)
  case (1 m current order)
  show ?case
  proof (cases "map_of m current")
    case None
    with "1.prems" show ?thesis by (simp add: chain_walk.simps [of m current])
  next
    case (Some nxt)
    show ?thesis
    proof (cases "nxt = END")
      case True
      with Some "1.prems" show ?thesis by (simp add: chain_walk.simps [of m current])
    next
      case False
      with Some "1.prems"(1) have n: "nxt \<notin> set order" "chain_walk m nxt (order @ [nxt]) = Inr result"
        by (simp_all add: chain_walk.simps [of m current] split: if_splits)
      have "follows m (order @ [nxt])"
        using "1.prems"(2-3,5) Some
        by (auto simp: follows_def nth_append last_conv_nth not_less less_Suc_eq_le) (metis One_nat_def diff_Suc_1)
      with "1.IH" [OF Some False n(1) n(2)] "1.prems"(4) n(1) False show ?thesis by auto
    qed
  qed
qed

definition compiled_ok :: "('s, 'n) state_graph \<Rightarrow> ('s, 'n) compiled_graph \<Rightarrow> bool" where
  "compiled_ok g c \<longleftrightarrow>
     cg_nodes c = sg_nodes g \<and> start_targets g = [cg_first c] \<and>
     (cg_first c = END \<or> has_node g (cg_first c)) \<and>
     (\<forall>i t. map_of (cg_next_map c) i = Some (Unconditional t) \<longleftrightarrow>
        i \<notin> set (keys (sg_conditional g)) \<and> i \<noteq> START \<and> (i, t) \<in> set (sg_edges g)) \<and>
     (\<forall>i r. map_of (cg_next_map c) i = Some (Conditional r) \<longleftrightarrow> (i, r) \<in> set (sg_conditional g)) \<and>
     (\<forall>i \<in> set (keys (cg_next_map c)). has_node g i) \<and>
     (\<forall>i t. map_of (cg_next_map c) i = Some (Unconditional t) \<longrightarrow> t = END \<or> has_node g t) \<and>
     (\<forall>i r m t. map_of (cg_next_map c) i = Some (Conditional r) \<longrightarrow> ro_path_map r = Some m \<longrightarrow>
        t \<in> snd ` set m \<longrightarrow> t = END \<or> has_node g t) \<and>
     distinct (cg_edge_order c) \<and> cg_edge_order c \<noteq> [] \<and> hd (cg_edge_order c) = cg_first c"

lemma fold_update_lookup:
  "map_of (fold (\<lambda>(s, r). AList.update s (f r)) rs m) i =
     (case map_of (rev rs) i of Some r \<Rightarrow> Some (f r) | None \<Rightarrow> map_of m i)"
  by (induction rs arbitrary: m) (auto simp: map_add_def split: option.splits)

lemma map_of_unconditional:
  "map_of (map (\<lambda>(f, t). (f, Unconditional t)) xs) i = map_option Unconditional (map_of xs i)"
  by (induction xs) auto

text \<open>The order derived for a graph without routers.\<close>

lemma linear_order:
  assumes "chain_walk m first [first] = Inr order" "first \<noteq> END"
  shows "distinct order" "hd order = first" "order \<noteq> []" "END \<notin> set order"
    "Suc i < length order \<Longrightarrow> map_of m (order ! i) = Some (order ! Suc i)"
    "map_of m (last order) = None \<or> map_of m (last order) = Some END"
  using chain_walk_ok [OF assms(1)] assms(2) by (auto simp: follows_def)

lemma compile_internal_Inr:
  assumes "compile_internal g = Inr c"
  obtains first where "start_targets g = [first]" "has_end g" "distinct (map fst (inner_edges g))"
    "\<forall>e \<in> set (sg_edges g). check_edge g e = None" "\<forall>e \<in> set (sg_conditional g). check_router g e = None"
    "\<forall>s \<in> set (keys (sg_conditional g)). s \<notin> set (map fst (inner_edges g))"
    "cg_nodes c = sg_nodes g" "cg_first c = first"
    "cg_next_map c = fold (\<lambda>(s, r). AList.update s (Conditional r)) (sg_conditional g)
       (map (\<lambda>(f, t). (f, Unconditional t)) (inner_edges g))"
    "(if sg_conditional g = [] then chain_walk (inner_edges g) first [first] else Inr [first]) = Inr (cg_edge_order c)"
  using assms unfolding compile_internal_def
  by (auto simp: or_else_Inr first_error_None Let_def card_distinct split: list.splits if_splits sum.splits)

lemma compile_internal_ok:
  assumes "compile_internal g = Inr c" and "distinct (keys (sg_conditional g))"
  shows "compiled_ok g c"
proof -
  from assms(1) obtain first where c: "start_targets g = [first]" "distinct (map fst (inner_edges g))"
    and edge: "\<forall>e \<in> set (sg_edges g). check_edge g e = None"
    and route: "\<forall>e \<in> set (sg_conditional g). check_router g e = None"
    and excl: "\<forall>s \<in> set (keys (sg_conditional g)). s \<notin> set (map fst (inner_edges g))"
    and f: "cg_nodes c = sg_nodes g" "cg_first c = first"
    and nm: "cg_next_map c = fold (\<lambda>(s, r). AList.update s (Conditional r)) (sg_conditional g)
       (map (\<lambda>(f, t). (f, Unconditional t)) (inner_edges g))"
    and order: "(if sg_conditional g = [] then chain_walk (inner_edges g) first [first] else Inr [first]) = Inr (cg_edge_order c)"
    by (rule compile_internal_Inr)
  have first: "(START, first) \<in> set (sg_edges g)"
  proof -
    have "first \<in> set (start_targets g)" by (simp add: c(1))
    then show ?thesis by (auto simp: start_targets_def)
  qed
  have look: "map_of (cg_next_map c) i =
      (case map_of (sg_conditional g) i of Some r \<Rightarrow> Some (Conditional r)
       | None \<Rightarrow> map_option Unconditional (map_of (inner_edges g) i))" for i
  proof -
    show ?thesis
      unfolding nm fold_update_lookup by (simp add: map_of_unconditional map_of_rev_distinct assms(2) split: option.split)
  qed
  have inner: "map_of (inner_edges g) i = Some t \<longleftrightarrow> i \<noteq> START \<and> (i, t) \<in> set (sg_edges g)" for i t
    using map_of_eq_Some_iff [OF c(2)] by (auto simp: inner_edges_def)
  have targets: "fst e = START \<or> has_node g (fst e)" "snd e = END \<or> has_node g (snd e)" if "e \<in> set (sg_edges g)" for e
    using bspec [OF edge that] by (auto simp: check_edge_def split: if_splits)
  have routers: "has_node g s" "ro_path_map r = Some m \<Longrightarrow> t \<in> snd ` set m \<Longrightarrow> t = END \<or> has_node g t"
    if "(s, r) \<in> set (sg_conditional g)" for s r m t
    using bspec [OF route that] by (auto simp: check_router_def first_error_None split: if_splits)
  have ord: "distinct (cg_edge_order c) \<and> (\<exists>ext. cg_edge_order c = first # ext)"
  proof (cases "sg_conditional g = []")
    case True
    with order chain_walk_ok [of "inner_edges g" first "[first]" "cg_edge_order c"]
    show ?thesis by (auto simp: follows_def)
  next
    case False
    with order have "cg_edge_order c = [first]" by simp
    then show ?thesis by simp
  qed
  have dom: "has_node g i" if "i \<in> set (keys (cg_next_map c))" for i
  proof -
    from that obtain e where "map_of (cg_next_map c) i = Some e" unfolding set_keys_map_of by blast
    then show ?thesis
      using targets(1) routers(1) by (fastforce simp: look inner split: option.splits dest: map_of_SomeD)
  qed
  have uncond: "map_of (cg_next_map c) i = Some (Unconditional t) \<longleftrightarrow>
      i \<notin> set (keys (sg_conditional g)) \<and> i \<noteq> START \<and> (i, t) \<in> set (sg_edges g)" for i t
    unfolding look set_keys_map_of inner [symmetric] by (auto split: option.split)
  have cond: "map_of (cg_next_map c) i = Some (Conditional r) \<longleftrightarrow> (i, r) \<in> set (sg_conditional g)" for i r
    unfolding look map_of_eq_Some_iff [OF assms(2), symmetric] by (auto split: option.splits)
  show ?thesis
    unfolding compiled_ok_def
  proof (intro conjI allI impI ballI)
    show "t = END \<or> has_node g t" if "map_of (cg_next_map c) i = Some (Unconditional t)" for i t
      using that targets(2) [of "(i, t)"] unfolding uncond by simp
    show "t = END \<or> has_node g t"
      if "map_of (cg_next_map c) i = Some (Conditional r)" "ro_path_map r = Some m" "t \<in> snd ` set m" for i r m t
      using routers(2) that cond by blast
    show "cg_first c = END \<or> has_node g (cg_first c)"
      using targets(2) [OF first] f(2) by simp
  qed (use f c(1) ord uncond cond dom in auto)
qed

text \<open>C16: what \<open>compile\<close> guarantees. Routers are kept in a hash map, one per node. An accepted graph starts at
  the one target of START, which is END or a registered node; the routing table gives a node its edge when
  it has no router and its router when it has one, and nothing else; every edge target and every path map
  target is END or a registered node; and the derived order is without repetition and starts at the first
  node.\<close>

theorem compile_sound:
  assumes "compile_internal g = Inr c" and "distinct (keys (sg_conditional g))"
  shows "compiled_ok g c"
  using assms by (rule compile_internal_ok)

lemma compile_sound_witness:
  "compiled_ok (sg_add_edge ''a'' END (sg_add_edge START ''a'' (sg_add_node ''a'' (0 :: nat) (state_graph_new :: (nat, nat) state_graph))))
     \<lparr>cg_nodes = [(''a'', 0)], cg_first = ''a'', cg_edge_order = [''a''], cg_next_map = [(''a'', Unconditional END)]\<rparr>"
  by (rule compile_sound)
    (simp_all add: compile_internal_def sg_add_edge_def sg_add_node_def state_graph_new_def check_edge_def or_else_def
      START_def END_def start_targets_def has_end_def inner_edges_def chain_walk.simps)
end
