(* ===== verification/Graph_Run.thy ===== *)
theory Graph_Run
  imports Graph_Compile Memory_Saver
begin

text \<open>
  \<open>foundation/graph-core/src/compiled.rs\<close>: executing a compiled graph. A node is a function of the
  call number and the state; \<open>cancelled p\<close> is the \<open>p\<close>-th look at the cancellation token. One turn of
  \<open>run_loop_inner\<close> (look at the token, run the node with retries, merge its state, route) is a
  function that stops or goes on; the loop over it may run forever, so it is a partial function.
  A node id that is not registered makes the code panic (\<open>expect\<close>), which is the end \<open>Panicked\<close>.
  Stream events, logging and the interrupt handler do not affect the result and are left out.
\<close>

type_synonym 's node_result = "graph_error + 's \<times> next_step"
type_synonym 's node_fun = "nat \<Rightarrow> 's \<Rightarrow> 's node_result"
type_synonym 's cgraph = "('s, 's node_fun) compiled_graph"

record ('s, 'f) run_env =
  re_policy :: "'f retry_policy"
  re_updater :: "'s \<Rightarrow> 's \<Rightarrow> 's"
  re_middleware :: "(string \<Rightarrow> ('s \<Rightarrow> 's node_result) \<Rightarrow> 's \<Rightarrow> 's node_result) option"
  re_extractor :: "('s \<Rightarrow> string option) option"
  re_fresh :: "nat \<Rightarrow> string"
  re_now :: "nat \<Rightarrow> nat"

record 's graph_world =
  gw_saver :: "'s memory_saver option"
  gw_drawn :: nat

datatype run_end = Finished | Failed_With graph_error | Panicked

datatype 's turn = Stop run_end 's "'s graph_world" | GoOn string 's nat

text \<open>\<open>execute_node_with_retry\<close>: the result and the number of the next call.\<close>

definition call_node :: "('s, 'f) run_env \<Rightarrow> string \<Rightarrow> 's node_fun \<Rightarrow> nat \<Rightarrow> 's \<Rightarrow> 's node_result" where
  "call_node E i node n s =
     (case re_middleware E of Some around \<Rightarrow> around i (node n) s | None \<Rightarrow> node n s)"

text \<open>\<open>LoggingNodeMiddleware\<close>, the middleware of verbose runs: it prints before and after the call and hands its
  result on.\<close>

definition logging_around_run :: "string \<Rightarrow> ('s \<Rightarrow> 's node_result) \<Rightarrow> 's \<Rightarrow> 's node_result" where
  "logging_around_run node_id inner state = inner state"

lemma call_node_logged:
  assumes "re_middleware E \<in> {None, Some logging_around_run}"
  shows "call_node E i node n s = node n s"
  using assms by (auto simp: call_node_def logging_around_run_def)

function execute_node_with_retry ::
    "('s, 'f) run_env \<Rightarrow> string \<Rightarrow> 's node_fun \<Rightarrow> 's \<Rightarrow> nat \<Rightarrow> nat \<Rightarrow> 's node_result \<times> nat" where
  "execute_node_with_retry E i node s n attempt =
     (case call_node E i node n s of
        Inr output \<Rightarrow> (Inr output, n + 1)
      | Inl e \<Rightarrow>
          if should_retry (re_policy E) attempt
          then execute_node_with_retry E i node s (n + 1) (attempt + 1)
          else (Inl e, n + 1))"
  by pat_completeness auto
termination
  by (relation "measure (\<lambda>(E, i, node, s, n, attempt). max_attempts (re_policy E) - attempt)")
    (auto simp: should_retry_def)

declare execute_node_with_retry.simps [simp del]

text \<open>Saving the state, at an interrupt and at the end; the result of \<open>put\<close> is ignored.\<close>

definition graph_checkpoint :: "('s, 'f) run_env \<Rightarrow> 's \<Rightarrow> nat \<Rightarrow> 's checkpoint" where
  "graph_checkpoint E s n =
     (let c = from_state (re_fresh E n) (re_now E n) s SrcUpdate 0
      in case re_extractor E of
           Some extract \<Rightarrow> c\<lparr>ck_kernel := (ck_kernel c)\<lparr>km_summary := extract (ck_channel_values c)\<rparr>\<rparr>
         | None \<Rightarrow> c)"

definition save_state :: "('s, 'f) run_env \<Rightarrow> runnable_config option \<Rightarrow> 's \<Rightarrow> 's graph_world \<Rightarrow> 's graph_world" where
  "save_state E config s w =
     (case (gw_saver w, config) of
        (Some sv, Some cfg) \<Rightarrow>
          (if rc_thread_id cfg = None then w
           else w\<lparr>gw_saver := Some (snd (ms_put cfg (graph_checkpoint E s (gw_drawn w)) sv)),
                  gw_drawn := gw_drawn w + 1\<rparr>)
      | _ \<Rightarrow> w)"

text \<open>Where to go next: a router decides, else the node's own answer; \<open>Continue\<close> follows the edge, or
  the linear order when there is none.\<close>

fun position :: "'a list \<Rightarrow> 'a \<Rightarrow> nat option" where
  "position [] x = None"
| "position (y # ys) x = (if y = x then Some 0 else map_option Suc (position ys x))"

definition next_in_order :: "string list \<Rightarrow> string \<Rightarrow> string option" where
  "next_in_order order i =
     (case position order i of
        None \<Rightarrow> None
      | Some p \<Rightarrow> (if p + 1 < length order then Some (order ! (p + 1)) else None))"

definition next_node :: "'s cgraph \<Rightarrow> string \<Rightarrow> 's \<Rightarrow> next_step \<Rightarrow> string option" where
  "next_node G i s nxt =
     (case map_of (cg_next_map G) i of
        Some (Conditional r) \<Rightarrow> Some (resolve_route r s)
      | entry \<Rightarrow>
          (case nxt of
             End \<Rightarrow> None
           | Node t \<Rightarrow> Some t
           | Continue \<Rightarrow>
               (case entry of
                  Some (Unconditional t) \<Rightarrow> Some t
                | _ \<Rightarrow> next_in_order (cg_edge_order G) i)))"

definition graph_turn ::
    "('s, 'f) run_env \<Rightarrow> 's cgraph \<Rightarrow> (nat \<Rightarrow> bool) \<Rightarrow> runnable_config option \<Rightarrow> nat \<Rightarrow> nat \<Rightarrow> string \<Rightarrow> 's
     \<Rightarrow> 's graph_world \<Rightarrow> 's turn" where
  "graph_turn E G cancelled config p n i s w =
     (if cancelled p then Stop (Failed_With Cancelled_Err) s w
      else case map_of (cg_nodes G) i of
        None \<Rightarrow> Stop Panicked s w
      | Some node \<Rightarrow>
          (case execute_node_with_retry E i node s n 0 of
             (Inl e, n') \<Rightarrow>
               (case e of
                  Interrupted_Err it \<Rightarrow> Stop (Failed_With e) s (save_state E config s w)
                | _ \<Rightarrow> Stop (Failed_With e) s w)
           | (Inr (new_state, nxt), n') \<Rightarrow>
               let s' = re_updater E s new_state in
               if cancelled (p + 1) then Stop (Failed_With Cancelled_Err) s' w
               else case next_node G i s' nxt of
                      None \<Rightarrow> Stop Finished s' (save_state E config s' w)
                    | Some t \<Rightarrow> if t = END then Stop Finished s' (save_state E config s' w) else GoOn t s' n'))"

partial_function (option) run_loop_inner ::
    "('s, 'f) run_env \<Rightarrow> 's cgraph \<Rightarrow> (nat \<Rightarrow> bool) \<Rightarrow> runnable_config option \<Rightarrow> nat \<Rightarrow> nat \<Rightarrow> string \<Rightarrow> 's
     \<Rightarrow> 's graph_world \<Rightarrow> (run_end \<times> 's \<times> 's graph_world) option" where
  "run_loop_inner E G cancelled config p n i s w =
     (case graph_turn E G cancelled config p n i s w of
        Stop e s' w' \<Rightarrow> Some (e, s', w')
      | GoOn t s' n' \<Rightarrow> run_loop_inner E G cancelled config (p + 2) n' t s' w)"

definition start_node :: "'s cgraph \<Rightarrow> runnable_config \<Rightarrow> string" where
  "start_node G config =
     (case rc_resume_from_node_id config of
        Some i \<Rightarrow> if i \<in> set (keys (cg_nodes G)) then i else cg_first G
      | None \<Rightarrow> cg_first G)"

text \<open>\<open>invoke\<close> makes its own context without a token; \<open>invoke_with_context\<close> takes the caller's.\<close>

definition graph_invoke ::
    "('s, 'f) run_env \<Rightarrow> 's cgraph \<Rightarrow> 's \<Rightarrow> runnable_config option \<Rightarrow> 's graph_world
     \<Rightarrow> (run_end \<times> 's \<times> 's graph_world) option" where
  "graph_invoke E G s config w =
     (if cg_nodes G = [] \<or> cg_first G \<notin> set (keys (cg_nodes G))
      then Some (Failed_With (ExecutionFailed ''empty graph''), s, w)
      else
        let cfg = (case config of Some c \<Rightarrow> c | None \<Rightarrow> default_config)
        in run_loop_inner E G (\<lambda>_. False) (Some cfg) 0 0 (start_node G cfg) s w)"

definition invoke_with_context ::
    "('s, 'f) run_env \<Rightarrow> 's cgraph \<Rightarrow> (nat \<Rightarrow> bool) \<Rightarrow> 's \<Rightarrow> runnable_config \<Rightarrow> 's graph_world
     \<Rightarrow> (run_end \<times> 's \<times> 's graph_world) option" where
  "invoke_with_context E G cancelled s cfg w =
     run_loop_inner E G cancelled (Some cfg) 0 0 (start_node G cfg) s w"

text \<open>\<open>stream\<close>: the same loop, from the head of the edge order.\<close>

definition graph_stream ::
    "('s, 'f) run_env \<Rightarrow> 's cgraph \<Rightarrow> (nat \<Rightarrow> bool) \<Rightarrow> 's \<Rightarrow> runnable_config option \<Rightarrow> 's graph_world
     \<Rightarrow> (run_end \<times> 's \<times> 's graph_world) option" where
  "graph_stream E G cancelled s config w =
     (case cg_edge_order G of
        [] \<Rightarrow> Some (Finished, s, w)
      | i # _ \<Rightarrow> run_loop_inner E G cancelled config 0 0 i s w)"

subsection \<open>Cancellation ends every run\<close>

lemma run_loop_cancelled:
  assumes "cancelled k" "\<And>j. k \<le> j \<Longrightarrow> cancelled j"
  shows "run_loop_inner E G cancelled config p n i s w \<noteq> None"
proof (induction "k - p" arbitrary: p n i s rule: less_induct)
  case less
  show ?case
  proof (cases "graph_turn E G cancelled config p n i s w")
    case (Stop e s' w')
    then show ?thesis by (subst run_loop_inner.simps) simp
  next
    case (GoOn t s' n')
    have "\<not> cancelled p"
      using GoOn by (auto simp: graph_turn_def)
    then have "p < k" using assms(2) not_le by blast
    then have "run_loop_inner E G cancelled config (p + 2) n' t s' w \<noteq> None" by (intro less) simp
    with GoOn show ?thesis by (subst run_loop_inner.simps) simp
  qed
qed

text \<open>cancellation stops every graph. Once the token has fired, a run returns, however the graph
  loops and whatever its nodes answer.\<close>

theorem cancelled_run_returns:
  assumes "\<And>j. k \<le> j \<Longrightarrow> cancelled j"
  shows "invoke_with_context E G cancelled s cfg w \<noteq> None"
  unfolding invoke_with_context_def using run_loop_cancelled [of cancelled k] assms by simp

subsection \<open>Linear graphs\<close>

lemma position_nth: "distinct xs \<Longrightarrow> i < length xs \<Longrightarrow> position xs (xs ! i) = Some i"
proof (induction xs arbitrary: i)
  case (Cons x xs)
  then show ?case by (cases i) (auto simp: nth_eq_iff_index_eq)
qed simp

lemma next_in_order_last: "distinct xs \<Longrightarrow> xs \<noteq> [] \<Longrightarrow> next_in_order xs (last xs) = None"
  by (simp add: next_in_order_def last_conv_nth position_nth)

definition answers_continue :: "('s, 'f) run_env \<Rightarrow> 's cgraph \<Rightarrow> (string \<Rightarrow> 's \<Rightarrow> 's) \<Rightarrow> bool" where
  "answers_continue E G f \<longleftrightarrow>
     (\<forall>i node n s. map_of (cg_nodes G) i = Some node \<longrightarrow> call_node E i node n s = Inr (f i s, Continue))"

definition run_in_order :: "('s, 'f) run_env \<Rightarrow> (string \<Rightarrow> 's \<Rightarrow> 's) \<Rightarrow> string list \<Rightarrow> 's \<Rightarrow> 's" where
  "run_in_order E f order s = fold (\<lambda>i s. re_updater E s (f i s)) order s"

lemma graph_turn_continue:
  assumes "answers_continue E G f" "map_of (cg_nodes G) i = Some node"
  shows "graph_turn E G (\<lambda>_. False) config p n i s w =
     (let s' = re_updater E s (f i s) in
      case next_node G i s' Continue of
        None \<Rightarrow> Stop Finished s' (save_state E config s' w)
      | Some t \<Rightarrow> if t = END then Stop Finished s' (save_state E config s' w) else GoOn t s' (Suc n))"
  using assms
  by (simp add: graph_turn_def answers_continue_def execute_node_with_retry.simps [of E i node s n 0] Let_def)

lemma linear_loop:
  assumes c: "compile_internal g = Inr c" "sg_conditional g = []" "cg_first c \<noteq> END"
    and f: "answers_continue E c f"
  shows "j < length (cg_edge_order c) \<Longrightarrow>
    run_loop_inner E c (\<lambda>_. False) config p n (cg_edge_order c ! j) s w =
      (let s' = run_in_order E f (drop j (cg_edge_order c)) s in Some (Finished, s', save_state E config s' w))"
proof (induction "length (cg_edge_order c) - j" arbitrary: j p n s rule: less_induct)
  case less
  let ?o = "cg_edge_order c"
  from c(1) have walk: "chain_walk (inner_edges g) (cg_first c) [cg_first c] = Inr ?o"
    and nm: "cg_next_map c = map (\<lambda>(f, t). (f, Unconditional t)) (inner_edges g)"
    and nodes: "cg_nodes c = sg_nodes g"
    and edges: "\<forall>e \<in> set (sg_edges g). check_edge g e = None" and st: "start_targets g = [cg_first c]"
    using c(2) by (auto elim!: compile_internal_Inr)
  note o = linear_order [OF walk c(3)]
  have reg: "\<exists>node. map_of (cg_nodes c) (?o ! j) = Some node"
  proof (cases j)
    case 0
    have "cg_first c \<in> set (start_targets g)" by (simp add: st)
    then have "(START, cg_first c) \<in> set (sg_edges g)" by (auto simp: start_targets_def)
    then have "has_node g (cg_first c)" using edges c(3) by (force simp: check_edge_def split: if_splits)
    moreover have "?o ! j = cg_first c" using o(2,3) 0 by (simp add: hd_conv_nth)
    ultimately show ?thesis unfolding nodes set_keys_map_of by simp
  next
    case (Suc k)
    then have "map_of (inner_edges g) (?o ! k) = Some (?o ! j)" using o(5) [of k] less.prems by simp
    then have "(?o ! k, ?o ! j) \<in> set (sg_edges g)" by (auto simp: inner_edges_def dest: map_of_SomeD)
    moreover have "?o ! j \<noteq> END" using o(4) less.prems nth_mem by metis
    ultimately have "has_node g (?o ! j)" using edges by (force simp: check_edge_def split: if_splits)
    then show ?thesis unfolding nodes set_keys_map_of by simp
  qed
  then obtain node where node: "map_of (cg_nodes c) (?o ! j) = Some node" ..
  have nx: "next_node c (?o ! j) s' Continue =
      (case map_of (inner_edges g) (?o ! j) of Some t \<Rightarrow> Some t | None \<Rightarrow> next_in_order ?o (?o ! j))" for s'
    by (simp add: next_node_def nm map_of_unconditional split: option.split)
  have dr: "drop j ?o = ?o ! j # drop (Suc j) ?o" using less.prems by (simp add: Cons_nth_drop_Suc)
  let ?s = "re_updater E s (f (?o ! j) s)"
  show ?case
  proof (cases "Suc j < length ?o")
    case True
    then have "?o ! Suc j \<noteq> END" using o(4) nth_mem by metis
    with True have "graph_turn E c (\<lambda>_. False) config p n (?o ! j) s w = GoOn (?o ! Suc j) ?s (Suc n)"
      unfolding graph_turn_continue [OF f node] nx by (simp add: o(5))
    then show ?thesis
      using less.hyps [of "Suc j"] True less.prems
      by (subst run_loop_inner.simps) (simp add: dr run_in_order_def)
  next
    case False
    then have "length ?o = Suc j" using less.prems by simp
    then have l: "?o ! j = last ?o" "drop (Suc j) ?o = []" using o(3) by (simp_all add: last_conv_nth)
    have "graph_turn E c (\<lambda>_. False) config p n (?o ! j) s w = Stop Finished ?s (save_state E config ?s w)"
      unfolding graph_turn_continue [OF f node] nx using o(6) next_in_order_last [OF o(1,3)]
      by (auto simp: l(1) Let_def split: option.split)
    then show ?thesis
      by (subst run_loop_inner.simps) (simp add: dr l(2) run_in_order_def Let_def)
  qed
qed

text \<open>C28: a linear graph is the composition of its nodes. A graph without routers that compiles, whose START
  does not lead to END at once and whose nodes answer \<open>Continue\<close>, runs each node of the derived order once,
  in that order, merging every result into the state, then saves the final state and returns it. A run
  that starts at a later node of the order, because it resumes there, runs the nodes from that one on.\<close>

theorem linear_graph_runs_in_order:
  assumes "compile_internal g = Inr c" and "sg_conditional g = []" and "cg_first c \<noteq> END"
    and "answers_continue E c f" and "j < length (cg_edge_order c)" and "start_node c cfg = cg_edge_order c ! j"
  shows "graph_invoke E c s (Some cfg) w =
      (let s' = run_in_order E f (drop j (cg_edge_order c)) s in Some (Finished, s', save_state E (Some cfg) s' w)) \<and>
    (rc_resume_from_node_id cfg = None \<longrightarrow> j = 0)"
proof -
  have o: "distinct (cg_edge_order c)" "cg_edge_order c \<noteq> []" "hd (cg_edge_order c) = cg_first c"
    "cg_first c = END \<or> has_node g (cg_first c)" "cg_nodes c = sg_nodes g"
    using compile_internal_ok [OF assms(1)] assms(2) by (auto simp: compiled_ok_def)
  have first: "cg_first c = cg_edge_order c ! 0" using o(2,3) by (simp add: hd_conv_nth)
  have "j = 0" if "rc_resume_from_node_id cfg = None"
    using that assms(5,6) first o(1,2) by (simp add: start_node_def nth_eq_iff_index_eq)
  moreover have "cg_first c \<in> set (keys (cg_nodes c))" using o(4,5) assms(3) by simp
  moreover from this have "cg_nodes c \<noteq> []" by auto
  ultimately show ?thesis
    using linear_loop [OF assms(1-5), of "Some cfg" 0 0 s w] assms(6) by (simp add: graph_invoke_def)
qed

definition two_chain :: "(nat, nat node_fun) state_graph" where
  "two_chain = sg_add_edge ''b'' END (sg_add_edge ''a'' ''b'' (sg_add_edge START ''a''
     (sg_add_node ''b'' (\<lambda>n s. Inr (2 * s, Continue)) (sg_add_node ''a'' (\<lambda>n s. Inr (s + 1, Continue)) state_graph_new))))"

definition plain_env :: "(nat, unit) run_env" where
  "plain_env = \<lparr>re_policy = NoRetry, re_updater = (\<lambda>s t. t), re_middleware = None, re_extractor = None,
     re_fresh = show_nat, re_now = (\<lambda>_. 0)\<rparr>"

definition two_compiled :: "nat cgraph" where
  "two_compiled = \<lparr>cg_nodes = sg_nodes two_chain, cg_first = ''a'', cg_edge_order = [''a'', ''b''],
     cg_next_map = [(''a'', Unconditional ''b''), (''b'', Unconditional END)]\<rparr>"

lemma sentinels: "START \<noteq> ''b''" "START \<noteq> ''a''" "END \<noteq> ''a''" "END \<noteq> ''b''" "END \<noteq> ''nowhere''"
  by (simp_all add: START_def END_def)

lemmas graph_build_defs = sg_add_edge_def sg_add_node_def sg_add_conditional_edges_def state_graph_new_def

lemmas compile_defs = compile_internal_def check_edge_def check_router_def or_else_def start_targets_def
  has_end_def inner_edges_def chain_walk.simps

lemma two_chain_compiles: "compile_internal two_chain = Inr two_compiled"
  using sentinels by (simp add: compile_defs two_chain_def two_compiled_def graph_build_defs)

lemma two_chain_answers: "answers_continue plain_env two_compiled (\<lambda>i s. if i = ''a'' then s + 1 else 2 * s)"
  by (auto simp: answers_continue_def call_node_def plain_env_def two_compiled_def two_chain_def graph_build_defs
      split: if_splits)

lemma linear_graph_runs_in_order_witness:
  "graph_invoke plain_env two_compiled 3 (Some default_config) \<lparr>gw_saver = None, gw_drawn = 0\<rparr> =
     Some (Finished, 8, \<lparr>gw_saver = None, gw_drawn = 0\<rparr>)"
proof -
  have "sg_conditional two_chain = []" "cg_first two_compiled \<noteq> END" "0 < length (cg_edge_order two_compiled)"
    "start_node two_compiled default_config = cg_edge_order two_compiled ! 0"
    by (simp_all add: two_chain_def graph_build_defs two_compiled_def END_def start_node_def default_config_def)
  from linear_graph_runs_in_order [OF two_chain_compiles this(1,2) two_chain_answers this(3,4)]
  show ?thesis by (simp add: two_compiled_def run_in_order_def plain_env_def save_state_def)
qed

lemma cancelled_run_returns_witness:
  "invoke_with_context plain_env two_compiled (\<lambda>p. 3 \<le> p) 3 default_config \<lparr>gw_saver = None, gw_drawn = 0\<rparr> \<noteq> None"
  by (rule cancelled_run_returns [of 3]) simp

subsection \<open>What is persisted\<close>

lemma save_state_latest:
  assumes "gw_saver w = Some sv" "rc_thread_id cfg = Some t" "rc_checkpoint_id cfg = None"
    and "re_fresh E (gw_drawn w) \<notin> set (ms_ids (t @ '':'' @ rc_checkpoint_ns cfg) sv)"
  shows "\<exists>c sv'. gw_saver (save_state E (Some cfg) s w) = Some sv' \<and>
     ms_get_tuple cfg sv' = Inr (Some (c, ck_kernel c)) \<and> ck_channel_values c = s"
proof -
  have "ck_id (graph_checkpoint E s n) = re_fresh E n" "ck_channel_values (graph_checkpoint E s n) = s" for n
    by (simp_all add: graph_checkpoint_def from_state_def Let_def split: option.split)
  then show ?thesis
    using assms ms.get_put_latest [of cfg "t @ '':'' @ rc_checkpoint_ns cfg" cfg "graph_checkpoint E s (gw_drawn w)" sv]
    by (auto simp: save_state_def ms_part_def thread_key_def)
qed

text \<open>a graph stops with its state saved. When a turn ends the run regularly or with an interrupt, and
  there is a checkpointer, a thread and a new identifier, the latest checkpoint of the thread holds
  exactly the state the run stops with; at an interrupt that is the state before the node ran, so it
  can be run again.\<close>

theorem stopped_state_is_saved:
  assumes "graph_turn E G cancelled (Some cfg) p n i s w = Stop e s' w'"
    and "e = Finished \<or> (\<exists>it. e = Failed_With (Interrupted_Err it))"
    and "gw_saver w = Some sv" and "rc_thread_id cfg = Some t" and "rc_checkpoint_id cfg = None"
    and "re_fresh E (gw_drawn w) \<notin> set (ms_ids (t @ '':'' @ rc_checkpoint_ns cfg) sv)"
  shows "(\<exists>c sv'. gw_saver w' = Some sv' \<and> ms_get_tuple cfg sv' = Inr (Some (c, ck_kernel c)) \<and>
            ck_channel_values c = s') \<and>
         (e \<noteq> Finished \<longrightarrow> s' = s)"
proof -
  have "w' = save_state E (Some cfg) s' w \<and> (e \<noteq> Finished \<longrightarrow> s' = s)"
    using assms(1,2)
    by (auto simp: graph_turn_def Let_def split: if_splits option.splits prod.splits sum.splits graph_error.splits)
  then show ?thesis using save_state_latest [OF assms(3-6)] by simp
qed

lemma stopped_state_is_saved_witness:
  "\<exists>c sv'. gw_saver (case graph_turn plain_env
        \<lparr>cg_nodes = [(''a'', \<lambda>n s. Inl (Interrupted_Err (interrupt_new JNull)))], cg_first = ''a'', cg_edge_order = [''a''],
         cg_next_map = []\<rparr> (\<lambda>_. False) (Some (thread_cfg ''t'' [])) 0 0 ''a'' 5
        \<lparr>gw_saver = Some memory_saver_new, gw_drawn = 0\<rparr> of Stop e s' w' \<Rightarrow> w') = Some sv' \<and>
     ms_get_tuple (thread_cfg ''t'' []) sv' = Inr (Some (c, ck_kernel c)) \<and> ck_channel_values c = 5"
proof -
  let ?G = "\<lparr>cg_nodes = [(''a'', \<lambda>n s. Inl (Interrupted_Err (interrupt_new JNull)))], cg_first = ''a'', cg_edge_order = [''a''],
         cg_next_map = []\<rparr> :: nat cgraph"
  let ?w = "\<lparr>gw_saver = Some memory_saver_new, gw_drawn = 0\<rparr> :: nat graph_world"
  have "graph_turn plain_env ?G (\<lambda>_. False) (Some (thread_cfg ''t'' [])) 0 0 ''a'' 5 ?w =
      Stop (Failed_With (Interrupted_Err (interrupt_new JNull))) 5 (save_state plain_env (Some (thread_cfg ''t'' [])) 5 ?w)"
    by (simp add: graph_turn_def execute_node_with_retry.simps call_node_def plain_env_def should_retry_def)
  from stopped_state_is_saved [OF this, of memory_saver_new "''t''"] this show ?thesis
    by (simp add: thread_cfg_def default_config_def ms_ids_def memory_saver_new_def)
qed

subsection \<open>Panics\<close>

text \<open>Every answer of a node and of a router is END or a registered node.\<close>

definition routes_closed :: "('s, 'f) run_env \<Rightarrow> 's cgraph \<Rightarrow> bool" where
  "routes_closed E G \<longleftrightarrow>
     (\<forall>i node n s s' t. map_of (cg_nodes G) i = Some node \<longrightarrow> call_node E i node n s = Inr (s', Node t) \<longrightarrow>
        t = END \<or> t \<in> set (keys (cg_nodes G))) \<and>
     (\<forall>i r s. map_of (cg_next_map G) i = Some (Conditional r) \<longrightarrow>
        resolve_route r s = END \<or> resolve_route r s \<in> set (keys (cg_nodes G)))"

lemma execute_result_from_call:
  "execute_node_with_retry E i node s n attempt = (Inr out, n') \<Longrightarrow> \<exists>m. call_node E i node m s = Inr out"
proof (induction E i node s n attempt rule: execute_node_with_retry.induct)
  case (1 E i node s n attempt)
  then show ?case
    by (auto simp: execute_node_with_retry.simps [of E i node s n attempt] split: sum.splits if_splits)
qed

definition order_registered :: "'s cgraph \<Rightarrow> bool" where
  "order_registered G \<longleftrightarrow>
     (\<forall>x \<in> set (cg_edge_order G). x = END \<or> x \<in> set (keys (cg_nodes G))) \<and>
     (\<forall>i t. map_of (cg_next_map G) i = Some (Unconditional t) \<longrightarrow> t = END \<or> t \<in> set (keys (cg_nodes G)))"

lemma next_in_order_member: "next_in_order order i = Some t \<Longrightarrow> t \<in> set order"
  by (auto simp: next_in_order_def split: option.splits if_splits)

lemma next_node_cases:
  assumes "next_node G i s nxt = Some t"
  obtains r where "map_of (cg_next_map G) i = Some (Conditional r)" "t = resolve_route r s"
  | "nxt = Node t"
  | "map_of (cg_next_map G) i = Some (Unconditional t)"
  | "t \<in> set (cg_edge_order G)"
  using assms unfolding next_node_def
  by (auto split: option.splits next_entry.splits next_step.splits dest: next_in_order_member)

lemma next_node_registered:
  assumes r: "routes_closed E G" and o: "order_registered G" and node: "map_of (cg_nodes G) i = Some node"
    and call: "call_node E i node m s = Inr (s'', nxt)" and nx: "next_node G i s' nxt = Some t"
  shows "t = END \<or> t \<in> set (keys (cg_nodes G))"
  using nx
proof (cases rule: next_node_cases)
  case (1 r)
  with r show ?thesis unfolding routes_closed_def by blast
next
  case 2
  with r node call show ?thesis unfolding routes_closed_def by blast
qed (use o in \<open>auto simp: order_registered_def\<close>)

lemma graph_turn_registered:
  assumes "routes_closed E G" "order_registered G" "i \<in> set (keys (cg_nodes G))"
  shows "case graph_turn E G cancelled config p n i s w of
           Stop e s' w' \<Rightarrow> e \<noteq> Panicked | GoOn t s' n' \<Rightarrow> t \<in> set (keys (cg_nodes G))"
proof -
  obtain node where node: "map_of (cg_nodes G) i = Some node" using assms(3) unfolding set_keys_map_of by blast
  obtain r n' where ex: "execute_node_with_retry E i node s n 0 = (r, n')" by fastforce
  show ?thesis
  proof (cases r)
    case (Inl e)
    then show ?thesis by (cases e) (simp_all add: graph_turn_def node ex)
  next
    case (Inr out)
    obtain s1 nxt where out: "out = (s1, nxt)" by fastforce
    obtain m where m: "call_node E i node m s = Inr (s1, nxt)"
      using execute_result_from_call ex Inr out by metis
    show ?thesis
      using next_node_registered [OF assms(1,2) node m]
      by (auto simp: graph_turn_def node ex Inr out Let_def split: option.split)
  qed
qed

definition closed_run :: "('s, 'f) run_env \<Rightarrow> 's cgraph \<Rightarrow> string \<Rightarrow> bool" where
  "closed_run E G i \<longleftrightarrow> routes_closed E G \<and> order_registered G \<and> i \<in> set (keys (cg_nodes G))"

lemma run_never_panics:
  assumes "run_loop_inner E G cancelled config p n i s w = Some r"
  shows "closed_run E G i \<longrightarrow> fst r \<noteq> Panicked"
proof (rule run_loop_inner.raw_induct [OF _ assms, where P = "\<lambda>E G cancelled config p n i s w r. closed_run E G i \<longrightarrow> fst r \<noteq> Panicked"])
  fix rl and E :: "('a, 'b) run_env" and G cancelled config p n i s w r
  assume IH: "\<And>E G cancelled config p n i s w r. rl E G cancelled config p n i s w = Some r \<Longrightarrow>
      closed_run E G i \<longrightarrow> fst r \<noteq> Panicked"
    and body: "(case graph_turn E G cancelled config p n i s w of Stop e s' w' \<Rightarrow> Some (e, s', w')
      | GoOn t s' n' \<Rightarrow> rl E G cancelled config (p + 2) n' t s' w) = Some r"
  show "closed_run E G i \<longrightarrow> fst r \<noteq> Panicked"
  proof (rule impI)
    assume a: "closed_run E G i"
    note turn = graph_turn_registered [of E G i cancelled config p n s w] a [unfolded closed_run_def]
    show "fst r \<noteq> Panicked"
    proof (cases "graph_turn E G cancelled config p n i s w")
      case (Stop e s' w')
      with body turn show ?thesis by auto
    next
      case (GoOn t s' n')
      then have "closed_run E G t" using turn by (simp add: closed_run_def)
      moreover have "rl E G cancelled config (p + 2) n' t s' w = Some r" using body GoOn by simp
      ultimately show ?thesis using IH by blast
    qed
  qed
qed

lemma chain_walk_members:
  "chain_walk m current order = Inr result \<Longrightarrow> set result \<subseteq> set order \<union> snd ` set m"
proof (induction m current order rule: chain_walk.induct)
  case (1 m current order)
  then show ?case
    by (auto simp: chain_walk.simps [of m current order] image_iff split: option.splits if_splits dest: map_of_SomeD)
       (use 1 in \<open>fastforce dest: map_of_SomeD\<close>)+
qed

lemma compiled_order_registered:
  assumes "compile_internal g = Inr c" "distinct (keys (sg_conditional g))"
  shows "order_registered c"
proof -
  have ok: "compiled_ok g c" by (rule compile_internal_ok [OF assms])
  have "x = END \<or> x \<in> set (keys (cg_nodes c))" if "x \<in> set (cg_edge_order c)" for x
  proof -
    from assms(1) obtain f where edges: "\<forall>e \<in> set (sg_edges g). check_edge g e = None" and first: "cg_first c = f"
      and w: "(if sg_conditional g = [] then chain_walk (inner_edges g) f [f] else Inr [f]) = Inr (cg_edge_order c)"
      and nodes: "cg_nodes c = sg_nodes g"
      by (rule compile_internal_Inr)
    have "x = f \<or> x \<in> snd ` set (sg_edges g)"
    proof (cases "sg_conditional g = []")
      case True
      with w that chain_walk_members [of "inner_edges g" f "[f]" "cg_edge_order c"] show ?thesis
        by (auto simp: inner_edges_def)
    next
      case False
      with w have "cg_edge_order c = [f]" by simp
      with that show ?thesis by simp
    qed
    then show ?thesis
      using edges ok first nodes by (fastforce simp: compiled_ok_def check_edge_def split: if_splits)
  qed
  with ok show ?thesis by (auto simp: order_registered_def compiled_ok_def)
qed

text \<open>C17: when a compiled graph panics. Let the nodes' jumps and the routers' answers be END or registered
  (the compile step checks the targets of edges and path maps, but not keys a path map misses), and let
  routers be kept one per node, as in a hash map. Then a run that returns ends with the panic on a missing
  node in one case only: it starts at END, no node has that name and the run is not cancelled before. That
  is the graph whose START leads to END at once, which \<open>compile\<close> accepts.\<close>

theorem compiled_graph_never_panics:
  assumes "compile_internal g = Inr c" and "distinct (keys (sg_conditional g))"
    and "routes_closed E c" and "invoke_with_context E c cancelled s cfg w = Some (e, s', w')"
  shows "e = Panicked \<longleftrightarrow> start_node c cfg = END \<and> \<not> has_node g END \<and> \<not> cancelled 0"
proof (cases "start_node c cfg \<in> set (keys (cg_nodes c))")
  case True
  then have "e \<noteq> Panicked"
    using assms run_never_panics [of E c cancelled "Some cfg" 0 0 "start_node c cfg" s w "(e, s', w')"]
      compiled_order_registered [OF assms(1,2)]
    by (simp add: invoke_with_context_def closed_run_def)
  moreover have "cg_nodes c = sg_nodes g" using compile_internal_ok [OF assms(1,2)] by (simp add: compiled_ok_def)
  ultimately show ?thesis using True by (metis (no_types))
next
  case False
  have ok: "cg_nodes c = sg_nodes g" "cg_first c = END \<or> has_node g (cg_first c)"
    using compile_internal_ok [OF assms(1,2)] by (simp_all add: compiled_ok_def)
  have start: "start_node c cfg = cg_first c" using False by (auto simp: start_node_def split: option.splits if_splits)
  then have "cg_first c = END" using ok False by auto
  then have s: "start_node c cfg = END" "\<not> has_node g END" "map_of (cg_nodes c) END = None"
    using start False ok(1) by (simp_all add: map_of_eq_None_iff)
  have "e = Panicked \<longleftrightarrow> \<not> cancelled 0"
    using assms(4) s(3) unfolding invoke_with_context_def s(1) run_loop_inner.simps [of E c cancelled _ _ _ END]
    by (auto simp: graph_turn_def split: if_splits)
  with s show ?thesis by simp
qed

lemma compiled_graph_never_panics_witness:
  "\<exists>e s' w'. invoke_with_context plain_env two_compiled (\<lambda>_. False) 3 default_config \<lparr>gw_saver = None, gw_drawn = 0\<rparr> =
     Some (e, s', w') \<and> e \<noteq> Panicked"
proof -
  have d: "distinct (keys (sg_conditional two_chain))" by (simp add: two_chain_def graph_build_defs)
  have c: "routes_closed plain_env two_compiled"
    using two_chain_answers
    by (auto simp: routes_closed_def answers_continue_def two_compiled_def split: if_splits)
  have run: "invoke_with_context plain_env two_compiled (\<lambda>_. False) 3 default_config \<lparr>gw_saver = None, gw_drawn = 0\<rparr> =
      Some (Finished, 8, \<lparr>gw_saver = None, gw_drawn = 0\<rparr>)"
    using linear_loop [OF two_chain_compiles _ _ two_chain_answers, of 0 "Some default_config" 0 0 3 "\<lparr>gw_saver = None, gw_drawn = 0\<rparr>"]
      sentinels
    by (simp add: invoke_with_context_def start_node_def default_config_def two_compiled_def two_chain_def graph_build_defs
        run_in_order_def plain_env_def save_state_def)
  have "start_node two_compiled default_config \<noteq> END"
    using sentinels by (simp add: start_node_def default_config_def two_compiled_def)
  with compiled_graph_never_panics [OF two_chain_compiles d c run] run show ?thesis by auto
qed

text \<open>The graph without a node on its chain is accepted, and a run with a context panics.\<close>

lemma empty_chain_panics:
  "case compile_internal (sg_add_edge START END (state_graph_new :: (nat, nat node_fun) state_graph)) of
     Inl e \<Rightarrow> False
   | Inr c \<Rightarrow> map_option fst (invoke_with_context plain_env c (\<lambda>_. False) 0 default_config \<lparr>gw_saver = None, gw_drawn = 0\<rparr>) = Some Panicked"
  by (simp add: compile_defs graph_build_defs START_def END_def invoke_with_context_def start_node_def default_config_def
      run_loop_inner.simps graph_turn_def)

text \<open>A key the path map misses makes the run panic.\<close>

lemma unmapped_route_panics:
  "let g = sg_add_conditional_edges ''a'' (\<lambda>_. ''nowhere'') (Some [(''done'', END)]) (sg_add_edge START ''a''
             (sg_add_node ''a'' (\<lambda>n s. Inr (s, Continue)) (state_graph_new :: (nat, nat node_fun) state_graph)))
   in case compile_internal g of Inl e \<Rightarrow> False
      | Inr c \<Rightarrow> map_option fst (graph_invoke plain_env c 0 None \<lparr>gw_saver = None, gw_drawn = 0\<rparr>) = Some Panicked"
  using sentinels by (simp add: compile_defs graph_build_defs graph_invoke_def start_node_def default_config_def
      run_loop_inner.simps graph_turn_def execute_node_with_retry.simps call_node_def plain_env_def next_node_def
      resolve_route_def Let_def)

text \<open>Connectedness is not checked: a node no edge leads to is accepted.\<close>

lemma disconnected_graph_compiles:
  "case compile_internal (sg_add_edge ''b'' END (sg_add_edge START ''a'' (sg_add_node ''b'' () (sg_add_node ''a'' ()
      (state_graph_new :: (nat, unit) state_graph))))) of
     Inl e \<Rightarrow> False | Inr c \<Rightarrow> cg_edge_order c = [''a'']"
  by (simp add: compile_defs graph_build_defs START_def END_def)

text \<open>An interrupt is retried like any error: with the default policy the node is called again before the
  interrupt is reported.\<close>

lemma interrupt_is_retried:
  "execute_node_with_retry (plain_env\<lparr>re_policy := NoRetry\<rparr>) i
     (\<lambda>n s. if n = 0 then Inl (Interrupted_Err (interrupt_new v)) else Inr (s, End)) s 0 0 = (Inr (s, End), 2)"
  by (simp add: execute_node_with_retry.simps call_node_def plain_env_def should_retry_def)

end
