(* ===== verification/Graph_Channels.thy ===== *)
theory Graph_Channels
  imports Main
begin

text \<open>
  \<open>foundation/graph-core/src/channels/\<close>: the typed channels and state updaters of the state graph. A
  channel is read, written once or updated with a batch; the only failing wr is a name a barrier
  does not expect. The locale \<open>batch_channel\<close> is the contract the channels share, that a batch is its
  writes one after the other.
\<close>

datatype channel_error = InvalidUpdate string

text \<open>Running the writes of a batch, stopping at the first error; what was written stays written.\<close>

fun write_all :: "('a \<Rightarrow> 'c \<Rightarrow> (channel_error + unit) \<times> 'c) \<Rightarrow> 'a list \<Rightarrow> 'c \<Rightarrow> (channel_error + unit) \<times> 'c" where
  "write_all wr [] c = (Inr (), c)"
| "write_all wr (x # xs) c =
     (case wr x c of
        (Inl e, c') \<Rightarrow> (Inl e, c')
      | (Inr _, c') \<Rightarrow> write_all wr xs c')"

locale batch_channel =
  fixes wr :: "'a \<Rightarrow> 'c \<Rightarrow> (channel_error + unit) \<times> 'c"
    and upds :: "'a list \<Rightarrow> 'c \<Rightarrow> (channel_error + unit) \<times> 'c"
  assumes update_writes: "upds xs c = write_all wr xs c"
begin

lemma write_all_append:
  "write_all wr (xs @ ys) c =
     (case write_all wr xs c of (Inl e, c') \<Rightarrow> (Inl e, c') | (Inr _, c') \<Rightarrow> write_all wr ys c')"
  by (induction xs arbitrary: c) (auto split: prod.split sum.split)

text \<open>Batches can be split at will.\<close>

lemma update_append:
  "upds (xs @ ys) c = (case upds xs c of (Inl e, c') \<Rightarrow> (Inl e, c') | (Inr _, c') \<Rightarrow> upds ys c')"
  by (simp add: update_writes write_all_append split: prod.split sum.split)

end

subsection \<open>LastValue and EphemeralValue\<close>

record 'a value_cell =
  vc_value :: "'a option"

definition vc_new :: "'a value_cell" where
  "vc_new = \<lparr>vc_value = None\<rparr>"

definition vc_read :: "'a value_cell \<Rightarrow> 'a option" where
  "vc_read c = vc_value c"

definition vc_write :: "'a \<Rightarrow> 'a value_cell \<Rightarrow> (channel_error + unit) \<times> 'a value_cell" where
  "vc_write v c = (Inr (), c\<lparr>vc_value := Some v\<rparr>)"

definition vc_update :: "'a list \<Rightarrow> 'a value_cell \<Rightarrow> (channel_error + unit) \<times> 'a value_cell" where
  "vc_update vs c = (if vs = [] then (Inr (), c) else (Inr (), snd (vc_write (last vs) c)))"

lemma vc_write_all: "write_all vc_write vs c = (Inr (), if vs = [] then c else c\<lparr>vc_value := Some (last vs)\<rparr>)"
  by (induction vs arbitrary: c) (auto simp: vc_write_def)

interpretation last_value: batch_channel vc_write vc_update
  by unfold_locales (simp add: vc_write_all vc_update_def vc_write_def)

subsection \<open>BinaryOperatorAggregate\<close>

record 'a binop_cell =
  bo_value :: "'a option"
  bo_reducer :: "'a \<Rightarrow> 'a \<Rightarrow> 'a"

definition bo_new :: "('a \<Rightarrow> 'a \<Rightarrow> 'a) \<Rightarrow> 'a binop_cell" where
  "bo_new f = \<lparr>bo_value = None, bo_reducer = f\<rparr>"

definition bo_read :: "'a binop_cell \<Rightarrow> 'a option" where
  "bo_read c = bo_value c"

definition bo_write :: "'a \<Rightarrow> 'a binop_cell \<Rightarrow> (channel_error + unit) \<times> 'a binop_cell" where
  "bo_write v c =
     (case bo_value c of
        Some cur \<Rightarrow> (Inr (), c\<lparr>bo_value := Some (bo_reducer c cur v)\<rparr>)
      | None \<Rightarrow> (Inr (), c\<lparr>bo_value := Some v\<rparr>))"

definition bo_update :: "'a list \<Rightarrow> 'a binop_cell \<Rightarrow> (channel_error + unit) \<times> 'a binop_cell" where
  "bo_update vs c = (Inr (), fold (\<lambda>v c. snd (bo_write v c)) vs c)"

lemma bo_write_ok: "fst (bo_write v c) = Inr ()"
  by (simp add: bo_write_def split: option.split)

lemma bo_write_all: "write_all bo_write vs c = (Inr (), fold (\<lambda>v c. snd (bo_write v c)) vs c)"
proof (induction vs arbitrary: c)
  case (Cons v vs)
  obtain c' where "bo_write v c = (Inr (), c')" using bo_write_ok by (metis prod.collapse)
  with Cons show ?case by simp
qed simp

interpretation aggregate: batch_channel bo_write bo_update
  by unfold_locales (simp add: bo_write_all bo_update_def)

lemma bo_fold:
  "bo_value c = Some a \<Longrightarrow> bo_value (fold (\<lambda>v c. snd (bo_write v c)) vs c) = Some (foldl (bo_reducer c) a vs)"
proof (induction vs arbitrary: a c)
  case (Cons v vs)
  have "bo_value (snd (bo_write v c)) = Some (bo_reducer c a v)" "bo_reducer (snd (bo_write v c)) = bo_reducer c"
    using Cons.prems by (simp_all add: bo_write_def)
  with Cons.IH show ?case by simp
qed simp

text \<open>An aggregate reads as the left fold of everything written, whatever the batches.\<close>

lemma aggregate_reads_fold:
  "bo_read (snd (bo_update (v # vs) (bo_new f))) = Some (foldl f v vs)"
  using bo_fold [of "\<lparr>bo_value = Some v, bo_reducer = f\<rparr>" v vs]
  by (simp add: bo_update_def bo_read_def bo_new_def bo_write_def)

subsection \<open>Topic\<close>

record 'a topic =
  to_values :: "'a list"
  to_accumulate :: bool

definition to_new :: "bool \<Rightarrow> 'a topic" where
  "to_new accumulate = \<lparr>to_values = [], to_accumulate = accumulate\<rparr>"

definition to_write_single :: "'a \<Rightarrow> 'a topic \<Rightarrow> 'a topic" where
  "to_write_single v c = c\<lparr>to_values := to_values c @ [v]\<rparr>"

definition to_clear :: "'a topic \<Rightarrow> 'a topic" where
  "to_clear c = c\<lparr>to_values := []\<rparr>"

definition to_read :: "'a topic \<Rightarrow> 'a list option" where
  "to_read c = (if to_values c = [] then None else Some (to_values c))"

definition to_write :: "'a list \<Rightarrow> 'a topic \<Rightarrow> (channel_error + unit) \<times> 'a topic" where
  "to_write vs c = (Inr (), c\<lparr>to_values := to_values c @ vs\<rparr>)"

definition to_update :: "'a list list \<Rightarrow> 'a topic \<Rightarrow> (channel_error + unit) \<times> 'a topic" where
  "to_update vss c =
     (let c1 = (if \<not> to_accumulate c then c\<lparr>to_values := []\<rparr> else c)
      in (Inr (), fold (\<lambda>vs c. c\<lparr>to_values := to_values c @ vs\<rparr>) vss c1))"

lemma to_fold: "fold (\<lambda>vs c. c\<lparr>to_values := to_values c @ vs\<rparr>) vss c = c\<lparr>to_values := to_values c @ concat vss\<rparr>"
  by (induction vss arbitrary: c) simp_all

subsection \<open>NamedBarrierValue\<close>

record barrier =
  br_expected :: "string set"
  br_seen :: "string set"
  br_value :: "string list"

definition br_new :: "string set \<Rightarrow> barrier" where
  "br_new names = \<lparr>br_expected = names, br_seen = {}, br_value = []\<rparr>"

text \<open>\<open>show\<close> is the debug print of a name.\<close>

definition mark_name_seen :: "(string \<Rightarrow> string) \<Rightarrow> string \<Rightarrow> barrier \<Rightarrow> (channel_error + unit) \<times> barrier" where
  "mark_name_seen dbg name c =
     (if name \<notin> br_expected c then (Inl (InvalidUpdate (''Unexpected name: '' @ dbg name)), c)
      else if name \<in> br_seen c then (Inr (), c)
      else (Inr (), c\<lparr>br_seen := insert name (br_seen c), br_value := br_value c @ [name]\<rparr>))"

definition barrier_ready :: "barrier \<Rightarrow> bool" where
  "barrier_ready c \<longleftrightarrow> br_seen c = br_expected c"

definition barrier_reset :: "barrier \<Rightarrow> barrier" where
  "barrier_reset c = c\<lparr>br_seen := {}, br_value := []\<rparr>"

definition br_read :: "barrier \<Rightarrow> string list option" where
  "br_read c = (if barrier_ready c then Some (br_value c) else None)"

definition br_write :: "(string \<Rightarrow> string) \<Rightarrow> string list \<Rightarrow> barrier \<Rightarrow> (channel_error + unit) \<times> barrier" where
  "br_write dbg names c = write_all (mark_name_seen dbg) names c"

definition br_update :: "(string \<Rightarrow> string) \<Rightarrow> string list list \<Rightarrow> barrier \<Rightarrow> (channel_error + unit) \<times> barrier" where
  "br_update dbg nss c = write_all (br_write dbg) nss c"

interpretation barrier: batch_channel "br_write dbg" "br_update dbg" for dbg
  by unfold_locales (simp add: br_update_def)

text \<open>The invariant: only expected names are seen, and the value lists the seen names once each.\<close>

definition barrier_inv :: "barrier \<Rightarrow> bool" where
  "barrier_inv c \<longleftrightarrow> br_seen c \<subseteq> br_expected c \<and> distinct (br_value c) \<and> set (br_value c) = br_seen c"

lemma mark_name_seen_inv:
  "barrier_inv c \<Longrightarrow> barrier_inv (snd (mark_name_seen dbg n c)) \<and>
     br_expected (snd (mark_name_seen dbg n c)) = br_expected c"
  by (auto simp: barrier_inv_def mark_name_seen_def)

lemma write_all_inv:
  assumes "\<And>x c. P c \<Longrightarrow> P (snd (wr x c))" "P c"
  shows "P (snd (write_all wr xs c))"
  using assms(2)
proof (induction xs arbitrary: c)
  case (Cons x xs)
  obtain r c' where w: "wr x c = (r, c')" by fastforce
  with assms(1) [OF Cons.prems, of x] have "P c'" by simp
  with Cons.IH w show ?case by (cases r) simp_all
qed simp

lemma br_update_inv:
  assumes "barrier_inv c"
  shows "barrier_inv (snd (br_update dbg nss c)) \<and> br_expected (snd (br_update dbg nss c)) = br_expected c"
proof -
  let ?P = "\<lambda>d. barrier_inv d \<and> br_expected d = br_expected c"
  have "?P (snd (mark_name_seen dbg n d))" if "?P d" for n d
    using mark_name_seen_inv [of d dbg n] that by simp
  then have "?P (snd (br_write dbg ns d))" if "?P d" for ns d
    unfolding br_write_def using that by (intro write_all_inv [where P = ?P])
  then show ?thesis unfolding br_update_def using assms by (intro write_all_inv [where P = ?P]) simp_all
qed

lemma mark_all_seen:
  "set ns \<subseteq> br_expected c \<Longrightarrow>
     fst (write_all (mark_name_seen dbg) ns c) = Inr () \<and>
     br_seen (snd (write_all (mark_name_seen dbg) ns c)) = br_seen c \<union> set ns \<and>
     br_expected (snd (write_all (mark_name_seen dbg) ns c)) = br_expected c"
proof (induction ns arbitrary: c)
  case (Cons n ns)
  obtain c' where w: "mark_name_seen dbg n c = (Inr (), c')" "br_expected c' = br_expected c"
    "br_seen c' = insert n (br_seen c)"
    using Cons.prems by (cases "n \<in> br_seen c") (auto simp: mark_name_seen_def)
  with Cons show ?case by auto
qed simp

lemma br_update_seen:
  "set (concat nss) \<subseteq> br_expected c \<Longrightarrow>
     fst (br_update dbg nss c) = Inr () \<and> br_seen (snd (br_update dbg nss c)) = br_seen c \<union> set (concat nss)"
  unfolding br_update_def
proof (induction nss arbitrary: c)
  case (Cons ns nss)
  have m: "fst (br_write dbg ns c) = Inr ()" "br_seen (snd (br_write dbg ns c)) = br_seen c \<union> set ns"
    "br_expected (snd (br_write dbg ns c)) = br_expected c"
    using mark_all_seen [of ns c dbg] Cons.prems by (auto simp: br_write_def)
  obtain c' where w: "br_write dbg ns c = (Inr (), c')" using m(1) by (metis prod.collapse)
  with m have "br_seen c' = br_seen c \<union> set ns" "br_expected c' = br_expected c" by simp_all
  with Cons.IH [of c'] Cons.prems w show ?case by auto
qed simp

text \<open>a barrier channel opens exactly when all expected names have arrived. After any batches of
  expected names, in whatever grouping, order and repetition, no error is reported and the barrier
  is readable iff every expected name is among them; what is read lists each expected name once.\<close>

theorem named_barrier_reads_iff:
  assumes "set (concat nss) \<subseteq> names"
  shows "case br_update dbg nss (br_new names) of (r, c) \<Rightarrow>
           r = Inr () \<and> (br_read c \<noteq> None \<longleftrightarrow> names \<subseteq> set (concat nss)) \<and>
           (\<forall>vs. br_read c = Some vs \<longrightarrow> distinct vs \<and> set vs = names)"
proof -
  have "barrier_inv (br_new names)" by (simp add: barrier_inv_def br_new_def)
  note i = br_update_inv [OF this, of dbg nss]
  have s: "fst (br_update dbg nss (br_new names)) = Inr ()"
    "br_seen (snd (br_update dbg nss (br_new names))) = set (concat nss)"
    using br_update_seen [of nss "br_new names" dbg] assms by (simp_all add: br_new_def)
  show ?thesis
    using i s assms
    by (cases "br_update dbg nss (br_new names)")
      (auto simp: br_read_def barrier_ready_def barrier_inv_def br_new_def)
qed

lemma named_barrier_reads_iff_witness:
  "case br_update (\<lambda>s. s) [[''a''], [''b'', ''a'']] (br_new {''a'', ''b''}) of (r, c) \<Rightarrow> br_read c \<noteq> None"
  using named_barrier_reads_iff [of "[[''a''], [''b'', ''a'']]" "{''a'', ''b''}" "\<lambda>s. s"] by (auto split: prod.splits)

text \<open>Reading never resets a barrier, although the documentation says consuming does: the caller has
  to call \<open>reset\<close>. The same holds for an ephemeral value, which a read leaves in place.\<close>

subsection \<open>State updaters\<close>

definition replace_update :: "'s \<Rightarrow> 's \<Rightarrow> 's" where
  "replace_update cur upd = upd"

definition field_based_update :: "'s \<Rightarrow> 's \<Rightarrow> 's" where
  "field_based_update cur upd = upd"

lemma updaters_agree: "field_based_update = replace_update"
  by (intro ext) (simp add: field_based_update_def replace_update_def)

end
