(* ===== verification/Rust_Str.thy ===== *)
theory Rust_Str
  imports Text_Format
begin

text \<open>
  The operations of Rust's \<open>str\<close> that the goal component uses, on UTF-8 bytes: \<open>trim\<close> (the Unicode
  white space characters, as their encodings), \<open>chars().count()\<close> (the bytes that start a character),
  \<open>starts_with\<close>, \<open>strip_prefix\<close>, \<open>replace\<close> of one character, and \<open>str::parse::<i64>\<close>.
\<close>

subsection \<open>Trimming\<close>

text \<open>U+0009 to U+000D, U+0020, U+0085, U+00A0, U+1680, U+2000 to U+200A, U+2028, U+2029, U+202F,
  U+205F, U+3000.\<close>

definition ws_chars :: "string list" where
  "ws_chars =
     map (\<lambda>n. [char_of n]) ([9..<14] @ [32 :: nat]) @
     map (map char_of) ([[194, 133], [194, 160], [225, 154, 128]] @
       map (\<lambda>n. [226, 128, n]) ([128..<139] @ [168, 169, 175]) @
       [[226, 129, 159 :: nat], [227, 128, 128]])"

fun strip_any :: "string list \<Rightarrow> string \<Rightarrow> string option" where
  "strip_any [] s = None"
| "strip_any (p # ps) s = (if p \<noteq> [] \<and> take (length p) s = p then Some (drop (length p) s) else strip_any ps s)"

lemma strip_any_shorter: "strip_any ps s = Some t \<Longrightarrow> length t < length s"
proof (induction ps)
  case (Cons p ps)
  show ?case
  proof (cases "p \<noteq> [] \<and> take (length p) s = p")
    case True
    then have "s \<noteq> []" by auto
    with True Cons.prems show ?thesis by (cases p) auto
  next
    case False
    with Cons show ?thesis by (auto split: if_splits)
  qed
qed simp

function strip_all :: "string list \<Rightarrow> string \<Rightarrow> string" where
  "strip_all ps s = (case strip_any ps s of Some t \<Rightarrow> strip_all ps t | None \<Rightarrow> s)"
  by pat_completeness auto
termination
  by (relation "measure (\<lambda>(ps, s). length s)") (auto dest: strip_any_shorter)

declare strip_all.simps [simp del]

definition trim_start :: "string \<Rightarrow> string" where
  "trim_start s = strip_all ws_chars s"

definition trim_end :: "string \<Rightarrow> string" where
  "trim_end s = rev (strip_all (map rev ws_chars) (rev s))"

definition trim :: "string \<Rightarrow> string" where
  "trim s = trim_end (trim_start s)"

text \<open>The lists written out, for evaluation.\<close>

lemma ws_chars_code [code]:
  "ws_chars =
     [[CHR 0x09], [CHR 0x0A], [CHR 0x0B], [CHR 0x0C], [CHR 0x0D], [CHR 0x20], [CHR 0xC2, CHR 0x85], [CHR 0xC2,
      CHR 0xA0], [CHR 0xE1, CHR 0x9A, CHR 0x80], [CHR 0xE2, CHR 0x80, CHR 0x80], [CHR 0xE2, CHR 0x80, CHR
      0x81], [CHR 0xE2, CHR 0x80, CHR 0x82], [CHR 0xE2, CHR 0x80, CHR 0x83], [CHR 0xE2, CHR 0x80, CHR 0x84],
      [CHR 0xE2, CHR 0x80, CHR 0x85], [CHR 0xE2, CHR 0x80, CHR 0x86], [CHR 0xE2, CHR 0x80, CHR 0x87], [CHR
      0xE2, CHR 0x80, CHR 0x88], [CHR 0xE2, CHR 0x80, CHR 0x89], [CHR 0xE2, CHR 0x80, CHR 0x8A], [CHR 0xE2,
      CHR 0x80, CHR 0xA8], [CHR 0xE2, CHR 0x80, CHR 0xA9], [CHR 0xE2, CHR 0x80, CHR 0xAF], [CHR 0xE2, CHR
      0x81, CHR 0x9F], [CHR 0xE3, CHR 0x80, CHR 0x80]]"
  by code_simp

lemma trim_end_code [code]:
  "trim_end s = rev (strip_all
     [[CHR 0x09], [CHR 0x0A], [CHR 0x0B], [CHR 0x0C], [CHR 0x0D], [CHR 0x20], [CHR 0x85, CHR 0xC2], [CHR 0xA0,
      CHR 0xC2], [CHR 0x80, CHR 0x9A, CHR 0xE1], [CHR 0x80, CHR 0x80, CHR 0xE2], [CHR 0x81, CHR 0x80, CHR
      0xE2], [CHR 0x82, CHR 0x80, CHR 0xE2], [CHR 0x83, CHR 0x80, CHR 0xE2], [CHR 0x84, CHR 0x80, CHR 0xE2],
      [CHR 0x85, CHR 0x80, CHR 0xE2], [CHR 0x86, CHR 0x80, CHR 0xE2], [CHR 0x87, CHR 0x80, CHR 0xE2], [CHR
      0x88, CHR 0x80, CHR 0xE2], [CHR 0x89, CHR 0x80, CHR 0xE2], [CHR 0x8A, CHR 0x80, CHR 0xE2], [CHR 0xA8,
      CHR 0x80, CHR 0xE2], [CHR 0xA9, CHR 0x80, CHR 0xE2], [CHR 0xAF, CHR 0x80, CHR 0xE2], [CHR 0x9F, CHR
      0x81, CHR 0xE2], [CHR 0x80, CHR 0x80, CHR 0xE3]] (rev s))"
  by (simp add: trim_end_def ws_chars_code)

lemma strip_any_suffix: "strip_any ps s = Some t \<Longrightarrow> \<exists>u. u \<noteq> [] \<and> s = u @ t"
proof (induction ps)
  case (Cons p ps)
  show ?case
  proof (cases "p \<noteq> [] \<and> take (length p) s = p")
    case True
    with Cons.prems show ?thesis by (metis append_take_drop_id option.sel strip_any.simps(2))
  next
    case False
    with Cons show ?thesis by (auto split: if_splits)
  qed
qed simp

lemma strip_all_suffix: "\<exists>u. s = u @ strip_all ps s"
proof (induction ps s rule: strip_all.induct)
  case (1 ps s)
  show ?case
  proof (cases "strip_any ps s")
    case None
    then show ?thesis by (simp add: strip_all.simps [of ps s])
  next
    case (Some t)
    then obtain u where "s = u @ t" by (blast dest: strip_any_suffix)
    moreover obtain v where "t = v @ strip_all ps t" using "1.IH" [OF Some] by blast
    moreover have "strip_all ps s = strip_all ps t" by (simp add: strip_all.simps [of ps s] Some)
    ultimately have "s = (u @ v) @ strip_all ps s" by (metis append.assoc)
    then show ?thesis by blast
  qed
qed

lemma strip_all_done: "strip_any ps (strip_all ps s) = None"
proof (induction ps s rule: strip_all.induct)
  case (1 ps s)
  show ?case
  proof (cases "strip_any ps s")
    case None
    then show ?thesis by (simp add: strip_all.simps [of ps s])
  next
    case (Some t)
    from "1.IH" [OF Some] show ?thesis by (simp add: strip_all.simps [of ps s] Some)
  qed
qed

lemma strip_all_id: "strip_any ps s = None \<Longrightarrow> strip_all ps s = s"
  by (simp add: strip_all.simps)

lemma strip_all_idem: "strip_all ps (strip_all ps s) = strip_all ps s"
  by (simp add: strip_all_id strip_all_done)

lemma strip_any_append: "strip_any ps (s @ t) = None \<Longrightarrow> strip_any ps s = None"
proof (induction ps)
  case (Cons p ps)
  have "take (length p) s \<noteq> p \<or> p = []"
  proof (rule ccontr)
    assume a: "\<not> ?thesis"
    then have "length p \<le> length s" by (metis length_take min.absorb_iff2)
    with a have "take (length p) (s @ t) = p" by simp
    with Cons.prems a show False by simp
  qed
  with Cons show ?case by (auto split: if_splits)
qed simp

text \<open>Trimming twice is trimming once.\<close>

lemma trim_idem: "trim (trim s) = trim s"
proof -
  let ?a = "trim_start s"
  obtain u where u: "rev ?a = u @ strip_all (map rev ws_chars) (rev ?a)" using strip_all_suffix by blast
  then have "?a = trim s @ rev u"
    by (metis rev_append rev_rev_ident trim_def trim_end_def)
  then have "strip_any ws_chars (trim s) = None"
    using strip_all_done [of ws_chars s] strip_any_append by (metis trim_start_def)
  then have "trim_start (trim s) = trim s" by (simp add: trim_start_def strip_all_id)
  moreover have "trim_end (trim s) = trim s"
    by (simp add: trim_def trim_end_def strip_all_idem)
  ultimately show ?thesis by (simp add: trim_def)
qed

lemma length_trim: "length (trim s) \<le> length s"
proof -
  have l: "length (strip_all ps t) \<le> length t" for ps t
    using strip_all_suffix [of t ps] by (metis le_add2 length_append)
  have "length (trim s) \<le> length (rev (trim_start s))" by (simp add: trim_def trim_end_def l del: length_rev) (metis l length_rev)
  also have "\<dots> \<le> length s" by (simp add: trim_start_def l)
  finally show ?thesis .
qed

subsection \<open>Characters, prefixes, replacement\<close>

definition char_count :: "string \<Rightarrow> nat" where
  "char_count s = length (filter (\<lambda>c. \<not> (128 \<le> (of_char c :: nat) \<and> (of_char c :: nat) < 192)) s)"

lemma char_count_le: "char_count s \<le> length s"
  by (simp add: char_count_def)

definition starts_with :: "string \<Rightarrow> string \<Rightarrow> bool" where
  "starts_with p s \<longleftrightarrow> take (length p) s = p"

definition strip_prefix :: "string \<Rightarrow> string \<Rightarrow> string option" where
  "strip_prefix p s = (if starts_with p s then Some (drop (length p) s) else None)"

lemma strip_prefix_append [simp]: "strip_prefix p (p @ s) = Some s"
  by (simp add: strip_prefix_def starts_with_def)

lemma strip_prefix_Some: "strip_prefix p s = Some t \<longleftrightarrow> s = p @ t"
  by (auto simp: strip_prefix_def starts_with_def) (metis append_take_drop_id)

definition replace_char :: "char \<Rightarrow> string \<Rightarrow> string \<Rightarrow> string" where
  "replace_char c r s = concat (map (\<lambda>x. if x = c then r else [x]) s)"

lemma replace_char_simps [simp]:
  "replace_char c r [] = []"
  "replace_char c r (x # s) = (if x = c then r else [x]) @ replace_char c r s"
  "replace_char c r (s @ t) = replace_char c r s @ replace_char c r t"
  by (simp_all add: replace_char_def)

lemma set_replace_char: "set (replace_char c r s) \<subseteq> set r \<union> (set s - {c})"
  by (induction s) auto

text \<open>\<open>split\<close> at every occurrence of a character.\<close>

fun split_on :: "char \<Rightarrow> string \<Rightarrow> string list" where
  "split_on d [] = [[]]"
| "split_on d (c # s) =
     (if c = d then [] # split_on d s
      else (case split_on d s of [] \<Rightarrow> [[c]] | w # ws \<Rightarrow> (c # w) # ws))"

subsection \<open>Signed parsing\<close>

abbreviation i64_max :: int where
  "i64_max \<equiv> 9223372036854775807"

definition all_digits :: "string \<Rightarrow> nat option" where
  "all_digits s = (if s = [] then None else fold (\<lambda>c acc. case (acc, digit_val c) of (Some a, Some d) \<Rightarrow> Some (a * 10 + d) | _ \<Rightarrow> None) s (Some 0))"

definition parse_i64 :: "string \<Rightarrow> int option" where
  "parse_i64 s =
     (case s of
        CHR ''-'' # t \<Rightarrow> (case all_digits t of Some n \<Rightarrow> if int n \<le> i64_max + 1 then Some (- int n) else None | None \<Rightarrow> None)
      | CHR ''+'' # t \<Rightarrow> (case all_digits t of Some n \<Rightarrow> if int n \<le> i64_max then Some (int n) else None | None \<Rightarrow> None)
      | _ \<Rightarrow> (case all_digits s of Some n \<Rightarrow> if int n \<le> i64_max then Some (int n) else None | None \<Rightarrow> None))"

lemma parse_i64_range: "parse_i64 s = Some i \<Longrightarrow> - i64_max - 1 \<le> i \<and> i \<le> i64_max"
  by (auto simp: parse_i64_def split: list.splits char.splits bool.splits option.splits if_splits)

end
