(* ===== verification/Goal_Types.thy ===== *)
theory Goal_Types
  imports Rust_Str Json_Value
begin

text \<open>
  \<open>agent/goal/src/types.rs\<close> and \<open>objective_file.rs\<close>: the goal of a thread, its six statuses, the
  accounting modes, the checks on a request, and the marker that stands for an objective kept in a
  file. Token counts and times are \<open>i64\<close> columns of the database and are read as \<open>int\<close>.
\<close>

subsection \<open>Statuses\<close>

datatype goal_status = Active | Paused | Blocked | UsageLimited | BudgetLimited | Complete

fun status_as_str :: "goal_status \<Rightarrow> string" where
  "status_as_str Active = ''active''"
| "status_as_str Paused = ''paused''"
| "status_as_str Blocked = ''blocked''"
| "status_as_str UsageLimited = ''usage_limited''"
| "status_as_str BudgetLimited = ''budget_limited''"
| "status_as_str Complete = ''complete''"

definition status_parse :: "string \<Rightarrow> goal_status option" where
  "status_parse s =
     (if s = ''active'' then Some Active
      else if s = ''paused'' then Some Paused
      else if s = ''blocked'' then Some Blocked
      else if s = ''usage_limited'' then Some UsageLimited
      else if s = ''budget_limited'' then Some BudgetLimited
      else if s = ''complete'' then Some Complete
      else None)"

definition is_terminal :: "goal_status \<Rightarrow> bool" where
  "is_terminal s \<longleftrightarrow> s = BudgetLimited \<or> s = Complete"

definition user_resumable :: "goal_status \<Rightarrow> bool" where
  "user_resumable s \<longleftrightarrow> s = Paused \<or> s = Blocked \<or> s = UsageLimited \<or> s = BudgetLimited"

lemma status_parse_as_str [simp]: "status_parse (status_as_str s) = Some s"
  by (cases s) (simp_all add: status_parse_def)

lemma status_parse_Some: "status_parse t = Some s \<longleftrightarrow> t = status_as_str s"
proof
  assume "status_parse t = Some s"
  then show "t = status_as_str s"
    by (simp add: status_parse_def split: if_split_asm)
qed simp

subsection \<open>Accounting modes\<close>

datatype accounting_mode = ActiveStatusOnly | ActiveOnly | ActiveOrComplete | ActiveOrStopped

fun mode_allows :: "accounting_mode \<Rightarrow> goal_status \<Rightarrow> bool" where
  "mode_allows ActiveStatusOnly s = (s = Active)"
| "mode_allows ActiveOnly s = (s = Active \<or> s = BudgetLimited)"
| "mode_allows ActiveOrComplete s = (s = Active \<or> s = BudgetLimited \<or> s = Complete)"
| "mode_allows ActiveOrStopped s = (s \<noteq> Complete)"

fun allowed_statuses_sql :: "accounting_mode \<Rightarrow> string" where
  "allowed_statuses_sql ActiveStatusOnly = [CHR 0x27] @ ''active'' @ [CHR 0x27]"
| "allowed_statuses_sql ActiveOnly =
     [CHR 0x27] @ ''active'' @ [CHR 0x27, CHR '','', CHR 0x27] @ ''budget_limited'' @ [CHR 0x27]"
| "allowed_statuses_sql ActiveOrComplete =
     [CHR 0x27] @ ''active'' @ [CHR 0x27, CHR '','', CHR 0x27] @ ''budget_limited'' @
     [CHR 0x27, CHR '','', CHR 0x27] @ ''complete'' @ [CHR 0x27]"
| "allowed_statuses_sql ActiveOrStopped =
     [CHR 0x27] @ ''active'' @ [CHR 0x27, CHR '','', CHR 0x27] @ ''paused'' @
     [CHR 0x27, CHR '','', CHR 0x27] @ ''blocked'' @ [CHR 0x27, CHR '','', CHR 0x27] @ ''usage_limited'' @
     [CHR 0x27, CHR '','', CHR 0x27] @ ''budget_limited'' @ [CHR 0x27]"

text \<open>How SQL reads the list of an \<open>IN (...)\<close>: the literals between quotes, separated by commas.\<close>

definition unquote :: "string \<Rightarrow> string" where
  "unquote s = butlast (tl s)"

definition sql_in :: "string \<Rightarrow> string \<Rightarrow> bool" where
  "sql_in value_text fragment \<longleftrightarrow> value_text \<in> set (map unquote (split_on (CHR '','') fragment))"

lemma sql_in_allowed [simp]: "sql_in (status_as_str s) (allowed_statuses_sql m) = mode_allows m s"
  by (cases m; cases s) (simp_all add: sql_in_def unquote_def)

text \<open>the SQL text that guards the accounting update admits exactly the statuses \<open>allows\<close> admits,
  in every mode.\<close>

theorem sql_gate_is_allows:
  "sql_in t (allowed_statuses_sql m) = (case status_parse t of Some s \<Rightarrow> mode_allows m s | None \<Rightarrow> False)"
proof (cases "status_parse t")
  case None
  then have n: "t \<noteq> status_as_str s" for s by (metis option.distinct(1) status_parse_as_str)
  have "\<exists>s. u = status_as_str s" if "sql_in u (allowed_statuses_sql m)" for u
  proof -
    have "u \<in> {status_as_str Active, status_as_str Paused, status_as_str Blocked, status_as_str UsageLimited,
        status_as_str BudgetLimited, status_as_str Complete}"
      using that by (cases m) (auto simp: sql_in_def unquote_def)
    then show ?thesis by blast
  qed
  with n None show ?thesis by auto
next
  case (Some s)
  then show ?thesis by (simp add: status_parse_Some)
qed

subsection \<open>Goals and requests\<close>

record goal =
  g_thread_id :: string
  g_goal_id :: string
  g_objective :: string
  g_status :: goal_status
  g_token_budget :: "int option"
  g_tokens_used :: int
  g_time_used_seconds :: int
  g_verify_command :: "string option"
  g_status_reason :: "string option"
  g_created_at_ms :: int
  g_updated_at_ms :: int
  g_objective_revision :: int
  g_iteration_count :: int
  g_objective_file :: bool

definition remaining_tokens :: "goal \<Rightarrow> int option" where
  "remaining_tokens g = map_option (\<lambda>b. max (b - g_tokens_used g) 0) (g_token_budget g)"

definition MAX_OBJECTIVE_LEN :: nat where "MAX_OBJECTIVE_LEN = 4000"

text \<open>The cap on budgets; the value of the environment variable is the argument.\<close>

definition max_goal_token_budget :: "string option \<Rightarrow> int" where
  "max_goal_token_budget var =
     (case Option.bind var parse_i64 of
        Some v \<Rightarrow> if 0 < v then v else 5000000
      | None \<Rightarrow> 5000000)"

record create_request =
  cq_thread_id :: string
  cq_objective :: string
  cq_token_budget :: "int option"
  cq_verify_command :: "string option"

datatype goal_validation_error = EmptyObjective | ObjectiveTooLong | BudgetMustBePositive | BudgetAboveCap int

definition budget_check :: "string option \<Rightarrow> int \<Rightarrow> goal_validation_error option" where
  "budget_check var b =
     (if b \<le> 0 then Some BudgetMustBePositive
      else if b > max_goal_token_budget var then Some (BudgetAboveCap (max_goal_token_budget var))
      else None)"

definition request_validate :: "string option \<Rightarrow> create_request \<Rightarrow> goal_validation_error option" where
  "request_validate var req =
     (let objective = trim (cq_objective req) in
      if objective = [] then Some EmptyObjective
      else if length objective > MAX_OBJECTIVE_LEN then Some ObjectiveTooLong
      else (case cq_token_budget req of Some b \<Rightarrow> budget_check var b | None \<Rightarrow> None))"

datatype accounting_outcome = Updated int goal_status | Unchanged

lemma max_goal_token_budget_range: "0 < max_goal_token_budget var \<and> max_goal_token_budget var \<le> i64_max"
  by (auto simp: max_goal_token_budget_def bind_eq_Some_conv split: option.splits dest: parse_i64_range)

lemma budget_check_None: "budget_check var b = None \<longleftrightarrow> 0 < b \<and> b \<le> max_goal_token_budget var"
  by (auto simp: budget_check_def)

lemma request_validate_None:
  "request_validate var req = None \<longleftrightarrow>
     trim (cq_objective req) \<noteq> [] \<and> length (trim (cq_objective req)) \<le> MAX_OBJECTIVE_LEN \<and>
     (\<forall>b \<in> set_option (cq_token_budget req). 0 < b \<and> b \<le> max_goal_token_budget var)"
  by (auto simp: request_validate_def Let_def budget_check_None split: option.splits)

subsection \<open>Objectives kept in files\<close>

definition INLINE_MARKER_PREFIX :: string where "INLINE_MARKER_PREFIX = ''@file:''"
definition OBJECTIVE_INLINE_LIMIT_CHARS :: nat where "OBJECTIVE_INLINE_LIMIT_CHARS = 4000"
definition MAX_FILE_OBJECTIVE_CHARS :: nat where "MAX_FILE_OBJECTIVE_CHARS = 1000000"

definition objective_exceeds_limit :: "string \<Rightarrow> bool" where
  "objective_exceeds_limit s \<longleftrightarrow> char_count s > OBJECTIVE_INLINE_LIMIT_CHARS"

definition needs_file_backing :: "string \<Rightarrow> bool" where
  "needs_file_backing s \<longleftrightarrow> objective_exceeds_limit s \<or> length s > MAX_OBJECTIVE_LEN"

text \<open>The name works character by character; a character beyond ASCII becomes one underscore, that is
  every byte that starts a character gives one, and the bytes that continue it give none.\<close>

definition safe_char :: "char \<Rightarrow> bool" where
  "safe_char c \<longleftrightarrow> (let n = (of_char c :: nat) in
     (48 \<le> n \<and> n \<le> 57) \<or> (65 \<le> n \<and> n \<le> 90) \<or> (97 \<le> n \<and> n \<le> 122) \<or> c \<in> {CHR ''-'', CHR ''_'', CHR ''.''})"

definition file_name_for :: "string \<Rightarrow> string" where
  "file_name_for thread_id =
     map (\<lambda>c. if safe_char c then c else CHR ''_'')
       (filter (\<lambda>c. \<not> (128 \<le> (of_char c :: nat) \<and> (of_char c :: nat) < 192)) thread_id) @ ''.md''"

definition marker_for :: "string \<Rightarrow> string" where
  "marker_for thread_id = INLINE_MARKER_PREFIX @ file_name_for thread_id"

definition is_file_backed :: "string \<Rightarrow> bool" where
  "is_file_backed objective \<longleftrightarrow> starts_with INLINE_MARKER_PREFIX objective"

definition marker_file_name :: "string \<Rightarrow> string option" where
  "marker_file_name objective = strip_prefix INLINE_MARKER_PREFIX objective"

lemma marker_round_trip:
  "is_file_backed (marker_for t) \<and> marker_file_name (marker_for t) = Some (file_name_for t)"
  by (simp add: marker_for_def is_file_backed_def marker_file_name_def starts_with_def)

text \<open>Two threads can share a file: the escape is not injective.\<close>

lemma objective_files_collide: "file_name_for ''a/b'' = file_name_for ''a:b''"
  by (simp add: file_name_for_def safe_char_def)

end
