(* ===== verification/Goal_Store.thy ===== *)
theory Goal_Store
  imports Goal_Types
begin

text \<open>
  \<open>agent/goal/src/store.rs\<close>: the two tables of goals. \<open>thread_goals\<close> has the thread id as its
  primary key; \<open>thread_goal_continuation_deferrals\<close> refers to it and loses its row when the goal row is
  deleted (\<open>ON DELETE CASCADE\<close>, foreign keys are on). Every method is one statement or one
  transaction over one connection, so it is one function on the tables; the clock is an argument. The
  status column holds \<open>as_str\<close> of the status (\<open>sql_in\<close> reads the lists of statuses in the statements). Errors
  of the database itself are not modelled, and integers stay within \<open>i64\<close>.
\<close>

datatype goal_store_error =
  Validation goal_validation_error
| ExistingUnfinishedGoal string
| NotFoundOrDisallowed string

type_synonym 'a store_res = "goal_store_error + 'a"

record goal_db =
  gd_rows :: "(string \<times> goal) list"
  gd_deferrals :: "string list"

definition goal_from_row :: "goal \<Rightarrow> goal" where
  "goal_from_row r = r\<lparr>g_objective_file := is_file_backed (g_objective r)\<rparr>"

definition goal_row :: "goal_db \<Rightarrow> string \<Rightarrow> goal option" where
  "goal_row db t = map_of (gd_rows db) t"

subsection \<open>The statements\<close>

text \<open>\<open>UPDATE ... WHERE thread_id = ? AND ... RETURNING ...\<close>.\<close>

definition sql_update :: "string \<Rightarrow> (goal \<Rightarrow> bool) \<Rightarrow> (goal \<Rightarrow> goal) \<Rightarrow> goal_db \<Rightarrow> goal option \<times> goal_db" where
  "sql_update t wh f db =
     (case map_of (gd_rows db) t of
        Some r \<Rightarrow>
          if wh r then (Some (goal_from_row (f r)), db\<lparr>gd_rows := AList.update t (f r) (gd_rows db)\<rparr>)
          else (None, db)
      | None \<Rightarrow> (None, db))"

definition sql_upsert :: "string \<Rightarrow> goal \<Rightarrow> goal_db \<Rightarrow> goal_db" where
  "sql_upsert t r db = db\<lparr>gd_rows := AList.update t r (gd_rows db)\<rparr>"

definition sql_delete :: "string \<Rightarrow> goal_db \<Rightarrow> goal_db" where
  "sql_delete t db = \<lparr>gd_rows = AList.delete t (gd_rows db), gd_deferrals = removeAll t (gd_deferrals db)\<rparr>"

definition or_disallowed :: "string \<Rightarrow> goal option \<times> goal_db \<Rightarrow> goal store_res \<times> goal_db" where
  "or_disallowed t rd =
     (case fst rd of Some g \<Rightarrow> Inr g | None \<Rightarrow> Inl (NotFoundOrDisallowed t), snd rd)"

definition new_row :: "int \<Rightarrow> create_request \<Rightarrow> string \<Rightarrow> goal" where
  "new_row now req gid =
     \<lparr>g_thread_id = cq_thread_id req, g_goal_id = gid, g_objective = trim (cq_objective req), g_status = Active,
      g_token_budget = cq_token_budget req, g_tokens_used = 0, g_time_used_seconds = 0,
      g_verify_command = cq_verify_command req, g_status_reason = None, g_created_at_ms = now,
      g_updated_at_ms = now, g_objective_revision = 0, g_iteration_count = 0, g_objective_file = False\<rparr>"

subsection \<open>Create, replace, read\<close>

definition goal_create :: "string option \<Rightarrow> int \<Rightarrow> create_request \<Rightarrow> string \<Rightarrow> goal_db \<Rightarrow> goal store_res \<times> goal_db" where
  "goal_create var now req gid db =
     (case request_validate var req of
        Some e \<Rightarrow> (Inl (Validation e), db)
      | None \<Rightarrow>
          let r = new_row now req gid; t = cq_thread_id req in
          (case map_of (gd_rows db) t of
             None \<Rightarrow> (Inr (goal_from_row r), sql_upsert t r db)
           | Some old \<Rightarrow>
               if g_status old = Complete then (Inr (goal_from_row r), sql_upsert t r db)
               else (Inl (ExistingUnfinishedGoal t), db)))"

definition goal_replace :: "string option \<Rightarrow> int \<Rightarrow> create_request \<Rightarrow> string \<Rightarrow> goal_db \<Rightarrow> goal store_res \<times> goal_db" where
  "goal_replace var now req gid db =
     (case request_validate var req of
        Some e \<Rightarrow> (Inl (Validation e), db)
      | None \<Rightarrow>
          let r = new_row now req gid; t = cq_thread_id req in
          (Inr (goal_from_row r), sql_upsert t r (sql_delete t db)))"

definition goal_read :: "string \<Rightarrow> goal_db \<Rightarrow> goal option" where
  "goal_read t db = map_option goal_from_row (map_of (gd_rows db) t)"

definition goal_list_all :: "goal_db \<Rightarrow> (string \<times> goal) list" where
  "goal_list_all db =
     map (\<lambda>(t, r). (t, goal_from_row r)) (sort_key (\<lambda>(t, r). - g_created_at_ms r) (gd_rows db))"

definition find_by_goal_id :: "string \<Rightarrow> goal_db \<Rightarrow> (string \<times> goal) option" where
  "find_by_goal_id gid db =
     map_option (\<lambda>(t, r). (t, goal_from_row r)) (find (\<lambda>(t, r). g_goal_id r = gid) (gd_rows db))"

definition insert_migrated ::
    "int \<Rightarrow> string \<Rightarrow> string \<Rightarrow> string \<Rightarrow> int option \<Rightarrow> int \<Rightarrow> int \<Rightarrow> string option \<Rightarrow> goal_status \<Rightarrow> string option
     \<Rightarrow> goal_db \<Rightarrow> goal store_res \<times> goal_db" where
  "insert_migrated now t gid objective budget used seconds verify status reason db =
     (if trim objective = [] then (Inl (Validation EmptyObjective), db)
      else
        let r = \<lparr>g_thread_id = t, g_goal_id = gid, g_objective = trim objective, g_status = status,
                 g_token_budget = budget, g_tokens_used = max used 0, g_time_used_seconds = max seconds 0,
                 g_verify_command = verify, g_status_reason = reason, g_created_at_ms = now,
                 g_updated_at_ms = now, g_objective_revision = 0, g_iteration_count = 0, g_objective_file = False\<rparr>
        in (Inr (goal_from_row r), sql_upsert t r (sql_delete t db)))"

subsection \<open>Changing the status\<close>

definition transition_status ::
    "int \<Rightarrow> string \<Rightarrow> string \<Rightarrow> goal_status list \<Rightarrow> goal_status \<Rightarrow> string option \<Rightarrow> goal_db \<Rightarrow> goal store_res \<times> goal_db" where
  "transition_status now t gid from_any target reason db =
     or_disallowed t (sql_update t (\<lambda>r. g_goal_id r = gid \<and> g_status r \<in> set from_any)
       (\<lambda>r. r\<lparr>g_status := target, g_status_reason := reason, g_updated_at_ms := now\<rparr>) db)"

definition goal_pause :: "int \<Rightarrow> string \<Rightarrow> string \<Rightarrow> goal_db \<Rightarrow> goal store_res \<times> goal_db" where
  "goal_pause now t gid = transition_status now t gid [Active] Paused None"

definition goal_resume :: "int \<Rightarrow> string \<Rightarrow> string \<Rightarrow> goal_db \<Rightarrow> goal store_res \<times> goal_db" where
  "goal_resume now t gid db =
     or_disallowed t (sql_update t
       (\<lambda>r. g_goal_id r = gid \<and> g_status r \<in> {Paused, Blocked, UsageLimited, BudgetLimited})
       (\<lambda>r. r\<lparr>g_status := Active, g_status_reason := None, g_updated_at_ms := now\<rparr>) db)"

definition goal_clear :: "string \<Rightarrow> goal_db \<Rightarrow> bool \<times> goal_db" where
  "goal_clear t db = (map_of (gd_rows db) t \<noteq> None, sql_delete t db)"

definition mark_usage_limited :: "int \<Rightarrow> string \<Rightarrow> string \<Rightarrow> string \<Rightarrow> goal_db \<Rightarrow> goal store_res \<times> goal_db" where
  "mark_usage_limited now t gid reason = transition_status now t gid [Active, BudgetLimited] UsageLimited (Some reason)"

definition mark_blocked :: "int \<Rightarrow> string \<Rightarrow> string \<Rightarrow> string \<Rightarrow> goal_db \<Rightarrow> goal store_res \<times> goal_db" where
  "mark_blocked now t gid reason = transition_status now t gid [Active] Blocked (Some reason)"

definition mark_complete :: "int \<Rightarrow> string \<Rightarrow> string \<Rightarrow> goal_db \<Rightarrow> goal store_res \<times> goal_db" where
  "mark_complete now t gid = transition_status now t gid [Active] Complete None"

subsection \<open>Editing\<close>

definition edit_objective :: "int \<Rightarrow> string \<Rightarrow> string \<Rightarrow> string \<Rightarrow> goal_db \<Rightarrow> goal store_res \<times> goal_db" where
  "edit_objective now t gid objective db =
     (let s = trim objective in
      if s = [] then (Inl (Validation EmptyObjective), db)
      else if length s > MAX_OBJECTIVE_LEN then (Inl (Validation ObjectiveTooLong), db)
      else or_disallowed t (sql_update t
        (\<lambda>r. g_goal_id r = gid \<and> g_status r \<notin> {BudgetLimited, Complete})
        (\<lambda>r. r\<lparr>g_objective := s, g_objective_revision := g_objective_revision r + 1, g_updated_at_ms := now\<rparr>) db))"

definition update_budget :: "string option \<Rightarrow> int \<Rightarrow> string \<Rightarrow> string \<Rightarrow> int \<Rightarrow> goal_db \<Rightarrow> goal store_res \<times> goal_db" where
  "update_budget var now t gid budget db =
     (case budget_check var budget of
        Some e \<Rightarrow> (Inl (Validation e), db)
      | None \<Rightarrow> or_disallowed t (sql_update t (\<lambda>r. g_goal_id r = gid \<and> g_status r \<noteq> Complete)
                  (\<lambda>r. r\<lparr>g_token_budget := Some budget, g_updated_at_ms := now\<rparr>) db))"

definition set_iteration :: "int \<Rightarrow> string \<Rightarrow> string \<Rightarrow> int \<Rightarrow> goal_db \<Rightarrow> goal store_res \<times> goal_db" where
  "set_iteration now t gid iteration db =
     or_disallowed t (sql_update t (\<lambda>r. g_goal_id r = gid)
       (\<lambda>r. r\<lparr>g_iteration_count := iteration, g_updated_at_ms := now\<rparr>) db)"

subsection \<open>Accounting\<close>

definition account_row :: "int \<Rightarrow> int \<Rightarrow> int \<Rightarrow> goal \<Rightarrow> goal" where
  "account_row now dt ds r =
     (let hit = (case g_token_budget r of Some b \<Rightarrow> b \<le> g_tokens_used r + dt | None \<Rightarrow> False) \<and> g_status r = Active in
      r\<lparr>g_tokens_used := g_tokens_used r + dt,
        g_time_used_seconds := g_time_used_seconds r + ds,
        g_status_reason := (if hit then Some ''budget_limited'' else g_status_reason r),
        g_status := (if hit then BudgetLimited else g_status r),
        g_updated_at_ms := now\<rparr>)"

definition account_thread_goal_usage ::
    "int \<Rightarrow> string \<Rightarrow> string \<Rightarrow> accounting_mode \<Rightarrow> int \<Rightarrow> int \<Rightarrow> goal_db \<Rightarrow> accounting_outcome \<times> goal_db" where
  "account_thread_goal_usage now t gid mode delta_tokens delta_seconds db =
     (case sql_update t (\<lambda>r. g_goal_id r = gid \<and> sql_in (status_as_str (g_status r)) (allowed_statuses_sql mode))
             (account_row now (max delta_tokens 0) (max delta_seconds 0)) db of
        (None, db') \<Rightarrow> (Unchanged, db')
      | (Some r, db') \<Rightarrow> (Updated (g_tokens_used r) (g_status r), db'))"

subsection \<open>Deferrals\<close>

definition defer_continuation :: "string \<Rightarrow> goal_db \<Rightarrow> bool \<times> goal_db" where
  "defer_continuation t db =
     (if map_of (gd_rows db) t = None then (False, db)
      else if t \<in> set (gd_deferrals db) then (False, db)
      else (True, db\<lparr>gd_deferrals := gd_deferrals db @ [t]\<rparr>))"

definition has_continuation_deferral :: "string \<Rightarrow> goal_db \<Rightarrow> bool" where
  "has_continuation_deferral t db \<longleftrightarrow> t \<in> set (gd_deferrals db)"

definition clear_continuation_deferral :: "string \<Rightarrow> goal_db \<Rightarrow> bool \<times> goal_db" where
  "clear_continuation_deferral t db =
     (t \<in> set (gd_deferrals db), db\<lparr>gd_deferrals := removeAll t (gd_deferrals db)\<rparr>)"

subsection \<open>What each statement does to the rows\<close>

named_theorems goal_row_simps \<open>the row of a thread after an operation\<close>

lemma goal_row_sql_update [goal_row_simps]:
  "goal_row (snd (sql_update t wh f db)) t' =
     (if t' = t then map_option (\<lambda>r. if wh r then f r else r) (goal_row db t) else goal_row db t')"
  by (simp add: sql_update_def goal_row_def split: option.splits)

text \<open>A relation that holds of a row before and after an update, whether or not it applies.\<close>

lemma sql_update_related:
  assumes "goal_row db t = Some r" "P r r" "t' = t \<Longrightarrow> wh r \<Longrightarrow> P r (f r)"
  shows "\<exists>r'. goal_row (snd (sql_update t' wh f db)) t = Some r' \<and> P r r'"
proof (intro exI conjI)
  show "goal_row (snd (sql_update t' wh f db)) t = Some (if t = t' \<and> wh r then f r else r)"
    using assms(1) by (cases "t = t'") (auto simp: goal_row_sql_update)
  show "P r (if t = t' \<and> wh r then f r else r)"
    using assms(2,3) by simp
qed

lemma fst_sql_update:
  "fst (sql_update t wh f db) =
     (case goal_row db t of Some r \<Rightarrow> if wh r then Some (goal_from_row (f r)) else None | None \<Rightarrow> None)"
  by (simp add: sql_update_def goal_row_def split: option.splits)

lemma goal_row_sql_upsert [goal_row_simps]:
  "goal_row (sql_upsert t r db) t' = (if t' = t then Some r else goal_row db t')"
  by (simp add: sql_upsert_def goal_row_def)

lemma goal_row_sql_delete [goal_row_simps]:
  "goal_row (sql_delete t db) t' = (if t' = t then None else goal_row db t')"
  by (simp add: sql_delete_def goal_row_def)

lemma snd_or_disallowed [simp]: "snd (or_disallowed t rd) = snd rd"
  by (simp add: or_disallowed_def)

lemma or_disallowed_Inr: "or_disallowed t rd = (Inr g, db) \<longleftrightarrow> rd = (Some g, db)"
  by (cases rd) (auto simp: or_disallowed_def split: option.splits)

lemma snd_account:
  "snd (account_thread_goal_usage now t gid mode dt ds db) =
     snd (sql_update t (\<lambda>r. g_goal_id r = gid \<and> mode_allows mode (g_status r)) (account_row now (max dt 0) (max ds 0)) db)"
  by (simp add: account_thread_goal_usage_def split: prod.splits option.splits)

end
