(* ===== verification/Goal_Lifecycle.thy ===== *)
theory Goal_Lifecycle
  imports Goal_Store
begin

text \<open>
  The life of a goal: the store's operations as the steps of a transition system over the tables, the
  invariant of the reachable tables, the diagram of statuses every operation follows, and what
  accounting does to a budget.
\<close>

datatype goal_op =
  OpCreate create_request string
| OpReplace create_request string
| OpMigrate string string string "int option" int int "string option" goal_status "string option"
| OpPause string string
| OpResume string string
| OpClear string
| OpEdit string string string
| OpBudget string string int
| OpIteration string string int
| OpUsageLimited string string string
| OpBlocked string string string
| OpComplete string string
| OpAccount string string accounting_mode int int
| OpDefer string
| OpUndefer string

fun goal_exec :: "string option \<Rightarrow> int \<Rightarrow> goal_op \<Rightarrow> goal_db \<Rightarrow> goal_db" where
  "goal_exec var now (OpCreate req gid) db = snd (goal_create var now req gid db)"
| "goal_exec var now (OpReplace req gid) db = snd (goal_replace var now req gid db)"
| "goal_exec var now (OpMigrate t gid ob b u sec v st re) db = snd (insert_migrated now t gid ob b u sec v st re db)"
| "goal_exec var now (OpPause t gid) db = snd (goal_pause now t gid db)"
| "goal_exec var now (OpResume t gid) db = snd (goal_resume now t gid db)"
| "goal_exec var now (OpClear t) db = snd (goal_clear t db)"
| "goal_exec var now (OpEdit t gid ob) db = snd (edit_objective now t gid ob db)"
| "goal_exec var now (OpBudget t gid b) db = snd (update_budget var now t gid b db)"
| "goal_exec var now (OpIteration t gid i) db = snd (set_iteration now t gid i db)"
| "goal_exec var now (OpUsageLimited t gid re) db = snd (mark_usage_limited now t gid re db)"
| "goal_exec var now (OpBlocked t gid re) db = snd (mark_blocked now t gid re db)"
| "goal_exec var now (OpComplete t gid) db = snd (mark_complete now t gid db)"
| "goal_exec var now (OpAccount t gid m dt ds) db = snd (account_thread_goal_usage now t gid m dt ds db)"
| "goal_exec var now (OpDefer t) db = snd (defer_continuation t db)"
| "goal_exec var now (OpUndefer t) db = snd (clear_continuation_deferral t db)"

definition empty_goal_db :: goal_db where
  "empty_goal_db = \<lparr>gd_rows = [], gd_deferrals = []\<rparr>"

inductive goal_reach :: "goal_db \<Rightarrow> bool" where
  start: "goal_reach empty_goal_db"
| step: "goal_reach db \<Longrightarrow> goal_reach (goal_exec var now op db)"

lemmas store_ops_def =
  goal_create_def goal_replace_def insert_migrated_def goal_pause_def goal_resume_def goal_clear_def
  edit_objective_def update_budget_def set_iteration_def mark_usage_limited_def mark_blocked_def
  mark_complete_def transition_status_def

subsection \<open>The tables keep their shape\<close>

definition row_ok :: "string \<Rightarrow> goal \<Rightarrow> bool" where
  "row_ok t r \<longleftrightarrow>
     g_thread_id r = t \<and> g_objective r \<noteq> [] \<and> trim (g_objective r) = g_objective r \<and>
     0 \<le> g_tokens_used r \<and> 0 \<le> g_time_used_seconds r \<and> 0 \<le> g_objective_revision r"

definition goal_db_ok :: "goal_db \<Rightarrow> bool" where
  "goal_db_ok db \<longleftrightarrow>
     distinct (keys (gd_rows db)) \<and> (\<forall>t r. goal_row db t = Some r \<longrightarrow> row_ok t r) \<and>
     distinct (gd_deferrals db) \<and> (\<forall>t \<in> set (gd_deferrals db). goal_row db t \<noteq> None)"

lemma sql_update_ok:
  assumes "goal_db_ok db" "\<And>r. goal_row db t = Some r \<Longrightarrow> row_ok t r \<Longrightarrow> wh r \<Longrightarrow> row_ok t (f r)"
  shows "goal_db_ok (snd (sql_update t wh f db))"
proof -
  have "distinct (keys (gd_rows (snd (sql_update t wh f db))))"
    "gd_deferrals (snd (sql_update t wh f db)) = gd_deferrals db"
    using assms(1) by (simp_all add: sql_update_def goal_db_ok_def split: option.splits)
  moreover have "row_ok t' r" if "goal_row (snd (sql_update t wh f db)) t' = Some r" for t' r
    using that assms by (auto simp: goal_row_sql_update goal_db_ok_def split: if_splits)
  ultimately show ?thesis using assms(1) by (simp add: goal_db_ok_def goal_row_sql_update)
qed

lemma sql_upsert_ok:
  assumes "goal_db_ok db" "row_ok t r"
  shows "goal_db_ok (sql_upsert t r db)"
proof -
  have "distinct (keys (gd_rows (sql_upsert t r db)))" "gd_deferrals (sql_upsert t r db) = gd_deferrals db"
    using assms(1) by (simp_all add: sql_upsert_def goal_db_ok_def)
  then show ?thesis
    using assms by (simp add: goal_db_ok_def goal_row_sql_upsert)
qed

lemma sql_delete_ok:
  assumes "goal_db_ok db"
  shows "goal_db_ok (sql_delete t db)"
proof -
  have "distinct (keys (gd_rows (sql_delete t db)))" "distinct (gd_deferrals (sql_delete t db))"
    using assms by (simp_all add: sql_delete_def goal_db_ok_def distinct_delete distinct_removeAll)
  moreover have "set (gd_deferrals (sql_delete t db)) = set (gd_deferrals db) - {t}"
    by (simp add: sql_delete_def)
  ultimately show ?thesis
    using assms by (simp add: goal_db_ok_def goal_row_sql_delete)
qed

lemma row_ok_new_row: "request_validate var req = None \<Longrightarrow> row_ok (cq_thread_id req) (new_row now req gid)"
  by (simp add: row_ok_def new_row_def request_validate_None trim_idem)

lemma goal_db_ok_exec:
  assumes ok: "goal_db_ok db"
  shows "goal_db_ok (goal_exec var now op db)"
proof (cases op)
  case (OpCreate req gid)
  with ok show ?thesis
    by (auto simp: goal_create_def Let_def split: option.splits intro: sql_upsert_ok row_ok_new_row)
next
  case (OpReplace req gid)
  with ok show ?thesis
    by (auto simp: goal_replace_def Let_def split: option.splits intro: sql_upsert_ok sql_delete_ok row_ok_new_row)
next
  case (OpMigrate t gid ob b u sec v st re)
  with ok show ?thesis
    by (auto simp: insert_migrated_def Let_def row_ok_def trim_idem intro!: sql_upsert_ok sql_delete_ok)
next
  case (OpEdit t gid ob)
  with ok show ?thesis
    by (auto simp: edit_objective_def Let_def row_ok_def trim_idem intro!: sql_update_ok)
next
  case (OpBudget t gid b)
  with ok show ?thesis
    by (auto simp: update_budget_def row_ok_def split: option.splits intro!: sql_update_ok)
next
  case (OpAccount t gid m dt ds)
  with ok show ?thesis
    by (auto simp: snd_account account_row_def Let_def row_ok_def intro!: sql_update_ok)
next
  case (OpDefer t)
  with ok show ?thesis
    by (auto simp: defer_continuation_def goal_db_ok_def goal_row_def)
next
  case (OpUndefer t)
  with ok show ?thesis
    by (auto simp: clear_continuation_deferral_def goal_db_ok_def goal_row_def distinct_removeAll)
next
  case (OpClear t)
  with ok show ?thesis by (simp add: goal_clear_def sql_delete_ok)
qed (use ok in \<open>auto simp: store_ops_def row_ok_def intro!: sql_update_ok\<close>)

text \<open>C30: whatever the sequence of store operations, the goal tables stay consistent: one row per
  thread, under its own key, with a non-empty trimmed objective and used tokens, used time and revision that
  are not negative, and deferral marks only for threads that have a goal (the cascade), each at most once.
  (The number of iterations is whatever a caller sets and is not constrained.)\<close>

theorem goal_db_invariant:
  assumes "goal_reach db"
  shows "goal_db_ok db"
  using assms
proof induction
  case start
  show ?case by (simp add: empty_goal_db_def goal_db_ok_def goal_row_def)
next
  case (step db var now op)
  from step.IH show ?case by (rule goal_db_ok_exec)
qed

theorem goal_db_invariant_witness:
  "goal_db_ok (goal_exec None 5 (OpDefer ''t'') (goal_exec None 3 (OpCreate
     \<lparr>cq_thread_id = ''t'', cq_objective = ''ship'', cq_token_budget = Some 10, cq_verify_command = None\<rparr> ''g1'') empty_goal_db))"
  by (rule goal_db_invariant) (intro goal_reach.intros)

subsection \<open>The diagram of statuses\<close>

fun status_step :: "goal_status \<Rightarrow> goal_status \<Rightarrow> bool" where
  "status_step Active s = True"
| "status_step Paused s = (s \<in> {Paused, Active})"
| "status_step Blocked s = (s \<in> {Blocked, Active})"
| "status_step UsageLimited s = (s \<in> {UsageLimited, Active})"
| "status_step BudgetLimited s = (s \<in> {BudgetLimited, Active, UsageLimited})"
| "status_step Complete s = (s = Complete)"

lemma status_step_refl [simp]: "status_step s s"
  by (cases s) simp_all

text \<open>The operations that put a new goal in the place of another.\<close>

fun replaces_goal :: "goal_op \<Rightarrow> string \<Rightarrow> bool" where
  "replaces_goal (OpReplace req gid) t = (cq_thread_id req = t)"
| "replaces_goal (OpMigrate t' gid ob b u sec v st re) t = (t' = t)"
| "replaces_goal (OpClear t') t = (t' = t)"
| "replaces_goal op t = False"

fun creates_goal :: "goal_op \<Rightarrow> string \<Rightarrow> bool" where
  "creates_goal (OpCreate req gid) t = (cq_thread_id req = t)"
| "creates_goal op t = False"

definition goal_evolves :: "goal_op \<Rightarrow> goal \<Rightarrow> goal \<Rightarrow> bool" where
  "goal_evolves op r r' \<longleftrightarrow>
     g_goal_id r' = g_goal_id r \<and> g_thread_id r' = g_thread_id r \<and> g_created_at_ms r' = g_created_at_ms r \<and>
     g_verify_command r' = g_verify_command r \<and>
     g_tokens_used r \<le> g_tokens_used r' \<and> g_time_used_seconds r \<le> g_time_used_seconds r' \<and>
     status_step (g_status r) (g_status r') \<and>
     (g_objective r' = g_objective r \<and> g_objective_revision r' = g_objective_revision r \<or>
        (\<exists>t ob. op = OpEdit t (g_goal_id r) ob \<and> g_objective r' = trim ob \<and>
          g_objective_revision r' = g_objective_revision r + 1 \<and> \<not> is_terminal (g_status r))) \<and>
     (g_token_budget r' = g_token_budget r \<or>
        (\<exists>t b. op = OpBudget t (g_goal_id r) b \<and> g_token_budget r' = Some b)) \<and>
     (g_iteration_count r' = g_iteration_count r \<or>
        (\<exists>t. op = OpIteration t (g_goal_id r) (g_iteration_count r'))) \<and>
     (g_tokens_used r' = g_tokens_used r \<and> g_time_used_seconds r' = g_time_used_seconds r \<or>
        (\<exists>t m dt ds. op = OpAccount t (g_goal_id r) m dt ds))"

lemma goal_evolves_refl [simp]: "goal_evolves op r r"
  by (simp add: goal_evolves_def)

lemma sql_update_evolves:
  assumes "goal_row db t = Some r" "wh r \<Longrightarrow> goal_evolves op r (f r)"
  shows "\<exists>r'. goal_row (snd (sql_update t' wh f db)) t = Some r' \<and> goal_evolves op r r'"
  using assms by (intro sql_update_related) simp_all

lemma goal_exec_evolves:
  assumes r: "goal_row db t = Some r" and no: "\<not> replaces_goal op t" "creates_goal op t \<Longrightarrow> g_status r \<noteq> Complete"
  shows "\<exists>r'. goal_row (goal_exec var now op db) t = Some r' \<and> goal_evolves op r r'"
proof (cases op)
  case (OpCreate req gid)
  with r no show ?thesis
    by (auto simp: goal_create_def Let_def goal_row_simps goal_row_def split: option.splits if_splits)
      (auto simp: goal_row_simps sql_upsert_def)
next
  case (OpEdit t' gid ob)
  with r no show ?thesis
    by (auto simp: edit_objective_def Let_def intro!: sql_update_evolves)
      (auto simp: goal_evolves_def is_terminal_def)
next
  case (OpBudget t' gid b)
  with r no show ?thesis
    by (auto simp: update_budget_def split: option.splits intro!: sql_update_evolves)
      (auto simp: goal_evolves_def)
next
  case (OpAccount t' gid m dt ds)
  with r no show ?thesis
    by (auto simp: snd_account intro!: sql_update_evolves)
      (auto simp: goal_evolves_def account_row_def Let_def)
next
  case (OpReplace req gid)
  with r no show ?thesis
    by (auto simp: goal_replace_def Let_def goal_row_simps split: option.splits)
next
  case (OpMigrate t' gid ob b u sec v st re)
  with r no show ?thesis by (auto simp: insert_migrated_def Let_def goal_row_simps)
next
  case (OpClear t')
  with r no show ?thesis by (auto simp: goal_clear_def goal_row_simps)
next
  case (OpDefer t')
  with r show ?thesis by (simp add: defer_continuation_def goal_row_def)
next
  case (OpUndefer t')
  with r show ?thesis by (simp add: clear_continuation_deferral_def goal_row_def)
qed (use r no in \<open>(auto simp: store_ops_def intro!: sql_update_evolves; simp add: goal_evolves_def)+\<close>)

text \<open>C18: no operation takes a goal off the diagram of its statuses. Unless the user replaces, clears or
  migrates the goal of the thread (or a complete goal is followed by a new one), the row keeps its
  identity and its verify command, used tokens and time never fall and change only by accounting for this
  goal, the status moves along the diagram and a complete goal stays complete. The objective and its
  revision change only by an edit of this goal, while it is neither complete nor out of budget: to the trimmed text of the edit,
  with the next revision. The budget changes only by setting it and the number of iterations only by
  setting that, both to the given value.\<close>

theorem goal_lifecycle:
  assumes "goal_row db t = Some r"
    and "\<not> replaces_goal op t"
    and "creates_goal op t \<Longrightarrow> g_status r \<noteq> Complete"
  shows "\<exists>r'. goal_row (goal_exec var now op db) t = Some r' \<and> goal_evolves op r r'"
  using goal_exec_evolves [OF assms] .

definition sample_request :: create_request where
  "sample_request = \<lparr>cq_thread_id = ''t'', cq_objective = ''ship'', cq_token_budget = Some 10, cq_verify_command = None\<rparr>"

definition sample_db :: goal_db where
  "sample_db = \<lparr>gd_rows = [(''t'', new_row 3 sample_request ''g1'')], gd_deferrals = []\<rparr>"

theorem goal_lifecycle_witness:
  "\<exists>r'. goal_row (goal_exec None 7 (OpAccount ''t'' ''g1'' ActiveStatusOnly 12 0) sample_db) ''t'' = Some r' \<and>
     goal_evolves (OpAccount ''t'' ''g1'' ActiveStatusOnly 12 0) (new_row 3 sample_request ''g1'') r'"
  by (rule goal_lifecycle) (simp_all add: sample_db_def goal_row_def)

subsection \<open>Budgets\<close>

lemma account_updated:
  assumes "account_thread_goal_usage now t gid mode dt ds db = (Updated u s, db')"
  obtains r r' where "goal_row db t = Some r" and "goal_row db' t = Some r'"
    and "g_goal_id r = gid" and "mode_allows mode (g_status r)"
    and "u = g_tokens_used r + max dt 0" and "g_tokens_used r' = u" and "g_status r' = s"
    and "g_time_used_seconds r' = g_time_used_seconds r + max ds 0"
    and "s = Active \<Longrightarrow> (\<forall>b \<in> set_option (g_token_budget r'). u < b)"
    and "g_status r = Active \<Longrightarrow> s \<noteq> Active \<Longrightarrow> s = BudgetLimited \<and> (\<exists>b. g_token_budget r = Some b \<and> b \<le> u)"
    and "g_status r \<noteq> Active \<Longrightarrow> s = g_status r"
proof -
  let ?wh = "\<lambda>r. g_goal_id r = gid \<and> mode_allows mode (g_status r)"
  let ?f = "account_row now (max dt 0) (max ds 0)"
  from assms obtain q where q: "fst (sql_update t ?wh ?f db) = Some q" "u = g_tokens_used q" "s = g_status q"
    and db': "db' = snd (sql_update t ?wh ?f db)"
    by (auto simp: account_thread_goal_usage_def split: prod.splits option.splits)
  from q(1) obtain r where r: "goal_row db t = Some r" "?wh r" "q = goal_from_row (?f r)"
    by (auto simp: fst_sql_update split: option.splits if_splits)
  have r': "goal_row db' t = Some (?f r)" using r by (simp add: db' goal_row_sql_update)
  show thesis
    by (rule that [OF r(1) r']) (use r q in \<open>auto simp: account_row_def goal_from_row_def Let_def split: option.splits if_splits\<close>)
qed

text \<open>accounting charges exactly the delta, to the goal it was measured for, and enforces the
  budget: after a charge an active goal with a budget is under it; a goal that reaches it leaves
  \<open>active\<close> for \<open>budget_limited\<close> in the same statement; any other status is kept.\<close>

theorem accounting_enforces_budget:
  assumes "account_thread_goal_usage now t gid mode dt ds db = (Updated u s, db')"
  shows "\<exists>r r'. goal_row db t = Some r \<and> goal_row db' t = Some r' \<and>
           g_goal_id r = gid \<and> mode_allows mode (g_status r) \<and>
           u = g_tokens_used r + max dt 0 \<and> g_tokens_used r' = u \<and> g_status r' = s \<and>
           g_time_used_seconds r' = g_time_used_seconds r + max ds 0 \<and>
           (s = Active \<longrightarrow> (\<forall>b \<in> set_option (g_token_budget r'). u < b)) \<and>
           (g_status r = Active \<and> s \<noteq> Active \<longrightarrow> s = BudgetLimited \<and> (\<exists>b. g_token_budget r = Some b \<and> b \<le> u)) \<and>
           (g_status r \<noteq> Active \<longrightarrow> s = g_status r)"
  using assms by (rule account_updated) metis

theorem accounting_enforces_budget_witness:
  "\<exists>db'. account_thread_goal_usage 7 ''t'' ''g1'' ActiveStatusOnly 12 0 sample_db = (Updated 12 BudgetLimited, db') \<and>
     (\<exists>r'. goal_row db' ''t'' = Some r' \<and> g_tokens_used r' = 12)"
proof -
  have e: "account_thread_goal_usage 7 ''t'' ''g1'' ActiveStatusOnly 12 0 sample_db
      = (Updated 12 BudgetLimited, snd (account_thread_goal_usage 7 ''t'' ''g1'' ActiveStatusOnly 12 0 sample_db))"
    by (simp add: account_thread_goal_usage_def sql_update_def sample_db_def new_row_def sample_request_def
        account_row_def goal_from_row_def del: allowed_statuses_sql.simps status_as_str.simps)
  from accounting_enforces_budget [OF e] show ?thesis using e by blast
qed

text \<open>A resumed goal that spent its budget is active again although nothing is left of the budget; only
  the next charge stops it.\<close>

lemma resume_over_budget:
  "map_option (\<lambda>r. (g_status r, remaining_tokens r))
     (goal_row (goal_exec None 8 (OpResume ''t'' ''g1'')
       (goal_exec None 7 (OpAccount ''t'' ''g1'' ActiveStatusOnly 12 0) sample_db)) ''t'') = Some (Active, Some 0)"
  by (simp add: snd_account goal_resume_def goal_row_simps sample_db_def goal_row_def [of "\<lparr>gd_rows = _, gd_deferrals = _\<rparr>"]
      new_row_def sample_request_def account_row_def remaining_tokens_def)

end
