(* ===== verification/Goal_Accounting.thy ===== *)
theory Goal_Accounting
  imports Goal_Lifecycle Goal_Steering
begin

text \<open>
  \<open>agent/goal/src/accounting.rs\<close>: how the usage the model reports (running totals) becomes charges on
  the goal. The accountant of a thread keeps a baseline (the goal it was measured for and the totals
  charged so far) and the start of the running clock. \<open>account_with\<close> reads the goal, computes the
  delta, charges it with a compare-and-set on the goal id and moves the baseline. Its progress lock
  excludes other accountants but not the user's commands: \<open>meanwhile\<close> is what other writers do to the
  tables between the read and the charge. Clock readings are nanoseconds; lock timeouts are left out.
\<close>

record token_totals =
  tt_input :: u64
  tt_output :: u64
  tt_cached :: u64

definition no_totals :: token_totals where
  "no_totals = \<lparr>tt_input = 0, tt_output = 0, tt_cached = 0\<rparr>"

definition sat_sub :: "u64 \<Rightarrow> u64 \<Rightarrow> u64" where
  "sat_sub a b = (if b \<le> a then a - b else 0)"

definition sat_add :: "u64 \<Rightarrow> u64 \<Rightarrow> u64" where
  "sat_add a b = (if uint a + uint b < 2 ^ 64 then a + b else - 1)"

definition goal_token_delta :: "token_totals \<Rightarrow> token_totals \<Rightarrow> int" where
  "goal_token_delta l c =
     (let d_input = sat_sub (tt_input c) (tt_input l);
          d_cached = sat_sub (tt_cached c) (tt_cached l);
          d_output = sat_sub (tt_output c) (tt_output l);
          non_cached_input = sat_sub d_input d_cached
      in u64_as_i64 (min (sat_add non_cached_input d_output) 9223372036854775807))"

record accounting =
  ac_baseline :: "(string \<times> token_totals) option"
  ac_clock :: "nat option"
  ac_reported :: "string option"

definition accounting_new :: "string \<Rightarrow> token_totals \<Rightarrow> accounting" where
  "accounting_new gid initial = \<lparr>ac_baseline = Some (gid, initial), ac_clock = None, ac_reported = None\<rparr>"

definition new_unarmed :: accounting where
  "new_unarmed = \<lparr>ac_baseline = None, ac_clock = None, ac_reported = None\<rparr>"

definition elapsed_secs :: "nat \<Rightarrow> nat \<Rightarrow> int" where
  "elapsed_secs since now = int ((now - since) div 1000000000)"

definition or_default :: "token_totals option \<Rightarrow> token_totals" where
  "or_default current = (case current of Some c \<Rightarrow> c | None \<Rightarrow> no_totals)"

text \<open>The part of \<open>account_with\<close> for a goal the baseline belongs to. \<open>now\<close> is the wall clock in
  milliseconds (for the row), \<open>tick\<close> the monotonic clock.\<close>

definition charge_delta ::
    "(goal_db \<Rightarrow> goal_db) \<Rightarrow> int \<Rightarrow> nat \<Rightarrow> string \<Rightarrow> token_totals option \<Rightarrow> accounting_mode \<Rightarrow> bool
     \<Rightarrow> string \<Rightarrow> token_totals \<Rightarrow> accounting \<Rightarrow> goal_db \<Rightarrow> accounting_outcome \<times> accounting \<times> goal_db" where
  "charge_delta meanwhile now tick t current mode flush_clock gid baseline ac db =
     (let dt = (case current of Some c \<Rightarrow> goal_token_delta baseline c | None \<Rightarrow> 0);
          ds = (if flush_clock then (case ac_clock ac of Some since \<Rightarrow> elapsed_secs since tick | None \<Rightarrow> 0) else 0);
          ac' = (if flush_clock then ac\<lparr>ac_clock := None\<rparr> else ac);
          moved = ac'\<lparr>ac_baseline := Some (gid, case current of Some c \<Rightarrow> c | None \<Rightarrow> baseline)\<rparr>
      in if dt = 0 \<and> ds = 0 then (Unchanged, moved, db)
         else (case account_thread_goal_usage now t gid mode dt ds (meanwhile db) of
                 (Updated u s, db') \<Rightarrow> (Updated u s, moved, db')
               | (Unchanged, db') \<Rightarrow> (Unchanged, ac'\<lparr>ac_baseline := Some (gid, baseline)\<rparr>, db')))"

definition account_with ::
    "(goal_db \<Rightarrow> goal_db) \<Rightarrow> int \<Rightarrow> nat \<Rightarrow> string \<Rightarrow> token_totals option \<Rightarrow> accounting_mode \<Rightarrow> bool
     \<Rightarrow> accounting \<Rightarrow> goal_db \<Rightarrow> accounting_outcome \<times> accounting \<times> goal_db" where
  "account_with meanwhile now tick t current mode flush_clock ac db =
     (case goal_read t db of
        None \<Rightarrow> (Unchanged, ac\<lparr>ac_baseline := None\<rparr>, db)
      | Some g \<Rightarrow>
          (case ac_baseline ac of
             Some (bid, baseline) \<Rightarrow>
               if bid \<noteq> g_goal_id g
               then (Unchanged, ac\<lparr>ac_baseline := Some (g_goal_id g, or_default current)\<rparr>, db)
               else charge_delta meanwhile now tick t current mode flush_clock bid baseline ac db
           | None \<Rightarrow> charge_delta meanwhile now tick t current mode flush_clock (g_goal_id g) (or_default current) ac db))"

definition record_usage where
  "record_usage meanwhile now tick t current = account_with meanwhile now tick t (Some current) ActiveStatusOnly False"

definition finish_turn where
  "finish_turn meanwhile now tick t current = account_with meanwhile now tick t current ActiveOnly True"

definition stop_abnormal where
  "stop_abnormal meanwhile now tick t current = account_with meanwhile now tick t current ActiveOrStopped True"

definition flush_wall_clock where
  "flush_wall_clock meanwhile now tick t mode = account_with meanwhile now tick t None mode True"

definition start_wall_clock_if_active :: "nat \<Rightarrow> string \<Rightarrow> goal_db \<Rightarrow> accounting \<Rightarrow> accounting" where
  "start_wall_clock_if_active tick t db ac =
     (case goal_read t db of
        Some g \<Rightarrow>
          if g_status g = Active then ac\<lparr>ac_baseline := Some (g_goal_id g, no_totals), ac_clock := Some tick\<rparr>
          else ac\<lparr>ac_baseline := None, ac_clock := None\<rparr>
      | None \<Rightarrow> ac\<lparr>ac_baseline := None, ac_clock := None\<rparr>)"

definition clear_baselines :: "accounting \<Rightarrow> accounting" where
  "clear_baselines ac = ac\<lparr>ac_baseline := None, ac_clock := None\<rparr>"

definition reset_baselines :: "string \<Rightarrow> token_totals \<Rightarrow> accounting \<Rightarrow> accounting" where
  "reset_baselines gid initial ac = ac\<lparr>ac_baseline := Some (gid, initial), ac_clock := None\<rparr>"

definition last_totals :: "accounting \<Rightarrow> token_totals" where
  "last_totals ac = (case ac_baseline ac of Some (_, c) \<Rightarrow> c | None \<Rightarrow> no_totals)"

text \<open>The steering message of a spent budget, once per goal.\<close>

definition take_budget_steering_if_flipped ::
    "string option \<Rightarrow> (string \<Rightarrow> string option) \<Rightarrow> string \<Rightarrow> accounting_outcome \<Rightarrow> goal_db \<Rightarrow> accounting
     \<Rightarrow> string option \<times> accounting" where
  "take_budget_steering_if_flipped goals_dir read_file t outcome db ac =
     (case outcome of
        Updated _ BudgetLimited \<Rightarrow>
          (case goal_read t db of
             None \<Rightarrow> (None, ac)
           | Some g \<Rightarrow>
               if ac_reported ac = Some (g_goal_id g) then (None, ac)
               else (Some (budget_limit (resolve_objective goals_dir read_file g)),
                     ac\<lparr>ac_reported := Some (g_goal_id g)\<rparr>))
      | _ \<Rightarrow> (None, ac))"

subsection \<open>The token formula\<close>

lemma uint_sat_sub: "uint (sat_sub a b) = max 0 (uint a - uint b)"
proof (cases "b \<le> a")
  case True
  then have "uint b \<le> uint a" by (simp add: word_le_def)
  moreover have "0 \<le> uint b" "uint a < 2 ^ 64" using uint_lt2p [of a] by simp_all
  ultimately have "0 \<le> uint a - uint b" "uint a - uint b < 2 ^ 64" by linarith+
  then have "uint (a - b) = uint a - uint b" by (simp add: uint_word_ariths)
  with True show ?thesis by (simp add: sat_sub_def word_le_def)
qed (simp add: sat_sub_def word_le_def)

lemma uint_sat_add: "uint (sat_add a b) = min (uint a + uint b) (2 ^ 64 - 1)"
  by (auto simp: sat_add_def uint_plus_simple_iff no_olen_add min_def uint_word_ariths)

lemma delta_formula:
  "goal_token_delta l c =
     min (max 0 (max 0 (uint (tt_input c) - uint (tt_input l)) - max 0 (uint (tt_cached c) - uint (tt_cached l))) +
          max 0 (uint (tt_output c) - uint (tt_output l))) i64_max
   \<and> 0 \<le> goal_token_delta l c \<and> goal_token_delta l c \<le> i64_max"
proof -
  let ?n = "sat_sub (sat_sub (tt_input c) (tt_input l)) (sat_sub (tt_cached c) (tt_cached l))"
  let ?o = "sat_sub (tt_output c) (tt_output l)"
  let ?w = "min (sat_add ?n ?o) 9223372036854775807 :: u64"
  have m: "uint ?w = min (uint (sat_add ?n ?o)) i64_max" by (simp add: min_def word_le_def)
  have "int (unat ?w) < 2 ^ 63" using m by simp
  then have "unat ?w < 2 ^ 63" by (metis of_nat_less_iff of_nat_numeral of_nat_power)
  then have "u64_as_i64 ?w = uint ?w" using u64_as_i64_small by fastforce
  moreover have "goal_token_delta l c = u64_as_i64 ?w" by (simp add: goal_token_delta_def Let_def)
  ultimately have e: "goal_token_delta l c = min (min (uint ?n + uint ?o) (2 ^ 64 - 1)) i64_max"
    by (simp only: m uint_sat_add)
  then have "goal_token_delta l c = min (uint ?n + uint ?o) i64_max" by (simp add: min_def)
  then show ?thesis by (simp add: uint_sat_sub)
qed

text \<open>the token formula never overflows, never goes negative and never counts backwards: over the
  exact integers it is the growth of the input less the growth of the cached part, each cut at zero,
  plus the growth of the output cut at zero, all capped at the largest \<open>i64\<close>.\<close>

theorem goal_token_delta_exact:
  "goal_token_delta l c =
     min (max 0 (max 0 (uint (tt_input c) - uint (tt_input l)) - max 0 (uint (tt_cached c) - uint (tt_cached l))) +
          max 0 (uint (tt_output c) - uint (tt_output l))) i64_max
   \<and> 0 \<le> goal_token_delta l c \<and> goal_token_delta l c \<le> i64_max"
  by (rule delta_formula)

lemma goal_token_delta_sample:
  "goal_token_delta \<lparr>tt_input = 100, tt_output = 50, tt_cached = 10\<rparr> \<lparr>tt_input = 300, tt_output = 80, tt_cached = 60\<rparr> = 180"
  by (simp add: goal_token_delta_def sat_sub_def sat_add_def u64_as_i64_def word_le_def)

subsection \<open>Stale usage\<close>

lemma account_guard:
  assumes "account_thread_goal_usage now t gid mode dt ds db = (oc, db')"
  shows "db' = db \<or> (\<exists>r r'. goal_row db t = Some r \<and> goal_row db' t = Some r' \<and> g_goal_id r = gid \<and> g_goal_id r' = gid)"
proof -
  let ?wh = "\<lambda>r. g_goal_id r = gid \<and> mode_allows mode (g_status r)"
  have db': "db' = snd (sql_update t ?wh (account_row now (max dt 0) (max ds 0)) db)"
    using assms snd_account [of now t gid mode dt ds db] by simp
  show ?thesis
    by (auto simp: db' sql_update_def goal_row_def account_row_def Let_def split: option.splits)
qed

text \<open>usage measured for one goal is never charged to another. Whatever the other writers do to the
  tables between the read and the charge, if the thread ends with a goal other than the one the
  baseline belongs to, the accountant has not touched the tables at all.\<close>

theorem stale_usage_never_charged:
  assumes "ac_baseline ac = Some (bid, b)"
    and "account_with meanwhile now tick t current mode flush_clock ac db = (oc, ac', db')"
    and "goal_row db' t = Some r'" and "g_goal_id r' \<noteq> bid"
  shows "db' = db \<or> db' = meanwhile db"
proof (cases "db' = db")
  case False
  then obtain g where g: "goal_read t db = Some g" "g_goal_id g = bid"
    using assms(1-2) by (auto simp: account_with_def split: option.splits if_splits)
  with assms(1-2) False have
    "\<exists>dt ds oc'. account_thread_goal_usage now t bid mode dt ds (meanwhile db) = (oc', db')"
    by (fastforce simp: account_with_def charge_delta_def Let_def split: if_splits prod.splits accounting_outcome.splits)
  then show ?thesis using account_guard assms(3-4) by fastforce
qed simp

theorem stale_usage_never_charged_witness:
  "(let r = account_with (goal_exec None 9 (OpReplace sample_request ''g2'')) 9 0 ''t''
              (Some \<lparr>tt_input = 5, tt_output = 0, tt_cached = 0\<rparr>) ActiveStatusOnly False
              (accounting_new ''g1'' no_totals) sample_db
    in snd (snd r) = sample_db \<or> snd (snd r) = goal_exec None 9 (OpReplace sample_request ''g2'') sample_db)"
proof -
  let ?c = "\<lparr>tt_input = 5, tt_output = 0, tt_cached = 0\<rparr>"
  let ?m = "goal_exec None 9 (OpReplace sample_request ''g2'')"
  let ?r = "account_with ?m 9 0 ''t'' (Some ?c) ActiveStatusOnly False (accounting_new ''g1'' no_totals) sample_db"
  obtain r' where r': "goal_row (snd (snd ?r)) ''t'' = Some r'" "g_goal_id r' = ''g2''"
  proof
    have t: "trim ''ship'' = ''ship''" by code_simp
    have v: "request_validate None sample_request = None"
      by (simp add: request_validate_None sample_request_def t MAX_OBJECTIVE_LEN_def max_goal_token_budget_def)
    have d: "goal_token_delta no_totals ?c = 5"
      by (simp add: goal_token_delta_def sat_sub_def sat_add_def u64_as_i64_def word_le_def no_totals_def)
    have m: "?m sample_db = \<lparr>gd_rows = [(''t'', new_row 9 sample_request ''g2'')], gd_deferrals = []\<rparr>"
      by (simp add: goal_replace_def v Let_def sql_upsert_def sql_delete_def sample_db_def) (simp add: sample_request_def)
    have "snd (snd ?r) = ?m sample_db"
      unfolding account_with_def charge_delta_def Let_def m
      by (simp add: goal_read_def sample_db_def goal_from_row_def new_row_def accounting_new_def d
          account_thread_goal_usage_def sql_update_def)
    then have "snd (snd ?r) = \<lparr>gd_rows = [(''t'', new_row 9 sample_request ''g2'')], gd_deferrals = []\<rparr>"
      by (simp only: m)
    then show "goal_row (snd (snd ?r)) ''t'' = Some (new_row 9 sample_request ''g2'')"
      by (simp only: goal_row_def goal_db.simps map_of.simps fst_conv snd_conv fun_upd_same)
    show "g_goal_id (new_row 9 sample_request ''g2'') = ''g2''" by (simp add: new_row_def)
  qed
  have e: "?r = (fst ?r, fst (snd ?r), snd (snd ?r))" by simp
  show ?thesis
    unfolding Let_def
    by (rule stale_usage_never_charged [OF _ e r'(1), of "''g1''" no_totals, unfolded r'(2)])
      (simp_all add: accounting_new_def)
qed

subsection \<open>Nothing is lost or counted twice\<close>

text \<open>Totals that grow, the cached part no faster than the input, as a session reports them.\<close>

definition grows :: "token_totals \<Rightarrow> token_totals \<Rightarrow> bool" where
  "grows l c \<longleftrightarrow>
     tt_input l \<le> tt_input c \<and> tt_output l \<le> tt_output c \<and> tt_cached l \<le> tt_cached c \<and>
     uint (tt_cached c) - uint (tt_cached l) \<le> uint (tt_input c) - uint (tt_input l) \<and>
     uint (tt_input c) + uint (tt_output c) \<le> i64_max"

lemma delta_grows:
  "grows l c \<Longrightarrow> goal_token_delta l c =
     (uint (tt_input c) - uint (tt_input l)) - (uint (tt_cached c) - uint (tt_cached l)) +
     (uint (tt_output c) - uint (tt_output l))"
proof -
  assume g: "grows l c"
  let ?x = "(uint (tt_input c) - uint (tt_input l)) - (uint (tt_cached c) - uint (tt_cached l))"
  have nn: "0 \<le> uint (tt_input l)" "0 \<le> uint (tt_output l)" by simp_all
  moreover have "uint (tt_cached l) \<le> uint (tt_cached c)" "uint (tt_output l) \<le> uint (tt_output c)"
    "uint (tt_cached c) - uint (tt_cached l) \<le> uint (tt_input c) - uint (tt_input l)"
    "uint (tt_input c) + uint (tt_output c) \<le> i64_max"
    using g by (simp_all add: grows_def word_le_def)
  ultimately have b: "0 \<le> ?x" "?x + (uint (tt_output c) - uint (tt_output l)) \<le> i64_max" by linarith+
  have "max 0 (uint (tt_input c) - uint (tt_input l)) = uint (tt_input c) - uint (tt_input l)"
    "max 0 (uint (tt_cached c) - uint (tt_cached l)) = uint (tt_cached c) - uint (tt_cached l)"
    "max 0 (uint (tt_output c) - uint (tt_output l)) = uint (tt_output c) - uint (tt_output l)"
    using g by (simp_all add: grows_def word_le_def)
  then show ?thesis
    using conjunct1 [OF delta_formula [of l c]] b by (simp add: max_def min_def)
qed

lemma grows_trans: "grows a b \<Longrightarrow> grows b c \<Longrightarrow> grows a c"
  by (simp add: grows_def word_le_def)

lemma delta_add: "grows a b \<Longrightarrow> grows b c \<Longrightarrow> goal_token_delta a c = goal_token_delta a b + goal_token_delta b c"
  using delta_grows grows_trans by fastforce

text \<open>What other writers may do while the goal lives: any operation of the store that neither replaces
  the goal of the thread nor charges it.\<close>

fun leaves_usage :: "goal_op \<Rightarrow> string \<Rightarrow> bool" where
  "leaves_usage (OpAccount t' gid m dt ds) t = (t' \<noteq> t)"
| "leaves_usage op t = (\<not> replaces_goal op t \<and> \<not> creates_goal op t)"

lemma sql_update_usage:
  assumes "goal_row db t = Some r" "t' = t \<Longrightarrow> wh r \<Longrightarrow> g_goal_id (f r) = g_goal_id r \<and> g_tokens_used (f r) = g_tokens_used r"
  shows "\<exists>r'. goal_row (snd (sql_update t' wh f db)) t = Some r' \<and> g_goal_id r' = g_goal_id r \<and> g_tokens_used r' = g_tokens_used r"
  using assms by (intro sql_update_related) simp_all

lemma goal_exec_usage:
  assumes "goal_row db t = Some r" "leaves_usage op t"
  shows "\<exists>r'. goal_row (goal_exec var now op db) t = Some r' \<and> g_goal_id r' = g_goal_id r \<and> g_tokens_used r' = g_tokens_used r"
proof (cases op)
  case (OpCreate req gid)
  with assms show ?thesis by (auto simp: goal_create_def Let_def goal_row_simps split: option.splits)
next
  case (OpReplace req gid)
  with assms show ?thesis by (auto simp: goal_replace_def Let_def goal_row_simps split: option.splits)
next
  case (OpMigrate t' gid ob b u sec v st re)
  with assms show ?thesis by (auto simp: insert_migrated_def Let_def goal_row_simps)
next
  case (OpClear t')
  with assms show ?thesis by (auto simp: goal_clear_def goal_row_simps)
next
  case (OpEdit t' gid ob)
  with assms show ?thesis by (auto simp: edit_objective_def Let_def intro!: sql_update_usage)
next
  case (OpBudget t' gid b)
  with assms show ?thesis by (auto simp: update_budget_def split: option.splits intro!: sql_update_usage)
next
  case (OpAccount t' gid m dt ds)
  with assms show ?thesis by (auto simp: snd_account intro!: sql_update_usage)
next
  case (OpDefer t')
  with assms show ?thesis by (simp add: defer_continuation_def goal_row_def)
next
  case (OpUndefer t')
  with assms show ?thesis by (simp add: clear_continuation_deferral_def goal_row_def)
qed (use assms in \<open>auto simp: store_ops_def intro!: sql_update_usage\<close>)

text \<open>A session: reports of usage in any mode, with commands of other writers between them and in the
  middle of them.\<close>

datatype usage_event = Report accounting_mode bool token_totals "goal_op list" | Command goal_op

fun event_ops :: "usage_event \<Rightarrow> goal_op list" where
  "event_ops (Report m fl c ops) = ops"
| "event_ops (Command op) = [op]"

fun event_totals :: "usage_event \<Rightarrow> token_totals list" where
  "event_totals (Report m fl c ops) = [c]"
| "event_totals (Command op) = []"

fun run_event :: "string option \<Rightarrow> int \<Rightarrow> nat \<Rightarrow> string \<Rightarrow> usage_event \<Rightarrow> accounting \<times> goal_db \<Rightarrow> accounting \<times> goal_db" where
  "run_event var now tick t (Report m fl c ops) (ac, db) =
     snd (account_with (fold (goal_exec var now) ops) now tick t (Some c) m fl ac db)"
| "run_event var now tick t (Command op) (ac, db) = (ac, goal_exec var now op db)"

definition charged :: "string \<Rightarrow> string \<Rightarrow> token_totals \<Rightarrow> int \<Rightarrow> token_totals \<Rightarrow> accounting \<times> goal_db \<Rightarrow> bool" where
  "charged t gid c0 u0 cur s \<longleftrightarrow>
     (\<exists>r base. goal_row (snd s) t = Some r \<and> g_goal_id r = gid \<and> ac_baseline (fst s) = Some (gid, base) \<and>
        grows c0 base \<and> grows base cur \<and> g_tokens_used r = u0 + goal_token_delta c0 base)"

lemma fold_usage:
  "goal_row db t = Some r \<Longrightarrow> \<forall>op \<in> set ops. leaves_usage op t \<Longrightarrow>
   \<exists>r'. goal_row (fold (goal_exec var now) ops db) t = Some r' \<and> g_goal_id r' = g_goal_id r \<and> g_tokens_used r' = g_tokens_used r"
proof (induction ops arbitrary: db r)
  case (Cons op ops)
  then obtain r1 where "goal_row (goal_exec var now op db) t = Some r1" "g_goal_id r1 = g_goal_id r" "g_tokens_used r1 = g_tokens_used r"
    using goal_exec_usage [of db t r op var now] by auto
  with Cons.IH [of "goal_exec var now op db" r1] Cons.prems show ?case by simp
qed simp

lemma charged_report:
  assumes ch: "charged t gid c0 u0 cur (ac, db)" and g: "grows cur c" and ops: "\<forall>op \<in> set ops. leaves_usage op t"
  shows "charged t gid c0 u0 c (run_event var now tick t (Report m fl c ops) (ac, db))"
proof -
  from ch obtain r base where r: "goal_row db t = Some r" "g_goal_id r = gid" "ac_baseline ac = Some (gid, base)"
    "grows c0 base" "grows base cur" "g_tokens_used r = u0 + goal_token_delta c0 base"
    by (auto simp: charged_def)
  have bc: "grows base c" using r(5) g by (rule grows_trans)
  have sum: "goal_token_delta c0 c = goal_token_delta c0 base + goal_token_delta base c" by (rule delta_add [OF r(4) bc])
  have cc: "grows c0 c" "grows c c" using grows_trans [OF r(4) bc] bc by (simp_all add: grows_def)
  define dt where "dt = goal_token_delta base c"
  have nn: "0 \<le> dt" using delta_formula [of base c] by (simp add: dt_def)
  let ?m = "fold (goal_exec var now) ops"
  obtain r1 where r1: "goal_row (?m db) t = Some r1" "g_goal_id r1 = gid" "g_tokens_used r1 = g_tokens_used r"
    using fold_usage [OF r(1) ops, of var now] r(2) by auto
  have read: "goal_read t db = Some (goal_from_row r)" "g_goal_id (goal_from_row r) = gid"
    using r(1-2) by (simp_all add: goal_read_def goal_row_def goal_from_row_def)
  define ds where "ds = (if fl then (case ac_clock ac of Some since \<Rightarrow> elapsed_secs since tick | None \<Rightarrow> 0) else 0)"
  have ev: "run_event var now tick t (Report m fl c ops) (ac, db) =
      snd (charge_delta ?m now tick t (Some c) m fl gid base ac db)"
    by (simp add: account_with_def read r(3))
  show ?thesis
  proof (cases "dt = 0 \<and> ds = 0")
    case True
    then have "snd (charge_delta ?m now tick t (Some c) m fl gid base ac db)
        = ((if fl then ac\<lparr>ac_clock := None\<rparr> else ac)\<lparr>ac_baseline := Some (gid, c)\<rparr>, db)"
      by (simp add: charge_delta_def Let_def dt_def ds_def)
    with True r cc sum show ?thesis unfolding ev by (simp add: charged_def dt_def)
  next
    case False
    obtain oc db' where a: "account_thread_goal_usage now t gid m dt ds (?m db) = (oc, db')" by fastforce
    have e: "snd (charge_delta ?m now tick t (Some c) m fl gid base ac db) =
        ((if fl then ac\<lparr>ac_clock := None\<rparr> else ac)\<lparr>ac_baseline := Some (gid, case oc of Updated u s \<Rightarrow> c | Unchanged \<Rightarrow> base)\<rparr>, db')"
      using False a by (auto simp: charge_delta_def Let_def dt_def [symmetric] ds_def [symmetric] split: accounting_outcome.splits)
    show ?thesis
    proof (cases oc)
      case (Updated u s)
      obtain r' where r': "goal_row db' t = Some r'" "g_tokens_used r' = g_tokens_used r1 + dt"
        using a unfolding Updated by (rule account_updated) (use r1 nn in auto)
      have "g_goal_id r' = gid" using account_guard [OF a] r' r1 by auto
      with r' r r1 cc sum show ?thesis unfolding ev e by (simp add: Updated charged_def dt_def)
    next
      case Unchanged
      have "db' = ?m db"
        using a unfolding Unchanged
        by (auto simp: account_thread_goal_usage_def sql_update_def split: prod.splits option.splits if_splits)
      with r1 r bc show ?thesis unfolding ev e by (simp add: Unchanged charged_def)
    qed
  qed
qed

fun growing :: "token_totals \<Rightarrow> usage_event list \<Rightarrow> bool" where
  "growing cur [] = True"
| "growing cur (Report m fl c ops # evs) = (grows cur c \<and> growing c evs)"
| "growing cur (Command op # evs) = growing cur evs"

fun last_report :: "token_totals \<Rightarrow> usage_event list \<Rightarrow> token_totals" where
  "last_report cur [] = cur"
| "last_report cur (Report m fl c ops # evs) = last_report c evs"
| "last_report cur (Command op # evs) = last_report cur evs"

lemma charged_run:
  "charged t gid c0 u0 cur s \<Longrightarrow> growing cur evs \<Longrightarrow> \<forall>ev \<in> set evs. \<forall>op \<in> set (event_ops ev). leaves_usage op t \<Longrightarrow>
   charged t gid c0 u0 (last_report cur evs) (fold (run_event var now tick t) evs s)"
proof (induction evs arbitrary: cur s)
  case (Cons ev evs)
  obtain ac db where s: "s = (ac, db)" by fastforce
  show ?case
  proof (cases ev)
    case (Report m fl c ops)
    with Cons.prems have "charged t gid c0 u0 c (run_event var now tick t ev s)"
      by (simp add: s charged_report del: run_event.simps)
    from Cons.IH [OF this] Cons.prems show ?thesis by (simp add: Report)
  next
    case (Command op)
    from Cons.prems(1) obtain r base where r: "goal_row db t = Some r" "g_goal_id r = gid"
      "ac_baseline ac = Some (gid, base)" "grows c0 base" "grows base cur" "g_tokens_used r = u0 + goal_token_delta c0 base"
      by (auto simp: charged_def s)
    obtain r1 where "goal_row (goal_exec var now op db) t = Some r1" "g_goal_id r1 = gid" "g_tokens_used r1 = g_tokens_used r"
      using goal_exec_usage [of db t r op var now] r Cons.prems(3) Command by auto
    with r have "charged t gid c0 u0 cur (run_event var now tick t ev s)"
      by (simp add: s Command charged_def)
    from Cons.IH [OF this] Cons.prems show ?thesis by (simp add: Command)
  qed
qed simp

text \<open>C5: no usage is lost and none is charged twice. Over any session of growing reports, in any modes
  and with any commands of other writers in between (pauses, resumes, edits, limits), what the goal was
  charged plus what the baseline still has outstanding is exactly the growth from the arming point to
  the last report; a report refused by the status of the goal stays outstanding and is caught up
  later.\<close>

theorem usage_charged_once:
  assumes "goal_row db t = Some r" and "g_goal_id r = gid" and "ac_baseline ac = Some (gid, c0)"
    and "grows c0 c0" and "growing c0 evs"
    and "\<forall>ev \<in> set evs. \<forall>op \<in> set (event_ops ev). leaves_usage op t"
    and "fold (run_event var now tick t) evs (ac, db) = (ac', db')"
  shows "\<exists>r' base. goal_row db' t = Some r' \<and> g_goal_id r' = gid \<and> ac_baseline ac' = Some (gid, base) \<and>
           (g_tokens_used r' - g_tokens_used r) + goal_token_delta base (last_report c0 evs) =
             goal_token_delta c0 (last_report c0 evs)"
proof -
  have "goal_token_delta c0 c0 = 0" using delta_grows [OF assms(4)] by simp
  then have "charged t gid c0 (g_tokens_used r) c0 (ac, db)" using assms(1-4) by (simp add: charged_def)
  from charged_run [OF this assms(5,6), of var now tick]
  obtain r' base where "goal_row db' t = Some r'" "g_goal_id r' = gid" "ac_baseline ac' = Some (gid, base)"
    "grows c0 base" "grows base (last_report c0 evs)" "g_tokens_used r' = g_tokens_used r + goal_token_delta c0 base"
    unfolding assms(7) by (auto simp: charged_def)
  then show ?thesis using delta_add by fastforce
qed

abbreviation sample_totals :: "u64 \<Rightarrow> token_totals" where
  "sample_totals n \<equiv> \<lparr>tt_input = n, tt_output = 0, tt_cached = 0\<rparr>"

theorem usage_charged_once_witness:
  "\<exists>r' base. goal_row (snd (fold (run_event None 9 0 ''t'')
         [Report ActiveStatusOnly False (sample_totals 4) [], Command (OpPause ''t'' ''g1''),
          Report ActiveStatusOnly False (sample_totals 6) [OpDefer ''t''], Command (OpResume ''t'' ''g1''),
          Report ActiveStatusOnly False (sample_totals 7) []]
         (accounting_new ''g1'' no_totals, sample_db))) ''t'' = Some r' \<and>
     g_tokens_used r' + goal_token_delta base (sample_totals 7) = goal_token_delta no_totals (sample_totals 7)"
proof -
  let ?evs = "[Report ActiveStatusOnly False (sample_totals 4) [], Command (OpPause ''t'' ''g1''),
          Report ActiveStatusOnly False (sample_totals 6) [OpDefer ''t''], Command (OpResume ''t'' ''g1''),
          Report ActiveStatusOnly False (sample_totals 7) []]"
  let ?s = "fold (run_event None 9 0 ''t'') ?evs (accounting_new ''g1'' no_totals, sample_db)"
  have "fold (run_event None 9 0 ''t'') ?evs (accounting_new ''g1'' no_totals, sample_db) = (fst ?s, snd ?s)"
    by (simp only: prod.collapse)
  from usage_charged_once [OF _ _ _ _ _ _ this, of "new_row 3 sample_request ''g1''" "''g1''" no_totals]
  show ?thesis
    by (auto simp: sample_db_def goal_row_def new_row_def accounting_new_def no_totals_def grows_def word_le_def
        simp del: fold.simps fold_simps)
qed

text \<open>The clock is not treated like the tokens: the seconds of a report that the status refuses are
  dropped, for the clock is taken before the charge.\<close>

lemma refused_seconds_are_lost:
  "account_with (\<lambda>db. db) 9 5000000000 ''t'' None ActiveStatusOnly True
     \<lparr>ac_baseline = Some (''g1'', no_totals), ac_clock = Some 0, ac_reported = None\<rparr>
     (goal_exec None 5 (OpPause ''t'' ''g1'') sample_db)
   = (Unchanged, \<lparr>ac_baseline = Some (''g1'', no_totals), ac_clock = None, ac_reported = None\<rparr>,
      goal_exec None 5 (OpPause ''t'' ''g1'') sample_db)"
  by (simp add: account_with_def charge_delta_def Let_def goal_read_def goal_pause_def transition_status_def
      or_disallowed_def sql_update_def sample_db_def new_row_def goal_from_row_def elapsed_secs_def
      account_thread_goal_usage_def del: allowed_statuses_sql.simps status_as_str.simps)

text \<open>Starting the clock of a goal that is not active is documented as a no-op; it drops the baseline.\<close>

lemma start_of_paused_drops_baseline:
  "ac_baseline (start_wall_clock_if_active 7 ''t'' (goal_exec None 5 (OpPause ''t'' ''g1'') sample_db)
     (accounting_new ''g1'' no_totals)) = None"
  by (simp add: start_wall_clock_if_active_def goal_read_def goal_pause_def transition_status_def
      or_disallowed_def sql_update_def sample_db_def new_row_def goal_from_row_def)

subsection \<open>One message per spent budget\<close>

lemma reported_once:
  assumes "goal_read t db = Some g" "ac_reported ac = Some (g_goal_id g)"
  shows "take_budget_steering_if_flipped dir read_file t oc db ac = (None, ac)"
  using assms by (simp add: take_budget_steering_if_flipped_def split: accounting_outcome.splits goal_status.splits)

end
