(* ===== verification/Goal_Audit.thy ===== *)
theory Goal_Audit
  imports Goal_Types
begin

text \<open>
  \<open>agent/goal/src/tool_accounting.rs\<close>: the audit that blocks a goal when the shell is broken. Three
  goal turns with a failed shell call and no success at all trigger it. The counter is a \<open>u8\<close> in the
  code; the invariant \<open>ta_count < 3\<close> shows that it never overflows.
\<close>

definition EXEC_TOOL_NAMES :: "string list" where
  "EXEC_TOOL_NAMES = [''bash'', ''exec'', ''shell'']"

definition MAX_CONSECUTIVE_EXECUTION_FAILURES :: nat where
  "MAX_CONSECUTIVE_EXECUTION_FAILURES = 3"

record tool_accounting =
  ta_failed :: bool
  ta_success :: bool
  ta_goal :: "string option"
  ta_count :: nat

definition tool_accounting_new :: tool_accounting where
  "tool_accounting_new = \<lparr>ta_failed = False, ta_success = False, ta_goal = None, ta_count = 0\<rparr>"

definition record_tool_outcome :: "string \<Rightarrow> bool \<Rightarrow> tool_accounting \<Rightarrow> tool_accounting" where
  "record_tool_outcome tool failed ta =
     (if failed then (if tool \<in> set EXEC_TOOL_NAMES then ta\<lparr>ta_failed := True\<rparr> else ta)
      else ta\<lparr>ta_success := True, ta_goal := None, ta_count := 0\<rparr>)"

definition begin_turn :: "tool_accounting \<Rightarrow> tool_accounting" where
  "begin_turn ta = ta\<lparr>ta_failed := False, ta_success := False\<rparr>"

definition execution_failure_goal :: "string option \<Rightarrow> tool_accounting \<Rightarrow> string option \<times> tool_accounting" where
  "execution_failure_goal bound ta =
     (case bound of
        None \<Rightarrow> (None, ta)
      | Some gid \<Rightarrow>
          let ta1 = (if ta_goal ta \<noteq> Some gid then ta\<lparr>ta_goal := Some gid, ta_count := 0\<rparr> else ta) in
          if ta_success ta1 \<or> \<not> ta_failed ta1 then (None, ta1)
          else
            let n = ta_count ta1 + 1 in
            if n \<ge> MAX_CONSECUTIVE_EXECUTION_FAILURES then (Some gid, ta1\<lparr>ta_count := 0\<rparr>)
            else (None, ta1\<lparr>ta_count := n\<rparr>))"

subsection \<open>Against the history\<close>

text \<open>A turn: the outcomes of its tools (name, failed) and the goal it is bound to, if any.\<close>

type_synonym audit_turn = "(string \<times> bool) list \<times> string option"

definition run_audit_turn :: "audit_turn \<Rightarrow> tool_accounting \<Rightarrow> string option \<times> tool_accounting" where
  "run_audit_turn turn ta =
     execution_failure_goal (snd turn) (fold (\<lambda>(tool, failed). record_tool_outcome tool failed) (fst turn) (begin_turn ta))"

definition has_success :: "audit_turn \<Rightarrow> bool" where
  "has_success turn \<longleftrightarrow> (\<exists>o' \<in> set (fst turn). \<not> snd o')"

definition failing_turn :: "audit_turn \<Rightarrow> bool" where
  "failing_turn turn \<longleftrightarrow> \<not> has_success turn \<and> (\<exists>o' \<in> set (fst turn). snd o' \<and> fst o' \<in> set EXEC_TOOL_NAMES)"

text \<open>The reference: the failing turns of the goal since the last success of any tool or the last turn
  bound to another goal, the newest turn first.\<close>

fun streak :: "string \<Rightarrow> audit_turn list \<Rightarrow> nat" where
  "streak gid [] = 0"
| "streak gid (turn # older) =
     (if has_success turn then 0
      else case snd turn of
             None \<Rightarrow> streak gid older
           | Some g \<Rightarrow> (if g \<noteq> gid then 0 else (if failing_turn turn then 1 else 0) + streak gid older))"

fun audit_state :: "audit_turn list \<Rightarrow> tool_accounting" where
  "audit_state [] = tool_accounting_new"
| "audit_state (turn # older) = snd (run_audit_turn turn (audit_state older))"

lemma fold_outcomes:
  "fold (\<lambda>(tool, failed). record_tool_outcome tool failed) os ta =
     \<lparr>ta_failed = (ta_failed ta \<or> (\<exists>x \<in> set os. snd x \<and> fst x \<in> set EXEC_TOOL_NAMES)),
      ta_success = (ta_success ta \<or> (\<exists>x \<in> set os. \<not> snd x)),
      ta_goal = (if \<exists>x \<in> set os. \<not> snd x then None else ta_goal ta),
      ta_count = (if \<exists>x \<in> set os. \<not> snd x then 0 else ta_count ta)\<rparr>"
  by (induction os arbitrary: ta) (auto simp: record_tool_outcome_def split: if_splits)

lemma run_audit_turn_simp:
  "run_audit_turn turn ta =
     execution_failure_goal (snd turn)
       \<lparr>ta_failed = (\<exists>x \<in> set (fst turn). snd x \<and> fst x \<in> set EXEC_TOOL_NAMES), ta_success = has_success turn,
        ta_goal = (if has_success turn then None else ta_goal ta), ta_count = (if has_success turn then 0 else ta_count ta)\<rparr>"
  by (simp add: run_audit_turn_def fold_outcomes begin_turn_def has_success_def)

lemma audit_invariant:
  "ta_count (audit_state h) < 3 \<and>
   (\<forall>gid. ta_goal (audit_state h) = Some gid \<longrightarrow> ta_count (audit_state h) = streak gid h mod 3) \<and>
   (\<forall>gid. ta_goal (audit_state h) \<noteq> Some gid \<longrightarrow> streak gid h = 0)"
proof (induction h)
  case Nil
  show ?case by (simp add: tool_accounting_new_def)
next
  case (Cons turn h)
  show ?case
  proof (cases "snd turn")
    case None
    with Cons show ?thesis
      by (auto simp: run_audit_turn_simp execution_failure_goal_def)
  next
    case (Some g)
    have s: "streak g h mod 3 = (if ta_goal (audit_state h) = Some g then ta_count (audit_state h) else 0)"
      using Cons by auto
    have c: "ta_count (audit_state h) < 3" using Cons by simp
    then have c3: "ta_count (audit_state h) = 0 \<or> ta_count (audit_state h) = 1 \<or> ta_count (audit_state h) = 2" by arith
    show ?thesis
    proof (cases "failing_turn turn")
      case True
      then have t: "\<not> has_success turn" "\<exists>x \<in> set (fst turn). snd x \<and> fst x \<in> set EXEC_TOOL_NAMES"
        by (auto simp: failing_turn_def)
      have m: "Suc (streak g h) mod 3 = Suc (streak g h mod 3) mod 3" by (simp add: mod_Suc_eq)
      show ?thesis
        using t True s c3 Some
        by (auto simp: run_audit_turn_simp execution_failure_goal_def Let_def MAX_CONSECUTIVE_EXECUTION_FAILURES_def m)
    next
      case False
      then show ?thesis
        using s c Some
        by (auto simp: run_audit_turn_simp execution_failure_goal_def Let_def failing_turn_def)
    qed
  qed
qed

text \<open>the audit of broken shells answers exactly what the history of the session says. It names a
  goal at the end of a turn if and only if the turn is bound to that goal, had a failing shell call and
  no success, and is the third, sixth, ninth such turn of the goal since the last success of any tool
  or the last turn for another goal; and its counter stays below three.\<close>

theorem audit_is_third_strike:
  "(fst (run_audit_turn turn (audit_state h)) = Some gid \<longleftrightarrow>
     snd turn = Some gid \<and> failing_turn turn \<and> streak gid (turn # h) mod 3 = 0) \<and>
   ta_count (audit_state h) < 3"
proof (rule conjI [rotated])
  show lt: "ta_count (audit_state h) < 3" using audit_invariant by blast
  show "fst (run_audit_turn turn (audit_state h)) = Some gid \<longleftrightarrow>
     snd turn = Some gid \<and> failing_turn turn \<and> streak gid (turn # h) mod 3 = 0"
  proof (cases "snd turn = Some gid \<and> failing_turn turn")
    case False
    then show ?thesis
      by (auto simp: run_audit_turn_simp execution_failure_goal_def Let_def failing_turn_def split: option.splits if_splits)
  next
    case True
    then have t: "\<not> has_success turn" "\<exists>x \<in> set (fst turn). snd x \<and> fst x \<in> set EXEC_TOOL_NAMES"
      by (auto simp: failing_turn_def)
    have s: "streak gid h mod 3 = (if ta_goal (audit_state h) = Some gid then ta_count (audit_state h) else 0)"
      using audit_invariant by auto
    have m: "Suc (streak gid h) mod 3 = Suc (streak gid h mod 3) mod 3" by (simp add: mod_Suc_eq)
    from lt have c3: "ta_count (audit_state h) = 0 \<or> ta_count (audit_state h) = 1 \<or> ta_count (audit_state h) = 2" by arith
    show ?thesis
      using t True s c3
      by (auto simp: run_audit_turn_simp execution_failure_goal_def Let_def MAX_CONSECUTIVE_EXECUTION_FAILURES_def m)
  qed
qed

end
