(* ===== verification/Goal_Runtime.thy ===== *)
theory Goal_Runtime
  imports Goal_Accounting Goal_Audit
begin

text \<open>
  \<open>agent/goal/src/runtime.rs\<close> and \<open>service.rs\<close>: what a session does with its goal. The host calls a
  hook at each turn boundary; the hooks drive the store, the accountant and the audit, ask the host to
  start turns and notify it of status changes. The host is a parameter: \<open>hs_start\<close> answers the \<open>n\<close>-th
  request for a turn, \<open>hs_write\<close> tells whether a file can be written. Reads of the clock within one hook
  give one value. Metrics and tracing are left out; a lock that times out is the argument \<open>locked\<close>
  being false.
\<close>

datatype goal_turn_reason = ActiveGoal | BudgetLimit | ObjectiveUpdated

record goal_turn_meta =
  gt_goal_id :: string
  gt_iteration :: int
  gt_reason :: goal_turn_reason

record goal_host =
  hs_var :: "string option"
  hs_dir :: "string option"
  hs_start :: "nat \<Rightarrow> string \<Rightarrow> goal_turn_meta option \<Rightarrow> bool"
  hs_write :: "string \<Rightarrow> bool"

record goal_world =
  rw_db :: goal_db
  rw_files :: "(string \<times> string) list"
  rw_turns :: "(string \<times> goal_turn_meta option \<times> bool) list"
  rw_notified :: "goal list"

record turn_binding =
  tb_token :: string
  tb_goal_id :: string
  tb_account :: bool

record goal_handle =
  gh_thread :: string
  gh_accounting :: accounting
  gh_binding :: "turn_binding option"
  gh_audit :: tool_accounting
  gh_seen :: int
  gh_tools :: "bool option"

definition goal_handle_new :: "string \<Rightarrow> goal_handle" where
  "goal_handle_new t =
     \<lparr>gh_thread = t, gh_accounting = new_unarmed, gh_binding = None, gh_audit = tool_accounting_new,
      gh_seen = 0, gh_tools = None\<rparr>"

definition record_goal_tools_visibility :: "bool \<Rightarrow> goal_handle \<Rightarrow> goal_handle" where
  "record_goal_tools_visibility visible h = h\<lparr>gh_tools := Some visible\<rparr>"

subsection \<open>The host\<close>

definition request_turn :: "goal_host \<Rightarrow> string \<Rightarrow> goal_turn_meta option \<Rightarrow> goal_world \<Rightarrow> bool \<times> goal_world" where
  "request_turn H txt meta w =
     (let started = hs_start H (length (rw_turns w)) txt meta
      in (started, w\<lparr>rw_turns := rw_turns w @ [(txt, meta, started)]\<rparr>))"

definition notify_status_change :: "goal \<Rightarrow> goal_world \<Rightarrow> goal_world" where
  "notify_status_change g w = w\<lparr>rw_notified := rw_notified w @ [g]\<rparr>"

definition resolve_in :: "goal_host \<Rightarrow> goal_world \<Rightarrow> goal \<Rightarrow> goal" where
  "resolve_in H w = resolve_objective (hs_dir H) (map_of (rw_files w))"

definition with_db :: "(goal_db \<Rightarrow> 'a \<times> goal_db) \<Rightarrow> goal_world \<Rightarrow> 'a \<times> goal_world" where
  "with_db f w = (let (x, db) = f (rw_db w) in (x, w\<lparr>rw_db := db\<rparr>))"

definition with_accounting ::
    "(accounting \<Rightarrow> goal_db \<Rightarrow> accounting_outcome \<times> accounting \<times> goal_db) \<Rightarrow> goal_handle \<times> goal_world
     \<Rightarrow> accounting_outcome \<times> goal_handle \<times> goal_world" where
  "with_accounting f s =
     (let (oc, ac, db) = f (gh_accounting (fst s)) (rw_db (snd s))
      in (oc, (fst s)\<lparr>gh_accounting := ac\<rparr>, (snd s)\<lparr>rw_db := db\<rparr>))"

subsection \<open>Turn start\<close>

definition on_turn_start :: "nat \<Rightarrow> goal_handle \<times> goal_world \<Rightarrow> goal_handle \<times> goal_world" where
  "on_turn_start tick s =
     (let h = fst s; w = (snd s)\<lparr>rw_db := snd (clear_continuation_deferral (gh_thread h) (rw_db (snd s)))\<rparr>
      in (h\<lparr>gh_accounting := start_wall_clock_if_active tick (gh_thread h) (rw_db w) (gh_accounting h),
            gh_audit := begin_turn (gh_audit h)\<rparr>, w))"

definition bind_turn :: "bool \<Rightarrow> string \<Rightarrow> goal_handle \<times> goal_world \<Rightarrow> goal_handle \<times> goal_world" where
  "bind_turn account token s =
     (case goal_read (gh_thread (fst s)) (rw_db (snd s)) of
        Some g \<Rightarrow>
          if g_status g = Active
          then ((fst s)\<lparr>gh_seen := g_objective_revision g,
                        gh_binding := Some \<lparr>tb_token = token, tb_goal_id = g_goal_id g, tb_account = account\<rparr>\<rparr>, snd s)
          else s
      | None \<Rightarrow> s)"

definition on_turn_start_for :: "nat \<Rightarrow> string \<Rightarrow> goal_handle \<times> goal_world \<Rightarrow> goal_handle \<times> goal_world" where
  "on_turn_start_for tick token s = bind_turn True token (on_turn_start tick s)"

definition on_turn_start_exempt :: "nat \<Rightarrow> string \<Rightarrow> goal_handle \<times> goal_world \<Rightarrow> goal_handle \<times> goal_world" where
  "on_turn_start_exempt tick token s = bind_turn False token (on_turn_start tick s)"

definition handle_tool_outcome :: "string \<Rightarrow> bool \<Rightarrow> goal_handle \<Rightarrow> goal_handle" where
  "handle_tool_outcome tool failed h = h\<lparr>gh_audit := record_tool_outcome tool failed (gh_audit h)\<rparr>"

definition exempt :: "turn_binding option \<Rightarrow> bool" where
  "exempt bound \<longleftrightarrow> map_option tb_account bound = Some False"

subsection \<open>Turn end\<close>

text \<open>\<open>inject_budget_steering_if_flipped\<close>.\<close>

definition inject_budget_steering ::
    "goal_host \<Rightarrow> int \<Rightarrow> accounting_outcome \<Rightarrow> goal_handle \<times> goal_world \<Rightarrow> string option \<times> goal_handle \<times> goal_world" where
  "inject_budget_steering H now oc s =
     (let h = fst s; w = snd s; t = gh_thread h in
      case take_budget_steering_if_flipped (hs_dir H) (map_of (rw_files w)) t oc (rw_db w) (gh_accounting h) of
        (None, ac) \<Rightarrow> (None, h\<lparr>gh_accounting := ac\<rparr>, w)
      | (Some txt, ac) \<Rightarrow>
          let h' = h\<lparr>gh_accounting := ac\<rparr> in
          (case goal_read t (rw_db w) of
             Some g \<Rightarrow>
               let iteration = g_iteration_count g + 1;
                   (started, w') = request_turn H txt (Some \<lparr>gt_goal_id = g_goal_id g, gt_iteration = iteration, gt_reason = BudgetLimit\<rparr>)
                     (notify_status_change g w)
               in (Some txt, h', if started then snd (with_db (set_iteration now t (g_goal_id g) iteration) w') else w')
           | None \<Rightarrow> (Some txt, h', snd (request_turn H txt None w))))"

text \<open>\<open>mark_blocked\<close> and its notification, as the hooks do it.\<close>

definition block_goal :: "int \<Rightarrow> string \<Rightarrow> string \<Rightarrow> string \<Rightarrow> goal_world \<Rightarrow> bool \<times> goal_world" where
  "block_goal now t gid reason w =
     (case with_db (mark_blocked now t gid reason) w of
        (Inr g, w') \<Rightarrow> (True, notify_status_change g w')
      | (Inl e, w') \<Rightarrow> (False, w'))"

definition EXECUTION_UNAVAILABLE :: string where
  "EXECUTION_UNAVAILABLE = ''execution unavailable after 3 consecutive failed execution turns''"

definition on_turn_finish ::
    "goal_host \<Rightarrow> int \<Rightarrow> nat \<Rightarrow> token_totals option \<Rightarrow> goal_handle \<times> goal_world \<Rightarrow> string option \<times> goal_handle \<times> goal_world" where
  "on_turn_finish H now tick totals s =
     (let bound = gh_binding (fst s); s0 = ((fst s)\<lparr>gh_binding := None\<rparr>, snd s) in
      if exempt bound then (None, s0)
      else
        case with_accounting (finish_turn (\<lambda>db. db) now tick (gh_thread (fst s)) totals) s0 of
          (oc, h, w) \<Rightarrow>
            (case bound of
               None \<Rightarrow> inject_budget_steering H now oc (h\<lparr>gh_audit := snd (execution_failure_goal None (gh_audit h))\<rparr>, w)
             | Some b \<Rightarrow>
                 (case execution_failure_goal (Some (tb_goal_id b)) (gh_audit h) of
                    (None, audit) \<Rightarrow> inject_budget_steering H now oc (h\<lparr>gh_audit := audit\<rparr>, w)
                  | (Some gid, audit) \<Rightarrow>
                      (case block_goal now (gh_thread h) gid EXECUTION_UNAVAILABLE w of
                         (True, w') \<Rightarrow> (None, h\<lparr>gh_audit := audit\<rparr>, w')
                       | (False, w') \<Rightarrow> inject_budget_steering H now oc (h\<lparr>gh_audit := audit\<rparr>, w')))))"

definition on_turn_abort :: "int \<Rightarrow> nat \<Rightarrow> token_totals option \<Rightarrow> goal_handle \<times> goal_world \<Rightarrow> goal_handle \<times> goal_world" where
  "on_turn_abort now tick totals s =
     (let bound = gh_binding (fst s); s0 = ((fst s)\<lparr>gh_binding := None\<rparr>, snd s) in
      if exempt bound then s0
      else snd (with_accounting (stop_abnormal (\<lambda>db. db) now tick (gh_thread (fst s)) totals) s0))"

definition on_turn_error ::
    "goal_host \<Rightarrow> int \<Rightarrow> nat \<Rightarrow> string \<Rightarrow> token_totals option \<Rightarrow> goal_handle \<times> goal_world
     \<Rightarrow> string option \<times> goal_handle \<times> goal_world" where
  "on_turn_error H now tick reason totals s =
     (let bound = gh_binding (fst s); s0 = ((fst s)\<lparr>gh_binding := None\<rparr>, snd s) in
      if exempt bound then (None, s0)
      else
        case with_accounting (stop_abnormal (\<lambda>db. db) now tick (gh_thread (fst s)) totals) s0 of
          (oc, h, w) \<Rightarrow>
            let w' = (case bound of
                        Some b \<Rightarrow> snd (block_goal now (gh_thread h) (tb_goal_id b) reason w)
                      | None \<Rightarrow>
                          (case goal_read (gh_thread h) (rw_db w) of
                             Some g \<Rightarrow> if g_status g = Active
                                       then snd (block_goal now (gh_thread h) (g_goal_id g) reason w) else w
                           | None \<Rightarrow> w))
            in inject_budget_steering H now oc (h, w'))"

definition on_provider_quota_exhausted ::
    "int \<Rightarrow> nat \<Rightarrow> string \<Rightarrow> token_totals option \<Rightarrow> goal_handle \<times> goal_world \<Rightarrow> goal_handle \<times> goal_world" where
  "on_provider_quota_exhausted now tick reason totals s =
     (case with_accounting (stop_abnormal (\<lambda>db. db) now tick (gh_thread (fst s)) totals) s of
        (oc, h, w) \<Rightarrow>
          (case goal_read (gh_thread h) (rw_db w) of
             Some g \<Rightarrow>
               (case with_db (mark_usage_limited now (gh_thread h) (g_goal_id g) reason) w of
                  (Inr g', w') \<Rightarrow> (h, notify_status_change g' w')
                | (Inl e, w') \<Rightarrow> (h, w'))
           | None \<Rightarrow> (h, w)))"

definition before_model_status_update ::
    "int \<Rightarrow> nat \<Rightarrow> token_totals option \<Rightarrow> goal_handle \<times> goal_world \<Rightarrow> goal_handle \<times> goal_world" where
  "before_model_status_update now tick totals s =
     (let s1 = (case totals of
                  Some c \<Rightarrow> snd (with_accounting (record_usage (\<lambda>db. db) now tick (gh_thread (fst s)) c) s)
                | None \<Rightarrow> s)
      in snd (with_accounting (flush_wall_clock (\<lambda>db. db) now tick (gh_thread (fst s)) ActiveOrStopped) s1))"

subsection \<open>Going on by itself\<close>

definition continue_if_idle ::
    "goal_host \<Rightarrow> bool \<Rightarrow> int \<Rightarrow> goal_handle \<times> goal_world \<Rightarrow> bool \<times> goal_handle \<times> goal_world" where
  "continue_if_idle H locked now s =
     (let h = fst s; w = snd s; t = gh_thread h in
      if gh_tools h = Some False then (False, s)
      else if \<not> locked then (False, s)
      else if has_continuation_deferral t (rw_db w) then (False, s)
      else
        case goal_read t (rw_db w) of
          None \<Rightarrow> (False, s)
        | Some g0 \<Rightarrow>
            if g_status g0 \<noteq> Active then (False, s)
            else
              let g = resolve_in H w g0;
                  changed = g_objective_revision g > gh_seen h;
                  txt = (if changed then objective_updated g else continuation g None);
                  reason = (if changed then ObjectiveUpdated else ActiveGoal);
                  iteration = g_iteration_count g + 1;
                  (started, w1) = request_turn H txt (Some \<lparr>gt_goal_id = g_goal_id g, gt_iteration = iteration, gt_reason = reason\<rparr>) w
              in if \<not> started then (False, h, w1)
                 else
                   let (r, w2) = with_db (set_iteration now t (g_goal_id g) iteration) w1;
                       w3 = (case r of
                               Inr updated \<Rightarrow> notify_status_change (updated\<lparr>g_objective := g_objective g\<rparr>) w2
                             | Inl e \<Rightarrow> w2)
                   in (True, if changed then h\<lparr>gh_seen := g_objective_revision g\<rparr> else h, w3))"

definition on_goal_replaced :: "string option \<Rightarrow> token_totals \<Rightarrow> goal_handle \<Rightarrow> goal_handle" where
  "on_goal_replaced gid totals h =
     h\<lparr>gh_accounting := (case gid of Some i \<Rightarrow> reset_baselines i totals (gh_accounting h)
                                  | None \<Rightarrow> clear_baselines (gh_accounting h))\<rparr>"

definition note_goal_armed :: "string \<Rightarrow> goal_handle \<Rightarrow> goal_handle" where
  "note_goal_armed gid h = h\<lparr>gh_accounting := reset_baselines gid (last_totals (gh_accounting h)) (gh_accounting h)\<rparr>"

definition note_goal_armed_at :: "string \<Rightarrow> token_totals \<Rightarrow> goal_handle \<Rightarrow> goal_handle" where
  "note_goal_armed_at gid totals h = h\<lparr>gh_accounting := reset_baselines gid totals (gh_accounting h)\<rparr>"

definition on_goal_status_changed ::
    "int \<Rightarrow> nat \<Rightarrow> goal_status \<Rightarrow> goal_handle \<times> goal_world \<Rightarrow> goal_handle \<times> goal_world" where
  "on_goal_status_changed now tick status s =
     (let h = fst s in
      if status = Active
      then (h\<lparr>gh_accounting := start_wall_clock_if_active tick (gh_thread h) (rw_db (snd s)) (gh_accounting h)\<rparr>, snd s)
      else snd (with_accounting (flush_wall_clock (\<lambda>db. db) now tick (gh_thread h) ActiveOrStopped)
                 (h\<lparr>gh_binding := None\<rparr>, snd s)))"

end
