(* ===== verification/Goal_Service.thy ===== *)
theory Goal_Service
  imports Goal_Runtime
begin

text \<open>
  \<open>agent/goal/src/service.rs\<close> (the user's commands) and the model's tools of \<open>tools.rs\<close>. A long
  objective is written to a file of the goals directory and replaced by its marker; the fresh goal id
  and the verdict of the verify command are arguments. Replies are the texts the code builds.
\<close>

datatype goal_service_error = NoGoal string | NotResumable goal_status | LockTimeout | Store goal_store_error

type_synonym 'a service_res = "goal_service_error + 'a"

record goal_set_outcome =
  so_goal :: goal
  so_replaced_existing :: bool

definition file_path :: "string \<Rightarrow> string \<Rightarrow> string" where
  "file_path dir thread_id = path_join dir (file_name_for thread_id)"

definition prepare_objective :: "goal_host \<Rightarrow> string \<Rightarrow> string \<Rightarrow> goal_world \<Rightarrow> string service_res \<times> goal_world" where
  "prepare_objective H t objective w =
     (let trimmed = trim objective in
      if \<not> needs_file_backing trimmed then
        (Inr trimmed,
         case hs_dir H of Some dir \<Rightarrow> w\<lparr>rw_files := AList.delete (file_path dir t) (rw_files w)\<rparr> | None \<Rightarrow> w)
      else if char_count trimmed > MAX_FILE_OBJECTIVE_CHARS then (Inl (Store (Validation ObjectiveTooLong)), w)
      else case hs_dir H of
             None \<Rightarrow> (Inr trimmed, w)
           | Some dir \<Rightarrow>
               if hs_write H (file_path dir t)
               then (Inr (marker_for t), w\<lparr>rw_files := AList.update (file_path dir t) trimmed (rw_files w)\<rparr>)
               else (Inl (Store (Validation ObjectiveTooLong)), w))"

definition lift_store :: "'a store_res \<times> 'w \<Rightarrow> 'a service_res \<times> 'w" where
  "lift_store r = (case fst r of Inl e \<Rightarrow> Inl (Store e) | Inr x \<Rightarrow> Inr x, snd r)"

definition service_set ::
    "goal_host \<Rightarrow> bool \<Rightarrow> int \<Rightarrow> string \<Rightarrow> string \<Rightarrow> string \<Rightarrow> int option \<Rightarrow> string option \<Rightarrow> goal_world
     \<Rightarrow> goal_set_outcome service_res \<times> goal_world" where
  "service_set H locked now gid t objective budget verify w =
     (if \<not> locked then (Inl LockTimeout, w)
      else
        let replaced = (goal_read t (rw_db w) \<noteq> None) in
        case prepare_objective H t objective w of
          (Inl e, w') \<Rightarrow> (Inl e, w')
        | (Inr stored, w') \<Rightarrow>
            let req = \<lparr>cq_thread_id = t, cq_objective = stored, cq_token_budget = budget, cq_verify_command = verify\<rparr> in
            (case lift_store (with_db (goal_replace (hs_var H) now req gid) w') of
               (Inl e, w'') \<Rightarrow> (Inl e, w'')
             | (Inr g, w'') \<Rightarrow> (Inr \<lparr>so_goal = g, so_replaced_existing = replaced\<rparr>, w'')))"

text \<open>The commands that read the current goal first and then act on its id.\<close>

definition on_current ::
    "bool \<Rightarrow> string \<Rightarrow> (goal \<Rightarrow> goal_world \<Rightarrow> goal service_res \<times> goal_world) \<Rightarrow> goal_world \<Rightarrow> goal service_res \<times> goal_world" where
  "on_current locked t act w =
     (if \<not> locked then (Inl LockTimeout, w)
      else case goal_read t (rw_db w) of None \<Rightarrow> (Inl (NoGoal t), w) | Some g \<Rightarrow> act g w)"

definition service_pause :: "bool \<Rightarrow> int \<Rightarrow> string \<Rightarrow> goal_world \<Rightarrow> goal service_res \<times> goal_world" where
  "service_pause locked now t = on_current locked t (\<lambda>g w. lift_store (with_db (goal_pause now t (g_goal_id g)) w))"

definition service_resume :: "bool \<Rightarrow> int \<Rightarrow> string \<Rightarrow> goal_world \<Rightarrow> goal service_res \<times> goal_world" where
  "service_resume locked now t = on_current locked t (\<lambda>g w.
     if \<not> user_resumable (g_status g) then (Inl (NotResumable (g_status g)), w)
     else lift_store (with_db (goal_resume now t (g_goal_id g)) w))"

definition service_clear :: "goal_host \<Rightarrow> bool \<Rightarrow> string \<Rightarrow> goal_world \<Rightarrow> bool service_res \<times> goal_world" where
  "service_clear H locked t w =
     (if \<not> locked then (Inl LockTimeout, w)
      else case with_db (goal_clear t) w of
             (cleared, w') \<Rightarrow>
               (Inr cleared,
                if cleared then (case hs_dir H of Some dir \<Rightarrow> w'\<lparr>rw_files := AList.delete (file_path dir t) (rw_files w')\<rparr>
                                                | None \<Rightarrow> w')
                else w'))"

definition service_edit :: "goal_host \<Rightarrow> bool \<Rightarrow> int \<Rightarrow> string \<Rightarrow> string \<Rightarrow> goal_world \<Rightarrow> goal service_res \<times> goal_world" where
  "service_edit H locked now t objective = on_current locked t (\<lambda>g w.
     if is_terminal (g_status g) then (Inl (Store (NotFoundOrDisallowed t)), w)
     else case prepare_objective H t objective w of
            (Inl e, w') \<Rightarrow> (Inl e, w')
          | (Inr stored, w') \<Rightarrow> lift_store (with_db (edit_objective now t (g_goal_id g) stored) w'))"

definition service_update_budget ::
    "goal_host \<Rightarrow> bool \<Rightarrow> int \<Rightarrow> string \<Rightarrow> int \<Rightarrow> goal_world \<Rightarrow> goal service_res \<times> goal_world" where
  "service_update_budget H locked now t budget = on_current locked t (\<lambda>g w.
     lift_store (with_db (update_budget (hs_var H) now t (g_goal_id g) budget) w))"

subsection \<open>The model's tools\<close>

definition INFINITY_SIGN :: string where
  "INFINITY_SIGN = [CHR 0xE2, CHR 0x88, CHR 0x9E]"

definition show_or_infinity :: "int option \<Rightarrow> string" where
  "show_or_infinity x = (case x of Some i \<Rightarrow> show_int i | None \<Rightarrow> INFINITY_SIGN)"

definition render_snapshot :: "goal \<Rightarrow> string" where
  "render_snapshot g =
     ''Goal '' @ g_goal_id g @ '' status: '' @ status_as_str (g_status g) @
     text_lines [[], ''Objective: ''] @ g_objective g @
     text_lines [[], ''Budget: ''] @ show_int (g_tokens_used g) @ ''/'' @ show_or_infinity (g_token_budget g) @
     '' tokens used ('' @ show_or_infinity (remaining_tokens g) @ '' remaining)'' @
     text_lines [[], ''Time spent: ''] @ show_int (g_time_used_seconds g) @ ''s'' @
     (case g_verify_command g of Some cmd \<Rightarrow> text_lines [[], ''Verify command: `''] @ cmd @ ''`'' | None \<Rightarrow> []) @
     (case g_status_reason g of Some r \<Rightarrow> text_lines [[], ''Reason: ''] @ r | None \<Rightarrow> [])"

definition no_goal_text :: "string \<Rightarrow> string" where
  "no_goal_text t =
     ''No goal is set on thread '' @ t @ ''. Use create_goal to arm one (only when the user explicitly asks).''"

definition get_goal_call :: "goal_host \<Rightarrow> goal_handle \<Rightarrow> goal_world \<Rightarrow> string" where
  "get_goal_call H h w =
     (case goal_read (gh_thread h) (rw_db w) of
        None \<Rightarrow> no_goal_text (gh_thread h)
      | Some g \<Rightarrow> render_snapshot (resolve_in H w g))"

datatype tool_error = InvalidInput string

definition show_validation :: "goal_validation_error \<Rightarrow> string" where
  "show_validation e =
     (case e of
        EmptyObjective \<Rightarrow> ''objective is empty after trim''
      | ObjectiveTooLong \<Rightarrow> ''objective exceeds 4000 chars''
      | BudgetMustBePositive \<Rightarrow> ''token budget must be positive''
      | BudgetAboveCap c \<Rightarrow> ''token budget exceeds max_goal_token_budget cap ('' @ show_int c @ '')'')"

text \<open>The arguments, already decoded: \<open>objective\<close> when it is a string; the budget is absent, not an
  integer (\<open>Some None\<close>), or a number.\<close>

definition create_goal_call ::
    "goal_host \<Rightarrow> int \<Rightarrow> string \<Rightarrow> token_totals option \<Rightarrow> string option \<Rightarrow> int option option \<Rightarrow> goal_handle \<times> goal_world
     \<Rightarrow> (tool_error + string) \<times> goal_handle \<times> goal_world" where
  "create_goal_call H now gid usage objective budget s =
     (case objective of
        None \<Rightarrow> (Inl (InvalidInput ''objective (string) is required''), s)
      | Some ob \<Rightarrow>
          if budget = Some None then (Inl (InvalidInput ''token_budget must be an integer''), s)
          else
            let req = \<lparr>cq_thread_id = gh_thread (fst s), cq_objective = ob, cq_token_budget = Option.bind budget id,
                       cq_verify_command = None\<rparr> in
            (case with_db (goal_create (hs_var H) now req gid) (snd s) of
               (Inl (Validation e), w) \<Rightarrow> (Inr (''Invalid goal: '' @ show_validation e), fst s, w)
             | (Inl _, w) \<Rightarrow>
                 (Inr (''Refused: this session already has an unfinished goal. Check it with get_goal and drive it to `complete` via update_goal. '' @
                       ''Only the user-controlled surface may clear or replace an unfinished goal.''), fst s, w)
             | (Inr g, w) \<Rightarrow>
                 (Inr (text_lines [''Goal created and armed.'', [], render_snapshot g]),
                  (case usage of Some c \<Rightarrow> note_goal_armed_at (g_goal_id g) c (fst s)
                               | None \<Rightarrow> note_goal_armed (g_goal_id g) (fst s)), w)))"

definition update_goal_call ::
    "(string \<Rightarrow> bool \<times> string) \<Rightarrow> int \<Rightarrow> nat \<Rightarrow> token_totals option \<Rightarrow> string option \<Rightarrow> string \<Rightarrow> string
     \<Rightarrow> goal_handle \<times> goal_world \<Rightarrow> (tool_error + string) \<times> goal_handle \<times> goal_world" where
  "update_goal_call verify now tick usage status reason report s =
     (let t = gh_thread (fst s) in
      case status of
        None \<Rightarrow> (Inl (InvalidInput ''status (string) is required''), s)
      | Some st \<Rightarrow>
          if st = ''blocked'' then
            (case goal_read t (rw_db (snd s)) of
               None \<Rightarrow> (Inr (no_goal_text t), s)
             | Some g \<Rightarrow>
                 let s1 = before_model_status_update now tick usage s;
                     why = (if reason = [] then ''blocked by model'' else reason) in
                 (case with_db (mark_blocked now t (g_goal_id g) why) (snd s1) of
                    (Inl e, w) \<Rightarrow> (Inr (''Goal '' @ g_goal_id g @ '' is not in active state; cannot mark blocked.''), fst s1, w)
                  | (Inr g', w) \<Rightarrow>
                      (Inr (''Goal '' @ g_goal_id g' @ '' marked blocked. Surface the blocker to the user clearly; '' @
                            ''do not keep retrying the same failing approach.''), fst s1, w)))
          else if st = ''complete'' then
            (case goal_read t (rw_db (snd s)) of
               None \<Rightarrow> (Inr (no_goal_text t), s)
             | Some g \<Rightarrow>
                 (case map_option (\<lambda>cmd. (cmd, verify cmd)) (g_verify_command g) of
                    Some (cmd, False, output) \<Rightarrow>
                      (Inr (''Completion REFUSED: verify command `'' @ cmd @
                         text_lines [''` failed.'', ''--- verify output ---'', output, ''---------------------'',
                           ''Fix the issue and continue working toward the goal.'']), s)
                  | _ \<Rightarrow>
                      let s1 = before_model_status_update now tick usage s in
                      (case with_db (mark_complete now t (g_goal_id g)) (snd s1) of
                         (Inl e, w) \<Rightarrow> (Inr (''Goal '' @ g_goal_id g @ '' is not in active state; cannot complete.''), fst s1, w)
                       | (Inr g', w) \<Rightarrow>
                           (Inr (''Goal '' @ g_goal_id g' @ '' marked complete.'' @
                              (if report = [] then [] else text_lines [[], ''Completion report:'', report]) @
                              text_lines [[], ''Final accounting: ''] @ show_int (g_tokens_used g') @ ''/'' @
                              show_or_infinity (g_token_budget g') @ '' tokens, '' @ show_int (g_time_used_seconds g') @ ''s.''),
                            fst s1, w))))
          else (Inl (InvalidInput (''status must be `complete` or `blocked`, got `'' @ st @ ''`'')), s))"

end
