(* ===== verification/Goal_Session_Facts.thy ===== *)
theory Goal_Session_Facts
  imports Goal_Service
begin

text \<open>
  What the hooks, commands and tools of a goal session guarantee: completion goes through the verify
  command, a turn that fails blocks no other goal, an exempt turn leaves the tables alone, the session
  goes on by itself only for an active goal, and a spent budget is reported once.
\<close>

subsection \<open>What accounting can do to a row\<close>

definition accounted :: "goal \<Rightarrow> goal \<Rightarrow> bool" where
  "accounted r r' \<longleftrightarrow>
     g_goal_id r' = g_goal_id r \<and> g_verify_command r' = g_verify_command r \<and> g_token_budget r' = g_token_budget r \<and>
     g_objective r' = g_objective r \<and>
     (g_status r' = g_status r \<or> g_status r = Active \<and> g_status r' = BudgetLimited)"

lemma accounted_refl [simp]: "accounted r r"
  by (simp add: accounted_def)

lemma accounted_trans: "accounted a b \<Longrightarrow> accounted b c \<Longrightarrow> accounted a c"
  by (auto simp: accounted_def)

lemma accounted_account_row: "accounted r (account_row now dt ds r)"
  by (simp add: accounted_def account_row_def Let_def)

lemma charge_delta_db:
  "snd (snd (charge_delta meanwhile now tick t cur m fl gid base ac db)) = db \<or>
   (\<exists>dt ds. snd (snd (charge_delta meanwhile now tick t cur m fl gid base ac db)) =
      snd (account_thread_goal_usage now t gid m dt ds (meanwhile db)))"
proof -
  define dt where "dt = (case cur of Some c \<Rightarrow> goal_token_delta base c | None \<Rightarrow> 0)"
  define ds where "ds = (if fl then (case ac_clock ac of Some since \<Rightarrow> elapsed_secs since tick | None \<Rightarrow> 0) else 0)"
  obtain oc db' where a: "account_thread_goal_usage now t gid m dt ds (meanwhile db) = (oc, db')" by fastforce
  then have s: "db' = snd (account_thread_goal_usage now t gid m dt ds (meanwhile db))" by simp
  show ?thesis
  proof (cases "dt = 0 \<and> ds = 0")
    case True
    then show ?thesis by (auto simp: charge_delta_def Let_def dt_def [symmetric] ds_def [symmetric])
  next
    case False
    then have "snd (snd (charge_delta meanwhile now tick t cur m fl gid base ac db)) = db'"
      by (cases oc) (auto simp: charge_delta_def Let_def dt_def [symmetric] ds_def [symmetric] a)
    with s show ?thesis by blast
  qed
qed

lemma account_with_row:
  "(case goal_row db t of
      None \<Rightarrow> goal_row (snd (snd (account_with (\<lambda>db. db) now tick t cur m fl ac db))) t = None
    | Some r \<Rightarrow> \<exists>r'. goal_row (snd (snd (account_with (\<lambda>db. db) now tick t cur m fl ac db))) t = Some r' \<and> accounted r r')"
proof -
  let ?db' = "snd (snd (account_with (\<lambda>db. db) now tick t cur m fl ac db))"
  have "?db' = db \<or> (\<exists>gid dt ds. ?db' = snd (account_thread_goal_usage now t gid m dt ds db))"
    using charge_delta_db [of "\<lambda>db. db" now tick t cur m fl _ _ ac db]
    by (simp add: account_with_def split: option.split prod.split) blast
  moreover have "case goal_row db t of
      None \<Rightarrow> goal_row (snd (account_thread_goal_usage now t gid m dt ds db)) t = None
    | Some r \<Rightarrow> \<exists>r'. goal_row (snd (account_thread_goal_usage now t gid m dt ds db)) t = Some r' \<and> accounted r r'" for gid dt ds
    by (auto simp: snd_account goal_row_sql_update accounted_account_row split: option.splits)
  ultimately show ?thesis by (auto split: option.splits)
qed

lemma with_accounting_row:
  assumes "goal_row (rw_db (snd s)) (gh_thread (fst s)) = Some r"
    and "f = account_with (\<lambda>db. db) now tick (gh_thread (fst s)) cur m fl"
  obtains r' where "goal_row (rw_db (snd (snd (with_accounting f s)))) (gh_thread (fst s)) = Some r'" "accounted r r'"
    "gh_thread (fst (snd (with_accounting f s))) = gh_thread (fst s)"
proof -
  let ?a = "f (gh_accounting (fst s)) (rw_db (snd s))"
  have w: "with_accounting f s = (fst ?a, (fst s)\<lparr>gh_accounting := fst (snd ?a)\<rparr>, (snd s)\<lparr>rw_db := snd (snd ?a)\<rparr>)"
    by (simp add: with_accounting_def split: prod.splits)
  obtain r' where "goal_row (snd (snd ?a)) (gh_thread (fst s)) = Some r'" "accounted r r'"
    using account_with_row [where db = "rw_db (snd s)" and t = "gh_thread (fst s)" and now = now and tick = tick
        and cur = cur and m = m and fl = fl and ac = "gh_accounting (fst s)"] assms by auto
  with w show thesis by (intro that) simp_all
qed

lemma before_update_row:
  assumes "goal_row (rw_db (snd s)) (gh_thread (fst s)) = Some r"
  obtains r' where "goal_row (rw_db (snd (before_model_status_update now tick usage s))) (gh_thread (fst s)) = Some r'"
    "accounted r r'" "gh_thread (fst (before_model_status_update now tick usage s)) = gh_thread (fst s)"
proof (cases usage)
  case None
  show thesis
    by (rule with_accounting_row [OF assms, of "flush_wall_clock (\<lambda>db. db) now tick (gh_thread (fst s)) ActiveOrStopped"
          now tick None ActiveOrStopped True])
      (simp_all add: flush_wall_clock_def None before_model_status_update_def that)
next
  case (Some c)
  let ?s1 = "snd (with_accounting (record_usage (\<lambda>db. db) now tick (gh_thread (fst s)) c) s)"
  obtain r1 where r1: "goal_row (rw_db (snd ?s1)) (gh_thread (fst s)) = Some r1" "accounted r r1"
      "gh_thread (fst ?s1) = gh_thread (fst s)"
    by (rule with_accounting_row [OF assms, of "record_usage (\<lambda>db. db) now tick (gh_thread (fst s)) c" now tick "Some c"
          ActiveStatusOnly False]) (simp_all add: record_usage_def)
  have "goal_row (rw_db (snd ?s1)) (gh_thread (fst ?s1)) = Some r1" using r1 by simp
  then show thesis
    by (rule with_accounting_row [of _ _ "flush_wall_clock (\<lambda>db. db) now tick (gh_thread (fst s)) ActiveOrStopped"
          now tick None ActiveOrStopped True])
      (use r1 accounted_trans in \<open>auto simp: flush_wall_clock_def Some before_model_status_update_def intro!: that\<close>)
qed

subsection \<open>Completion\<close>

lemma goal_row_with_db: "rw_db (snd (with_db f w)) = snd (f (rw_db w))"
  by (simp add: with_db_def split: prod.splits)

lemma fst_with_db: "fst (with_db f w) = fst (f (rw_db w))"
  by (simp add: with_db_def split: prod.splits)

lemma transition_row:
  "goal_row (snd (transition_status now t gid from_any target reason db)) t' =
     (if t' = t then map_option (\<lambda>r. if g_goal_id r = gid \<and> g_status r \<in> set from_any
         then r\<lparr>g_status := target, g_status_reason := reason, g_updated_at_ms := now\<rparr> else r) (goal_row db t)
      else goal_row db t')"
  by (simp add: transition_status_def goal_row_sql_update)

text \<open>The world after the tool: the tables after the accounting, with or without the transition.\<close>

lemma update_goal_world:
  assumes "goal_row (rw_db (snd s)) (gh_thread (fst s)) = Some r"
  shows "let s1 = before_model_status_update now tick usage s; t = gh_thread (fst s);
             w' = snd (snd (update_goal_call verify now tick usage status reason report s)) in
     rw_db w' = rw_db (snd s) \<or>
     (\<exists>why. rw_db w' = snd (mark_blocked now t (g_goal_id r) why (rw_db (snd s1)))) \<or>
     status = Some ''complete'' \<and> (\<forall>cmd \<in> set_option (g_verify_command r). fst (verify cmd)) \<and>
       rw_db w' = snd (mark_complete now t (g_goal_id r) (rw_db (snd s1)))"
proof -
  have g: "goal_read (gh_thread (fst s)) (rw_db (snd s)) = Some (goal_from_row r)"
    using assms by (simp add: goal_read_def goal_row_def)
  have i: "g_goal_id (goal_from_row r) = g_goal_id r" "g_verify_command (goal_from_row r) = g_verify_command r"
    by (simp_all add: goal_from_row_def)
  have d: "snd x = snd (f db)" if "with_db f w = (y, x')" "x = (y, rw_db x')" "rw_db w = db" for f :: "goal_db \<Rightarrow> goal store_res \<times> goal_db" and w y x' x db
    using that by (auto simp: with_db_def split: prod.splits)
  show ?thesis
  proof (cases status)
    case None
    then show ?thesis by (simp add: update_goal_call_def)
  next
    case (Some st)
    consider "st = ''blocked''" | "st = ''complete''" | "st \<noteq> ''blocked'' \<and> st \<noteq> ''complete''" by blast
    then show ?thesis
    proof cases
      case 1
      let ?why = "if reason = [] then ''blocked by model'' else reason"
      have "rw_db (snd (snd (update_goal_call verify now tick usage status reason report s))) =
          snd (mark_blocked now (gh_thread (fst s)) (g_goal_id r) ?why (rw_db (snd (before_model_status_update now tick usage s))))"
        by (simp add: update_goal_call_def Some 1 g i Let_def goal_row_with_db [symmetric] split: prod.splits sum.splits)
      then show ?thesis unfolding Let_def by blast
    next
      case 2
      show ?thesis
      proof (cases "\<exists>cmd. g_verify_command r = Some cmd \<and> \<not> fst (verify cmd)")
        case True
        then obtain cmd out where "g_verify_command r = Some cmd" "verify cmd = (False, out)" by (metis (full_types) prod.collapse)
        then show ?thesis by (simp add: update_goal_call_def Some 2 g i)
      next
        case False
        have "rw_db (snd (snd (update_goal_call verify now tick usage status reason report s))) =
            snd (mark_complete now (gh_thread (fst s)) (g_goal_id r) (rw_db (snd (before_model_status_update now tick usage s))))"
          using False
          by (auto simp: update_goal_call_def Some 2 g i Let_def goal_row_with_db [symmetric]
              split: prod.splits sum.splits option.splits bool.splits)
        with False show ?thesis by (auto simp: Let_def Some 2)
      qed
    next
      case 3
      then show ?thesis by (simp add: update_goal_call_def Some)
    qed
  qed
qed

text \<open>C31: the model cannot declare a goal complete past its verify command. If a call of \<open>update_goal\<close>
  leaves the thread's goal complete and it was not before, then the model asked for \<open>complete\<close>, the
  configured verify command succeeded, and the goal was still active after its last usage was charged;
  so a goal whose last usage exhausts the budget ends budget-limited, not complete.\<close>

theorem completion_is_verified:
  assumes "goal_row (rw_db (snd s)) (gh_thread (fst s)) = Some r" and "g_status r \<noteq> Complete"
    and "goal_row (rw_db (snd (snd (update_goal_call verify now tick usage status reason report s)))) (gh_thread (fst s)) = Some r'"
    and "g_status r' = Complete"
  shows "status = Some ''complete'' \<and> (\<forall>cmd \<in> set_option (g_verify_command r). fst (verify cmd)) \<and>
    g_status r = Active \<and> g_goal_id r' = g_goal_id r \<and>
    (\<exists>r1. goal_row (rw_db (snd (before_model_status_update now tick usage s))) (gh_thread (fst s)) = Some r1 \<and> g_status r1 = Active)"
proof -
  obtain r1 where r1: "goal_row (rw_db (snd (before_model_status_update now tick usage s))) (gh_thread (fst s)) = Some r1"
    "accounted r r1" using before_update_row [OF assms(1)] by metis
  have nc: "g_status r1 \<noteq> Complete" using r1(2) assms(2) by (auto simp: accounted_def)
  from update_goal_world [OF assms(1), of now tick usage verify status reason report] assms r1 nc show ?thesis
    by (auto simp: Let_def mark_blocked_def mark_complete_def transition_row accounted_def split: if_splits)
qed

definition sample_world :: goal_world where
  "sample_world = \<lparr>rw_db = sample_db, rw_files = [], rw_turns = [], rw_notified = []\<rparr>"

lemma sample_world_read: "goal_read ''t'' sample_db = Some (new_row 3 sample_request ''g1'')"
  by (simp add: goal_read_def sample_db_def goal_from_row_def new_row_def is_file_backed_def starts_with_def
      INLINE_MARKER_PREFIX_def sample_request_def) code_simp

lemma sample_before_update:
  "before_model_status_update 7 0 None (goal_handle_new ''t'', sample_world) =
     ((goal_handle_new ''t'')\<lparr>gh_accounting := \<lparr>ac_baseline = Some (''g1'', no_totals), ac_clock = None, ac_reported = None\<rparr>\<rparr>,
      sample_world)"
  by (simp add: before_model_status_update_def with_accounting_def flush_wall_clock_def account_with_def
      sample_world_def sample_world_read charge_delta_def Let_def goal_handle_new_def new_unarmed_def new_row_def or_default_def)

theorem completion_is_verified_witness:
  "g_status (new_row 3 sample_request ''g1'') = Active \<and>
   (\<exists>r1. goal_row (rw_db (snd (before_model_status_update 7 0 None (goal_handle_new ''t'', sample_world)))) ''t'' = Some r1 \<and>
      g_status r1 = Active)"
proof -
  let ?s = "(goal_handle_new ''t'', sample_world)"
  let ?v = "\<lambda>_ :: string. (False, '''' :: string)"
  have r: "goal_row (rw_db (snd ?s)) (gh_thread (fst ?s)) = Some (new_row 3 sample_request ''g1'')"
    by (simp add: goal_handle_new_def sample_world_def sample_db_def goal_row_def)
  have n: "g_verify_command (new_row 3 sample_request ''g1'') = None" "g_goal_id (new_row 3 sample_request ''g1'') = ''g1''"
    "g_status (new_row 3 sample_request ''g1'') = Active"
    by (simp_all add: new_row_def sample_request_def)
  have w: "goal_row (rw_db (snd (snd (update_goal_call ?v 7 0 None (Some ''complete'') '''' '''' ?s)))) (gh_thread (fst ?s))
     = Some ((new_row 3 sample_request ''g1'')\<lparr>g_status := Complete, g_status_reason := None, g_updated_at_ms := 7\<rparr>)"
  proof -
    have p: "gh_thread (goal_handle_new ''t'') = ''t''" "rw_db sample_world = sample_db"
      "map_of (gd_rows sample_db) ''t'' = Some (new_row 3 sample_request ''g1'')"
      by (simp_all add: goal_handle_new_def sample_world_def sample_db_def)
    show ?thesis
      by (simp add: update_goal_call_def sample_world_read p sample_before_update Let_def n mark_complete_def transition_status_def
          or_disallowed_def sql_update_def with_db_def goal_row_def goal_from_row_def)
  qed
  from completion_is_verified [OF r _ w] n show ?thesis by (simp add: goal_handle_new_def)
qed

subsection \<open>Going on by itself\<close>

lemma resolve_in_keeps:
  "g_status (resolve_in H w g) = g_status g \<and> g_goal_id (resolve_in H w g) = g_goal_id g \<and>
   g_iteration_count (resolve_in H w g) = g_iteration_count g \<and> g_objective_revision (resolve_in H w g) = g_objective_revision g"
  by (simp add: resolve_in_def resolve_objective_def split: option.splits)

lemma set_iteration_row:
  "goal_row (snd (set_iteration now t gid n db)) t' =
     (if t' = t then map_option (\<lambda>r. if g_goal_id r = gid then r\<lparr>g_iteration_count := n, g_updated_at_ms := now\<rparr> else r) (goal_row db t)
      else goal_row db t')"
  by (simp add: set_iteration_def goal_row_sql_update)

lemma rw_db_request [simp]: "rw_db (snd (request_turn H txt meta w)) = rw_db w"
  by (simp add: request_turn_def Let_def)

lemma rw_db_notify [simp]: "rw_db (notify_status_change g w) = rw_db w"
  by (simp add: notify_status_change_def)

lemma rw_turns_notify [simp]: "rw_turns (notify_status_change g w) = rw_turns w"
  by (simp add: notify_status_change_def)

lemma rw_turns_with_db [simp]: "rw_turns (snd (with_db f w)) = rw_turns w"
  by (simp add: with_db_def split: prod.splits)

definition continuation_allowed :: "bool \<Rightarrow> goal_handle \<Rightarrow> goal_world \<Rightarrow> goal \<Rightarrow> bool" where
  "continuation_allowed locked h w g \<longleftrightarrow>
     locked \<and> gh_tools h \<noteq> Some False \<and> \<not> has_continuation_deferral (gh_thread h) (rw_db w) \<and>
     goal_read (gh_thread h) (rw_db w) = Some g \<and> g_status g = Active"

lemma continue_step:
  assumes "continuation_allowed locked h w g"
  obtains msg reason where
    "quotes msg (g_objective (resolve_in H w g))"
    "reason = (if g_objective_revision g > gh_seen h then ObjectiveUpdated else ActiveGoal)"
    "let meta = \<lparr>gt_goal_id = g_goal_id g, gt_iteration = g_iteration_count g + 1, gt_reason = reason\<rparr>;
         started = hs_start H (length (rw_turns w)) msg (Some meta);
         r = continue_if_idle H locked now (h, w)
     in fst r = started \<and> rw_turns (snd (snd r)) = rw_turns w @ [(msg, Some meta, started)] \<and>
        rw_db (snd (snd r)) = (if started then snd (set_iteration now (gh_thread h) (g_goal_id g) (g_iteration_count g + 1) (rw_db w)) else rw_db w) \<and>
        (started \<longrightarrow> g_objective_revision g \<le> gh_seen (fst (snd r)))"
proof -
  let ?g = "resolve_in H w g"
  let ?ch = "g_objective_revision g > gh_seen h"
  let ?txt = "if ?ch then objective_updated ?g else continuation ?g None"
  let ?meta = "\<lparr>gt_goal_id = g_goal_id g, gt_iteration = g_iteration_count g + 1,
      gt_reason = (if ?ch then ObjectiveUpdated else ActiveGoal)\<rparr>"
  note a = assms [unfolded continuation_allowed_def]
  show thesis
  proof (rule that [of ?txt, OF _ refl])
    show "quotes ?txt (g_objective ?g)" using steering_quotes [of ?g None] by simp
    show "let meta = ?meta; started = hs_start H (length (rw_turns w)) ?txt (Some meta);
         r = continue_if_idle H locked now (h, w)
     in fst r = started \<and> rw_turns (snd (snd r)) = rw_turns w @ [(?txt, Some meta, started)] \<and>
        rw_db (snd (snd r)) = (if started then snd (set_iteration now (gh_thread h) (g_goal_id g) (g_iteration_count g + 1) (rw_db w)) else rw_db w) \<and>
        (started \<longrightarrow> g_objective_revision g \<le> gh_seen (fst (snd r)))"
      using a resolve_in_keeps [of H w g]
      by (cases "hs_start H (length (rw_turns w)) ?txt (Some ?meta)")
        (auto simp: continue_if_idle_def Let_def request_turn_def with_db_def notify_status_change_def
           split: prod.splits sum.splits)
  qed
qed

text \<open>a session goes on by itself only for a goal that wants it. \<open>continue_if_idle\<close> asks the host for a
  turn exactly when the state lock is held, the goal tools are not known to be missing, no deferral is
  set and the thread's goal is active; it asks once, with a message that quotes the objective, and when
  the host starts the turn the iteration counter of that goal is raised by one and nothing else in the
  tables changes.\<close>

theorem continuation_gate:
  "(rw_turns (snd (snd (continue_if_idle H locked now (h, w)))) \<noteq> rw_turns w \<longleftrightarrow>
      (\<exists>g. continuation_allowed locked h w g)) \<and>
   (\<exists>msg meta started. rw_turns (snd (snd (continue_if_idle H locked now (h, w)))) \<in> {rw_turns w, rw_turns w @ [(msg, Some meta, started)]} \<and>
      fst (continue_if_idle H locked now (h, w)) = (started \<and> (\<exists>g. continuation_allowed locked h w g))) \<and>
   goal_row (rw_db (snd (snd (continue_if_idle H locked now (h, w))))) (gh_thread h) =
     map_option (\<lambda>r. if fst (continue_if_idle H locked now (h, w))
        then r\<lparr>g_iteration_count := g_iteration_count r + 1, g_updated_at_ms := now\<rparr> else r)
      (goal_row (rw_db w) (gh_thread h))"
proof (cases "\<exists>g. continuation_allowed locked h w g")
  case True
  then obtain g where g: "continuation_allowed locked h w g" ..
  obtain msg reason where s: "let meta = \<lparr>gt_goal_id = g_goal_id g, gt_iteration = g_iteration_count g + 1, gt_reason = reason\<rparr>;
         started = hs_start H (length (rw_turns w)) msg (Some meta);
         r = continue_if_idle H locked now (h, w)
     in fst r = started \<and> rw_turns (snd (snd r)) = rw_turns w @ [(msg, Some meta, started)] \<and>
        rw_db (snd (snd r)) = (if started then snd (set_iteration now (gh_thread h) (g_goal_id g) (g_iteration_count g + 1) (rw_db w)) else rw_db w) \<and>
        (started \<longrightarrow> g_objective_revision g \<le> gh_seen (fst (snd r)))"
    by (rule continue_step [OF g])
  obtain r where r: "goal_row (rw_db w) (gh_thread h) = Some r" "g_goal_id g = g_goal_id r" "g_iteration_count g = g_iteration_count r"
    using g by (auto simp: continuation_allowed_def goal_read_def goal_row_def goal_from_row_def)
  from s r True show ?thesis by (auto simp: Let_def set_iteration_row)
next
  case False
  then have "continue_if_idle H locked now (h, w) = (False, h, w)"
    by (cases "goal_read (gh_thread h) (rw_db w)") (auto simp: continue_if_idle_def continuation_allowed_def Let_def)
  with False show ?thesis by (simp add: option.map_ident)
qed

subsection \<open>Failed turns\<close>

lemma inject_keeps:
  assumes "goal_row (rw_db (snd s)) t = Some r"
  shows "\<exists>r'. goal_row (rw_db (snd (snd (inject_budget_steering H now oc s)))) t = Some r' \<and>
     g_goal_id r' = g_goal_id r \<and> g_status r' = g_status r \<and> g_tokens_used r' = g_tokens_used r"
proof -
  have "rw_db (snd (snd (inject_budget_steering H now oc s))) = rw_db (snd s) \<or>
     (\<exists>t gid n. rw_db (snd (snd (inject_budget_steering H now oc s))) = snd (set_iteration now t gid n (rw_db (snd s))))"
    by (auto simp: inject_budget_steering_def Let_def request_turn_def notify_status_change_def goal_row_with_db
        split: prod.splits option.splits)
  then show ?thesis
    using assms by (elim disjE exE) (simp, simp add: set_iteration_def, rule sql_update_related, simp_all)
qed

lemma block_goal_db: "rw_db (snd (block_goal now t gid reason w)) = snd (mark_blocked now t gid reason (rw_db w))"
  using goal_row_with_db [of "mark_blocked now t gid reason" w] by (auto simp: block_goal_def split: prod.splits sum.splits)

text \<open>a turn that fails blocks only the goal it was working on. If a turn bound to a goal ends in an
  error after the user put another goal in its place, the new goal keeps its identity and is not
  blocked.\<close>

theorem error_spares_other_goals:
  assumes "gh_binding (fst s) = Some b" and "goal_row (rw_db (snd s)) (gh_thread (fst s)) = Some r"
    and "g_goal_id r \<noteq> tb_goal_id b" and "g_status r \<noteq> Blocked"
  shows "\<exists>r'. goal_row (rw_db (snd (snd (on_turn_error H now tick reason totals s)))) (gh_thread (fst s)) = Some r' \<and>
     g_goal_id r' = g_goal_id r \<and> g_status r' \<noteq> Blocked"
proof (cases "exempt (gh_binding (fst s))")
  case True
  with assms show ?thesis by (auto simp: on_turn_error_def Let_def)
next
  case False
  let ?s0 = "((fst s)\<lparr>gh_binding := None\<rparr>, snd s)"
  let ?f = "stop_abnormal (\<lambda>db. db) now tick (gh_thread (fst s)) totals"
  obtain oc h w where a: "with_accounting ?f ?s0 = (oc, h, w)" by (metis prod.collapse)
  have r0: "goal_row (rw_db (snd ?s0)) (gh_thread (fst ?s0)) = Some r" using assms(2) by simp
  obtain r1 where r1: "goal_row (rw_db w) (gh_thread (fst s)) = Some r1" "accounted r r1" "gh_thread h = gh_thread (fst s)"
    by (rule with_accounting_row [OF r0, of ?f now tick totals ActiveOrStopped True])
      (use a in \<open>auto simp: stop_abnormal_def\<close>)
  let ?w' = "snd (block_goal now (gh_thread h) (tb_goal_id b) reason w)"
  have "goal_row (rw_db ?w') (gh_thread (fst s)) = Some r1"
    using r1 assms(3) by (auto simp: block_goal_db mark_blocked_def transition_row accounted_def)
  then have k: "\<exists>r'. goal_row (rw_db (snd (snd (inject_budget_steering H now oc (h, ?w'))))) (gh_thread (fst s)) = Some r' \<and>
     g_goal_id r' = g_goal_id r1 \<and> g_status r' = g_status r1 \<and> g_tokens_used r' = g_tokens_used r1"
    by (intro inject_keeps) simp
  have "on_turn_error H now tick reason totals s = inject_budget_steering H now oc (h, ?w')"
    using False assms(1) a by (simp add: on_turn_error_def Let_def)
  with k r1(2) assms(4) show ?thesis by (auto simp: accounted_def)
qed

definition sample_host :: goal_host where
  "sample_host = \<lparr>hs_var = None, hs_dir = None, hs_start = (\<lambda>_ _ _. False), hs_write = (\<lambda>_. True)\<rparr>"

definition stale_handle :: goal_handle where
  "stale_handle = (goal_handle_new ''t'')\<lparr>gh_binding := Some \<lparr>tb_token = ''p1'', tb_goal_id = ''g0'', tb_account = True\<rparr>\<rparr>"

theorem error_spares_other_goals_witness:
  "\<exists>r'. goal_row (rw_db (snd (snd (on_turn_error sample_host 9 0 ''boom'' None (stale_handle, sample_world))))) ''t'' = Some r' \<and>
     g_goal_id r' = ''g1'' \<and> g_status r' \<noteq> Blocked"
  using error_spares_other_goals [of "(stale_handle, sample_world)" "\<lparr>tb_token = ''p1'', tb_goal_id = ''g0'', tb_account = True\<rparr>"
      "new_row 3 sample_request ''g1''" sample_host 9 0 "''boom''" None]
  by (simp add: stale_handle_def goal_handle_new_def sample_world_def sample_db_def goal_row_def new_row_def)

subsection \<open>Exempt turns\<close>

text \<open>An exempt turn is documented to account for nothing, and its end touches no table. But its start
  starts the clock and its end does not stop it, so a pause long after charges the whole time since.\<close>

lemma exempt_turn_end_is_free:
  assumes "exempt (gh_binding h)"
  shows "snd (snd (on_turn_finish H now tick totals (h, w))) = w" "snd (on_turn_abort now tick totals (h, w)) = w"
    "snd (snd (on_turn_error H now tick reason totals (h, w))) = w"
  using assms by (simp_all add: on_turn_finish_def on_turn_abort_def on_turn_error_def Let_def)

lemma exempt_turn_leaves_clock_running:
  assumes "goal_read (gh_thread h) (rw_db (snd (on_turn_start 5 (h, w)))) = Some g" "g_status g = Active"
  shows "ac_clock (gh_accounting (fst (snd (on_turn_finish H now tick totals (on_turn_start_exempt 5 tok (h, w)))))) = Some 5"
proof -
  let ?s = "on_turn_start 5 (h, w)"
  have c: "ac_clock (gh_accounting (fst ?s)) = Some 5" "gh_thread (fst ?s) = gh_thread h"
    using assms by (auto simp: on_turn_start_def Let_def start_wall_clock_if_active_def)
  have b: "on_turn_start_exempt 5 tok (h, w) = ((fst ?s)\<lparr>gh_seen := g_objective_revision g,
      gh_binding := Some \<lparr>tb_token = tok, tb_goal_id = g_goal_id g, tb_account = False\<rparr>\<rparr>, snd ?s)"
    using assms c by (simp add: on_turn_start_exempt_def bind_turn_def)
  show ?thesis using c by (simp add: b on_turn_finish_def exempt_def Let_def)
qed

subsection \<open>The message of a spent budget\<close>

fun budget_messages ::
    "string option \<Rightarrow> (string \<Rightarrow> string option) \<Rightarrow> string \<Rightarrow> (accounting_outcome \<times> goal_db) list \<Rightarrow> accounting \<Rightarrow> nat" where
  "budget_messages dir rd t [] ac = 0"
| "budget_messages dir rd t ((oc, db) # xs) ac =
     (let (m, ac') = take_budget_steering_if_flipped dir rd t oc db ac
      in (if m = None then 0 else 1) + budget_messages dir rd t xs ac')"

text \<open>However many turn ends find the budget of one goal spent, the model is told at most once.\<close>

lemma budget_message_once:
  assumes "\<forall>(oc, db) \<in> set xs. \<exists>g. goal_read t db = Some g \<and> g_goal_id g = gid"
  shows "budget_messages dir rd t xs ac \<le> (if ac_reported ac = Some gid then 0 else 1)"
  using assms
proof (induction xs arbitrary: ac)
  case (Cons x xs)
  obtain oc db where x: "x = (oc, db)" by fastforce
  with Cons.prems obtain g where g: "goal_read t db = Some g" "g_goal_id g = gid" by auto
  obtain m ac' where s: "take_budget_steering_if_flipped dir rd t oc db ac = (m, ac')" by fastforce
  have IH: "budget_messages dir rd t xs ac' \<le> (if ac_reported ac' = Some gid then 0 else 1)"
    using Cons by simp
  show ?case
  proof (cases m)
    case None
    then have "ac' = ac" using s g by (auto simp: take_budget_steering_if_flipped_def split: accounting_outcome.splits goal_status.splits if_splits)
    with IH None show ?thesis by (simp add: x s)
  next
    case (Some txt')
    then have "ac_reported ac \<noteq> Some gid" "ac_reported ac' = Some gid"
      using s g by (auto simp: take_budget_steering_if_flipped_def split: accounting_outcome.splits goal_status.splits if_splits)
    with IH Some show ?thesis by (simp add: x s)
  qed
qed simp

end
