(* ===== verification/Rust_Text.thy ===== *)
theory Rust_Text
  imports Rust_Str
begin

text \<open>
  The searching and splitting operations of Rust's \<open>str\<close> that the text editing tools use, on UTF-8
  bytes: \<open>find\<close>, \<open>rfind\<close>, \<open>contains\<close>, \<open>replace\<close>, \<open>split\<close>, \<open>join\<close>, \<open>chars\<close>, \<open>split_whitespace\<close>, slicing at a
  byte index (a panic, \<open>None\<close>, off a character boundary) and slicing of a list of lines (a panic out
  of range).
\<close>

subsection \<open>Searching\<close>

fun find_sub :: "string \<Rightarrow> string \<Rightarrow> nat option" where
  "find_sub p [] = (if p = [] then Some 0 else None)"
| "find_sub p (c # s) = (if starts_with p (c # s) then Some 0 else map_option Suc (find_sub p s))"

fun rfind_sub :: "string \<Rightarrow> string \<Rightarrow> nat option" where
  "rfind_sub p [] = (if p = [] then Some 0 else None)"
| "rfind_sub p (c # s) =
     (case rfind_sub p s of
        Some i \<Rightarrow> Some (Suc i)
      | None \<Rightarrow> if starts_with p (c # s) then Some 0 else None)"

definition str_contains :: "string \<Rightarrow> string \<Rightarrow> bool" where
  "str_contains s p \<longleftrightarrow> find_sub p s \<noteq> None"

definition occurs_at :: "string \<Rightarrow> string \<Rightarrow> nat \<Rightarrow> bool" where
  "occurs_at p s i \<longleftrightarrow> i \<le> length s \<and> take (length p) (drop i s) = p"

lemma starts_with_append [simp]: "starts_with p (p @ s)"
  by (simp add: starts_with_def)

lemma starts_with_Nil [simp]: "starts_with [] s"
  by (simp add: starts_with_def)

lemma occurs_at_0 [simp]: "occurs_at p s 0 = starts_with p s"
  by (simp add: occurs_at_def starts_with_def)

lemma occurs_at_Suc [simp]: "occurs_at p (c # s) (Suc i) = occurs_at p s i"
  by (simp add: occurs_at_def)

lemma occurs_at_Nil [simp]: "occurs_at p [] i \<longleftrightarrow> i = 0 \<and> p = []"
  by (auto simp: occurs_at_def)

lemma occurs_at_split: "occurs_at p s i \<longleftrightarrow> (\<exists>u v. s = u @ p @ v \<and> length u = i)"
proof
  assume a: "occurs_at p s i"
  then have "drop i s = p @ drop (length p) (drop i s)"
    by (metis append_take_drop_id occurs_at_def)
  then have "s = take i s @ p @ drop (length p) (drop i s)" by (metis append_take_drop_id)
  moreover have "length (take i s) = i" using a by (simp add: occurs_at_def)
  ultimately show "\<exists>u v. s = u @ p @ v \<and> length u = i" by blast
qed (auto simp: occurs_at_def)

text \<open>\<open>find\<close> is the first, \<open>rfind\<close> the last occurrence.\<close>

lemma find_sub_Some: "find_sub p s = Some i \<longleftrightarrow> occurs_at p s i \<and> (\<forall>j < i. \<not> occurs_at p s j)"
proof (induction s arbitrary: i)
  case (Cons c s)
  then show ?case by (cases i) (auto simp: less_Suc_eq_0_disj split: if_splits)
qed auto

lemma find_sub_None: "find_sub p s = None \<longleftrightarrow> (\<forall>i. \<not> occurs_at p s i)"
proof (induction s)
  case (Cons c s)
  show ?case
  proof
    assume a: "find_sub p (c # s) = None"
    then have "\<not> starts_with p (c # s)" "find_sub p s = None" by (auto split: if_splits)
    with Cons show "\<forall>i. \<not> occurs_at p (c # s) i" by (metis not0_implies_Suc occurs_at_0 occurs_at_Suc)
  next
    assume a: "\<forall>i. \<not> occurs_at p (c # s) i"
    then have "\<not> starts_with p (c # s)" by (metis occurs_at_0)
    moreover have "\<forall>i. \<not> occurs_at p s i" using a by (metis occurs_at_Suc)
    ultimately show "find_sub p (c # s) = None" using Cons by simp
  qed
qed auto

lemma rfind_sub_None: "rfind_sub p s = None \<longleftrightarrow> (\<forall>i. \<not> occurs_at p s i)"
proof (induction s)
  case (Cons c s)
  show ?case
  proof
    assume a: "rfind_sub p (c # s) = None"
    then have "\<not> starts_with p (c # s)" "rfind_sub p s = None" by (auto split: if_splits option.splits)
    with Cons show "\<forall>i. \<not> occurs_at p (c # s) i" by (metis not0_implies_Suc occurs_at_0 occurs_at_Suc)
  next
    assume a: "\<forall>i. \<not> occurs_at p (c # s) i"
    then have "\<not> starts_with p (c # s)" by (metis occurs_at_0)
    moreover have "\<forall>i. \<not> occurs_at p s i" using a by (metis occurs_at_Suc)
    ultimately show "rfind_sub p (c # s) = None" using Cons by simp
  qed
qed auto

lemma rfind_sub_Some: "rfind_sub p s = Some i \<longleftrightarrow> occurs_at p s i \<and> (\<forall>j > i. \<not> occurs_at p s j)"
proof (induction s arbitrary: i)
  case (Cons c s)
  show ?case
  proof (cases i)
    case 0
    have "rfind_sub p (c # s) = Some 0 \<longleftrightarrow> starts_with p (c # s) \<and> rfind_sub p s = None"
      by (auto split: option.splits)
    also have "\<dots> \<longleftrightarrow> occurs_at p (c # s) 0 \<and> (\<forall>j > 0. \<not> occurs_at p (c # s) j)"
      by (simp add: rfind_sub_None) (metis Suc_pred occurs_at_Suc zero_less_Suc)
    finally show ?thesis by (simp add: 0)
  next
    case (Suc k)
    have "rfind_sub p (c # s) = Some (Suc k) \<longleftrightarrow> rfind_sub p s = Some k"
      by (auto split: option.splits)
    also have "\<dots> \<longleftrightarrow> occurs_at p s k \<and> (\<forall>j > k. \<not> occurs_at p s j)" by (rule Cons.IH)
    also have "\<dots> \<longleftrightarrow> occurs_at p (c # s) (Suc k) \<and> (\<forall>j > Suc k. \<not> occurs_at p (c # s) j)"
      by simp (metis Suc_lessE Suc_mono occurs_at_Suc)
    finally show ?thesis by (simp add: Suc)
  qed
qed auto

definition occurs_once :: "string \<Rightarrow> string \<Rightarrow> bool" where
  "occurs_once p s \<longleftrightarrow> find_sub p s \<noteq> None \<and> find_sub p s = rfind_sub p s"

lemma occurs_once_iff: "occurs_once p s \<longleftrightarrow> (\<exists>!i. occurs_at p s i)"
proof
  assume a: "occurs_once p s"
  then obtain i where f: "find_sub p s = Some i" "rfind_sub p s = Some i" by (metis not_Some_eq occurs_once_def)
  show "\<exists>!i. occurs_at p s i"
  proof (rule ex1I [of _ i])
    show "occurs_at p s i" using f by (simp add: find_sub_Some)
    show "j = i" if "occurs_at p s j" for j
      using f that by (metis find_sub_Some linorder_cases rfind_sub_Some)
  qed
next
  assume "\<exists>!i. occurs_at p s i"
  then obtain i where i: "occurs_at p s i" and u: "\<And>j. occurs_at p s j \<Longrightarrow> j = i" by blast
  have "find_sub p s = Some i" "rfind_sub p s = Some i"
    unfolding find_sub_Some rfind_sub_Some using i by (blast dest: u)+
  then show "occurs_once p s" by (simp add: occurs_once_def)
qed

lemma find_sub_split:
  assumes "find_sub p s = Some i"
  shows "s = take i s @ p @ drop (i + length p) s" "i + length p \<le> length s"
proof -
  obtain u v where "s = u @ p @ v" "length u = i"
    using assms by (auto simp: find_sub_Some occurs_at_split)
  then show "s = take i s @ p @ drop (i + length p) s" "i + length p \<le> length s" by auto
qed

lemma str_contains_split: "str_contains s p \<longleftrightarrow> (\<exists>u v. s = u @ p @ v)"
  by (auto simp: str_contains_def find_sub_None occurs_at_split)

subsection \<open>Characters, slices\<close>

definition is_cont :: "char \<Rightarrow> bool" where
  "is_cont c \<longleftrightarrow> 128 \<le> (of_char c :: nat) \<and> (of_char c :: nat) < 192"

fun utf8_chars :: "string \<Rightarrow> string list" where
  "utf8_chars [] = []"
| "utf8_chars (c # s) =
     (case utf8_chars s of
        [] \<Rightarrow> [[c]]
      | w # ws \<Rightarrow> if w \<noteq> [] \<and> is_cont (hd w) then (c # w) # ws else [c] # w # ws)"

lemma concat_utf8_chars [simp]: "concat (utf8_chars s) = s"
  by (induction s) (auto split: list.splits)

lemma utf8_chars_eq_Nil [simp]: "utf8_chars s = [] \<longleftrightarrow> s = []"
  by (cases s) (auto split: list.splits)

lemma utf8_chars_inj: "utf8_chars s = utf8_chars t \<Longrightarrow> s = t"
  by (metis concat_utf8_chars)

lemma length_utf8_chars: "length (utf8_chars s) \<le> length s"
  by (induction s) (auto split: list.splits)

definition ascii_lower :: "char \<Rightarrow> char" where
  "ascii_lower c = (let n = (of_char c :: nat) in if 65 \<le> n \<and> n \<le> 90 then char_of (n + 32) else c)"

text \<open>\<open>floor_char_boundary\<close>: the last character boundary that is not behind the index.\<close>

fun floor_char_boundary :: "string \<Rightarrow> nat \<Rightarrow> nat" where
  "floor_char_boundary s 0 = 0"
| "floor_char_boundary s (Suc n) =
     (if length s \<le> Suc n then length s
      else if is_cont (s ! Suc n) then floor_char_boundary s n else Suc n)"

lemma floor_char_boundary_spec:
  "n < length s \<Longrightarrow>
   floor_char_boundary s n \<le> n \<and> (floor_char_boundary s n = 0 \<or> \<not> is_cont (s ! floor_char_boundary s n)) \<and>
   (\<forall>k. floor_char_boundary s n < k \<longrightarrow> k \<le> n \<longrightarrow> is_cont (s ! k))"
  by (induction s n rule: floor_char_boundary.induct) (auto simp: le_Suc_eq)

lemma floor_char_boundary_le: "n \<le> length s \<Longrightarrow> floor_char_boundary s n \<le> n"
  by (induction s n rule: floor_char_boundary.induct) (auto split: if_splits)

definition ascii :: "string \<Rightarrow> bool" where
  "ascii s \<longleftrightarrow> (\<forall>c \<in> set s. (of_char c :: nat) < 128)"

definition str_from :: "nat \<Rightarrow> string \<Rightarrow> string option" where
  "str_from n s =
     (if n \<le> length s \<and> (n < length s \<longrightarrow> n = 0 \<or> \<not> is_cont (s ! n)) then Some (drop n s) else None)"

lemma str_from_ascii: "ascii s \<Longrightarrow> n \<le> length s \<Longrightarrow> str_from n s = Some (drop n s)"
  by (auto simp: str_from_def is_cont_def ascii_def)
    (metis le_neq_implies_less leD nth_mem)

definition lines_slice :: "nat \<Rightarrow> nat \<Rightarrow> string list \<Rightarrow> string list option" where
  "lines_slice i n ls = (if i + n \<le> length ls then Some (take n (drop i ls)) else None)"

subsection \<open>Splitting and joining\<close>

abbreviation nl :: char where
  "nl \<equiv> CHR 0x0A"

fun join_with :: "string \<Rightarrow> string list \<Rightarrow> string" where
  "join_with d [] = []"
| "join_with d [w] = w"
| "join_with d (w # v # ws) = w @ d @ join_with d (v # ws)"

lemma split_on_not_Nil [simp]: "split_on d s \<noteq> []"
  by (induction s) (auto split: list.splits)

lemma join_with_Cons: "ws \<noteq> [] \<Longrightarrow> join_with d (w # ws) = w @ d @ join_with d ws"
  by (cases ws) auto

lemma join_split_on [simp]: "join_with [d] (split_on d s) = s"
proof (induction s)
  case (Cons c s)
  show ?case
  proof (cases "c = d")
    case True
    then show ?thesis using Cons by (simp add: join_with_Cons)
  next
    case False
    obtain w ws where w: "split_on d s = w # ws" by (metis neq_Nil_conv split_on_not_Nil)
    with False have "split_on d (c # s) = (c # w) # ws" by simp
    moreover have "join_with [d] ((c # w) # ws) = c # join_with [d] (w # ws)" by (cases ws) auto
    ultimately show ?thesis using Cons w by simp
  qed
qed simp

lemma split_on_free: "w \<in> set (split_on d s) \<Longrightarrow> d \<notin> set w"
  by (induction s arbitrary: w) (auto split: list.splits if_splits)

lemma split_on_single: "d \<notin> set w \<Longrightarrow> split_on d w = [w]"
  by (induction w) auto

lemma split_on_append: "d \<notin> set w \<Longrightarrow> split_on d (w @ d # s) = w # split_on d s"
  by (induction w) auto

lemma split_on_join: "ws \<noteq> [] \<Longrightarrow> \<forall>w \<in> set ws. d \<notin> set w \<Longrightarrow> split_on d (join_with [d] ws) = ws"
proof (induction ws)
  case (Cons w ws)
  show ?case
  proof (cases "ws = []")
    case False
    then show ?thesis using Cons by (simp add: join_with_Cons split_on_append)
  qed (use Cons in \<open>simp add: split_on_single\<close>)
qed simp

lemma length_split_on: "length (split_on d s) = Suc (count_list s d)"
  by (induction s) (auto split: list.splits)

lemma length_join_with: "length (join_with [d] ws) + 1 = (if ws = [] then 1 else sum_list (map (\<lambda>l. length l + 1) ws))"
proof (induction ws)
  case (Cons w ws)
  then show ?case by (cases ws) auto
qed simp

subsection \<open>Replacing every occurrence\<close>

text \<open>\<open>str::replace\<close>: an empty pattern matches at every character boundary.\<close>

function replace_from :: "string \<Rightarrow> string \<Rightarrow> string \<Rightarrow> string" where
  "replace_from p r s =
     (if p = [] then s
      else case find_sub p s of
        None \<Rightarrow> s
      | Some i \<Rightarrow> take i s @ r @ replace_from p r (drop (i + length p) s))"
  by pat_completeness auto
termination
proof (relation "measure (\<lambda>(p, r, s). length s)")
  fix p r s :: string and i
  assume "p \<noteq> []" "find_sub p s = Some i"
  then have "0 < length p" "i + length p \<le> length s" by (auto dest: find_sub_split)
  then have "length s - (i + length p) < length s" by linarith
  then show "((p, r, drop (i + length p) s), p, r, s) \<in> measure (\<lambda>(p, r, s). length s)" by simp
qed simp

declare replace_from.simps [simp del]

definition str_replace :: "string \<Rightarrow> string \<Rightarrow> string \<Rightarrow> string" where
  "str_replace p r s =
     (if p = [] then concat (map (\<lambda>w. r @ w) (utf8_chars s)) @ r else replace_from p r s)"

subsection \<open>Words\<close>

text \<open>\<open>split_whitespace\<close>: the maximal runs without white space.\<close>

function ws_tokens :: "string \<Rightarrow> string \<Rightarrow> string list" where
  "ws_tokens w s =
     (if s = [] then (if w = [] then [] else [w])
      else case strip_any ws_chars s of
        Some t \<Rightarrow> (if w = [] then [] else [w]) @ ws_tokens [] t
      | None \<Rightarrow> ws_tokens (w @ [hd s]) (tl s))"
  by pat_completeness auto
termination
  by (relation "measure (\<lambda>(w, s). length s)") (auto dest: strip_any_shorter)

declare ws_tokens.simps [simp del]

definition ws_words :: "string \<Rightarrow> string list" where
  "ws_words s = ws_tokens [] s"

lemma ws_tokens_not_Nil: "w \<in> set (ws_tokens v s) \<Longrightarrow> w \<noteq> []"
proof (induction v s rule: ws_tokens.induct)
  case (1 v s)
  then show ?case
    by (subst (asm) ws_tokens.simps [of v s]) (auto split: if_splits option.splits)
qed

end
