(* ===== verification/Text_Distance.thy ===== *)
theory Text_Distance
  imports Rust_Text
begin

text \<open>
  \<open>levenshtein\<close> of the fuzzy replacement engine: the dynamic program over a matrix, filled row by row in
  place, as the code fills it. \<open>alignment\<close> is what an edit script is; the program returns the cost of a
  cheapest one.
\<close>

subsection \<open>The program\<close>

type_synonym matrix = "nat list list"

definition first_matrix :: "nat \<Rightarrow> nat \<Rightarrow> matrix" where
  "first_matrix m n =
     (let zero = replicate (m + 1) (replicate (n + 1) 0);
          rows = map (\<lambda>i. (zero ! i)[0 := i]) [0..<m + 1]
      in rows[0 := [0..<n + 1]])"

definition fill_cell :: "string list \<Rightarrow> string list \<Rightarrow> nat \<Rightarrow> nat \<Rightarrow> matrix \<Rightarrow> matrix" where
  "fill_cell a b i j M =
     (let cost = (if a ! (i - 1) = b ! (j - 1) then 0 else 1)
      in M[i := (M ! i)[j :=
           min (min (M ! (i - 1) ! j + 1) (M ! i ! (j - 1) + 1)) (M ! (i - 1) ! (j - 1) + cost)]])"

definition fill_row :: "string list \<Rightarrow> string list \<Rightarrow> nat \<Rightarrow> matrix \<Rightarrow> matrix" where
  "fill_row a b i M = fold (fill_cell a b i) [1..<length b + 1] M"

definition levenshtein :: "string \<Rightarrow> string \<Rightarrow> nat" where
  "levenshtein s t =
     (if s = [] \<or> t = [] then max (length s) (length t)
      else
        let a = utf8_chars s; b = utf8_chars t; m = length a; n = length b
        in fold (fill_row a b) [1..<m + 1] (first_matrix m n) ! m ! n)"

subsection \<open>Edit scripts\<close>

inductive alignment :: "'a list \<Rightarrow> 'a list \<Rightarrow> nat \<Rightarrow> bool" where
  al_done: "alignment [] [] 0"
| al_delete: "alignment xs ys n \<Longrightarrow> alignment (x # xs) ys (n + 1)"
| al_insert: "alignment xs ys n \<Longrightarrow> alignment xs (y # ys) (n + 1)"
| al_keep: "alignment xs ys n \<Longrightarrow> alignment (x # xs) (x # ys) n"
| al_change: "alignment xs ys n \<Longrightarrow> alignment (x # xs) (y # ys) (n + 1)"

inductive_cases alignment_NilE: "alignment [] ys n"
inductive_cases alignment_Nil2E: "alignment xs [] n"
inductive_cases alignment_ConsE: "alignment (x # xs) (y # ys) n"

fun edit_cost :: "'a list \<Rightarrow> 'a list \<Rightarrow> nat" where
  "edit_cost [] ys = length ys"
| "edit_cost xs [] = length xs"
| "edit_cost (x # xs) (y # ys) =
     min (min (edit_cost xs (y # ys) + 1) (edit_cost (x # xs) ys + 1))
         (edit_cost xs ys + (if x = y then 0 else 1))"

lemma edit_cost_Nil2 [simp]: "edit_cost xs [] = length xs"
  by (cases xs) auto

lemma alignment_inserts: "alignment [] ys (length ys)"
  by (induction ys) (auto intro: alignment.intros al_insert [where n = "length _", simplified])

lemma alignment_deletes: "alignment xs [] (length xs)"
  by (induction xs) (auto intro: alignment.intros al_delete [where n = "length _", simplified])

lemma alignment_edit_cost: "alignment xs ys (edit_cost xs ys)"
proof (induction xs ys rule: edit_cost.induct)
  case (1 ys)
  show ?case by (simp add: alignment_inserts)
next
  case (2 x xs)
  show ?case using alignment_deletes [of "x # xs"] by simp
next
  case (3 x xs y ys)
  have "alignment (x # xs) (y # ys) (edit_cost xs ys + (if x = y then 0 else 1))"
    using 3(3) by (auto intro: al_keep al_change [where n = "edit_cost xs ys", simplified])
  moreover note al_delete [OF 3(1), of x] al_insert [OF 3(2), of y]
  ultimately show ?case by (auto simp: min_def simp del: One_nat_def add_Suc_right)
qed

lemma edit_cost_le_alignment: "alignment xs ys n \<Longrightarrow> edit_cost xs ys \<le> n"
proof (induction rule: alignment.induct)
  case (al_delete xs ys n x)
  show ?case using al_delete.IH by (cases ys) auto
next
  case (al_insert xs ys n y)
  show ?case using al_insert.IH by (cases xs) auto
qed auto

lemma alignment_swap: "alignment xs ys n \<Longrightarrow> alignment ys xs n"
  by (induction rule: alignment.induct) (auto intro: alignment.intros simp del: One_nat_def add_Suc_right)

lemma alignment_append: "alignment xs ys n \<Longrightarrow> alignment us vs k \<Longrightarrow> alignment (xs @ us) (ys @ vs) (n + k)"
proof (induction rule: alignment.induct)
  case (al_delete xs ys n x)
  from alignment.al_delete [OF al_delete.IH [OF al_delete.prems], of x] show ?case by simp
next
  case (al_insert xs ys n y)
  from alignment.al_insert [OF al_insert.IH [OF al_insert.prems], of y] show ?case by simp
next
  case (al_change xs ys n x y)
  from alignment.al_change [OF al_change.IH [OF al_change.prems], of x y] show ?case by simp
qed (auto intro: alignment.al_keep)

lemma alignment_rev: "alignment xs ys n \<Longrightarrow> alignment (rev xs) (rev ys) n"
proof (induction rule: alignment.induct)
  case (al_delete xs ys n x)
  from alignment_append [OF al_delete.IH alignment.al_delete [OF al_done, of x]] show ?case by simp
next
  case (al_insert xs ys n y)
  from alignment_append [OF al_insert.IH alignment.al_insert [OF al_done, of y]] show ?case by simp
next
  case (al_keep xs ys n x)
  from alignment_append [OF al_keep.IH alignment.al_keep [OF al_done, of x]] show ?case by simp
next
  case (al_change xs ys n x y)
  from alignment_append [OF al_change.IH alignment.al_change [OF al_done, of x y]] show ?case by simp
qed (simp add: al_done)

lemma edit_cost_rev: "edit_cost (rev xs) (rev ys) = edit_cost xs ys"
  by (metis alignment_edit_cost alignment_rev dual_order.antisym edit_cost_le_alignment rev_rev_ident)

lemma edit_cost_sym: "edit_cost xs ys = edit_cost ys xs"
  by (meson alignment_edit_cost alignment_swap dual_order.antisym edit_cost_le_alignment)

lemma edit_cost_max: "edit_cost xs ys \<le> max (length xs) (length ys)"
  by (induction xs ys rule: edit_cost.induct) auto

lemma edit_cost_0: "edit_cost xs ys = 0 \<longleftrightarrow> xs = ys"
  by (induction xs ys rule: edit_cost.induct) (auto simp: min_def)

subsection \<open>The program computes the cheapest script\<close>

text \<open>The cell the program leaves at \<open>(i, j)\<close>: the distance of the prefixes.\<close>

definition cell :: "string list \<Rightarrow> string list \<Rightarrow> nat \<Rightarrow> nat \<Rightarrow> nat" where
  "cell a b i j = edit_cost (rev (take i a)) (rev (take j b))"

lemma cell_0 [simp]: "j \<le> length b \<Longrightarrow> cell a b 0 j = j" "i \<le> length a \<Longrightarrow> cell a b i 0 = i"
  by (simp_all add: cell_def)

lemma cell_Suc:
  "i < length a \<Longrightarrow> j < length b \<Longrightarrow>
   cell a b (Suc i) (Suc j) =
     min (min (cell a b i (Suc j) + 1) (cell a b (Suc i) j + 1))
         (cell a b i j + (if a ! i = b ! j then 0 else 1))"
  by (simp add: cell_def take_Suc_conv_app_nth)

definition shaped :: "string list \<Rightarrow> string list \<Rightarrow> matrix \<Rightarrow> bool" where
  "shaped a b M \<longleftrightarrow> length M = length a + 1 \<and> (\<forall>i \<le> length a. length (M ! i) = length b + 1)"

definition filled :: "string list \<Rightarrow> string list \<Rightarrow> nat \<Rightarrow> matrix \<Rightarrow> bool" where
  "filled a b k M \<longleftrightarrow>
     shaped a b M \<and>
     (\<forall>i \<le> length a. \<forall>j \<le> length b. i < k \<or> j = 0 \<longrightarrow> M ! i ! j = cell a b i j)"

lemma filled_first: "filled a b 1 (first_matrix (length a) (length b))"
proof -
  have *: "first_matrix (length a) (length b) ! i =
      (if i = 0 then [0..<length b + 1] else (replicate (length b + 1) 0)[0 := i])" if "i \<le> length a" for i
    using that by (cases i) (auto simp: first_matrix_def Let_def nth_list_update simp del: upt_Suc)
  have "length (first_matrix (length a) (length b)) = length a + 1"
    by (simp add: first_matrix_def Let_def del: upt_Suc replicate_Suc)
  with * show ?thesis
    by (auto simp: filled_def shaped_def simp del: upt_Suc replicate_Suc)
qed

lemma fill_cells:
  assumes f: "filled a b (Suc i) M" and i: "i < length a" and k: "k \<le> length b"
  defines "N \<equiv> fold (fill_cell a b (Suc i)) [1..<k + 1] M"
  shows "filled a b (Suc i) N \<and> (\<forall>j \<le> k. N ! Suc i ! j = cell a b (Suc i) j)"
  using k unfolding N_def
proof (induction k)
  case 0
  have "M ! Suc i ! 0 = cell a b (Suc i) 0" using f i by (metis Suc_leI filled_def le0)
  with f show ?case by simp
next
  case (Suc k)
  define N where "N = fold (fill_cell a b (Suc i)) [1..<k + 1] M"
  have IH: "filled a b (Suc i) N" "\<And>j. j \<le> k \<Longrightarrow> N ! Suc i ! j = cell a b (Suc i) j"
    using Suc by (auto simp: N_def)
  have sh: "shaped a b N" using IH(1) by (simp add: filled_def)
  have len: "length N = length a + 1" "length (N ! Suc i) = length b + 1" using sh i by (auto simp: shaped_def)
  let ?v = "cell a b (Suc i) (Suc k)"
  have step: "fold (fill_cell a b (Suc i)) [1..<Suc k + 1] M = fill_cell a b (Suc i) (Suc k) N"
    by (simp add: N_def)
  have up: "N ! i ! Suc k = cell a b i (Suc k)" "N ! i ! k = cell a b i k"
    using IH(1) i Suc.prems by (auto simp: filled_def)
  have new: "fill_cell a b (Suc i) (Suc k) N = N[Suc i := (N ! Suc i)[Suc k := ?v]]"
    using up IH(2) [of k] i Suc.prems by (simp add: fill_cell_def cell_Suc Let_def)
  have n1: "N[Suc i := (N ! Suc i)[Suc k := ?v]] ! i' ! j = (if i' = Suc i \<and> j = Suc k then ?v else N ! i' ! j)"
    if "i' \<le> length a" "j \<le> length b" for i' j
    using that len i Suc.prems by (auto simp: nth_list_update)
  have "filled a b (Suc i) (N[Suc i := (N ! Suc i)[Suc k := ?v]])"
    using IH(1) n1 len i by (auto simp: filled_def shaped_def nth_list_update)
  moreover have "N[Suc i := (N ! Suc i)[Suc k := ?v]] ! Suc i ! j = cell a b (Suc i) j" if "j \<le> Suc k" for j
    using that n1 [of "Suc i" j] IH(2) [of j] i Suc.prems by (cases "j = Suc k") auto
  ultimately show ?case unfolding step new by blast
qed

lemma filled_row: "filled a b (Suc i) M \<Longrightarrow> i < length a \<Longrightarrow> filled a b (Suc (Suc i)) (fill_row a b (Suc i) M)"
  using fill_cells [of a b i M "length b"]
  by (auto simp: fill_row_def filled_def less_Suc_eq)

lemma filled_rows: "k \<le> length a \<Longrightarrow> filled a b (Suc k) (fold (fill_row a b) [1..<k + 1] (first_matrix (length a) (length b)))"
proof (induction k)
  case 0
  then show ?case using filled_first [of a b] by simp
next
  case (Suc k)
  then show ?case by (simp add: filled_row)
qed

lemma levenshtein_edit_cost:
  "s \<noteq> [] \<Longrightarrow> t \<noteq> [] \<Longrightarrow> levenshtein s t = edit_cost (utf8_chars s) (utf8_chars t)"
proof -
  assume "s \<noteq> []" "t \<noteq> []"
  let ?a = "utf8_chars s" and ?b = "utf8_chars t"
  have "fold (fill_row ?a ?b) [1..<length ?a + 1] (first_matrix (length ?a) (length ?b)) ! length ?a ! length ?b
      = cell ?a ?b (length ?a) (length ?b)"
    using filled_rows [of "length ?a" ?a ?b] by (auto simp: filled_def)
  then show ?thesis using \<open>s \<noteq> []\<close> \<open>t \<noteq> []\<close>
    by (simp add: levenshtein_def Let_def cell_def edit_cost_rev)
qed

lemma levenshtein_le: "levenshtein s t \<le> max (length s) (length t)"
proof (cases "s = [] \<or> t = []")
  case False
  then have "levenshtein s t \<le> max (length (utf8_chars s)) (length (utf8_chars t))"
    by (simp add: levenshtein_edit_cost edit_cost_max)
  then show ?thesis using length_utf8_chars [of s] length_utf8_chars [of t] by linarith
qed (auto simp: levenshtein_def)

lemma levenshtein_0: "levenshtein s t = 0 \<longleftrightarrow> s = t"
proof (cases "s = [] \<or> t = []")
  case False
  then show ?thesis by (simp add: levenshtein_edit_cost edit_cost_0) (metis utf8_chars_inj)
qed (auto simp: levenshtein_def)

lemma levenshtein_sym: "levenshtein s t = levenshtein t s"
  by (cases "s = [] \<or> t = []") (auto simp: levenshtein_def [of "[]"] levenshtein_def [of _ "[]"] levenshtein_edit_cost edit_cost_sym)

text \<open>What is compared: characters, or the single bytes when one of the texts is empty.\<close>

definition text_units :: "string \<Rightarrow> string \<Rightarrow> string list \<times> string list" where
  "text_units s t =
     (if s = [] \<or> t = [] then (map (\<lambda>b. [b]) s, map (\<lambda>b. [b]) t) else (utf8_chars s, utf8_chars t))"

lemma levenshtein_units: "levenshtein s t = edit_cost (fst (text_units s t)) (snd (text_units s t))"
  by (auto simp: text_units_def levenshtein_edit_cost levenshtein_def [of "[]"] levenshtein_def [of _ "[]"])

text \<open>C34: The distance of two texts is the cost of a cheapest edit script between them, it is zero only for equal
  texts, and it is symmetric. The scripts are those between the characters of the texts; when one of the
  texts is empty the program counts the bytes of the other, and the scripts are those between bytes.\<close>

theorem levenshtein_is_cheapest:
  "alignment (fst (text_units s t)) (snd (text_units s t)) (levenshtein s t)
   \<and> (\<forall>k. alignment (fst (text_units s t)) (snd (text_units s t)) k \<longrightarrow> levenshtein s t \<le> k)
   \<and> (levenshtein s t = 0 \<longleftrightarrow> s = t)
   \<and> levenshtein s t = levenshtein t s"
proof (intro conjI allI impI)
  show "alignment (fst (text_units s t)) (snd (text_units s t)) (levenshtein s t)"
    by (simp add: levenshtein_units alignment_edit_cost)
  show "levenshtein s t \<le> k" if "alignment (fst (text_units s t)) (snd (text_units s t)) k" for k
    using that by (simp add: levenshtein_units edit_cost_le_alignment)
qed (rule levenshtein_0 levenshtein_sym)+

theorem levenshtein_is_cheapest_witness:
  "levenshtein ''kitten'' ''sitting'' = levenshtein ''sitting'' ''kitten'' \<and>
   alignment (utf8_chars ''kitten'') (utf8_chars ''sitting'') (levenshtein ''kitten'' ''sitting'')"
proof -
  have u: "text_units ''kitten'' ''sitting'' = (utf8_chars ''kitten'', utf8_chars ''sitting'')" by (simp only: text_units_def) simp
  show ?thesis using levenshtein_is_cheapest [of "''kitten''" "''sitting''"] unfolding u fst_conv snd_conv by blast
qed

text \<open>When one side is empty the program counts bytes, otherwise characters.\<close>

lemma levenshtein_empty_counts_bytes:
  "levenshtein [] (map char_of [195, 169 :: nat]) = 2"
  "levenshtein ''a'' (map char_of [195, 169 :: nat]) = 1"
  by code_simp+

end
