(* ===== verification/File_System.thy ===== *)
theory File_System
  imports Rust_Text
begin

text \<open>
  The file system behind \<open>std::fs\<close> and \<open>std::path\<close>, as the file tools use it: directories, files and
  symbolic links, looked up the way the system resolves a path (a link is followed from the directory
  that holds it, at most forty of them). Permissions, I/O failures and files that are not UTF-8 are not
  modelled. A path is the list of its names from the root.
\<close>

subsection \<open>Paths\<close>

type_synonym path = "string list"

datatype comp = Name string | ParentDir

definition comp_of :: "string \<Rightarrow> comp option" where
  "comp_of s = (if s = [] \<or> s = ''.'' then None else if s = ''..'' then Some ParentDir else Some (Name s))"

text \<open>\<open>Path::components\<close> with \<open>is_absolute\<close>.\<close>

definition parse_path :: "string \<Rightarrow> bool \<times> comp list" where
  "parse_path s = (starts_with ''/'' s, List.map_filter comp_of (split_on (CHR ''/'') s))"

definition path_starts_with :: "path \<Rightarrow> path \<Rightarrow> bool" where
  "path_starts_with p base \<longleftrightarrow> take (length base) p = base"

lemma path_starts_with_append [simp]: "path_starts_with (base @ p) base"
  by (simp add: path_starts_with_def)

lemma path_starts_with_refl [simp]: "path_starts_with p p"
  by (simp add: path_starts_with_def)

lemma path_starts_with_iff: "path_starts_with p base \<longleftrightarrow> (\<exists>s. p = base @ s)"
  by (auto simp: path_starts_with_def) (metis append_take_drop_id)

subsection \<open>The file system\<close>

datatype inode = File string | Dir | Link bool "comp list"

type_synonym fs = "(path \<times> inode) list"

definition look :: "fs \<Rightarrow> path \<Rightarrow> inode option" where
  "look fs p = (if p = [] then Some Dir else map_of fs p)"

text \<open>Path resolution. With \<open>create\<close> the last name may be missing, as for \<open>O_CREAT\<close>.\<close>

fun walk :: "fs \<Rightarrow> bool \<Rightarrow> nat \<Rightarrow> path \<Rightarrow> comp list \<Rightarrow> path option" where
  "walk fs create links cur [] = Some cur"
| "walk fs create links cur (ParentDir # rest) = walk fs create links (butlast cur) rest"
| "walk fs create links cur (Name x # rest) =
     (case look fs (cur @ [x]) of
        None \<Rightarrow> if create \<and> rest = [] then Some (cur @ [x]) else None
      | Some Dir \<Rightarrow> walk fs create links (cur @ [x]) rest
      | Some (File c) \<Rightarrow> if rest = [] then Some (cur @ [x]) else None
      | Some (Link absolute target) \<Rightarrow>
          (case links of
             0 \<Rightarrow> None
           | Suc left \<Rightarrow> walk fs create left (if absolute then [] else cur) (target @ rest)))"

definition MAX_LINKS :: nat where
  "MAX_LINKS = 40"

definition canonicalize :: "fs \<Rightarrow> path \<Rightarrow> path option" where
  "canonicalize fs p = walk fs False MAX_LINKS [] (map Name p)"

definition path_exists :: "fs \<Rightarrow> path \<Rightarrow> bool" where
  "path_exists fs p \<longleftrightarrow> canonicalize fs p \<noteq> None"

definition is_dir :: "fs \<Rightarrow> path \<Rightarrow> bool" where
  "is_dir fs p \<longleftrightarrow> (case canonicalize fs p of Some q \<Rightarrow> look fs q = Some Dir | None \<Rightarrow> False)"

definition read_to_string :: "fs \<Rightarrow> path \<Rightarrow> string option" where
  "read_to_string fs p =
     (case canonicalize fs p of
        Some q \<Rightarrow> (case look fs q of Some (File c) \<Rightarrow> Some c | _ \<Rightarrow> None)
      | None \<Rightarrow> None)"

text \<open>The file that opening a path for writing creates or changes.\<close>

definition open_location :: "fs \<Rightarrow> path \<Rightarrow> path option" where
  "open_location fs p =
     (case walk fs True MAX_LINKS [] (map Name p) of
        Some q \<Rightarrow> if look fs q = Some Dir then None else Some q
      | None \<Rightarrow> None)"

definition fs_write :: "fs \<Rightarrow> path \<Rightarrow> string \<Rightarrow> fs option" where
  "fs_write fs p c = (case open_location fs p of Some q \<Rightarrow> Some (AList.update q (File c) fs) | None \<Rightarrow> None)"

definition fs_append :: "fs \<Rightarrow> path \<Rightarrow> string \<Rightarrow> fs option" where
  "fs_append fs p c =
     (case open_location fs p of
        Some q \<Rightarrow> Some (AList.update q (File ((case look fs q of Some (File old) \<Rightarrow> old | _ \<Rightarrow> []) @ c)) fs)
      | None \<Rightarrow> None)"

text \<open>\<open>create_dir_all\<close>: the missing directories are created from the top; what was created stays when a
  later one fails.\<close>

fun mkdirs :: "fs \<Rightarrow> path \<Rightarrow> path \<Rightarrow> fs \<times> bool" where
  "mkdirs fs up [] = (fs, True)"
| "mkdirs fs up (x # xs) =
     (if is_dir fs (up @ [x]) then mkdirs fs (up @ [x]) xs
      else case canonicalize fs up of
        None \<Rightarrow> (fs, False)
      | Some d \<Rightarrow>
          if look fs (d @ [x]) = None \<and> look fs d = Some Dir
          then mkdirs (AList.update (d @ [x]) Dir fs) (up @ [x]) xs
          else (fs, False))"

definition create_dir_all :: "fs \<Rightarrow> path \<Rightarrow> fs \<times> bool" where
  "create_dir_all fs p = mkdirs fs [] p"

definition remove_file :: "fs \<Rightarrow> path \<Rightarrow> fs option" where
  "remove_file fs p =
     (case look fs p of None \<Rightarrow> None | Some Dir \<Rightarrow> None | Some _ \<Rightarrow> Some (AList.delete p fs))"

definition remove_dir_all :: "fs \<Rightarrow> path \<Rightarrow> fs option" where
  "remove_dir_all fs p =
     (if look fs p = Some Dir then Some (filter (\<lambda>(q, i). \<not> path_starts_with q p) fs) else None)"

definition not_empty_dir :: "fs \<Rightarrow> path \<Rightarrow> bool" where
  "not_empty_dir fs p \<longleftrightarrow> list_ex (\<lambda>(q, i). path_starts_with q p \<and> q \<noteq> p) fs"

text \<open>\<open>Inl True\<close>: the directory is not empty.\<close>

definition remove_dir :: "fs \<Rightarrow> path \<Rightarrow> bool + fs" where
  "remove_dir fs p =
     (if look fs p \<noteq> Some Dir then Inl False
      else if not_empty_dir fs p then Inl True
      else Inr (AList.delete p fs))"

text \<open>\<open>rename\<close>: the final name of the target is not followed.\<close>

definition rename :: "fs \<Rightarrow> path \<Rightarrow> path \<Rightarrow> fs option" where
  "rename fs src dst =
     (if src = [] \<or> dst = [] then None
      else case (canonicalize fs (butlast src), canonicalize fs (butlast dst)) of
        (Some sp, Some dp) \<Rightarrow>
          let s = sp @ [last src]; d = dp @ [last dst] in
          if look fs s = None \<or> look fs dp \<noteq> Some Dir then None
          else if s = d then Some fs
          else if path_starts_with d s then None
          else if look fs s = Some Dir \<and> (look fs d \<noteq> None \<and> look fs d \<noteq> Some Dir \<or> not_empty_dir fs d) then None
          else if look fs s \<noteq> Some Dir \<and> look fs d = Some Dir then None
          else Some (map (\<lambda>(q, i). (if path_starts_with q s then d @ drop (length s) q else q, i))
                 (filter (\<lambda>(q, i). \<not> path_starts_with q d) fs))
      | _ \<Rightarrow> None)"

subsection \<open>Resolution\<close>

definition is_link :: "inode option \<Rightarrow> bool" where
  "is_link i \<longleftrightarrow> (case i of Some (Link a t) \<Rightarrow> True | _ \<Rightarrow> False)"

text \<open>A path without links: every directory above it is a directory.\<close>

definition dirs_above :: "fs \<Rightarrow> path \<Rightarrow> bool" where
  "dirs_above fs p \<longleftrightarrow> (\<forall>k < length p. look fs (take k p) = Some Dir)"

lemma dirs_above_Nil [simp]: "dirs_above fs []"
  by (simp add: dirs_above_def)

lemma dirs_above_snoc [simp]: "dirs_above fs (p @ [x]) \<longleftrightarrow> dirs_above fs p \<and> look fs p = Some Dir"
  by (auto simp: dirs_above_def less_Suc_eq)

lemma dirs_above_butlast: "dirs_above fs p \<Longrightarrow> dirs_above fs (butlast p) \<and> look fs (butlast p) = Some Dir"
proof (cases p rule: rev_cases)
  case Nil
  then show ?thesis by (simp add: look_def)
qed simp

lemma look_Nil [simp]: "look fs [] = Some Dir"
  by (simp add: look_def)

text \<open>What resolution finds has directories above it and is not a link.\<close>

lemma walk_real:
  "walk fs create links cur todo = Some q \<Longrightarrow> dirs_above fs cur \<Longrightarrow> look fs cur = Some Dir \<Longrightarrow>
   dirs_above fs q \<and> \<not> is_link (look fs q) \<and> (create \<or> look fs q \<noteq> None)"
proof (induction fs create links cur todo rule: walk.induct)
  case (1 fs create links cur)
  then show ?case by (simp add: is_link_def)
next
  case (2 fs create links cur rest)
  then show ?case using dirs_above_butlast [of fs cur] by simp
next
  case (3 fs create links cur x rest)
  show ?case
  proof (cases "look fs (cur @ [x])")
    case None
    then show ?thesis using 3 by (auto simp: is_link_def split: if_splits)
  next
    case (Some i)
    show ?thesis
    proof (cases i)
      case (Link a t)
      with 3 Some show ?thesis by (cases links; cases a) auto
    qed (use 3 Some in \<open>auto simp: is_link_def split: if_splits\<close>)
  qed
qed

lemma canonicalize_real:
  "canonicalize fs p = Some q \<Longrightarrow> dirs_above fs q \<and> look fs q \<noteq> None \<and> \<not> is_link (look fs q)"
  using walk_real [of fs False MAX_LINKS "[]" "map Name p" q] by (simp add: canonicalize_def)

lemma walk_dirs:
  "dirs_above fs (cur @ p) \<Longrightarrow> look fs (cur @ p) = Some Dir \<Longrightarrow>
   walk fs create links cur (map Name p @ rest) = walk fs create links (cur @ p) rest"
proof (induction p arbitrary: cur)
  case (Cons x p)
  have "look fs (cur @ [x]) = Some Dir"
  proof (cases p)
    case (Cons y ys)
    have "Suc (length cur) < length (cur @ x # p)" by (simp add: Cons)
    with Cons.prems(1) have "look fs (take (Suc (length cur)) (cur @ x # p)) = Some Dir"
      unfolding dirs_above_def by blast
    then show ?thesis by simp
  qed (use Cons.prems in simp)
  with Cons.IH [of "cur @ [x]"] Cons.prems show ?case by simp
qed simp

text \<open>Resolving a path that has no links gives the path.\<close>

lemma walk_same:
  assumes "dirs_above fs q" "look fs q \<noteq> None \<or> create" "\<not> is_link (look fs q)"
  shows "walk fs create links [] (map Name q) = Some q"
proof (cases q rule: rev_cases)
  case (snoc p x)
  with assms(1) have "walk fs create links [] (map Name p @ [Name x]) = walk fs create links p [Name x]"
    using walk_dirs [of fs "[]" p create links "[Name x]"] by simp
  with snoc assms(2,3) show ?thesis by (auto simp: is_link_def split: option.splits inode.splits)
qed simp

lemma canonicalize_same:
  "dirs_above fs q \<Longrightarrow> look fs q \<noteq> None \<Longrightarrow> \<not> is_link (look fs q) \<Longrightarrow> canonicalize fs q = Some q"
  by (simp add: canonicalize_def walk_same)

lemma canonicalize_idem: "canonicalize fs p = Some q \<Longrightarrow> canonicalize fs q = Some q"
  by (meson canonicalize_real canonicalize_same)

lemma walk_split:
  "walk fs False links cur xs = Some p \<Longrightarrow> walk fs create links cur (xs @ ys) = Some q \<Longrightarrow> ys \<noteq> [] \<Longrightarrow>
   \<exists>left. walk fs create left p ys = Some q"
proof (induction fs False links cur xs rule: walk.induct)
  case (3 fs links cur x rest)
  show ?case
  proof (cases "look fs (cur @ [x])")
    case None
    with 3 show ?thesis by simp
  next
    case (Some i)
    show ?thesis
    proof (cases i)
      case (Link a t)
      with 3 Some show ?thesis by (cases links) auto
    qed (use 3 Some in \<open>auto split: if_splits\<close>)
  qed
qed auto

subsection \<open>Below a directory without links\<close>

definition no_links_under :: "fs \<Rightarrow> path \<Rightarrow> bool" where
  "no_links_under fs base \<longleftrightarrow> (\<forall>(p, i) \<in> set fs. path_starts_with p base \<longrightarrow> \<not> is_link (Some i))"

lemma no_links_look: "no_links_under fs base \<Longrightarrow> \<not> is_link (look fs (base @ p))"
proof (cases "look fs (base @ p)")
  case (Some i)
  assume n: "no_links_under fs base"
  show ?thesis
  proof (cases "base @ p = []")
    case False
    with Some have "map_of fs (base @ p) = Some i" unfolding look_def by (simp only: if_False)
    then have "(base @ p, i) \<in> set fs" by (rule map_of_SomeD)
    with n show ?thesis unfolding no_links_under_def Some by (metis (mono_tags, lifting) case_prodD path_starts_with_append)
  qed (simp add: is_link_def)
qed (simp add: is_link_def)

lemma walk_under:
  assumes "no_links_under fs base"
  shows "walk fs create links (base @ p) (map Name ys) = Some q \<Longrightarrow> q = base @ p @ ys"
proof (induction ys arbitrary: p)
  case (Cons y ys)
  have "\<not> is_link (look fs (base @ p @ [y]))" by (rule no_links_look [OF assms])
  with Cons.prems Cons.IH [of "p @ [y]"] show ?case
    by (auto simp: is_link_def split: option.splits inode.splits if_splits)
qed simp

text \<open>Resolving a path below such a directory stays at the path.\<close>

lemma walk_below:
  assumes "no_links_under fs base" "dirs_above fs base" "look fs base = Some Dir"
    and "walk fs create links [] (map Name (base @ p)) = Some q"
  shows "q = base @ p"
proof -
  have "walk fs create links [] (map Name base @ map Name p) = walk fs create links base (map Name p)"
    using walk_dirs [of fs "[]" base create links "map Name p"] assms(2,3) by simp
  then show ?thesis using walk_under [OF assms(1), of create links "[]" p q] assms(4) by simp
qed

end
