(* ===== verification/Tool_Path.thy ===== *)
theory Tool_Path
  imports File_System
begin

text \<open>
  \<open>agent/tool/tool-basic/src/file/path.rs\<close>: how a path given by the model is resolved under the working
  folder, and what keeps it there. Error messages are left out.
\<close>

datatype file_error = InvalidInput | Transport

text \<open>\<open>normalize_path\<close>: the dots are resolved by their names, links are not looked at.\<close>

definition normalize_path :: "comp list \<Rightarrow> path" where
  "normalize_path cs =
     fold (\<lambda>c buf. case c of ParentDir \<Rightarrow> butlast buf | Name s \<Rightarrow> buf @ [s]) cs []"

text \<open>\<open>PathBuf::join\<close> with an absolute path replaces the base, so both branches of the code that build
  the full path agree on absolute paths.\<close>

definition join_path :: "path \<Rightarrow> bool \<times> comp list \<Rightarrow> comp list" where
  "join_path base p = (if fst p then snd p else map Name base @ snd p)"

definition canonical_or_normal :: "fs \<Rightarrow> path \<Rightarrow> file_error + path" where
  "canonical_or_normal fs normalized =
     (if path_exists fs normalized
      then (case canonicalize fs normalized of Some p \<Rightarrow> Inr p | None \<Rightarrow> Inl Transport)
      else Inr normalized)"

definition under_base :: "fs \<Rightarrow> path \<Rightarrow> path \<Rightarrow> bool" where
  "under_base fs base normalized =
     (if path_starts_with normalized base then True
      else if path_exists fs normalized
      then (case canonicalize fs normalized of Some p \<Rightarrow> path_starts_with p base | None \<Rightarrow> False)
      else if normalized \<noteq> []
      then (case canonicalize fs (butlast normalized) of Some p \<Rightarrow> p = base \<or> path_starts_with p base | None \<Rightarrow> False)
      else False)"

definition resolve_path :: "fs \<Rightarrow> path \<Rightarrow> string \<Rightarrow> bool \<Rightarrow> file_error + path" where
  "resolve_path fs working_folder path_param allow_outside =
     (case canonicalize fs working_folder of
        None \<Rightarrow> Inl InvalidInput
      | Some base_canonical \<Rightarrow>
          let trimmed = trim path_param;
              param = parse_path (if trimmed = [] then ''.'' else trimmed);
              full = (if allow_outside \<and> fst param then snd param else join_path base_canonical param);
              normalized = normalize_path full
          in if allow_outside then canonical_or_normal fs normalized
             else if \<not> under_base fs base_canonical normalized then Inl InvalidInput
             else canonical_or_normal fs normalized)"

definition resolve_path_under :: "fs \<Rightarrow> path \<Rightarrow> string \<Rightarrow> file_error + path" where
  "resolve_path_under fs working_folder path_param = resolve_path fs working_folder path_param False"

subsection \<open>Normal paths\<close>

lemma normalize_names: "normalize_path (map Name p) = p"
proof -
  have "fold (\<lambda>c buf. case c of ParentDir \<Rightarrow> butlast buf | Name s \<Rightarrow> buf @ [s]) (map Name p) buf = buf @ p" for buf
    by (induction p arbitrary: buf) auto
  then show ?thesis by (simp add: normalize_path_def)
qed

lemma normalize_join:
  "normalize_path (join_path base (False, map Name p)) = base @ p"
  using normalize_names [of "base @ p"] by (simp add: join_path_def)

subsection \<open>Confinement\<close>

text \<open>Where the system puts a file that is opened for writing under a resolved path.\<close>

definition confined :: "fs \<Rightarrow> path \<Rightarrow> path \<Rightarrow> bool" where
  "confined fs base p \<longleftrightarrow>
     (\<forall>create q. walk fs create MAX_LINKS [] (map Name p) = Some q \<longrightarrow> path_starts_with q base)"

lemma confined_real:
  assumes "canonicalize fs p = Some q" "path_starts_with q base"
  shows "confined fs base q"
proof -
  have "dirs_above fs q" "look fs q \<noteq> None" "\<not> is_link (look fs q)" using canonicalize_real [OF assms(1)] by auto
  then show ?thesis using walk_same [of fs q] assms(2) by (auto simp: confined_def)
qed

lemma confined_below:
  "no_links_under fs base \<Longrightarrow> dirs_above fs base \<Longrightarrow> look fs base = Some Dir \<Longrightarrow> confined fs base (base @ p)"
  unfolding confined_def using walk_below path_starts_with_append by blast

lemma confined_new:
  assumes "no_links_under fs base" "canonicalize fs p = Some pp" "path_starts_with pp base"
  shows "confined fs base (p @ [x])"
  unfolding confined_def
proof (intro allI impI)
  fix create q assume q: "walk fs create MAX_LINKS [] (map Name (p @ [x])) = Some q"
  obtain s where s: "pp = base @ s" using assms(3) path_starts_with_iff by blast
  obtain left where "walk fs create left pp [Name x] = Some q"
    using walk_split [OF assms(2) [unfolded canonicalize_def], of create "[Name x]" q] q by auto
  moreover have "\<not> is_link (look fs (pp @ [x]))" using no_links_look [OF assms(1), of "s @ [x]"] by (simp add: s)
  ultimately have "q = pp @ [x]"
    by (auto simp: is_link_def split: option.splits inode.splits if_splits)
  then show "path_starts_with q base" by (simp add: s)
qed

lemma canonical_or_normal_confined:
  assumes "under_base fs base n" "no_links_under fs base" "dirs_above fs base" "look fs base = Some Dir"
    and "canonical_or_normal fs n = Inr p"
  shows "confined fs base p"
proof (cases "canonicalize fs n")
  case (Some c)
  then have p: "p = c" using assms(5) by (simp add: canonical_or_normal_def path_exists_def)
  have "path_starts_with c base"
  proof (cases "path_starts_with n base")
    case True
    then obtain s where "n = base @ s" using path_starts_with_iff by blast
    then show ?thesis using walk_below [OF assms(2-4)] Some unfolding canonicalize_def
      by (metis path_starts_with_append)
  next
    case False
    then show ?thesis using assms(1) Some by (simp add: under_base_def path_exists_def)
  qed
  then show ?thesis unfolding p using confined_real Some by blast
next
  case None
  then have p: "p = n" using assms(5) by (simp add: canonical_or_normal_def path_exists_def)
  show ?thesis
  proof (cases "path_starts_with n base")
    case True
    then show ?thesis unfolding p using confined_below [OF assms(2-4)] path_starts_with_iff by metis
  next
    case False
    then obtain c where c: "n \<noteq> []" "canonicalize fs (butlast n) = Some c" "path_starts_with c base"
      using assms(1) None by (auto simp: under_base_def path_exists_def split: if_splits option.splits)
    have "confined fs base (butlast n @ [last n])" by (rule confined_new [OF assms(2) c(2,3)])
    then show ?thesis unfolding p using c(1) by simp
  qed
qed

lemma resolve_path_confined:
  assumes "resolve_path fs working_folder path_param False = Inr p"
    and "canonicalize fs working_folder = Some base" "look fs base = Some Dir" "no_links_under fs base"
  shows "confined fs base p"
proof -
  obtain n where "under_base fs base n" "canonical_or_normal fs n = Inr p"
    using assms(1,2) by (auto simp: resolve_path_def Let_def split: if_splits)
  moreover have "dirs_above fs base" using canonicalize_real [OF assms(2)] by blast
  ultimately show ?thesis using canonical_or_normal_confined assms(3,4) by blast
qed

end
