(* ===== verification/Text_Replacers.thy ===== *)
theory Text_Replacers
  imports Complex_Main Text_Distance
begin

text \<open>
  The nine replacers of \<open>foundation/anureo-util/src/text/fuzzy_replace.rs\<close>. Each maps the content of a
  file and the text to find to the strings of the content that count as a match. A replacer that may
  panic (a slice out of range or off a character boundary) returns an option, \<open>None\<close> being the panic.

  \<open>f64\<close> values are the rationals that \<open>rnd\<close> keeps: by IEEE 754 every operation returns the rounded exact
  result. The regex engine is the parameter \<open>rx_find\<close> (the leftmost match of a pattern in a line, \<open>None\<close>
  also for a pattern that does not compile), with \<open>rx_escape\<close>.
\<close>

record text_env =
  rnd :: "rat \<Rightarrow> rat"
  rx_escape :: "string \<Rightarrow> string"
  rx_find :: "string \<Rightarrow> string \<Rightarrow> string option"

definition MAX_REPLACER_RESULTS :: nat where
  "MAX_REPLACER_RESULTS = 64"

subsection \<open>Lines and blocks\<close>

abbreviation split_lines :: "string \<Rightarrow> string list" where
  "split_lines \<equiv> split_on nl"

abbreviation join_lines :: "string list \<Rightarrow> string" where
  "join_lines \<equiv> join_with [nl]"

text \<open>A trailing newline of the text to find does not count.\<close>

definition search_lines :: "string \<Rightarrow> string list" where
  "search_lines pat = (let s = split_lines pat in if last s = [] then butlast s else s)"

definition line_offset :: "string list \<Rightarrow> nat \<Rightarrow> nat" where
  "line_offset ls i = sum_list (map (\<lambda>l. length l + 1) (take i ls))"

text \<open>The bytes of \<open>n\<close> lines from line \<open>i\<close>, cut out of the content by offsets.\<close>

definition cut_lines :: "string \<Rightarrow> string list \<Rightarrow> nat \<Rightarrow> nat \<Rightarrow> string" where
  "cut_lines content ls i n =
     (let start = line_offset ls i;
          block = take n (drop i ls);
          end = start + sum_list (map (\<lambda>(k, l). length l + (if k < n - 1 then 1 else 0)) (enumerate 0 block))
      in take (end - start) (drop start content))"

lemma join_lines_append:
  "us \<noteq> [] \<Longrightarrow> vs \<noteq> [] \<Longrightarrow> join_with d (us @ vs) = join_with d us @ d @ join_with d vs"
proof (induction us)
  case (Cons u us)
  then show ?case by (cases "us = []") (simp_all add: join_with_Cons)
qed simp

lemma sum_block:
  "n = length ls + k \<Longrightarrow> 0 < length ls \<Longrightarrow>
   sum_list (map (\<lambda>(i, l). length l + (if i < n - 1 then 1 else 0)) (enumerate k ls)) = length (join_lines ls)"
proof (induction ls arbitrary: k)
  case (Cons l ls)
  show ?case
  proof (cases "ls = []")
    case False
    have "sum_list (map (\<lambda>(i, l). length l + (if i < n - 1 then 1 else 0)) (enumerate (Suc k) ls))
        = length (join_lines ls)" using Cons False by simp
    then show ?thesis using Cons.prems False by (simp add: join_with_Cons)
  qed (use Cons in simp)
qed simp

lemma line_offset_join:
  "i < length ls \<Longrightarrow> drop (line_offset ls i) (join_lines ls) = join_lines (drop i ls)"
proof (induction ls arbitrary: i)
  case (Cons l ls)
  show ?case
  proof (cases i)
    case 0
    then show ?thesis by (simp add: line_offset_def)
  next
    case (Suc j)
    then have "ls \<noteq> []" using Cons.prems by auto
    then have "join_lines (l # ls) = (l @ [nl]) @ join_lines ls" by (simp add: join_with_Cons)
    moreover have "line_offset (l # ls) i = length (l @ [nl]) + line_offset ls j"
      by (simp add: Suc line_offset_def)
    ultimately show ?thesis using Cons Suc by simp
  qed
qed simp

text \<open>The offsets cut exactly the lines.\<close>

lemma cut_lines_join:
  assumes "i + n \<le> length ls" "0 < n" "content = join_lines ls"
  shows "cut_lines content ls i n = join_lines (take n (drop i ls))"
proof -
  let ?b = "take n (drop i ls)"
  have b: "length ?b = n" using assms by simp
  have s: "sum_list (map (\<lambda>(k, l). length l + (if k < n - 1 then 1 else 0)) (enumerate 0 ?b)) = length (join_lines ?b)"
    using sum_block [of n ?b 0] b assms(2) by simp
  have "\<exists>t. join_lines (drop i ls) = join_lines ?b @ t"
  proof (cases "drop n (drop i ls) = []")
    case True
    then have "drop i ls = ?b" by simp
    then show ?thesis by (metis append_Nil2)
  next
    case False
    have "drop i ls = ?b @ drop n (drop i ls)" by (simp only: append_take_drop_id)
    moreover have "?b \<noteq> []" using b assms(2) by auto
    ultimately show ?thesis using join_lines_append False by metis
  qed
  moreover have "drop (line_offset ls i) content = join_lines (drop i ls)"
    using assms by (simp add: line_offset_join)
  ultimately show ?thesis unfolding cut_lines_def Let_def s by auto
qed

text \<open>The windows of \<open>n\<close> lines, joined; slicing beyond the last line is a panic.\<close>

definition line_windows :: "string list \<Rightarrow> nat \<Rightarrow> string list option" where
  "line_windows ls n =
     those (map (\<lambda>i. map_option join_lines (lines_slice i n ls)) [0..<length ls - n + 1])"

lemma those_map_Some: "(\<And>x. x \<in> set xs \<Longrightarrow> f x = Some (g x)) \<Longrightarrow> those (map f xs) = Some (map g xs)"
  by (induction xs) simp_all

lemma those_map_None: "x \<in> set xs \<Longrightarrow> f x = None \<Longrightarrow> those (map f xs) = None"
  by (induction xs) (auto split: option.splits)

lemma line_windows_Some:
  "n \<le> length ls \<Longrightarrow>
   line_windows ls n = Some (map (\<lambda>i. join_lines (take n (drop i ls))) [0..<length ls - n + 1])"
  unfolding line_windows_def by (rule those_map_Some) (auto simp: lines_slice_def)

lemma line_windows_panic: "length ls < n \<Longrightarrow> line_windows ls n = None"
  unfolding line_windows_def by (rule those_map_None [of 0]) (auto simp: lines_slice_def)

subsection \<open>Exact and line-wise matching\<close>

definition simple_replacer :: "string \<Rightarrow> string \<Rightarrow> string list" where
  "simple_replacer content pat = [pat]"

definition trimmed_match :: "string list \<Rightarrow> string list \<Rightarrow> nat \<Rightarrow> bool" where
  "trimmed_match orig search i \<longleftrightarrow> list_all (\<lambda>j. trim (orig ! (i + j)) = trim (search ! j)) [0..<length search]"

definition line_trimmed_replacer :: "string \<Rightarrow> string \<Rightarrow> string list" where
  "line_trimmed_replacer content pat =
     (let orig = split_lines content; search = search_lines pat
      in if search = [] \<or> length search > length orig then []
         else take MAX_REPLACER_RESULTS
           (map (\<lambda>i. cut_lines content orig i (length search))
             (filter (trimmed_match orig search) [0..<length orig - length search + 1])))"

text \<open>Every result is a block of lines that equals the text line by line up to surrounding white space,
  and the first 64 such blocks are found.\<close>

lemma line_trimmed_spec:
  assumes "search_lines pat \<noteq> []" "length (search_lines pat) \<le> length (split_lines content)"
  shows "line_trimmed_replacer content pat =
    take 64 (map join_lines
      (filter (\<lambda>b. map trim b = map trim (search_lines pat))
        (map (\<lambda>i. take (length (search_lines pat)) (drop i (split_lines content)))
          [0..<length (split_lines content) - length (search_lines pat) + 1])))"
proof -
  let ?o = "split_lines content" and ?s = "search_lines pat"
  have m: "trimmed_match ?o ?s i \<longleftrightarrow> map trim (take (length ?s) (drop i ?o)) = map trim ?s"
    and c: "cut_lines content ?o i (length ?s) = join_lines (take (length ?s) (drop i ?o))"
    if "i \<in> set [0..<length ?o - length ?s + 1]" for i
  proof -
    have i: "i + length ?s \<le> length ?o"
      using that assms(2) unfolding set_upt atLeastLessThan_iff by linarith
    show "trimmed_match ?o ?s i \<longleftrightarrow> map trim (take (length ?s) (drop i ?o)) = map trim ?s"
      unfolding trimmed_match_def list_all_iff list_eq_iff_nth_eq using i by (simp add: atLeast0LessThan Ball_def)
    show "cut_lines content ?o i (length ?s) = join_lines (take (length ?s) (drop i ?o))"
      by (rule cut_lines_join) (simp_all only: i assms(1) join_split_on length_greater_0_conv not_False_eq_True)
  qed
  have fm: "map C (filter P xs) = map J (filter Q (map B xs))"
    if "\<And>x. x \<in> set xs \<Longrightarrow> P x = Q (B x)" "\<And>x. x \<in> set xs \<Longrightarrow> C x = J (B x)"
    for C :: "nat \<Rightarrow> string" and P J Q and B :: "nat \<Rightarrow> string list" and xs
    using that by (induction xs) auto
  have "line_trimmed_replacer content pat =
      take 64 (map (\<lambda>i. cut_lines content ?o i (length ?s)) (filter (trimmed_match ?o ?s) [0..<length ?o - length ?s + 1]))"
    unfolding line_trimmed_replacer_def Let_def MAX_REPLACER_RESULTS_def
    by (rule if_not_P) (use assms in \<open>simp add: linorder_not_less\<close>)
  also have "\<dots> = take 64 (map join_lines (filter (\<lambda>b. map trim b = map trim ?s)
          (map (\<lambda>i. take (length ?s) (drop i ?o)) [0..<length ?o - length ?s + 1])))"
    using m c by (intro arg_cong [of _ _ "take 64"] fm)
  finally show ?thesis .
qed

subsection \<open>Anchors and similarity\<close>

definition f_usize :: "text_env \<Rightarrow> nat \<Rightarrow> rat" where
  "f_usize E n = rnd E (of_nat n)"

definition f_add :: "text_env \<Rightarrow> rat \<Rightarrow> rat \<Rightarrow> rat" where
  "f_add E x y = rnd E (x + y)"

definition f_sub :: "text_env \<Rightarrow> rat \<Rightarrow> rat \<Rightarrow> rat" where
  "f_sub E x y = rnd E (x - y)"

definition f_div :: "text_env \<Rightarrow> rat \<Rightarrow> rat \<Rightarrow> rat" where
  "f_div E x y = rnd E (x / y)"

definition SINGLE_CANDIDATE_SIMILARITY_THRESHOLD :: rat where
  "SINGLE_CANDIDATE_SIMILARITY_THRESHOLD = 0"

definition MULTIPLE_CANDIDATES_SIMILARITY_THRESHOLD :: "text_env \<Rightarrow> rat" where
  "MULTIPLE_CANDIDATES_SIMILARITY_THRESHOLD E = rnd E (3 / 10)"

text \<open>The anchor pairs: a first line, and for it the nearest last line at least two lines below.\<close>

definition anchor_end :: "string list \<Rightarrow> string \<Rightarrow> nat \<Rightarrow> nat option" where
  "anchor_end orig last_line i = find (\<lambda>j. trim (orig ! j) = last_line) [i + 2..<length orig]"

definition anchor_candidates :: "string list \<Rightarrow> string \<Rightarrow> string \<Rightarrow> (nat \<times> nat) list" where
  "anchor_candidates orig first_line last_line =
     take MAX_REPLACER_RESULTS
       (concat (map (\<lambda>i. if trim (orig ! i) \<noteq> first_line then []
                         else case anchor_end orig last_line i of Some j \<Rightarrow> [(i, j)] | None \<Rightarrow> [])
         [0..<length orig]))"

definition similarity_of :: "text_env \<Rightarrow> string list \<Rightarrow> string list \<Rightarrow> nat \<Rightarrow> nat \<Rightarrow> rat" where
  "similarity_of E orig search start end =
     (let search_size = length search;
          actual_size = end - start + 1;
          lines_to_check = min (search_size - 2) (actual_size - 2)
      in if lines_to_check = 0 then 1
         else f_div E
           (fold (\<lambda>j sim.
              let a = trim (orig ! (start + j)); b = trim (search ! j); max_len = max (length a) (length b)
              in if max_len = 0 then sim
                 else f_add E sim (f_sub E (1) (f_div E (f_usize E (levenshtein a b)) (f_usize E max_len))))
             [1..<min (search_size - 1) (actual_size - 1)] 0)
           (f_usize E lines_to_check))"

definition best_candidate :: "(nat \<Rightarrow> nat \<Rightarrow> rat) \<Rightarrow> (nat \<times> nat) list \<Rightarrow> (nat \<times> nat) option \<times> rat" where
  "best_candidate sim cands =
     fold (\<lambda>(s, e) (best, max_sim). if sim s e > max_sim then (Some (s, e), sim s e) else (best, max_sim))
       cands (None, - 1)"

definition block_anchor_replacer :: "text_env \<Rightarrow> string \<Rightarrow> string \<Rightarrow> string list" where
  "block_anchor_replacer E content pat =
     (let orig = split_lines content; search = search_lines pat
      in if length (split_lines pat) < 3 \<or> length search < 3 then []
         else
           let candidates = anchor_candidates orig (trim (hd search)) (trim (last search));
               extract = (\<lambda>start end. cut_lines content orig start (end - start + 1));
               sim = similarity_of E orig search
           in case candidates of
                [] \<Rightarrow> []
              | [(s, e)] \<Rightarrow>
                  if sim s e \<ge> SINGLE_CANDIDATE_SIMILARITY_THRESHOLD then [extract s e] else []
              | _ \<Rightarrow>
                  (case best_candidate sim candidates of
                     (best, max_sim) \<Rightarrow>
                       if max_sim \<ge> MULTIPLE_CANDIDATES_SIMILARITY_THRESHOLD E
                       then (case best of Some (s, e) \<Rightarrow> [extract s e] | None \<Rightarrow> [])
                       else []))"

subsection \<open>White space and indentation\<close>

definition normalize_ws :: "string \<Rightarrow> string" where
  "normalize_ws s = join_with '' '' (ws_words s)"

definition ws_pattern :: "text_env \<Rightarrow> string list \<Rightarrow> string" where
  "ws_pattern E words = join_with [CHR 0x5C, CHR ''s'', CHR ''+''] (map (rx_escape E) words)"

definition ws_line_matches :: "text_env \<Rightarrow> string \<Rightarrow> string \<Rightarrow> string list" where
  "ws_line_matches E pat line =
     (let norm_find = normalize_ws pat
      in if normalize_ws line = norm_find then [line]
         else if str_contains (normalize_ws line) norm_find
         then (let words = ws_words pat
               in if words = [] then []
                  else case rx_find E (ws_pattern E words) line of Some m \<Rightarrow> [m] | None \<Rightarrow> [])
         else [])"

definition whitespace_normalized_replacer :: "text_env \<Rightarrow> string \<Rightarrow> string \<Rightarrow> string list option" where
  "whitespace_normalized_replacer E content pat =
     (let lines = split_lines content;
          singles = concat (map (ws_line_matches E pat) lines);
          find_lines = split_lines pat
      in if length find_lines > 1
         then map_option (\<lambda>ws. singles @ filter (\<lambda>block. normalize_ws block = normalize_ws pat) ws)
                (line_windows lines (length find_lines))
         else Some singles)"

definition remove_indent :: "string \<Rightarrow> string option" where
  "remove_indent txt =
     (let ls = split_lines txt; non_empty = filter (\<lambda>l. trim l \<noteq> []) ls
      in if non_empty = [] then Some txt
         else
           let m = min_list (map (\<lambda>l. length l - length (trim_start l)) non_empty)
           in map_option join_lines
                (those (map (\<lambda>l. if trim l = [] then Some l else str_from (min m (length l)) l) ls)))"

text \<open>Every window is stripped of its indentation, which may panic, and compared.\<close>

fun matching_windows :: "string \<Rightarrow> string list \<Rightarrow> string list option" where
  "matching_windows target [] = Some []"
| "matching_windows target (b # bs) =
     (case remove_indent b of
        None \<Rightarrow> None
      | Some r \<Rightarrow> map_option (\<lambda>ms. if r = target then b # ms else ms) (matching_windows target bs))"

definition indentation_flexible_replacer :: "string \<Rightarrow> string \<Rightarrow> string list option" where
  "indentation_flexible_replacer content pat =
     (case remove_indent pat of
        None \<Rightarrow> None
      | Some norm_find \<Rightarrow>
          Option.bind (line_windows (split_lines content) (length (split_lines pat)))
            (matching_windows norm_find))"

subsection \<open>Escapes and boundaries\<close>

definition unescape_code :: "char \<Rightarrow> string" where
  "unescape_code c =
     (if c = CHR ''n'' then [nl] else if c = CHR ''t'' then [CHR 0x09] else if c = CHR ''r'' then [CHR 0x0D]
      else if c \<in> {CHR 0x27, CHR 0x22, CHR 0x60, CHR 0x5C, CHR 0x24, nl} then [c]
      else [CHR 0x5C, c])"

fun unescape_string :: "string \<Rightarrow> string" where
  "unescape_string [] = []"
| "unescape_string [c] = [c]"
| "unescape_string (c # d # s) =
     (if c \<noteq> CHR 0x5C then c # unescape_string (d # s) else unescape_code d @ unescape_string s)"

definition escape_normalized_replacer :: "string \<Rightarrow> string \<Rightarrow> string list" where
  "escape_normalized_replacer content pat =
     (let unescaped = unescape_string pat;
          whole = (if str_contains content unescaped then [unescaped] else []);
          lines = split_lines content;
          find_lines = split_lines unescaped;
          n = length find_lines
      in if n > length lines then whole
         else take MAX_REPLACER_RESULTS
           (whole @ map (\<lambda>i. join_lines (take n (drop i lines)))
             (filter (\<lambda>i. list_all (\<lambda>k. unescape_string (lines ! (i + k)) = find_lines ! k) [0..<n])
               [0..<length lines - n + 1])))"

definition trimmed_boundary_replacer :: "string \<Rightarrow> string \<Rightarrow> string list option" where
  "trimmed_boundary_replacer content pat =
     (let trimmed = trim pat
      in if trimmed = pat then Some []
         else map_option
           (\<lambda>ws. (if str_contains content trimmed then [trimmed] else []) @ filter (\<lambda>block. trim block = trimmed) ws)
           (line_windows (split_lines content) (length (split_lines pat))))"

definition middle_score :: "string list \<Rightarrow> string list \<Rightarrow> nat \<times> nat" where
  "middle_score block find_lines =
     fold (\<lambda>k (matching, total_lines).
         let bl = trim (block ! k); fl = trim (find_lines ! k)
         in if bl \<noteq> [] \<or> fl \<noteq> [] then (if bl = fl then matching + 1 else matching, total_lines + 1)
            else (matching, total_lines))
       [1..<length block - 1] (0, 0)"

text \<open>The loops stop at the first pair of anchors, whether it is accepted or not.\<close>

fun first_anchor :: "string list \<Rightarrow> string \<Rightarrow> string \<Rightarrow> nat list \<Rightarrow> (nat \<times> nat) option" where
  "first_anchor lines f l [] = None"
| "first_anchor lines f l (i # is) =
     (if trim (lines ! i) \<noteq> f then first_anchor lines f l is
      else case anchor_end lines l i of Some j \<Rightarrow> Some (i, j) | None \<Rightarrow> first_anchor lines f l is)"

definition context_aware_replacer :: "text_env \<Rightarrow> string \<Rightarrow> string \<Rightarrow> string list" where
  "context_aware_replacer E content pat =
     (let find_lines = search_lines pat; content_lines = split_lines content
      in if length (split_lines pat) < 3 \<or> length find_lines < 3 then []
         else case first_anchor content_lines (trim (hd find_lines)) (trim (last find_lines)) [0..<length content_lines] of
             None \<Rightarrow> []
           | Some (i, j) \<Rightarrow>
               let block = take (j - i + 1) (drop i content_lines)
               in if length block = length find_lines
                  then (case middle_score block find_lines of
                          (matching, total_lines) \<Rightarrow>
                            if total_lines = 0 \<or> f_div E (f_usize E matching) (f_usize E total_lines) \<ge> 1 / 2
                            then [join_lines block] else [])
                  else [])"

fun multi_occurrence_loop :: "nat \<Rightarrow> string \<Rightarrow> string \<Rightarrow> string list" where
  "multi_occurrence_loop 0 pat rest = []"
| "multi_occurrence_loop (Suc room) pat rest =
     (case find_sub pat rest of
        None \<Rightarrow> []
      | Some idx \<Rightarrow> pat # multi_occurrence_loop room pat (drop (idx + length pat) rest))"

definition multi_occurrence_replacer :: "string \<Rightarrow> string \<Rightarrow> string list" where
  "multi_occurrence_replacer content pat = multi_occurrence_loop MAX_REPLACER_RESULTS pat content"

end
