(* ===== verification/Text_Edit.thy ===== *)
theory Text_Edit
  imports Text_Replacers
begin

text \<open>
  \<open>replace\<close> of \<open>foundation/anureo-util/src/text/fuzzy_replace.rs\<close>: the replacers are asked in order, and
  the first string one of them offers that is unambiguous in the content is replaced. A panic of a
  replacer is the panic of \<open>replace\<close>.
\<close>

subsection \<open>The entry point\<close>

datatype edit_result = EditOk string | EditErr string | EditPanic

definition err_same :: string where
  "err_same = ''oldString and newString must be different''"

definition err_empty :: string where
  "err_empty = ''oldString must not be empty''"

definition err_not_found :: string where
  "err_not_found = ''oldString not found in content''"

definition err_multiple :: string where
  "err_multiple = ''Found multiple matches for oldString. Provide more surrounding lines in oldString to identify the correct match.''"

definition total_replacer :: "(string \<Rightarrow> string \<Rightarrow> string list) \<Rightarrow> string \<Rightarrow> string \<Rightarrow> string list option" where
  "total_replacer f content pat = Some (f content pat)"

definition replacers :: "text_env \<Rightarrow> (string \<Rightarrow> string \<Rightarrow> string list option) list" where
  "replacers E =
     [total_replacer simple_replacer,
      total_replacer line_trimmed_replacer,
      total_replacer (block_anchor_replacer E),
      whitespace_normalized_replacer E,
      indentation_flexible_replacer,
      total_replacer escape_normalized_replacer,
      trimmed_boundary_replacer,
      total_replacer (context_aware_replacer E),
      total_replacer multi_occurrence_replacer]"

text \<open>The inner loop: \<open>Inl\<close> is the flag \<open>not_found\<close> when no string of the list was replaced.\<close>

fun try_searches :: "string \<Rightarrow> string \<Rightarrow> bool \<Rightarrow> bool \<Rightarrow> string list \<Rightarrow> bool + string" where
  "try_searches content new_string replace_all not_found [] = Inl not_found"
| "try_searches content new_string replace_all not_found (search # rest) =
     (case find_sub search content of
        None \<Rightarrow> try_searches content new_string replace_all not_found rest
      | Some index \<Rightarrow>
          if replace_all then Inr (str_replace search new_string content)
          else if rfind_sub search content \<noteq> Some index
          then try_searches content new_string replace_all False rest
          else Inr (take index content @ new_string @ drop (index + length search) content))"

fun try_replacers ::
  "string \<Rightarrow> string \<Rightarrow> string \<Rightarrow> bool \<Rightarrow> bool \<Rightarrow> (string \<Rightarrow> string \<Rightarrow> string list option) list \<Rightarrow> edit_result" where
  "try_replacers content old_string new_string replace_all not_found [] =
     EditErr (if not_found then err_not_found else err_multiple)"
| "try_replacers content old_string new_string replace_all not_found (replacer # rest) =
     (case replacer content old_string of
        None \<Rightarrow> EditPanic
      | Some searches \<Rightarrow>
          (case try_searches content new_string replace_all not_found searches of
             Inl nf \<Rightarrow> try_replacers content old_string new_string replace_all nf rest
           | Inr result \<Rightarrow> EditOk result))"

definition replace :: "text_env \<Rightarrow> string \<Rightarrow> string \<Rightarrow> string \<Rightarrow> bool \<Rightarrow> edit_result" where
  "replace E content old_string new_string replace_all =
     (if old_string = new_string then EditErr err_same
      else if old_string = [] then EditErr err_empty
      else try_replacers content old_string new_string replace_all True (replacers E))"

fun_cases try_replacersE: "try_replacers content old_string new_string replace_all nf (r # rs) = EditOk s"

subsection \<open>What the loops return\<close>

definition replaced_once :: "string \<Rightarrow> string \<Rightarrow> string \<Rightarrow> string \<Rightarrow> bool" where
  "replaced_once content s new_string r \<longleftrightarrow>
     occurs_once s content \<and> (\<exists>pre post. content = pre @ s @ post \<and> r = pre @ new_string @ post)"

lemma try_searches_ok:
  "try_searches content new_string False nf ss = Inr r \<Longrightarrow> \<exists>s \<in> set ss. replaced_once content s new_string r"
proof (induction ss arbitrary: nf)
  case (Cons s ss)
  show ?case
  proof (cases "occurs_once s content")
    case True
    then obtain i where i: "find_sub s content = Some i" "rfind_sub s content = Some i"
      by (metis not_Some_eq occurs_once_def)
    with Cons.prems have "r = take i content @ new_string @ drop (i + length s) content" by simp
    moreover have "content = take i content @ s @ drop (i + length s) content" by (rule find_sub_split(1) [OF i(1)])
    ultimately show ?thesis using True unfolding replaced_once_def by (metis list.set_intros(1))
  next
    case False
    then have "\<exists>nf'. try_searches content new_string False nf' ss = Inr r"
      using Cons.prems by (auto simp: occurs_once_def split: option.splits if_splits)
    with Cons.IH show ?thesis by (meson list.set_intros(2))
  qed
qed simp

lemma try_searches_none:
  "try_searches content new_string False nf ss = Inl nf' \<Longrightarrow>
   (\<forall>s \<in> set ss. \<not> occurs_once s content) \<and>
   (nf' \<longleftrightarrow> nf \<and> (\<forall>s \<in> set ss. \<not> str_contains content s))"
proof (induction ss arbitrary: nf)
  case (Cons s ss)
  show ?case
  proof (cases "find_sub s content")
    case None
    with Cons show ?thesis by (simp add: occurs_once_def str_contains_def)
  next
    case (Some i)
    with Cons.prems have "rfind_sub s content \<noteq> Some i" "try_searches content new_string False False ss = Inl nf'"
      by (simp_all split: if_splits)
    with Cons.IH [of False] Some show ?thesis by (simp add: occurs_once_def str_contains_def)
  qed
qed simp

text \<open>What one of the replacers offers.\<close>

definition offered :: "(string \<Rightarrow> string \<Rightarrow> string list option) list \<Rightarrow> string \<Rightarrow> string \<Rightarrow> string \<Rightarrow> bool" where
  "offered rs content old_string s \<longleftrightarrow> (\<exists>f \<in> set rs. \<exists>ss. f content old_string = Some ss \<and> s \<in> set ss)"

lemma offered_Cons:
  "offered (f # rs) content old_string s \<longleftrightarrow>
   (\<exists>ss. f content old_string = Some ss \<and> s \<in> set ss) \<or> offered rs content old_string s"
  by (auto simp: offered_def)

lemma try_replacers_ok:
  "try_replacers content old_string new_string False nf rs = EditOk r \<Longrightarrow>
   \<exists>s. offered rs content old_string s \<and> replaced_once content s new_string r"
proof (induction rs arbitrary: nf)
  case (Cons f rs)
  then obtain ss where ss: "f content old_string = Some ss" by (auto split: option.splits)
  show ?case
  proof (cases "try_searches content new_string False nf ss")
    case (Inl nf')
    with Cons ss show ?thesis by (auto simp: offered_Cons)
  next
    case (Inr r')
    with Cons.prems ss have "try_searches content new_string False nf ss = Inr r" by simp
    from try_searches_ok [OF this] ss show ?thesis by (auto simp: offered_Cons)
  qed
qed simp

lemma try_replacers_err:
  "try_replacers content old_string new_string False nf rs = EditErr e \<Longrightarrow>
   (\<forall>s. offered rs content old_string s \<longrightarrow> \<not> occurs_once s content) \<and>
   e = (if nf \<and> (\<forall>s. offered rs content old_string s \<longrightarrow> \<not> str_contains content s)
        then err_not_found else err_multiple)"
proof (induction rs arbitrary: nf)
  case (Cons f rs)
  then obtain ss where ss: "f content old_string = Some ss" by (auto split: option.splits)
  with Cons.prems obtain nf' where nf': "try_searches content new_string False nf ss = Inl nf'"
    "try_replacers content old_string new_string False nf' rs = EditErr e"
    by (auto split: sum.splits)
  from Cons.IH [OF nf'(2)] try_searches_none [OF nf'(1)] ss show ?case
    by (auto simp: offered_Cons)
qed (simp add: offered_def)

lemma offered_exact: "offered (replacers E) content old_string old_string"
  by (simp add: offered_def replacers_def total_replacer_def simple_replacer_def)

subsection \<open>Correctness\<close>

text \<open>C35: A successful edit of one place replaces a string that occurs exactly once and that a replacer
  offered for the text to find; everything around it is untouched.\<close>

theorem replace_sound:
  assumes "replace E content old_string new_string False = EditOk r"
  shows "\<exists>s pre post. offered (replacers E) content old_string s \<and> occurs_once s content
           \<and> content = pre @ s @ post \<and> r = pre @ new_string @ post"
proof -
  have "try_replacers content old_string new_string False True (replacers E) = EditOk r"
    using assms by (simp add: replace_def split: if_splits)
  then show ?thesis by (metis replaced_once_def try_replacers_ok)
qed

text \<open>C36: When an edit of one place (not of all occurrences) reports an error, exactly. Unless the edit panics, which
  a replacer may do (see the findings), it reports an error if and only if the two texts are equal, the text to find
  is empty, or no replacer offers a string that occurs exactly once; in the last case the error is not-found when
  none of the offered strings occurs at all, and several matches otherwise.\<close>

theorem replace_fails_iff_ambiguous:
  assumes "replace E content old_string new_string False \<noteq> EditPanic"
  shows "replace E content old_string new_string False = EditErr e \<longleftrightarrow>
    (if old_string = new_string then e = err_same
     else if old_string = [] then e = err_empty
     else (\<nexists>s. offered (replacers E) content old_string s \<and> occurs_once s content) \<and>
       e = (if \<exists>s. offered (replacers E) content old_string s \<and> str_contains content s then err_multiple else err_not_found))"
proof (cases "old_string = new_string \<or> old_string = []")
  case True
  then show ?thesis by (auto simp: replace_def)
next
  case False
  then have r: "replace E content old_string new_string False = try_replacers content old_string new_string False True (replacers E)"
    by (simp add: replace_def)
  show ?thesis
  proof (cases "try_replacers content old_string new_string False True (replacers E)")
    case (EditOk c)
    from try_replacers_ok [OF this] have "\<exists>s. offered (replacers E) content old_string s \<and> occurs_once s content"
      by (auto simp: replaced_once_def)
    with False EditOk show ?thesis by (simp add: r)
  next
    case (EditErr e')
    from try_replacers_err [OF this] False EditErr show ?thesis by (auto simp: r)
  next
    case EditPanic
    with assms show ?thesis by (simp add: r)
  qed
qed

lemma occurs_once_split:
  assumes "occurs_once s (pre @ s @ post)"
  shows "find_sub s (pre @ s @ post) = Some (length pre)" "rfind_sub s (pre @ s @ post) = Some (length pre)"
proof -
  have o: "occurs_at s (pre @ s @ post) (length pre)" by (auto simp: occurs_at_split)
  obtain i where "find_sub s (pre @ s @ post) = Some i" "rfind_sub s (pre @ s @ post) = Some i"
    using assms by (metis not_Some_eq occurs_once_def)
  moreover from this have "i = length pre" using o assms by (metis find_sub_Some occurs_once_iff)
  ultimately show "find_sub s (pre @ s @ post) = Some (length pre)" "rfind_sub s (pre @ s @ post) = Some (length pre)"
    by simp_all
qed

lemma exact_replacement:
  assumes "occurs_once old_string (pre @ old_string @ post)" "old_string \<noteq> new_string" "old_string \<noteq> []"
  shows "replace E (pre @ old_string @ post) old_string new_string False = EditOk (pre @ new_string @ post)"
  using assms(2,3) occurs_once_split [OF assms(1)]
  by (simp add: replace_def replacers_def total_replacer_def simple_replacer_def)

text \<open>An exact and unique occurrence is the one that is replaced, whatever the inexact strategies
  would offer; with replace-all every occurrence of the exact text is replaced.\<close>

theorem exact_match_wins:
  assumes "content = pre @ old_string @ post" "old_string \<noteq> new_string" "old_string \<noteq> []"
  shows "(occurs_once old_string content \<longrightarrow>
            replace E content old_string new_string False = EditOk (pre @ new_string @ post))
       \<and> replace E content old_string new_string True = EditOk (replace_from old_string new_string content)"
proof -
  have "find_sub old_string content \<noteq> None" using assms(1) str_contains_def str_contains_split by blast
  then have "replace E content old_string new_string True = EditOk (replace_from old_string new_string content)"
    using assms by (auto simp: replace_def replacers_def total_replacer_def simple_replacer_def str_replace_def)
  with assms exact_replacement show ?thesis by blast
qed

subsection \<open>Panics\<close>

lemma ascii_simps [simp]: "ascii []" "ascii (c # s) \<longleftrightarrow> (of_char c :: nat) < 128 \<and> ascii s"
  "ascii (s @ t) \<longleftrightarrow> ascii s \<and> ascii t"
  by (auto simp: ascii_def)

lemma ascii_join: "(\<And>w. w \<in> set ws \<Longrightarrow> ascii w) \<Longrightarrow> ascii (join_lines ws)"
proof (induction ws)
  case (Cons w ws)
  then show ?case by (cases ws) (auto simp: of_char_of)
qed simp

lemma ascii_split: "ascii s \<Longrightarrow> w \<in> set (split_on d s) \<Longrightarrow> ascii w"
  by (induction s arbitrary: w) (auto split: if_splits list.splits)

lemma remove_indent_ascii: "ascii s \<Longrightarrow> remove_indent s \<noteq> None"
proof -
  assume a: "ascii s"
  have "those (map (\<lambda>l. if trim l = [] then Some l else str_from (min m (length l)) l) (split_lines s)) \<noteq> None" for m
    using ascii_split [OF a, of _ nl]
    by (subst those_map_Some [where g = "\<lambda>l. if trim l = [] then l else drop (min m (length l)) l"])
      (auto simp: str_from_ascii)
  then show ?thesis unfolding remove_indent_def Let_def by (simp del: not_None_eq)
qed

lemma matching_windows_ok: "(\<And>b. b \<in> set bs \<Longrightarrow> ascii b) \<Longrightarrow> matching_windows t bs \<noteq> None"
proof (induction bs)
  case (Cons b bs)
  then show ?case using remove_indent_ascii [of b] by (auto split: option.splits)
qed simp

lemma line_windows_ascii:
  "ascii content \<Longrightarrow> line_windows (split_lines content) n = Some ws \<Longrightarrow> b \<in> set ws \<Longrightarrow> ascii b"
proof -
  assume a: "ascii content" and w: "line_windows (split_lines content) n = Some ws" and b: "b \<in> set ws"
  have "n \<le> length (split_lines content)" using w line_windows_panic by (metis not_le_imp_less option.distinct(1))
  then obtain i where "b = join_lines (take n (drop i (split_lines content)))"
    using w b by (auto simp: line_windows_Some simp del: upt_Suc)
  then show "ascii b" using ascii_split [OF a] by (auto intro!: ascii_join dest!: in_set_takeD in_set_dropD)
qed

lemma replacers_total:
  assumes "ascii content" "ascii old_string" "length (split_lines old_string) \<le> length (split_lines content)"
    and "f \<in> set (replacers E)"
  shows "f content old_string \<noteq> None"
proof -
  obtain ws where ws: "line_windows (split_lines content) (length (split_lines old_string)) = Some ws"
    using line_windows_Some [OF assms(3)] by blast
  obtain t where t: "remove_indent old_string = Some t" using remove_indent_ascii [OF assms(2)] by blast
  have "matching_windows t ws \<noteq> None" using line_windows_ascii [OF assms(1) ws] by (rule matching_windows_ok)
  then show ?thesis using assms(4) ws t
    by (auto simp: replacers_def total_replacer_def whitespace_normalized_replacer_def indentation_flexible_replacer_def
        trimmed_boundary_replacer_def Let_def)
qed

lemma try_replacers_total:
  "(\<And>f. f \<in> set rs \<Longrightarrow> f content old_string \<noteq> None) \<Longrightarrow>
   try_replacers content old_string new_string replace_all nf rs \<noteq> EditPanic"
proof (induction rs arbitrary: nf)
  case (Cons f rs)
  obtain ss where "f content old_string = Some ss" using Cons.prems [of f] by auto
  then show ?case using Cons by (auto split: sum.splits)
qed simp

text \<open>On ASCII texts an edit never panics when the text to find has no more lines than the content.\<close>

theorem replace_never_panics:
  assumes "ascii content" "ascii old_string" "length (split_lines old_string) \<le> length (split_lines content)"
  shows "replace E content old_string new_string replace_all \<noteq> EditPanic"
proof -
  have "try_replacers content old_string new_string replace_all nf (replacers E) \<noteq> EditPanic" for nf
    by (rule try_replacers_total) (rule replacers_total [OF assms])
  then show ?thesis by (simp add: replace_def)
qed

text \<open>Beyond these conditions the code does panic: the windows of three replacers are sliced without
  looking at the length, and the common indentation is counted in bytes, so that a line that starts
  with U+3000 is cut inside that character.\<close>

definition plain_text_env :: text_env where
  "plain_text_env = \<lparr>rnd = id, rx_escape = id, rx_find = (\<lambda>_ _. None)\<rparr>"

definition wide_space :: string where
  "wide_space = map char_of [227, 128, 128 :: nat]"

lemma panic_hides_unique_match:
  "replace plain_text_env ('' a'' @ [nl] @ wide_space @ ''b'' @ [nl] @ ''x'' @ [CHR 0x09] @ ''y'' @ [nl] @ ''z'')
     (''x'' @ [CHR 0x5C] @ ''ty'' @ [nl] @ ''z'') ''q'' False = EditPanic"
  by code_simp

lemma longer_text_panics:
  "replace plain_text_env ''a'' (''x'' @ [nl] @ ''y'') ''z'' False = EditPanic"
  by code_simp

lemma wide_indentation_panics:
  "replace plain_text_env ('' a'' @ [nl] @ wide_space @ ''b'') (''q'' @ [nl] @ ''r'') ''z'' False = EditPanic"
  by code_simp

text \<open>A text of white space matches an empty line, and the string offered is the empty one, which
  \<open>str::replace\<close> finds between any two characters.\<close>

lemma blank_text_inserts_everywhere:
  "replace plain_text_env (''ab'' @ [nl, nl] @ ''c'') '' '' ''X'' True
     = EditOk (''XaXbX'' @ [nl] @ ''X'' @ [nl] @ ''XcX'')"
  by code_simp

theorem replace_never_panics_witness:
  "replace plain_text_env ''ab'' ''q'' ''r'' False \<noteq> EditPanic"
  by (rule replace_never_panics) code_simp+

theorem replace_sound_witness:
  "\<exists>s pre post. offered (replacers plain_text_env) ''  foo'' ''foo '' s \<and> occurs_once s ''  foo''
     \<and> ''  foo'' = pre @ s @ post \<and> ''bar'' = pre @ ''bar'' @ post"
  by (rule replace_sound [of plain_text_env "''  foo''" "''foo ''" "''bar''"]) code_simp

theorem replace_fails_iff_ambiguous_witness:
  "replace plain_text_env ''aa'' ''a'' ''b'' False = EditErr err_multiple \<and> \<not> occurs_once ''a'' ''aa''"
proof -
  have e: "replace plain_text_env ''aa'' ''a'' ''b'' False = EditErr err_multiple" by code_simp
  then have "replace plain_text_env ''aa'' ''a'' ''b'' False \<noteq> EditPanic" by simp
  from replace_fails_iff_ambiguous [OF this, of err_multiple] e offered_exact [of plain_text_env "''aa''" "''a''"]
  show ?thesis by auto
qed

theorem exact_match_wins_witness:
  "replace plain_text_env ''x = x + y'' ''x'' ''z'' True = EditOk (replace_from ''x'' ''z'' ''x = x + y'')"
  using exact_match_wins [of "''x = x + y''" "[]" "''x''" "'' = x + y''" "''z''" plain_text_env] by simp

subsection \<open>Anchored blocks\<close>

text \<open>What IEEE 754 rounding to nearest guarantees of the operations used here.\<close>

definition rounding :: "(rat \<Rightarrow> rat) \<Rightarrow> bool" where
  "rounding r \<longleftrightarrow> mono r \<and> r 0 = 0 \<and> r 1 = 1"

lemma rounding_unit: "rounding r \<Longrightarrow> 0 \<le> x \<Longrightarrow> x \<le> 1 \<Longrightarrow> 0 \<le> r x \<and> r x \<le> 1"
  unfolding rounding_def by (metis monoD)

lemma rounding_nonneg: "rounding r \<Longrightarrow> 0 \<le> x \<Longrightarrow> 0 \<le> r x"
  unfolding rounding_def by (metis monoD)

lemma line_term_nonneg:
  assumes r: "rounding (rnd E)"
  shows "0 \<le> f_sub E 1 (f_div E (f_usize E (levenshtein a b)) (f_usize E (max (length a) (length b))))"
proof (cases "max (length a) (length b) = 0")
  case True
  then show ?thesis using r by (simp add: f_sub_def f_div_def f_usize_def rounding_def)
next
  case False
  let ?d = "f_usize E (levenshtein a b)" and ?m = "f_usize E (max (length a) (length b))"
  have m: "1 \<le> ?m"
  proof -
    have "rnd E 1 \<le> rnd E (of_nat (max (length a) (length b)))"
    proof (rule monoD [of "rnd E"])
      show "mono (rnd E)" using r by (simp add: rounding_def)
      have "1 \<le> max (length a) (length b)" using False by linarith
      then show "1 \<le> (of_nat (max (length a) (length b)) :: rat)" by (simp del: of_nat_max)
    qed
    then show ?thesis using r by (simp add: f_usize_def rounding_def)
  qed
  have d0: "0 \<le> ?d" unfolding f_usize_def by (rule rounding_nonneg [OF r]) simp
  have d: "?d \<le> ?m" unfolding f_usize_def
  proof (rule monoD [of "rnd E"])
    show "mono (rnd E)" using r by (simp add: rounding_def)
    show "of_nat (levenshtein a b) \<le> (of_nat (max (length a) (length b)) :: rat)"
      unfolding of_nat_le_iff by (rule levenshtein_le)
  qed
  have q: "0 \<le> x / y \<and> x / y \<le> 1" if "0 \<le> x" "x \<le> y" "1 \<le> y" for x y :: rat
    using that by (simp add: divide_le_eq_1)
  have "f_div E ?d ?m \<le> 1"
    unfolding f_div_def using q [OF d0 d m] rounding_unit [OF r] by blast
  then show ?thesis unfolding f_sub_def using rounding_nonneg [OF r] by simp
qed

lemma similarity_nonneg:
  assumes r: "rounding (rnd E)"
  shows "0 \<le> similarity_of E orig search s e"
proof -
  have step: "0 \<le> fold (\<lambda>j sim.
        let a = trim (orig ! (s + j)); b = trim (search ! j); max_len = max (length a) (length b)
        in if max_len = 0 then sim
           else f_add E sim (f_sub E 1 (f_div E (f_usize E (levenshtein a b)) (f_usize E max_len)))) js acc"
    if "0 \<le> acc" for js acc
    using that
  proof (induction js arbitrary: acc)
    case (Cons j js)
    show ?case unfolding fold_simps
      by (rule Cons.IH) (use Cons.prems line_term_nonneg [OF r] rounding_nonneg [OF r] in \<open>simp add: Let_def f_add_def\<close>)
  qed simp
  show ?thesis unfolding similarity_of_def Let_def f_div_def f_usize_def
    using step [unfolded Let_def f_div_def f_usize_def, of 0] rounding_nonneg [OF r] by simp
qed

lemma anchor_candidates_range:
  assumes "(s, e) \<in> set (anchor_candidates orig f l)"
  shows "s < e" "e < length orig"
proof -
  have "(s, e) \<in> set (concat (map (\<lambda>i. if trim (orig ! i) \<noteq> f then []
      else case anchor_end orig l i of Some j \<Rightarrow> [(i, j)] | None \<Rightarrow> []) [0..<length orig]))"
    using assms unfolding anchor_candidates_def by (rule in_set_takeD)
  then have "anchor_end orig l s = Some e" by (auto split: if_splits option.splits)
  then show "s < e" "e < length orig"
    by (auto simp: anchor_end_def find_Some_iff dest: nth_mem)
qed

lemma length_search_lines: "length (search_lines p) \<le> length (split_lines p)"
  by (simp add: search_lines_def Let_def)

text \<open>When one block lies between the anchors it is offered, however little its lines resemble the
  lines of the text to find.\<close>

theorem single_anchor_always_offered:
  assumes "rounding (rnd E)" "3 \<le> length (search_lines p)"
    and "anchor_candidates (split_lines content) (trim (hd (search_lines p))) (trim (last (search_lines p))) = [(s, e)]"
  shows "block_anchor_replacer E content p = [join_lines (take (e - s + 1) (drop s (split_lines content)))]"
proof -
  have "s < e" "e < length (split_lines content)"
    using anchor_candidates_range [of s e "split_lines content"] assms(3) by (metis list.set_intros(1))+
  then have "cut_lines content (split_lines content) s (e - s + 1) = join_lines (take (e - s + 1) (drop s (split_lines content)))"
    by (intro cut_lines_join) auto
  then show ?thesis
    using assms similarity_nonneg [OF assms(1)] length_search_lines [of p]
    by (simp add: block_anchor_replacer_def SINGLE_CANDIDATE_SIMILARITY_THRESHOLD_def Let_def)
qed

theorem single_anchor_always_offered_witness:
  "block_anchor_replacer plain_text_env (join_lines [''if x {'', ''  pay();'', ''}'', ''end'']) (join_lines [''if x {'', ''abc'', ''}''])
     = [join_lines (take 3 (drop 0 [''if x {'', ''  pay();'', ''}'', ''end'']))]"
proof -
  have s: "split_lines (join_lines [''if x {'', ''  pay();'', ''}'', ''end'']) = [''if x {'', ''  pay();'', ''}'', ''end'']"
    "search_lines (join_lines [''if x {'', ''abc'', ''}'']) = [''if x {'', ''abc'', ''}'']" by code_simp+
  have "anchor_candidates [''if x {'', ''  pay();'', ''}'', ''end''] (trim ''if x {'') (trim ''}'') = [(0, 2)]" by code_simp
  then show ?thesis
    using single_anchor_always_offered [of plain_text_env "join_lines [''if x {'', ''abc'', ''}'']"
      "join_lines [''if x {'', ''  pay();'', ''}'', ''end'']" 0 2]
    unfolding s by (simp add: plain_text_env_def rounding_def mono_def)
qed

text \<open>The context anchors stop at the first pair: a block of the right length further down is not seen.\<close>

lemma context_anchor_stops_early:
  "context_aware_replacer plain_text_env (join_lines [''{'', ''a'', ''b'', ''}'', ''{'', ''c'', ''}'']) (join_lines [''{'', ''c'', ''}''])
     = []"
  by code_simp

end
