(* ===== verification/Patch_Print.thy ===== *)
theory Patch_Print
  imports Patch_Text
begin

text \<open>
  The language of patches: \<open>print_patch\<close> writes a list of file changes in the format the tool documents,
  and the parser reads back exactly these changes, as long as no line takes the shape of a marker.
\<close>

subsection \<open>Printing\<close>

datatype patch_line = Context string | Remove string | Insert string

datatype patch_part =
    AddPart string "string list"
  | DeletePart string
  | UpdatePart string "string option" "patch_line list list"

fun print_line :: "patch_line \<Rightarrow> string" where
  "print_line (Context s) = CHR '' '' # s"
| "print_line (Remove s) = CHR ''-'' # s"
| "print_line (Insert s) = CHR ''+'' # s"

fun print_part :: "patch_part \<Rightarrow> string list" where
  "print_part (AddPart p ls) = (''*** Add File: '' @ p) # map (\<lambda>l. CHR ''+'' # l) ls"
| "print_part (DeletePart p) = [''*** Delete File: '' @ p]"
| "print_part (UpdatePart p mv cs) =
     (''*** Update File: '' @ p) #
     (case mv of Some q \<Rightarrow> [''*** Move to: '' @ q] | None \<Rightarrow> []) @
     concat (map (\<lambda>c. ''@@'' # map print_line c) cs)"

definition print_lines :: "patch_part list \<Rightarrow> string list" where
  "print_lines ps = concat (map print_part ps)"

definition print_patch :: "patch_part list \<Rightarrow> string" where
  "print_patch ps = begin_marker @ nl # join_lines (print_lines ps) @ nl # end_marker"

fun old_of :: "patch_line \<Rightarrow> string list" where
  "old_of (Context s) = [s]"
| "old_of (Remove s) = [s]"
| "old_of (Insert s) = []"

fun new_of :: "patch_line \<Rightarrow> string list" where
  "new_of (Context s) = [s]"
| "new_of (Remove s) = []"
| "new_of (Insert s) = [s]"

definition chunk_of :: "patch_line list \<Rightarrow> update_chunk" where
  "chunk_of c = \<lparr>old_lines = concat (map old_of c), new_lines = concat (map new_of c)\<rparr>"

fun hunk_of :: "patch_part \<Rightarrow> hunk" where
  "hunk_of (AddPart p ls) = Add p (join_lines ls)"
| "hunk_of (DeletePart p) = Delete p"
| "hunk_of (UpdatePart p mv cs) = Update p mv (map chunk_of cs)"

subsection \<open>Printable patches\<close>

definition path_ok :: "string \<Rightarrow> bool" where
  "path_ok p \<longleftrightarrow> p \<noteq> [] \<and> trim p = p"

fun line_ok :: "patch_line \<Rightarrow> bool" where
  "line_ok (Context s) = (\<not> star_line (CHR '' '' # s) \<and> \<not> at_line (CHR '' '' # s))"
| "line_ok _ = True"

fun part_ok :: "patch_part \<Rightarrow> bool" where
  "part_ok (AddPart p ls) = path_ok p"
| "part_ok (DeletePart p) = path_ok p"
| "part_ok (UpdatePart p mv cs) =
     (path_ok p \<and> (case mv of Some q \<Rightarrow> path_ok q | None \<Rightarrow> True) \<and> list_all (list_all line_ok) cs)"

text \<open>No line contains a newline or the end marker, and the text does not end in white space.\<close>

definition patch_ok :: "patch_part list \<Rightarrow> bool" where
  "patch_ok ps \<longleftrightarrow>
     ps \<noteq> [] \<and> list_all part_ok ps \<and>
     list_all (\<lambda>l. nl \<notin> set l \<and> \<not> str_contains l end_marker) (print_lines ps) \<and>
     trim_end (join_lines (print_lines ps)) = join_lines (print_lines ps)"

subsection \<open>Trimming stops at an ordinary character\<close>

definition plain_char :: "char \<Rightarrow> bool" where
  "plain_char c \<longleftrightarrow> (\<forall>p \<in> set ws_chars. c \<notin> set p)"

lemma plain_chars [simp]:
  "plain_char (CHR ''*'')" "plain_char (CHR ''+'')" "plain_char (CHR ''-'')" "plain_char (CHR ''@'')"
  "plain_char (CHR '':'')" "plain_char (CHR ''h'')"
  by (simp_all add: plain_char_def ws_chars_code)

lemma strip_any_guard:
  "(\<And>p. p \<in> set ps \<Longrightarrow> c \<notin> set p) \<Longrightarrow>
   strip_any ps (u @ c # v) = map_option (\<lambda>t. t @ c # v) (strip_any ps u)"
proof (induction ps)
  case (Cons p ps)
  have *: "take (length p) (u @ c # v) = p \<longleftrightarrow> length p \<le> length u \<and> take (length p) u = p"
  proof (cases "length p \<le> length u")
    case False
    then obtain k where "length p - length u = Suc k" by (metis Suc_diff_Suc not_le_imp_less)
    then have "c \<in> set (take (length p) (u @ c # v))" using False by simp
    then show ?thesis using Cons.prems [of p] False by (metis list.set_intros(1))
  qed simp
  have **: "take (length p) u = p \<Longrightarrow> length p \<le> length u" by (metis length_take min.cobounded1)
  show ?case using Cons * ** by auto
qed simp

lemma strip_all_guard:
  assumes "\<And>p. p \<in> set ps \<Longrightarrow> c \<notin> set p"
  shows "strip_all ps (u @ c # v) = strip_all ps u @ c # v"
proof (induction u rule: length_induct)
  case (1 u)
  show ?case
  proof (cases "strip_any ps u")
    case None
    then show ?thesis using strip_any_guard [OF assms, of ps u v]
      by (simp add: strip_all.simps [of ps u] strip_all.simps [of ps "u @ c # v"])
  next
    case (Some t)
    then have "length t < length u" by (rule strip_any_shorter)
    with 1 have "strip_all ps (t @ c # v) = strip_all ps t @ c # v" by blast
    then show ?thesis using strip_any_guard [OF assms, of ps u v] Some
      by (simp add: strip_all.simps [of ps u] strip_all.simps [of ps "u @ c # v"])
  qed
qed

lemma trim_end_guard: "plain_char c \<Longrightarrow> trim_end (u @ c # s) = u @ c # trim_end s"
proof -
  assume "plain_char c"
  then have "strip_all (map rev ws_chars) (rev s @ c # rev u) = strip_all (map rev ws_chars) (rev s) @ c # rev u"
    by (intro strip_all_guard) (auto simp: plain_char_def)
  then show ?thesis by (simp add: trim_end_def)
qed

lemma trim_start_guard: "plain_char c \<Longrightarrow> trim_start (c # s) = c # s"
proof -
  assume "plain_char c"
  then have "strip_any ws_chars ([] @ c # s) = map_option (\<lambda>t. t @ c # s) (strip_any ws_chars [])"
    by (intro strip_any_guard) (auto simp: plain_char_def)
  moreover have "strip_any ps [] = None" for ps by (induction ps) auto
  ultimately show ?thesis by (simp add: trim_start_def strip_all_id)
qed

lemma trim_guard: "plain_char c \<Longrightarrow> trim (c # s) = c # trim_end s"
  using trim_end_guard [of c "[]" s] by (simp add: trim_def trim_start_guard)

lemma strip_any_ws:
  "strip_any ws_chars (CHR '' '' # s) = Some s" "strip_any ws_chars (nl # s) = Some s"
  "strip_any (map rev ws_chars) (nl # s) = Some s"
  by (simp_all add: ws_chars_code)

lemma trim_space: "trim (CHR '' '' # s) = trim s"
  using strip_any_ws(1) [of s] by (simp add: trim_def trim_start_def strip_all.simps [of ws_chars "CHR '' '' # s"])

lemma trim_newline: "trim (nl # s) = trim s"
  using strip_any_ws(2) [of s] by (simp add: trim_def trim_start_def strip_all.simps [of ws_chars "nl # s"])

lemma trim_end_newline: "trim_end (s @ [nl]) = trim_end s"
  using strip_any_ws(3) [of "rev s"] by (simp add: trim_end_def strip_all.simps [of _ "nl # rev s"])

lemma strip_any_None: "strip_any ps s = None \<longleftrightarrow> (\<forall>p \<in> set ps. p \<noteq> [] \<longrightarrow> take (length p) s \<noteq> p)"
  by (induction ps) auto

lemma space_starts_no_wide: "CHR '' '' # x \<in> set ws_chars \<Longrightarrow> x = []"
  by (simp add: ws_chars_code)

lemma trim_end_space:
  assumes "path_ok p"
  shows "trim_end (CHR '' '' # p) = CHR '' '' # p"
proof -
  have p: "p \<noteq> []" "trim p = p" using assms by (simp_all add: path_ok_def)
  have "trim_end (trim_end s) = trim_end s" for s by (simp add: trim_end_def strip_all_idem)
  with p(2) have e: "trim_end p = p" by (metis trim_def)
  then have "strip_all (map rev ws_chars) (rev p) = rev p" by (simp add: trim_end_def rev_swap)
  then have n: "strip_any (map rev ws_chars) (rev p) = None" by (metis strip_all_done)
  have "strip_any (map rev ws_chars) (rev p @ [CHR '' '']) = None"
    unfolding strip_any_None
  proof (intro ballI impI notI)
    fix q assume q: "q \<in> set (map rev ws_chars)" "q \<noteq> []" "take (length q) (rev p @ [CHR '' '']) = q"
    have l: "length q \<le> length p \<Longrightarrow> False"
    proof -
      assume "length q \<le> length p"
      then have "take (length q) (rev p) = q" using q(3) by simp
      then show False using n [unfolded strip_any_None] q(1,2) by blast
    qed
    have "length q \<le> length p + 1" using arg_cong [OF q(3), of length] by (simp add: min_def split: if_splits)
    moreover have "\<not> length q \<le> length p" using l by blast
    ultimately have "length q = length p + 1" by linarith
    with q(3) have e: "q = rev p @ [CHR '' '']" by simp
    obtain w where "w \<in> set ws_chars" "q = rev w" using q(1) unfolding set_map by blast
    moreover from this(2) have "w = CHR '' '' # p" unfolding e by (metis rev_eq_Cons_iff rev_rev_ident rev_append rev.simps append_Cons append_Nil)
    ultimately show False using space_starts_no_wide p(1) by blast
  qed
  then show ?thesis by (simp add: trim_end_def strip_all_id)
qed

subsection \<open>Reading lines back\<close>

lemma starts_with_Cons [simp]: "starts_with (a # p) (b # s) \<longleftrightarrow> a = b \<and> starts_with p s"
  by (auto simp: starts_with_def)

lemma strip_prefix_Cons [simp]:
  "strip_prefix (a # p) (b # s) = (if a = b then strip_prefix p s else None)"
  "strip_prefix [] s = Some s" "strip_prefix (a # p) [] = None"
  by (auto simp: strip_prefix_def starts_with_def)

lemma marker_lines [simp]:
  "\<not> star_line (CHR ''+'' # s)" "\<not> star_line (CHR ''-'' # s)" "\<not> at_line (CHR ''+'' # s)" "\<not> at_line (CHR ''-'' # s)"
  "at_line ''@@''" "\<not> star_line ''@@''"
  by (simp_all add: star_line_def at_line_def trim_guard) (simp_all add: trim_end_def strip_all.simps ws_chars_code starts_with_def)

text \<open>A header line keeps its keyword, and its path is found again.\<close>

lemma header_trim:
  "path_ok p \<Longrightarrow> trim (CHR ''*'' # u @ CHR '':'' # CHR '' '' # p) = CHR ''*'' # u @ CHR '':'' # CHR '' '' # p"
  using trim_end_guard [of "CHR '':''" u "CHR '' '' # p"] by (simp add: trim_guard trim_end_space)

lemma header_path: "path_ok p \<Longrightarrow> trim (CHR '' '' # p) = p" "path_ok p \<Longrightarrow> p \<noteq> []"
  by (simp_all add: trim_space path_ok_def)

lemma header_lines:
  assumes "path_ok p"
  shows "trim (''*** Add File: '' @ p) = ''*** Add File: '' @ p"
    "trim (''*** Delete File: '' @ p) = ''*** Delete File: '' @ p"
    "trim (''*** Update File: '' @ p) = ''*** Update File: '' @ p"
    "trim (''*** Move to: '' @ p) = ''*** Move to: '' @ p"
  using header_trim [OF assms, of "''** Add File''"] header_trim [OF assms, of "''** Delete File''"]
    header_trim [OF assms, of "''** Update File''"] header_trim [OF assms, of "''** Move to''"] by simp_all

lemma star_headers:
  assumes "path_ok p"
  shows "star_line (''*** Add File: '' @ p)" "star_line (''*** Delete File: '' @ p)"
    "star_line (''*** Update File: '' @ p)" "star_line (''*** Move to: '' @ p)"
  using header_lines [OF assms] by (simp_all add: star_line_def)

text \<open>Where a hunk ends: at the end of the lines or at a marker.\<close>

definition hunk_end :: "string list \<Rightarrow> bool" where
  "hunk_end ls \<longleftrightarrow> ls = [] \<or> star_line (hd ls)"

lemma hunk_end_print: "list_all part_ok ps \<Longrightarrow> hunk_end (print_lines ps)"
  by (cases ps; cases "hd ps") (auto simp: hunk_end_def print_lines_def star_headers [simplified])

lemma add_lines_print:
  "hunk_end rest \<Longrightarrow>
   add_lines acc (map (\<lambda>l. CHR ''+'' # l) ls @ rest) = (acc @ concat (map (\<lambda>l. l @ [nl]) ls), rest)"
proof (induction ls arbitrary: acc)
  case Nil
  then show ?case by (cases rest) (auto simp: hunk_end_def)
qed simp

lemma concat_lines: "ls \<noteq> [] \<Longrightarrow> concat (map (\<lambda>l. l @ [nl]) ls) = join_lines ls @ [nl]"
proof (induction ls)
  case (Cons l ls)
  then show ?case by (cases "ls = []") (simp_all add: join_with_Cons)
qed simp

lemma drop_last_newline_print: "drop_last_newline (concat (map (\<lambda>l. l @ [nl]) ls)) = join_lines ls"
  by (cases "ls = []") (simp_all add: drop_last_newline_def concat_lines)

definition chunk_end :: "string list \<Rightarrow> bool" where
  "chunk_end ls \<longleftrightarrow> ls = [] \<or> star_line (hd ls) \<or> at_line (hd ls)"

lemma chunk_lines_print:
  "chunk_end rest \<Longrightarrow> list_all line_ok c \<Longrightarrow>
   chunk_lines old new (map print_line c @ rest) =
     (\<lparr>old_lines = old @ concat (map old_of c), new_lines = new @ concat (map new_of c)\<rparr>, rest)"
proof (induction c arbitrary: old new)
  case Nil
  then show ?case by (cases rest) (auto simp: chunk_end_def)
next
  case (Cons l c)
  then show ?case by (cases l) simp_all
qed

lemma chunks_print:
  "hunk_end rest \<Longrightarrow> list_all (list_all line_ok) cs \<Longrightarrow>
   chunks (concat (map (\<lambda>c. ''@@'' # map print_line c) cs) @ rest) = (map chunk_of cs, rest)"
proof (induction cs)
  case Nil
  then show ?case by (cases rest) (auto simp: hunk_end_def)
next
  case (Cons c cs)
  have "chunk_end (concat (map (\<lambda>c. ''@@'' # map print_line c) cs) @ rest)"
    using Cons.prems(1) by (cases cs) (auto simp: chunk_end_def hunk_end_def)
  from chunk_lines_print [OF this, of c "[]" "[]"] Cons show ?case by (simp add: chunk_of_def)
qed

lemma move_line_none: "\<not> starts_with ''*** Move to:'' (trim (hd ls)) \<or> ls = [] \<Longrightarrow> move_line ls = (None, ls)"
  by (cases ls) (auto simp: move_line_def strip_prefix_def)

lemma print_lines_Cons: "print_lines (p # ps) = print_part p @ print_lines ps"
  by (simp add: print_lines_def)

lemma move_line_chunks:
  assumes "hunk_end rest" "\<not> starts_with ''*** Move to:'' (trim (hd rest)) \<or> rest = []"
  shows "move_line (concat (map (\<lambda>c. ''@@'' # map print_line c) cs) @ rest)
       = (None, concat (map (\<lambda>c. ''@@'' # map print_line c) cs) @ rest)"
proof (cases cs)
  case Nil
  then show ?thesis using assms(2) by (simp add: move_line_none)
next
  case (Cons c cs')
  have "trim ''@@'' = ''@@''" by code_simp
  then show ?thesis unfolding Cons by (intro move_line_none) simp
qed

lemma no_move_header:
  "list_all part_ok ps \<Longrightarrow> \<not> starts_with ''*** Move to:'' (trim (hd (print_lines ps))) \<or> print_lines ps = []"
  by (cases ps; cases "hd ps") (auto simp: print_lines_Cons header_lines [simplified] print_lines_def)

lemma parse_add:
  "path_ok p \<Longrightarrow> parse_hunks ((''*** Add File: '' @ p) # ls) =
     (case add_lines [] ls of (contents, left) \<Rightarrow> Add p (drop_last_newline contents) # parse_hunks left)"
  using header_lines(1) [of p] header_path [of p] by (simp add: Let_def)

lemma parse_delete:
  "path_ok p \<Longrightarrow> parse_hunks ((''*** Delete File: '' @ p) # ls) = Delete p # parse_hunks ls"
  using header_lines(2) [of p] header_path [of p] by (simp add: Let_def)

lemma parse_update:
  "path_ok p \<Longrightarrow> parse_hunks ((''*** Update File: '' @ p) # ls) =
     (case move_line ls of (mv, rest) \<Rightarrow> case chunks rest of (cs, left) \<Rightarrow> Update p mv cs # parse_hunks left)"
  using header_lines(3) [of p] header_path [of p] by (simp add: Let_def)

lemma move_line_some:
  "path_ok q \<Longrightarrow> move_line ((''*** Move to: '' @ q) # ls) = (Some q, ls)"
  using header_lines(4) [of q] header_path [of q] by (simp add: move_line_def)

lemma parse_hunks_print: "list_all part_ok ps \<Longrightarrow> parse_hunks (print_lines ps) = map hunk_of ps"
proof (induction ps)
  case (Cons part ps)
  then have ok: "list_all part_ok ps" "part_ok part" and IH: "parse_hunks (print_lines ps) = map hunk_of ps" by simp_all
  note he = hunk_end_print [OF ok(1)] and nm = no_move_header [OF ok(1)]
  show ?case
  proof (cases part)
    case (AddPart p ls)
    with ok(2) have "path_ok p" by simp
    have e: "print_lines (part # ps) = (''*** Add File: '' @ p) # (map (\<lambda>l. CHR ''+'' # l) ls @ print_lines ps)"
      by (simp add: print_lines_Cons AddPart)
    show ?thesis
      unfolding e parse_add [OF \<open>path_ok p\<close>] add_lines_print [OF he]
      by (simp add: drop_last_newline_print IH AddPart)
  next
    case (DeletePart p)
    with ok(2) have "path_ok p" by simp
    have e: "print_lines (part # ps) = (''*** Delete File: '' @ p) # print_lines ps"
      by (simp add: print_lines_Cons DeletePart)
    show ?thesis unfolding e parse_delete [OF \<open>path_ok p\<close>] by (simp add: IH DeletePart)
  next
    case (UpdatePart p mv cs)
    with ok(2) have p: "path_ok p" and cs: "list_all (list_all line_ok) cs" by simp_all
    let ?cs = "concat (map (\<lambda>c. ''@@'' # map print_line c) cs) @ print_lines ps"
    show ?thesis
    proof (cases mv)
      case None
      have e: "print_lines (part # ps) = (''*** Update File: '' @ p) # ?cs"
        by (simp add: print_lines_Cons UpdatePart None)
      show ?thesis
        unfolding e parse_update [OF p] move_line_chunks [OF he nm] prod.case chunks_print [OF he cs]
        by (simp add: IH UpdatePart None)
    next
      case (Some q)
      with ok(2) UpdatePart have q: "path_ok q" by simp
      have e: "print_lines (part # ps) = (''*** Update File: '' @ p) # (''*** Move to: '' @ q) # ?cs"
        by (simp add: print_lines_Cons UpdatePart Some)
      show ?thesis
        unfolding e parse_update [OF p] move_line_some [OF q] prod.case chunks_print [OF he cs]
        by (simp add: IH UpdatePart Some)
    qed
  qed
qed (simp add: print_lines_def)

subsection \<open>The whole text\<close>

lemma find_sub_skip_line:
  assumes "nl \<notin> set p" "p \<noteq> []" "\<not> str_contains l p" "find_sub p rest = Some i"
  shows "find_sub p (l @ nl # rest) = Some (length l + 1 + i)"
  using assms(3)
proof (induction l)
  case Nil
  have "\<not> starts_with p (nl # rest)" using assms(1,2) by (cases p) (auto simp: starts_with_def)
  with assms(4) show ?case by simp
next
  case (Cons c l)
  have "\<not> str_contains l p" using Cons.prems by (auto simp: str_contains_def split: if_splits)
  moreover have "\<not> starts_with p (c # l @ nl # rest)"
  proof
    assume s: "starts_with p (c # l @ nl # rest)"
    show False
    proof (cases "length p \<le> length (c # l)")
      case True
      then have "take (length p) ((c # l) @ nl # rest) = take (length p) (c # l)"
        unfolding take_append by (simp del: append_Cons)
      with s have "starts_with p (c # l)" by (simp add: starts_with_def)
      with Cons.prems show False by (simp add: str_contains_def)
    next
      case False
      then obtain k where k: "length p = length (c # l) + Suc k" by (metis add_Suc_right less_iff_Suc_add not_le)
      have "take (length p) ((c # l) @ nl # rest) = (c # l) @ nl # take k rest" unfolding k by simp
      then have "nl \<in> set (take (length p) ((c # l) @ nl # rest))" by (metis in_set_conv_decomp)
      with s assms(1) show False unfolding starts_with_def append_Cons by simp
    qed
  qed
  ultimately show ?case using Cons.IH by simp
qed

lemma find_sub_after_lines:
  assumes "nl \<notin> set p" "p \<noteq> []" "list_all (\<lambda>l. \<not> str_contains l p) ls" "ls \<noteq> []"
  shows "find_sub p (join_lines ls @ nl # p) = Some (length (join_lines ls) + 1)"
  using assms(3,4)
proof (induction ls)
  case (Cons l ls)
  have e: "find_sub p p = Some 0" using assms(2) by (cases p) (auto simp: starts_with_def)
  show ?case
  proof (cases "ls = []")
    case True
    then show ?thesis using find_sub_skip_line [OF assms(1,2) _ e, of l] Cons.prems by simp
  next
    case False
    with Cons have "find_sub p (join_lines ls @ nl # p) = Some (length (join_lines ls) + 1)" by simp
    with find_sub_skip_line [OF assms(1,2), of l] Cons.prems False show ?thesis by (simp add: join_with_Cons)
  qed
qed simp

lemma print_lines_not_Nil: "ps \<noteq> [] \<Longrightarrow> print_lines ps \<noteq> []"
  by (cases ps; cases "hd ps") (auto simp: print_lines_Cons)

lemma print_lines_star: "ps \<noteq> [] \<Longrightarrow> \<exists>t. join_lines (print_lines ps) = CHR ''*'' # t"
proof -
  assume "ps \<noteq> []"
  then obtain t ls where "print_lines ps = (CHR ''*'' # t) # ls"
    by (cases ps; cases "hd ps") (auto simp: print_lines_Cons)
  then show ?thesis by (cases ls) (auto simp: join_with_Cons)
qed

lemma trim_print_patch: "trim (print_patch ps) = print_patch ps"
proof -
  have "trim (CHR ''*'' # (u @ CHR ''h'' # [])) = CHR ''*'' # (u @ CHR ''h'' # [])" for u
    unfolding trim_guard [OF plain_chars(1)] trim_end_guard [OF plain_chars(6)]
    by (simp add: trim_end_def strip_all_id strip_any_None)
  from this [of "''** Begin Patch'' @ nl # join_lines (print_lines ps) @ nl # ''*** End Patc''"]
  show ?thesis by (simp add: print_patch_def begin_marker_def end_marker_def)
qed

lemma nl_not_in_end: "nl \<notin> set end_marker" "end_marker \<noteq> []"
  by (simp_all add: end_marker_def)

text \<open>C33: Parsing a printed patch gives its hunks: paths, contents and chunks come back unchanged. The patch must be
  printable: it has at least one part; paths are not empty and have no white space at their ends; no line contains
  a newline or the end marker; no context line starts, after white space, with three stars or with the mark of a chunk; and the text
  does not end in white space. Without the conditions on markers and stars the parser loses lines
  (both findings).\<close>

theorem patch_roundtrip:
  assumes "patch_ok ps"
  shows "parse_patch (print_patch ps) = Inr (map hunk_of ps)"
proof -
  let ?ls = "print_lines ps"
  have ps: "ps \<noteq> []" "list_all part_ok ps"
    and ls: "list_all (\<lambda>l. nl \<notin> set l \<and> \<not> str_contains l end_marker) ?ls"
    and te: "trim_end (join_lines ?ls) = join_lines ?ls"
    using assms by (simp_all add: patch_ok_def)
  have b: "find_sub begin_marker (print_patch ps) = Some 0"
    by (auto simp: find_sub_Some print_patch_def)
  have "find_sub end_marker (join_lines (begin_marker # ?ls) @ nl # end_marker) = Some (length (join_lines (begin_marker # ?ls)) + 1)"
  proof (rule find_sub_after_lines [OF nl_not_in_end])
    have "\<not> str_contains begin_marker end_marker" by code_simp
    then show "list_all (\<lambda>l. \<not> str_contains l end_marker) (begin_marker # ?ls)"
      using ls by (auto simp: list_all_iff)
  qed simp
  then have e: "find_sub end_marker (print_patch ps) = Some (length begin_marker + (length (join_lines ?ls) + 2))"
    using print_lines_not_Nil [OF ps(1)] by (simp add: join_with_Cons print_patch_def)
  obtain t where t: "join_lines ?ls = CHR ''*'' # t" using print_lines_star [OF ps(1)] by blast
  have "trim (nl # join_lines ?ls @ [nl]) = trim (join_lines ?ls @ [nl])" by (rule trim_newline)
  also have "\<dots> = CHR ''*'' # trim_end (t @ [nl])" by (simp add: t trim_guard)
  also have "\<dots> = CHR ''*'' # trim_end t" by (simp only: trim_end_newline)
  also have "\<dots> = join_lines ?ls" using te trim_end_guard [of "CHR ''*''" "[]" t] by (simp add: t)
  finally have body: "trim (nl # join_lines ?ls @ [nl]) = join_lines ?ls" .
  have slice: "take (length (join_lines ?ls) + 2) (drop (length begin_marker) (print_patch ps)) = nl # join_lines ?ls @ [nl]"
    by (simp add: print_patch_def)
  have "split_lines (join_lines ?ls) = ?ls"
    using ls print_lines_not_Nil [OF ps(1)] by (intro split_on_join) (auto simp: list_all_iff)
  then show ?thesis
    using b e slice body parse_hunks_print [OF ps(2)]
    by (simp add: parse_patch_def Let_def trim_print_patch del: Nat.add_Suc_right add_Suc)
qed

definition sample_patch :: "patch_part list" where
  "sample_patch =
     [AddPart ''src/new.rs'' [''fn main() {}'', '''', ''// *** done''],
      UpdatePart ''a.rs'' (Some ''b.rs'') [[Context ''  x'', Remove ''y'', Insert ''z''], [Insert ''@@ w'']],
      DeletePart ''old dir/c.rs'']"

theorem patch_roundtrip_witness: "parse_patch (print_patch sample_patch) = Inr (map hunk_of sample_patch)"
  by (rule patch_roundtrip) code_simp

text \<open>Outside these conditions the parser silently drops text. A line of a file that quotes the end
  marker cuts the patch short; a context line that begins with three stars or two at signs ends its
  hunk, and the lines after it are ignored.\<close>

lemma quoted_end_marker_truncates:
  "parse_patch (print_patch [AddPart ''doc'' [''a'', ''*** End Patch'', ''b''], DeletePart ''x''])
     = Inr [Add ''doc'' (''a'' @ [nl])]"
  by code_simp

lemma starred_context_ends_hunk:
  "parse_patch (print_patch [UpdatePart ''doc'' None [[Context ''a'', Context ''*** note'', Remove ''b'', Insert ''c'']]])
     = Inr [Update ''doc'' None [\<lparr>old_lines = [''a''], new_lines = [''a'']\<rparr>]]"
  by code_simp

end
