(* ===== verification/File_Tools.thy ===== *)
theory File_Tools
  imports Tool_Path Patch_Print Json_Value
begin

text \<open>
  The tools of \<open>agent/tool/tool-basic/src/file\<close> that read and change files: \<open>read_file.rs\<close>,
  \<open>write_file.rs\<close>, \<open>edit_file.rs\<close>, \<open>multiedit.rs\<close>, \<open>apply_patch.rs\<close>, \<open>create_dir.rs\<close>, \<open>delete_file.rs\<close>
  and \<open>move_file.rs\<close>. A call takes the JSON arguments of the model and the file system, and returns the
  file system and what the model is told; a panic is a result of its own.
\<close>

subsection \<open>Arguments and results\<close>

datatype tool_content = Text string | Diff string "string option" string

datatype tool_res = Done tool_content | Failed file_error | Panicked

record tool_cfg =
  working_folder :: path
  allow_outside :: bool
  edit_env :: text_env

fun as_bool :: "json \<Rightarrow> bool option" where
  "as_bool (JBool b) = Some b"
| "as_bool _ = None"

fun as_array :: "json \<Rightarrow> json list option" where
  "as_array (JArr vs) = Some vs"
| "as_array _ = None"

fun as_u64 :: "json \<Rightarrow> nat option" where
  "as_u64 (JNum (JInt i)) = (if 0 \<le> i \<and> i < 2 ^ 64 then Some (nat i) else None)"
| "as_u64 _ = None"

definition arg_str :: "json \<Rightarrow> string \<Rightarrow> string option" where
  "arg_str args k = Option.bind (json_get args k) as_str"

definition arg_bool :: "json \<Rightarrow> string \<Rightarrow> bool \<Rightarrow> bool" where
  "arg_bool args k default_value =
     (case Option.bind (json_get args k) as_bool of Some b \<Rightarrow> b | None \<Rightarrow> default_value)"

definition arg_u64 :: "json \<Rightarrow> string \<Rightarrow> nat \<Rightarrow> nat" where
  "arg_u64 args k default_value =
     (case Option.bind (json_get args k) as_u64 of Some n \<Rightarrow> n | None \<Rightarrow> default_value)"

definition resolve :: "tool_cfg \<Rightarrow> fs \<Rightarrow> string \<Rightarrow> file_error + path" where
  "resolve cfg fs path_param = resolve_path fs (working_folder cfg) path_param (allow_outside cfg)"

text \<open>The parent directories of a file about to be written.\<close>

definition ensure_parent :: "fs \<Rightarrow> path \<Rightarrow> fs \<times> bool" where
  "ensure_parent fs p =
     (if p = [] \<or> path_exists fs (butlast p) then (fs, True) else create_dir_all fs (butlast p))"

subsection \<open>Read\<close>

definition DEFAULT_READ_LIMIT :: nat where
  "DEFAULT_READ_LIMIT = 2000"

definition MAX_LINE_LENGTH :: nat where
  "MAX_LINE_LENGTH = 2000"

text \<open>\<open>truncate\<close> of \<open>anureo-util/src/text/truncate.rs\<close>: the longest prefix of at most \<open>max_bytes\<close> bytes
  that ends on a character boundary.\<close>

definition truncate_str :: "string \<Rightarrow> nat \<Rightarrow> string" where
  "truncate_str s max_bytes = (if length s \<le> max_bytes then s else take (floor_char_boundary s max_bytes) s)"

definition read_line :: "nat \<Rightarrow> string \<Rightarrow> string" where
  "read_line line_num line =
     ''  '' @ show_nat line_num @ [CHR 0x09] @
     (if length line > MAX_LINE_LENGTH then truncate_str line MAX_LINE_LENGTH @ ''...'' else line) @ [nl]"

definition read_lines :: "string \<Rightarrow> nat \<Rightarrow> nat \<Rightarrow> string option" where
  "read_lines content offset limit =
     (let lines = split_lines content; total_lines = length lines; start = min offset total_lines
      in if start + limit \<ge> 2 ^ 64 then None
         else let end = min (start + limit) total_lines
           in Some (concat (map (\<lambda>i. read_line (i + 1) (lines ! i)) [start..<end])))"

definition read_file_call :: "tool_cfg \<Rightarrow> json \<Rightarrow> fs \<Rightarrow> tool_res" where
  "read_file_call cfg args fs =
     (case arg_str args ''path'' of
        None \<Rightarrow> Failed InvalidInput
      | Some path_param \<Rightarrow>
          (case resolve cfg fs path_param of
             Inl e \<Rightarrow> Failed e
           | Inr p \<Rightarrow>
               if \<not> path_exists fs p then Failed InvalidInput
               else if is_dir fs p then Failed InvalidInput
               else (case read_to_string fs p of
                   None \<Rightarrow> Failed Transport
                 | Some content \<Rightarrow>
                     (case read_lines content (arg_u64 args ''offset'' 0) (arg_u64 args ''limit'' DEFAULT_READ_LIMIT) of
                        None \<Rightarrow> Panicked
                      | Some out \<Rightarrow> Done (Text out)))))"

subsection \<open>Write, create, delete, move\<close>

definition write_file_call :: "tool_cfg \<Rightarrow> json \<Rightarrow> fs \<Rightarrow> fs \<times> tool_res" where
  "write_file_call cfg args fs =
     (case (arg_str args ''path'', arg_str args ''content'') of
        (Some path_param, Some content) \<Rightarrow>
          (case resolve cfg fs path_param of
             Inl e \<Rightarrow> (fs, Failed e)
           | Inr p \<Rightarrow>
               (case ensure_parent fs p of
                  (fs1, False) \<Rightarrow> (fs1, Failed Transport)
                | (fs1, True) \<Rightarrow>
                    let old_content = (if path_exists fs1 p then read_to_string fs1 p else None)
                    in case (if arg_bool args ''append'' False then fs_append fs1 p content else fs_write fs1 p content) of
                         None \<Rightarrow> (fs1, Failed Transport)
                       | Some fs2 \<Rightarrow> (fs2, Done (Diff path_param old_content content))))
      | _ \<Rightarrow> (fs, Failed InvalidInput))"

definition create_dir_call :: "tool_cfg \<Rightarrow> json \<Rightarrow> fs \<Rightarrow> fs \<times> tool_res" where
  "create_dir_call cfg args fs =
     (case arg_str args ''path'' of
        None \<Rightarrow> (fs, Failed InvalidInput)
      | Some path_param \<Rightarrow>
          (case resolve cfg fs path_param of
             Inl e \<Rightarrow> (fs, Failed e)
           | Inr p \<Rightarrow>
               if path_exists fs p
               then (fs, if is_dir fs p \<and> arg_bool args ''exist_ok'' True then Done (Text ''ok'') else Failed InvalidInput)
               else (case create_dir_all fs p of
                   (fs1, ok) \<Rightarrow> (fs1, if ok then Done (Text ''ok'') else Failed Transport))))"

definition delete_file_call :: "tool_cfg \<Rightarrow> json \<Rightarrow> fs \<Rightarrow> fs \<times> tool_res" where
  "delete_file_call cfg args fs =
     (case arg_str args ''path'' of
        None \<Rightarrow> (fs, Failed InvalidInput)
      | Some path_param \<Rightarrow>
          (case resolve cfg fs path_param of
             Inl e \<Rightarrow> (fs, Failed e)
           | Inr p \<Rightarrow>
               if \<not> path_exists fs p then (fs, Failed InvalidInput)
               else if is_dir fs p then
                 (if arg_bool args ''recursive'' False
                  then (case remove_dir_all fs p of None \<Rightarrow> (fs, Failed Transport) | Some fs1 \<Rightarrow> (fs1, Done (Text ''ok'')))
                  else (case remove_dir fs p of
                      Inl not_empty \<Rightarrow> (fs, Failed (if not_empty then InvalidInput else Transport))
                    | Inr fs1 \<Rightarrow> (fs1, Done (Text ''ok''))))
               else (case remove_file fs p of None \<Rightarrow> (fs, Failed Transport) | Some fs1 \<Rightarrow> (fs1, Done (Text ''ok'')))))"

definition move_file_call :: "tool_cfg \<Rightarrow> json \<Rightarrow> fs \<Rightarrow> fs \<times> tool_res" where
  "move_file_call cfg args fs =
     (case (arg_str args ''source'', arg_str args ''target'') of
        (Some source_param, Some target_param) \<Rightarrow>
          (case resolve cfg fs source_param of
             Inl e \<Rightarrow> (fs, Failed e)
           | Inr source \<Rightarrow>
               (case resolve cfg fs target_param of
                  Inl e \<Rightarrow> (fs, Failed e)
                | Inr target \<Rightarrow>
                    if \<not> path_exists fs source then (fs, Failed InvalidInput)
                    else (case rename fs source target of
                        None \<Rightarrow> (fs, Failed Transport)
                      | Some fs1 \<Rightarrow> (fs1, Done (Text ''ok'')))))
      | _ \<Rightarrow> (fs, Failed InvalidInput))"

subsection \<open>Edit\<close>

definition edit_file_call :: "tool_cfg \<Rightarrow> json \<Rightarrow> fs \<Rightarrow> fs \<times> tool_res" where
  "edit_file_call cfg args fs =
     (case (arg_str args ''path'', arg_str args ''oldString'', arg_str args ''newString'') of
        (Some path_param, Some old_string, Some new_string) \<Rightarrow>
          (case resolve cfg fs path_param of
             Inl e \<Rightarrow> (fs, Failed e)
           | Inr p \<Rightarrow>
               if old_string = new_string then (fs, Done (Diff path_param None []))
               else if old_string = [] then
                 (case ensure_parent fs p of
                    (fs1, False) \<Rightarrow> (fs1, Failed Transport)
                  | (fs1, True) \<Rightarrow>
                      (case fs_write fs1 p new_string of
                         None \<Rightarrow> (fs1, Failed Transport)
                       | Some fs2 \<Rightarrow> (fs2, Done (Diff path_param None new_string))))
               else if \<not> path_exists fs p then (fs, Failed InvalidInput)
               else if is_dir fs p then (fs, Failed InvalidInput)
               else (case read_to_string fs p of
                   None \<Rightarrow> (fs, Failed Transport)
                 | Some content \<Rightarrow>
                     (case replace (edit_env cfg) content old_string new_string (arg_bool args ''replaceAll'' False) of
                        EditPanic \<Rightarrow> (fs, Panicked)
                      | EditErr e \<Rightarrow> (fs, Failed InvalidInput)
                      | EditOk new_content \<Rightarrow>
                          (case fs_write fs p new_content of
                             None \<Rightarrow> (fs, Failed Transport)
                           | Some fs1 \<Rightarrow> (fs1, Done (Diff path_param (Some content) new_content))))))
      | _ \<Rightarrow> (fs, Failed InvalidInput))"

text \<open>The edits of one \<open>multiedit\<close> call, applied to the text in memory.\<close>

definition edit_field :: "(string \<times> json) list \<Rightarrow> string \<Rightarrow> string" where
  "edit_field obj k = (case Option.bind (map_of obj k) as_str of Some s \<Rightarrow> s | None \<Rightarrow> [])"

fun run_edits :: "text_env \<Rightarrow> string \<Rightarrow> json list \<Rightarrow> edit_result" where
  "run_edits E content [] = EditOk content"
| "run_edits E content (ed # eds) =
     (case as_object ed of
        None \<Rightarrow> EditErr ''each edit must be an object''
      | Some obj \<Rightarrow>
          let old_s = edit_field obj ''oldString''; new_s = edit_field obj ''newString'';
              replace_all = (case Option.bind (map_of obj ''replaceAll'') as_bool of Some b \<Rightarrow> b | None \<Rightarrow> False)
          in if old_s = new_s then EditErr ''oldString and newString must differ''
             else (case replace E content old_s new_s replace_all of
                 EditOk c \<Rightarrow> run_edits E c eds
               | EditErr e \<Rightarrow> EditErr e
               | EditPanic \<Rightarrow> EditPanic))"

definition finish_edits :: "fs \<Rightarrow> path \<Rightarrow> edit_result \<Rightarrow> string \<Rightarrow> fs \<times> tool_res" where
  "finish_edits fs p r message =
     (case r of
        EditPanic \<Rightarrow> (fs, Panicked)
      | EditErr e \<Rightarrow> (fs, Failed InvalidInput)
      | EditOk content \<Rightarrow>
          (case fs_write fs p content of None \<Rightarrow> (fs, Failed Transport) | Some fs1 \<Rightarrow> (fs1, Done (Text message))))"

definition multiedit_call :: "tool_cfg \<Rightarrow> json \<Rightarrow> fs \<Rightarrow> fs \<times> tool_res" where
  "multiedit_call cfg args fs =
     (case arg_str args ''path'' of
        None \<Rightarrow> (fs, Failed InvalidInput)
      | Some path_param \<Rightarrow>
          (case resolve cfg fs path_param of
             Inl e \<Rightarrow> (fs, Failed e)
           | Inr p \<Rightarrow>
               (case Option.bind (json_get args ''edits'') as_array of
                  None \<Rightarrow> (fs, Failed InvalidInput)
                | Some [] \<Rightarrow> (fs, Failed InvalidInput)
                | Some (first # rest) \<Rightarrow>
                    if path_exists fs p \<and> \<not> is_dir fs p then
                      (case read_to_string fs p of
                         None \<Rightarrow> (fs, Failed Transport)
                       | Some content \<Rightarrow>
                           finish_edits fs p (run_edits (edit_env cfg) content (first # rest))
                             (''Applied '' @ show_nat (length (first # rest)) @ '' edit(s) successfully.''))
                    else if is_dir fs p then (fs, Failed InvalidInput)
                    else (case as_object first of
                        None \<Rightarrow> (fs, Failed InvalidInput)
                      | Some obj \<Rightarrow>
                          if edit_field obj ''oldString'' \<noteq> [] then (fs, Failed InvalidInput)
                          else (case ensure_parent fs p of
                              (fs1, False) \<Rightarrow> (fs1, Failed Transport)
                            | (fs1, True) \<Rightarrow>
                                finish_edits fs1 p (run_edits (edit_env cfg) (edit_field obj ''newString'') rest)
                                  (''Created file with '' @ show_nat (length (first # rest)) @ '' edit(s).''))))))"

subsection \<open>Apply a patch\<close>

fun apply_chunks :: "text_env \<Rightarrow> string \<Rightarrow> update_chunk list \<Rightarrow> edit_result" where
  "apply_chunks E content [] = EditOk content"
| "apply_chunks E content (c # cs) =
     (let old_s = join_lines (old_lines c); new_s = join_lines (new_lines c) in
      if old_s = [] then apply_chunks E (if new_s = [] then content else content @ [nl] @ new_s) cs
      else (case replace E content old_s new_s False of
          EditOk r \<Rightarrow> apply_chunks E r cs
        | EditErr e \<Rightarrow> EditErr e
        | EditPanic \<Rightarrow> EditPanic))"

text \<open>One hunk: the file system after it, and either an early return or whether the hunk counts as
  applied.\<close>

definition apply_move :: "tool_cfg \<Rightarrow> fs \<Rightarrow> path \<Rightarrow> string option \<Rightarrow> fs \<times> (tool_res + bool)" where
  "apply_move cfg fs p move_path =
     (case move_path of
        None \<Rightarrow> (fs, Inr True)
      | Some move_to \<Rightarrow>
          (case resolve cfg fs move_to of
             Inl e \<Rightarrow> (fs, Inl (Failed e))
           | Inr dest \<Rightarrow>
               (case ensure_parent fs dest of
                  (fs1, False) \<Rightarrow> (fs1, Inl (Failed Transport))
                | (fs1, True) \<Rightarrow>
                    (case rename fs1 p dest of
                       None \<Rightarrow> (fs1, Inl (Failed Transport))
                     | Some fs2 \<Rightarrow> (fs2, Inr True)))))"

fun apply_hunk :: "tool_cfg \<Rightarrow> fs \<Rightarrow> hunk \<Rightarrow> fs \<times> (tool_res + bool)" where
  "apply_hunk cfg fs (Add path contents) =
     (case resolve cfg fs path of
        Inl e \<Rightarrow> (fs, Inl (Failed e))
      | Inr p \<Rightarrow>
          (case ensure_parent fs p of
             (fs1, False) \<Rightarrow> (fs1, Inl (Failed Transport))
           | (fs1, True) \<Rightarrow>
               (case fs_write fs1 p contents of
                  None \<Rightarrow> (fs1, Inl (Failed Transport))
                | Some fs2 \<Rightarrow> (fs2, Inr True))))"
| "apply_hunk cfg fs (Delete path) =
     (case resolve cfg fs path of
        Inl e \<Rightarrow> (fs, Inl (Failed e))
      | Inr p \<Rightarrow>
          if \<not> path_exists fs p then (fs, Inr False)
          else (case (if is_dir fs p then remove_dir_all fs p else remove_file fs p) of
              None \<Rightarrow> (fs, Inl (Failed Transport))
            | Some fs1 \<Rightarrow> (fs1, Inr True)))"
| "apply_hunk cfg fs (Update path move_path cs) =
     (case resolve cfg fs path of
        Inl e \<Rightarrow> (fs, Inl (Failed e))
      | Inr p \<Rightarrow>
          if \<not> path_exists fs p \<or> is_dir fs p then (fs, Inl (Failed InvalidInput))
          else (case read_to_string fs p of
              None \<Rightarrow> (fs, Inl (Failed Transport))
            | Some content \<Rightarrow>
                (case apply_chunks (edit_env cfg) content cs of
                   EditPanic \<Rightarrow> (fs, Inl Panicked)
                 | EditErr e \<Rightarrow> (fs, Inl (Failed InvalidInput))
                 | EditOk new_content \<Rightarrow>
                     (case fs_write fs p new_content of
                        None \<Rightarrow> (fs, Inl (Failed Transport))
                      | Some fs1 \<Rightarrow> apply_move cfg fs1 p move_path))))"

fun apply_hunks :: "tool_cfg \<Rightarrow> fs \<Rightarrow> nat \<Rightarrow> hunk list \<Rightarrow> fs \<times> tool_res" where
  "apply_hunks cfg fs applied [] =
     (fs, Done (Text (''Applied '' @ show_nat applied @ '' hunk(s) successfully.'')))"
| "apply_hunks cfg fs applied (h # hs) =
     (case apply_hunk cfg fs h of
        (fs1, Inl r) \<Rightarrow> (fs1, r)
      | (fs1, Inr counts) \<Rightarrow> apply_hunks cfg fs1 (if counts then applied + 1 else applied) hs)"

definition apply_patch_call :: "tool_cfg \<Rightarrow> json \<Rightarrow> fs \<Rightarrow> fs \<times> tool_res" where
  "apply_patch_call cfg args fs =
     (case arg_str args ''patchText'' of
        None \<Rightarrow> (fs, Failed InvalidInput)
      | Some patch_text \<Rightarrow>
          (case parse_patch patch_text of
             Inl e \<Rightarrow> (fs, Failed InvalidInput)
           | Inr [] \<Rightarrow> (fs, Failed InvalidInput)
           | Inr (h # hs) \<Rightarrow> apply_hunks cfg fs 0 (h # hs)))"

subsection \<open>A call of any tool\<close>

datatype file_tool =
  ReadFile | WriteFile | EditFile | MultiEdit | ApplyPatch | CreateDir | DeleteFile | MoveFile

fun call_tool :: "tool_cfg \<Rightarrow> file_tool \<Rightarrow> json \<Rightarrow> fs \<Rightarrow> fs \<times> tool_res" where
  "call_tool cfg ReadFile args fs = (fs, read_file_call cfg args fs)"
| "call_tool cfg WriteFile args fs = write_file_call cfg args fs"
| "call_tool cfg EditFile args fs = edit_file_call cfg args fs"
| "call_tool cfg MultiEdit args fs = multiedit_call cfg args fs"
| "call_tool cfg ApplyPatch args fs = apply_patch_call cfg args fs"
| "call_tool cfg CreateDir args fs = create_dir_call cfg args fs"
| "call_tool cfg DeleteFile args fs = delete_file_call cfg args fs"
| "call_tool cfg MoveFile args fs = move_file_call cfg args fs"

fun call_tools :: "tool_cfg \<Rightarrow> (file_tool \<times> json) list \<Rightarrow> fs \<Rightarrow> fs" where
  "call_tools cfg [] fs = fs"
| "call_tools cfg ((t, args) # calls) fs = call_tools cfg calls (fst (call_tool cfg t args fs))"

end
