(* ===== verification/File_Tools_Facts.thy ===== *)
theory File_Tools_Facts
  imports File_Tools
begin

text \<open>
  What the file tools guarantee: without links below the working folder nothing outside it is ever
  changed, whatever the model asks for; an edit that fails leaves every file as it was; an edit that
  succeeds writes exactly the edited text. And what they do not guarantee.
\<close>

subsection \<open>Only the working folder changes\<close>

definition same_outside :: "fs \<Rightarrow> path \<Rightarrow> fs \<Rightarrow> bool" where
  "same_outside fs base fs' \<longleftrightarrow> (\<forall>q. \<not> path_starts_with q base \<longrightarrow> look fs' q = look fs q)"

text \<open>The working folder: reached without links, still there or deleted, and free of links.\<close>

definition sandbox :: "fs \<Rightarrow> path \<Rightarrow> bool" where
  "sandbox fs base \<longleftrightarrow> no_links_under fs base \<and> dirs_above fs base \<and> look fs base \<in> {None, Some Dir}"

definition safe_step :: "fs \<Rightarrow> path \<Rightarrow> fs \<Rightarrow> bool" where
  "safe_step fs base fs' \<longleftrightarrow> same_outside fs base fs' \<and> sandbox fs' base"

lemma same_outside_refl [simp]: "same_outside fs base fs"
  by (simp add: same_outside_def)

lemma same_outside_trans: "same_outside a base b \<Longrightarrow> same_outside b base c \<Longrightarrow> same_outside a base c"
  by (simp add: same_outside_def)

lemma safe_step_refl [simp]: "sandbox fs base \<Longrightarrow> safe_step fs base fs"
  by (simp add: safe_step_def)

lemma safe_step_trans: "safe_step a base b \<Longrightarrow> safe_step b base c \<Longrightarrow> safe_step a base c"
  using same_outside_trans by (auto simp: safe_step_def)

lemma safe_step_sandbox: "safe_step fs base fs' \<Longrightarrow> sandbox fs' base"
  by (simp add: safe_step_def)

text \<open>A change below the folder keeps the directories above it.\<close>

lemma take_not_under: "k < length base \<Longrightarrow> \<not> path_starts_with (take k base) base"
  by (simp add: path_starts_with_def)

lemma dirs_above_same: "same_outside fs base fs' \<Longrightarrow> dirs_above fs base \<Longrightarrow> dirs_above fs' base"
  by (simp add: dirs_above_def same_outside_def take_not_under)

lemma look_update: "look (AList.update p i fs) q = (if q = p \<and> q \<noteq> [] then Some i else look fs q)"
  by (auto simp: look_def update_conv')

lemma look_delete: "look (AList.delete p fs) q = (if q = p \<and> q \<noteq> [] then None else look fs q)"
  by (auto simp: look_def delete_conv')

lemma no_links_update: "no_links_under fs base \<Longrightarrow> \<not> is_link (Some i) \<Longrightarrow> no_links_under (AList.update p i fs) base"
  using set_update_subset [of p i fs] by (fastforce simp: no_links_under_def)

lemma no_links_subset: "no_links_under fs base \<Longrightarrow> set fs' \<subseteq> set fs \<Longrightarrow> no_links_under fs' base"
  by (auto simp: no_links_under_def)

lemma safe_update:
  assumes "sandbox fs base" "path_starts_with p base" "\<not> is_link (Some i)" "p = base \<Longrightarrow> i = Dir"
  shows "safe_step fs base (AList.update p i fs)"
proof -
  have so: "same_outside fs base (AList.update p i fs)" using assms(2) by (auto simp: same_outside_def look_update)
  moreover have "look (AList.update p i fs) base \<in> {None, Some Dir}"
    using assms(1,4) by (auto simp: sandbox_def look_update)
  ultimately show ?thesis using assms dirs_above_same [OF so] no_links_update
    by (auto simp: safe_step_def sandbox_def)
qed

subsection \<open>The steps the tools are made of\<close>

text \<open>Where a resolved path lies: below the folder, or a missing name in a directory that resolves to
  below the folder.\<close>

definition inside :: "fs \<Rightarrow> path \<Rightarrow> path \<Rightarrow> bool" where
  "inside fs base p \<longleftrightarrow> path_starts_with p base \<or>
     p \<noteq> [] \<and> \<not> path_exists fs p \<and> (\<exists>c. canonicalize fs (butlast p) = Some c \<and> path_starts_with c base)"

lemma sandbox_dir: "sandbox fs base \<Longrightarrow> canonicalize fs base = Some b \<Longrightarrow> b = base \<and> look fs base = Some Dir"
proof -
  assume s: "sandbox fs base" and c: "canonicalize fs base = Some b"
  show ?thesis
  proof (cases "look fs base = Some Dir")
    case True
    then show ?thesis using s c canonicalize_same [of fs base] by (simp add: sandbox_def is_link_def)
  next
    case False
    then have n: "look fs base = None" using s by (simp add: sandbox_def)
    then have "base \<noteq> []" by (metis look_Nil option.distinct(1))
    then obtain u x where u: "base = u @ [x]" by (metis append_butlast_last_id)
    then have "walk fs False MAX_LINKS [] (map Name base) = walk fs False MAX_LINKS u [Name x]"
      using s walk_dirs [of fs "[]" u False MAX_LINKS "[Name x]"] by (simp add: sandbox_def)
    then show ?thesis using c n u by (simp add: canonicalize_def)
  qed
qed

lemma resolve_inside:
  assumes "resolve cfg fs path_param = Inr p" "\<not> allow_outside cfg" "sandbox fs (working_folder cfg)"
  shows "look fs (working_folder cfg) = Some Dir \<and> inside fs (working_folder cfg) p"
proof -
  let ?base = "working_folder cfg"
  obtain b where b: "canonicalize fs ?base = Some b"
    using assms(1) by (auto simp: resolve_def resolve_path_def split: option.splits)
  with sandbox_dir [OF assms(3)] have base: "b = ?base" "look fs ?base = Some Dir" by auto
  with assms(1,2) b obtain n where n: "under_base fs ?base n" "canonical_or_normal fs n = Inr p"
    by (auto simp: resolve_def resolve_path_def Let_def split: if_splits)
  have nl: "no_links_under fs ?base" and da: "dirs_above fs ?base" using assms(3) by (auto simp: sandbox_def)
  have "inside fs ?base p"
  proof (cases "canonicalize fs n")
    case (Some c)
    then have p: "p = c" using n(2) by (simp add: canonical_or_normal_def path_exists_def)
    have "path_starts_with c ?base"
      using canonical_or_normal_confined [OF n(1) nl da base(2) n(2)] canonicalize_idem [OF Some] p
      unfolding confined_def canonicalize_def by blast
    then show ?thesis by (simp add: inside_def p)
  next
    case None
    then have "p = n" using n(2) by (simp add: canonical_or_normal_def path_exists_def)
    then show ?thesis using n(1) None
      by (auto simp: inside_def under_base_def path_exists_def split: if_splits option.splits)
  qed
  with base show ?thesis by blast
qed

text \<open>The location of an inside path.\<close>

lemma inside_location:
  assumes "inside fs base p" "sandbox fs base" "look fs base = Some Dir"
    and "walk fs create MAX_LINKS [] (map Name p) = Some q"
  shows "path_starts_with q base"
proof (cases "path_starts_with p base")
  case True
  then obtain s where "p = base @ s" using path_starts_with_iff by blast
  then show ?thesis using walk_below [of fs base create MAX_LINKS s q] assms by (simp add: sandbox_def)
next
  case False
  then obtain c where "p \<noteq> []" "canonicalize fs (butlast p) = Some c" "path_starts_with c base"
    using assms(1) by (auto simp: inside_def)
  then have "confined fs base p" using confined_new [of fs base "butlast p" c "last p"] assms(2) by (simp add: sandbox_def)
  then show ?thesis using assms(4) by (auto simp: confined_def)
qed

lemma fs_write_safe:
  assumes "inside fs base p" "sandbox fs base" "look fs base = Some Dir" "fs_write fs p c = Some fs'"
  shows "safe_step fs base fs'"
proof -
  obtain q where q: "open_location fs p = Some q" "fs' = AList.update q (File c) fs"
    using assms(4) by (auto simp: fs_write_def split: option.splits)
  then have w: "walk fs True MAX_LINKS [] (map Name p) = Some q" "look fs q \<noteq> Some Dir"
    by (auto simp: open_location_def split: option.splits if_splits)
  with inside_location [OF assms(1-3) w(1)] assms(2,3) show ?thesis unfolding q(2)
    by (intro safe_update) (auto simp: is_link_def)
qed

lemma fs_append_is_write: "fs_append fs p c = Some fs' \<Longrightarrow> \<exists>c'. fs_write fs p c' = Some fs'"
  by (auto simp: fs_append_def fs_write_def split: option.splits)

lemma remove_file_safe:
  "path_starts_with p base \<Longrightarrow> sandbox fs base \<Longrightarrow> remove_file fs p = Some fs' \<Longrightarrow> safe_step fs base fs'"
proof -
  assume p: "path_starts_with p base" and s: "sandbox fs base" and r: "remove_file fs p = Some fs'"
  then have fs': "fs' = AList.delete p fs" by (auto simp: remove_file_def split: option.splits inode.splits)
  have so: "same_outside fs base fs'" using p by (auto simp: fs' same_outside_def look_delete)
  moreover have "no_links_under fs' base"
    using s no_links_subset [of fs base fs'] by (auto simp: fs' sandbox_def AList.delete_eq)
  ultimately show ?thesis using s dirs_above_same [OF so] by (auto simp: safe_step_def sandbox_def fs' look_delete)
qed

lemma map_of_filter_keys: "map_of (filter (\<lambda>(q, i). P q) fs) q = (if P q then map_of fs q else None)"
  by (induction fs) auto

lemma remove_dir_all_safe:
  "path_starts_with p base \<Longrightarrow> sandbox fs base \<Longrightarrow> remove_dir_all fs p = Some fs' \<Longrightarrow> safe_step fs base fs'"
proof -
  assume p: "path_starts_with p base" and s: "sandbox fs base" and r: "remove_dir_all fs p = Some fs'"
  then have fs': "fs' = filter (\<lambda>(q, i). \<not> path_starts_with q p) fs" by (simp add: remove_dir_all_def split: if_splits)
  have l: "look fs' q = (if q \<noteq> [] \<and> path_starts_with q p then None else look fs q)" for q
    using map_of_filter_keys [of "\<lambda>q. \<not> path_starts_with q p" fs q] by (simp add: fs' look_def)
  have so: "same_outside fs base fs'" using p by (auto simp: same_outside_def l path_starts_with_iff)
  moreover have "no_links_under fs' base" using s no_links_subset [of fs base fs'] by (auto simp: fs' sandbox_def)
  ultimately show ?thesis using s dirs_above_same [OF so] by (auto simp: safe_step_def sandbox_def l)
qed

lemma remove_dir_safe:
  "path_starts_with p base \<Longrightarrow> sandbox fs base \<Longrightarrow> remove_dir fs p = Inr fs' \<Longrightarrow> safe_step fs base fs'"
proof -
  assume p: "path_starts_with p base" and s: "sandbox fs base" and r: "remove_dir fs p = Inr fs'"
  then have fs': "fs' = AList.delete p fs" by (auto simp: remove_dir_def split: if_splits)
  have so: "same_outside fs base fs'" using p by (auto simp: fs' same_outside_def look_delete)
  moreover have "no_links_under fs' base"
    using s no_links_subset [of fs base fs'] by (auto simp: fs' sandbox_def AList.delete_eq)
  ultimately show ?thesis using s dirs_above_same [OF so] by (auto simp: safe_step_def sandbox_def fs' look_delete)
qed

text \<open>Directories are only created below the folder.\<close>

lemma canonicalize_below:
  assumes "sandbox fs base" "look fs base = Some Dir" "canonicalize fs (base @ s) = Some d"
  shows "d = base @ s"
  using assms walk_below unfolding sandbox_def canonicalize_def by blast

lemma is_dir_dirs_above: "dirs_above fs p \<Longrightarrow> k \<le> length p \<Longrightarrow> look fs p = Some Dir \<Longrightarrow> is_dir fs (take k p)"
proof -
  assume d: "dirs_above fs p" "k \<le> length p" "look fs p = Some Dir"
  then have "dirs_above fs (take k p)" "look fs (take k p) = Some Dir"
    by (auto simp: dirs_above_def min_def) (metis le_neq_implies_less take_all)
  then show ?thesis using canonicalize_same [of fs "take k p"] by (simp add: is_dir_def is_link_def)
qed

lemma mkdirs_below:
  "sandbox fs base \<Longrightarrow> look fs base = Some Dir \<Longrightarrow> up @ xs = base @ s \<or> base = up @ xs @ s \<Longrightarrow>
   mkdirs fs up xs = (fs', ok) \<Longrightarrow> safe_step fs base fs' \<and> look fs' base = Some Dir"
proof (induction fs up xs arbitrary: s rule: mkdirs.induct)
  case (2 fs up x xs)
  show ?case
  proof (cases "is_dir fs (up @ [x])")
    case True
    with 2 show ?thesis by simp
  next
    case False
    have "\<not> length (up @ [x]) \<le> length base"
    proof
      assume l: "length (up @ [x]) \<le> length base"
      have "take (length (up @ [x])) base = up @ [x]"
      proof (cases "up @ x # xs = base @ s")
        case True
        then have "take (length (up @ [x])) (base @ s) = up @ [x]" by (metis append.assoc append_Cons append_Nil append_eq_conv_conj)
        with l show ?thesis by simp
      qed (use "2.prems"(3) in auto)
      with is_dir_dirs_above [of fs base "length (up @ [x])"] "2.prems" l False show False by (simp add: sandbox_def)
    qed
    moreover from this have "up @ x # xs = base @ s" using "2.prems"(3) by auto
    ultimately obtain t where t: "up = base @ t"
      by (metis append_eq_append_conv_if append_eq_conv_conj le_add2 length_append length_append_singleton not_less_eq_eq)
    show ?thesis
    proof (cases "canonicalize fs up")
      case None
      with False "2.prems" show ?thesis by simp
    next
      case (Some d)
      then have d: "d = base @ t" using canonicalize_below "2.prems"(1,2) t by blast
      show ?thesis
      proof (cases "look fs (d @ [x]) = None \<and> look fs d = Some Dir")
        case True
        let ?fs = "AList.update (d @ [x]) Dir fs"
        have st: "safe_step fs base ?fs" using "2.prems"(1) by (intro safe_update) (auto simp: d is_link_def)
        have "look ?fs base = Some Dir" using "2.prems"(2) by (auto simp: look_update)
        with "2.IH"(2) [OF False Some True safe_step_sandbox [OF st]] "2.prems" False Some True
        have "safe_step ?fs base fs' \<and> look fs' base = Some Dir" by simp
        with st show ?thesis using safe_step_trans by blast
      qed (use False Some "2.prems" in auto)
    qed
  qed
qed simp

text \<open>Nothing is created above a path that resolves.\<close>

lemma canonicalize_missing:
  "canonicalize fs up = Some d \<Longrightarrow> look fs (d @ [x]) = None \<Longrightarrow> canonicalize fs (up @ x # xs) = None"
proof (rule ccontr)
  assume c: "canonicalize fs up = Some d" and n: "look fs (d @ [x]) = None" and "canonicalize fs (up @ x # xs) \<noteq> None"
  then obtain q where "walk fs False MAX_LINKS [] (map Name up @ map Name (x # xs)) = Some q"
    by (auto simp: canonicalize_def)
  from walk_split [OF c [unfolded canonicalize_def] this] obtain left
    where "walk fs False left d (map Name (x # xs)) = Some q" by auto
  with n show False by simp
qed

lemma mkdirs_new:
  "sandbox fs base \<Longrightarrow> look fs base = Some Dir \<Longrightarrow> canonicalize fs (up @ xs) = Some c \<Longrightarrow> path_starts_with c base \<Longrightarrow>
   mkdirs fs up (xs @ [x]) = (fs', ok) \<Longrightarrow> safe_step fs base fs' \<and> look fs' base = Some Dir"
proof (induction xs arbitrary: up)
  case Nil
  show ?case
  proof (cases "is_dir fs (up @ [x]) \<or> \<not> (look fs (c @ [x]) = None \<and> look fs c = Some Dir)")
    case True
    with Nil show ?thesis by (auto split: if_splits)
  next
    case False
    with Nil have "fs' = AList.update (c @ [x]) Dir fs" by (auto split: if_splits)
    moreover have "c @ [x] \<noteq> base" using Nil(4) by (auto simp: path_starts_with_iff)
    ultimately show ?thesis using Nil safe_update [of fs base "c @ [x]" Dir]
      by (auto simp: look_update is_link_def path_starts_with_iff)
  qed
next
  case (Cons y xs)
  show ?case
  proof (cases "is_dir fs (up @ [y])")
    case True
    with Cons.IH [of "up @ [y]"] Cons.prems show ?thesis by simp
  next
    case False
    have "fs' = fs"
    proof (cases "canonicalize fs up")
      case (Some d)
      then have "look fs (d @ [y]) \<noteq> None" using canonicalize_missing [OF Some, of y xs] Cons.prems(3) by auto
      with False Some Cons.prems(5) show ?thesis by auto
    qed (use False Cons.prems(5) in auto)
    with Cons.prems show ?thesis by simp
  qed
qed

lemma create_dir_all_safe:
  assumes "inside fs base p" "sandbox fs base" "look fs base = Some Dir" "create_dir_all fs p = (fs', ok)"
  shows "safe_step fs base fs'"
proof (cases "path_starts_with p base")
  case True
  then obtain s where "p = base @ s" using path_starts_with_iff by blast
  then show ?thesis using mkdirs_below [of fs base "[]" p s] assms by (auto simp: create_dir_all_def)
next
  case False
  then obtain c where "p \<noteq> []" "canonicalize fs (butlast p) = Some c" "path_starts_with c base"
    using assms(1) by (auto simp: inside_def)
  then show ?thesis
    using mkdirs_new [of fs base "[]" "butlast p" c "last p"] assms by (auto simp: create_dir_all_def)
qed

lemma ensure_parent_safe:
  assumes "inside fs base p" "sandbox fs base" "look fs base = Some Dir" "ensure_parent fs p = (fs', ok)"
  shows "safe_step fs base fs' \<and> look fs' base = Some Dir \<and> inside fs' base p"
proof (cases "p = [] \<or> path_exists fs (butlast p)")
  case True
  then have "fs' = fs" using assms(4) by (auto simp: ensure_parent_def)
  then show ?thesis using assms(1-3) by simp
next
  case False
  then have pb: "path_starts_with p base" using assms(1) by (auto simp: inside_def path_exists_def)
  then obtain s where s: "p = base @ s" using path_starts_with_iff by blast
  have "butlast p = base @ butlast s \<or> base = butlast p @ [last base]"
    using s False by (cases "s = []") (auto simp: butlast_append)
  then have "[] @ butlast p = base @ butlast s \<or> base = [] @ butlast p @ [last base]" by simp
  then have "safe_step fs base fs' \<and> look fs' base = Some Dir"
    using mkdirs_below [OF assms(2,3), of "[]" "butlast p" _ fs' ok] assms(4) False
    by (auto simp: ensure_parent_def create_dir_all_def)
  then show ?thesis using pb by (simp add: inside_def)
qed

lemma parent_location:
  assumes "inside fs base p" "sandbox fs base" "look fs base = Some Dir" "p \<noteq> []" "canonicalize fs (butlast p) = Some pp"
  shows "path_starts_with (pp @ [last p]) base"
proof (cases "path_starts_with p base")
  case True
  then obtain s where s: "p = base @ s" using path_starts_with_iff by blast
  show ?thesis
  proof (cases "s = []")
    case True
    have "canonicalize fs (butlast base) = Some (butlast base)"
      using assms(2) dirs_above_butlast [of fs base] by (intro canonicalize_same) (auto simp: sandbox_def is_link_def)
    with assms(5) True s have "pp = butlast base" by simp
    then have "pp @ [last p] = base" using assms(4) True s by simp
    then show ?thesis by simp
  next
    case False
    then have "pp = base @ butlast s" using canonicalize_below [OF assms(2,3)] assms(5) s by (simp add: butlast_append)
    then show ?thesis by simp
  qed
next
  case False
  then show ?thesis using assms(1,5) by (auto simp: inside_def path_starts_with_iff)
qed

lemma rename_lookup:
  "\<not> path_starts_with q s \<Longrightarrow> \<not> path_starts_with q d \<Longrightarrow>
   map_of (map (\<lambda>(q, i). (if path_starts_with q s then d @ drop (length s) q else q, i))
     (filter (\<lambda>(q, i). \<not> path_starts_with q d) fs)) q = map_of fs q"
  by (induction fs) auto

lemma rename_safe:
  assumes "inside fs base src" "inside fs base dst" "sandbox fs base" "look fs base = Some Dir"
    and "rename fs src dst = Some fs'"
  shows "safe_step fs base fs'"
proof -
  obtain sp dp where p: "src \<noteq> []" "dst \<noteq> []" "canonicalize fs (butlast src) = Some sp" "canonicalize fs (butlast dst) = Some dp"
    using assms(5) by (auto simp: rename_def split: if_splits option.splits)
  define s where "s = sp @ [last src]"
  define d where "d = dp @ [last dst]"
  have sb: "path_starts_with s base" "path_starts_with d base"
    using parent_location [OF assms(1,3,4) p(1,3)] parent_location [OF assms(2,3,4) p(2,4)] by (simp_all add: s_def d_def)
  show ?thesis
  proof (cases "s = d")
    case True
    then have "fs' = fs" using assms(5) p by (auto simp: rename_def Let_def s_def d_def split: if_splits)
    then show ?thesis using assms(3) by simp
  next
    case False
    have ne: "s \<noteq> []" "d \<noteq> []" by (simp_all add: s_def d_def)
    have conds: "look fs s \<noteq> None" "\<not> path_starts_with d s"
      "look fs s = Some Dir \<Longrightarrow> \<not> not_empty_dir fs d" "look fs s \<noteq> Some Dir \<Longrightarrow> look fs d \<noteq> Some Dir"
      and fs': "fs' = map (\<lambda>(q, i). (if path_starts_with q s then d @ drop (length s) q else q, i))
         (filter (\<lambda>(q, i). \<not> path_starts_with q d) fs)"
      using assms(5) p False by (auto simp: rename_def Let_def s_def d_def split: if_splits)
    have "s \<noteq> base" using conds(2) sb(2) by auto
    moreover have "d \<noteq> base"
    proof
      assume d: "d = base"
      then have "look fs s = Some Dir" using conds(4) assms(4) by auto
      then have "(s, Dir) \<in> set fs" using ne by (simp add: look_def map_of_SomeD)
      then have "not_empty_dir fs d" using sb(1) False d by (auto simp: not_empty_dir_def list_ex_iff)
      with conds(3) \<open>look fs s = Some Dir\<close> show False by simp
    qed
    ultimately have nb: "\<not> path_starts_with base s" "\<not> path_starts_with base d"
      using sb by (auto simp: path_starts_with_iff)
    have lk: "look fs' q = look fs q" if "\<not> path_starts_with q s" "\<not> path_starts_with q d" for q
      by (simp only: look_def fs' rename_lookup [OF that])
    have so: "same_outside fs base fs'"
      unfolding same_outside_def using sb lk by (metis append.assoc path_starts_with_iff)
    moreover have "no_links_under fs' base"
      using assms(3) sb unfolding sandbox_def no_links_under_def fs'
      by (auto simp: path_starts_with_iff)
    moreover have "look fs' base = Some Dir" using lk nb assms(4) by simp
    ultimately show ?thesis using assms(3) dirs_above_same [OF so] by (simp add: safe_step_def sandbox_def)
  qed
qed

subsection \<open>Confinement of the tools\<close>

lemma inside_existing: "inside fs base p \<Longrightarrow> path_exists fs p \<Longrightarrow> path_starts_with p base"
  by (auto simp: inside_def)

text \<open>A tool call that starts in a sandbox ends in one.\<close>

definition safe_call :: "fs \<Rightarrow> path \<Rightarrow> fs \<times> 'r \<Rightarrow> bool" where
  "safe_call fs base result \<longleftrightarrow> safe_step fs base (fst result)"

lemma safe_call_same: "sandbox fs base \<Longrightarrow> safe_call fs base (fs, r)"
  by (simp add: safe_call_def)

lemma safe_call_step: "safe_step fs base fs' \<Longrightarrow> safe_call fs base (fs', r)"
  by (simp add: safe_call_def)

lemmas safe_call_intros = safe_call_same safe_call_step

lemma safe_resolve:
  assumes "\<not> allow_outside cfg" "sandbox fs (working_folder cfg)"
    and "\<And>e. safe_call fs (working_folder cfg) (f e)"
    and "\<And>p. look fs (working_folder cfg) = Some Dir \<Longrightarrow> inside fs (working_folder cfg) p \<Longrightarrow>
           safe_call fs (working_folder cfg) (g p)"
  shows "safe_call fs (working_folder cfg) (case resolve cfg fs s of Inl e \<Rightarrow> f e | Inr p \<Rightarrow> g p)"
  using resolve_inside [of cfg fs s, OF _ assms(1,2)] assms(3,4) by (auto split: sum.splits)

text \<open>Making the parent directories and then going on.\<close>

lemma safe_parent:
  assumes "inside fs base p" "sandbox fs base" "look fs base = Some Dir"
    and "\<And>fs1. inside fs1 base p \<Longrightarrow> sandbox fs1 base \<Longrightarrow> look fs1 base = Some Dir \<Longrightarrow> safe_call fs1 base (g fs1)"
  shows "safe_call fs base (case ensure_parent fs p of (fs1, False) \<Rightarrow> (fs1, r) | (fs1, True) \<Rightarrow> g fs1)"
proof -
  obtain fs1 ok where e: "ensure_parent fs p = (fs1, ok)" by fastforce
  have s: "safe_step fs base fs1" "look fs1 base = Some Dir" "inside fs1 base p"
    using ensure_parent_safe [OF assms(1-3) e] by auto
  then have "safe_call fs1 base (g fs1)" using assms(4) safe_step_sandbox by blast
  then have "safe_call fs base (g fs1)" using s(1) safe_step_trans by (auto simp: safe_call_def)
  then show ?thesis using e s(1) by (cases ok) (auto simp: safe_call_step)
qed

lemma safe_write:
  "fs_write fs p c = Some fs' \<Longrightarrow> inside fs base p \<Longrightarrow> sandbox fs base \<Longrightarrow> look fs base = Some Dir \<Longrightarrow>
   safe_call fs base (fs', r)"
  using fs_write_safe by (auto simp: safe_call_step)

lemma safe_append:
  "fs_append fs p c = Some fs' \<Longrightarrow> inside fs base p \<Longrightarrow> sandbox fs base \<Longrightarrow> look fs base = Some Dir \<Longrightarrow>
   safe_call fs base (fs', r)"
  by (meson fs_append_is_write safe_write)

lemma safe_create:
  "create_dir_all fs p = (fs', ok) \<Longrightarrow> inside fs base p \<Longrightarrow> sandbox fs base \<Longrightarrow> look fs base = Some Dir \<Longrightarrow>
   safe_call fs base (fs', r)"
  using create_dir_all_safe by (auto simp: safe_call_def)

lemma safe_remove_file:
  "remove_file fs p = Some fs' \<Longrightarrow> inside fs base p \<Longrightarrow> path_exists fs p \<Longrightarrow> sandbox fs base \<Longrightarrow> safe_call fs base (fs', r)"
  by (metis fst_conv inside_existing remove_file_safe safe_call_def)

lemma safe_remove_dir:
  "remove_dir fs p = Inr fs' \<Longrightarrow> inside fs base p \<Longrightarrow> path_exists fs p \<Longrightarrow> sandbox fs base \<Longrightarrow> safe_call fs base (fs', r)"
  by (metis fst_conv inside_existing remove_dir_safe safe_call_def)

lemma safe_remove_dir_all:
  "remove_dir_all fs p = Some fs' \<Longrightarrow> inside fs base p \<Longrightarrow> path_exists fs p \<Longrightarrow> sandbox fs base \<Longrightarrow> safe_call fs base (fs', r)"
  by (metis fst_conv inside_existing remove_dir_all_safe safe_call_def)

lemma safe_rename:
  "rename fs src dst = Some fs' \<Longrightarrow> inside fs base src \<Longrightarrow> inside fs base dst \<Longrightarrow> sandbox fs base \<Longrightarrow>
   look fs base = Some Dir \<Longrightarrow> safe_call fs base (fs', r)"
  using rename_safe by (auto simp: safe_call_def)

lemmas safe_leaves = safe_call_same safe_write safe_append safe_create safe_remove_file safe_remove_dir
  safe_remove_dir_all safe_rename

lemmas safe_steps = safe_resolve safe_parent

lemma write_file_confined:
  "\<not> allow_outside cfg \<Longrightarrow> sandbox fs (working_folder cfg) \<Longrightarrow>
   safe_call fs (working_folder cfg) (write_file_call cfg args fs)"
  unfolding write_file_call_def Let_def
  by (auto simp: safe_leaves split: option.splits intro!: safe_steps)

lemma create_dir_confined:
  "\<not> allow_outside cfg \<Longrightarrow> sandbox fs (working_folder cfg) \<Longrightarrow>
   safe_call fs (working_folder cfg) (create_dir_call cfg args fs)"
  unfolding create_dir_call_def
  by (auto simp: safe_leaves split: option.splits prod.splits intro!: safe_steps)

lemma delete_file_confined:
  "\<not> allow_outside cfg \<Longrightarrow> sandbox fs (working_folder cfg) \<Longrightarrow>
   safe_call fs (working_folder cfg) (delete_file_call cfg args fs)"
proof -
  assume a: "\<not> allow_outside cfg" "sandbox fs (working_folder cfg)"
  have "safe_call fs (working_folder cfg) (case remove_dir fs p of Inl ne \<Rightarrow> (fs, Failed (f ne)) | Inr fs1 \<Rightarrow> (fs1, r))"
    if "inside fs (working_folder cfg) p" "path_exists fs p" for p f r
    using that a by (auto simp: safe_leaves split: sum.splits)
  with a show ?thesis unfolding delete_file_call_def
    by (auto simp: safe_leaves split: option.splits intro!: safe_steps)
qed

lemma move_file_confined:
  "\<not> allow_outside cfg \<Longrightarrow> sandbox fs (working_folder cfg) \<Longrightarrow>
   safe_call fs (working_folder cfg) (move_file_call cfg args fs)"
  unfolding move_file_call_def
  by (auto simp: safe_leaves split: option.splits intro!: safe_steps)

lemma edit_file_confined:
  "\<not> allow_outside cfg \<Longrightarrow> sandbox fs (working_folder cfg) \<Longrightarrow>
   safe_call fs (working_folder cfg) (edit_file_call cfg args fs)"
  unfolding edit_file_call_def
  by (auto simp: safe_leaves split: option.splits edit_result.splits intro!: safe_steps)

lemma finish_edits_confined:
  "inside fs base p \<Longrightarrow> sandbox fs base \<Longrightarrow> look fs base = Some Dir \<Longrightarrow> safe_call fs base (finish_edits fs p r m)"
  unfolding finish_edits_def by (auto simp: safe_leaves split: option.splits edit_result.splits intro!: safe_steps)

lemma multiedit_confined:
  "\<not> allow_outside cfg \<Longrightarrow> sandbox fs (working_folder cfg) \<Longrightarrow>
   safe_call fs (working_folder cfg) (multiedit_call cfg args fs)"
  unfolding multiedit_call_def
  by (auto simp: safe_leaves split: option.splits list.splits intro!: safe_steps finish_edits_confined)

text \<open>A hunk is a call too; a patch is a sequence of them.\<close>

lemma safe_call_trans:
  "safe_step fs base fs1 \<Longrightarrow> safe_call fs1 base r \<Longrightarrow> safe_call fs base r"
  using safe_step_trans by (auto simp: safe_call_def)

lemma apply_move_confined:
  "\<not> allow_outside cfg \<Longrightarrow> sandbox fs (working_folder cfg) \<Longrightarrow> path_starts_with p (working_folder cfg) \<Longrightarrow>
   safe_call fs (working_folder cfg) (apply_move cfg fs p mv)"
proof -
  assume a: "\<not> allow_outside cfg" "sandbox fs (working_folder cfg)" and p: "path_starts_with p (working_folder cfg)"
  have "inside fs1 (working_folder cfg) p" for fs1 using p by (simp add: inside_def)
  with a show ?thesis unfolding apply_move_def
    by (auto simp: safe_leaves split: option.splits intro!: safe_steps)
qed

lemma apply_hunk_confined:
  "\<not> allow_outside cfg \<Longrightarrow> sandbox fs (working_folder cfg) \<Longrightarrow>
   safe_call fs (working_folder cfg) (apply_hunk cfg fs h)"
proof (cases h)
  case (Add path contents)
  moreover assume "\<not> allow_outside cfg" "sandbox fs (working_folder cfg)"
  ultimately show ?thesis by (auto simp: safe_leaves split: option.splits intro!: safe_steps)
next
  case (Delete path)
  moreover assume "\<not> allow_outside cfg" "sandbox fs (working_folder cfg)"
  ultimately show ?thesis by (auto simp: safe_leaves split: option.splits intro!: safe_steps)
next
  case (Update path mv cs)
  moreover assume a: "\<not> allow_outside cfg" "sandbox fs (working_folder cfg)"
  have "safe_call fs (working_folder cfg) (apply_move cfg fs1 p mv)"
    if "fs_write fs p c = Some fs1" "inside fs (working_folder cfg) p" "path_exists fs p"
      "look fs (working_folder cfg) = Some Dir" for fs1 p c
  proof (rule safe_call_trans)
    show "safe_step fs (working_folder cfg) fs1" using fs_write_safe that a by blast
    then show "safe_call fs1 (working_folder cfg) (apply_move cfg fs1 p mv)"
      using apply_move_confined a that inside_existing safe_step_sandbox by blast
  qed
  ultimately show ?thesis using a
    by (auto simp: safe_leaves split: option.splits edit_result.splits intro!: safe_steps)
qed

lemma apply_hunks_confined:
  "\<not> allow_outside cfg \<Longrightarrow> sandbox fs (working_folder cfg) \<Longrightarrow>
   safe_call fs (working_folder cfg) (apply_hunks cfg fs n hs)"
proof (induction hs arbitrary: fs n)
  case (Cons h hs)
  obtain fs1 r where h: "apply_hunk cfg fs h = (fs1, r)" by fastforce
  then have s: "safe_step fs (working_folder cfg) fs1"
    using apply_hunk_confined [OF Cons.prems, of h] by (simp add: safe_call_def)
  show ?case
  proof (cases r)
    case (Inl e)
    with h s show ?thesis by (simp add: safe_call_def)
  next
    case (Inr b)
    from Cons.IH [OF Cons.prems(1) safe_step_sandbox [OF s]] s have
      "safe_call fs (working_folder cfg) (apply_hunks cfg fs1 m hs)" for m by (blast intro: safe_call_trans)
    with h Inr show ?thesis by simp
  qed
qed (simp add: safe_call_same)

lemma apply_patch_confined:
  "\<not> allow_outside cfg \<Longrightarrow> sandbox fs (working_folder cfg) \<Longrightarrow>
   safe_call fs (working_folder cfg) (apply_patch_call cfg args fs)"
  unfolding apply_patch_call_def
  by (auto simp: safe_call_same apply_hunks_confined simp del: apply_hunks.simps split: option.splits sum.splits list.splits)

lemma call_tool_confined:
  "\<not> allow_outside cfg \<Longrightarrow> sandbox fs (working_folder cfg) \<Longrightarrow>
   safe_call fs (working_folder cfg) (call_tool cfg t args fs)"
  by (cases t) (simp_all add: safe_call_same write_file_confined edit_file_confined multiedit_confined
      apply_patch_confined create_dir_confined delete_file_confined move_file_confined)

lemma call_tools_confined:
  "\<not> allow_outside cfg \<Longrightarrow> sandbox fs (working_folder cfg) \<Longrightarrow>
   safe_step fs (working_folder cfg) (call_tools cfg calls fs)"
proof (induction calls arbitrary: fs)
  case (Cons call calls)
  obtain t args where c: "call = (t, args)" by fastforce
  have s: "safe_step fs (working_folder cfg) (fst (call_tool cfg t args fs))"
    using call_tool_confined [OF Cons.prems] by (simp add: safe_call_def)
  with Cons.IH [OF Cons.prems(1) safe_step_sandbox [OF s]] show ?case unfolding c by (auto intro: safe_step_trans)
qed simp

text \<open>C32: With the check of paths on (allow_paths_outside_workdir is false, which the documents call the default although
  the configuration sets it to true: a finding), whatever sequence of calls of the modelled file tools a model makes,
  no file, directory or link outside the working folder is created, changed or removed, as long as at the start the folder
  is free of symbolic links, is itself a directory or absent, and lies in ordinary directories.\<close>

theorem tools_stay_in_folder:
  assumes "\<not> allow_outside cfg" "sandbox fs (working_folder cfg)" "\<not> path_starts_with q (working_folder cfg)"
  shows "look (call_tools cfg calls fs) q = look fs q"
  using call_tools_confined [OF assms(1,2)] assms(3) by (simp add: safe_step_def same_outside_def)

definition sample_fs :: fs where
  "sample_fs = [([''w''], Dir), ([''w'', ''a''], File ''one two''), ([''etc''], Dir), ([''etc'', ''pw''], File ''root'')]"

definition linked_fs :: fs where
  "linked_fs = ([''w'', ''l''], Link True [Name ''etc'']) # sample_fs"

definition sample_cfg :: tool_cfg where
  "sample_cfg = \<lparr>working_folder = [''w''], allow_outside = False, edit_env = plain_text_env\<rparr>"

definition write_args :: "string \<Rightarrow> string \<Rightarrow> json" where
  "write_args p c = JObj [(''content'', JStr c), (''path'', JStr p)]"

definition delete_args :: "string \<Rightarrow> json" where
  "delete_args p = JObj [(''path'', JStr p), (''recursive'', JBool True)]"

theorem tools_stay_in_folder_witness:
  "look (call_tools sample_cfg [(WriteFile, write_args ''../etc/pw'' ''x''), (DeleteFile, delete_args ''''), (WriteFile, write_args ''b'' ''y'')]
     sample_fs) [''etc'', ''pw''] = Some (File ''root'')"
proof -
  have s: "\<not> allow_outside sample_cfg" "sandbox sample_fs (working_folder sample_cfg)"
    "\<not> path_starts_with [''etc'', ''pw''] (working_folder sample_cfg)"
    by (simp_all add: sample_cfg_def sandbox_def no_links_under_def dirs_above_def sample_fs_def look_def is_link_def
        path_starts_with_def)
  have "look sample_fs [''etc'', ''pw''] = Some (File ''root'')" by code_simp
  then show ?thesis by (simp only: tools_stay_in_folder [OF s])
qed

text \<open>A link inside the folder is enough to leave it: the check looks at the names of the path, and the
  canonical path it returns is not checked again. A file outside is overwritten, a file outside is
  deleted through its link, and a path that reads as empty is the folder itself, which is deleted.\<close>

lemma link_escapes_sandbox:
  "look (fst (call_tool sample_cfg WriteFile (write_args ''l/pw'' ''x'') linked_fs)) [''etc'', ''pw''] = Some (File ''x'')"
  "look (fst (call_tool sample_cfg DeleteFile (delete_args ''l'') linked_fs)) [''etc'', ''pw''] = None"
  by code_simp+

lemma empty_path_deletes_folder:
  "call_tool sample_cfg DeleteFile (delete_args '' '') sample_fs
     = ([([''etc''], Dir), ([''etc'', ''pw''], File ''root'')], Done (Text ''ok''))"
  by code_simp

subsection \<open>Failed calls\<close>

text \<open>The only trace a failed call may leave is new, empty directories.\<close>

definition only_new_dirs :: "fs \<Rightarrow> fs \<Rightarrow> bool" where
  "only_new_dirs fs fs' \<longleftrightarrow> (\<forall>q. look fs' q = look fs q \<or> look fs q = None \<and> look fs' q = Some Dir)"

lemma only_new_dirs_refl [simp]: "only_new_dirs fs fs"
  by (simp add: only_new_dirs_def)

lemma mkdirs_only_new: "mkdirs fs up xs = (fs', ok) \<Longrightarrow> only_new_dirs fs fs'"
proof (induction fs up xs rule: mkdirs.induct)
  case (2 fs up x xs)
  show ?case
  proof (cases "is_dir fs (up @ [x])")
    case True
    with 2 show ?thesis by simp
  next
    case False
    show ?thesis
    proof (cases "canonicalize fs up")
      case (Some d)
      show ?thesis
      proof (cases "look fs (d @ [x]) = None \<and> look fs d = Some Dir")
        case True
        with 2 False Some have n: "only_new_dirs (AList.update (d @ [x]) Dir fs) fs'" by simp
        show ?thesis unfolding only_new_dirs_def
        proof
          fix q
          show "look fs' q = look fs q \<or> look fs q = None \<and> look fs' q = Some Dir"
            using n [unfolded only_new_dirs_def, rule_format, of q] True
            by (cases "q = d @ [x]") (simp_all add: look_update)
        qed
      qed (use 2 False Some in auto)
    qed (use 2 False in simp)
  qed
qed simp

lemma ensure_parent_only_new: "ensure_parent fs p = (fs', ok) \<Longrightarrow> only_new_dirs fs fs'"
  by (auto simp: ensure_parent_def create_dir_all_def split: if_splits dest: mkdirs_only_new)

definition is_done :: "tool_res \<Rightarrow> bool" where
  "is_done r \<longleftrightarrow> (\<exists>c. r = Done c)"

text \<open>Every tool but the patch tool works on one file and writes it last: when the call fails or panics,
  every file and link is as it was.\<close>

theorem failed_call_changes_no_file:
  assumes "call_tool cfg t args fs = (fs', r)" "\<not> is_done r" "t \<noteq> ApplyPatch"
  shows "only_new_dirs fs fs'"
proof (cases t)
  case WriteFile
  with assms show ?thesis
    by (auto simp: write_file_call_def Let_def is_done_def dest: ensure_parent_only_new
        split: option.splits sum.splits prod.splits bool.splits if_splits)
next
  case EditFile
  with assms show ?thesis
    by (auto simp: edit_file_call_def is_done_def dest: ensure_parent_only_new
        split: option.splits sum.splits prod.splits bool.splits if_splits edit_result.splits)
next
  case MultiEdit
  have f: "finish_edits gs p e m = (fs', r) \<Longrightarrow> fs' = gs" for gs p e m
    using assms(2) by (auto simp: finish_edits_def is_done_def split: edit_result.splits option.splits)
  from MultiEdit assms show ?thesis
    by (auto simp: multiedit_call_def is_done_def dest: ensure_parent_only_new f
        split: option.splits sum.splits prod.splits bool.splits if_splits list.splits)
next
  case CreateDir
  with assms show ?thesis
    by (auto simp: create_dir_call_def create_dir_all_def is_done_def dest: mkdirs_only_new
        split: option.splits sum.splits prod.splits if_splits)
next
  case DeleteFile
  with assms show ?thesis
    by (auto simp: delete_file_call_def is_done_def split: option.splits sum.splits if_splits)
next
  case MoveFile
  with assms show ?thesis
    by (auto simp: move_file_call_def is_done_def split: option.splits sum.splits if_splits)
qed (use assms in auto)

definition edit_args :: "string \<Rightarrow> json list \<Rightarrow> json" where
  "edit_args p eds = JObj [(''edits'', JArr eds), (''path'', JStr p)]"

definition one_edit :: "string \<Rightarrow> string \<Rightarrow> json" where
  "one_edit old new = JObj [(''newString'', JStr new), (''oldString'', JStr old)]"

theorem failed_call_changes_no_file_witness:
  "only_new_dirs sample_fs (fst (call_tool sample_cfg MultiEdit (edit_args ''a'' [one_edit ''one'' ''1'', one_edit ''nine'' ''9'']) sample_fs))"
proof -
  have "call_tool sample_cfg MultiEdit (edit_args ''a'' [one_edit ''one'' ''1'', one_edit ''nine'' ''9'']) sample_fs
      = (sample_fs, Failed InvalidInput)" by code_simp
  moreover from failed_call_changes_no_file [OF this] have "only_new_dirs sample_fs sample_fs" by (simp add: is_done_def)
  ultimately show ?thesis by simp
qed

text \<open>The exceptions: a failed multiedit that was to create a file leaves the directories it made for
  it, and a failed patch keeps the hunks before the one that failed.\<close>

lemma failed_multiedit_leaves_directory:
  "call_tool sample_cfg MultiEdit (edit_args ''d/f'' [one_edit '''' ''text'', one_edit ''nine'' ''9'']) sample_fs
     = (sample_fs @ [([''w'', ''d''], Dir)], Failed InvalidInput)"
  by code_simp

lemma failed_patch_is_partial:
  "call_tool sample_cfg ApplyPatch
     (JObj [(''patchText'', JStr (print_patch [DeletePart ''a'', UpdatePart ''b'' None [[Insert ''x'']]]))]) sample_fs
     = ([([''w''], Dir), ([''etc''], Dir), ([''etc'', ''pw''], File ''root'')], Failed InvalidInput)"
  by code_simp

subsection \<open>Successful edits\<close>

text \<open>A unique exact occurrence is replaced in the file, and nothing else changes: from the arguments of
  the call to the bytes on disk.\<close>

theorem edit_file_exact:
  assumes "arg_str args ''path'' = Some path_param" "arg_str args ''oldString'' = Some old_string"
    and "arg_str args ''newString'' = Some new_string" "\<not> arg_bool args ''replaceAll'' False"
    and "resolve cfg fs path_param = Inr p" "dirs_above fs p" "look fs p = Some (File (pre @ old_string @ post))"
    and "occurs_once old_string (pre @ old_string @ post)" "old_string \<noteq> new_string" "old_string \<noteq> []"
  shows "call_tool cfg EditFile args fs =
    (AList.update p (File (pre @ new_string @ post)) fs,
     Done (Diff path_param (Some (pre @ old_string @ post)) (pre @ new_string @ post)))"
proof -
  have c: "canonicalize fs p = Some p" using assms(6,7) by (intro canonicalize_same) (auto simp: is_link_def)
  have w: "walk fs True MAX_LINKS [] (map Name p) = Some p" using assms(6,7) by (intro walk_same) (auto simp: is_link_def)
  have "fs_write fs p x = Some (AList.update p (File x) fs)" for x
    using w assms(7) by (simp add: fs_write_def open_location_def)
  moreover have "read_to_string fs p = Some (pre @ old_string @ post)" "path_exists fs p" "\<not> is_dir fs p"
    using c assms(7) by (simp_all add: read_to_string_def path_exists_def is_dir_def)
  ultimately show ?thesis
    using assms(1-5,9,10) exact_replacement [OF assms(8-10)] by (simp add: edit_file_call_def)
qed

theorem edit_file_exact_witness:
  "call_tool sample_cfg EditFile (JObj [(''newString'', JStr ''2''), (''oldString'', JStr ''two''), (''path'', JStr ''./a'')]) sample_fs
     = (AList.update [''w'', ''a''] (File ''one 2'') sample_fs, Done (Diff ''./a'' (Some ''one two'') ''one 2''))"
proof -
  have "occurs_once ''two'' ''one two''"
    by (simp add: occurs_once_def starts_with_def)
  then show ?thesis
    using edit_file_exact [of _ "''./a''" "''two''" "''2''" sample_cfg sample_fs "[''w'', ''a'']" "''one ''" "[]"]
    by (simp add: arg_str_def arg_bool_def json_get_def) code_simp
qed

subsection \<open>Reading\<close>

text \<open>A long line is cut at the last character boundary within the limit, never inside a character.\<close>

theorem truncate_on_boundary:
  assumes "max_bytes < length s"
  shows "\<exists>k. truncate_str s max_bytes = take k s \<and> str_from k s \<noteq> None \<and> k \<le> max_bytes
       \<and> (\<forall>j. k < j \<longrightarrow> j \<le> max_bytes \<longrightarrow> is_cont (s ! j))"
  using floor_char_boundary_spec [OF assms] assms
  by (intro exI [of _ "floor_char_boundary s max_bytes"]) (auto simp: truncate_str_def str_from_def)

theorem truncate_on_boundary_witness: "length (truncate_str (wide_space @ wide_space) 4) = 3"
proof -
  have "4 < length (wide_space @ wide_space)" by code_simp
  from truncate_on_boundary [OF this] obtain k where k: "truncate_str (wide_space @ wide_space) 4 = take k (wide_space @ wide_space)"
    "str_from k (wide_space @ wide_space) \<noteq> None" "k \<le> 4"
    "\<forall>j. k < j \<longrightarrow> j \<le> 4 \<longrightarrow> is_cont ((wide_space @ wide_space) ! j)" by blast
  have "\<not> is_cont ((wide_space @ wide_space) ! 3)" "str_from 4 (wide_space @ wide_space) = None" by code_simp+
  with k(2,4) have "\<not> k < 3" "k \<noteq> 4" by auto
  with k(3) have e: "k = 3" by linarith
  show ?thesis unfolding k(1) e by code_simp
qed

text \<open>An offset with the largest limit overflows the sum of the two: the call panics.\<close>

lemma read_lines_overflow: "1 \<le> offset \<Longrightarrow> read_lines content offset (2 ^ 64 - 1) = None"
proof -
  assume "1 \<le> offset"
  moreover have "1 \<le> length (split_lines content)" by (simp add: length_split_on)
  ultimately have "1 \<le> min offset (length (split_lines content))" by simp
  then show ?thesis by (simp add: read_lines_def Let_def)
qed

lemma read_overflow_panics:
  "call_tool sample_cfg ReadFile
     (JObj [(''limit'', JNum (JInt 18446744073709551615)), (''offset'', JNum (JInt 1)), (''path'', JStr ''a'')]) sample_fs
     = (sample_fs, Panicked)"
proof -
  have "resolve sample_cfg sample_fs ''a'' = Inr [''w'', ''a'']" "path_exists sample_fs [''w'', ''a'']"
    "\<not> is_dir sample_fs [''w'', ''a'']" "read_to_string sample_fs [''w'', ''a''] = Some ''one two''" by code_simp+
  then show ?thesis using read_lines_overflow [of 1 "''one two''"]
    by (simp add: read_file_call_def arg_str_def arg_u64_def json_get_def)
qed

end
