(* ===== verification/Got_Graph.thy ===== *)
theory Got_Graph
  imports Rust_Text Graph_Error
begin

text \<open>
  The task graph of the graph-of-thoughts agent, \<open>agent/agent-core/src/agent/got\<close>: \<open>state.rs\<close>, \<open>dag.rs\<close>,
  the parser of \<open>plan_node.rs\<close> and the expansion of \<open>adaptive.rs\<close>. A \<open>HashMap\<close> is an association list;
  where the code iterates over it, the list is the order it happens to have. What \<open>serde_json\<close> makes of
  the model's answer (\<open>raw_graph\<close>; the text of its error is left out) and the lower case of a text are parameters.
\<close>

subsection \<open>State\<close>

datatype task_status = Pending | Running | Done | Failed

record task_node =
  tn_id :: string
  tn_description :: string
  tn_tool_calls :: "json list"

record task_graph =
  tg_nodes :: "task_node list"
  tg_edges :: "(string \<times> string) list"

record task_node_state =
  ts_status :: task_status
  ts_result :: "string option"
  ts_error :: "string option"

definition task_node_state_default :: task_node_state where
  "task_node_state_default = \<lparr>ts_status = Pending, ts_result = None, ts_error = None\<rparr>"

record got_state =
  gs_input :: string
  gs_graph :: task_graph
  gs_states :: "(string \<times> task_node_state) list"

definition summary_result :: "got_state \<Rightarrow> string" where
  "summary_result s =
     (let finished = filter (\<lambda>(i, st). ts_status st = Done \<and> ts_result st \<noteq> None) (gs_states s);
          from_ids = map fst (tg_edges (gs_graph s));
          sink_ids = filter (\<lambda>i. i \<notin> set from_ids) (map tn_id (tg_nodes (gs_graph s)))
      in if finished = [] then []
         else case find (\<lambda>(i, st). i \<in> set sink_ids) finished of
                Some (i, st) \<Rightarrow> the (ts_result st)
              | None \<Rightarrow> the (ts_result (snd (last finished))))"

subsection \<open>The graph\<close>

abbreviation node_ids :: "task_graph \<Rightarrow> string list" where
  "node_ids g \<equiv> map tn_id (tg_nodes g)"

definition predecessors :: "task_graph \<Rightarrow> string \<Rightarrow> string list" where
  "predecessors g node_id = map fst (filter (\<lambda>(f, t). t = node_id) (tg_edges g))"

definition dependency_done :: "task_graph \<Rightarrow> (string \<times> task_node_state) list \<Rightarrow> string \<Rightarrow> bool" where
  "dependency_done g states f =
     (case find (\<lambda>m. tn_id m = f) (tg_nodes g) of
        None \<Rightarrow> False
      | Some m \<Rightarrow> (case map_of states (tn_id m) of Some st \<Rightarrow> ts_status st = Done | None \<Rightarrow> False))"

definition is_ready :: "task_graph \<Rightarrow> (string \<times> task_node_state) list \<Rightarrow> string \<Rightarrow> bool" where
  "is_ready g states i =
     (case map_of states i of
        None \<Rightarrow> False
      | Some st \<Rightarrow>
          ts_status st = Pending \<and> list_all (\<lambda>(f, t). t \<noteq> i \<or> dependency_done g states f) (tg_edges g))"

definition ready_nodes :: "task_graph \<Rightarrow> (string \<times> task_node_state) list \<Rightarrow> string list" where
  "ready_nodes g states = filter (is_ready g states) (node_ids g)"

datatype append_error = InvalidEdge string | IdCollision string

definition prefix_id :: "string \<Rightarrow> string \<Rightarrow> string" where
  "prefix_id parent_id i = parent_id @ ''_'' @ i"

definition check_sub_edge :: "string list \<Rightarrow> string list \<Rightarrow> string \<Rightarrow> string \<times> string \<Rightarrow> append_error option" where
  "check_sub_edge existing sub parent_id e =
     (case e of (f, t) \<Rightarrow>
        if f \<notin> set sub \<and> f \<notin> set existing \<and> f \<noteq> parent_id then Some (InvalidEdge (''edge source '' @ [CHR 0x27] @ f @ [CHR 0x27] @ '' not in subgraph, existing nodes, or parent''))
        else if t \<notin> set sub then Some (InvalidEdge (''edge target '' @ [CHR 0x27] @ t @ [CHR 0x27] @ '' not in subgraph nodes''))
        else None)"

fun first_append_error :: "('a \<Rightarrow> append_error option) \<Rightarrow> 'a list \<Rightarrow> append_error option" where
  "first_append_error f [] = None"
| "first_append_error f (x # xs) = (case f x of Some e \<Rightarrow> Some e | None \<Rightarrow> first_append_error f xs)"

definition append_subgraph :: "task_graph \<Rightarrow> task_graph \<Rightarrow> string \<Rightarrow> append_error + task_graph" where
  "append_subgraph g sub parent_id =
     (let existing = node_ids g in
      case first_append_error (check_sub_edge existing (node_ids sub) parent_id) (tg_edges sub) of
        Some e \<Rightarrow> Inl e
      | None \<Rightarrow>
          (case first_append_error (\<lambda>n. if tn_id n \<in> set existing then Some (IdCollision (tn_id n)) else None) (tg_nodes sub) of
             Some e \<Rightarrow> Inl e
           | None \<Rightarrow>
               Inr \<lparr>tg_nodes = tg_nodes g @ map (\<lambda>n. n\<lparr>tn_id := prefix_id parent_id (tn_id n)\<rparr>) (tg_nodes sub),
                    tg_edges = tg_edges g @ map (\<lambda>(f, t).
                      (if f \<in> set existing then f else prefix_id parent_id f, prefix_id parent_id t)) (tg_edges sub)\<rparr>))"

subsection \<open>The plan\<close>

record raw_node =
  rn_id :: "string option"
  rn_description :: "string option"

record raw_graph =
  rg_nodes :: "raw_node list option"
  rg_edges :: "(string \<times> string) list option"

definition raw_id :: "raw_node \<Rightarrow> string \<Rightarrow> string" where
  "raw_id n default_id = (case rn_id n of Some i \<Rightarrow> if i = [] then default_id else i | None \<Rightarrow> default_id)"

definition or_default :: "'a \<Rightarrow> 'a option \<Rightarrow> 'a" where
  "or_default d x = (case x of Some v \<Rightarrow> v | None \<Rightarrow> d)"

definition single_task :: "string \<Rightarrow> task_graph" where
  "single_task input_message =
     \<lparr>tg_nodes = [\<lparr>tn_id = ''task_1'', tn_description = input_message, tn_tool_calls = []\<rparr>], tg_edges = []\<rparr>"

definition parse_task_graph :: "(string \<Rightarrow> raw_graph option) \<Rightarrow> string \<Rightarrow> string \<Rightarrow> task_graph" where
  "parse_task_graph from_str raw input_message =
     (case Option.bind (from_str raw) (\<lambda>p. map_option (\<lambda>ns. (ns, or_default [] (rg_edges p))) (rg_nodes p)) of
        None \<Rightarrow> single_task input_message
      | Some (nodes, edges) \<Rightarrow>
          let graph_nodes = map (\<lambda>n. \<lparr>tn_id = raw_id n ''task_1'', tn_description = or_default input_message (rn_description n),
                                       tn_tool_calls = []\<rparr>) nodes;
              ids = map tn_id graph_nodes
          in if graph_nodes = [] then single_task input_message
             else \<lparr>tg_nodes = graph_nodes, tg_edges = filter (\<lambda>(f, t). f \<in> set ids \<and> t \<in> set ids) edges\<rparr>)"

definition initial_states :: "task_graph \<Rightarrow> (string \<times> task_node_state) list" where
  "initial_states g = fold (\<lambda>i. AList.update i task_node_state_default) (node_ids g) []"

subsection \<open>Expansion\<close>

definition MAX_TOTAL_NODES :: nat where
  "MAX_TOTAL_NODES = 64"

datatype complexity_level = Simple | Complex

definition complex_keywords :: "string list" where
  "complex_keywords =
     [''analyze'', ''analyse'', ''compare'', ''evaluate'', ''prove'', ''derive'', ''compute'', ''calculate'',
      ''determine'', ''investigate'', ''synthesize'']"

definition complexity_score :: "(string \<Rightarrow> string) \<Rightarrow> task_node \<Rightarrow> complexity_level" where
  "complexity_score to_lowercase node =
     (let desc = trim (tn_description node) in
      if length desc > 100 then Complex
      else if list_ex (\<lambda>kw. str_contains (to_lowercase desc) kw) complex_keywords then Complex
      else Simple)"

type_synonym subgraph = "task_node list \<times> (string \<times> string) list"

definition sub_id :: "string \<Rightarrow> nat \<Rightarrow> string" where
  "sub_id parent_id i = parent_id @ ''_sub_'' @ show_nat (i + 1)"

definition parse_expand_output :: "(string \<Rightarrow> raw_graph option) \<Rightarrow> string \<Rightarrow> string \<Rightarrow> graph_error + subgraph option" where
  "parse_expand_output from_str raw parent_id =
     (case from_str raw of
        None \<Rightarrow> Inl (ExecutionFailed ''expand parse error'')
      | Some p \<Rightarrow>
          (case rg_nodes p of
             None \<Rightarrow> Inr None
           | Some nodes \<Rightarrow>
               if nodes = [] then Inr None
               else
                 let numbered = enumerate 0 nodes;
                     new_nodes = map (\<lambda>(i, n). \<lparr>tn_id = sub_id parent_id i,
                       tn_description = or_default [] (rn_description n), tn_tool_calls = []\<rparr>) numbered;
                     raw_to_prefixed = fold (\<lambda>(i, n). AList.update (raw_id n (''step'' @ show_nat (i + 1))) (sub_id parent_id i))
                       numbered [(parent_id, parent_id)];
                     prefixed = map tn_id new_nodes;
                     new_edges = List.map_filter (\<lambda>(f, t).
                       case (map_of raw_to_prefixed f, map_of raw_to_prefixed t) of
                         (Some f', Some t') \<Rightarrow>
                           if (f' = parent_id \<or> f' \<in> set prefixed) \<and> t' \<in> set prefixed then Some (f', t') else None
                       | _ \<Rightarrow> None) (or_default [] (rg_edges p))
                 in if new_edges = [] then Inr None else Inr (Some (new_nodes, new_edges))))"

text \<open>\<open>maybe_expand\<close>: the state, and the numbers of nodes and edges added, nothing, or an error.\<close>

type_synonym expand_result = "append_error + (nat \<times> nat) option"

definition maybe_expand ::
  "(string \<Rightarrow> string) \<Rightarrow> got_state \<Rightarrow> string \<Rightarrow> bool \<Rightarrow> complexity_level option \<Rightarrow> subgraph option \<Rightarrow> got_state \<times> expand_result" where
  "maybe_expand to_lowercase s node_id adaptive complexity_override expansion =
     (if \<not> adaptive then (s, Inr None)
      else case find (\<lambda>n. tn_id n = node_id) (tg_nodes (gs_graph s)) of
        None \<Rightarrow> (s, Inr None)
      | Some node \<Rightarrow>
          if map_option ts_status (map_of (gs_states s) node_id) \<noteq> Some Done then (s, Inr None)
          else if length (tg_nodes (gs_graph s)) \<ge> MAX_TOTAL_NODES then (s, Inr None)
          else if or_default (complexity_score to_lowercase node) complexity_override \<noteq> Complex then (s, Inr None)
          else case expansion of
            None \<Rightarrow> (s, Inr None)
          | Some (new_nodes, new_edges) \<Rightarrow>
              if new_nodes = [] then (s, Inr None)
              else
                let n_before = length (tg_nodes (gs_graph s));
                    e_before = length (tg_edges (gs_graph s));
                    parent_id = ''expand_'' @ show_nat n_before
                in case append_subgraph (gs_graph s) \<lparr>tg_nodes = new_nodes, tg_edges = new_edges\<rparr> parent_id of
                     Inl e \<Rightarrow> (s, Inl e)
                   | Inr g \<Rightarrow>
                       (s\<lparr>gs_graph := g,
                          gs_states := fold (\<lambda>n. AList.update (tn_id n) task_node_state_default)
                            (drop n_before (tg_nodes g)) (gs_states s)\<rparr>,
                        Inr (Some (length (tg_nodes g) - n_before, length (tg_edges g) - e_before))))"

end
