(* ===== verification/Got_Run.thy ===== *)
theory Got_Run
  imports Got_Graph Graph_Run
begin

text \<open>
  Running a task graph: the two nodes of the graph-of-thoughts agent (\<open>plan_node.rs\<close>,
  \<open>execute_engine.rs\<close>) and the state graph that drives them (\<open>runner.rs\<close>), compiled and run by the model
  of \<open>graph-core\<close>. The language model is a function of the number of the node call and of the number of
  the question within it, so that it may answer the same prompt differently every time; the react
  nodes of a subtask are functions on a state of their own.
\<close>

subsection \<open>Environment\<close>

record 'r react_agent =
  ra_start :: "string \<Rightarrow> 'r"
  ra_think :: "nat \<Rightarrow> 'r \<Rightarrow> graph_error + 'r"
  ra_act :: "nat \<Rightarrow> 'r \<Rightarrow> graph_error + 'r"
  ra_observe :: "nat \<Rightarrow> 'r \<Rightarrow> graph_error + 'r"
  ra_has_calls :: "'r \<Rightarrow> bool"
  ra_reply :: "'r \<Rightarrow> string option"

record 'r got_env =
  ge_agent :: "nat \<Rightarrow> 'r react_agent"
  ge_llm :: "nat \<Rightarrow> nat \<Rightarrow> string list \<Rightarrow> graph_error + string"
  ge_from_str :: "string \<Rightarrow> raw_graph option"
  ge_lower :: "string \<Rightarrow> string"
  ge_json_text :: "json \<Rightarrow> string"
  ge_plan_prompt :: string
  ge_expand_prompt :: string
  ge_adaptive :: bool
  ge_llm_complexity :: bool

subsection \<open>Planning\<close>

definition plan_graph_node :: "'r got_env \<Rightarrow> got_state node_fun" where
  "plan_graph_node E n s =
     (case ge_llm E n 0 [ge_plan_prompt E, gs_input s] of
        Inl e \<Rightarrow> Inl e
      | Inr content \<Rightarrow>
          let g = parse_task_graph (ge_from_str E) (trim content) (gs_input s)
          in Inr (\<lparr>gs_input = gs_input s, gs_graph = g, gs_states = initial_states g\<rparr>, Continue))"

subsection \<open>A subtask\<close>

definition MAX_SUB_TASK_TURNS :: nat where
  "MAX_SUB_TASK_TURNS = 10"

definition MAX_PREDECESSOR_RESULT_LEN :: nat where
  "MAX_PREDECESSOR_RESULT_LEN = 500"

text \<open>The last character boundary at or below an index.\<close>

definition last_boundary :: "string \<Rightarrow> nat \<Rightarrow> nat" where
  "last_boundary s n = or_default 0 (find (\<lambda>i. str_from i s \<noteq> None) (rev [0..<n + 1]))"

definition truncate_result :: "string \<Rightarrow> nat \<Rightarrow> string" where
  "truncate_result s max_len =
     (if length s \<le> max_len then s else take (last_boundary s (max_len - 3)) s @ ''...'')"

definition predecessor_results :: "got_state \<Rightarrow> string \<Rightarrow> string list" where
  "predecessor_results s node_id =
     List.map_filter (\<lambda>p.
       case map_of (gs_states s) p of
         None \<Rightarrow> None
       | Some ts \<Rightarrow>
           if ts_status ts = Done
           then map_option (\<lambda>r. p @ '': '' @ truncate_result r MAX_PREDECESSOR_RESULT_LEN) (ts_result ts)
           else None) (predecessors (gs_graph s) node_id)"

definition build_sub_task_user_message :: "got_state \<Rightarrow> string \<Rightarrow> string \<Rightarrow> string" where
  "build_sub_task_user_message s node_id description =
     (let results = predecessor_results s node_id
      in join_with [nl, nl]
           ((if gs_input s = [] then [] else [''Task: '' @ gs_input s]) @
            (if results = [] then [] else [''Predecessor results:'' @ [nl] @ join_with [nl, nl] results]) @
            [''Sub-task: '' @ description]))"

text \<open>The react loop of a subtask: think, and act and observe while the model calls tools.\<close>

fun sub_task_loop :: "'r react_agent \<Rightarrow> nat \<Rightarrow> nat \<Rightarrow> 'r \<Rightarrow> graph_error + string" where
  "sub_task_loop A k 0 r = Inr (or_default [] (ra_reply A r))"
| "sub_task_loop A k (Suc turns) r =
     (case ra_think A k r of
        Inl e \<Rightarrow> Inl e
      | Inr s1 \<Rightarrow>
          if \<not> ra_has_calls A s1 then Inr (or_default [] (ra_reply A s1))
          else (case ra_act A k s1 of
              Inl e \<Rightarrow> Inl e
            | Inr s2 \<Rightarrow>
                (case ra_observe A k s2 of
                   Inl e \<Rightarrow> Inl e
                 | Inr s3 \<Rightarrow> sub_task_loop A (k + 1) turns s3)))"

definition run_sub_task :: "'r react_agent \<Rightarrow> string \<Rightarrow> graph_error + string" where
  "run_sub_task A user_message = sub_task_loop A 0 MAX_SUB_TASK_TURNS (ra_start A user_message)"

subsection \<open>Complexity and expansion by the model\<close>

definition complexity_prompt :: string where
  "complexity_prompt = ''You are a classifier. Given a task node from a task graph, decide if it is simple (can be done in one step) or complex (should be decomposed into sub-tasks).'' @ [nl] @ ''Reply with exactly one word: simple or complex.''"

definition complexity_score_via_llm :: "'r got_env \<Rightarrow> nat \<Rightarrow> task_node \<Rightarrow> graph_error + complexity_level" where
  "complexity_score_via_llm E n node =
     (case ge_llm E n 0 [''Reply with exactly one word: simple or complex.'',
         complexity_prompt @ [nl] @ ''Node id: '' @ tn_id node @ [nl] @ ''Description: '' @ tn_description node] of
        Inl e \<Rightarrow> Inl e
      | Inr content \<Rightarrow> Inr (if str_contains (ge_lower E (trim content)) ''complex'' then Complex else Simple))"

definition expand_question :: "string \<Rightarrow> string \<Rightarrow> string \<Rightarrow> task_node \<Rightarrow> string" where
  "expand_question node_id result input_message node =
     ''Parent node id: '' @ node_id @ [nl] @ ''Parent description: '' @ tn_description node @ [nl] @
     ''Parent result (so far): '' @ result @ [nl, nl] @ ''Overall task goal: '' @ input_message @ [nl, nl] @
     ''Output JSON with '' @ [CHR 0x22] @ ''nodes'' @ [CHR 0x22] @ '' and '' @ [CHR 0x22] @ ''edges'' @ [CHR 0x22] @
     ''. Node ids must be short (e.g. step1, step2). At least one edge must be from '' @ [CHR 0x22] @ node_id @
     [CHR 0x22] @ '' to a new node.''"

definition expand_node_via_llm :: "'r got_env \<Rightarrow> nat \<Rightarrow> string \<Rightarrow> string \<Rightarrow> string \<Rightarrow> task_node \<Rightarrow> graph_error + subgraph option" where
  "expand_node_via_llm E n node_id result input_message node =
     (case ge_llm E n 1 [ge_expand_prompt E, expand_question node_id result input_message node] of
        Inl e \<Rightarrow> Inl e
      | Inr content \<Rightarrow> parse_expand_output (ge_from_str E) (trim content) node_id)"

subsection \<open>Executing one task node\<close>

definition set_task :: "string \<Rightarrow> task_node_state \<Rightarrow> got_state \<Rightarrow> got_state" where
  "set_task node_id ts s = s\<lparr>gs_states := AList.update node_id ts (gs_states s)\<rparr>"

text \<open>What an adaptive agent does after a task is done.\<close>

definition adapt :: "'r got_env \<Rightarrow> nat \<Rightarrow> string \<Rightarrow> string \<Rightarrow> got_state \<Rightarrow> got_state" where
  "adapt E n node_id result s =
     (if \<not> ge_adaptive E then s
      else
        let node = find (\<lambda>m. tn_id m = node_id) (tg_nodes (gs_graph s));
            override =
              (case node of
                 None \<Rightarrow> None
               | Some m \<Rightarrow>
                   if ge_llm_complexity E
                   then (case complexity_score_via_llm E n m of Inl e \<Rightarrow> None | Inr c \<Rightarrow> Some c)
                   else Some (complexity_score (ge_lower E) m));
            expansion =
              (case node of
                 None \<Rightarrow> None
               | Some m \<Rightarrow>
                   (case expand_node_via_llm E n node_id result (gs_input s) m of Inl e \<Rightarrow> None | Inr sub \<Rightarrow> sub))
        in fst (maybe_expand (ge_lower E) s node_id True override expansion))"

definition execute_graph_node :: "'r got_env \<Rightarrow> got_state node_fun" where
  "execute_graph_node E n s =
     (case ready_nodes (gs_graph s) (gs_states s) of
        [] \<Rightarrow> Inr (s, End)
      | node_id # _ \<Rightarrow>
          (case find (\<lambda>m. tn_id m = node_id) (tg_nodes (gs_graph s)) of
             None \<Rightarrow> Inl (ExecutionFailed ''node not found'')
           | Some node \<Rightarrow>
               let user_message = build_sub_task_user_message s node_id (tn_description node);
                   s1 = set_task node_id \<lparr>ts_status = Running, ts_result = None, ts_error = None\<rparr> s
               in case run_sub_task (ge_agent E n) user_message of
                    Inl e \<Rightarrow>
                      Inr (set_task node_id \<lparr>ts_status = Failed, ts_result = None,
                             ts_error = Some (show_graph_error (ge_json_text E) e)\<rparr> s1, End)
                  | Inr result \<Rightarrow>
                      let s2 = adapt E n node_id result
                            (set_task node_id \<lparr>ts_status = Done, ts_result = Some result, ts_error = None\<rparr> s1)
                      in if ready_nodes (gs_graph s2) (gs_states s2) = [] then Inr (s2, End)
                         else Inr (s2, Node ''execute_graph'')))"

subsection \<open>The state graph of the agent\<close>

definition got_execute_condition :: "got_state \<Rightarrow> string" where
  "got_execute_condition s =
     (if ready_nodes (gs_graph s) (gs_states s) = [] then END else ''execute_graph'')"

definition got_state_graph :: "'r got_env \<Rightarrow> (got_state, got_state node_fun) state_graph" where
  "got_state_graph E =
     sg_add_conditional_edges ''execute_graph'' got_execute_condition
       (Some [(''execute_graph'', ''execute_graph''), (END, END)])
       (sg_add_edge ''plan_graph'' ''execute_graph''
         (sg_add_edge START ''plan_graph''
           (sg_add_node ''execute_graph'' (execute_graph_node E)
             (sg_add_node ''plan_graph'' (plan_graph_node E) state_graph_new))))"

definition got_compiled :: "'r got_env \<Rightarrow> got_state cgraph" where
  "got_compiled E =
     \<lparr>cg_nodes = [(''plan_graph'', plan_graph_node E), (''execute_graph'', execute_graph_node E)],
      cg_first = ''plan_graph'', cg_edge_order = [''plan_graph''],
      cg_next_map = [(''plan_graph'', Unconditional ''execute_graph''),
        (''execute_graph'', Conditional \<lparr>ro_path = got_execute_condition,
           ro_path_map = Some [(''execute_graph'', ''execute_graph''), (END, END)]\<rparr>)]\<rparr>"

text \<open>\<open>build_got_initial_state\<close>: a saved state keeps everything but the message.\<close>

definition build_got_initial_state :: "string \<Rightarrow> got_state option \<Rightarrow> got_state" where
  "build_got_initial_state input_text saved =
     (case saved of
        Some s \<Rightarrow> s\<lparr>gs_input := input_text\<rparr>
      | None \<Rightarrow> \<lparr>gs_input = input_text, gs_graph = \<lparr>tg_nodes = [], tg_edges = []\<rparr>, gs_states = []\<rparr>)"

lemma got_graph_compiles: "compile_internal (got_state_graph E) = Inr (got_compiled E)"
  by (simp add: compile_defs got_state_graph_def got_compiled_def graph_build_defs START_def END_def)

end
