(* ===== verification/Got_Facts.thy ===== *)
theory Got_Facts
  imports Got_Run
begin

text \<open>
  What a run of the graph-of-thoughts agent does: it always ends; no task starts before the tasks it
  depends on are done; an acyclic plan without failures is carried out completely. The router of the
  state graph decides alone whether the run goes on.
\<close>

subsection \<open>One step\<close>

definition status_of :: "got_state \<Rightarrow> string \<Rightarrow> task_status option" where
  "status_of s i = map_option ts_status (map_of (gs_states s) i)"

lemma find_node: "i \<in> set (node_ids g) \<Longrightarrow> \<exists>m. find (\<lambda>m. tn_id m = i) (tg_nodes g) = Some m \<and> tn_id m = i"
proof -
  assume "i \<in> set (node_ids g)"
  then have "find (\<lambda>m. tn_id m = i) (tg_nodes g) \<noteq> None" by (auto simp: find_None_iff)
  then show ?thesis by (metis (mono_tags, lifting) find_Some_iff not_Some_eq)
qed

lemma dependency_done_iff:
  "dependency_done (gs_graph s) (gs_states s) f \<longleftrightarrow> f \<in> set (node_ids (gs_graph s)) \<and> status_of s f = Some Done"
proof (cases "f \<in> set (node_ids (gs_graph s))")
  case True
  with find_node [OF True] show ?thesis by (auto simp: dependency_done_def status_of_def split: option.splits)
next
  case False
  then have "find (\<lambda>m. tn_id m = f) (tg_nodes (gs_graph s)) = None" by (auto simp: find_None_iff)
  with False show ?thesis by (simp add: dependency_done_def)
qed

lemma ready_iff:
  "i \<in> set (ready_nodes (gs_graph s) (gs_states s)) \<longleftrightarrow>
     i \<in> set (node_ids (gs_graph s)) \<and> status_of s i = Some Pending \<and>
     (\<forall>f. (f, i) \<in> set (tg_edges (gs_graph s)) \<longrightarrow> f \<in> set (node_ids (gs_graph s)) \<and> status_of s f = Some Done)"
  by (auto simp: ready_nodes_def is_ready_def list_all_iff dependency_done_iff status_of_def split: option.splits)

lemma status_set_task: "status_of (set_task i ts s) j = (if j = i then Some (ts_status ts) else status_of s j)"
  by (simp add: set_task_def status_of_def)

lemma set_task_graph [simp]: "gs_graph (set_task i ts s) = gs_graph s"
  by (simp add: set_task_def)

lemma set_task_twice: "status_of (set_task i ts (set_task i ts' s)) = status_of (set_task i ts s)"
  by (auto simp: status_set_task)

text \<open>The two outcomes of running a ready task.\<close>

lemma execute_cases:
  assumes "execute_graph_node E n s = Inr (s', nxt)"
  obtains (idle) "ready_nodes (gs_graph s) (gs_states s) = []" "s' = s"
  | (failed) i ts0 ts where "i \<in> set (ready_nodes (gs_graph s) (gs_states s))" "ts_status ts = Failed"
      "s' = set_task i ts (set_task i ts0 s)" "nxt = End"
  | (finished) i ts0 ts r where "i \<in> set (ready_nodes (gs_graph s) (gs_states s))" "ts_status ts = Done"
      "s' = adapt E n i r (set_task i ts (set_task i ts0 s))"
proof (cases "ready_nodes (gs_graph s) (gs_states s)")
  case Nil
  with assms show ?thesis by (intro idle) (auto simp: execute_graph_node_def)
next
  case (Cons i rest)
  then have i: "i \<in> set (ready_nodes (gs_graph s) (gs_states s))" by simp
  then obtain m where "find (\<lambda>m. tn_id m = i) (tg_nodes (gs_graph s)) = Some m"
    using find_node [of i "gs_graph s"] by (auto simp: ready_iff)
  let ?run = "run_sub_task (ge_agent E n) (build_sub_task_user_message s i (tn_description m))"
  let ?s1 = "set_task i \<lparr>ts_status = Running, ts_result = None, ts_error = None\<rparr> s"
  show ?thesis
  proof (cases ?run)
    case (Inl e)
    let ?ts = "\<lparr>ts_status = Failed, ts_result = None, ts_error = Some (show_graph_error (ge_json_text E) e)\<rparr>"
    have "s' = set_task i ?ts ?s1" "nxt = End"
      using assms Cons \<open>find _ _ = Some m\<close> Inl by (simp_all add: execute_graph_node_def Let_def)
    then show ?thesis by (intro failed [OF i, of ?ts]) simp_all
  next
    case (Inr r)
    let ?ts = "\<lparr>ts_status = Done, ts_result = Some r, ts_error = None\<rparr>"
    have "s' = adapt E n i r (set_task i ?ts ?s1)"
      using assms Cons \<open>find _ _ = Some m\<close> Inr by (simp add: execute_graph_node_def Let_def split: if_splits)
    then show ?thesis by (intro finished [OF i, of ?ts]) simp_all
  qed
qed

lemma execute_ok: "\<exists>s' nxt. execute_graph_node E n s = Inr (s', nxt)"
proof (cases "ready_nodes (gs_graph s) (gs_states s)")
  case (Cons i rest)
  then have "i \<in> set (node_ids (gs_graph s))" by (metis list.set_intros(1) ready_iff)
  from find_node [OF this] Cons show ?thesis
    by (auto simp: execute_graph_node_def Let_def split: sum.splits)
qed (simp add: execute_graph_node_def)

subsection \<open>Expansion\<close>

lemma first_append_error_None: "first_append_error f xs = None \<longleftrightarrow> (\<forall>x \<in> set xs. f x = None)"
  by (induction xs) (auto split: option.splits)

lemma append_subgraph_Inr:
  assumes "append_subgraph g sub parent_id = Inr g'"
  shows "tg_nodes g' = tg_nodes g @ map (\<lambda>n. n\<lparr>tn_id := prefix_id parent_id (tn_id n)\<rparr>) (tg_nodes sub)"
    and "tg_edges g' = tg_edges g @ map (\<lambda>(f, t).
           (if f \<in> set (node_ids g) then f else prefix_id parent_id f, prefix_id parent_id t)) (tg_edges sub)"
    and "\<And>i. i \<in> set (node_ids sub) \<Longrightarrow> i \<notin> set (node_ids g)"
  using assms by (auto simp: append_subgraph_def Let_def first_append_error_None split: option.splits if_splits)

text \<open>An expansion either leaves the state alone or appends a subgraph whose nodes start as pending.\<close>

definition expanded_by :: "got_state \<Rightarrow> task_graph \<Rightarrow> got_state \<Rightarrow> bool" where
  "expanded_by s sub s' \<longleftrightarrow>
     length (tg_nodes (gs_graph s)) < MAX_TOTAL_NODES \<and> tg_nodes sub \<noteq> [] \<and>
     append_subgraph (gs_graph s) sub (''expand_'' @ show_nat (length (tg_nodes (gs_graph s)))) = Inr (gs_graph s') \<and>
     gs_states s' = fold (\<lambda>n. AList.update (tn_id n) task_node_state_default)
       (drop (length (tg_nodes (gs_graph s))) (tg_nodes (gs_graph s'))) (gs_states s)"

lemma maybe_expand_cases:
  assumes "maybe_expand lower s i a c x = (s', r)"
  shows "s' = s \<or> (\<exists>nodes edges. x = Some (nodes, edges) \<and> expanded_by s \<lparr>tg_nodes = nodes, tg_edges = edges\<rparr> s')"
  using assms
  by (auto simp: maybe_expand_def Let_def expanded_by_def not_le split: if_splits option.splits sum.splits prod.splits)

lemma adapt_cases:
  "adapt E n i r s = s \<or>
   ge_adaptive E \<and> (\<exists>raw nodes edges. parse_expand_output (ge_from_str E) raw i = Inr (Some (nodes, edges)) \<and>
      expanded_by s \<lparr>tg_nodes = nodes, tg_edges = edges\<rparr> (adapt E n i r s))"
proof (cases "ge_adaptive E")
  case True
  define x where "x = (case find (\<lambda>m. tn_id m = i) (tg_nodes (gs_graph s)) of None \<Rightarrow> None
    | Some m \<Rightarrow> (case expand_node_via_llm E n i r (gs_input s) m of Inl e \<Rightarrow> None | Inr sub \<Rightarrow> sub))"
  obtain c where a: "adapt E n i r s = fst (maybe_expand (ge_lower E) s i True c x)"
    using True by (simp add: adapt_def Let_def x_def)
  obtain s' res where m: "maybe_expand (ge_lower E) s i True c x = (s', res)" by fastforce
  from maybe_expand_cases [OF m] show ?thesis
  proof
    assume "\<exists>nodes edges. x = Some (nodes, edges) \<and> expanded_by s \<lparr>tg_nodes = nodes, tg_edges = edges\<rparr> s'"
    then obtain nodes edges where ne: "x = Some (nodes, edges)" "expanded_by s \<lparr>tg_nodes = nodes, tg_edges = edges\<rparr> s'"
      by blast
    then obtain q where "expand_node_via_llm E n i r (gs_input s) q = Inr (Some (nodes, edges))"
      by (auto simp: x_def split: option.splits sum.splits)
    then obtain raw where "parse_expand_output (ge_from_str E) raw i = Inr (Some (nodes, edges))"
      by (auto simp: expand_node_via_llm_def split: sum.splits)
    with ne(2) True show ?thesis unfolding a m fst_conv by blast
  qed (simp add: a m)
qed (simp add: adapt_def)

text \<open>The edges of a parsed expansion lead from the expanded node or a new node to a new node.\<close>

definition keep_edge :: "(string \<times> string) list \<Rightarrow> string \<Rightarrow> string list \<Rightarrow> string \<times> string \<Rightarrow> (string \<times> string) option" where
  "keep_edge names parent_id prefixed = (\<lambda>(f, t).
     case (map_of names f, map_of names t) of
       (Some f', Some t') \<Rightarrow> if (f' = parent_id \<or> f' \<in> set prefixed) \<and> t' \<in> set prefixed then Some (f', t') else None
     | _ \<Rightarrow> None)"

lemma keep_edge_Some:
  "keep_edge names p prefixed e = Some (f, t) \<Longrightarrow> (f = p \<or> f \<in> set prefixed) \<and> t \<in> set prefixed"
  by (auto simp: keep_edge_def split: prod.splits option.splits if_splits)

lemma parse_expand_edges:
  assumes "parse_expand_output from_str raw i = Inr (Some (nodes, edges))" "(f, t) \<in> set edges"
  shows "(f = i \<or> f \<in> tn_id ` set nodes) \<and> t \<in> tn_id ` set nodes"
proof -
  from assms(1) obtain p ns where "from_str raw = Some p" "rg_nodes p = Some ns"
    by (cases "from_str raw"; cases "rg_nodes (the (from_str raw))") (auto simp: parse_expand_output_def)
  with assms(1) obtain names where e: "edges = List.map_filter (keep_edge names i (map tn_id nodes)) (or_default [] (rg_edges p))"
    by (simp add: parse_expand_output_def Let_def keep_edge_def split: if_splits) blast
  from assms(2) [unfolded e in_map_filter] show ?thesis using keep_edge_Some by fastforce
qed

lemma parse_expand_distinct:
  assumes "parse_expand_output from_str raw i = Inr (Some (nodes, edges))"
  shows "distinct (map tn_id nodes)"
proof -
  from assms obtain p ns where "from_str raw = Some p" "rg_nodes p = Some ns"
    by (cases "from_str raw"; cases "rg_nodes (the (from_str raw))") (auto simp: parse_expand_output_def)
  with assms have "nodes = map (\<lambda>(k, n). \<lparr>tn_id = sub_id i k, tn_description = or_default [] (rn_description n),
      tn_tool_calls = []\<rparr>) (enumerate 0 ns)"
    by (simp add: parse_expand_output_def Let_def split: if_splits)
  then have "map tn_id nodes = map (sub_id i) [0..<length ns]"
    by (intro nth_equalityI) (simp_all add: nth_enumerate_eq case_prod_unfold)
  moreover have "inj (sub_id i)" by (rule injI) (simp add: sub_id_def show_nat_inj)
  ultimately show ?thesis by (simp add: distinct_map inj_on_subset [of _ UNIV])
qed

subsection \<open>Well-formed states\<close>

text \<open>The states a run goes through: a plan, then tasks one after the other.\<close>

inductive got_reach :: "'r got_env \<Rightarrow> got_state \<Rightarrow> bool" for E where
  planned: "plan_graph_node E n s = Inr (s', nxt) \<Longrightarrow> got_reach E s'"
| executed: "got_reach E s \<Longrightarrow> execute_graph_node E n s = Inr (s', nxt) \<Longrightarrow> got_reach E s'"

inductive_cases planned_elim: "got_reach E s"

text \<open>The same from a given plan on: the states of one run.\<close>

inductive got_from :: "'r got_env \<Rightarrow> got_state \<Rightarrow> got_state \<Rightarrow> bool" for E s0 where
  from_plan: "got_from E s0 s0"
| from_step: "got_from E s0 s \<Longrightarrow> execute_graph_node E n s = Inr (s', nxt) \<Longrightarrow> got_from E s0 s'"

definition planned_run :: "'r got_env \<Rightarrow> got_state \<Rightarrow> got_state \<Rightarrow> bool" where
  "planned_run E s0 s \<longleftrightarrow> (\<exists>n t nxt. plan_graph_node E n t = Inr (s0, nxt)) \<and> got_from E s0 s"

lemma planned_run_reach: "planned_run E s0 s \<Longrightarrow> got_reach E s"
proof -
  have "got_from E s0 s \<Longrightarrow> got_reach E s0 \<Longrightarrow> got_reach E s"
    by (induction rule: got_from.induct) (auto intro: got_reach.intros)
  then show "planned_run E s0 s \<Longrightarrow> got_reach E s" by (auto simp: planned_run_def intro: got_reach.intros)
qed

lemma planned_run_step: "planned_run E s0 s \<Longrightarrow> execute_graph_node E n s = Inr (s', nxt) \<Longrightarrow> planned_run E s0 s'"
  by (auto simp: planned_run_def intro: from_step)

abbreviation edge_rel :: "got_state \<Rightarrow> (string \<times> string) set" where
  "edge_rel s \<equiv> set (tg_edges (gs_graph s))"

abbreviation ids_of :: "got_state \<Rightarrow> string set" where
  "ids_of s \<equiv> set (node_ids (gs_graph s))"

definition got_ok :: "got_state \<Rightarrow> bool" where
  "got_ok s \<longleftrightarrow>
     (\<forall>i. status_of s i \<noteq> None \<longleftrightarrow> i \<in> ids_of s) \<and> (\<forall>i. status_of s i \<noteq> Some Running) \<and>
     edge_rel s \<subseteq> ids_of s \<times> ids_of s \<and> tg_nodes (gs_graph s) \<noteq> []"

lemma map_of_fold_same:
  "map_of (fold (\<lambda>n. AList.update (f n) v) xs al) k = (if k \<in> f ` set xs then Some v else map_of al k)"
  by (induction xs arbitrary: al) (auto simp: update_conv')

lemma status_initial: "i \<in> set (node_ids g) \<Longrightarrow> map_of (initial_states g) i = Some task_node_state_default"
  "i \<notin> set (node_ids g) \<Longrightarrow> map_of (initial_states g) i = None"
  using map_of_fold_same [of "\<lambda>i. i" task_node_state_default "node_ids g" "[]" i] by (simp_all add: initial_states_def)

lemma parse_task_graph_ok:
  "tg_nodes (parse_task_graph F raw inp) \<noteq> []"
  "set (tg_edges (parse_task_graph F raw inp)) \<subseteq>
     set (node_ids (parse_task_graph F raw inp)) \<times> set (node_ids (parse_task_graph F raw inp))"
  by (auto simp: parse_task_graph_def single_task_def Let_def image_image split: option.splits)

lemma plan_state:
  assumes "plan_graph_node E n s = Inr (s', nxt)"
  obtains content where "ge_llm E n 0 [ge_plan_prompt E, gs_input s] = Inr content"
    "gs_graph s' = parse_task_graph (ge_from_str E) (trim content) (gs_input s)" "gs_states s' = initial_states (gs_graph s')"
  using assms by (auto simp: plan_graph_node_def Let_def split: sum.splits)

lemma plan_status:
  assumes "plan_graph_node E n s = Inr (s', nxt)"
  shows "status_of s' i = (if i \<in> ids_of s' then Some Pending else None)"
  using assms
  by (elim plan_state) (auto simp: status_of_def status_initial task_node_state_default_def simp del: set_map)

lemma plan_ok: "plan_graph_node E n s = Inr (s', nxt) \<Longrightarrow> got_ok s'"
proof -
  assume a: "plan_graph_node E n s = Inr (s', nxt)"
  then obtain raw where "gs_graph s' = parse_task_graph (ge_from_str E) raw (gs_input s)" by (rule plan_state)
  then have "tg_nodes (gs_graph s') \<noteq> []" "edge_rel s' \<subseteq> ids_of s' \<times> ids_of s'"
    using parse_task_graph_ok by metis+
  with plan_status [OF a] show ?thesis by (auto simp: got_ok_def simp del: set_map)
qed

lemma set_task_ok: "got_ok s \<Longrightarrow> i \<in> ids_of s \<Longrightarrow> ts_status ts \<noteq> Running \<Longrightarrow> got_ok (set_task i ts s)"
  by (auto simp: got_ok_def status_set_task simp del: set_map)

lemma set_task_twice_ok:
  assumes "got_ok s" "i \<in> ids_of s" "ts_status ts \<noteq> Running"
  shows "got_ok (set_task i ts (set_task i ts' s))"
  using set_task_ok [OF assms] set_task_twice [of i ts ts' s] by (simp add: got_ok_def)

text \<open>What an expansion adds: nodes under fresh names, all pending.\<close>

abbreviation new_ids :: "got_state \<Rightarrow> task_graph \<Rightarrow> string set" where
  "new_ids s sub \<equiv> prefix_id (''expand_'' @ show_nat (length (tg_nodes (gs_graph s)))) ` set (node_ids sub)"

lemma expanded_status:
  assumes "expanded_by s sub s'"
  shows "status_of s' j = (if j \<in> new_ids s sub then Some Pending else status_of s j)"
    and "ids_of s' = ids_of s \<union> new_ids s sub"
    and "length (tg_nodes (gs_graph s')) = length (tg_nodes (gs_graph s)) + length (tg_nodes sub)"
proof -
  note a = append_subgraph_Inr(1) [of "gs_graph s" sub _ "gs_graph s'"]
  have n: "tg_nodes (gs_graph s') = tg_nodes (gs_graph s) @
      map (\<lambda>n. n\<lparr>tn_id := prefix_id (''expand_'' @ show_nat (length (tg_nodes (gs_graph s)))) (tn_id n)\<rparr>) (tg_nodes sub)"
    by (rule a) (use assms in \<open>simp add: expanded_by_def\<close>)
  show "ids_of s' = ids_of s \<union> new_ids s sub" "length (tg_nodes (gs_graph s')) = length (tg_nodes (gs_graph s)) + length (tg_nodes sub)"
    by (auto simp: n)
  have st: "gs_states s' = fold (\<lambda>n. AList.update (tn_id n) task_node_state_default)
       (map (\<lambda>n. n\<lparr>tn_id := prefix_id (''expand_'' @ show_nat (length (tg_nodes (gs_graph s)))) (tn_id n)\<rparr>) (tg_nodes sub)) (gs_states s)"
    using assms by (simp add: expanded_by_def n)
  show "status_of s' j = (if j \<in> new_ids s sub then Some Pending else status_of s j)"
    by (auto simp: status_of_def st map_of_fold_same task_node_state_default_def image_image)
qed

lemma expanded_edges:
  assumes "expanded_by s sub s'" "i \<in> ids_of s"
    and "\<forall>(f, t) \<in> set (tg_edges sub). (f = i \<or> f \<in> set (node_ids sub)) \<and> t \<in> set (node_ids sub)"
  obtains X where "edge_rel s' = edge_rel s \<union> X" "X \<subseteq> (ids_of s \<union> new_ids s sub) \<times> new_ids s sub"
proof -
  let ?p = "''expand_'' @ show_nat (length (tg_nodes (gs_graph s)))"
  let ?m = "\<lambda>(f, t). (if f \<in> ids_of s then f else prefix_id ?p f, prefix_id ?p t)"
  have e: "edge_rel s' = edge_rel s \<union> ?m ` set (tg_edges sub)"
    using assms(1) append_subgraph_Inr(2) [of "gs_graph s" sub ?p "gs_graph s'"] by (simp add: expanded_by_def)
  have "?m x \<in> (ids_of s \<union> new_ids s sub) \<times> new_ids s sub" if "x \<in> set (tg_edges sub)" for x
    using assms(2) assms(3) that by (cases x) (auto simp del: set_map)
  then show thesis by (intro that [OF e]) blast
qed

lemma expanded_ok:
  assumes "got_ok s" "expanded_by s sub s'" "i \<in> ids_of s"
    and "\<forall>(f, t) \<in> set (tg_edges sub). (f = i \<or> f \<in> set (node_ids sub)) \<and> t \<in> set (node_ids sub)"
  shows "got_ok s'"
proof -
  obtain X where X: "edge_rel s' = edge_rel s \<union> X" "X \<subseteq> (ids_of s \<union> new_ids s sub) \<times> new_ids s sub"
    using assms(2-4) by (rule expanded_edges)
  have "edge_rel s' \<subseteq> ids_of s' \<times> ids_of s'"
    using X assms(1) unfolding expanded_status(2) [OF assms(2)] got_ok_def by blast
  moreover have "tg_nodes (gs_graph s') \<noteq> []"
    using expanded_status(3) [OF assms(2)] assms(1) by (auto simp: got_ok_def)
  ultimately show ?thesis
    using assms(1) unfolding got_ok_def expanded_status(1,2) [OF assms(2)] by auto
qed

text \<open>One rule for everything a step keeps: running a task, and an expansion after it.\<close>

lemma execute_invariant:
  assumes "execute_graph_node E n s = Inr (s', nxt)" "got_ok s" "P s"
    and run: "\<And>i ts0 ts. i \<in> set (ready_nodes (gs_graph s) (gs_states s)) \<Longrightarrow> ts_status ts = Done \<or> ts_status ts = Failed \<Longrightarrow>
      P (set_task i ts (set_task i ts0 s))"
    and grow: "\<And>s1 sub s2 i. got_ok s1 \<Longrightarrow> P s1 \<Longrightarrow> expanded_by s1 sub s2 \<Longrightarrow> i \<in> ids_of s1 \<Longrightarrow> 
      \<forall>(f, t) \<in> set (tg_edges sub). (f = i \<or> f \<in> set (node_ids sub)) \<and> t \<in> set (node_ids sub) \<Longrightarrow>
      ge_adaptive E \<Longrightarrow> distinct (node_ids sub) \<Longrightarrow> P s2"
  shows "P s'"
  using assms(1)
proof (cases rule: execute_cases)
  case (finished i ts0 ts r)
  let ?s1 = "set_task i ts (set_task i ts0 s)"
  have i: "i \<in> ids_of s" using finished(1) by (simp add: ready_iff)
  have ok: "got_ok ?s1" using set_task_twice_ok [OF assms(2) i] finished(2) by simp
  have p: "P ?s1" using run [OF finished(1)] finished(2) by simp
  from adapt_cases [of E n i r ?s1] show ?thesis
  proof
    assume "ge_adaptive E \<and> (\<exists>raw nodes edges. parse_expand_output (ge_from_str E) raw i = Inr (Some (nodes, edges)) \<and>
      expanded_by ?s1 \<lparr>tg_nodes = nodes, tg_edges = edges\<rparr> (adapt E n i r ?s1))"
    then obtain raw nodes edges where a: "ge_adaptive E" and o: "parse_expand_output (ge_from_str E) raw i = Inr (Some (nodes, edges))"
      "expanded_by ?s1 \<lparr>tg_nodes = nodes, tg_edges = edges\<rparr> s'" unfolding finished(3) by blast
    show ?thesis
      by (rule grow [OF ok p o(2), of i]) (use i a parse_expand_edges [OF o(1)] parse_expand_distinct [OF o(1)] in auto)
  qed (use p finished(3) in simp)
qed (use assms run in auto)

lemma execute_ok_state: "execute_graph_node E n s = Inr (s', nxt) \<Longrightarrow> got_ok s \<Longrightarrow> got_ok s'"
proof (erule execute_invariant [where P = got_ok])
  fix i ts0 and ts :: task_node_state
  assume "got_ok s" "i \<in> set (ready_nodes (gs_graph s) (gs_states s))" "ts_status ts = Done \<or> ts_status ts = Failed"
  then show "got_ok (set_task i ts (set_task i ts0 s))" by (intro set_task_twice_ok) (auto simp: ready_iff simp del: set_map)
qed (assumption, assumption, erule (3) expanded_ok)

lemma got_reach_ok: "got_reach E s \<Longrightarrow> got_ok s"
  by (induction rule: got_reach.induct) (auto intro: plan_ok execute_ok_state)

subsection \<open>Dependencies\<close>

text \<open>Names given by an expansion do not exist yet, when the plan does not use such names itself.\<close>

definition plan_names_plain :: "got_state \<Rightarrow> bool" where
  "plan_names_plain s0 \<longleftrightarrow> (\<forall>i \<in> set (node_ids (gs_graph s0)). take 7 i \<noteq> ''expand_'')"

definition names_used :: "got_state \<Rightarrow> bool" where
  "names_used s \<longleftrightarrow>
     (\<forall>i \<in> ids_of s. \<forall>k m. i = prefix_id (''expand_'' @ show_nat k) m \<longrightarrow> k < length (tg_nodes (gs_graph s)))"

lemma show_nat_no_underscore: "CHR ''_'' \<notin> set (show_nat n)"
proof
  assume "CHR ''_'' \<in> set (show_nat n)"
  then obtain d where "d < 10" "CHR ''_'' = digit_char d"
    using show_base_digits [of 10 "CHR ''_''" n] by (auto simp: show_nat_def)
  then have "(of_char CHR ''_'' :: nat) = 48 + d" using of_char_digit_char [of d] by simp
  with \<open>d < 10\<close> show False by simp
qed

lemma split_at_first: "c \<notin> set a \<Longrightarrow> c \<notin> set b \<Longrightarrow> a @ c # x = b @ c # y \<Longrightarrow> a = b"
proof (induction a arbitrary: b)
  case Nil
  then show ?case by (cases b) auto
next
  case (Cons d a)
  then show ?case by (cases b) auto
qed

lemma prefix_expand_inj: "prefix_id (''expand_'' @ show_nat k) m = prefix_id (''expand_'' @ show_nat k') m' \<Longrightarrow> k = k'"
  using split_at_first [of "CHR ''_''" "show_nat k" "show_nat k'" m m'] show_nat_no_underscore show_nat_inj
  by (auto simp: prefix_id_def)

lemma new_ids_fresh: "names_used s \<Longrightarrow> new_ids s sub \<inter> ids_of s = {}"
  by (fastforce simp: names_used_def simp del: set_map)

lemma expanded_names:
  assumes "names_used s" "expanded_by s sub s'"
  shows "names_used s'"
proof -
  have "tg_nodes sub \<noteq> []" using assms(2) by (simp add: expanded_by_def)
  then have l: "length (tg_nodes (gs_graph s)) < length (tg_nodes (gs_graph s'))"
    by (simp add: expanded_status(3) [OF assms(2)])
  show ?thesis unfolding names_used_def
  proof (intro ballI allI impI)
    fix i k m
    assume i: "i \<in> ids_of s'" "i = prefix_id (''expand_'' @ show_nat k) m"
    then consider "i \<in> ids_of s" | "i \<in> new_ids s sub" using expanded_status(2) [OF assms(2)] by blast
    then show "k < length (tg_nodes (gs_graph s'))"
    proof cases
      case 1
      with assms(1) i(2) l show ?thesis unfolding names_used_def by fastforce
    next
      case 2
      with i(2) have "k = length (tg_nodes (gs_graph s))" using prefix_expand_inj by blast
      with l show ?thesis by simp
    qed
  qed
qed

text \<open>A task that has started depends on nothing that is not done, and on no cycle.\<close>

definition sound_start :: "got_state \<Rightarrow> string \<Rightarrow> bool" where
  "sound_start s i \<longleftrightarrow> (\<forall>f. (f, i) \<in> (edge_rel s)\<^sup>+ \<longrightarrow> status_of s f = Some Done \<and> (f, f) \<notin> (edge_rel s)\<^sup>+)"

definition dependencies_respected :: "got_state \<Rightarrow> bool" where
  "dependencies_respected s \<longleftrightarrow> (\<forall>i. status_of s i \<in> {Some Done, Some Failed} \<longrightarrow> sound_start s i)"

lemma ready_sound_start:
  assumes d: "dependencies_respected s" and i: "i \<in> set (ready_nodes (gs_graph s) (gs_states s))"
  shows "sound_start s i"
  unfolding sound_start_def
proof (intro allI impI)
  fix f assume f: "(f, i) \<in> (edge_rel s)\<^sup>+"
  then obtain p where p: "(p, i) \<in> edge_rel s" "f = p \<or> (f, p) \<in> (edge_rel s)\<^sup>+" by (auto elim: tranclE)
  then have "status_of s p = Some Done" using i by (simp add: ready_iff)
  then have sp: "sound_start s p" using d by (simp add: dependencies_respected_def)
  with p(2) \<open>status_of s p = Some Done\<close> show "status_of s f = Some Done \<and> (f, f) \<notin> (edge_rel s)\<^sup>+"
    unfolding sound_start_def by blast
qed

lemma run_respects:
  assumes d: "dependencies_respected s" and i: "i \<in> set (ready_nodes (gs_graph s) (gs_states s))"
  shows "dependencies_respected (set_task i ts (set_task i ts0 s))"
  unfolding dependencies_respected_def
proof (intro allI impI)
  fix j
  let ?s = "set_task i ts (set_task i ts0 s)"
  assume j: "status_of ?s j \<in> {Some Done, Some Failed}"
  have si: "sound_start s i" by (rule ready_sound_start [OF assms])
  have pending: "status_of s i = Some Pending" using i by (simp add: ready_iff)
  have sj: "sound_start s j"
    using j si d unfolding set_task_twice status_set_task dependencies_respected_def by (cases "j = i") auto
  have "(i, j) \<notin> (edge_rel s)\<^sup>+" using sj pending unfolding sound_start_def by fastforce
  with sj show "sound_start ?s j" unfolding sound_start_def set_task_twice status_set_task by auto
qed

text \<open>New edges into new nodes leave the ancestors of the old nodes alone.\<close>

lemma trancl_old:
  assumes "(f, j) \<in> (E \<union> X)\<^sup>+" "j \<in> V" "E \<subseteq> V \<times> V" "\<forall>(a, b) \<in> X. b \<notin> V"
  shows "(f, j) \<in> E\<^sup>+ \<and> f \<in> V"
  using assms(1,2)
proof (induction rule: converse_trancl_induct)
  case (base y)
  with assms(3,4) show ?case by auto
next
  case (step y z)
  then have "(y, z) \<in> E" using assms(4) by auto
  with step assms(3) show ?case by (auto intro: trancl_into_trancl2)
qed

lemma expansion_respects:
  assumes ok: "got_ok s" and d: "dependencies_respected s" and u: "names_used s" and x: "expanded_by s sub s'" "i \<in> ids_of s"
    and e: "\<forall>(f, t) \<in> set (tg_edges sub). (f = i \<or> f \<in> set (node_ids sub)) \<and> t \<in> set (node_ids sub)"
  shows "dependencies_respected s'"
proof -
  obtain X where X: "edge_rel s' = edge_rel s \<union> X" "X \<subseteq> (ids_of s \<union> new_ids s sub) \<times> new_ids s sub"
    using x e by (rule expanded_edges)
  note fresh = new_ids_fresh [OF u, of sub]
  have old: "(f, j) \<in> (edge_rel s)\<^sup>+ \<and> f \<in> ids_of s" if "(f, j) \<in> (edge_rel s')\<^sup>+" "j \<in> ids_of s" for f j
    by (rule trancl_old [of f j _ X]) (use that X fresh ok in \<open>auto simp: got_ok_def simp del: set_map\<close>)
  show ?thesis unfolding dependencies_respected_def
  proof (intro allI impI)
    fix j assume j: "status_of s' j \<in> {Some Done, Some Failed}"
    then have st: "status_of s j \<in> {Some Done, Some Failed}"
      unfolding expanded_status(1) [OF x(1)] by (auto split: if_splits simp del: set_map)
    then have ss: "sound_start s j" and j: "j \<in> ids_of s"
      using d ok unfolding dependencies_respected_def got_ok_def by auto
    show "sound_start s' j"
      unfolding sound_start_def
    proof (intro allI impI)
      fix f assume "(f, j) \<in> (edge_rel s')\<^sup>+"
      from old [OF this j] have f: "(f, j) \<in> (edge_rel s)\<^sup>+" "f \<in> ids_of s" by simp_all
      then have "f \<notin> new_ids s sub" using fresh by blast
      then show "status_of s' f = Some Done \<and> (f, f) \<notin> (edge_rel s')\<^sup>+"
        using ss f(1) old [OF _ f(2), of f] unfolding sound_start_def expanded_status(1) [OF x(1)] by auto
    qed
  qed
qed

text \<open>What a run keeps. The names of an expansion matter only where there are expansions.\<close>

definition got_run_inv :: "'r got_env \<Rightarrow> got_state \<Rightarrow> bool" where
  "got_run_inv E s \<longleftrightarrow> got_ok s \<and> (ge_adaptive E \<longrightarrow> names_used s) \<and> dependencies_respected s"

lemma plan_names_used: "plan_names_plain s0 \<Longrightarrow> names_used s0"
  by (auto simp: plan_names_plain_def names_used_def prefix_id_def)

lemma got_run_inv_step:
  assumes "execute_graph_node E n s = Inr (s', nxt)" "got_run_inv E s"
  shows "got_run_inv E s'"
  using assms(1)
proof (rule execute_invariant [where P = "got_run_inv E"])
  show "got_ok s" "got_run_inv E s" using assms(2) by (simp_all add: got_run_inv_def)
next
  fix i ts0 and ts :: task_node_state
  assume a: "i \<in> set (ready_nodes (gs_graph s) (gs_states s))" "ts_status ts = Done \<or> ts_status ts = Failed"
  then have "i \<in> ids_of s" by (simp add: ready_iff del: set_map)
  with a assms(2) show "got_run_inv E (set_task i ts (set_task i ts0 s))"
    using set_task_twice_ok run_respects by (auto simp: got_run_inv_def names_used_def simp del: set_map)
next
  fix s1 sub s2 i
  assume "got_run_inv E s1" "expanded_by s1 sub s2" "i \<in> ids_of s1" "ge_adaptive E"
    "\<forall>(f, t) \<in> set (tg_edges sub). (f = i \<or> f \<in> set (node_ids sub)) \<and> t \<in> set (node_ids sub)"
  then show "got_run_inv E s2"
    unfolding got_run_inv_def using expanded_ok expanded_names expansion_respects by blast
qed

lemma planned_run_inv:
  assumes "planned_run E s0 s" "ge_adaptive E \<longrightarrow> plan_names_plain s0"
  shows "got_run_inv E s"
proof -
  obtain n t nxt where p: "plan_graph_node E n t = Inr (s0, nxt)" "got_from E s0 s"
    using assms(1) unfolding planned_run_def by blast
  have "dependencies_respected s0" using plan_status [OF p(1)] by (simp add: dependencies_respected_def)
  then have "got_run_inv E s0" using plan_ok [OF p(1)] plan_names_used assms(2) by (auto simp: got_run_inv_def)
  with p(2) show ?thesis by (induction rule: got_from.induct) (auto intro: got_run_inv_step)
qed

text \<open>The tasks of a run keep different names.\<close>

lemma expanded_distinct:
  assumes "expanded_by s sub s'" "names_used s" "distinct (node_ids (gs_graph s))" "distinct (node_ids sub)"
  shows "distinct (node_ids (gs_graph s'))"
proof -
  let ?p = "prefix_id (''expand_'' @ show_nat (length (tg_nodes (gs_graph s))))"
  have "node_ids (gs_graph s') = node_ids (gs_graph s) @ map ?p (node_ids sub)"
    using assms(1) append_subgraph_Inr(1) by (fastforce simp: expanded_by_def)
  moreover have "inj ?p" by (rule injI) (simp add: prefix_id_def)
  then have "distinct (map ?p (node_ids sub))" using assms(4) unfolding distinct_map [of ?p] by (blast intro: inj_on_subset)
  moreover have "set (map ?p (node_ids sub)) \<inter> ids_of s = {}" using new_ids_fresh [OF assms(2), of sub] by (simp only: set_map)
  ultimately show ?thesis using assms(3) by (simp only: distinct_append Int_commute [of "ids_of s"] simp_thms)
qed

lemma planned_run_distinct:
  assumes "planned_run E s0 s" "ge_adaptive E \<longrightarrow> plan_names_plain s0" "distinct (node_ids (gs_graph s0))"
  shows "distinct (node_ids (gs_graph s))"
proof -
  have "got_from E s0 s" using assms(1) by (simp add: planned_run_def)
  then show ?thesis using assms(3)
  proof (induction rule: got_from.induct)
    case (from_step s n s' nxt)
    let ?P = "\<lambda>s. got_run_inv E s \<and> distinct (node_ids (gs_graph s))"
    have inv: "got_run_inv E s"
      using from_step.hyps(1) assms(1,2) planned_run_inv [of E s0 s] by (simp add: planned_run_def)
    have "?P s'" using from_step.hyps(2)
    proof (rule execute_invariant [where P = ?P])
      show "got_ok s" "?P s" using inv from_step by (simp_all add: got_run_inv_def)
    next
      fix i ts0 and ts :: task_node_state
      assume a: "i \<in> set (ready_nodes (gs_graph s) (gs_states s))" "ts_status ts = Done \<or> ts_status ts = Failed"
      then have "i \<in> ids_of s" by (simp add: ready_iff del: set_map)
      with a inv from_step.IH [OF from_step.prems] show "?P (set_task i ts (set_task i ts0 s))"
        using set_task_twice_ok run_respects by (auto simp: got_run_inv_def names_used_def simp del: set_map)
    next
      fix s1 sub s2 i
      assume g: "?P s1" "expanded_by s1 sub s2" "i \<in> ids_of s1" "ge_adaptive E" "distinct (node_ids sub)"
        "\<forall>(f, t) \<in> set (tg_edges sub). (f = i \<or> f \<in> set (node_ids sub)) \<and> t \<in> set (node_ids sub)"
      then have "got_run_inv E s2"
        unfolding got_run_inv_def using expanded_ok expanded_names expansion_respects by blast
      moreover have "names_used s1" using g(1,4) by (simp add: got_run_inv_def)
      ultimately show "?P s2" using expanded_distinct [OF g(2)] g(1,5) by blast
    qed
    then show ?case by blast
  qed
qed

subsection \<open>Every run ends\<close>

definition pending_ids :: "got_state \<Rightarrow> string set" where
  "pending_ids s = {i. status_of s i = Some Pending}"

definition got_order :: "(got_state \<times> got_state) set" where
  "got_order = measures [\<lambda>s. MAX_TOTAL_NODES - length (tg_nodes (gs_graph s)), \<lambda>s. card (pending_ids s)]"

lemma wf_got_order: "wf got_order"
  by (simp add: got_order_def)

lemma finite_pending: "finite (pending_ids s)"
proof (rule finite_subset)
  show "pending_ids s \<subseteq> dom (map_of (gs_states s))" by (auto simp: pending_ids_def status_of_def)
qed (rule finite_dom_map_of)

lemma run_fewer_pending:
  assumes "i \<in> set (ready_nodes (gs_graph s) (gs_states s))" "ts_status ts \<noteq> Pending"
  shows "card (pending_ids (set_task i ts (set_task i ts0 s))) < card (pending_ids s)"
proof (rule psubset_card_mono [OF finite_pending])
  have "i \<in> pending_ids s" using assms(1) by (simp add: ready_iff pending_ids_def)
  with assms(2) show "pending_ids (set_task i ts (set_task i ts0 s)) \<subset> pending_ids s"
    by (auto simp: pending_ids_def set_task_twice status_set_task split: if_splits)
qed

lemma execute_progress:
  assumes "execute_graph_node E n s = Inr (s', nxt)" "ready_nodes (gs_graph s) (gs_states s) \<noteq> []"
  shows "(s', s) \<in> got_order"
  using assms(1)
proof (cases rule: execute_cases)
  case (failed i ts0 ts)
  with run_fewer_pending [OF failed(1), of ts ts0] show ?thesis by (simp add: got_order_def)
next
  case (finished i ts0 ts r)
  let ?s1 = "set_task i ts (set_task i ts0 s)"
  from adapt_cases [of E n i r ?s1] show ?thesis
  proof
    assume "adapt E n i r ?s1 = ?s1"
    with run_fewer_pending [OF finished(1), of ts ts0] finished(2,3) show ?thesis by (simp add: got_order_def)
  next
    assume "ge_adaptive E \<and> (\<exists>raw nodes edges. parse_expand_output (ge_from_str E) raw i = Inr (Some (nodes, edges)) \<and>
      expanded_by ?s1 \<lparr>tg_nodes = nodes, tg_edges = edges\<rparr> (adapt E n i r ?s1))"
    then obtain sub where x: "expanded_by ?s1 sub s'" unfolding finished(3) by blast
    then have "length (tg_nodes (gs_graph s)) < MAX_TOTAL_NODES" "tg_nodes sub \<noteq> []" by (simp_all add: expanded_by_def)
    with expanded_status(3) [OF x] show ?thesis by (simp add: got_order_def) (simp add: diff_less_mono2)
  qed
qed (use assms(2) in simp)

text \<open>The router of the agent asks only whether a task is ready; what the node answered is ignored.\<close>

lemma got_router: "next_node (got_compiled E) ''execute_graph'' s nxt = Some (got_execute_condition s)"
  by (simp add: next_node_def got_compiled_def resolve_route_def got_execute_condition_def)

text \<open>A run as the runner of the agent sets it up: a node replaces the state, and the only middleware is the
  logging one of a verbose run.\<close>

definition plain_run :: "(got_state, 'f) run_env \<Rightarrow> bool" where
  "plain_run R \<longleftrightarrow> re_updater R = (\<lambda>_ t. t) \<and> re_middleware R \<in> {None, Some logging_around_run}"

lemma plain_call: "plain_run R \<Longrightarrow> call_node R i node n s = node n s"
  unfolding plain_run_def by (intro call_node_logged) (rule conjunct2)

lemma got_execute_turn:
  assumes "plain_run R" "execute_graph_node E n s = Inr (s', nxt)"
  shows "graph_turn R (got_compiled E) cancelled config p n ''execute_graph'' s w =
     (if cancelled p then Stop (Failed_With Cancelled_Err) s w
      else if cancelled (p + 1) then Stop (Failed_With Cancelled_Err) s' w
      else if ready_nodes (gs_graph s') (gs_states s') = [] then Stop Finished s' (save_state R config s' w)
      else GoOn ''execute_graph'' s' (n + 1))"
proof -
  have "execute_node_with_retry R ''execute_graph'' (execute_graph_node E) s n 0 = (Inr (s', nxt), n + 1)"
    using assms(2) by (simp add: execute_node_with_retry.simps [of R _ _ s n 0] plain_call [OF assms(1)])
  moreover have "map_of (cg_nodes (got_compiled E)) ''execute_graph'' = Some (execute_graph_node E)"
    by (simp add: got_compiled_def)
  ultimately show ?thesis using assms(1)
    by (simp add: graph_turn_def got_router got_execute_condition_def plain_run_def END_def)
qed

definition good_end :: "(got_state \<Rightarrow> bool) \<Rightarrow> (run_end \<times> got_state \<times> 'w) option \<Rightarrow> bool" where
  "good_end P r \<longleftrightarrow>
     (\<exists>e s' w'. r = Some (e, s', w') \<and> e \<noteq> Panicked \<and>
        (e = Finished \<longrightarrow> P s' \<and> ready_nodes (gs_graph s') (gs_states s') = []))"

lemma execute_loop:
  assumes "plain_run R" "P s" and keep: "\<And>n s s' nxt. P s \<Longrightarrow> execute_graph_node E n s = Inr (s', nxt) \<Longrightarrow> P s'"
  shows "good_end P (run_loop_inner R (got_compiled E) cancelled config p n ''execute_graph'' s w)"
  using assms(2)
proof (induction s arbitrary: p n rule: wf_induct_rule [OF wf_got_order])
  case (1 s)
  obtain s' nxt where x: "execute_graph_node E n s = Inr (s', nxt)" using execute_ok by metis
  have p: "P s'" by (rule keep [OF "1.prems" x])
  note turn = got_execute_turn [OF assms(1) x, of cancelled config p w]
  show ?case
  proof (cases "cancelled p \<or> cancelled (p + 1) \<or> ready_nodes (gs_graph s') (gs_states s') = []")
    case True
    with turn p show ?thesis by (subst run_loop_inner.simps) (auto simp: good_end_def)
  next
    case False
    have "ready_nodes (gs_graph s) (gs_states s) \<noteq> []"
    proof
      assume "ready_nodes (gs_graph s) (gs_states s) = []"
      then have "s' = s" using x by (simp add: execute_graph_node_def)
      with False \<open>ready_nodes (gs_graph s) (gs_states s) = []\<close> show False by simp
    qed
    from "1.IH" [OF execute_progress [OF x this] p] False turn show ?thesis
      by (subst run_loop_inner.simps) simp
  qed
qed

lemma got_plan_turn:
  assumes "plain_run R"
  shows "(\<exists>e s' w'. graph_turn R (got_compiled E) cancelled config p n ''plan_graph'' s w = Stop e s' w' \<and> e \<noteq> Panicked \<and> e \<noteq> Finished) \<or>
    (\<exists>m s' nxt n'. plan_graph_node E m s = Inr (s', nxt) \<and>
       graph_turn R (got_compiled E) cancelled config p n ''plan_graph'' s w = GoOn ''execute_graph'' s' n')"
proof -
  obtain r n' where x: "execute_node_with_retry R ''plan_graph'' (plan_graph_node E) s n 0 = (r, n')" by fastforce
  have node: "map_of (cg_nodes (got_compiled E)) ''plan_graph'' = Some (plan_graph_node E)"
    by (simp add: got_compiled_def)
  show ?thesis
  proof (cases r)
    case (Inl e)
    then show ?thesis by (cases e) (simp_all add: graph_turn_def node x)
  next
    case (Inr out)
    obtain s' nxt where out: "out = (s', nxt)" by fastforce
    obtain m where m: "call_node R ''plan_graph'' (plan_graph_node E) m s = Inr (s', nxt)"
      using execute_result_from_call x Inr out by metis
    then have plan: "plan_graph_node E m s = Inr (s', nxt)" by (simp add: plain_call [OF assms])
    then have "nxt = Continue" by (auto simp: plan_graph_node_def Let_def split: sum.splits)
    then have "next_node (got_compiled E) ''plan_graph'' s' nxt = Some ''execute_graph''"
      by (simp add: next_node_def got_compiled_def)
    with plan show ?thesis using assms
      by (auto simp: graph_turn_def node x Inr out plain_run_def END_def Let_def)
  qed
qed

text \<open>C37: every run of the graph-of-thoughts agent, verbose or not, ends, whatever the model answers, plans and
  adds: it finishes, fails or is cancelled, but it does not panic, and when it finishes it does so in a state that executing tasks one after the other made of the plan, with
  no task left to start. So a failed task does not end the run: the node answers End, as its
  comment says, but the router alone decides and goes on with the tasks that are ready (reported as a finding).\<close>

theorem got_run_returns:
  assumes "plain_run R"
  shows "\<exists>e s' w'. graph_stream R (got_compiled E) cancelled s config w = Some (e, s', w') \<and> e \<noteq> Panicked \<and>
    (e = Finished \<longrightarrow> (\<exists>s0. planned_run E s0 s') \<and> ready_nodes (gs_graph s') (gs_states s') = [])"
proof -
  let ?P = "\<lambda>s'. \<exists>s0. planned_run E s0 s'"
  have "good_end ?P (run_loop_inner R (got_compiled E) cancelled config 0 0 ''plan_graph'' s w)"
    using got_plan_turn [OF assms, of E cancelled config 0 0 s w]
  proof (elim disjE exE conjE)
    fix m s' nxt n'
    assume a: "plan_graph_node E m s = Inr (s', nxt)"
      "graph_turn R (got_compiled E) cancelled config 0 0 ''plan_graph'' s w = GoOn ''execute_graph'' s' n'"
    from a(1) have "planned_run E s' s'" by (auto simp: planned_run_def intro: from_plan)
    then have "good_end ?P (run_loop_inner R (got_compiled E) cancelled config (0 + 2) n' ''execute_graph'' s' w)"
      by (intro execute_loop [OF assms]) (blast intro: planned_run_step)+
    with a(2) show ?thesis by (subst run_loop_inner.simps) simp
  qed (subst run_loop_inner.simps, auto simp: good_end_def)
  then show ?thesis by (auto simp: good_end_def graph_stream_def got_compiled_def)
qed

subsection \<open>What a run gets done\<close>

lemma blocked_ancestor:
  assumes ok: "got_ok s" and none: "ready_nodes (gs_graph s) (gs_states s) = []" and i: "status_of s i = Some Pending"
  shows "\<exists>f. (f, i) \<in> (edge_rel s)\<^sup>+ \<and> (status_of s f = Some Failed \<or> (f, f) \<in> (edge_rel s)\<^sup>+)"
proof (rule ccontr)
  assume free: "\<not> ?thesis"
  let ?A = "{f. (f, i) \<in> (edge_rel s)\<^sup>*}"
  let ?r = "edge_rel s \<inter> UNIV \<times> ?A"
  have "acyclic ?r"
  proof (rule acyclicI, intro allI notI)
    fix x assume x: "(x, x) \<in> ?r\<^sup>+"
    then have cyc: "(x, x) \<in> (edge_rel s)\<^sup>+" by (rule trancl_mono) blast
    from x have "x \<in> ?A" by (auto elim: tranclE)
    with cyc have "(x, i) \<in> (edge_rel s)\<^sup>+" by (metis mem_Collect_eq rtranclD)
    with cyc free show False by blast
  qed
  then have "wf ?r" by (simp add: finite_acyclic_wf)
  moreover have "i \<in> ?A \<inter> pending_ids s" using i by (simp add: pending_ids_def)
  ultimately obtain z where z: "z \<in> ?A \<inter> pending_ids s" "\<And>y. (y, z) \<in> ?r \<Longrightarrow> y \<notin> ?A \<inter> pending_ids s"
    by (meson wfE_min)
  have "z \<in> ids_of s" using z(1) ok by (auto simp: got_ok_def pending_ids_def simp del: set_map)
  moreover have "z \<notin> set (ready_nodes (gs_graph s) (gs_states s))" using none by simp
  ultimately obtain f where f: "(f, z) \<in> edge_rel s" "f \<notin> ids_of s \<or> status_of s f \<noteq> Some Done"
    using z(1) unfolding ready_iff by (auto simp: pending_ids_def)
  then have "(f, i) \<in> (edge_rel s)\<^sup>+" "(f, z) \<in> ?r" using z(1) by (auto intro: rtrancl_into_trancl2)
  moreover have "f \<in> ids_of s" using f(1) ok by (auto simp: got_ok_def simp del: set_map)
  then have "status_of s f = Some Pending \<or> status_of s f = Some Failed"
    using f(2) ok unfolding got_ok_def by (metis not_Some_eq task_status.exhaust)
  ultimately show False using z(2) [of f] free trancl_into_rtrancl [of f i] by (auto simp: pending_ids_def)
qed

text \<open>C38: in a run of a plan a task is started only after everything it depends on, directly or not, is done, and
  never when it depends on a cycle. Where the run may add tasks (the adaptive mode) this needs that the plan
  gives no task a name that begins with expand_, as the names of added tasks do.\<close>

theorem dependencies_done_first:
  assumes "planned_run E s0 s" "ge_adaptive E \<longrightarrow> plan_names_plain s0"
    and "status_of s i \<in> {Some Done, Some Failed}" "(f, i) \<in> (edge_rel s)\<^sup>+"
  shows "status_of s f = Some Done \<and> (f, f) \<notin> (edge_rel s)\<^sup>+"
  using planned_run_inv [OF assms(1,2)] assms(3,4)
  unfolding got_run_inv_def dependencies_respected_def sound_start_def by blast

text \<open>C39: what a finished run got done. If the plan gives its tasks different names (tasks without a name all get
  the name task_1 and collide, a finding) and, where the run may add tasks, none that begins with expand_, all
  tasks of the final state have different names, and when no task is left to start, a task was left out if and only if
  it depends on a task that failed or on a cycle. A failure elsewhere does not keep a task from running,
  although a comment says that the run stops on the first failure (a finding).\<close>

theorem finished_run_outcome:
  assumes "planned_run E s0 s" "ge_adaptive E \<longrightarrow> plan_names_plain s0" "distinct (node_ids (gs_graph s0))"
    and "ready_nodes (gs_graph s) (gs_states s) = []" "i \<in> set (node_ids (gs_graph s))"
  shows "distinct (node_ids (gs_graph s)) \<and> (status_of s i \<notin> {Some Done, Some Failed} \<longleftrightarrow>
     (\<exists>f. (f, i) \<in> (edge_rel s)\<^sup>+ \<and> (status_of s f = Some Failed \<or> (f, f) \<in> (edge_rel s)\<^sup>+)))"
proof (rule conjI)
  show "distinct (node_ids (gs_graph s))" by (rule planned_run_distinct [OF assms(1-3)])
  have inv: "got_ok s" "dependencies_respected s" using planned_run_inv [OF assms(1,2)] by (simp_all add: got_run_inv_def)
  have "status_of s i \<noteq> None" "status_of s i \<noteq> Some Running" using inv(1) assms(5) unfolding got_ok_def by blast+
  then have "status_of s i = Some Pending \<or> status_of s i \<in> {Some Done, Some Failed}"
    by (cases "the (status_of s i)") auto
  then show "status_of s i \<notin> {Some Done, Some Failed} \<longleftrightarrow>
     (\<exists>f. (f, i) \<in> (edge_rel s)\<^sup>+ \<and> (status_of s f = Some Failed \<or> (f, f) \<in> (edge_rel s)\<^sup>+))"
  proof
    assume "status_of s i = Some Pending"
    with blocked_ancestor [OF inv(1) assms(4)] show ?thesis by simp
  next
    assume "status_of s i \<in> {Some Done, Some Failed}"
    then have ss: "sound_start s i" "status_of s i \<in> {Some Done, Some Failed}"
      using inv(2) unfolding dependencies_respected_def by blast+
    have "\<not> (\<exists>f. (f, i) \<in> (edge_rel s)\<^sup>+ \<and> (status_of s f = Some Failed \<or> (f, f) \<in> (edge_rel s)\<^sup>+))"
      using ss(1) unfolding sound_start_def by fastforce
    with ss(2) show ?thesis by blast
  qed
qed

text \<open>C40: the plan stays well-formed: it is never empty, every edge joins two of its tasks, the statuses
  are those of its tasks, and between two turns no task is running.\<close>

theorem got_state_well_formed:
  assumes "got_reach E s"
  shows "(\<forall>i. status_of s i \<noteq> None \<longleftrightarrow> i \<in> set (node_ids (gs_graph s))) \<and> (\<forall>i. status_of s i \<noteq> Some Running) \<and>
    set (tg_edges (gs_graph s)) \<subseteq> set (node_ids (gs_graph s)) \<times> set (node_ids (gs_graph s)) \<and> tg_nodes (gs_graph s) \<noteq> []"
  by (rule got_reach_ok [OF assms, unfolded got_ok_def])

subsection \<open>A run with a failure\<close>

text \<open>Three tasks: \<open>b\<close> needs \<open>a\<close>, \<open>c\<close> needs nothing. The agent of the second node call fails.\<close>

definition ex_raw_node :: "string \<Rightarrow> raw_node" where
  "ex_raw_node i = \<lparr>rn_id = Some i, rn_description = Some i\<rparr>"

definition ex_got_env :: "unit got_env" where
  "ex_got_env =
     \<lparr>ge_agent = (\<lambda>n. \<lparr>ra_start = (\<lambda>_. ()), ra_think = (\<lambda>_ r. if n = 1 then Inl (ExecutionFailed ''down'') else Inr r),
         ra_act = (\<lambda>_. Inr), ra_observe = (\<lambda>_. Inr), ra_has_calls = (\<lambda>_. False), ra_reply = (\<lambda>_. Some ''ok'')\<rparr>),
      ge_llm = (\<lambda>_ _ _. Inr []),
      ge_from_str = (\<lambda>_. Some \<lparr>rg_nodes = Some [ex_raw_node ''a'', ex_raw_node ''b'', ex_raw_node ''c''],
        rg_edges = Some [(''a'', ''b'')]\<rparr>),
      ge_lower = (\<lambda>s. s), ge_json_text = (\<lambda>_. []), ge_plan_prompt = [], ge_expand_prompt = [],
      ge_adaptive = False, ge_llm_complexity = False\<rparr>"

definition ex_task :: "string \<Rightarrow> task_node" where
  "ex_task i = \<lparr>tn_id = i, tn_description = i, tn_tool_calls = []\<rparr>"

definition ex_planned :: "task_node_state \<Rightarrow> task_node_state \<Rightarrow> got_state" where
  "ex_planned a c =
     \<lparr>gs_input = [], gs_graph = \<lparr>tg_nodes = [ex_task ''a'', ex_task ''b'', ex_task ''c''], tg_edges = [(''a'', ''b'')]\<rparr>,
      gs_states = [(''a'', a), (''b'', task_node_state_default), (''c'', c)]\<rparr>"

definition ex_failed :: task_node_state where
  "ex_failed = \<lparr>ts_status = Failed, ts_result = None, ts_error = Some (show_graph_error (\<lambda>_. []) (ExecutionFailed ''down''))\<rparr>"

definition ex_done :: task_node_state where
  "ex_done = \<lparr>ts_status = Done, ts_result = Some ''ok'', ts_error = None\<rparr>"

lemma ex_plan:
  "parse_task_graph (ge_from_str ex_got_env) raw inp = gs_graph (ex_planned a c)"
  by (simp add: parse_task_graph_def ex_got_env_def ex_planned_def ex_raw_node_def ex_task_def raw_id_def or_default_def Let_def)

lemma ex_llm: "ge_llm ex_got_env n k p = Inr []"
  by (simp add: ex_got_env_def)

lemma ex_plan_turn:
  "plan_graph_node ex_got_env n (build_got_initial_state [] None) =
     Inr (ex_planned task_node_state_default task_node_state_default, Continue)"
  by (simp add: plan_graph_node_def ex_llm ex_plan [where a = task_node_state_default and c = task_node_state_default]
      build_got_initial_state_def Let_def) (simp add: ex_planned_def initial_states_def ex_task_def)

lemmas ex_run_defs = ready_nodes_def is_ready_def dependency_done_def task_node_state_default_def ex_planned_def
  ex_task_def set_task_def adapt_def run_sub_task_def MAX_SUB_TASK_TURNS_def numeral_eq_Suc ex_got_env_def or_default_def
  ex_failed_def ex_done_def

lemma ex_turns:
  "execute_graph_node ex_got_env 1 (ex_planned task_node_state_default task_node_state_default) =
     Inr (ex_planned ex_failed task_node_state_default, End)"
  "execute_graph_node ex_got_env 2 (ex_planned ex_failed task_node_state_default) = Inr (ex_planned ex_failed ex_done, End)"
  "ready_nodes (gs_graph (ex_planned ex_failed task_node_state_default)) (gs_states (ex_planned ex_failed task_node_state_default)) = [''c'']"
  "ready_nodes (gs_graph (ex_planned ex_failed ex_done)) (gs_states (ex_planned ex_failed ex_done)) = []"
  by (simp_all add: execute_graph_node_def Let_def ex_run_defs)

lemma ex_reach: "got_reach ex_got_env (ex_planned ex_failed ex_done)"
  by (rule executed [OF executed [OF planned [OF ex_plan_turn] ex_turns(1)] ex_turns(2)])

lemma ex_planned_run: "planned_run ex_got_env (ex_planned task_node_state_default task_node_state_default) (ex_planned ex_failed ex_done)"
  using ex_plan_turn from_step [OF from_step [OF from_plan ex_turns(1)] ex_turns(2)] unfolding planned_run_def by blast

lemma ex_names: "plan_names_plain (ex_planned a c)" "distinct (node_ids (gs_graph (ex_planned a c)))"
  by (simp_all add: plan_names_plain_def ex_planned_def ex_task_def)

definition got_run_env :: "(got_state, unit) run_env" where
  "got_run_env = \<lparr>re_policy = NoRetry, re_updater = (\<lambda>_ t. t), re_middleware = None, re_extractor = None,
     re_fresh = show_nat, re_now = (\<lambda>_. 0)\<rparr>"

lemma got_run_returns_witness:
  "\<exists>e s' w'. graph_stream got_run_env (got_compiled ex_got_env) (\<lambda>_. False) (build_got_initial_state [] None) None
     \<lparr>gw_saver = None, gw_drawn = 0\<rparr> = Some (e, s', w') \<and> e \<noteq> Panicked"
proof -
  have "plain_run got_run_env" by (simp add: plain_run_def got_run_env_def)
  from got_run_returns [OF this, of ex_got_env "\<lambda>_. False" "build_got_initial_state [] None" None "\<lparr>gw_saver = None, gw_drawn = 0\<rparr>"]
  show ?thesis by (elim exE conjE) (intro exI conjI)
qed

lemma got_state_well_formed_witness:
  "status_of (ex_planned ex_failed ex_done) ''z'' = None \<and> status_of (ex_planned ex_failed ex_done) ''b'' \<noteq> Some Running"
proof -
  note w = got_state_well_formed [OF ex_reach]
  have "''z'' \<notin> set (node_ids (gs_graph (ex_planned ex_failed ex_done)))" by (simp add: ex_planned_def ex_task_def)
  with spec [OF conjunct1 [OF w], of "''z''"] spec [OF conjunct1 [OF conjunct2 [OF w]], of "''b''"] show ?thesis by argo
qed

lemma finished_run_outcome_witness:
  "status_of (ex_planned ex_failed ex_done) ''b'' \<notin> {Some Done, Some Failed}"
proof -
  have "''b'' \<in> set (node_ids (gs_graph (ex_planned ex_failed ex_done)))" by (simp add: ex_planned_def ex_task_def)
  moreover have "(''a'', ''b'') \<in> (edge_rel (ex_planned ex_failed ex_done))\<^sup>+" by (rule r_into_trancl) (simp add: ex_planned_def)
  moreover have "status_of (ex_planned ex_failed ex_done) ''a'' = Some Failed"
    by (simp add: ex_planned_def status_of_def ex_failed_def)
  ultimately show ?thesis
    using finished_run_outcome [OF ex_planned_run _ ex_names(2) ex_turns(4), of "''b''"] ex_names(1) by blast
qed

text \<open>The same plan when nothing fails.\<close>

definition ex_calm_env :: "unit got_env" where
  "ex_calm_env = ex_got_env\<lparr>ge_agent := (\<lambda>n. ge_agent ex_got_env 0)\<rparr>"

definition ex_state :: "task_node_state \<Rightarrow> task_node_state \<Rightarrow> task_node_state \<Rightarrow> got_state" where
  "ex_state a b c = (ex_planned a c)\<lparr>gs_states := [(''a'', a), (''b'', b), (''c'', c)]\<rparr>"

lemma ex_calm_run:
  "planned_run ex_calm_env (ex_planned task_node_state_default task_node_state_default) (ex_state ex_done ex_done task_node_state_default)"
proof -
  have "plan_graph_node ex_calm_env 0 (build_got_initial_state [] None) =
      Inr (ex_planned task_node_state_default task_node_state_default, Continue)"
    using ex_plan_turn [of 0] by (simp add: plan_graph_node_def ex_calm_env_def ex_llm Let_def)
  moreover have "\<exists>nxt. execute_graph_node ex_calm_env 1 (ex_planned task_node_state_default task_node_state_default) =
      Inr (ex_planned ex_done task_node_state_default, nxt)"
    by (simp add: execute_graph_node_def Let_def ex_calm_env_def ex_run_defs)
  moreover have "\<exists>nxt. execute_graph_node ex_calm_env 2 (ex_planned ex_done task_node_state_default) =
      Inr (ex_state ex_done ex_done task_node_state_default, nxt)"
    by (simp add: execute_graph_node_def Let_def ex_calm_env_def ex_run_defs ex_state_def)
  ultimately show ?thesis unfolding planned_run_def by (meson got_from.intros)
qed

lemma dependencies_done_first_witness:
  "status_of (ex_state ex_done ex_done task_node_state_default) ''a'' = Some Done"
proof -
  have "(''a'', ''b'') \<in> (edge_rel (ex_state ex_done ex_done task_node_state_default))\<^sup>+"
    by (rule r_into_trancl) (simp add: ex_state_def ex_planned_def)
  moreover have "status_of (ex_state ex_done ex_done task_node_state_default) ''b'' \<in> {Some Done, Some Failed}"
    by (simp add: ex_state_def status_of_def ex_done_def)
  ultimately show ?thesis using dependencies_done_first [OF ex_calm_run] ex_names(1) by blast
qed

subsection \<open>Where the code and its comments part\<close>

text \<open>A failing task answers \<open>End\<close>, but the router does not ask: the run goes on with the other tasks.\<close>

lemma failure_does_not_stop:
  "map_option (\<lambda>r. (fst r, fst (snd r))) (graph_stream got_run_env (got_compiled ex_got_env) (\<lambda>_. False)
     (build_got_initial_state [] None) None \<lparr>gw_saver = None, gw_drawn = 0\<rparr>) = Some (Finished, ex_planned ex_failed ex_done)"
proof -
  have p: "plain_run got_run_env" by (simp add: plain_run_def got_run_env_def)
  have r: "ready_nodes (gs_graph (ex_planned ex_failed task_node_state_default))
      (gs_states (ex_planned ex_failed task_node_state_default)) \<noteq> []" by (simp add: ex_turns(3))
  have plan: "execute_node_with_retry got_run_env ''plan_graph'' (plan_graph_node ex_got_env) (build_got_initial_state [] None) 0 0 =
      (Inr (ex_planned task_node_state_default task_node_state_default, Continue), 1)"
    by (simp add: execute_node_with_retry.simps [of _ _ _ _ 0 0] call_node_def got_run_env_def ex_plan_turn)
  have nn: "next_node (got_compiled ex_got_env) ''plan_graph'' s Continue = Some ''execute_graph''" for s
    by (simp add: next_node_def got_compiled_def)
  have nodes: "map_of (cg_nodes (got_compiled ex_got_env)) ''plan_graph'' = Some (plan_graph_node ex_got_env)"
    "cg_edge_order (got_compiled ex_got_env) = [''plan_graph'']" by (simp_all add: got_compiled_def)
  have t0: "graph_turn got_run_env (got_compiled ex_got_env) (\<lambda>_. False) None 0 0 ''plan_graph'' (build_got_initial_state [] None) w =
      GoOn ''execute_graph'' (ex_planned task_node_state_default task_node_state_default) 1" for w
    using p by (simp add: graph_turn_def nodes plan nn plain_run_def END_def)
  note t1 = got_execute_turn [OF p ex_turns(1), of "\<lambda>_. False" None 2]
  note t2 = got_execute_turn [OF p ex_turns(2), of "\<lambda>_. False" None 4]
  have "run_loop_inner got_run_env (got_compiled ex_got_env) (\<lambda>_. False) None 0 0 ''plan_graph'' (build_got_initial_state [] None) w =
      run_loop_inner got_run_env (got_compiled ex_got_env) (\<lambda>_. False) None 2 1 ''execute_graph''
        (ex_planned task_node_state_default task_node_state_default) w" for w
    by (subst run_loop_inner.simps) (simp add: t0 numeral_2_eq_2)
  moreover have "run_loop_inner got_run_env (got_compiled ex_got_env) (\<lambda>_. False) None 2 1 ''execute_graph''
        (ex_planned task_node_state_default task_node_state_default) w =
      run_loop_inner got_run_env (got_compiled ex_got_env) (\<lambda>_. False) None 4 2 ''execute_graph''
        (ex_planned ex_failed task_node_state_default) w" for w
    by (subst run_loop_inner.simps) (simp add: t1 r del: One_nat_def)
  moreover have "run_loop_inner got_run_env (got_compiled ex_got_env) (\<lambda>_. False) None 4 2 ''execute_graph''
        (ex_planned ex_failed task_node_state_default) w =
      Some (Finished, ex_planned ex_failed ex_done, save_state got_run_env None (ex_planned ex_failed ex_done) w)" for w
    by (subst run_loop_inner.simps) (simp add: t2 ex_turns(4))
  ultimately show ?thesis by (simp add: graph_stream_def nodes(2))
qed

text \<open>Tasks the plan leaves unnamed all get the name \<open>task_1\<close> and share one status: only the first is run.\<close>

lemma unnamed_tasks_collide:
  "node_ids (parse_task_graph (\<lambda>_. Some \<lparr>rg_nodes = Some [\<lparr>rn_id = None, rn_description = Some ''x''\<rparr>,
     \<lparr>rn_id = None, rn_description = Some ''y''\<rparr>], rg_edges = None\<rparr>) raw inp) = [''task_1'', ''task_1'']"
  by (simp add: parse_task_graph_def raw_id_def Let_def)

text \<open>Tasks that depend on each other are accepted and never run.\<close>

lemma cyclic_plan_runs_nothing:
  "let g = parse_task_graph (\<lambda>_. Some \<lparr>rg_nodes = Some [ex_raw_node ''a'', ex_raw_node ''b''],
              rg_edges = Some [(''a'', ''b''), (''b'', ''a'')]\<rparr>) raw inp
   in length (tg_nodes g) = 2 \<and> ready_nodes g (initial_states g) = []"
  by (simp add: parse_task_graph_def raw_id_def ex_raw_node_def or_default_def Let_def ready_nodes_def is_ready_def
      dependency_done_def initial_states_def task_node_state_default_def)

text \<open>The limit is looked at before an expansion only: 63 tasks may become any number.\<close>

lemma node_limit_overshoots:
  assumes "expanded_by s sub s'" "length (tg_nodes (gs_graph s)) = 63" "length (tg_nodes sub) = 5"
  shows "length (tg_nodes (gs_graph s')) = 68" "MAX_TOTAL_NODES = 64"
  using expanded_status(3) [OF assms(1)] assms(2,3) by (simp_all add: MAX_TOTAL_NODES_def)

text \<open>A collision is looked for under the names before they are prefixed.\<close>

lemma prefixed_names_collide:
  "append_subgraph \<lparr>tg_nodes = [ex_task ''p_x''], tg_edges = []\<rparr> \<lparr>tg_nodes = [ex_task ''x''], tg_edges = []\<rparr> ''p'' =
     Inr \<lparr>tg_nodes = [ex_task ''p_x'', (ex_task ''x'')\<lparr>tn_id := ''p_x''\<rparr>], tg_edges = []\<rparr>"
  by (simp add: append_subgraph_def ex_task_def prefix_id_def)

text \<open>An interrupt raised by a tool of a subtask is not handed to the caller: the task counts as failed.\<close>

lemma interrupt_becomes_failure:
  "execute_graph_node (ex_got_env\<lparr>ge_agent := (\<lambda>n. \<lparr>ra_start = (\<lambda>_. ()), ra_think = (\<lambda>_ r. Inl (Interrupted_Err it)),
       ra_act = (\<lambda>_. Inr), ra_observe = (\<lambda>_. Inr), ra_has_calls = (\<lambda>_. False), ra_reply = (\<lambda>_. None)\<rparr>)\<rparr>) 1
     (ex_planned task_node_state_default task_node_state_default) =
   Inr (ex_planned \<lparr>ts_status = Failed, ts_result = None,
       ts_error = Some (show_graph_error (\<lambda>_. []) (Interrupted_Err it))\<rparr> task_node_state_default, End)"
  by (simp add: execute_graph_node_def Let_def ex_run_defs)

text \<open>A restored run plans anew: whatever the checkpoint held of the plan and its results is lost.\<close>

lemma restored_plan_is_lost:
  "plan_graph_node E n (build_got_initial_state t (Some s)) = plan_graph_node E n (build_got_initial_state t None)"
  by (simp add: plan_graph_node_def build_got_initial_state_def split: sum.split)

end
