(* ===== verification/Llm_Message.thy ===== *)
theory Llm_Message
  imports Rust_Text Prelude
begin

text \<open>
  \<open>foundation/llm/src/message.rs\<close>: the messages of a conversation, their text, and the three passes over
  a list of messages: removing review blocks, finding tool calls and results without their counterpart,
  and sanitizing the identifiers before a request is sent. Fresh identifiers come from a stream
  (\<open>fresh n\<close> is the \<open>n\<close>-th \<open>Uuid::new_v4()\<close>). A \<open>HashSet\<close> that is iterated over is the list of its elements
  in the order of insertion.
\<close>

subsection \<open>Messages\<close>

datatype content_part =
    Part_Text string
  | ImageUrl string "string option"
  | ImageBase64 string string
  | AudioBase64 string string
  | VideoUrl string
  | VideoBase64 string string
  | PdfUrl string
  | PdfBase64 string
  | Part_File "string option" "string option" "string option"

datatype user_content = User_Text string | Multimodal "content_part list"

record assistant_tool_call =
  atc_id :: string
  atc_name :: string
  atc_arguments :: string

record assistant_payload =
  ap_content :: string
  ap_tool_calls :: "assistant_tool_call list"
  ap_reasoning :: "string option"

datatype tool_call_content =
    Content_Text string
  | Content_Diff string "string option" string
  | Content_Terminal string

datatype message =
    System string
  | User user_content
  | Assistant assistant_payload
  | Tool string tool_call_content

fun part_text :: "content_part \<Rightarrow> string option" where
  "part_text (Part_Text t) = Some t"
| "part_text _ = None"

fun user_as_text :: "user_content \<Rightarrow> string" where
  "user_as_text (User_Text s) = s"
| "user_as_text (Multimodal parts) = join_with [nl] (List.map_filter part_text parts)"

definition user_multimodal :: "content_part list \<Rightarrow> user_content option" where
  "user_multimodal parts = (if parts = [] then None else Some (Multimodal parts))"

fun to_display_string :: "tool_call_content \<Rightarrow> string" where
  "to_display_string (Content_Text t) = t"
| "to_display_string (Content_Diff path old_text new_text) = ''Modified file: '' @ path"
| "to_display_string (Content_Terminal i) = ''Terminal: '' @ i"

fun content_len :: "tool_call_content \<Rightarrow> nat" where
  "content_len (Content_Text t) = length t"
| "content_len (Content_Diff path old_text new_text) = length new_text"
| "content_len (Content_Terminal i) = length i"

fun msg_role :: "message \<Rightarrow> string" where
  "msg_role (System _) = ''system''"
| "msg_role (User _) = ''user''"
| "msg_role (Assistant _) = ''assistant''"
| "msg_role (Tool _ _) = ''tool''"

fun msg_content :: "message \<Rightarrow> string" where
  "msg_content (System s) = s"
| "msg_content (User c) = user_as_text c"
| "msg_content (Assistant p) = ap_content p"
| "msg_content (Tool _ c) = to_display_string c"

definition assistant_with_reasoning :: "string \<Rightarrow> string option \<Rightarrow> message" where
  "assistant_with_reasoning content reasoning =
     Assistant \<lparr>ap_content = content, ap_tool_calls = [], ap_reasoning = reasoning\<rparr>"

definition assistant_with_tool_calls_and_reasoning ::
    "string \<Rightarrow> assistant_tool_call list \<Rightarrow> string option \<Rightarrow> message" where
  "assistant_with_tool_calls_and_reasoning content calls reasoning =
     Assistant \<lparr>ap_content = content, ap_tool_calls = calls, ap_reasoning = reasoning\<rparr>"

fun calls_of :: "message \<Rightarrow> assistant_tool_call list" where
  "calls_of (Assistant p) = ap_tool_calls p"
| "calls_of _ = []"

subsection \<open>Review blocks\<close>

definition review_open :: string where
  "review_open = ''<background_review>''"

definition review_close :: string where
  "review_close = ''</background_review>''"

function strip_background_review_harness :: "string \<Rightarrow> string" where
  "strip_background_review_harness rest =
     (case find_sub review_open rest of
        None \<Rightarrow> rest
      | Some i \<Rightarrow>
          let after = drop (i + length review_open) rest
          in case find_sub review_close after of
               None \<Rightarrow> take i rest @ drop i rest
             | Some j \<Rightarrow>
                 let tail = drop (j + length review_close) after
                 in take i rest @ strip_background_review_harness (case strip_prefix [nl] tail of Some s \<Rightarrow> s | None \<Rightarrow> tail))"
  by pat_completeness auto
termination
proof (relation "measure length")
  fix rest :: string and i j after tail
  assume a: "find_sub review_open rest = Some i" "after = drop (i + length review_open) rest"
    "tail = drop (j + length review_close) after"
  then have "length after < length rest" using find_sub_split(2) [OF a(1)] by (simp add: review_open_def)
  moreover have "length (case strip_prefix [nl] tail of Some s \<Rightarrow> s | None \<Rightarrow> tail) \<le> length after"
    using a(3) by (auto simp: strip_prefix_def split: option.split)
  ultimately show "((case strip_prefix [nl] tail of Some s \<Rightarrow> s | None \<Rightarrow> tail), rest) \<in> measure length" by simp
qed simp

declare strip_background_review_harness.simps [simp del]

fun strip_part :: "content_part \<Rightarrow> content_part" where
  "strip_part (Part_Text t) = Part_Text (strip_background_review_harness t)"
| "strip_part p = p"

fun strip_message :: "message \<Rightarrow> message" where
  "strip_message (System s) = System (strip_background_review_harness s)"
| "strip_message (User (User_Text s)) = User (User_Text (strip_background_review_harness s))"
| "strip_message (User (Multimodal parts)) = User (Multimodal (map strip_part parts))"
| "strip_message (Assistant p) =
     Assistant (p\<lparr>ap_content := strip_background_review_harness (ap_content p),
       ap_tool_calls := map (\<lambda>tc. tc\<lparr>atc_arguments := strip_background_review_harness (atc_arguments tc)\<rparr>) (ap_tool_calls p)\<rparr>)"
| "strip_message (Tool i (Content_Text t)) = Tool i (Content_Text (strip_background_review_harness t))"
| "strip_message (Tool i c) = Tool i c"

definition strip_background_review_in_messages :: "message list \<Rightarrow> message list" where
  "strip_background_review_in_messages messages = map strip_message messages"

subsection \<open>Calls without results, results without calls\<close>

definition set_insert :: "'a \<Rightarrow> 'a list \<Rightarrow> 'a list" where
  "set_insert x xs = (if x \<in> set xs then xs else xs @ [x])"

fun expect_results :: "message list \<Rightarrow> string list \<Rightarrow> string list" where
  "expect_results [] expected = expected"
| "expect_results (Assistant p # ms) expected =
     expect_results ms (fold (\<lambda>tc ids. if atc_id tc = [] then ids else set_insert (atc_id tc) ids) (ap_tool_calls p) expected)"
| "expect_results (Tool i c # ms) expected = expect_results ms (removeAll i expected)"
| "expect_results (_ # ms) expected = expect_results ms expected"

fun unknown_results :: "message list \<Rightarrow> string set \<Rightarrow> string list" where
  "unknown_results [] known = []"
| "unknown_results (Assistant p # ms) known = unknown_results ms (known \<union> ({atc_id tc | tc. tc \<in> set (ap_tool_calls p)} - {[]}))"
| "unknown_results (Tool i c # ms) known = (if i \<in> known then [] else [i]) @ unknown_results ms known"
| "unknown_results (_ # ms) known = unknown_results ms known"

definition quoted :: "string \<Rightarrow> string" where
  "quoted i = [CHR 0x27] @ i @ [CHR 0x27]"

definition check_orphan_tool_calls :: "message list \<Rightarrow> string list" where
  "check_orphan_tool_calls messages =
     map (\<lambda>i. ''Tool call '' @ quoted i @ '' without matching tool result'') (expect_results messages []) @
     map (\<lambda>i. ''Tool message with tool_call_id '' @ quoted i @ '' has no matching assistant tool_call '' @
       [CHR 0xE2, CHR 0x80, CHR 0x94] @ '' this will be rejected by the API'') (unknown_results messages {})"

subsection \<open>Sanitizing\<close>

fun backfill_calls :: "(nat \<Rightarrow> string) \<Rightarrow> nat \<Rightarrow> assistant_tool_call list \<Rightarrow> assistant_tool_call list \<times> nat" where
  "backfill_calls fresh n [] = ([], n)"
| "backfill_calls fresh n (tc # tcs) =
     (if atc_id tc = []
      then (case backfill_calls fresh (n + 1) tcs of (tcs', n') \<Rightarrow> (tc\<lparr>atc_id := ''call_'' @ fresh n\<rparr> # tcs', n'))
      else (case backfill_calls fresh n tcs of (tcs', n') \<Rightarrow> (tc # tcs', n')))"

fun backfill_ids :: "(nat \<Rightarrow> string) \<Rightarrow> nat \<Rightarrow> message list \<Rightarrow> message list" where
  "backfill_ids fresh n [] = []"
| "backfill_ids fresh n (Assistant p # ms) =
     (case backfill_calls fresh n (ap_tool_calls p) of
        (tcs, n') \<Rightarrow> Assistant (p\<lparr>ap_tool_calls := tcs\<rparr>) # backfill_ids fresh n' ms)"
| "backfill_ids fresh n (m # ms) = m # backfill_ids fresh n ms"

definition valid_ids :: "message list \<Rightarrow> string list" where
  "valid_ids messages = filter (\<lambda>i. i \<noteq> []) (concat (map (\<lambda>m. map atc_id (calls_of m)) messages))"

fun keeps_message :: "string list \<Rightarrow> message \<Rightarrow> bool" where
  "keeps_message ids (Tool i c) = (i \<in> set ids)"
| "keeps_message ids m = True"

definition sanitize_tool_call_ids :: "(nat \<Rightarrow> string) \<Rightarrow> message list \<Rightarrow> message list" where
  "sanitize_tool_call_ids fresh messages =
     (if messages = [] then messages
      else let messages = backfill_ids fresh 0 messages
           in filter (keeps_message (valid_ids messages)) messages)"

end
