(* ===== verification/Message_Pairing.thy ===== *)
theory Message_Pairing
  imports Llm_Message
begin

text \<open>
  When is a conversation acceptable to a chat interface? Every tool call of an assistant message is
  answered, in order, before the next message that is not a result, and every result answers a call.
  The automaton below reads a conversation and keeps the identifiers still to be answered. The last
  part relates it to the sanitizer that runs before every request.
\<close>

subsection \<open>Paired conversations\<close>

fun step_pending :: "string list \<Rightarrow> message \<Rightarrow> string list option" where
  "step_pending pend (Tool i c) = (case pend of [] \<Rightarrow> None | j # js \<Rightarrow> if i = j then Some js else None)"
| "step_pending pend (Assistant p) = (if pend = [] then Some (map atc_id (ap_tool_calls p)) else None)"
| "step_pending pend (System s) = (if pend = [] then Some [] else None)"
| "step_pending pend (User c) = (if pend = [] then Some [] else None)"

fun run_pending :: "string list \<Rightarrow> message list \<Rightarrow> string list option" where
  "run_pending pend [] = Some pend"
| "run_pending pend (m # ms) = Option.bind (step_pending pend m) (\<lambda>p. run_pending p ms)"

definition paired :: "message list \<Rightarrow> bool" where
  "paired ms \<longleftrightarrow> run_pending [] ms = Some []"

lemma run_pending_append: "run_pending p (xs @ ys) = Option.bind (run_pending p xs) (\<lambda>q. run_pending q ys)"
  by (induction xs arbitrary: p) (simp_all add: bind_eq_Some_conv split: bind_split)

lemma paired_append: "paired xs \<Longrightarrow> paired ys \<Longrightarrow> paired (xs @ ys)"
  by (simp add: paired_def run_pending_append)

lemma run_pending_results: "run_pending (map fst rs @ q) (map (\<lambda>(i, c). Tool i c) rs) = Some q"
  by (induction rs) (auto split: prod.splits)

text \<open>An assistant message with its results, in order, is paired.\<close>

lemma paired_turn: "map fst rs = map atc_id (ap_tool_calls p) \<Longrightarrow> paired (Assistant p # map (\<lambda>(i, c). Tool i c) rs)"
  using run_pending_results [of rs "[]"] by (simp add: paired_def)

definition call_ids :: "message list \<Rightarrow> string list" where
  "call_ids ms = concat (map (\<lambda>m. map atc_id (calls_of m)) ms)"

fun result_id :: "message \<Rightarrow> string option" where
  "result_id (Tool i c) = Some i"
| "result_id _ = None"

lemma call_ids_simps [simp]:
  "call_ids [] = []" "call_ids (m # ms) = map atc_id (calls_of m) @ call_ids ms"
  "call_ids (xs @ ys) = call_ids xs @ call_ids ys"
  by (simp_all add: call_ids_def)

text \<open>A suffix starts with the results of calls before it; without them it is paired.\<close>

lemma run_pending_suffix:
  assumes "run_pending p ms = Some []"
  shows "\<exists>rs rest. ms = map (\<lambda>(i, c). Tool i c) rs @ rest \<and> map fst rs = p \<and> paired rest"
  using assms
proof (induction ms arbitrary: p)
  case Nil
  then show ?case by (simp add: paired_def)
next
  case (Cons m ms)
  show ?case
  proof (cases p)
    case Nil
    with Cons.prems have "paired (m # ms)" by (simp add: paired_def)
    with Nil show ?thesis by (rule_tac x = "[]" in exI, rule_tac x = "m # ms" in exI) simp
  next
    case (Cons j js)
    with Cons.prems obtain c where m: "m = Tool j c" "run_pending js ms = Some []"
      by (cases m) (auto split: if_splits bind_splits)
    from Cons.IH [OF m(2)] obtain rs rest where "ms = map (\<lambda>(i, c). Tool i c) rs @ rest" "map fst rs = js" "paired rest"
      by blast
    then show ?thesis using Cons m(1) by (intro exI [of _ "(j, c) # rs"] exI [of _ rest]) simp
  qed
qed

lemma paired_suffix:
  assumes "paired (xs @ ys)"
  obtains rs rest where "ys = map (\<lambda>(i, c). Tool i c) rs @ rest" "paired rest" "set (map fst rs) \<subseteq> set (call_ids xs)"
proof -
  have pend: "run_pending p xs = Some q \<Longrightarrow> set q \<subseteq> set p \<union> set (call_ids xs)" for p q
  proof (induction xs arbitrary: p)
    case (Cons m xs)
    then obtain p' where p': "step_pending p m = Some p'" "run_pending p' xs = Some q" by (auto simp: bind_eq_Some_conv)
    from p'(1) have "set p' \<subseteq> set p \<union> set (map atc_id (calls_of m))" by (cases m) (auto split: list.splits if_splits)
    with Cons.IH [OF p'(2)] show ?case by auto
  qed simp
  from assms obtain q where q: "run_pending [] xs = Some q" "run_pending q ys = Some []"
    by (auto simp: paired_def run_pending_append bind_eq_Some_conv)
  from run_pending_suffix [OF q(2)] obtain rs rest where
    r: "ys = map (\<lambda>(i, c). Tool i c) rs @ rest" "map fst rs = q" "paired rest" by blast
  with pend [OF q(1)] show ?thesis by (intro that [of rs rest]) auto
qed

lemma run_pending_result_ids:
  "run_pending p ms = Some q \<Longrightarrow> Tool i c \<in> set ms \<Longrightarrow> i \<in> set p \<union> set (call_ids ms)"
proof (induction ms arbitrary: p)
  case (Cons m ms)
  then obtain p' where p': "step_pending p m = Some p'" "run_pending p' ms = Some q" by (auto simp: bind_eq_Some_conv)
  from p'(1) have sub: "set p' \<subseteq> set p \<union> set (map atc_id (calls_of m))" by (cases m) (auto split: list.splits if_splits)
  show ?case
  proof (cases "m = Tool i c")
    case True
    with p'(1) show ?thesis by (auto split: list.splits if_splits)
  next
    case False
    with Cons.prems(2) have "i \<in> set p' \<union> set (call_ids ms)" using Cons.IH [OF p'(2)] by simp
    with sub show ?thesis by auto
  qed
qed simp

lemma paired_result_ids: "paired ms \<Longrightarrow> Tool i c \<in> set ms \<Longrightarrow> i \<in> set (call_ids ms)"
  using run_pending_result_ids [of "[]" ms "[]" i c] by (simp add: paired_def)

subsection \<open>The sanitizer\<close>

lemma backfill_calls_id:
  "\<forall>tc \<in> set tcs. atc_id tc \<noteq> [] \<Longrightarrow> backfill_calls fresh n tcs = (tcs, n)"
  by (induction tcs) auto

lemma backfill_ids_id:
  "[] \<notin> set (call_ids ms) \<Longrightarrow> backfill_ids fresh n ms = ms"
proof (induction ms arbitrary: n)
  case (Cons m ms)
  then show ?case
  proof (cases m)
    case (Assistant p)
    have "\<forall>tc \<in> set (ap_tool_calls p). atc_id tc \<noteq> []" using Cons.prems Assistant by force
    with Cons Assistant show ?thesis by (simp add: backfill_calls_id)
  qed simp_all
qed simp

lemma valid_ids_calls: "set (valid_ids ms) = set (call_ids ms) - {[]}"
  by (auto simp: valid_ids_def call_ids_def)

lemma backfill_calls_ne: "atc_id ` set (fst (backfill_calls fresh n tcs)) \<subseteq> - {[]}"
  by (induction tcs arbitrary: n) (simp_all add: case_prod_unfold)

lemma backfill_ids_ne: "[] \<notin> set (call_ids (backfill_ids fresh n ms))"
proof (induction fresh n ms rule: backfill_ids.induct)
  case (2 fresh n p ms)
  have "[] \<notin> atc_id ` set (fst (backfill_calls fresh n (ap_tool_calls p)))" using backfill_calls_ne by blast
  with 2 show ?case by (auto split: prod.splits)
qed auto

lemma call_ids_filter: "call_ids (filter (keeps_message ids) ms) = call_ids ms"
proof (induction ms)
  case (Cons m ms)
  then show ?case by (cases m) simp_all
qed simp

text \<open>C24: what the sanitizer does, exactly. After identifiers were drawn for the calls that have an empty one,
  precisely the tool results are dropped whose identifier is not that of a call of the conversation; so every remaining
  result refers to a call with an identifier that is not empty, every other message stays, and sanitizing again changes nothing.
  That is less than the description of the function promises: a drawn identifier is not written to the result of the call,
  which is dropped, and calls without a result stay (both reported as findings).\<close>

theorem sanitize_spec:
  assumes "sanitize_tool_call_ids fresh ms = r"
  shows "(\<forall>i c. Tool i c \<in> set r \<longrightarrow> i \<in> set (call_ids r)) \<and> [] \<notin> set (call_ids r) \<and>
    r = filter (\<lambda>m. case result_id m of None \<Rightarrow> True | Some i \<Rightarrow> i \<in> set (call_ids r)) (backfill_ids fresh 0 ms) \<and>
    sanitize_tool_call_ids fresh' r = r"
proof (intro conjI allI impI)
  let ?b = "backfill_ids fresh 0 ms"
  have r: "r = filter (keeps_message (valid_ids ?b)) ?b"
    using assms by (cases ms) (simp_all add: sanitize_tool_call_ids_def Let_def)
  have c: "call_ids r = call_ids ?b" unfolding r by (rule call_ids_filter)
  show ne: "[] \<notin> set (call_ids r)" unfolding c by (rule backfill_ids_ne)
  show "i \<in> set (call_ids r)" if "Tool i x \<in> set r" for i x
    using that by (auto simp: r c call_ids_filter valid_ids_calls)
  have k: "keeps_message (valid_ids ?b) m = (case result_id m of None \<Rightarrow> True | Some i \<Rightarrow> i \<in> set (call_ids ?b))" for m
    using backfill_ids_ne [of fresh 0 ms] by (cases m) (auto simp: valid_ids_calls)
  show "r = filter (\<lambda>m. case result_id m of None \<Rightarrow> True | Some i \<Rightarrow> i \<in> set (call_ids r)) ?b"
    unfolding c by (subst r) (rule filter_cong [OF refl], rule k)
  have "set (valid_ids r) = set (valid_ids ?b)" by (simp add: valid_ids_calls c)
  then have k: "keeps_message (valid_ids r) m = keeps_message (valid_ids ?b) m" for m by (cases m) simp_all
  have "filter (keeps_message (valid_ids r)) r = r" unfolding filter_id_conv k by (simp add: r)
  then show "sanitize_tool_call_ids fresh' r = r"
    by (simp add: sanitize_tool_call_ids_def backfill_ids_id [OF ne] Let_def)
qed

text \<open>A conversation that is paired and names its calls passes unchanged and without a warning.\<close>

definition expect_calls :: "assistant_tool_call list \<Rightarrow> string list \<Rightarrow> string list" where
  "expect_calls tcs expected = fold (\<lambda>tc ids. if atc_id tc = [] then ids else set_insert (atc_id tc) ids) tcs expected"

lemma expect_calls_subset: "set (expect_calls tcs ids) \<subseteq> set ids \<union> atc_id ` set tcs"
proof (induction tcs arbitrary: ids)
  case (Cons tc tcs)
  have "set (if atc_id tc = [] then ids else set_insert (atc_id tc) ids) \<subseteq> insert (atc_id tc) (set ids)"
    by (auto simp: set_insert_def)
  with Cons [of "if atc_id tc = [] then ids else set_insert (atc_id tc) ids"] show ?case
    by (auto simp: expect_calls_def split: if_splits)
qed (simp add: expect_calls_def)

lemma expect_results_paired:
  assumes "run_pending p ms = Some []" "set expected \<subseteq> set p" "[] \<notin> set p" "[] \<notin> set (call_ids ms)"
  shows "expect_results ms expected = []"
  using assms
proof (induction ms arbitrary: p expected)
  case (Cons m ms)
  then obtain p' where p': "step_pending p m = Some p'" "run_pending p' ms = Some []" by (auto simp: bind_eq_Some_conv)
  have ne: "[] \<notin> set (call_ids ms)" using Cons.prems(4) by simp
  show ?case
  proof (cases m)
    case (Assistant q)
    then have p: "p = []" "p' = map atc_id (ap_tool_calls q)" using p'(1) by (auto split: if_splits)
    have "set (expect_calls (ap_tool_calls q) expected) \<subseteq> set p'"
      using expect_calls_subset [of "ap_tool_calls q" expected] Cons.prems(2) p by auto
    moreover have "[] \<notin> set p'" using Cons.prems(4) Assistant p(2) by simp
    ultimately show ?thesis using Cons.IH [OF p'(2) _ _ ne] Assistant by (simp add: expect_calls_def)
  next
    case (Tool i c)
    then have p: "p = i # p'" using p'(1) by (auto split: list.splits if_splits)
    have "set (removeAll i expected) \<subseteq> set p'" using Cons.prems(2) p by auto
    then show ?thesis using Cons.IH [OF p'(2) _ _ ne] Cons.prems(3) Tool p by simp
  qed (use Cons.IH [OF p'(2) _ _ ne] Cons.prems p'(1) in \<open>auto split: if_splits\<close>)
qed simp

lemma unknown_results_paired:
  assumes "run_pending p ms = Some []" "set p \<subseteq> known" "[] \<notin> set (call_ids ms)"
  shows "unknown_results ms known = []"
  using assms
proof (induction ms arbitrary: p known)
  case (Cons m ms)
  then obtain p' where p': "step_pending p m = Some p'" "run_pending p' ms = Some []" by (auto simp: bind_eq_Some_conv)
  show ?case
  proof (cases m)
    case (Assistant q)
    then have "p' = map atc_id (ap_tool_calls q)" using p'(1) by (auto split: if_splits)
    moreover have "set (map atc_id (ap_tool_calls q)) = {atc_id tc | tc. tc \<in> set (ap_tool_calls q)}" by auto
    ultimately have "set p' \<subseteq> known \<union> ({atc_id tc | tc. tc \<in> set (ap_tool_calls q)} - {[]})"
      using Cons.prems(3) Assistant by auto
    then show ?thesis using Cons.IH [OF p'(2)] Cons.prems(3) Assistant by simp
  next
    case (Tool i c)
    then have "p = i # p'" using p'(1) by (auto split: list.splits if_splits)
    then show ?thesis using Cons.IH [OF p'(2)] Cons.prems Tool by simp
  qed (use Cons.IH [OF p'(2)] Cons.prems p'(1) in \<open>auto split: if_splits\<close>)
qed simp


text \<open>A paired conversation whose calls are named goes to the model as it is: the check for orphans
  finds nothing and the sanitizer changes nothing.\<close>

lemma paired_clean:
  assumes "paired ms" "[] \<notin> set (call_ids ms)"
  shows "check_orphan_tool_calls ms = [] \<and> sanitize_tool_call_ids fresh ms = ms"
proof
  show "check_orphan_tool_calls ms = []"
    using expect_results_paired [of "[]" ms "[]"] unknown_results_paired [of "[]" ms "{}"] assms
    by (simp add: check_orphan_tool_calls_def paired_def)
  have "keeps_message (valid_ids ms) m" if "m \<in> set ms" for m
  proof (cases m)
    case (Tool i c)
    with that assms show ?thesis using paired_result_ids [of ms i c] by (auto simp: valid_ids_calls)
  qed simp_all
  then show "sanitize_tool_call_ids fresh ms = ms"
    by (simp add: sanitize_tool_call_ids_def backfill_ids_id [OF assms(2)] Let_def filter_id_conv)
qed

subsection \<open>Examples\<close>

definition ex_call :: "string \<Rightarrow> assistant_tool_call" where
  "ex_call i = \<lparr>atc_id = i, atc_name = ''grep'', atc_arguments = ''{}''\<rparr>"

definition ex_asks :: "string list \<Rightarrow> message" where
  "ex_asks ids = assistant_with_tool_calls_and_reasoning [] (map ex_call ids) None"

definition ex_answer :: "string \<Rightarrow> message" where
  "ex_answer i = Tool i (Content_Text ''ok'')"

lemmas ex_messages = ex_asks_def ex_answer_def ex_call_def assistant_with_tool_calls_and_reasoning_def

lemma paired_clean_example:
  "sanitize_tool_call_ids show_nat [User (User_Text ''go''), ex_asks [''c1'', ''c2''], ex_answer ''c1'', ex_answer ''c2''] =
     [User (User_Text ''go''), ex_asks [''c1'', ''c2''], ex_answer ''c1'', ex_answer ''c2'']"
  using paired_clean [of "[User (User_Text ''go''), ex_asks [''c1'', ''c2''], ex_answer ''c1'', ex_answer ''c2'']"]
  by (simp add: paired_def ex_messages)

lemma sanitize_spec_witness:
  "sanitize_tool_call_ids show_nat [ex_asks [''c1''], ex_answer ''c1''] = [ex_asks [''c1''], ex_answer ''c1'']"
proof -
  have "sanitize_tool_call_ids show_nat [ex_asks [''c1''], ex_answer ''c1'', ex_answer ''c2''] = [ex_asks [''c1''], ex_answer ''c1'']"
    by (simp add: sanitize_tool_call_ids_def valid_ids_def ex_messages)
  from sanitize_spec [OF this, of show_nat] show ?thesis by simp
qed

text \<open>A call without a name is given one, but the result that answers it is not: it is dropped.\<close>

lemma backfilled_call_loses_result:
  "sanitize_tool_call_ids fresh [ex_asks [[]], ex_answer []] = [ex_asks [''call_'' @ fresh 0]]"
  by (simp add: sanitize_tool_call_ids_def valid_ids_def ex_messages)

text \<open>A call without a result stays, although the third step is said to drop it.\<close>

lemma unanswered_call_stays:
  "sanitize_tool_call_ids fresh [ex_asks [''c1''], User (User_Text ''hm'')] = [ex_asks [''c1''], User (User_Text ''hm'')]"
  "check_orphan_tool_calls [ex_asks [''c1''], User (User_Text ''hm'')] \<noteq> []"
  by (simp_all add: sanitize_tool_call_ids_def valid_ids_def check_orphan_tool_calls_def set_insert_def ex_messages)

text \<open>A result before the call it names passes the sanitizer, and is warned about.\<close>

lemma early_result_stays:
  "sanitize_tool_call_ids fresh [ex_answer ''c1'', ex_asks [''c1'']] = [ex_answer ''c1'', ex_asks [''c1'']]"
  "unknown_results [ex_answer ''c1'', ex_asks [''c1'']] {} = [''c1'']"
  by (simp_all add: sanitize_tool_call_ids_def valid_ids_def ex_messages)

text \<open>Removing a block can leave a new one: what is cut out joins the halves of another.\<close>

lemma review_block_survives:
  "strip_background_review_harness (''<background_rev'' @ ''<background_review>x</background_review>'' @ ''iew>y</background_review>'') =
     ''<background_review>y</background_review>''"
  by (simp add: strip_background_review_harness.simps review_open_def review_close_def starts_with_def strip_prefix_def)

end
