(* ===== verification/Tool_Output.thy ===== *)
theory Tool_Output
  imports Llm_Message Json_Value
begin

text \<open>
  \<open>agent/agent-core/src/tool_output_normalizer.rs\<close>: how much of a tool's output the model gets to see. A
  count of characters is the number of the UTF-8 sequences of a string. Writing the full output to disk
  is a parameter: the record \<open>persist_env\<close> holds the time stamp, the value of the file counter and what
  became of the write (the path, or nothing when it failed).
\<close>

subsection \<open>Types\<close>

datatype tool_output_strategy = Inline | SummaryOnly | HeadTail | FileRef | FileRefWithExcerpt

record tool_output_hint =
  oh_preferred :: "tool_output_strategy option"
  oh_safe_inline :: "nat option"
  oh_prefer_head_tail :: bool

record tool_storage_ref =
  sr_path :: string
  sr_size :: nat
  sr_content_type :: string
  sr_encoding :: string
  sr_tool_name :: string

record normalization_config =
  nc_inline_limit :: nat
  nc_display_limit :: nat
  nc_excerpt_limit :: nat
  nc_head_tail_limit :: nat
  nc_file_ref_threshold :: nat
  nc_observation_budget :: nat
  nc_used_observation_chars :: nat
  nc_enable_persistence :: bool

record normalized_tool_output =
  no_raw_content :: "string option"
  no_observation_text :: string
  no_display_text :: string
  no_storage_ref :: "tool_storage_ref option"
  no_strategy :: tool_output_strategy
  no_raw_chars :: nat
  no_observation_chars :: nat
  no_truncated :: bool
  no_is_error :: bool

record persist_env =
  pe_stamp :: string
  pe_unique :: nat
  pe_write :: "string \<Rightarrow> string \<Rightarrow> string option"

definition runtime_default :: normalization_config where
  "runtime_default =
     \<lparr>nc_inline_limit = 4000, nc_display_limit = 1000, nc_excerpt_limit = 1200, nc_head_tail_limit = 600,
      nc_file_ref_threshold = 10000, nc_observation_budget = 8000, nc_used_observation_chars = 0,
      nc_enable_persistence = True\<rparr>"

definition with_used_observation_chars :: "nat \<Rightarrow> normalization_config \<Rightarrow> normalization_config" where
  "with_used_observation_chars used cfg = cfg\<lparr>nc_used_observation_chars := used\<rparr>"

definition remaining_observation_budget :: "normalization_config \<Rightarrow> nat" where
  "remaining_observation_budget cfg = nc_observation_budget cfg - nc_used_observation_chars cfg"

definition TRUNCATABLE_TOOLS :: "string list" where
  "TRUNCATABLE_TOOLS = [''web_fetcher'', ''web_search'']"

subsection \<open>Texts\<close>

abbreviation chars_count :: "string \<Rightarrow> nat" where
  "chars_count s \<equiv> length (utf8_chars s)"

definition chars_take :: "nat \<Rightarrow> string \<Rightarrow> string" where
  "chars_take n s = concat (take n (utf8_chars s))"

definition chars_skip :: "nat \<Rightarrow> string \<Rightarrow> string" where
  "chars_skip n s = concat (drop n (utf8_chars s))"

definition truncate_text :: "string \<Rightarrow> nat \<Rightarrow> string" where
  "truncate_text s max_chars =
     (if max_chars = 0 then []
      else if chars_count s \<le> max_chars then s
      else chars_take max_chars s @ ''...'')"

definition truncate_text_exact :: "string \<Rightarrow> nat \<Rightarrow> string" where
  "truncate_text_exact s max_chars =
     (if max_chars = 0 then []
      else if chars_count s \<le> max_chars then s
      else if max_chars \<le> 3 then chars_take max_chars s
      else chars_take (max_chars - 3) s @ ''...'')"

definition split_head_tail :: "string \<Rightarrow> nat \<Rightarrow> string \<times> string" where
  "split_head_tail s portion_limit =
     (let total = chars_count s
      in if total \<le> portion_limit * 2 then (s, [])
         else (chars_take portion_limit s, chars_skip (total - portion_limit) s))"

text \<open>\<open>str::lines\<close>: no empty line after the last newline, and no carriage return before a newline.\<close>

definition drop_cr :: "string \<Rightarrow> string" where
  "drop_cr l = (if l \<noteq> [] \<and> last l = CHR 0x0D then butlast l else l)"

definition str_lines :: "string \<Rightarrow> string list" where
  "str_lines s =
     (let ls = split_on nl s
      in map drop_cr (butlast ls) @ (if last ls = [] then [] else [last ls]))"

definition generate_summary :: "string \<Rightarrow> string \<Rightarrow> bool \<Rightarrow> string" where
  "generate_summary tool_name raw_text is_error =
     (let ls = str_lines raw_text;
          status = if is_error then ''error'' else ''success'';
          head = ''Tool '' @ tool_name @ '' ('' @ status @ '', '' @ show_nat (length ls) @ '' lines, '' @
            show_nat (chars_count raw_text) @ '' chars)''
      in if length ls \<le> 5 then head @ '':'' @ [nl] @ raw_text
         else head @ ''.'' @ [nl] @ ''First lines:'' @ [nl] @ join_with [nl] (take 3 ls))"

subsection \<open>Which strategy\<close>

definition is_file_ref :: "tool_output_strategy \<Rightarrow> bool" where
  "is_file_ref st \<longleftrightarrow> st = FileRef \<or> st = FileRefWithExcerpt"

definition base_strategy :: "string \<Rightarrow> nat \<Rightarrow> bool \<Rightarrow> normalization_config \<Rightarrow> tool_output_strategy" where
  "base_strategy tool_name raw_chars is_error cfg =
     (if tool_name = ''bash'' \<or> tool_name = ''powershell'' then
        (if raw_chars \<le> nc_inline_limit cfg then Inline
         else if raw_chars \<le> nc_file_ref_threshold cfg then HeadTail
         else FileRefWithExcerpt)
      else if tool_name = ''web_fetcher'' \<or> tool_name = ''web_search'' then
        (if raw_chars \<le> nc_inline_limit cfg then Inline else FileRefWithExcerpt)
      else
        (if raw_chars \<le> nc_inline_limit cfg then Inline
         else if raw_chars \<le> nc_file_ref_threshold cfg then (if is_error then HeadTail else SummaryOnly)
         else FileRefWithExcerpt))"

definition unhinted_strategy :: "string \<Rightarrow> nat \<Rightarrow> bool \<Rightarrow> nat \<Rightarrow> normalization_config \<Rightarrow> tool_output_strategy" where
  "unhinted_strategy tool_name raw_chars is_error remaining cfg =
     (if tool_name \<notin> set TRUNCATABLE_TOOLS then Inline
      else let base = base_strategy tool_name raw_chars is_error cfg in
        if remaining = 0 then (if is_file_ref base then FileRef else SummaryOnly)
        else if raw_chars > remaining then
          (if (tool_name = ''bash'' \<or> tool_name = ''powershell'') \<and> remaining \<ge> nc_head_tail_limit cfg div 2 then HeadTail
           else if tool_name = ''web_fetcher'' \<or> tool_name = ''web_search'' then FileRefWithExcerpt
           else if raw_chars > nc_file_ref_threshold cfg div 2 then FileRefWithExcerpt
           else if is_error \<and> remaining \<ge> nc_head_tail_limit cfg div 2 then HeadTail
           else SummaryOnly)
        else base)"

definition preferred_result ::
    "tool_output_strategy \<Rightarrow> bool \<Rightarrow> nat \<Rightarrow> nat \<Rightarrow> nat \<Rightarrow> normalization_config \<Rightarrow> tool_output_strategy" where
  "preferred_result preferred head_tail safe raw_chars remaining cfg =
     (if remaining = 0 then (if is_file_ref preferred then FileRef else SummaryOnly)
      else if preferred = Inline \<and> raw_chars > safe then
        (if head_tail then HeadTail
         else if raw_chars > nc_file_ref_threshold cfg then FileRefWithExcerpt
         else SummaryOnly)
      else if preferred = HeadTail \<and> remaining < nc_head_tail_limit cfg div 2 then
        (if raw_chars > nc_file_ref_threshold cfg div 2 then FileRefWithExcerpt else SummaryOnly)
      else if preferred = FileRefWithExcerpt \<and> remaining = 0 then FileRef
      else preferred)"

definition determine_strategy ::
    "string \<Rightarrow> nat \<Rightarrow> bool \<Rightarrow> tool_output_hint option \<Rightarrow> nat \<Rightarrow> normalization_config \<Rightarrow> tool_output_strategy" where
  "determine_strategy tool_name raw_chars is_error hint remaining cfg =
     (if tool_name \<notin> set TRUNCATABLE_TOOLS then Inline
      else case hint of
        None \<Rightarrow> unhinted_strategy tool_name raw_chars is_error remaining cfg
      | Some h \<Rightarrow>
          let safe = (case oh_safe_inline h of Some l \<Rightarrow> l | None \<Rightarrow> nc_inline_limit cfg) in
          if raw_chars \<le> safe \<and> remaining \<ge> raw_chars then Inline
          else (case oh_preferred h of
              Some preferred \<Rightarrow> preferred_result preferred (oh_prefer_head_tail h) safe raw_chars remaining cfg
            | None \<Rightarrow>
                if oh_prefer_head_tail h \<and> raw_chars > safe \<and> remaining > 0
                then (if raw_chars > nc_file_ref_threshold cfg then FileRefWithExcerpt else HeadTail)
                else unhinted_strategy tool_name raw_chars is_error remaining cfg))"

subsection \<open>The file of a large output\<close>

definition ascii_alphanumeric :: "char \<Rightarrow> bool" where
  "ascii_alphanumeric c \<longleftrightarrow>
     (let n = (of_char c :: nat) in (48 \<le> n \<and> n \<le> 57) \<or> (65 \<le> n \<and> n \<le> 90) \<or> (97 \<le> n \<and> n \<le> 122))"

lemma length_replace_from: "length r \<le> length p \<Longrightarrow> length (replace_from p r s) \<le> length s"
proof (induction p r s rule: replace_from.induct)
  case (1 p r s)
  show ?case
  proof (cases "p = []")
    case False
    show ?thesis
    proof (cases "find_sub p s")
      case (Some i)
      have "length (replace_from p r (drop (i + length p) s)) \<le> length s - (i + length p)"
        using "1.IH" [OF False Some "1.prems"] by simp
      then show ?thesis using find_sub_split(2) [OF Some] "1.prems" False Some
        by (subst replace_from.simps) simp
    qed (subst replace_from.simps, simp)
  qed (subst replace_from.simps, simp)
qed

lemma length_str_replace:
  assumes "length r < length p" "str_contains s p"
  shows "length (str_replace p r s) < length s"
proof -
  from assms(2) obtain i where i: "find_sub p s = Some i" by (auto simp: str_contains_def)
  have p: "p \<noteq> []" using assms(1) by auto
  have "length (replace_from p r (drop (i + length p) s)) \<le> length s - (i + length p)"
    using length_replace_from [of r p "drop (i + length p) s"] assms(1) by simp
  then show ?thesis using find_sub_split(2) [OF i] assms(1) p i
    by (simp add: str_replace_def) (subst replace_from.simps, simp)
qed

function squeeze_dashes :: "string \<Rightarrow> string" where
  "squeeze_dashes s = (if str_contains s ''--'' then squeeze_dashes (str_replace ''--'' ''-'' s) else s)"
  by pat_completeness auto
termination
  by (relation "measure length") (simp_all add: length_str_replace)

declare squeeze_dashes.simps [simp del]

definition trim_dashes :: "string \<Rightarrow> string" where
  "trim_dashes s = rev (dropWhile (\<lambda>c. c = CHR ''-'') (rev (dropWhile (\<lambda>c. c = CHR ''-'') s)))"

definition sanitize_file_component :: "string \<Rightarrow> string" where
  "sanitize_file_component v =
     (let sanitized = squeeze_dashes (concat (map (\<lambda>w. if length w = 1 \<and> ascii_alphanumeric (hd w) then w else ''-'') (utf8_chars v)));
          trimmed = trim_dashes sanitized
      in if trimmed = [] then ''tool'' else trimmed)"

definition hex8 :: "nat \<Rightarrow> string" where
  "hex8 n = replicate (8 - length (show_base 16 n)) (CHR ''0'') @ show_base 16 n"

definition build_storage_file_name :: "persist_env \<Rightarrow> string \<Rightarrow> string \<Rightarrow> string" where
  "build_storage_file_name P tool_name extension =
     sanitize_file_component tool_name @ ''-'' @ pe_stamp P @ ''-'' @ hex8 (pe_unique P) @ ''.'' @ extension"

definition looks_like_json :: "string \<Rightarrow> bool" where
  "looks_like_json s \<longleftrightarrow> starts_with ''{'' (trim_start s) \<or> starts_with ''['' (trim_start s)"

definition looks_like_html :: "string \<Rightarrow> bool" where
  "looks_like_html s \<longleftrightarrow>
     (let t = map ascii_lower (trim_start s)
      in starts_with ''<!doctype html'' t \<or> starts_with ''<html'' t \<or> str_contains t ''<body'')"

text \<open>\<open>Path::extension\<close> of a text: what follows the last dot of the last component, unless the dot starts it.\<close>

definition path_extension :: "string \<Rightarrow> string option" where
  "path_extension u =
     (case filter (\<lambda>w. w \<noteq> [] \<and> w \<noteq> ''.'') (split_on (CHR ''/'') u) of
        [] \<Rightarrow> None
      | ws \<Rightarrow>
          let name = last ws; parts = split_on (CHR ''.'') name
          in if name = ''..'' \<or> length parts < 2 \<or> butlast parts = [[]] then None else Some (last parts))"

definition storage_extension :: "string \<Rightarrow> (string \<times> string) option" where
  "storage_extension ext =
     (if ext = ''json'' then Some (''json'', ''application/json'')
      else if ext = ''html'' \<or> ext = ''htm'' then Some (''html'', ''text/html'')
      else if ext = ''xml'' then Some (''xml'', ''application/xml'')
      else if ext = ''md'' then Some (''md'', ''text/markdown'')
      else None)"

definition infer_storage_format :: "string \<Rightarrow> json \<Rightarrow> string \<Rightarrow> string \<times> string" where
  "infer_storage_format tool_name args raw_text =
     (if tool_name = ''bash'' \<or> tool_name = ''powershell'' then (''log'', ''text/plain'')
      else if looks_like_json raw_text then (''json'', ''application/json'')
      else if looks_like_html raw_text then (''html'', ''text/html'')
      else
        let from_url =
          (if tool_name = ''web_fetcher''
           then Option.bind (Option.bind (json_get args ''url'') as_str) (\<lambda>u.
             Option.bind (path_extension u) (\<lambda>ext. storage_extension (map ascii_lower ext)))
           else None)
        in case from_url of Some f \<Rightarrow> f | None \<Rightarrow> (''txt'', ''text/plain''))"

definition persist_output :: "persist_env \<Rightarrow> string \<Rightarrow> json \<Rightarrow> string \<Rightarrow> normalization_config \<Rightarrow> tool_storage_ref option" where
  "persist_output P tool_name args raw_text cfg =
     (if \<not> nc_enable_persistence cfg then None
      else case infer_storage_format tool_name args raw_text of
        (extension, content_type) \<Rightarrow>
          map_option (\<lambda>path. \<lparr>sr_path = path, sr_size = length raw_text, sr_content_type = content_type,
              sr_encoding = ''utf-8'', sr_tool_name = tool_name\<rparr>)
            (pe_write P (build_storage_file_name P tool_name extension) raw_text))"

subsection \<open>The normalized output\<close>

definition build_inline_output :: "string \<Rightarrow> nat \<Rightarrow> normalization_config \<Rightarrow> normalized_tool_output" where
  "build_inline_output raw_text raw_chars cfg =
     \<lparr>no_raw_content = Some raw_text, no_observation_text = raw_text,
      no_display_text = truncate_text raw_text (nc_display_limit cfg), no_storage_ref = None, no_strategy = Inline,
      no_raw_chars = raw_chars, no_observation_chars = raw_chars, no_truncated = False, no_is_error = False\<rparr>"

definition build_head_tail_output :: "string \<Rightarrow> nat \<Rightarrow> normalization_config \<Rightarrow> normalized_tool_output" where
  "build_head_tail_output raw_text raw_chars cfg =
     (case split_head_tail raw_text (nc_head_tail_limit cfg) of
        (head, tail) \<Rightarrow>
          let observation = (if tail = [] then head else ''Head:'' @ [nl] @ head @ [nl] @ ''...'' @ [nl] @ ''Tail:'' @ [nl] @ tail);
              display = (if tail = [] then truncate_text head (nc_display_limit cfg)
                else truncate_text head (nc_display_limit cfg div 2) @ ''...'' @ truncate_text tail (nc_display_limit cfg div 2))
          in \<lparr>no_raw_content = (if raw_chars > nc_file_ref_threshold cfg then None else Some raw_text),
              no_observation_text = observation, no_display_text = display, no_storage_ref = None, no_strategy = HeadTail,
              no_raw_chars = raw_chars, no_observation_chars = chars_count observation, no_truncated = True, no_is_error = False\<rparr>)"

definition build_summary_output ::
    "string \<Rightarrow> string \<Rightarrow> bool \<Rightarrow> nat \<Rightarrow> tool_storage_ref option \<Rightarrow> normalization_config \<Rightarrow> normalized_tool_output" where
  "build_summary_output tool_name raw_text is_error raw_chars storage cfg =
     (let summary = generate_summary tool_name raw_text is_error
      in \<lparr>no_raw_content = None, no_observation_text = summary,
          no_display_text = truncate_text summary (nc_display_limit cfg), no_storage_ref = storage, no_strategy = SummaryOnly,
          no_raw_chars = raw_chars, no_observation_chars = chars_count summary, no_truncated = True, no_is_error = False\<rparr>)"

definition file_ref_excerpt :: "string \<Rightarrow> tool_output_strategy \<Rightarrow> nat \<Rightarrow> normalization_config \<Rightarrow> string option" where
  "file_ref_excerpt raw_text strategy remaining cfg =
     (let excerpt_limit = min remaining (nc_excerpt_limit cfg)
      in if strategy = FileRefWithExcerpt \<and> excerpt_limit > 0 then Some (truncate_text_exact raw_text excerpt_limit) else None)"

definition build_file_ref_output ::
    "string \<Rightarrow> nat \<Rightarrow> tool_output_strategy \<Rightarrow> tool_storage_ref option \<Rightarrow> nat \<Rightarrow> normalization_config \<Rightarrow> normalized_tool_output" where
  "build_file_ref_output raw_text raw_chars strategy storage remaining cfg =
     (let excerpt = file_ref_excerpt raw_text strategy remaining cfg;
          hint = (case storage of Some s \<Rightarrow> ''Full output saved to: '' @ sr_path s | None \<Rightarrow> ''Full output saved to file storage.'');
          start = ''Output too large ('' @ show_nat raw_chars @ '' chars). '' @ hint;
          observation = start @
            (case excerpt of
               Some e \<Rightarrow> [nl] @ ''Excerpt:'' @ [nl] @ e
             | None \<Rightarrow> if storage = None then [nl] @ ''Use read tool to view full output.'' else []);
          display =
            (case (excerpt, storage) of
               (Some e, _) \<Rightarrow> truncate_text (''Saved large output. Excerpt: '' @ e) (nc_display_limit cfg)
             | (None, Some s) \<Rightarrow> truncate_text (''Saved large output to '' @ sr_path s) (nc_display_limit cfg)
             | (None, None) \<Rightarrow> ''Large output ('' @ show_nat raw_chars @ '' chars)'')
      in \<lparr>no_raw_content = None, no_observation_text = observation, no_display_text = display, no_storage_ref = storage,
          no_strategy = strategy, no_raw_chars = raw_chars, no_observation_chars = chars_count observation,
          no_truncated = True, no_is_error = False\<rparr>)"

definition apply_observation_budget :: "nat \<Rightarrow> string \<Rightarrow> normalized_tool_output \<Rightarrow> normalized_tool_output" where
  "apply_observation_budget remaining tool_name out =
     (if tool_name \<notin> set TRUNCATABLE_TOOLS then out
      else if no_observation_chars out \<le> remaining then out
      else let observation = truncate_text_exact (no_observation_text out) remaining
           in out\<lparr>no_observation_text := observation, no_observation_chars := chars_count observation, no_truncated := True,
                no_strategy := (if no_storage_ref out \<noteq> None then FileRefWithExcerpt else SummaryOnly)\<rparr>)"

definition normalize_tool_output ::
    "persist_env \<Rightarrow> string \<Rightarrow> json \<Rightarrow> string \<Rightarrow> bool \<Rightarrow> tool_output_hint option \<Rightarrow> normalization_config \<Rightarrow> normalized_tool_output" where
  "normalize_tool_output P tool_name args raw_text is_error hint cfg =
     (let raw_chars = chars_count raw_text;
          remaining = remaining_observation_budget cfg;
          strategy = determine_strategy tool_name raw_chars is_error hint remaining cfg;
          storage = (if is_file_ref strategy then persist_output P tool_name args raw_text cfg else None);
          out = (case strategy of
              Inline \<Rightarrow> build_inline_output raw_text raw_chars cfg
            | HeadTail \<Rightarrow> build_head_tail_output raw_text raw_chars cfg
            | SummaryOnly \<Rightarrow> build_summary_output tool_name raw_text is_error raw_chars storage cfg
            | _ \<Rightarrow> build_file_ref_output raw_text raw_chars strategy storage remaining cfg)
      in (apply_observation_budget remaining tool_name out)\<lparr>no_is_error := is_error\<rparr>)"

subsection \<open>Counting characters\<close>

lemma utf8_chars_take: "utf8_chars (concat (take n (utf8_chars s))) = take n (utf8_chars s)"
proof (induction s arbitrary: n)
  case (Cons c s)
  show ?case
  proof (cases "utf8_chars s")
    case Nil
    then show ?thesis by (cases n) simp_all
  next
    case (Cons w ws)
    show ?thesis
    proof (cases n)
      case (Suc m)
      have "utf8_chars (concat (take (Suc m) (w # ws))) = take (Suc m) (w # ws)"
        "utf8_chars (concat (take m (w # ws))) = take m (w # ws)"
        using Cons.IH [of "Suc m"] Cons.IH [of m] Cons by simp_all
      then show ?thesis using Cons Suc by (cases m) auto
    qed simp
  qed
qed simp

lemma chars_count_take: "chars_count (chars_take n s) \<le> n"
  by (simp add: chars_take_def utf8_chars_take)

lemma hd_hd_utf8_chars: "s \<noteq> [] \<Longrightarrow> hd (hd (utf8_chars s)) = hd s \<and> hd (utf8_chars s) \<noteq> []"
  by (cases s) (auto split: list.splits)

lemma utf8_chars_append: "v \<noteq> [] \<Longrightarrow> \<not> is_cont (hd v) \<Longrightarrow> utf8_chars (u @ v) = utf8_chars u @ utf8_chars v"
proof (induction u)
  case (Cons c u)
  show ?case
  proof (cases "utf8_chars u")
    case Nil
    then have "u = []" by simp
    with Cons.prems hd_hd_utf8_chars [of v] show ?thesis by (auto split: list.splits)
  qed (use Cons in auto)
qed simp

lemma chars_count_exact: "chars_count (truncate_text_exact s n) \<le> n"
proof -
  have "\<not> is_cont (CHR ''.'')" by (simp add: is_cont_def)
  then have "chars_count (chars_take m s @ ''...'') = chars_count (chars_take m s) + 3" for m
    using utf8_chars_append [of "''...''" "chars_take m s"] by (simp add: is_cont_def)
  then show ?thesis using chars_count_take [of n s] chars_count_take [of "n - 3" s]
    by (auto simp: truncate_text_exact_def)
qed

lemma observation_counted:
  "no_observation_chars (normalize_tool_output P t args raw err hint cfg) =
     chars_count (no_observation_text (normalize_tool_output P t args raw err hint cfg))"
  by (auto simp: normalize_tool_output_def apply_observation_budget_def build_inline_output_def build_head_tail_output_def
      build_summary_output_def build_file_ref_output_def Let_def split: tool_output_strategy.split prod.split)

text \<open>the output of a tool that may be shortened never takes more of the turn's budget than what is left
  of it, whatever the hint asks for, and the characters that are charged are those the model sees.\<close>

theorem observation_within_budget:
  assumes "tool_name \<in> set TRUNCATABLE_TOOLS"
  shows "chars_count (no_observation_text (normalize_tool_output P tool_name args raw_text is_error hint cfg)) \<le>
    remaining_observation_budget cfg"
proof -
  have "no_observation_chars (apply_observation_budget r tool_name out) \<le> r" for r out
    using assms chars_count_exact [of "no_observation_text out" r] by (simp add: apply_observation_budget_def Let_def)
  then show ?thesis unfolding observation_counted [symmetric] by (simp add: normalize_tool_output_def Let_def)
qed

text \<open>a tool that may not be shortened is shown in full, with any hint and also when the budget of the
  turn is used up.\<close>

theorem other_tools_in_full:
  assumes "tool_name \<notin> set TRUNCATABLE_TOOLS"
  shows "no_observation_text (normalize_tool_output P tool_name args raw_text is_error hint cfg) = raw_text \<and>
    no_raw_content (normalize_tool_output P tool_name args raw_text is_error hint cfg) = Some raw_text \<and>
    \<not> no_truncated (normalize_tool_output P tool_name args raw_text is_error hint cfg)"
  using assms by (simp add: normalize_tool_output_def determine_strategy_def is_file_ref_def build_inline_output_def
      apply_observation_budget_def Let_def)

definition ex_persist :: persist_env where
  "ex_persist = \<lparr>pe_stamp = ''20250101-000000'', pe_unique = 1, pe_write = (\<lambda>name text. Some name)\<rparr>"

lemma observation_within_budget_witness:
  "chars_count (no_observation_text (normalize_tool_output ex_persist ''web_search'' JNull ''hello'' False None
     (with_used_observation_chars 7998 runtime_default))) \<le> 2"
  using observation_within_budget [of "''web_search''" ex_persist JNull "''hello''" False None "with_used_observation_chars 7998 runtime_default"]
  by (simp add: TRUNCATABLE_TOOLS_def remaining_observation_budget_def with_used_observation_chars_def runtime_default_def)

lemma other_tools_in_full_witness:
  "no_observation_text (normalize_tool_output ex_persist ''bash'' JNull ''hello'' False None
     (with_used_observation_chars 8000 runtime_default)) = ''hello''"
  using other_tools_in_full [of "''bash''" ex_persist JNull "''hello''" False None "with_used_observation_chars 8000 runtime_default"]
  by (simp add: TRUNCATABLE_TOOLS_def)

text \<open>When nothing is left of the budget the observation is empty; all that is left is the storage reference.\<close>

lemma exhausted_budget_hides_reference:
  assumes "tool_name \<in> set TRUNCATABLE_TOOLS" "nc_observation_budget cfg \<le> nc_used_observation_chars cfg"
  shows "no_observation_text (normalize_tool_output P tool_name args raw_text is_error hint cfg) = []"
  using observation_within_budget [OF assms(1), of P args raw_text is_error hint cfg] assms(2)
  by (simp add: remaining_observation_budget_def)

text \<open>The strategies for the shell tools are dead: nothing but the two web tools gets to them.\<close>

lemma shell_output_never_shortened:
  "determine_strategy ''bash'' raw_chars is_error hint remaining cfg = Inline"
  by (simp add: determine_strategy_def TRUNCATABLE_TOOLS_def)

text \<open>File names are made of letters, digits and single dashes.\<close>

lemma sanitize_examples:
  "sanitize_file_component ''../etc//passwd'' = ''etc-passwd''"
  "sanitize_file_component ''..'' = ''tool''"
  by code_simp+

end
