(* ===== verification/React_State.thy ===== *)
theory React_State
  imports Message_Pairing Tool_Output Graph_Error
begin

text \<open>
  \<open>agent/agent-core/src/state.rs\<close>: the state of the ReAct graph, and what a reply of the model does to it
  (\<open>apply_think\<close>). Token counts are 32-bit words. The model configuration is a type parameter. Fresh
  identifiers are a stream: \<open>fresh k\<close> is the \<open>k\<close>-th one drawn.
\<close>

record tool_call =
  tc_id :: "string option"
  tc_name :: string
  tc_arguments :: string

record prompt_tokens_details =
  pd_cached :: "u32 option"
  pd_audio :: "u32 option"

record completion_tokens_details =
  cd_reasoning :: "u32 option"
  cd_audio :: "u32 option"
  cd_accepted :: "u32 option"
  cd_rejected :: "u32 option"

record llm_usage =
  lu_prompt :: u32
  lu_completion :: u32
  lu_total :: u32
  lu_prompt_details :: "prompt_tokens_details option"
  lu_completion_details :: "completion_tokens_details option"

record llm_response =
  lr_content :: string
  lr_reasoning :: "string option"
  lr_tool_calls :: "tool_call list"
  lr_usage :: "llm_usage option"
  lr_finish_reason :: "string option"

record tool_result =
  tr_call_id :: "string option"
  tr_name :: "string option"
  tr_content :: string
  tr_is_error :: bool
  tr_raw_content :: "string option"
  tr_observation_text :: "string option"
  tr_display_text :: "string option"
  tr_storage_ref :: "tool_storage_ref option"
  tr_strategy :: "tool_output_strategy option"
  tr_raw_chars :: "nat option"
  tr_observation_chars :: "nat option"
  tr_truncated :: bool

record 'm react_state =
  rs_model_config :: 'm
  rs_messages :: "message list"
  rs_last_reasoning :: "string option"
  rs_tool_calls :: "tool_call list"
  rs_tool_results :: "tool_result list"
  rs_turn_count :: u32
  rs_usage :: "llm_usage option"
  rs_total_usage :: "llm_usage option"
  rs_count_after_think :: "nat option"
  rs_think_count :: u32
  rs_summary :: "string option"
  rs_should_continue :: bool
  rs_force_compact :: bool

definition saturating_succ :: "u32 \<Rightarrow> u32" where
  "saturating_succ n = (if n = - 1 then n else n + 1)"

definition react_state_new :: "'m \<Rightarrow> message list \<Rightarrow> 'm react_state" where
  "react_state_new m messages =
     \<lparr>rs_model_config = m, rs_messages = messages, rs_last_reasoning = None, rs_tool_calls = [], rs_tool_results = [],
      rs_turn_count = 0, rs_usage = None, rs_total_usage = None, rs_count_after_think = None, rs_think_count = 0,
      rs_summary = None, rs_should_continue = True, rs_force_compact = False\<rparr>"

subsection \<open>Tool results\<close>

definition tr_observation :: "tool_result \<Rightarrow> string" where
  "tr_observation r = (case tr_observation_text r of Some t \<Rightarrow> t | None \<Rightarrow> tr_content r)"

definition non_empty :: "string \<Rightarrow> string option" where
  "non_empty s = (if s = [] then None else Some s)"

definition tool_result_of :: "normalized_tool_output \<Rightarrow> tool_result" where
  "tool_result_of n =
     \<lparr>tr_call_id = None, tr_name = None, tr_content = [], tr_is_error = no_is_error n, tr_raw_content = no_raw_content n,
      tr_observation_text = non_empty (no_observation_text n), tr_display_text = non_empty (no_display_text n),
      tr_storage_ref = no_storage_ref n, tr_strategy = Some (no_strategy n), tr_raw_chars = Some (no_raw_chars n),
      tr_observation_chars = Some (no_observation_chars n), tr_truncated = no_truncated n\<rparr>"

subsection \<open>A reply of the model\<close>

definition usage_accumulate :: "llm_usage \<Rightarrow> llm_usage \<Rightarrow> llm_usage" where
  "usage_accumulate t r =
     \<lparr>lu_prompt = lu_prompt t + lu_prompt r, lu_completion = lu_completion t + lu_completion r,
      lu_total = lu_total t + lu_total r, lu_prompt_details = None, lu_completion_details = None\<rparr>"

fun compute_think_usage :: "llm_usage option \<Rightarrow> llm_usage option \<Rightarrow> llm_usage option \<times> llm_usage option" where
  "compute_think_usage (Some t) (Some r) = (Some r, Some (usage_accumulate t r))"
| "compute_think_usage None (Some r) = (Some r, Some r)"
| "compute_think_usage (Some t) None = (None, Some t)"
| "compute_think_usage None None = (None, None)"

definition lacks_id :: "string option \<Rightarrow> bool" where
  "lacks_id i \<longleftrightarrow> (case i of None \<Rightarrow> True | Some s \<Rightarrow> s = [])"

fun fix_tool_calls :: "(nat \<Rightarrow> string) \<Rightarrow> nat \<Rightarrow> tool_call list \<Rightarrow> tool_call list" where
  "fix_tool_calls fresh k [] = []"
| "fix_tool_calls fresh k (tc # tcs) =
     (if lacks_id (tc_id tc) then tc\<lparr>tc_id := Some (''call_'' @ fresh k)\<rparr> # fix_tool_calls fresh (k + 1) tcs
      else tc # fix_tool_calls fresh k tcs)"

definition assistant_call :: "tool_call \<Rightarrow> assistant_tool_call" where
  "assistant_call tc = \<lparr>atc_id = the (tc_id tc), atc_name = tc_name tc, atc_arguments = tc_arguments tc\<rparr>"

definition apply_think ::
    "(nat \<Rightarrow> string) \<Rightarrow> string \<Rightarrow> string option \<Rightarrow> tool_call list \<Rightarrow> llm_usage option \<Rightarrow> 'm react_state \<Rightarrow> 'm react_state" where
  "apply_think fresh content reasoning tool_calls response_usage s =
     (case compute_think_usage (rs_total_usage s) response_usage of
        (usage, summed) \<Rightarrow>
          let fixed = fix_tool_calls fresh 0 tool_calls;
              atc = map assistant_call fixed;
              is_empty = (trim content = [] \<and> (case reasoning of None \<Rightarrow> True | Some r \<Rightarrow> trim r = []) \<and> tool_calls = []);
              msg = (if atc = [] then assistant_with_reasoning content reasoning
                else assistant_with_tool_calls_and_reasoning content atc reasoning);
              messages = (if is_empty then rs_messages s else rs_messages s @ [msg])
          in s\<lparr>rs_messages := messages, rs_last_reasoning := reasoning, rs_tool_calls := fixed, rs_usage := usage,
               rs_total_usage := summed, rs_count_after_think := Some (length messages),
               rs_think_count := saturating_succ (rs_think_count s)\<rparr>)"

definition last_assistant_reply :: "'m react_state \<Rightarrow> string option" where
  "last_assistant_reply s =
     (case find (\<lambda>m. case m of Assistant p \<Rightarrow> True | _ \<Rightarrow> False) (rev (rs_messages s)) of
        Some (Assistant p) \<Rightarrow> Some (ap_content p)
      | _ \<Rightarrow> None)"

subsection \<open>Facts\<close>

lemma fix_tool_calls_Nil [simp]: "fix_tool_calls fresh k tcs = [] \<longleftrightarrow> tcs = []"
  by (cases tcs) auto

lemma length_fix_tool_calls [simp]: "length (fix_tool_calls fresh k tcs) = length tcs"
  by (induction tcs arbitrary: k) auto

lemma fix_tool_calls_named: "tc \<in> set (fix_tool_calls fresh k tcs) \<Longrightarrow> \<not> lacks_id (tc_id tc)"
  by (induction tcs arbitrary: k) (auto simp: lacks_id_def split: if_splits)

definition tc_ids :: "tool_call list \<Rightarrow> string list" where
  "tc_ids tcs = map (\<lambda>tc. the (tc_id tc)) tcs"

lemma assistant_call_ids: "map atc_id (map assistant_call tcs) = tc_ids tcs"
  by (simp add: tc_ids_def assistant_call_def)

lemma fixed_ids_ne: "[] \<notin> set (tc_ids (fix_tool_calls fresh k tcs))"
proof
  assume "[] \<in> set (tc_ids (fix_tool_calls fresh k tcs))"
  then obtain tc where "tc \<in> set (fix_tool_calls fresh k tcs)" "the (tc_id tc) = []" by (auto simp: tc_ids_def)
  with fix_tool_calls_named [of tc fresh k tcs] show False by (auto simp: lacks_id_def split: option.splits)
qed

text \<open>What a reply adds to the conversation.\<close>

definition reply_messages :: "(nat \<Rightarrow> string) \<Rightarrow> string \<Rightarrow> string option \<Rightarrow> tool_call list \<Rightarrow> message list" where
  "reply_messages fresh content reasoning tool_calls =
     (if trim content = [] \<and> (case reasoning of None \<Rightarrow> True | Some r \<Rightarrow> trim r = []) \<and> tool_calls = [] then []
      else [Assistant \<lparr>ap_content = content, ap_tool_calls = map assistant_call (fix_tool_calls fresh 0 tool_calls),
              ap_reasoning = reasoning\<rparr>])"

lemma apply_think_simps [simp]:
  "rs_messages (apply_think fresh c r tcs u s) = rs_messages s @ reply_messages fresh c r tcs"
  "rs_tool_calls (apply_think fresh c r tcs u s) = fix_tool_calls fresh 0 tcs"
  "rs_tool_results (apply_think fresh c r tcs u s) = rs_tool_results s"
  "rs_turn_count (apply_think fresh c r tcs u s) = rs_turn_count s"
  "rs_model_config (apply_think fresh c r tcs u s) = rs_model_config s"
  by (auto simp: apply_think_def reply_messages_def assistant_with_reasoning_def assistant_with_tool_calls_and_reasoning_def
      Let_def split: prod.split)

lemma reply_pending:
  "run_pending [] (reply_messages fresh c r tcs) = Some (tc_ids (fix_tool_calls fresh 0 tcs))"
  by (auto simp: reply_messages_def assistant_call_ids [symmetric] tc_ids_def)

lemma reply_call_ids: "call_ids (reply_messages fresh c r tcs) = tc_ids (fix_tool_calls fresh 0 tcs)"
  by (auto simp: reply_messages_def assistant_call_ids [symmetric] tc_ids_def)

end
