(* ===== verification/Tool_Registry.thy ===== *)
theory Tool_Registry
  imports Tool_Output
begin

text \<open>
  \<open>agent/tool/tool-core/src/filter.rs\<close>, \<open>registry.rs\<close>: which tools the model is shown and which it may
  call. A tool (\<open>dyn Tool\<close>) is a record of its name, its specification and its body, a function of a stamp
  that is different for every call. A \<open>HashMap\<close> is an association list in its order of iteration. The lock
  around the registry is taken for reading by every call, so the calls see the registry as it was built.
\<close>

record tool_filter =
  tf_enabled :: "string list option"
  tf_disabled :: "string list option"

definition filter_is_noop :: "tool_filter \<Rightarrow> bool" where
  "filter_is_noop f \<longleftrightarrow>
     (case tf_enabled f of None \<Rightarrow> True | Some v \<Rightarrow> v = []) \<and> (case tf_disabled f of None \<Rightarrow> True | Some v \<Rightarrow> v = [])"

definition filter_allows :: "tool_filter \<Rightarrow> string \<Rightarrow> bool" where
  "filter_allows f name =
     (if (case tf_enabled f of Some en \<Rightarrow> en \<noteq> [] \<and> name \<notin> set en | None \<Rightarrow> False) then False
      else if (case tf_disabled f of Some dis \<Rightarrow> name \<in> set dis | None \<Rightarrow> False) then False
      else True)"

definition filter_names :: "tool_filter \<Rightarrow> string list \<Rightarrow> string list" where
  "filter_names f names = filter (filter_allows f) names"

record tool_spec =
  tp_name :: string
  tp_description :: "string option"
  tp_input_schema :: json
  tp_output_hint :: "tool_output_hint option"

datatype tool_source_error =
    Tool_NotFound string
  | InvalidInput string
  | Transport string
  | JsonRpc string
  | ToolError string

fun show_tool_source_error :: "tool_source_error \<Rightarrow> string" where
  "show_tool_source_error (Tool_NotFound m) = ''tool not found: '' @ m"
| "show_tool_source_error (InvalidInput m) = ''invalid arguments: '' @ m"
| "show_tool_source_error (Transport m) = ''MCP/transport error: '' @ m"
| "show_tool_source_error (JsonRpc m) = ''JSON-RPC error: '' @ m"
| "show_tool_source_error (ToolError m) = ''tool execution error: '' @ m"

record tool_call_context =
  tx_recent_messages :: "message list"
  tx_thread_id :: "string option"
  tx_user_id :: "string option"
  tx_acp_session_id :: "string option"
  tx_depth :: u32
  tx_tool_call_id :: "string option"

type_synonym call_stamp = "nat \<times> nat"
type_synonym tool_outcome = "tool_source_error + tool_call_content"

record tool =
  tl_name :: string
  tl_spec :: tool_spec
  tl_call :: "call_stamp \<Rightarrow> json \<Rightarrow> tool_call_context option \<Rightarrow> tool_outcome"

record tool_registry =
  tg_tools :: "(string \<times> tool) list"
  tg_filter :: "tool_filter option"
  tg_call_filter :: "tool_filter option"
  tg_dry_run :: bool
  tg_yaml_specs :: "(string \<times> tool_spec) list option"
  tg_context :: "tool_call_context option"

definition registry_new :: tool_registry where
  "registry_new = \<lparr>tg_tools = [], tg_filter = None, tg_call_filter = None, tg_dry_run = False, tg_yaml_specs = None,
     tg_context = None\<rparr>"

definition registry_register :: "tool \<Rightarrow> tool_registry \<Rightarrow> tool_registry" where
  "registry_register t r = r\<lparr>tg_tools := AList.update (tl_name t) t (tg_tools r)\<rparr>"

definition apply_yaml_overrides :: "tool_registry \<Rightarrow> tool_spec list \<Rightarrow> tool_spec list" where
  "apply_yaml_overrides r registered =
     (case tg_yaml_specs r of
        Some m \<Rightarrow> map (\<lambda>s. case map_of m (tp_name s) of Some y \<Rightarrow> y | None \<Rightarrow> s) registered
      | None \<Rightarrow> registered)"

definition registry_allows :: "tool_registry \<Rightarrow> string \<Rightarrow> bool" where
  "registry_allows r name = (case tg_filter r of Some f \<Rightarrow> filter_allows f name | None \<Rightarrow> True)"

definition registry_list :: "tool_registry \<Rightarrow> tool_spec list" where
  "registry_list r =
     apply_yaml_overrides r (filter (\<lambda>s. registry_allows r (tp_name s)) (map (tl_spec \<circ> snd) (tg_tools r)))"

definition in_quotes :: "string \<Rightarrow> string" where
  "in_quotes s = [CHR 0x27] @ s @ [CHR 0x27]"

definition registry_call ::
    "tool_registry \<Rightarrow> call_stamp \<Rightarrow> string \<Rightarrow> json \<Rightarrow> tool_call_context option \<Rightarrow> tool_outcome" where
  "registry_call r stamp name args ctx =
     (if \<not> registry_allows r name
      then Inl (Tool_NotFound (''tool '' @ in_quotes name @ '' is disabled for this agent''))
      else if (case tg_call_filter r of Some cf \<Rightarrow> \<not> filter_allows cf name | None \<Rightarrow> False)
      then Inl (Tool_NotFound (''tool '' @ in_quotes name @ '' is denied by call_filter for this agent''))
      else if tg_dry_run r then Inr (Content_Text (''(dry run: '' @ name @ '' was not executed)''))
      else case map_of (tg_tools r) name of
        None \<Rightarrow> Inl (Tool_NotFound name)
      | Some t \<Rightarrow> tl_call t stamp args ctx)"

definition call_tool ::
    "call_stamp \<Rightarrow> string \<Rightarrow> json \<Rightarrow> tool_call_context option \<Rightarrow> tool_registry \<Rightarrow> tool_outcome \<times> tool_registry" where
  "call_tool stamp name args ctx r =
     (case ctx of
        Some c \<Rightarrow> let r' = r\<lparr>tg_context := Some c\<rparr> in (registry_call r' stamp name args ctx, r')
      | None \<Rightarrow> (registry_call r stamp name args (tg_context r), r))"

lemma filter_noop_allows: "filter_is_noop f \<Longrightarrow> filter_allows f name"
  by (auto simp: filter_is_noop_def filter_allows_def split: option.splits)

lemma call_tool_context [simp]:
  "fst (call_tool stamp name args (Some c) r) = registry_call r stamp name args (Some c)"
  by (simp add: call_tool_def registry_call_def registry_allows_def Let_def)

text \<open>A tool the filter hides is neither shown nor run; whatever else is registered under its own name and
  shown can be called, unless the second filter denies it.\<close>

definition registry_wf :: "tool_registry \<Rightarrow> bool" where
  "registry_wf r \<longleftrightarrow> (\<forall>(k, t) \<in> set (tg_tools r). tl_name t = k \<and> tp_name (tl_spec t) = k) \<and> distinct (map fst (tg_tools r)) \<and>
     (case tg_yaml_specs r of Some m \<Rightarrow> \<forall>(k, s) \<in> set m. tp_name s = k | None \<Rightarrow> True)"

lemma registry_register_wf: "registry_wf r \<Longrightarrow> tp_name (tl_spec t) = tl_name t \<Longrightarrow> registry_wf (registry_register t r)"
  using set_update_subset [of "tl_name t" t "tg_tools r"]
  by (auto simp: registry_wf_def registry_register_def distinct_update split: option.splits)

lemma listed_names:
  assumes "registry_wf r"
  shows "map tp_name (registry_list r) = filter (registry_allows r) (map fst (tg_tools r))"
proof -
  have "tp_name (case map_of m (tp_name s) of Some y \<Rightarrow> y | None \<Rightarrow> s) = tp_name s" if "tg_yaml_specs r = Some m" for m s
    using assms that by (cases "map_of m (tp_name s)") (auto simp: registry_wf_def dest: map_of_SomeD)
  then have "map tp_name (apply_yaml_overrides r ss) = map tp_name ss" for ss
    by (simp add: apply_yaml_overrides_def split: option.split)
  moreover have "map tp_name (map (tl_spec \<circ> snd) (tg_tools r)) = map fst (tg_tools r)"
    using assms by (force simp: registry_wf_def)
  moreover have "map tp_name (filter (\<lambda>s. registry_allows r (tp_name s)) ss) = filter (registry_allows r) (map tp_name ss)" for ss
    by (simp add: filter_map o_def)
  ultimately show ?thesis unfolding registry_list_def by metis
qed

text \<open>what the model is shown is what it can run: a call of a tool that is not in the list is refused,
  whatever the tools do, and a call of a listed tool that the call filter lets through runs exactly that
  tool's body (unless nothing runs, in a dry run).\<close>

theorem registry_list_agrees_with_call:
  assumes "registry_wf r"
  shows "(name \<notin> set (map tp_name (registry_list r)) \<and> \<not> tg_dry_run r \<longrightarrow>
            (\<exists>m. registry_call r stamp name args ctx = Inl (Tool_NotFound m))) \<and>
         (name \<in> set (map tp_name (registry_list r)) \<and> \<not> tg_dry_run r \<and> tg_call_filter r = None \<longrightarrow>
            (\<exists>t. t \<in> snd ` set (tg_tools r) \<and> tl_name t = name \<and> registry_call r stamp name args ctx = tl_call t stamp args ctx))"
proof -
  have unknown: "map_of (tg_tools r) name = None \<longleftrightarrow> name \<notin> set (map fst (tg_tools r))"
    by (simp add: map_of_eq_None_iff)
  show ?thesis
  proof (cases "map_of (tg_tools r) name")
    case None
    with unknown show ?thesis unfolding listed_names [OF assms] by (simp add: registry_call_def)
  next
    case (Some t)
    from map_of_SomeD [OF Some] assms have t: "tl_name t = name" "t \<in> snd ` set (tg_tools r)"
      by (force simp: registry_wf_def)+
    from Some unknown have "name \<in> set (map fst (tg_tools r))" by simp
    with Some have "registry_allows r name \<longrightarrow> \<not> tg_dry_run r \<longrightarrow> tg_call_filter r = None \<longrightarrow>
        registry_call r stamp name args ctx = tl_call t stamp args ctx"
      "\<not> registry_allows r name \<longrightarrow> (\<exists>m. registry_call r stamp name args ctx = Inl (Tool_NotFound m))"
      by (simp_all add: registry_call_def)
    with t \<open>name \<in> _\<close> show ?thesis unfolding listed_names [OF assms] unfolding set_filter by blast
  qed
qed

definition ex_tool :: "string \<Rightarrow> tool" where
  "ex_tool n = \<lparr>tl_name = n, tl_spec = \<lparr>tp_name = n, tp_description = None, tp_input_schema = JNull, tp_output_hint = None\<rparr>,
     tl_call = (\<lambda>stamp args ctx. Inr (Content_Text (''ran '' @ n)))\<rparr>"

definition ex_registry :: tool_registry where
  "ex_registry = (registry_register (ex_tool ''bash'') (registry_register (ex_tool ''grep'') registry_new))
     \<lparr>tg_filter := Some \<lparr>tf_enabled = None, tf_disabled = Some [''bash'']\<rparr>\<rparr>"

lemmas ex_registry_defs = ex_registry_def registry_register_def registry_new_def ex_tool_def

lemma registry_list_agrees_with_call_witness:
  "(\<exists>m. registry_call ex_registry (0, 0) ''bash'' JNull None = Inl (Tool_NotFound m)) \<and>
   (\<exists>t. t \<in> snd ` set (tg_tools ex_registry) \<and> tl_name t = ''grep'' \<and>
      registry_call ex_registry (0, 0) ''grep'' JNull None = tl_call t (0, 0) JNull None)"
proof -
  have wf: "registry_wf ex_registry" by (simp add: ex_registry_defs registry_wf_def)
  have l: "map tp_name (registry_list ex_registry) = [''grep'']"
    unfolding listed_names [OF wf] by (simp add: ex_registry_defs registry_allows_def filter_allows_def)
  have "\<not> tg_dry_run ex_registry" "tg_call_filter ex_registry = None" by (simp_all add: ex_registry_defs)
  then show ?thesis
    using registry_list_agrees_with_call [OF wf, of "''bash''" "(0, 0)" JNull None]
      registry_list_agrees_with_call [OF wf, of "''grep''" "(0, 0)" JNull None] by (simp add: l)
qed

text \<open>An empty list of enabled tools allows everything, and a dry run reports success for a tool that does not exist.\<close>

lemma empty_whitelist_allows_all: "filter_allows \<lparr>tf_enabled = Some [], tf_disabled = None\<rparr> name"
  by (simp add: filter_allows_def)

lemma dry_run_of_unknown_tool:
  "registry_call (registry_new\<lparr>tg_dry_run := True\<rparr>) stamp name args ctx = Inr (Content_Text (''(dry run: '' @ name @ '' was not executed)''))"
  by (simp add: registry_call_def registry_new_def registry_allows_def)

end
