(* ===== verification/React_Act.thy ===== *)
theory React_Act
  imports React_State Tool_Registry Graph_Run
begin

text \<open>
  \<open>agent/react/act_utils.rs\<close>, \<open>act_executor.rs\<close>, \<open>act_node.rs\<close> (and the tool errors of
  \<open>goal_runner/state.rs\<close>): the calls of one turn are executed in order, every outcome becomes a tool result,
  the characters shown so far are charged against the budget of the turn, and calls and results are given
  the same identifiers. \<open>cancelled p\<close> is the \<open>p\<close>-th look at the cancellation token within the node call (the
  race of a tool against the token is one look). Parsing and printing of JSON are parameters. Stream events
  and logging are left out.
\<close>

subsection \<open>Arguments\<close>

datatype tool_error =
    Tool_ExecutionFailed string
  | Tool_Timeout
  | Tool_Aborted
  | RateLimited string
  | InvalidJsonArguments string string string

fun show_tool_error :: "tool_error \<Rightarrow> string" where
  "show_tool_error (Tool_ExecutionFailed m) = ''execution failed: '' @ m"
| "show_tool_error Tool_Timeout = ''tool execution timed out''"
| "show_tool_error Tool_Aborted = ''tool execution aborted''"
| "show_tool_error (RateLimited m) = ''rate limited: '' @ m"
| "show_tool_error (InvalidJsonArguments tool_name raw_args parse_error) =
     ''['' @ tool_name @ ''] invalid arguments: expected valid JSON object string. Parse error: '' @ parse_error @
     ''. Raw input: '' @ chars_take 100 raw_args"

fun is_self_correctable :: "tool_error \<Rightarrow> bool" where
  "is_self_correctable (InvalidJsonArguments _ _ _) = True"
| "is_self_correctable _ = False"

definition dquoted :: "string \<Rightarrow> string" where
  "dquoted s = [CHR 0x22] @ s @ [CHR 0x22]"

fun self_correct_hint :: "tool_error \<Rightarrow> string" where
  "self_correct_hint (InvalidJsonArguments tool_name raw_args parse_error) =
     ''['' @ tool_name @ ''] invalid arguments: expected a JSON object string, but received: '' @
     dquoted (chars_take 150 raw_args) @ ''. Please provide valid JSON, e.g. {'' @ dquoted ''pattern'' @ '': '' @
     dquoted ''*.rs'' @ '', '' @ dquoted ''path'' @ '': '' @ dquoted ''src'' @ ''}.''"
| "self_correct_hint e = show_tool_error e"

definition parse_tool_arguments :: "(string \<Rightarrow> string + json) \<Rightarrow> string \<Rightarrow> string \<Rightarrow> tool_error + json" where
  "parse_tool_arguments from_str tool_name arguments =
     (let trimmed = trim arguments in
      if trimmed = [] then Inr (json_object [])
      else case from_str trimmed of
        Inl e \<Rightarrow> Inl (InvalidJsonArguments tool_name arguments e)
      | Inr raw \<Rightarrow>
          (case as_str raw of
             Some s \<Rightarrow> (case from_str s of Inr parsed \<Rightarrow> Inr parsed | Inl _ \<Rightarrow> Inr raw)
           | None \<Rightarrow> Inr raw))"

definition DEFAULT_EXECUTION_ERROR_TEMPLATE :: string where
  "DEFAULT_EXECUTION_ERROR_TEMPLATE =
     ''Error executing tool '' @ in_quotes ''{tool_name}'' @ '' with kwargs {tool_kwargs} with error:'' @ [nl] @
     '' {error}'' @ [nl] @ '' Please fix the error and try again.''"

definition execution_error_text :: "string \<Rightarrow> string \<Rightarrow> string \<Rightarrow> string" where
  "execution_error_text name kwargs e =
     str_replace ''{error}'' e
       (str_replace ''{tool_kwargs}'' kwargs (str_replace ''{tool_name}'' name DEFAULT_EXECUTION_ERROR_TEMPLATE))"

text \<open>The hint for a call without a tool name, in UTF-8.\<close>

definition EMPTY_NAME_HINT :: string where
  "EMPTY_NAME_HINT = map char_of
     [0xe4, 0xbd, 0xa0, 0xe6, 0x8f, 0x90, 0xe4, 0xba, 0xa4, 0xe4, 0xba, 0x86, 0xe4, 0xb8, 0x80, 0xe4, 0xb8, 0xaa,
      0xe7, 0xa9, 0xba, 0xe7, 0x9a, 0x84, 0xe5, 0xb7, 0xa5, 0xe5, 0x85, 0xb7, 0xe5, 0x90, 0x8d, 0xef, 0xbc, 0x8c,
      0xe8, 0xaf, 0xb7, 0xe4, 0xbb, 0x8e, 0xe5, 0x8f, 0xaf, 0xe7, 0x94, 0xa8, 0xe5, 0xb7, 0xa5, 0xe5, 0x85, 0xb7,
      0xe5, 0x88, 0x97, 0xe8, 0xa1, 0xa8, 0xe4, 0xb8, 0xad, 0xe9, 0x80, 0x89, 0xe6, 0x8b, 0xa9, 0xe4, 0xb8, 0x80,
      0xe4, 0xb8, 0xaa, 0xe6, 0x9c, 0x89, 0xe6, 0x95, 0x88, 0xe5, 0xb7, 0xa5, 0xe5, 0x85, 0xb7, 0xe3, 0x80, 0x82 :: nat]"

subsection \<open>Executing the calls of a turn\<close>

record act_env =
  ae_registry :: tool_registry
  ae_config :: runnable_config
  ae_from_str :: "string \<Rightarrow> string + json"
  ae_json_text :: "json \<Rightarrow> string"
  ae_content_json :: "tool_call_content \<Rightarrow> string"
  ae_persist :: "call_stamp \<Rightarrow> persist_env"
  ae_fresh :: "call_stamp \<Rightarrow> string"
  ae_cancelled :: "nat \<Rightarrow> nat \<Rightarrow> bool"

definition tool_hints :: "act_env \<Rightarrow> string \<Rightarrow> tool_output_hint option" where
  "tool_hints A =
     map_of (rev (List.map_filter (\<lambda>s. map_option (\<lambda>h. (tp_name s, h)) (tp_output_hint s)) (registry_list (ae_registry A))))"

definition act_normalize ::
    "act_env \<Rightarrow> call_stamp \<Rightarrow> tool_call \<Rightarrow> json \<Rightarrow> string \<Rightarrow> bool \<Rightarrow> nat \<Rightarrow> tool_result \<times> nat" where
  "act_normalize A stamp tc args text_out is_error used =
     (let n = normalize_tool_output (ae_persist A stamp) (tc_name tc) args text_out is_error (tool_hints A (tc_name tc))
            (with_used_observation_chars used runtime_default)
      in ((tool_result_of n)\<lparr>tr_call_id := tc_id tc, tr_name := Some (tc_name tc), tr_is_error := is_error\<rparr>,
          used + no_observation_chars n))"

fun extract_raw_text :: "act_env \<Rightarrow> tool_call_content \<Rightarrow> string" where
  "extract_raw_text A (Content_Text t) = t"
| "extract_raw_text A c = ae_content_json A c"

definition build_tool_ctx :: "act_env \<Rightarrow> message list \<Rightarrow> tool_call \<Rightarrow> tool_call_context" where
  "build_tool_ctx A messages tc =
     \<lparr>tx_recent_messages = messages, tx_thread_id = rc_thread_id (ae_config A), tx_user_id = rc_user_id (ae_config A),
      tx_acp_session_id = rc_acp_session_id (ae_config A),
      tx_depth = (case rc_depth (ae_config A) of Some d \<Rightarrow> d | None \<Rightarrow> 0), tx_tool_call_id = tc_id tc\<rparr>"

text \<open>A tool raced against the token, then one more look: the outcome and the number of looks.\<close>

definition run_tool ::
    "act_env \<Rightarrow> call_stamp \<Rightarrow> message list \<Rightarrow> tool_call \<Rightarrow> json \<Rightarrow> nat \<Rightarrow> (graph_error + tool_outcome) \<times> nat" where
  "run_tool A stamp messages tc args p =
     (if ae_cancelled A (fst stamp) p then (Inl Cancelled_Err, p + 1)
      else
        let r = fst (call_tool stamp (tc_name tc) args (Some (build_tool_ctx A messages tc)) (ae_registry A))
        in if ae_cancelled A (fst stamp) (p + 1) then (Inl Cancelled_Err, p + 2) else (Inr r, p + 2))"

definition execute_one ::
    "act_env \<Rightarrow> call_stamp \<Rightarrow> message list \<Rightarrow> tool_call \<Rightarrow> nat \<Rightarrow> nat \<Rightarrow> (graph_error + tool_result \<times> nat) \<times> nat" where
  "execute_one A stamp messages tc used p =
     (case parse_tool_arguments (ae_from_str A) (tc_name tc) (tc_arguments tc) of
        Inl e \<Rightarrow> (Inr (act_normalize A stamp tc (json_object []) (self_correct_hint e) True used), p)
      | Inr args \<Rightarrow>
          if trim (tc_name tc) = [] then (Inr (act_normalize A stamp tc args EMPTY_NAME_HINT False used), p)
          else case run_tool A stamp messages tc args p of
            (Inl e, p') \<Rightarrow> (Inl e, p')
          | (Inr (Inr content), p') \<Rightarrow> (Inr (act_normalize A stamp tc args (extract_raw_text A content) False used), p')
          | (Inr (Inl e), p') \<Rightarrow>
              (Inr (act_normalize A stamp tc args
                 (execution_error_text (tc_name tc) (ae_json_text A args) (show_tool_source_error e)) True used), p'))"

fun execute_calls ::
    "act_env \<Rightarrow> nat \<Rightarrow> nat \<Rightarrow> message list \<Rightarrow> tool_call list \<Rightarrow> nat \<Rightarrow> nat \<Rightarrow> graph_error + tool_result list" where
  "execute_calls A n k messages [] used p = Inr []"
| "execute_calls A n k messages (tc # tcs) used p =
     (if ae_cancelled A n p then Inl Cancelled_Err
      else case execute_one A (n, k) messages tc used (p + 1) of
        (Inl e, p') \<Rightarrow> Inl e
      | (Inr (r, used'), p') \<Rightarrow>
          (case execute_calls A n (k + 1) messages tcs used' p' of
             Inl e \<Rightarrow> Inl e
           | Inr rs \<Rightarrow> Inr (r # rs)))"

fun backfill_call_ids ::
    "(nat \<Rightarrow> string) \<Rightarrow> nat \<Rightarrow> tool_call list \<Rightarrow> tool_result list \<Rightarrow> tool_call list \<times> tool_result list" where
  "backfill_call_ids fresh k (tc # tcs) (tr # trs) =
     (let needs_tr = lacks_id (tr_call_id tr);
          needs_tc = lacks_id (tc_id tc);
          canonical = (if \<not> needs_tc then the (tc_id tc) else if \<not> needs_tr then the (tr_call_id tr) else ''call_'' @ fresh k)
      in case backfill_call_ids fresh (k + 1) tcs trs of
           (tcs', trs') \<Rightarrow> ((if needs_tc then tc\<lparr>tc_id := Some canonical\<rparr> else tc) # tcs',
             (if needs_tr then tr\<lparr>tr_call_id := Some canonical\<rparr> else tr) # trs'))"
| "backfill_call_ids fresh k tcs [] = (tcs, [])"
| "backfill_call_ids fresh k [] (tr # trs) =
     (case backfill_call_ids fresh (k + 1) [] trs of
        (tcs', trs') \<Rightarrow> (tcs', (if lacks_id (tr_call_id tr) then tr\<lparr>tr_call_id := Some (''call_'' @ fresh k)\<rparr> else tr) # trs'))"

definition execute_turn ::
    "act_env \<Rightarrow> nat \<Rightarrow> message list \<Rightarrow> tool_call list \<Rightarrow> graph_error + tool_call list \<times> tool_result list" where
  "execute_turn A n messages tool_calls =
     (if ae_cancelled A n 0 then Inl Cancelled_Err
      else case execute_calls A n 0 messages tool_calls 0 1 of
        Inl e \<Rightarrow> Inl e
      | Inr results \<Rightarrow> Inr (backfill_call_ids (\<lambda>k. ae_fresh A (n, k)) 0 tool_calls results))"

definition act_node :: "act_env \<Rightarrow> 'm react_state node_fun" where
  "act_node A n s =
     (case execute_turn A n (rs_messages s) (rs_tool_calls s) of
        Inl e \<Rightarrow> Inl e
      | Inr (calls, results) \<Rightarrow> Inr (s\<lparr>rs_tool_calls := calls, rs_tool_results := results\<rparr>, Continue))"

end
