(* ===== verification/React_Act_Facts.thy ===== *)
theory React_Act_Facts
  imports React_Act
begin

text \<open>
  What executing the calls of a turn gives: one result for every call, in order and under its identifier;
  an error of a tool is a result too; and the tools whose output may be shortened share one budget.
\<close>

subsection \<open>One call\<close>

lemma act_normalize_simps [simp]:
  "tr_call_id (fst (act_normalize A st tc args t err used)) = tc_id tc"
  "tr_name (fst (act_normalize A st tc args t err used)) = Some (tc_name tc)"
  "tr_is_error (fst (act_normalize A st tc args t err used)) = err"
  by (simp_all add: act_normalize_def Let_def)

lemma act_normalize_observation:
  "tr_observation (fst (act_normalize A st tc args t err used)) =
     no_observation_text (normalize_tool_output (ae_persist A st) (tc_name tc) args t err (tool_hints A (tc_name tc))
       (with_used_observation_chars used runtime_default))"
  by (simp add: act_normalize_def tr_observation_def tool_result_of_def non_empty_def Let_def split: option.splits)

lemma act_normalize_used:
  "snd (act_normalize A st tc args t err used) = used + chars_count (tr_observation (fst (act_normalize A st tc args t err used)))"
  unfolding act_normalize_observation by (simp add: act_normalize_def observation_counted Let_def)

lemma run_tool_cases:
  obtains "run_tool A st ms tc args p = (Inl Cancelled_Err, p + 1)" "ae_cancelled A (fst st) p"
  | "run_tool A st ms tc args p = (Inl Cancelled_Err, p + 2)" "ae_cancelled A (fst st) (p + 1)"
  | "run_tool A st ms tc args p =
       (Inr (registry_call (ae_registry A) st (tc_name tc) args (Some (build_tool_ctx A ms tc))), p + 2)"
  by (cases "ae_cancelled A (fst st) p"; cases "ae_cancelled A (fst st) (p + 1)") (simp_all add: run_tool_def)

text \<open>Every outcome that is not a cancellation is a normalized text.\<close>

lemma execute_one_cases:
  obtains p' where "execute_one A st ms tc used p = (Inl Cancelled_Err, p')" "\<exists>q. ae_cancelled A (fst st) q"
  | args t err p' where "execute_one A st ms tc used p = (Inr (act_normalize A st tc args t err used), p')"
proof (cases "parse_tool_arguments (ae_from_str A) (tc_name tc) (tc_arguments tc)")
  case (Inl e)
  then show ?thesis by (intro that(2)) (simp add: execute_one_def)
next
  case (Inr args)
  show ?thesis
  proof (cases "trim (tc_name tc) = []")
    case True
    with Inr show ?thesis by (intro that(2)) (simp add: execute_one_def)
  next
    case False
    note e = execute_one_def Inr False
    show ?thesis
    proof (rule run_tool_cases [where A = A and st = st and ms = ms and tc = tc and args = args and p = p])
      assume "run_tool A st ms tc args p = (Inl Cancelled_Err, p + 1)" "ae_cancelled A (fst st) p"
      then show ?thesis by (intro that(1)) (auto simp: e)
    next
      assume "run_tool A st ms tc args p = (Inl Cancelled_Err, p + 2)" "ae_cancelled A (fst st) (p + 1)"
      then show ?thesis by (intro that(1)) (auto simp: e)
    next
      assume "run_tool A st ms tc args p =
        (Inr (registry_call (ae_registry A) st (tc_name tc) args (Some (build_tool_ctx A ms tc))), p + 2)"
      then show ?thesis
        by (cases "registry_call (ae_registry A) st (tc_name tc) args (Some (build_tool_ctx A ms tc))")
          (auto simp: e intro: that(2))
    qed
  qed
qed

subsection \<open>All calls of a turn\<close>

text \<open>One step of \<open>execute_calls\<close>, as an introduction and an elimination rule.\<close>

lemma execute_calls_ConsE:
  assumes "execute_calls A n k ms (tc # tcs) used p = Inr rs"
  obtains args t err p' rs' where
    "rs = fst (act_normalize A (n, k) tc args t err used) # rs'"
    "execute_calls A n (k + 1) ms tcs (snd (act_normalize A (n, k) tc args t err used)) p' = Inr rs'"
proof (rule execute_one_cases [where A = A and st = "(n, k)" and ms = ms and tc = tc and used = used and p = "p + 1"])
  fix p' assume "execute_one A (n, k) ms tc used (p + 1) = (Inl Cancelled_Err, p')"
  with assms show ?thesis by (simp split: if_splits)
next
  fix args t err p'
  assume "execute_one A (n, k) ms tc used (p + 1) = (Inr (act_normalize A (n, k) tc args t err used), p')"
  with assms obtain rs' where "execute_calls A n (k + 1) ms tcs (snd (act_normalize A (n, k) tc args t err used)) p' = Inr rs'"
    "rs = fst (act_normalize A (n, k) tc args t err used) # rs'"
    by (auto simp: case_prod_unfold split: if_splits sum.splits)
  then show ?thesis by (intro that)
qed

lemma execute_calls_Inl:
  "execute_calls A n k ms tcs used p = Inl e \<Longrightarrow> e = Cancelled_Err \<and> (\<exists>q. ae_cancelled A n q)"
proof (induction tcs arbitrary: k used p)
  case (Cons tc tcs)
  show ?case
  proof (rule execute_one_cases [where A = A and st = "(n, k)" and ms = ms and tc = tc and used = used and p = "p + 1"])
    fix p' assume "execute_one A (n, k) ms tc used (p + 1) = (Inl Cancelled_Err, p')" "\<exists>q. ae_cancelled A (fst (n, k)) q"
    with Cons.prems show ?thesis by (auto split: if_splits)
  next
    fix args t err p'
    assume "execute_one A (n, k) ms tc used (p + 1) = (Inr (act_normalize A (n, k) tc args t err used), p')"
    with Cons show ?thesis by (auto split: if_splits sum.splits prod.splits)
  qed
qed simp

lemma execute_calls_ids:
  "execute_calls A n k ms tcs used p = Inr rs \<Longrightarrow>
     map tr_call_id rs = map tc_id tcs \<and> map tr_name rs = map (Some \<circ> tc_name) tcs"
proof (induction tcs arbitrary: k used p rs)
  case (Cons tc tcs)
  from Cons.prems show ?case
  proof (cases rule: execute_calls_ConsE)
    case (1 args t err p' rs')
    with Cons.IH show ?thesis by auto
  qed
qed simp

text \<open>The output of the tools that may be shortened, of what is left of the budget.\<close>

definition truncatable_chars :: "tool_result list \<Rightarrow> nat" where
  "truncatable_chars rs =
     (\<Sum>r \<leftarrow> filter (\<lambda>r. tr_name r \<in> Some ` set TRUNCATABLE_TOOLS) rs. chars_count (tr_observation r))"

lemma truncatable_chars_simps [simp]:
  "truncatable_chars [] = 0"
  "truncatable_chars (r # rs) =
     (if tr_name r \<in> Some ` set TRUNCATABLE_TOOLS then chars_count (tr_observation r) else 0) + truncatable_chars rs"
  by (simp_all add: truncatable_chars_def)

lemma budget_left: "remaining_observation_budget (with_used_observation_chars used runtime_default) = 8000 - used"
  by (simp add: remaining_observation_budget_def with_used_observation_chars_def runtime_default_def)

lemma observation_fits:
  assumes "tool_name \<in> set TRUNCATABLE_TOOLS"
  shows "chars_count (no_observation_text (normalize_tool_output P tool_name args raw_text is_error hint
    (with_used_observation_chars used runtime_default))) \<le> 8000 - used"
proof -
  have "no_observation_chars (apply_observation_budget r tool_name out) \<le> r" for r out
    using assms chars_count_exact [of "no_observation_text out" r] by (simp add: apply_observation_budget_def Let_def)
  then show ?thesis unfolding observation_counted [symmetric] by (simp add: normalize_tool_output_def budget_left Let_def)
qed

lemma execute_calls_budget:
  "execute_calls A n k ms tcs used p = Inr rs \<Longrightarrow> truncatable_chars rs \<le> 8000 - used"
proof (induction tcs arbitrary: k used p rs)
  case (Cons tc tcs)
  from Cons.prems show ?case
  proof (cases rule: execute_calls_ConsE)
    case (1 args t err p' rs')
    let ?c = "chars_count (tr_observation (fst (act_normalize A (n, k) tc args t err used)))"
    have "truncatable_chars rs' \<le> 8000 - (used + ?c)" using Cons.IH [OF 1(2)] by (simp only: act_normalize_used)
    moreover have "?c \<le> 8000 - used" if "tc_name tc \<in> set TRUNCATABLE_TOOLS"
      using observation_fits [OF that] by (simp only: act_normalize_observation)
    ultimately show ?thesis unfolding 1(1) by auto
  qed
qed simp

subsection \<open>Identifiers\<close>

lemma backfill_obs:
  "map tr_observation (snd (backfill_call_ids fresh k tcs trs)) = map tr_observation trs"
  "map tr_name (snd (backfill_call_ids fresh k tcs trs)) = map tr_name trs"
  by (induction fresh k tcs trs rule: backfill_call_ids.induct)
    (simp_all add: case_prod_unfold Let_def tr_observation_def split: option.split)

lemma lacks_id_Some [simp]: "lacks_id (Some s) \<longleftrightarrow> s = []"
  by (simp add: lacks_id_def)

lemma not_lacks_id: "\<not> lacks_id i \<Longrightarrow> \<exists>s. i = Some s"
  by (cases i) (simp_all add: lacks_id_def)

lemma backfill_same_ids:
  "map tr_call_id trs = map tc_id tcs \<Longrightarrow>
     map tr_call_id (snd (backfill_call_ids fresh k tcs trs)) = map tc_id (fst (backfill_call_ids fresh k tcs trs)) \<and>
     (\<forall>tc \<in> set (fst (backfill_call_ids fresh k tcs trs)). \<not> lacks_id (tc_id tc)) \<and>
     map (\<lambda>tc. (tc_name tc, tc_arguments tc)) (fst (backfill_call_ids fresh k tcs trs)) =
       map (\<lambda>tc. (tc_name tc, tc_arguments tc)) tcs"
proof (induction trs arbitrary: k tcs)
  case (Cons tr trs)
  then obtain tc tcs' where tcs: "tcs = tc # tcs'" "tr_call_id tr = tc_id tc" "map tr_call_id trs = map tc_id tcs'"
    by (cases tcs) auto
  show ?case using Cons.IH [OF tcs(3), of "k + 1"] tcs(2)
    by (cases "lacks_id (tc_id tc)") (simp_all add: tcs(1) case_prod_unfold Let_def)
qed simp

lemma backfill_keeps_ids:
  "map tr_call_id trs = map tc_id tcs \<Longrightarrow>
     list_all2 (\<lambda>tc tc'. lacks_id (tc_id tc) \<or> tc' = tc) tcs (fst (backfill_call_ids fresh k tcs trs))"
proof (induction trs arbitrary: k tcs)
  case (Cons tr trs)
  then obtain tc tcs' where tcs: "tcs = tc # tcs'" "tr_call_id tr = tc_id tc" "map tr_call_id trs = map tc_id tcs'"
    by (cases tcs) auto
  show ?case using Cons.IH [OF tcs(3), of "k + 1"] tcs(2)
    by (cases "lacks_id (tc_id tc)") (simp_all add: tcs(1) case_prod_unfold Let_def)
qed simp

lemma backfill_named:
  "map tr_call_id trs = map tc_id tcs \<Longrightarrow> \<forall>tc \<in> set tcs. \<not> lacks_id (tc_id tc) \<Longrightarrow>
     backfill_call_ids fresh k tcs trs = (tcs, trs)"
proof (induction trs arbitrary: k tcs)
  case (Cons tr trs)
  then obtain tc tcs' where tcs: "tcs = tc # tcs'" "tr_call_id tr = tc_id tc" "map tr_call_id trs = map tc_id tcs'"
    by (cases tcs) auto
  show ?case using Cons.IH [OF tcs(3), of "k + 1"] Cons.prems(2) tcs(2) by (simp add: tcs(1) Let_def)
qed simp

lemma truncatable_chars_cong:
  "map tr_name rs = map tr_name rs' \<Longrightarrow> map tr_observation rs = map tr_observation rs' \<Longrightarrow>
     truncatable_chars rs = truncatable_chars rs'"
proof (induction rs arbitrary: rs')
  case (Cons r rs)
  then obtain r' rs2 where "rs' = r' # rs2" by (cases rs') auto
  with Cons show ?case by simp
qed simp

lemma act_node_Inr:
  assumes "act_node A n s = Inr (s', nxt)"
  obtains rs where "execute_calls A n 0 (rs_messages s) (rs_tool_calls s) 0 1 = Inr rs" "nxt = Continue"
    "s' = s\<lparr>rs_tool_calls := fst (backfill_call_ids (\<lambda>k. ae_fresh A (n, k)) 0 (rs_tool_calls s) rs),
       rs_tool_results := snd (backfill_call_ids (\<lambda>k. ae_fresh A (n, k)) 0 (rs_tool_calls s) rs)\<rparr>"
proof (cases "ae_cancelled A n 0 \<or> (\<exists>e. execute_calls A n 0 (rs_messages s) (rs_tool_calls s) 0 1 = Inl e)")
  case True
  with assms show ?thesis by (auto simp: act_node_def execute_turn_def simp del: One_nat_def split: if_splits)
next
  case False
  then obtain rs where rs: "execute_calls A n 0 (rs_messages s) (rs_tool_calls s) 0 1 = Inr rs"
    by (cases "execute_calls A n 0 (rs_messages s) (rs_tool_calls s) 0 1") auto
  show ?thesis using assms False by (intro that [OF rs]) (simp_all add: act_node_def execute_turn_def rs case_prod_unfold del: One_nat_def)
qed

text \<open>C6: the act node answers every call exactly once and in order: the results carry the identifiers and
  names of the calls, no identifier is missing, and nothing of a call but a missing identifier changes: a
  call that has an identifier is the same call afterwards, and one that has none keeps its name and arguments.\<close>

theorem act_answers_every_call:
  assumes "act_node A n s = Inr (s', nxt)"
  shows "map tr_call_id (rs_tool_results s') = map tc_id (rs_tool_calls s') \<and>
    map tr_name (rs_tool_results s') = map (Some \<circ> tc_name) (rs_tool_calls s') \<and>
    list_all (\<lambda>tc. \<not> lacks_id (tc_id tc)) (rs_tool_calls s') \<and>
    map (\<lambda>tc. (tc_name tc, tc_arguments tc)) (rs_tool_calls s') = map (\<lambda>tc. (tc_name tc, tc_arguments tc)) (rs_tool_calls s) \<and>
    rs_messages s' = rs_messages s \<and>
    list_all2 (\<lambda>tc tc'. lacks_id (tc_id tc) \<or> tc' = tc) (rs_tool_calls s) (rs_tool_calls s')"
  using assms
proof (cases rule: act_node_Inr)
  case (1 rs)
  let ?b = "backfill_call_ids (\<lambda>k. ae_fresh A (n, k)) 0 (rs_tool_calls s) rs"
  note ids = execute_calls_ids [OF 1(1)]
  note b = backfill_same_ids [OF conjunct1 [OF ids], of "\<lambda>k. ae_fresh A (n, k)" 0]
  have "map tc_name (fst ?b) = map fst (map (\<lambda>tc. (tc_name tc, tc_arguments tc)) (fst ?b))" by simp
  also have "\<dots> = map tc_name (rs_tool_calls s)" unfolding conjunct2 [OF conjunct2 [OF b]] by simp
  finally have "map (Some \<circ> tc_name) (fst ?b) = map (Some \<circ> tc_name) (rs_tool_calls s)" by (simp flip: map_map)
  with ids b backfill_keeps_ids [OF conjunct1 [OF ids], of "\<lambda>k. ae_fresh A (n, k)" 0]
  show ?thesis by (simp add: 1(3) list_all_iff backfill_obs(2))
qed

text \<open>nothing a tool, its arguments or its name can do makes the act node fail: only a cancellation
  does. Everything else is a result the model gets to see.\<close>

theorem act_fails_only_when_cancelled:
  assumes "act_node A n s = Inl e"
  shows "e = Cancelled_Err \<and> (\<exists>q. ae_cancelled A n q)"
  using assms execute_calls_Inl [of A n 0 "rs_messages s" "rs_tool_calls s" 0 1 e]
  by (auto simp: act_node_def execute_turn_def split: if_splits sum.splits)

text \<open>however many web searches and fetches the model asks for in one turn, their results together take
  at most eight thousand characters of the conversation.\<close>

theorem turn_stays_in_budget:
  assumes "act_node A n s = Inr (s', nxt)"
  shows "truncatable_chars (rs_tool_results s') \<le> 8000"
  using assms
proof (cases rule: act_node_Inr)
  case (1 rs)
  have "truncatable_chars (rs_tool_results s') = truncatable_chars rs"
    by (rule truncatable_chars_cong) (simp_all add: 1(3) backfill_obs)
  then show ?thesis using execute_calls_budget [OF 1(1)] by simp
qed

subsection \<open>Examples\<close>

definition ex_act_env :: "(nat \<Rightarrow> bool) \<Rightarrow> act_env" where
  "ex_act_env cancelled =
     \<lparr>ae_registry = ex_registry, ae_config = default_config, ae_from_str = (\<lambda>s. if s = ''{}'' then Inr (JObj []) else Inl ''bad''),
      ae_json_text = (\<lambda>v. ''{}''), ae_content_json = (\<lambda>c. ''{}''), ae_persist = (\<lambda>st. ex_persist),
      ae_fresh = (\<lambda>st. ''x''), ae_cancelled = (\<lambda>n. cancelled)\<rparr>"

definition ex_react_state :: "tool_call list \<Rightarrow> unit react_state" where
  "ex_react_state tcs = (react_state_new () [])\<lparr>rs_tool_calls := tcs\<rparr>"

definition ex_tc :: tool_call where
  "ex_tc = \<lparr>tc_id = None, tc_name = ''grep'', tc_arguments = ''oops''\<rparr>"

lemma trim_oops [simp]: "trim ''oops'' = ''oops''" "trim ''grep'' = ''grep''"
  by code_simp+

lemma ex_act_runs: "\<exists>s'. act_node (ex_act_env (\<lambda>_. False)) 0 (ex_react_state [ex_tc]) = Inr (s', Continue)"
  by (simp add: act_node_def execute_turn_def execute_one_def parse_tool_arguments_def ex_act_env_def ex_react_state_def
      ex_tc_def case_prod_unfold)

lemma act_answers_every_call_witness:
  "\<exists>s' :: unit react_state. act_node (ex_act_env (\<lambda>_. False)) 0 (ex_react_state [ex_tc]) = Inr (s', Continue) \<and>
     map tr_name (rs_tool_results s') = [Some ''grep''] \<and> length (rs_tool_calls s') = 1"
proof -
  from ex_act_runs obtain s' where s': "act_node (ex_act_env (\<lambda>_. False)) 0 (ex_react_state [ex_tc]) = Inr (s', Continue)" ..
  note a = act_answers_every_call [OF s']
  have "map (\<lambda>tc. (tc_name tc, tc_arguments tc)) (rs_tool_calls s') = [(''grep'', ''oops'')]"
    using conjunct1 [OF conjunct2 [OF conjunct2 [OF conjunct2 [OF a]]]] by (simp add: ex_react_state_def ex_tc_def)
  then obtain tc where "rs_tool_calls s' = [tc]" "tc_name tc = ''grep''" by auto
  with s' a show ?thesis by simp
qed

lemma act_fails_only_when_cancelled_witness:
  "\<exists>e. act_node (ex_act_env (\<lambda>p. p = 0)) 0 (ex_react_state [ex_tc]) = Inl e \<and> e = Cancelled_Err"
proof -
  have "act_node (ex_act_env (\<lambda>p. p = 0)) 0 (ex_react_state [ex_tc]) = Inl Cancelled_Err"
    by (simp add: act_node_def execute_turn_def ex_act_env_def)
  from this act_fails_only_when_cancelled [OF this] show ?thesis by simp
qed

lemma turn_stays_in_budget_witness:
  "\<exists>s' :: unit react_state. act_node (ex_act_env (\<lambda>_. False)) 0 (ex_react_state [ex_tc]) = Inr (s', Continue) \<and>
     truncatable_chars (rs_tool_results s') \<le> 8000"
  using ex_act_runs turn_stays_in_budget by blast

text \<open>Placeholders are filled in one after the other, so an argument that reads like a placeholder is filled in too.\<close>

lemma placeholder_in_arguments:
  "execution_error_text ''t'' ''{error}'' ''boom'' =
     ''Error executing tool '' @ in_quotes ''t'' @ '' with kwargs boom with error:'' @ [nl] @ '' boom'' @ [nl] @
     '' Please fix the error and try again.''"
  by code_simp

text \<open>Arguments that are JSON but no object go to the tool as they are.\<close>

lemma non_object_arguments_accepted:
  assumes "from_str ''7'' = Inr (JNum (JInt 7))"
  shows "parse_tool_arguments from_str ''grep'' ''7'' = Inr (JNum (JInt 7))"
proof -
  have "trim ''7'' = ''7''" by code_simp
  then show ?thesis using assms by (simp add: parse_tool_arguments_def)
qed

end
