(* ===== verification/React_Compress_Facts.thy ===== *)
theory React_Compress_Facts
  imports React_Compress
begin

text \<open>
  What compression does to a conversation: clearing touches old tool results only and never their
  identifiers; summing up keeps the newest messages and cannot tear a call from its result; the graph of
  the two nodes is one function.
\<close>

subsection \<open>Clearing\<close>

definition clear_set :: "nat set \<Rightarrow> message list \<Rightarrow> message list" where
  "clear_set I ms = map (\<lambda>(i, m). if i \<in> I then clear_result m else m) (enumerate 0 ms)"

lemma length_clear_set [simp]: "length (clear_set I ms) = length ms"
  by (simp add: clear_set_def)

lemma nth_clear_set: "i < length ms \<Longrightarrow> clear_set I ms ! i = (if i \<in> I then clear_result (ms ! i) else ms ! i)"
  by (simp add: clear_set_def nth_enumerate_eq)

lemma clear_result_idem [simp]: "clear_result (clear_result m) = clear_result m"
  by (cases m) simp_all

lemma length_clear_at [simp]: "length (clear_at i ms) = length ms"
  by (simp add: clear_at_def)

lemma nth_clear_at: "j < length ms \<Longrightarrow> clear_at i ms ! j = (if j = i then clear_result (ms ! j) else ms ! j)"
  by (auto simp: clear_at_def)

lemma fold_clear_at: "fold clear_at is ms = clear_set (set is) ms"
proof (induction "is" arbitrary: ms)
  case Nil
  show ?case by (rule nth_equalityI) (simp_all add: nth_clear_set)
next
  case (Cons i "is")
  have "clear_set (set is) (clear_at i ms) = clear_set (set (i # is)) ms"
    by (rule nth_equalityI) (auto simp: nth_clear_at nth_clear_set)
  with Cons show ?case by simp
qed

lemma prune_scan_marks:
  "set (snd (prune_scan keep ims summed pruned marked)) \<subseteq> set marked \<union> {i. \<exists>m. (i, m) \<in> set ims \<and> is_tool_result_message m}"
proof (induction ims arbitrary: summed pruned marked)
  case (Cons im ims)
  obtain i m where im: "im = (i, m)" by force
  show ?case
  proof (cases "is_tool_result_message m")
    case True
    then show ?thesis unfolding im
      using Cons [of "summed + estimate_tokens [m]" "pruned + estimate_tokens [m]" "marked @ [i]"]
        Cons [of "summed + estimate_tokens [m]" pruned marked] by (auto simp: Let_def)
  next
    case False
    then show ?thesis unfolding im using Cons [of summed pruned marked] by auto
  qed
qed simp

text \<open>What \<open>prune\<close> does is to clear a set of tool results, in place.\<close>

lemma prune_clears:
  obtains I where "prune C ms = clear_set I ms" "I \<subseteq> {i. i < length ms \<and> is_tool_result_message (ms ! i)}"
proof (cases "prune C ms = ms")
  case True
  show ?thesis by (rule that [of "{}"]) (auto simp: True clear_set_def intro!: nth_equalityI simp: nth_enumerate_eq)
next
  case False
  let ?r = "prune_scan (cc_prune_keep_tokens C) (rev (enumerate 0 ms)) 0 0 []"
  from False have "prune C ms = fold clear_at (snd ?r) ms"
    by (simp add: prune_def Let_def case_prod_unfold split: if_splits)
  moreover have "set (snd ?r) \<subseteq> {i. i < length ms \<and> is_tool_result_message (ms ! i)}"
    using prune_scan_marks [of "cc_prune_keep_tokens C" "rev (enumerate 0 ms)" 0 0 "[]"]
    by (auto simp: in_set_enumerate_eq)
  ultimately show ?thesis using that by (simp add: fold_clear_at)
qed

lemma clear_result_same_call:
  assumes "is_tool_result_message m"
  shows "step_pending p (clear_result m) = step_pending p m" "calls_of (clear_result m) = calls_of m"
  using assms by (cases m; simp)+

lemma clear_set_Cons:
  "clear_set I (m # ms) = (if 0 \<in> I then clear_result m else m) # clear_set {i. Suc i \<in> I} ms"
  by (rule nth_equalityI) (auto simp: nth_clear_set nth_Cons split: nat.split)

lemma clear_set_pending:
  "\<forall>i \<in> I. i < length ms \<longrightarrow> is_tool_result_message (ms ! i) \<Longrightarrow>
     run_pending p (clear_set I ms) = run_pending p ms \<and> call_ids (clear_set I ms) = call_ids ms"
proof (induction ms arbitrary: I p)
  case Nil
  show ?case by (simp add: clear_set_def)
next
  case (Cons m ms)
  have "\<forall>i \<in> {i. Suc i \<in> I}. i < length ms \<longrightarrow> is_tool_result_message (ms ! i)" using Cons.prems by fastforce
  note IH = Cons.IH [OF this]
  have "0 \<in> I \<Longrightarrow> is_tool_result_message m" using Cons.prems by fastforce
  then have "step_pending p (if 0 \<in> I then clear_result m else m) = step_pending p m"
    "calls_of (if 0 \<in> I then clear_result m else m) = calls_of m"
    by (simp_all add: clear_result_same_call)
  then show ?case unfolding clear_set_Cons using IH by simp
qed

lemma prune_pending: "run_pending p (prune C ms) = run_pending p ms" "call_ids (prune C ms) = call_ids ms"
proof -
  obtain I where "prune C ms = clear_set I ms" "I \<subseteq> {i. i < length ms \<and> is_tool_result_message (ms ! i)}"
    by (rule prune_clears)
  then show "run_pending p (prune C ms) = run_pending p ms" "call_ids (prune C ms) = call_ids ms"
    using clear_set_pending [of I ms p] by auto
qed

subsection \<open>Which results are cleared\<close>

text \<open>The tokens of the tool results from an index on, as numbers.\<close>

definition tool_tokens :: "message list \<Rightarrow> nat" where
  "tool_tokens ms = (\<Sum>m \<leftarrow> filter is_tool_result_message ms. unat (estimate_tokens [m]))"

lemma tool_tokens_simps [simp]:
  "tool_tokens [] = 0"
  "tool_tokens (m # ms) = (if is_tool_result_message m then unat (estimate_tokens [m]) else 0) + tool_tokens ms"
  "tool_tokens (xs @ ys) = tool_tokens xs + tool_tokens ys"
  by (simp_all add: tool_tokens_def)

lemma prune_scan_exact:
  assumes "unat summed = tool_tokens rest" "tool_tokens (ms @ rest) < 2 ^ 32"
  shows "i \<in> set (snd (prune_scan keep (rev (enumerate 0 ms)) summed pruned marked)) \<longleftrightarrow>
    i \<in> set marked \<or> (i < length ms \<and> is_tool_result_message (ms ! i) \<and> unat keep < tool_tokens (drop i (ms @ rest)))"
  using assms
proof (induction ms arbitrary: rest summed pruned marked rule: rev_induct)
  case (snoc m ms)
  have en: "rev (enumerate 0 (ms @ [m])) = (length ms, m) # rev (enumerate 0 ms)" by (simp add: enumerate_append_eq)
  have small: "tool_tokens (ms @ m # rest) < 2 ^ 32" using snoc.prems(2) by simp
  have dr: "drop i ((ms @ [m]) @ rest) = drop i (ms @ m # rest)" for i by simp
  have nth: "(ms @ [m]) ! i = ms ! i" if "i < length ms" for i using that by (simp add: nth_append)
  show ?case
  proof (cases "is_tool_result_message m")
    case True
    have "unat (summed + estimate_tokens [m]) = unat summed + unat (estimate_tokens [m])"
      using small True snoc.prems(1) by (intro unat_add_lem [THEN iffD1]) simp
    then have s: "unat (summed + estimate_tokens [m]) = tool_tokens (m # rest)"
      using True snoc.prems(1) by simp
    note IH = snoc.IH [OF s small]
    have last: "summed + estimate_tokens [m] > keep \<longleftrightarrow> unat keep < tool_tokens (m # rest)"
      by (simp add: word_less_nat_alt s)
    show ?thesis
    proof (cases "summed + estimate_tokens [m] > keep")
      case True
      with \<open>is_tool_result_message m\<close> last show ?thesis unfolding en dr by (auto simp: IH less_Suc_eq nth Let_def)
    next
      case False
      with \<open>is_tool_result_message m\<close> last show ?thesis unfolding en dr by (auto simp: IH less_Suc_eq nth Let_def)
    qed
  next
    case False
    have s: "unat summed = tool_tokens (m # rest)" using snoc.prems(1) False by simp
    from False show ?thesis unfolding en dr by (auto simp: snoc.IH [OF s small] less_Suc_eq nth)
  qed
qed simp

definition old_results :: "nat \<Rightarrow> message list \<Rightarrow> message list \<Rightarrow> nat list" where
  "old_results keep ms rest =
     filter (\<lambda>i. is_tool_result_message (ms ! i) \<and> keep < tool_tokens (drop i (ms @ rest))) [0..<length ms]"

definition tokens_at :: "message list \<Rightarrow> nat list \<Rightarrow> nat" where
  "tokens_at ms is = (\<Sum>i \<leftarrow> is. unat (estimate_tokens [ms ! i]))"

lemma old_results_snoc:
  "old_results keep (ms @ [m]) rest =
     old_results keep ms (m # rest) @ (if is_tool_result_message m \<and> keep < tool_tokens (m # rest) then [length ms] else [])"
proof -
  have "filter (\<lambda>i. is_tool_result_message ((ms @ [m]) ! i) \<and> keep < tool_tokens (drop i ((ms @ [m]) @ rest))) [0..<length ms] =
      old_results keep ms (m # rest)"
    unfolding old_results_def by (rule filter_cong) (auto simp: nth_append)
  then show ?thesis by (simp add: old_results_def)
qed

lemma tokens_at_Nil [simp]: "tokens_at ms [] = 0"
  by (simp add: tokens_at_def)

lemma tokens_at_append [simp]: "tokens_at ms (is @ js) = tokens_at ms is + tokens_at ms js"
  by (simp add: tokens_at_def)

lemma tokens_at_prefix: "\<forall>i \<in> set is. i < length ms \<Longrightarrow> tokens_at (ms @ xs) is = tokens_at ms is"
  unfolding tokens_at_def by (rule arg_cong [where f = sum_list], rule map_cong) (auto simp: nth_append)

lemma prune_scan_sum:
  assumes "unat summed = tool_tokens rest" "tool_tokens (ms @ rest) < 2 ^ 32" "unat pruned + tool_tokens ms < 2 ^ 32"
  shows "unat (fst (prune_scan keep (rev (enumerate 0 ms)) summed pruned marked)) =
    unat pruned + tokens_at ms (old_results (unat keep) ms rest)"
  using assms
proof (induction ms arbitrary: rest summed pruned marked rule: rev_induct)
  case Nil
  show ?case by (simp add: old_results_def tokens_at_def)
next
  case (snoc m ms)
  have en: "rev (enumerate 0 (ms @ [m])) = (length ms, m) # rev (enumerate 0 ms)" by (simp add: enumerate_append_eq)
  have small: "tool_tokens (ms @ m # rest) < 2 ^ 32" using snoc.prems(2) by simp
  have at: "tokens_at (ms @ [m]) (old_results (unat keep) ms (m # rest)) = tokens_at ms (old_results (unat keep) ms (m # rest))"
    by (rule tokens_at_prefix) (simp add: old_results_def)
  have one: "tokens_at (ms @ [m]) [length ms] = unat (estimate_tokens [m])" by (simp add: tokens_at_def)
  show ?case
  proof (cases "is_tool_result_message m")
    case True
    have "unat (summed + estimate_tokens [m]) = unat summed + unat (estimate_tokens [m])"
      using small True snoc.prems(1) by (intro unat_add_lem [THEN iffD1]) simp
    then have s: "unat (summed + estimate_tokens [m]) = tool_tokens (m # rest)"
      using True snoc.prems(1) by simp
    have last: "summed + estimate_tokens [m] > keep \<longleftrightarrow> unat keep < tool_tokens (m # rest)"
      by (simp add: word_less_nat_alt s)
    have p: "unat (pruned + estimate_tokens [m]) = unat pruned + unat (estimate_tokens [m])"
      using snoc.prems(3) True by (intro unat_add_lem [THEN iffD1]) simp
    have p1: "unat (pruned + estimate_tokens [m]) + tool_tokens ms < 2 ^ 32" using snoc.prems(3) True by (simp add: p)
    have p2: "unat pruned + tool_tokens ms < 2 ^ 32" using snoc.prems(3) by simp
    show ?thesis unfolding en old_results_snoc using True last
      by (simp add: snoc.IH [OF s small p1] snoc.IH [OF s small p2] at one p Let_def)
  next
    case False
    have s: "unat summed = tool_tokens (m # rest)" using snoc.prems(1) False by simp
    have p2: "unat pruned + tool_tokens ms < 2 ^ 32" using snoc.prems(3) by simp
    show ?thesis unfolding en old_results_snoc using False by (simp add: snoc.IH [OF s small p2] at)
  qed
qed

text \<open>\<open>prune\<close> does what its description says. Counting from the newest message, the tool results beyond the
  limit are the old ones; if they make up at least the minimum they are cleared, all of them and nothing
  else, and otherwise nothing changes.\<close>

theorem prune_clears_old_results:
  assumes "tool_tokens ms < 2 ^ 32"
  shows "prune C ms =
    (let old = old_results (unat (cc_prune_keep_tokens C)) ms []
     in if cc_prune C \<and> cc_prune_keep_tokens C \<noteq> 0 \<and>
           unat (case cc_prune_minimum C of Some k \<Rightarrow> k | None \<Rightarrow> 20000) \<le> tokens_at ms old
        then clear_set (set old) ms else ms)"
proof -
  let ?r = "prune_scan (cc_prune_keep_tokens C) (rev (enumerate 0 ms)) 0 0 []"
  have f: "unat (fst ?r) = tokens_at ms (old_results (unat (cc_prune_keep_tokens C)) ms [])"
    using prune_scan_sum [of 0 "[]" ms 0 "cc_prune_keep_tokens C" "[]"] assms by simp
  have m: "set (snd ?r) = set (old_results (unat (cc_prune_keep_tokens C)) ms [])"
    using prune_scan_exact [of 0 "[]" ms _ "cc_prune_keep_tokens C" 0 "[]"] assms by (auto simp: old_results_def)
  show ?thesis
    by (simp add: prune_def Let_def case_prod_unfold fold_clear_at m word_less_nat_alt f not_less [symmetric])
qed

subsection \<open>Summing up\<close>

lemma keeps_recent_calls: "filter (keeps_recent ids) (map (\<lambda>(i, c). Tool i c) rs) = map (\<lambda>(i, c). Tool i c) (filter (\<lambda>r. fst r \<in> set ids) rs)"
  by (induction rs) auto

lemma call_ids_keeps_recent: "call_ids (filter (keeps_recent ids) ms) = call_ids ms"
proof (induction ms)
  case (Cons m ms)
  then show ?case by (cases m) simp_all
qed simp

lemma compact_recent:
  assumes "paired (xs @ ys)" "distinct (call_ids (xs @ ys))"
  shows "paired (filter (keeps_recent (call_ids ys)) ys)" "set (call_ids (filter (keeps_recent (call_ids ys)) ys)) \<subseteq> set (call_ids ys)"
proof -
  obtain rs rest where ys: "ys = map (\<lambda>(i, c). Tool i c) rs @ rest" "paired rest" "set (map fst rs) \<subseteq> set (call_ids xs)"
    using paired_suffix [OF assms(1)] .
  have "call_ids (map (\<lambda>(i, c). Tool i c) rs) = []" by (induction rs) auto
  then have ids: "call_ids ys = call_ids rest" by (simp add: ys(1))
  have "set (map fst rs) \<inter> set (call_ids rest) = {}" using assms(2) ys(3) ids by auto
  then have "filter (\<lambda>r. fst r \<in> set (call_ids rest)) rs = []" by (auto simp: filter_empty_conv)
  moreover have "filter (keeps_recent (call_ids rest)) rest = rest"
  proof (intro filter_True ballI)
    fix m assume "m \<in> set rest"
    with paired_result_ids [OF ys(2)] show "keeps_recent (call_ids rest) m" by (cases m) auto
  qed
  ultimately have "filter (keeps_recent (call_ids ys)) ys = rest" by (simp add: ids, simp add: ys(1) keeps_recent_calls)
  then show "paired (filter (keeps_recent (call_ids ys)) ys)" "set (call_ids (filter (keeps_recent (call_ids ys)) ys)) \<subseteq> set (call_ids ys)"
    using ys(2) ids by simp_all
qed

lemma compact_cases:
  assumes "compact llm C ms = Inr out"
  obtains "out = ms" "length ms \<le> cc_compact_keep_recent C"
  | xs ys t where "ms = xs @ ys" "length ys = cc_compact_keep_recent C" "cc_compact_keep_recent C < length ms"
      "out = summary_message t # filter (keeps_recent (call_ids ys)) ys"
proof (cases "length ms \<le> cc_compact_keep_recent C")
  case True
  with assms show ?thesis by (intro that(1)) (simp_all add: compact_def)
next
  case False
  let ?k = "length ms - cc_compact_keep_recent C"
  obtain r :: llm_response where "out = summary_message (lr_content r) # filter (keeps_recent (call_ids (drop ?k ms))) (drop ?k ms)"
  proof (cases "llm [User (User_Text (build_summary_prompt (take ?k ms)))]")
    case (Inl e)
    with assms False show ?thesis by (simp add: compact_def Let_def)
  next
    case (Inr r)
    with assms False show ?thesis by (intro that [of r]) (simp add: compact_def Let_def call_ids_def)
  qed
  with False show ?thesis by (intro that(2) [of "take ?k ms" "drop ?k ms"]) auto
qed

text \<open>C7: summing up never tears a call from its results. From a conversation in which every call is answered
  and no identifier is used twice comes one in which every call is answered and no identifier is used twice,
  and its length is at most one more than the number of messages to be kept.\<close>

theorem compact_keeps_pairing:
  assumes "compact llm C ms = Inr out" "paired ms" "distinct (call_ids ms)"
  shows "paired out \<and> distinct (call_ids out) \<and> length out \<le> cc_compact_keep_recent C + 1"
  using assms(1)
proof (cases rule: compact_cases)
  case 1
  with assms(2,3) show ?thesis by simp
next
  case (2 xs ys t)
  have "paired (filter (keeps_recent (call_ids ys)) ys)" using compact_recent(1) assms(2,3) 2(1) by blast
  moreover have "length (filter (keeps_recent (call_ids ys)) ys) \<le> cc_compact_keep_recent C" using 2(2) by (metis length_filter_le)
  moreover have "distinct (call_ids ys)" using assms(3) by (simp add: 2(1))
  ultimately show ?thesis unfolding 2(4) by (simp add: paired_def summary_message_def call_ids_keeps_recent)
qed

subsection \<open>The graph as a function\<close>

definition pruned_state :: "compaction_config \<Rightarrow> 'm react_state \<Rightarrow> 'm react_state" where
  "pruned_state C s = s\<lparr>rs_messages := prune C (rs_messages s)\<rparr>"

lemma prune_node_eq: "prune_node C n s = Inr (pruned_state C s, Continue)"
  by (simp add: prune_node_def pruned_state_def prune_def)

lemma retry_once:
  "execute_node_with_retry plain_run_env i node s n 0 =
     (case node n s of Inr out \<Rightarrow> (Inr out, n + 1) | Inl e \<Rightarrow> (node (n + 1) s, n + 2))"
  for node :: "'s node_fun"
proof -
  let ?E = "plain_run_env :: ('s, unit) run_env"
  have c: "call_node ?E i node k t = node k t" for k t by (simp add: call_node_def plain_run_env_def)
  have "should_retry (re_policy ?E) 0" "\<not> should_retry (re_policy ?E) 1"
    by (simp_all add: plain_run_env_def should_retry_def)
  then show ?thesis
    by (simp add: execute_node_with_retry.simps [of plain_run_env i node s n 0]
        execute_node_with_retry.simps [of plain_run_env i node s "Suc n" "Suc 0"] c split: sum.splits)
qed

lemma save_nothing: "gw_saver w = None \<Longrightarrow> save_state E config s w = w"
  by (simp add: save_state_def)

lemma compact_node_continues: "compact_node C llm n s = Inr (s', nxt) \<Longrightarrow> nxt = Continue"
  by (auto simp: compact_node_def split: sum.splits)

lemma compression_turns:
  assumes "gw_saver w = None"
  shows "graph_turn plain_run_env (compression_compiled C llm) (\<lambda>_. False) config p n ''prune'' s w =
      GoOn ''compact'' (pruned_state C s) (n + 1)"
    "graph_turn plain_run_env (compression_compiled C llm) (\<lambda>_. False) config p n ''compact'' s w =
      (case compact_node C llm n s of
         Inr (s', nxt) \<Rightarrow> Stop Finished s' w
       | Inl e \<Rightarrow> (case compact_node C llm (n + 1) s of
           Inr (s', nxt) \<Rightarrow> Stop Finished s' w
         | Inl e \<Rightarrow> Stop (Failed_With e) s w))"
proof -
  have u: "re_updater plain_run_env s s' = s'" for s s' :: "'a react_state" by (simp add: plain_run_env_def)
  show "graph_turn plain_run_env (compression_compiled C llm) (\<lambda>_. False) config p n ''prune'' s w =
      GoOn ''compact'' (pruned_state C s) (n + 1)"
    by (simp add: graph_turn_def compression_compiled_def retry_once prune_node_eq next_node_def END_def u)
  show "graph_turn plain_run_env (compression_compiled C llm) (\<lambda>_. False) config p n ''compact'' s w =
      (case compact_node C llm n s of
         Inr (s', nxt) \<Rightarrow> Stop Finished s' w
       | Inl e \<Rightarrow> (case compact_node C llm (n + 1) s of
           Inr (s', nxt) \<Rightarrow> Stop Finished s' w
         | Inl e \<Rightarrow> Stop (Failed_With e) s w))"
    using compact_node_continues [of C llm n s] compact_node_continues [of C llm "n + 1" s]
    by (auto simp: graph_turn_def compression_compiled_def retry_once next_node_def END_def u save_nothing [OF assms]
        split: sum.splits graph_error.splits prod.splits)
qed

text \<open>The rest of the graph from its second node on: one call, and one more when it fails.\<close>

definition compact_twice ::
    "compaction_config \<Rightarrow> (nat \<Rightarrow> message list \<Rightarrow> graph_error + llm_response) \<Rightarrow> nat \<Rightarrow> 'm react_state \<Rightarrow> 'm react_state node_result" where
  "compact_twice C llm n s = (case compact_node C llm n s of Inr out \<Rightarrow> Inr out | Inl e \<Rightarrow> compact_node C llm (n + 1) s)"

lemma compact_loop:
  "run_loop_inner plain_run_env (compression_compiled C llm) (\<lambda>_. False) config p n ''compact'' s \<lparr>gw_saver = None, gw_drawn = 0\<rparr> =
     (case compact_twice C llm n s of
        Inr (s', nxt) \<Rightarrow> Some (Finished, s', \<lparr>gw_saver = None, gw_drawn = 0\<rparr>)
      | Inl e \<Rightarrow> Some (Failed_With e, s, \<lparr>gw_saver = None, gw_drawn = 0\<rparr>))"
  by (subst run_loop_inner.simps) (simp add: compression_turns compact_twice_def split: sum.split prod.split)

lemma compact_twice_result:
  "(case (case compact_twice C llm n s of Inr (s', nxt) \<Rightarrow> Some (Finished, s', w) | Inl e \<Rightarrow> Some (Failed_With e, s, w)) of
      Some (Finished, s', w) \<Rightarrow> Inr (s', Continue) | Some (Failed_With e, s', w) \<Rightarrow> Inl e
    | _ \<Rightarrow> Inl (ExecutionFailed ''panicked'')) = compact_twice C llm n s"
  using compact_node_continues [of C llm n s] compact_node_continues [of C llm "n + 1" s]
  by (auto simp: compact_twice_def split: sum.splits)

lemma compress_node_eq:
  fixes s :: "'a react_state"
  shows "compress_node C llm config n s =
    (if rc_resume_from_node_id config = Some ''compact'' then compact_twice C (llm n) 0 s
     else compact_twice C (llm n) 1 (pruned_state C s))"
proof -
  let ?w = "\<lparr>gw_saver = None, gw_drawn = 0\<rparr> :: 'a react_state graph_world"
  let ?G = "compression_compiled C (llm n) :: 'a react_state cgraph"
  have "cg_nodes ?G \<noteq> []" "cg_first ?G \<in> set (keys (cg_nodes ?G))" by (simp_all add: compression_compiled_def)
  then have inv: "graph_invoke plain_run_env ?G s (Some config) ?w =
      run_loop_inner plain_run_env ?G (\<lambda>_. False) (Some config) 0 0 (start_node ?G config) s ?w"
    by (simp add: graph_invoke_def)
  show ?thesis
  proof (cases "rc_resume_from_node_id config = Some ''compact''")
    case True
    then have "start_node ?G config = ''compact''" by (simp add: start_node_def compression_compiled_def)
    with True show ?thesis unfolding compress_node_def inv by (simp only: compact_loop compact_twice_result simp_thms if_True)
  next
    case False
    then have "start_node ?G config = ''prune''"
      by (auto simp: start_node_def compression_compiled_def split: option.split)
    then have "graph_invoke plain_run_env ?G s (Some config) ?w =
        run_loop_inner plain_run_env ?G (\<lambda>_. False) (Some config) 2 1 ''compact'' (pruned_state C s) ?w"
      unfolding inv by (subst run_loop_inner.simps) (simp add: compression_turns numeral_2_eq_2)
    with False show ?thesis unfolding compress_node_def by (simp only: compact_loop compact_twice_result simp_thms if_False)
  qed
qed


lemma compress_node_from:
  assumes "compress_node C llm config n s = r"
  obtains k t where "t = s \<or> t = pruned_state C s" "compact_node C (llm n) k t = r"
proof -
  obtain k t where t: "t = s \<or> t = pruned_state C s" "compact_twice C (llm n) k t = r"
    using assms by (auto simp: compress_node_eq split: if_splits)
  then show ?thesis
    by (cases "compact_node C (llm n) k t") (auto simp: compact_twice_def intro: that)
qed

subsection \<open>Examples\<close>

definition ex_compaction :: "u32 \<Rightarrow> nat \<Rightarrow> compaction_config" where
  "ex_compaction keep recent =
     \<lparr>cc_auto = True, cc_prune = True, cc_max_context_tokens = 100, cc_reserve_tokens = 10, cc_prune_keep_tokens = keep,
      cc_prune_minimum = Some 1, cc_compact_keep_recent = recent\<rparr>"

definition ex_result :: "string \<Rightarrow> message" where
  "ex_result i = Tool i (Content_Text ''a long result'')"

definition ex_talk :: "message list" where
  "ex_talk = [System ''be brief'', ex_asks [''c1''], ex_result ''c1'', ex_asks [''c2''], ex_result ''c2'']"

definition ex_llm :: "message list \<Rightarrow> graph_error + llm_response" where
  "ex_llm ms = Inr \<lparr>lr_content = ''s'', lr_reasoning = None, lr_tool_calls = [], lr_usage = None, lr_finish_reason = None\<rparr>"

lemmas ex_talk_defs = ex_talk_def ex_result_def ex_messages

lemma ex_talk_tokens: "tool_tokens ex_talk = 6"
  by (simp add: ex_talk_defs estimate_tokens_def CHARS_PER_TOKEN_def)

lemma prune_clears_old_results_witness:
  "prune (ex_compaction 3 2) ex_talk =
     [System ''be brief'', ex_asks [''c1''], Tool ''c1'' (Content_Text PRUNE_PLACEHOLDER), ex_asks [''c2''], ex_result ''c2'']"
proof -
  have o: "old_results 3 ex_talk [] = [2]"
    by (simp add: old_results_def ex_talk_defs estimate_tokens_def CHARS_PER_TOKEN_def upt_conv_Cons)
  have t: "tokens_at ex_talk [2] = 3" by (simp add: tokens_at_def ex_talk_defs estimate_tokens_def CHARS_PER_TOKEN_def)
  have "prune (ex_compaction 3 2) ex_talk = clear_set {2} ex_talk"
    using prune_clears_old_results [of ex_talk "ex_compaction 3 2"] o t
    by (simp add: ex_talk_tokens ex_compaction_def Let_def)
  then show ?thesis by (simp add: clear_set_def ex_talk_defs)
qed

lemma compact_keeps_pairing_witness:
  "\<exists>out. compact ex_llm (ex_compaction 3 1) ex_talk = Inr out \<and> paired out \<and> length out \<le> 2"
proof -
  have p: "paired ex_talk" "distinct (call_ids ex_talk)" by (simp_all add: paired_def ex_talk_defs)
  obtain out where out: "compact ex_llm (ex_compaction 3 1) ex_talk = Inr out"
    by (simp add: compact_def ex_llm_def Let_def ex_talk_defs ex_compaction_def)
  have "cc_compact_keep_recent (ex_compaction 3 1) = 1" "length ex_talk = 5"
    by (simp_all add: ex_compaction_def ex_talk_def)
  then show ?thesis using compact_keeps_pairing [OF out p] out by simp
qed


text \<open>The first message is summed up like any other: the system prompt is gone, only its summary is left.\<close>

lemma system_prompt_is_summarized:
  "compact ex_llm (ex_compaction 3 2) [System ''be brief'', User (User_Text ''a''), User (User_Text ''b'')] =
     Inr [summary_message ''s'', User (User_Text ''a''), User (User_Text ''b'')]"
  by (simp add: compact_def ex_llm_def Let_def ex_compaction_def)

text \<open>An identifier that is used again protects a result whose call has been summed up.\<close>

lemma reused_id_keeps_orphan:
  "compact ex_llm (ex_compaction 3 3) [ex_asks [''c1''], ex_answer ''c1'', ex_asks [''c1''], ex_answer ''c1''] =
     Inr [summary_message ''s'', ex_answer ''c1'', ex_asks [''c1''], ex_answer ''c1'']"
  "paired [ex_asks [''c1''], ex_answer ''c1'', ex_asks [''c1''], ex_answer ''c1'']"
  "\<not> paired [summary_message ''s'', ex_answer ''c1'', ex_asks [''c1''], ex_answer ''c1'']"
  by (simp_all add: compact_def ex_llm_def Let_def ex_compaction_def ex_messages paired_def summary_message_def)

text \<open>What is cleared does not count: as long as the model reports its usage, the messages before its last
  reply enter the estimate as they were when it was made, so clearing them never avoids a summary.\<close>

lemma pruning_before_think_is_ignored:
  assumes "rs_usage s = Some u" "rs_count_after_think s = Some k" "k \<le> length (rs_messages s)"
    and "length ms = length (rs_messages s)" "drop k ms = drop k (rs_messages s)"
  shows "current_tokens (window_of C (s\<lparr>rs_messages := ms\<rparr>)) = current_tokens (window_of C s)"
  using assms by (simp add: current_tokens_def window_of_def)

text \<open>The sum of the estimate and the reserve wraps: the largest counts are no overflow.\<close>

lemma overflow_check_wraps:
  "\<not> is_overflow \<lparr>cw_messages = [], cw_usage = Some (4294967295, 0), cw_count_after_think = Some 0,
     cw_max_context_tokens = 128000, cw_reserve_tokens = 4096\<rparr>"
  by (simp add: is_overflow_def current_tokens_def estimate_tokens_def CHARS_PER_TOKEN_def)

end
