(* ===== verification/React_Run.thy ===== *)
theory React_Run
  imports React_Act_Facts React_Compress_Facts
begin

text \<open>
  The agent loop: \<open>agent/react/think_node.rs\<close>, \<open>observe_node.rs\<close>, \<open>runner/runner.rs\<close>, \<open>runner/initial_state.rs\<close>
  and the loading of a checkpoint in \<open>runner_common.rs\<close>. The four nodes are put together with the builder of
  \<open>graph-core\<close>, compiled, and run by its model. The language model may answer every call differently; a client
  is the function from the name of a model and the messages to the reply. Looks at the cancellation token are
  numbered within a node call. Streaming of events is left out.
\<close>

subsection \<open>Thinking\<close>

datatype model_tier = Tier_None | Light | Standard | Strong

record model_config =
  mc_model_id :: string
  mc_tier :: model_tier

type_synonym agent_state = "model_config react_state"

definition model_config_default :: model_config where
  "model_config_default = \<lparr>mc_model_id = [], mc_tier = Tier_None\<rparr>"

fun tier_debug :: "model_tier \<Rightarrow> string" where
  "tier_debug Tier_None = ''None''"
| "tier_debug Light = ''Light''"
| "tier_debug Standard = ''Standard''"
| "tier_debug Strong = ''Strong''"

record react_env =
  rn_provider_name :: string
  rn_default_model :: string
  rn_providers_known :: "nat \<Rightarrow> bool"
  rn_resolve_tier :: "nat \<Rightarrow> model_tier \<Rightarrow> string option"
  rn_llm :: "nat \<Rightarrow> string \<Rightarrow> message list \<Rightarrow> graph_error + llm_response"
  rn_fresh :: "nat \<Rightarrow> nat \<Rightarrow> string"
  rn_cancelled :: "nat \<Rightarrow> nat \<Rightarrow> bool"
  rn_stream_tools :: bool
  rn_act :: act_env
  rn_compaction :: compaction_config
  rn_summarize :: "nat \<Rightarrow> nat \<Rightarrow> message list \<Rightarrow> graph_error + llm_response"
  rn_config :: runnable_config

definition resolve_model :: "react_env \<Rightarrow> nat \<Rightarrow> model_config \<Rightarrow> graph_error + string" where
  "resolve_model R n mc =
     (if mc_model_id mc \<noteq> [] then Inr (mc_model_id mc)
      else if mc_tier mc \<noteq> Tier_None then
        (if \<not> rn_providers_known R n then Inl (ExecutionFailed ''no provider configs for tier resolution'')
         else case rn_resolve_tier R n (mc_tier mc) of
           None \<Rightarrow> Inl (ExecutionFailed (''no model found for tier '' @ tier_debug (mc_tier mc) @ '' on provider '' @
             in_quotes (rn_provider_name R)))
         | Some i \<Rightarrow> Inr i)
      else Inr (rn_default_model R))"

definition reply_content :: "llm_response \<Rightarrow> string" where
  "reply_content r =
     (if lr_content r \<noteq> [] then lr_content r else case lr_reasoning r of Some t \<Rightarrow> t | None \<Rightarrow> [])"

text \<open>Looks at the token: before anything, the race against the reply, after it, and one for every tool call
  that is announced on the stream.\<close>

definition think_node :: "react_env \<Rightarrow> agent_state node_fun" where
  "think_node R n s =
     (if rn_cancelled R n 0 then Inl Cancelled_Err
      else case resolve_model R n (rs_model_config s) of
        Inl e \<Rightarrow> Inl e
      | Inr model \<Rightarrow>
          if rn_cancelled R n 1 then Inl Cancelled_Err
          else case rn_llm R n model (rs_messages s) of
            Inl e \<Rightarrow> Inl e
          | Inr r \<Rightarrow>
              if rn_cancelled R n 2 then Inl Cancelled_Err
              else if rn_stream_tools R \<and> (\<exists>k \<in> set [0..<length (lr_tool_calls r)]. rn_cancelled R n (3 + k)) then Inl Cancelled_Err
              else Inr (apply_think (rn_fresh R n) (reply_content r) (lr_reasoning r) (lr_tool_calls r) (lr_usage r) s, Continue))"

subsection \<open>Observing\<close>

record observe_node_config =
  on_enable_loop :: bool
  on_max_turns :: "u32 option"

definition observe_with_loop :: observe_node_config where
  "observe_with_loop = \<lparr>on_enable_loop = True, on_max_turns = None\<rparr>"

definition observed_name :: "tool_result \<Rightarrow> string" where
  "observed_name r =
     (case tr_name r of Some n \<Rightarrow> n | None \<Rightarrow> (case tr_call_id r of Some i \<Rightarrow> i | None \<Rightarrow> ''tool''))"

definition observed_body :: "tool_result \<Rightarrow> string" where
  "observed_body r =
     ''Tool '' @ observed_name r @ '' '' @ (if tr_is_error r then ''error'' else ''result'') @ '':'' @ [nl] @ tr_observation r @
     (case tr_storage_ref r of Some sr \<Rightarrow> [nl, nl] @ ''Full output saved to: '' @ sr_path sr | None \<Rightarrow> [])"

definition observed_id :: "string \<Rightarrow> tool_result \<Rightarrow> string" where
  "observed_id fresh_id r = (if lacks_id (tr_call_id r) then ''call_'' @ fresh_id else the (tr_call_id r))"

definition observed_messages :: "(nat \<Rightarrow> string) \<Rightarrow> tool_result list \<Rightarrow> message list" where
  "observed_messages fresh rs =
     map (\<lambda>(k, r). Tool (observed_id (fresh k) r) (Content_Text (observed_body r))) (enumerate 0 rs)"

definition observe_node :: "observe_node_config \<Rightarrow> (nat \<Rightarrow> nat \<Rightarrow> string) \<Rightarrow> 'm react_state node_fun" where
  "observe_node Ob fresh n s =
     (let had_tool_calls = rs_tool_calls s \<noteq> [];
          next_turn = saturating_succ (rs_turn_count s);
          s' = s\<lparr>rs_messages := rs_messages s @ observed_messages (fresh n) (rs_tool_results s), rs_tool_calls := [],
                 rs_tool_results := [], rs_turn_count := next_turn\<rparr>;
          max_turns_reached = (case on_max_turns Ob of Some m \<Rightarrow> m \<le> next_turn | None \<Rightarrow> False)
      in Inr (s', if on_enable_loop Ob \<and> max_turns_reached then End
                  else if on_enable_loop Ob \<and> had_tool_calls then Continue
                  else if on_enable_loop Ob \<and> \<not> had_tool_calls then End
                  else Continue))"

subsection \<open>The graph\<close>

definition tools_condition :: "agent_state \<Rightarrow> string" where
  "tools_condition s = (if rs_tool_calls s = [] then END else ''tools'')"

definition think_path_map :: "(string \<times> string) list" where
  "think_path_map = [(''tools'', ''act''), (END, END)]"

definition react_graph :: "react_env \<Rightarrow> (agent_state, agent_state node_fun) state_graph" where
  "react_graph R =
     sg_add_edge ''compress'' ''think''
       (sg_add_edge ''observe'' ''compress''
         (sg_add_edge ''act'' ''observe''
           (sg_add_conditional_edges ''think'' tools_condition (Some think_path_map)
             (sg_add_edge START ''think''
               (sg_add_node ''compress'' (compress_node (rn_compaction R) (rn_summarize R) (rn_config R))
                 (sg_add_node ''observe'' (observe_node observe_with_loop (rn_fresh R))
                   (sg_add_node ''act'' (act_node (rn_act R))
                     (sg_add_node ''think'' (think_node R) state_graph_new))))))))"

definition react_compiled :: "react_env \<Rightarrow> agent_state cgraph" where
  "react_compiled R =
     \<lparr>cg_nodes = [(''think'', think_node R), (''act'', act_node (rn_act R)),
        (''observe'', observe_node observe_with_loop (rn_fresh R)),
        (''compress'', compress_node (rn_compaction R) (rn_summarize R) (rn_config R))],
      cg_first = ''think'', cg_edge_order = [''think''],
      cg_next_map = [(''act'', Unconditional ''observe''), (''observe'', Unconditional ''compress''),
        (''compress'', Unconditional ''think''),
        (''think'', Conditional \<lparr>ro_path = tools_condition, ro_path_map = Some think_path_map\<rparr>)]\<rparr>"

lemma react_graph_compiles: "compile_internal (react_graph R) = Inr (react_compiled R)"
  by (simp add: compile_defs react_graph_def react_compiled_def graph_build_defs think_path_map_def START_def END_def)

text \<open>How the runner runs it: no retry policy, a node's state replaces the old one, the summary goes into the
  metadata of the checkpoint. The logging middleware of a verbose run does not change any result.\<close>

definition react_run_env :: "(nat \<Rightarrow> string) \<Rightarrow> (nat \<Rightarrow> nat) \<Rightarrow> (agent_state, unit) run_env" where
  "react_run_env fresh now = \<lparr>re_policy = NoRetry, re_updater = (\<lambda>s t. t), re_middleware = None,
     re_extractor = Some rs_summary, re_fresh = fresh, re_now = now\<rparr>"

subsection \<open>The first state\<close>

definition react_initial :: "message list \<Rightarrow> agent_state" where
  "react_initial messages = react_state_new model_config_default messages"

text \<open>\<open>load_from_checkpoint_or_build\<close> and \<open>resume_from_checkpoint\<close>: a checkpoint is looked for when there is a
  saver and a thread.\<close>

definition load_from_checkpoint_or_build ::
    "'s memory_saver option \<Rightarrow> runnable_config option \<Rightarrow> 's \<Rightarrow> ('s \<Rightarrow> 's) \<Rightarrow> checkpoint_err + 's" where
  "load_from_checkpoint_or_build saver config fresh_state merge =
     (case (saver, config) of
        (Some cp, Some cfg) \<Rightarrow>
          (if rc_thread_id cfg = None then Inr fresh_state
           else case ms_get_tuple cfg cp of
             Inl e \<Rightarrow> Inl e
           | Inr (Some (c, k)) \<Rightarrow> Inr (merge (ck_channel_values c))
           | Inr None \<Rightarrow> Inr fresh_state)
      | _ \<Rightarrow> Inr fresh_state)"

definition resume_from_checkpoint ::
    "'s memory_saver option \<Rightarrow> runnable_config option \<Rightarrow> 's \<Rightarrow> checkpoint_err + 's" where
  "resume_from_checkpoint saver config fresh_state =
     (case (saver, config) of
        (Some cp, Some cfg) \<Rightarrow>
          (if rc_thread_id cfg = None then Inr fresh_state
           else case ms_get_tuple cfg cp of
             Inl e \<Rightarrow> Inl e
           | Inr (Some (c, k)) \<Rightarrow> Inr (ck_channel_values c)
           | Inr None \<Rightarrow> Inr fresh_state)
      | _ \<Rightarrow> Inr fresh_state)"

definition add_user_message :: "user_content \<Rightarrow> agent_state \<Rightarrow> agent_state" where
  "add_user_message msg s = s\<lparr>rs_messages := rs_messages s @ [User msg], rs_tool_calls := [], rs_tool_results := []\<rparr>"

definition build_react_initial_state ::
    "user_content \<Rightarrow> agent_state memory_saver option \<Rightarrow> runnable_config option \<Rightarrow> string \<Rightarrow> checkpoint_err + agent_state" where
  "build_react_initial_state msg saver config system_prompt =
     load_from_checkpoint_or_build saver config (react_initial [System system_prompt, User msg]) (add_user_message msg)"

definition build_react_initial_state_for_resume ::
    "agent_state memory_saver option \<Rightarrow> runnable_config option \<Rightarrow> string \<Rightarrow> checkpoint_err + agent_state" where
  "build_react_initial_state_for_resume saver config system_prompt =
     resume_from_checkpoint saver config (react_initial [System system_prompt])"

text \<open>A turn of the session: load the state, run the graph, give back what it ended with and the stores.\<close>

definition react_turn ::
    "react_env \<Rightarrow> (nat \<Rightarrow> string) \<Rightarrow> (nat \<Rightarrow> nat) \<Rightarrow> (nat \<Rightarrow> bool) \<Rightarrow> user_content \<Rightarrow> string \<Rightarrow> runnable_config option
     \<Rightarrow> agent_state graph_world \<Rightarrow> checkpoint_err + (run_end \<times> agent_state \<times> agent_state graph_world) option" where
  "react_turn R fresh now cancelled msg system_prompt config w =
     (case build_react_initial_state msg (gw_saver w) config system_prompt of
        Inl e \<Rightarrow> Inl e
      | Inr s \<Rightarrow> Inr (graph_stream (react_run_env fresh now) (react_compiled R) cancelled s config w))"

end
