(* ===== verification/React_Facts.thy ===== *)
theory React_Facts
  imports React_Run
begin

text \<open>
  What the agent loop keeps: between the turns of the model every tool call of the conversation is
  answered, in order and once, so that each request can be sent as it is; that also holds for every state
  that is saved; and the loop ends once the model stops calling tools.
\<close>

subsection \<open>What each node finds\<close>

definition ids_ok :: "message list \<Rightarrow> bool" where
  "ids_ok ms \<longleftrightarrow> [] \<notin> set (call_ids ms) \<and> distinct (call_ids ms)"

definition conv_ok :: "message list \<Rightarrow> bool" where
  "conv_ok ms \<longleftrightarrow> paired ms \<and> ids_ok ms"

definition calls_open :: "agent_state \<Rightarrow> bool" where
  "calls_open s \<longleftrightarrow> run_pending [] (rs_messages s) = Some (tc_ids (rs_tool_calls s)) \<and> ids_ok (rs_messages s) \<and>
     rs_tool_calls s \<noteq> [] \<and> (\<forall>tc \<in> set (rs_tool_calls s). \<not> lacks_id (tc_id tc))"

definition node_ready :: "string \<Rightarrow> agent_state \<Rightarrow> bool" where
  "node_ready i s \<longleftrightarrow>
     (if i = ''act'' then calls_open s
      else if i = ''observe'' then calls_open s \<and> map tr_call_id (rs_tool_results s) = map tc_id (rs_tool_calls s)
      else conv_ok (rs_messages s))"

text \<open>
  The condition on the model: the identifiers of the calls of a reply (drawn, where the model gives none) differ
  from one another and from those in the conversation that was sent. The identifiers \<open>stream_tool_N\<close> which
  the stream accumulator makes up do not meet it. Without it a summary may keep a result whose call is gone
  (\<open>reused_id_keeps_orphan\<close>).
\<close>

definition unique_ids :: "react_env \<Rightarrow> bool" where
  "unique_ids R \<longleftrightarrow>
     (\<forall>n model ms r. rn_llm R n model ms = Inr r \<longrightarrow>
        distinct (tc_ids (fix_tool_calls (rn_fresh R n) 0 (lr_tool_calls r))) \<and>
        set (tc_ids (fix_tool_calls (rn_fresh R n) 0 (lr_tool_calls r))) \<inter> set (call_ids ms) = {})"

lemma conv_ok_Nil [simp]: "conv_ok []"
  by (simp add: conv_ok_def paired_def ids_ok_def)

lemma conv_ok_add [simp]: "conv_ok (ms @ [User c]) \<longleftrightarrow> conv_ok ms"
  by (auto simp: conv_ok_def paired_def ids_ok_def run_pending_append bind_eq_Some_conv split: if_splits)

lemma think_Inr:
  assumes "think_node R n s = Inr (s', nxt)"
  obtains model r where "rn_llm R n model (rs_messages s) = Inr r" "nxt = Continue"
    "s' = apply_think (rn_fresh R n) (reply_content r) (lr_reasoning r) (lr_tool_calls r) (lr_usage r) s"
  using assms by (auto simp: think_node_def simp del: set_upt split: if_splits sum.splits)

lemma think_step:
  assumes "unique_ids R" "conv_ok (rs_messages s)" "think_node R n s = Inr (s', nxt)"
  shows "nxt = Continue" "if rs_tool_calls s' = [] then conv_ok (rs_messages s') else calls_open s'"
proof -
  obtain model r where r: "rn_llm R n model (rs_messages s) = Inr r" "nxt = Continue"
    "s' = apply_think (rn_fresh R n) (reply_content r) (lr_reasoning r) (lr_tool_calls r) (lr_usage r) s"
    by (rule think_Inr [OF assms(3)])
  let ?ids = "tc_ids (fix_tool_calls (rn_fresh R n) 0 (lr_tool_calls r))"
  have ids: "distinct ?ids" "set ?ids \<inter> set (call_ids (rs_messages s)) = {}" using assms(1) r(1) by (auto simp: unique_ids_def)
  have run: "run_pending [] (rs_messages s') = Some ?ids"
    using assms(2) by (simp add: r(3) run_pending_append conv_ok_def paired_def reply_pending)
  have ok: "ids_ok (rs_messages s')"
    using assms(2) ids fixed_ids_ne [of "rn_fresh R n" 0 "lr_tool_calls r"]
    by (auto simp: r(3) ids_ok_def conv_ok_def reply_call_ids)
  show "nxt = Continue" by (rule r(2))
  show "if rs_tool_calls s' = [] then conv_ok (rs_messages s') else calls_open s'"
    using run ok fix_tool_calls_named [of _ "rn_fresh R n" 0 "lr_tool_calls r"]
    by (auto simp: conv_ok_def calls_open_def paired_def r(3) tc_ids_def)
qed

lemma act_step:
  assumes "calls_open s" "act_node (rn_act R) n s = Inr (s', nxt)"
  shows "nxt = Continue" "node_ready ''observe'' s'"
proof -
  obtain rs where rs: "execute_calls (rn_act R) n 0 (rs_messages s) (rs_tool_calls s) 0 1 = Inr rs" "nxt = Continue"
    "s' = s\<lparr>rs_tool_calls := fst (backfill_call_ids (\<lambda>k. ae_fresh (rn_act R) (n, k)) 0 (rs_tool_calls s) rs),
       rs_tool_results := snd (backfill_call_ids (\<lambda>k. ae_fresh (rn_act R) (n, k)) 0 (rs_tool_calls s) rs)\<rparr>"
    by (rule act_node_Inr [OF assms(2)])
  have ids: "map tr_call_id rs = map tc_id (rs_tool_calls s)" using execute_calls_ids [OF rs(1)] by blast
  have "backfill_call_ids (\<lambda>k. ae_fresh (rn_act R) (n, k)) 0 (rs_tool_calls s) rs = (rs_tool_calls s, rs)"
    using backfill_named [OF ids] assms(1) by (simp add: calls_open_def)
  with rs(3) have "s' = s\<lparr>rs_tool_calls := rs_tool_calls s, rs_tool_results := rs\<rparr>" by simp
  with assms(1) ids show "node_ready ''observe'' s'" by (simp add: node_ready_def calls_open_def)
  show "nxt = Continue" by (rule rs(2))
qed

lemma observed_ids:
  assumes "map tr_call_id rs = map tc_id tcs" "\<forall>tc \<in> set tcs. \<not> lacks_id (tc_id tc)"
  shows "run_pending (tc_ids tcs) (observed_messages fresh rs) = Some [] \<and> call_ids (observed_messages fresh rs) = []"
proof -
  have "run_pending (tc_ids tcs) (map (\<lambda>(k, r). Tool (observed_id (fresh k) r) (Content_Text (observed_body r))) (enumerate m rs)) = Some [] \<and>
      call_ids (map (\<lambda>(k, r). Tool (observed_id (fresh k) r) (Content_Text (observed_body r))) (enumerate m rs)) = []" for m
    using assms
  proof (induction rs arbitrary: tcs m)
    case Nil
    then show ?case by (simp add: tc_ids_def)
  next
    case (Cons r rs)
    then obtain tc tcs' where tcs: "tcs = tc # tcs'" "tr_call_id r = tc_id tc" "map tr_call_id rs = map tc_id tcs'"
      by (cases tcs) auto
    with Cons.prems(2) have "observed_id (fresh m) r = the (tc_id tc)" by (simp add: observed_id_def)
    with Cons.IH [OF tcs(3), of "Suc m"] Cons.prems(2) tcs(1) show ?case by (simp add: tc_ids_def)
  qed
  then show ?thesis unfolding observed_messages_def .
qed

lemma observe_step:
  assumes "node_ready ''observe'' s" "observe_node observe_with_loop (rn_fresh R) n s = Inr (s', nxt)"
  shows "nxt = Continue" "conv_ok (rs_messages s')"
proof -
  from assms(1) have o: "calls_open s" "map tr_call_id (rs_tool_results s) = map tc_id (rs_tool_calls s)"
    by (simp_all add: node_ready_def)
  from o(1) assms(2) show "nxt = Continue" by (auto simp: observe_node_def observe_with_loop_def calls_open_def Let_def)
  have "rs_messages s' = rs_messages s @ observed_messages (rn_fresh R n) (rs_tool_results s)"
    using assms(2) by (auto simp: observe_node_def Let_def)
  with o(1) observed_ids [OF o(2), of "rn_fresh R n"] show "conv_ok (rs_messages s')"
    by (simp add: conv_ok_def paired_def ids_ok_def calls_open_def run_pending_append)
qed

lemma compact_conv_ok:
  assumes "compact llm C ms = Inr out" "conv_ok ms"
  shows "conv_ok out"
  using assms(1)
proof (cases rule: compact_cases)
  case 1
  with assms(2) show ?thesis by simp
next
  case (2 xs ys t)
  from assms(2) have ms: "paired (xs @ ys)" "distinct (call_ids (xs @ ys))" "[] \<notin> set (call_ids ys)"
    by (auto simp: conv_ok_def ids_ok_def 2(1))
  then show ?thesis using compact_recent(1) [OF ms(1,2)]
    by (simp add: 2(4) call_ids_keeps_recent conv_ok_def ids_ok_def paired_def summary_message_def)
qed

lemma compress_step:
  assumes "conv_ok (rs_messages s)" "compress_node C llm config n s = Inr (s', nxt)"
  shows "nxt = Continue" "conv_ok (rs_messages s')"
proof -
  obtain k t where t: "t = s \<or> t = pruned_state C s" "compact_node C (llm n) k t = Inr (s', nxt)"
    by (rule compress_node_from [OF assms(2)])
  from t(2) show "nxt = Continue" by (rule compact_node_continues)
  have ok: "conv_ok (rs_messages t)"
    using t(1) assms(1) prune_pending by (auto simp: conv_ok_def ids_ok_def paired_def pruned_state_def)
  from t(2) obtain ms where "rs_messages s' = ms" "ms = rs_messages t \<or> compact (llm n k) C (rs_messages t) = Inr ms"
    by (auto simp: compact_node_def split: sum.splits if_splits)
  with ok compact_conv_ok show "conv_ok (rs_messages s')" by auto
qed

subsection \<open>A turn of the loop\<close>

lemma react_env_simps [simp]:
  "re_policy (react_run_env fresh now) = NoRetry" "re_updater (react_run_env fresh now) s t = t"
  "re_middleware (react_run_env fresh now) = None"
  by (simp_all add: react_run_env_def)

lemma no_retry_policy:
  assumes "re_policy E = NoRetry" "re_middleware E = None"
  shows "execute_node_with_retry E i node s n 0 =
     (case node n s of Inr out \<Rightarrow> (Inr out, n + 1) | Inl e \<Rightarrow> (node (n + 1) s, n + 2))"
proof -
  have c: "call_node E i node k t = node k t" for k t using assms(2) by (simp add: call_node_def)
  have "should_retry (re_policy E) 0" "\<not> should_retry (re_policy E) 1" using assms(1) by (simp_all add: should_retry_def)
  then show ?thesis
    by (simp add: execute_node_with_retry.simps [of E i node s n 0]
        execute_node_with_retry.simps [of E i node s "Suc n" "Suc 0"] c split: sum.splits)
qed

lemma react_turn_cases:
  assumes "re_policy E = NoRetry" "re_middleware E = None" "\<And>s t. re_updater E s t = t" "map_of (cg_nodes G) i = Some node"
  obtains (cancelled) s' where "graph_turn E G cancelled config p n i s w = Stop (Failed_With Cancelled_Err) s' w"
  | (failed) e m w' where "node m s = Inl e" "graph_turn E G cancelled config p n i s w = Stop (Failed_With e) s w'"
      "w' = w \<or> is_interrupt e \<and> w' = save_state E config s w"
  | (ended) m s' nxt where "node m s = Inr (s', nxt)" "next_node G i s' nxt = None \<or> next_node G i s' nxt = Some END"
      "graph_turn E G cancelled config p n i s w = Stop Finished s' (save_state E config s' w)"
  | (went) m s' nxt t where "node m s = Inr (s', nxt)" "next_node G i s' nxt = Some t" "t \<noteq> END" "n \<le> m"
      "graph_turn E G cancelled config p n i s w = GoOn t s' (m + 1)"
proof (cases "cancelled p")
  case True
  then show ?thesis by (intro that(1)) (simp add: graph_turn_def)
next
  case False
  note outcome = that
  have goes: ?thesis if x: "node m s = Inr (s', nxt)" "n \<le> m" "execute_node_with_retry E i node s n 0 = (Inr (s', nxt), m + 1)"
    for m s' nxt
  proof (cases "cancelled (p + 1)")
    case True
    with False x show ?thesis by (intro outcome(1)) (simp add: graph_turn_def assms(3,4))
  next
    case nc: False
    show ?thesis
    proof (cases "next_node G i s' nxt = None \<or> next_node G i s' nxt = Some END")
      case True
      with False nc x show ?thesis by (intro outcome(3) [OF x(1) True]) (auto simp: graph_turn_def assms(3,4))
    next
      case stay: False
      then obtain t where t: "next_node G i s' nxt = Some t" "t \<noteq> END" by auto
      with False nc x show ?thesis by (intro outcome(4) [OF x(1) t x(2)]) (simp add: graph_turn_def assms(3,4))
    qed
  qed
  show ?thesis
  proof (cases "node n s")
    case (Inr out)
    obtain s' nxt where "out = (s', nxt)" by force
    with Inr show ?thesis by (intro goes [of n s' nxt]) (simp_all add: no_retry_policy [OF assms(1,2)])
  next
    case e1: (Inl e1)
    show ?thesis
    proof (cases "node (n + 1) s")
      case (Inr out)
      obtain s' nxt where "out = (s', nxt)" by force
      with Inr e1 show ?thesis by (intro goes [of "n + 1" s' nxt]) (simp_all add: no_retry_policy [OF assms(1,2)])
    next
      case (Inl e)
      have "execute_node_with_retry E i node s n 0 = (Inl e, n + 2)" using Inl e1 by (simp add: no_retry_policy [OF assms(1,2)])
      with False show ?thesis
        by (intro outcome(2) [OF Inl, of "case e of Interrupted_Err it \<Rightarrow> save_state E config s w | _ \<Rightarrow> w"])
          (cases e; simp add: graph_turn_def assms(4))+
    qed
  qed
qed

definition react_nodes :: "string list" where
  "react_nodes = [''think'', ''act'', ''observe'', ''compress'']"

definition react_node :: "react_env \<Rightarrow> string \<Rightarrow> agent_state node_fun" where
  "react_node R i =
     (if i = ''think'' then think_node R else if i = ''act'' then act_node (rn_act R)
      else if i = ''observe'' then observe_node observe_with_loop (rn_fresh R)
      else compress_node (rn_compaction R) (rn_summarize R) (rn_config R))"

lemma react_node_registered: "i \<in> set react_nodes \<Longrightarrow> map_of (cg_nodes (react_compiled R)) i = Some (react_node R i)"
  by (auto simp: react_nodes_def react_node_def react_compiled_def)

lemma react_next:
  "next_node (react_compiled R) ''think'' s nxt = Some (if rs_tool_calls s = [] then END else ''act'')"
  "next_node (react_compiled R) ''act'' s Continue = Some ''observe''"
  "next_node (react_compiled R) ''observe'' s Continue = Some ''compress''"
  "next_node (react_compiled R) ''compress'' s Continue = Some ''think''"
  by (simp_all add: next_node_def react_compiled_def resolve_route_def tools_condition_def think_path_map_def END_def)

lemma react_nodes_not_END [simp]: "END \<noteq> ''act''" "END \<noteq> ''observe''" "END \<noteq> ''compress''" "END \<noteq> ''think''"
  by (simp_all add: END_def)

lemma react_names: "i \<in> set react_nodes \<longleftrightarrow> i = ''think'' \<or> i = ''act'' \<or> i = ''observe'' \<or> i = ''compress''"
  by (auto simp: react_nodes_def)

text \<open>A node that answers hands the next one what it needs, and the run goes on with a node or ends.\<close>

lemma react_step:
  assumes "unique_ids R" "i \<in> set react_nodes" "node_ready i s" "react_node R i m s = Inr (s', nxt)"
  shows "(i = ''think'' \<and> rs_tool_calls s' = [] \<and> conv_ok (rs_messages s') \<and> next_node (react_compiled R) i s' nxt = Some END) \<or>
    (\<exists>j. next_node (react_compiled R) i s' nxt = Some j \<and> node_ready j s' \<and>
       (i, j) \<in> {(''think'', ''act''), (''act'', ''observe''), (''observe'', ''compress''), (''compress'', ''think'')})"
proof -
  consider "i = ''think''" | "i = ''act''" | "i = ''observe''" | "i = ''compress''" using assms(2) unfolding react_names by blast
  then show ?thesis
  proof cases
    case 1
    then have "conv_ok (rs_messages s)" "think_node R m s = Inr (s', nxt)" using assms(3,4) by (simp_all add: node_ready_def react_node_def)
    from think_step [OF assms(1) this] 1 show ?thesis by (cases "rs_tool_calls s' = []") (simp_all add: react_next node_ready_def)
  next
    case 2
    then have "calls_open s" "act_node (rn_act R) m s = Inr (s', nxt)" using assms(3,4) by (simp_all add: node_ready_def react_node_def)
    from act_step [OF this] 2 show ?thesis by (simp add: react_next)
  next
    case 3
    then have "observe_node observe_with_loop (rn_fresh R) m s = Inr (s', nxt)" using assms(4) by (simp add: react_node_def)
    from observe_step [OF _ this] 3 assms(3) show ?thesis by (simp add: react_next node_ready_def)
  next
    case 4
    then have "conv_ok (rs_messages s)" "compress_node (rn_compaction R) (rn_summarize R) (rn_config R) m s = Inr (s', nxt)"
      using assms(3,4) by (simp_all add: node_ready_def react_node_def)
    from compress_step [OF this] 4 show ?thesis by (simp add: react_next node_ready_def)
  qed
qed

lemma react_interrupt:
  assumes "i \<in> set react_nodes" "node_ready i s" "react_node R i m s = Inl e" "is_interrupt e"
  shows "conv_ok (rs_messages s)"
proof -
  have "i \<noteq> ''act''"
  proof
    assume "i = ''act''"
    then have "act_node (rn_act R) m s = Inl e" using assms(3) by (simp add: react_node_def)
    then have "e = Cancelled_Err" using execute_calls_Inl [of "rn_act R" m 0 "rs_messages s" "rs_tool_calls s" 0 1 e]
      by (auto simp: act_node_def execute_turn_def simp del: One_nat_def split: if_splits sum.splits)
    with assms(4) show False by simp
  qed
  moreover have "i \<noteq> ''observe''"
  proof
    assume "i = ''observe''"
    then show False using assms(3) by (simp add: react_node_def observe_node_def Let_def)
  qed
  ultimately show ?thesis using assms(2) by (simp add: node_ready_def)
qed

subsection \<open>Runs\<close>

text \<open>The rule for runs that return: an invariant of the turns, and what every last turn gives.\<close>

lemma run_loop_rule:
  assumes run: "run_loop_inner E G cancelled config p n i s w = Some r" and start: "I i s"
    and step: "\<And>p n i s t s' n'. I i s \<Longrightarrow> graph_turn E G cancelled config p n i s w = GoOn t s' n' \<Longrightarrow> I t s'"
    and stop: "\<And>p n i s e s' w'. I i s \<Longrightarrow> graph_turn E G cancelled config p n i s w = Stop e s' w' \<Longrightarrow> Q (e, s', w')"
  shows "Q r"
proof -
  have "E' = E \<longrightarrow> G' = G \<longrightarrow> c' = cancelled \<longrightarrow> cf = config \<longrightarrow> w' = w \<longrightarrow> I i' s' \<longrightarrow> Q r"
    if "run_loop_inner E' G' c' cf p' n' i' s' w' = Some r" for E' G' c' cf p' n' i' s' w'
  proof (rule run_loop_inner.raw_induct [OF _ that])
    fix rl E' G' c' cf p' n' i' s' w' y
    assume IH: "\<And>E' G' c' cf p' n' i' s' w' y. rl E' G' c' cf p' n' i' s' w' = Some y \<Longrightarrow>
        E' = E \<longrightarrow> G' = G \<longrightarrow> c' = cancelled \<longrightarrow> cf = config \<longrightarrow> w' = w \<longrightarrow> I i' s' \<longrightarrow> Q y"
      and y: "(case graph_turn E' G' c' cf p' n' i' s' w' of Stop e s' w' \<Rightarrow> Some (e, s', w')
        | GoOn t s' n' \<Rightarrow> rl E' G' c' cf (p' + 2) n' t s' w') = Some y"
    show "E' = E \<longrightarrow> G' = G \<longrightarrow> c' = cancelled \<longrightarrow> cf = config \<longrightarrow> w' = w \<longrightarrow> I i' s' \<longrightarrow> Q y"
    proof (intro impI)
      assume eq: "E' = E" "G' = G" "c' = cancelled" "cf = config" "w' = w" and inv: "I i' s'"
      show "Q y"
      proof (cases "graph_turn E G cancelled config p' n' i' s' w")
        case (Stop e s2 w2)
        with y stop [OF inv Stop] show ?thesis by (simp add: eq)
      next
        case (GoOn t s2 n2)
        with y have "rl E G cancelled config (p' + 2) n2 t s2 w = Some y" by (simp add: eq)
        with IH step [OF inv GoOn] show ?thesis by blast
      qed
    qed
  qed
  with run start show ?thesis by blast
qed

lemma react_loop_inv:
  assumes u: "unique_ids R"
    and run: "run_loop_inner (react_run_env fresh now) (react_compiled R) cancelled config p n i s w = Some (e, s', w')"
    and i: "i \<in> set react_nodes" "node_ready i s"
  shows "e \<noteq> Panicked \<and> (e = Finished \<longrightarrow> conv_ok (rs_messages s') \<and> rs_tool_calls s' = []) \<and>
    (w' = w \<or> (conv_ok (rs_messages s') \<and> w' = save_state (react_run_env fresh now) config s' w))"
proof -
  let ?E = "react_run_env fresh now"
  let ?Q = "\<lambda>(e, s', w'). e \<noteq> Panicked \<and> (e = Finished \<longrightarrow> conv_ok (rs_messages s') \<and> rs_tool_calls s' = []) \<and>
    (w' = w \<or> (conv_ok (rs_messages s') \<and> w' = save_state ?E config s' w))"
  have turn: "(\<forall>t s' n'. graph_turn ?E (react_compiled R) cancelled config p n i s w = GoOn t s' n' \<longrightarrow>
          t \<in> set react_nodes \<and> node_ready t s') \<and>
      (\<forall>e s' w'. graph_turn ?E (react_compiled R) cancelled config p n i s w = Stop e s' w' \<longrightarrow> ?Q (e, s', w'))"
    if "i \<in> set react_nodes \<and> node_ready i s" for p n i s
  proof (rule react_turn_cases [where E = ?E and G = "react_compiled R" and i = i and cancelled = cancelled and config = config
      and p = p and n = n and s = s and w = w])
    show "map_of (cg_nodes (react_compiled R)) i = Some (react_node R i)" using that by (simp add: react_node_registered)
  next
    fix s' assume "graph_turn ?E (react_compiled R) cancelled config p n i s w = Stop (Failed_With Cancelled_Err) s' w"
    then show ?thesis by simp
  next
    fix e m w' assume f: "react_node R i m s = Inl e"
      "graph_turn ?E (react_compiled R) cancelled config p n i s w = Stop (Failed_With e) s w'"
      "w' = w \<or> is_interrupt e \<and> w' = save_state ?E config s w"
    with react_interrupt [of i s R m e] that show ?thesis by auto
  next
    fix m s' nxt assume x: "react_node R i m s = Inr (s', nxt)"
      "next_node (react_compiled R) i s' nxt = None \<or> next_node (react_compiled R) i s' nxt = Some END"
      "graph_turn ?E (react_compiled R) cancelled config p n i s w = Stop Finished s' (save_state ?E config s' w)"
    with react_step [OF u _ _ x(1)] that show ?thesis by auto
  next
    fix m s' nxt t assume x: "react_node R i m s = Inr (s', nxt)" "next_node (react_compiled R) i s' nxt = Some t" "t \<noteq> END"
      "graph_turn ?E (react_compiled R) cancelled config p n i s w = GoOn t s' (m + 1)"
    with react_step [OF u _ _ x(1)] that show ?thesis by (auto simp: react_names)
  qed simp_all
  have "?Q (e, s', w')"
    by (rule run_loop_rule [OF run, where I = "\<lambda>i s. i \<in> set react_nodes \<and> node_ready i s"]) (use i turn in blast)+
  then show ?thesis by simp
qed

subsection \<open>Sessions\<close>

text \<open>A checkpointer that holds only conversations that can be continued.\<close>

definition saver_ok :: "agent_state memory_saver \<Rightarrow> bool" where
  "saver_ok sv \<longleftrightarrow> (\<forall>(k, cs) \<in> set (ms_by_thread sv). \<forall>(i, c) \<in> set cs. conv_ok (rs_messages (ck_channel_values c)))"

definition world_ok :: "agent_state graph_world \<Rightarrow> bool" where
  "world_ok w \<longleftrightarrow> (case gw_saver w of Some sv \<Rightarrow> saver_ok sv | None \<Rightarrow> True)"

lemma saver_okD: "saver_ok sv \<Longrightarrow> (k, cs) \<in> set (ms_by_thread sv) \<Longrightarrow> (i, c) \<in> set cs \<Longrightarrow> conv_ok (rs_messages (ck_channel_values c))"
  unfolding saver_ok_def by blast

lemma in_pget: "x \<in> set (pget m k) \<Longrightarrow> \<exists>cs. (k, cs) \<in> set m \<and> x \<in> set cs"
  by (cases "map_of m k") (auto simp: pget_def dest: map_of_SomeD)

lemma set_upsert: "set (upsert p y xs) \<subseteq> insert y (set xs)"
  by (induction xs) auto

lemma ms_put_ok:
  assumes "saver_ok sv" "conv_ok (rs_messages (ck_channel_values c))"
  shows "saver_ok (snd (ms_put cfg c sv))"
proof (cases "thread_key cfg")
  case (Inr key)
  let ?cs = "upsert (\<lambda>e. fst e = ck_id c) (ck_id c, c) (pget (ms_by_thread sv) key)"
  have old: "conv_ok (rs_messages (ck_channel_values d))" if "(i, d) \<in> set (pget (ms_by_thread sv) key)" for i d
    using in_pget [OF that] saver_okD [OF assms(1)] by blast
  have "conv_ok (rs_messages (ck_channel_values d))" if "(i, d) \<in> set ?cs" for i d
    using that set_upsert [of "\<lambda>e. fst e = ck_id c" "(ck_id c, c)" "pget (ms_by_thread sv) key"] old assms(2) by auto
  then show ?thesis
    using Inr set_update_subset [of key ?cs "ms_by_thread sv"] saver_okD [OF assms(1)]
    by (auto simp: saver_ok_def ms_put_def)
qed (simp add: ms_put_def assms(1))

lemma save_state_ok:
  assumes "world_ok w" "conv_ok (rs_messages s)"
  shows "world_ok (save_state E config s w)"
proof -
  have "ck_channel_values (graph_checkpoint E s n) = s" for n
    by (simp add: graph_checkpoint_def from_state_def Let_def split: option.split)
  then show ?thesis using assms ms_put_ok
    by (auto simp: world_ok_def save_state_def split: option.splits)
qed

lemma ms_get_ok:
  assumes "saver_ok sv" "ms_get_tuple cfg sv = Inr (Some (c, k))"
  shows "conv_ok (rs_messages (ck_channel_values c))"
proof -
  obtain key where key: "thread_key cfg = Inr key" using assms(2) by (cases "thread_key cfg") (simp_all add: ms_get_tuple_def)
  let ?cs = "pget (ms_by_thread sv) key"
  have ok: "conv_ok (rs_messages (ck_channel_values d))" if "(i, d) \<in> set ?cs" for i d
    using in_pget [OF that] saver_okD [OF assms(1)] by blast
  have ne: "?cs \<noteq> []" using assms(2) by (auto simp: ms_get_list [OF key] split: if_splits)
  show ?thesis
  proof (cases "rc_checkpoint_id cfg")
    case None
    then have "c = snd (last ?cs)" using assms(2) ne by (simp add: ms_get_list [OF key] Let_def)
    with ok [of "fst (last ?cs)" c] last_in_set [OF ne] show ?thesis by simp
  next
    case (Some cid)
    then have "map_of ?cs cid = Some c" using assms(2) ne by (auto simp: ms_get_list [OF key] split: option.splits)
    with ok [of cid c] show ?thesis by (simp add: map_of_SomeD)
  qed
qed

lemma initial_state_ok:
  assumes "case saver of Some sv \<Rightarrow> saver_ok sv | None \<Rightarrow> True" "build_react_initial_state msg saver config prompt = Inr s"
  shows "conv_ok (rs_messages s)"
proof -
  have fresh: "conv_ok (rs_messages (react_initial [System prompt, User msg]))"
    by (simp add: react_initial_def react_state_new_def conv_ok_def paired_def ids_ok_def)
  have merge: "conv_ok (rs_messages (add_user_message msg t)) \<longleftrightarrow> conv_ok (rs_messages t)" for t
    by (simp add: add_user_message_def)
  show ?thesis
  proof (cases saver)
    case None
    with assms(2) fresh show ?thesis by (simp add: build_react_initial_state_def load_from_checkpoint_or_build_def)
  next
    case sv: (Some sv)
    show ?thesis
    proof (cases config)
      case None
      with sv assms(2) fresh show ?thesis by (simp add: build_react_initial_state_def load_from_checkpoint_or_build_def)
    next
      case (Some cfg)
      show ?thesis
      proof (cases "\<exists>c k. ms_get_tuple cfg sv = Inr (Some (c, k)) \<and> rc_thread_id cfg \<noteq> None")
        case True
        then obtain c k t where ck: "ms_get_tuple cfg sv = Inr (Some (c, k))" "rc_thread_id cfg = Some t" by blast
        have "saver_ok sv" using assms(1) sv by simp
        from ms_get_ok [OF this ck(1)] ck assms(2) sv Some merge show ?thesis
          by (auto simp: build_react_initial_state_def load_from_checkpoint_or_build_def)
      next
        case False
        with assms(2) sv Some fresh show ?thesis
          by (auto simp: build_react_initial_state_def load_from_checkpoint_or_build_def split: if_splits sum.splits option.splits)
      qed
    qed
  qed
qed

lemma react_stream_eq:
  "graph_stream E (react_compiled R) cancelled s config w = run_loop_inner E (react_compiled R) cancelled config 0 0 ''think'' s w"
  by (simp add: graph_stream_def react_compiled_def)

text \<open>C3: a session keeps its conversation in order. Call a conversation good when every tool call is answered
  once and in order and the identifiers of its calls are not empty and all different. Provided the model names
  the calls of each reply by identifiers that differ from one another and from those of the conversation it
  answers (where it gives none, the one drawn counts; the identifiers stream_tool_N of the stream accumulator
  violate this, which is reported as a finding), a turn of a session whose checkpoints are good leaves, when
  it returns, only good checkpoints behind, whatever the user says, the tools answer, the model asks and wherever it is cancelled.
  It never panics, and when it finishes the final conversation is good and no call is left open.\<close>

theorem session_keeps_conversations:
  assumes "unique_ids R" "world_ok w"
    and "react_turn R fresh now cancelled msg prompt config w = Inr (Some (e, s', w'))"
  shows "world_ok w' \<and> e \<noteq> Panicked \<and> (e = Finished \<longrightarrow> conv_ok (rs_messages s') \<and> rs_tool_calls s' = [])"
proof -
  obtain s where s: "build_react_initial_state msg (gw_saver w) config prompt = Inr s"
    "run_loop_inner (react_run_env fresh now) (react_compiled R) cancelled config 0 0 ''think'' s w = Some (e, s', w')"
    using assms(3) by (auto simp: react_turn_def react_stream_eq split: sum.splits)
  have "conv_ok (rs_messages s)" using initial_state_ok [OF _ s(1)] assms(2) by (simp add: world_ok_def)
  then have "node_ready ''think'' s" by (simp add: node_ready_def)
  from react_loop_inv [OF assms(1) s(2) _ this] save_state_ok [OF assms(2)] assms(2)
  show ?thesis by (auto simp: react_names)
qed

subsection \<open>Requests\<close>

text \<open>The states with which the nodes are entered, with any numbers of calls and looks.\<close>

inductive react_visits :: "react_env \<Rightarrow> agent_state \<Rightarrow> string \<Rightarrow> agent_state \<Rightarrow> bool" for R s0 where
  start: "react_visits R s0 ''think'' s0"
| step: "react_visits R s0 i s \<Longrightarrow> graph_turn (react_run_env fresh now) (react_compiled R) cancelled config p n i s w = GoOn j s' n'
    \<Longrightarrow> react_visits R s0 j s'"

lemma visits_ready:
  assumes "unique_ids R" "conv_ok (rs_messages s0)"
  shows "react_visits R s0 i s \<Longrightarrow> i \<in> set react_nodes \<and> node_ready i s"
proof (induction rule: react_visits.induct)
  case start
  show ?case using assms(2) by (simp add: react_names node_ready_def)
next
  case (step i s fresh now cancelled config p n w j s' n')
  show ?case
  proof (rule react_turn_cases [where E = "react_run_env fresh now" and G = "react_compiled R" and i = i and cancelled = cancelled
      and config = config and p = p and n = n and s = s and w = w])
    show "map_of (cg_nodes (react_compiled R)) i = Some (react_node R i)" using step.IH by (simp add: react_node_registered)
  next
    fix m s'' nxt t assume x: "react_node R i m s = Inr (s'', nxt)" "next_node (react_compiled R) i s'' nxt = Some t" "t \<noteq> END"
      "graph_turn (react_run_env fresh now) (react_compiled R) cancelled config p n i s w = GoOn t s'' (m + 1)"
    with react_step [OF assms(1) _ _ x(1)] step.IH step.hyps(2) show ?thesis by (auto simp: react_names)
  qed (use step.hyps(2) in simp_all)
qed

text \<open>C8: every request of a run can be sent as it is. In a run that starts from a conversation in which every
  tool call is answered once and in order and the identifiers of the calls are not empty and all different (a new
  conversation, or a good checkpoint), with a model that names the calls of each reply by identifiers that
  differ from one another and from those of the conversation it answers (the condition of the previous property on
  sessions), the conversation has this form again whenever the model is asked: every call has been answered, in order and
  exactly once, so the check for orphans finds nothing and the sanitizer changes nothing.\<close>

theorem requests_are_complete:
  assumes "unique_ids R" "conv_ok (rs_messages s0)" "react_visits R s0 ''think'' s"
  shows "conv_ok (rs_messages s) \<and> check_orphan_tool_calls (rs_messages s) = [] \<and>
    sanitize_tool_call_ids fresh (rs_messages s) = rs_messages s"
proof -
  have c: "conv_ok (rs_messages s)" using visits_ready [OF assms] by (simp add: node_ready_def)
  then have ok: "paired (rs_messages s)" "[] \<notin> set (call_ids (rs_messages s))" by (simp_all add: conv_ok_def ids_ok_def)
  with c show ?thesis using paired_clean [OF ok] by simp
qed

subsection \<open>The loop ends\<close>

definition node_rank :: "string \<Rightarrow> nat" where
  "node_rank i = (if i = ''think'' then 0 else if i = ''compress'' then 1 else if i = ''observe'' then 2 else 3)"

definition quiet_from :: "react_env \<Rightarrow> nat \<Rightarrow> bool" where
  "quiet_from R K \<longleftrightarrow> (\<forall>n model ms r. K \<le> n \<longrightarrow> rn_llm R n model ms = Inr r \<longrightarrow> lr_tool_calls r = [])"

lemma node_order:
  assumes "i \<in> set react_nodes" "react_node R i m s = Inr (s', nxt)" "next_node (react_compiled R) i s' nxt = Some t" "t \<noteq> END"
    and "i = ''observe'' \<Longrightarrow> rs_tool_calls s \<noteq> []"
  shows "t \<in> set react_nodes" "i = ''think'' \<Longrightarrow> t = ''act'' \<and> rs_tool_calls s' \<noteq> []"
    "i \<noteq> ''think'' \<Longrightarrow> node_rank t < node_rank i" "t = ''observe'' \<Longrightarrow> i = ''act''"
proof -
  have cont: "nxt = Continue" if ne: "i \<noteq> ''think''"
  proof -
    consider "i = ''act''" | "i = ''observe''" | "i = ''compress''" using assms(1) ne unfolding react_names by blast
    then show ?thesis
    proof cases
      case 1
      then have "act_node (rn_act R) m s = Inr (s', nxt)" using assms(2) by (simp add: react_node_def)
      then show ?thesis by (rule act_node_Inr)
    next
      case 2
      then show ?thesis using assms(2,5) by (auto simp: react_node_def observe_node_def observe_with_loop_def Let_def)
    next
      case 3
      then have "compress_node (rn_compaction R) (rn_summarize R) (rn_config R) m s = Inr (s', nxt)"
        using assms(2) by (simp add: react_node_def)
      then show ?thesis by (rule compress_node_from) (rule compact_node_continues)
    qed
  qed
  show "t \<in> set react_nodes" "i = ''think'' \<Longrightarrow> t = ''act'' \<and> rs_tool_calls s' \<noteq> []"
    "i \<noteq> ''think'' \<Longrightarrow> node_rank t < node_rank i" "t = ''observe'' \<Longrightarrow> i = ''act''"
  proof -
    consider "i = ''think''" "t = ''act''" "rs_tool_calls s' \<noteq> []" | "i = ''act''" "t = ''observe''"
      | "i = ''observe''" "t = ''compress''" | "i = ''compress''" "t = ''think''"
    proof -
      assume c: "i = ''think'' \<Longrightarrow> t = ''act'' \<Longrightarrow> rs_tool_calls s' \<noteq> [] \<Longrightarrow> thesis" "i = ''act'' \<Longrightarrow> t = ''observe'' \<Longrightarrow> thesis"
        "i = ''observe'' \<Longrightarrow> t = ''compress'' \<Longrightarrow> thesis" "i = ''compress'' \<Longrightarrow> t = ''think'' \<Longrightarrow> thesis"
      have "i = ''think'' \<or> i = ''act'' \<or> i = ''observe'' \<or> i = ''compress''" using assms(1) by (simp add: react_names)
      then show thesis
      proof (elim disjE)
        assume i: "i = ''think''"
        with assms(3,4) have "t = ''act'' \<and> rs_tool_calls s' \<noteq> []" by (simp add: react_next split: if_splits)
        with c(1) i show thesis by blast
      next
        assume i: "i = ''act''"
        with assms(3) cont have "t = ''observe''" by (simp add: react_next)
        with c(2) i show thesis by blast
      next
        assume i: "i = ''observe''"
        with assms(3) cont have "t = ''compress''" by (simp add: react_next)
        with c(3) i show thesis by blast
      next
        assume i: "i = ''compress''"
        with assms(3) cont have "t = ''think''" by (simp add: react_next)
        with c(4) i show thesis by blast
      qed
    qed
    then have "t \<in> set react_nodes \<and> (i = ''think'' \<longrightarrow> t = ''act'' \<and> rs_tool_calls s' \<noteq> []) \<and>
        (i \<noteq> ''think'' \<longrightarrow> node_rank t < node_rank i) \<and> (t = ''observe'' \<longrightarrow> i = ''act'')"
      by cases (simp_all add: react_nodes_def node_rank_def)
    then show "t \<in> set react_nodes" "i = ''think'' \<Longrightarrow> t = ''act'' \<and> rs_tool_calls s' \<noteq> []"
      "i \<noteq> ''think'' \<Longrightarrow> node_rank t < node_rank i" "t = ''observe'' \<Longrightarrow> i = ''act''" by blast+
  qed
qed

lemma backfill_length: "length (fst (backfill_call_ids fresh k tcs trs)) = length tcs"
  by (induction fresh k tcs trs rule: backfill_call_ids.induct) (simp_all add: case_prod_unfold Let_def)

lemma act_keeps_calls: "act_node A n s = Inr (s', nxt) \<Longrightarrow> rs_tool_calls s \<noteq> [] \<Longrightarrow> rs_tool_calls s' \<noteq> []"
proof (erule act_node_Inr)
  fix rs assume c: "rs_tool_calls s \<noteq> []"
    and s': "s' = s\<lparr>rs_tool_calls := fst (backfill_call_ids (\<lambda>k. ae_fresh A (n, k)) 0 (rs_tool_calls s) rs),
       rs_tool_results := snd (backfill_call_ids (\<lambda>k. ae_fresh A (n, k)) 0 (rs_tool_calls s) rs)\<rparr>"
  have "length (rs_tool_calls s') = length (rs_tool_calls s)" by (simp add: s' backfill_length)
  with c show "rs_tool_calls s' \<noteq> []" by (metis length_0_conv)
qed

text \<open>Every turn either ends the run or lowers this bound, as the number of the next call grows.\<close>

definition turns_left :: "nat \<Rightarrow> nat \<Rightarrow> string \<Rightarrow> nat" where
  "turns_left K n i = 4 * (K - n) + node_rank i"

lemma node_rank_le: "node_rank i \<le> 3"
  by (simp add: node_rank_def)

lemma react_loop_returns:
  assumes q: "quiet_from R K"
  shows "i \<in> set react_nodes \<Longrightarrow> (i = ''act'' \<or> i = ''observe'' \<Longrightarrow> rs_tool_calls s \<noteq> []) \<Longrightarrow>
    run_loop_inner (react_run_env fresh now) (react_compiled R) cancelled config p n i s w \<noteq> None"
proof (induction "turns_left K n i" arbitrary: p n i s rule: less_induct)
  case less
  let ?run = "run_loop_inner (react_run_env fresh now) (react_compiled R) cancelled config"
  let ?turn = "graph_turn (react_run_env fresh now) (react_compiled R) cancelled config p n i s w"
  have stop: ?case if "?turn = Stop e s' w'" for e s' w' using that by (subst run_loop_inner.simps) simp
  show ?case
  proof (rule react_turn_cases [where E = "react_run_env fresh now" and G = "react_compiled R" and i = i and cancelled = cancelled
      and config = config and p = p and n = n and s = s and w = w])
    show "map_of (cg_nodes (react_compiled R)) i = Some (react_node R i)" using less.prems(1) by (simp add: react_node_registered)
  next
    fix m s' nxt t assume x: "react_node R i m s = Inr (s', nxt)" "next_node (react_compiled R) i s' nxt = Some t" "t \<noteq> END"
      "n \<le> m" "?turn = GoOn t s' (m + 1)"
    note o = node_order [OF less.prems(1) x(1-3)]
    have calls: "i = ''observe'' \<Longrightarrow> rs_tool_calls s \<noteq> []" using less.prems(2) by blast
    have smaller: "turns_left K (m + 1) t < turns_left K n i"
    proof (cases "n < K")
      case True
      then show ?thesis using x(4) node_rank_le [of t] by (simp add: turns_left_def)
    next
      case False
      have "i \<noteq> ''think''"
      proof
        assume i: "i = ''think''"
        with x(1) have "think_node R m s = Inr (s', nxt)" by (simp add: react_node_def)
        then obtain model r where "rn_llm R m model (rs_messages s) = Inr r"
          "s' = apply_think (rn_fresh R m) (reply_content r) (lr_reasoning r) (lr_tool_calls r) (lr_usage r) s"
          by (rule think_Inr)
        moreover from this(1) have "lr_tool_calls r = []" using q False x(4) unfolding quiet_from_def by (meson leI le_trans)
        ultimately have "rs_tool_calls s' = []" by simp
        with o(2) calls i show False by blast
      qed
      with o(3) calls False x(4) show ?thesis by (simp add: turns_left_def)
    qed
    have "rs_tool_calls s' \<noteq> []" if "t = ''act'' \<or> t = ''observe''"
    proof (cases "i = ''think''")
      case True
      then show ?thesis using o(2) calls by blast
    next
      case False
      have "t \<noteq> ''act''"
      proof
        assume "t = ''act''"
        with o(3) calls False have "3 < node_rank i" by (simp add: node_rank_def)
        with node_rank_le [of i] show False by simp
      qed
      with that have "i = ''act''" using o(4) calls by blast
      with x(1) less.prems(2) show ?thesis by (intro act_keeps_calls [of "rn_act R" m s s' nxt]) (simp_all add: react_node_def)
    qed
    from less.hyps [OF smaller, of s' "p + 2"] o(1) calls this have "?run (p + 2) (m + 1) t s' w \<noteq> None" by blast
    then show ?case using x(5) by (subst run_loop_inner.simps) simp
  qed (use stop in simp_all)
qed

text \<open>C9: the loop ends. If from some call on the model asks for no more tools, the turn of the session returns,
  whatever the tools answer, however often calls fail, and whatever the compression does.\<close>

theorem react_turn_returns:
  assumes "quiet_from R K" "react_turn R fresh now cancelled msg prompt config w = Inr result"
  shows "result \<noteq> None"
proof -
  obtain s where "result = run_loop_inner (react_run_env fresh now) (react_compiled R) cancelled config 0 0 ''think'' s w"
    using assms(2) by (auto simp: react_turn_def react_stream_eq split: sum.splits)
  then show ?thesis using react_loop_returns [OF assms(1), of "''think''" s] by (simp add: react_names)
qed

subsection \<open>Examples\<close>

definition ex_reply :: "tool_call list \<Rightarrow> llm_response" where
  "ex_reply tcs = \<lparr>lr_content = ''hi'', lr_reasoning = None, lr_tool_calls = tcs, lr_usage = None, lr_finish_reason = None\<rparr>"

text \<open>A model that calls one tool, unless the conversation has a call already.\<close>

definition ex_react_env :: react_env where
  "ex_react_env =
     \<lparr>rn_provider_name = ''p'', rn_default_model = ''m'', rn_providers_known = (\<lambda>n. True), rn_resolve_tier = (\<lambda>n t. None),
      rn_llm = (\<lambda>n model ms. Inr (ex_reply (if n = 0 \<and> call_ids ms = [] then [ex_tc] else []))),
      rn_fresh = (\<lambda>n k. show_nat k), rn_cancelled = (\<lambda>n p. False), rn_stream_tools = False,
      rn_act = ex_act_env (\<lambda>_. False), rn_compaction = ex_compaction 3 5, rn_summarize = (\<lambda>n k. ex_llm),
      rn_config = default_config\<rparr>"

lemma ex_unique: "unique_ids ex_react_env"
  by (simp add: unique_ids_def ex_react_env_def ex_reply_def ex_tc_def tc_ids_def)

lemma ex_quiet: "quiet_from ex_react_env 1"
  by (simp add: quiet_from_def ex_react_env_def ex_reply_def)

definition ex_world :: "agent_state graph_world" where
  "ex_world = \<lparr>gw_saver = None, gw_drawn = 0\<rparr>"

lemma ex_turn_starts: "\<exists>result. react_turn ex_react_env show_nat (\<lambda>_. 0) (\<lambda>_. False) (User_Text ''go'') ''be brief'' None ex_world = Inr result"
  by (simp add: react_turn_def build_react_initial_state_def load_from_checkpoint_or_build_def ex_world_def)

lemma react_turn_returns_witness:
  "\<exists>result. react_turn ex_react_env show_nat (\<lambda>_. 0) (\<lambda>_. False) (User_Text ''go'') ''be brief'' None ex_world = Inr result \<and> result \<noteq> None"
  using ex_turn_starts react_turn_returns [OF ex_quiet] by blast

lemma session_keeps_conversations_witness:
  "\<exists>e s' w'. react_turn ex_react_env show_nat (\<lambda>_. 0) (\<lambda>_. False) (User_Text ''go'') ''be brief'' None ex_world = Inr (Some (e, s', w')) \<and>
     world_ok w' \<and> e \<noteq> Panicked"
proof -
  have "\<exists>r. react_turn ex_react_env show_nat (\<lambda>_. 0) (\<lambda>_. False) (User_Text ''go'') ''be brief'' None ex_world = Inr (Some r)"
    using react_loop_returns [OF ex_quiet, of "''think''"]
    by (simp add: react_turn_def build_react_initial_state_def load_from_checkpoint_or_build_def ex_world_def react_stream_eq react_names)
  then obtain e s' w' where
    "react_turn ex_react_env show_nat (\<lambda>_. 0) (\<lambda>_. False) (User_Text ''go'') ''be brief'' None ex_world = Inr (Some (e, s', w'))" by auto
  moreover have "world_ok ex_world" by (simp add: world_ok_def ex_world_def)
  ultimately show ?thesis using session_keeps_conversations [OF ex_unique] by blast
qed

text \<open>A whole round: the model asks for a tool, the tool is run and observed, the compression looks at the
  conversation, and the model is asked again.\<close>

lemma visits_next:
  assumes "react_visits R s0 i s" "i \<in> set react_nodes" "react_node R i n s = Inr (s', nxt)"
    and "next_node (react_compiled R) i s' nxt = Some t" "t \<noteq> END"
  shows "react_visits R s0 t s'"
proof (rule react_visits.step [OF assms(1)])
  show "graph_turn (react_run_env show_nat (\<lambda>_. 0)) (react_compiled R) (\<lambda>_. False) None 0 n i s \<lparr>gw_saver = None, gw_drawn = 0\<rparr> =
      GoOn t s' (n + 1)"
    using assms(3-5) by (simp add: graph_turn_def react_node_registered [OF assms(2)] no_retry_policy)
qed

lemma ex_act_answers: "\<exists>s'. act_node (ex_act_env (\<lambda>_. False)) n s = Inr (s', Continue)"
proof (cases "act_node (ex_act_env (\<lambda>_. False)) n s")
  case (Inl e)
  then show ?thesis using execute_calls_Inl [of "ex_act_env (\<lambda>_. False)" n 0 "rs_messages s" "rs_tool_calls s" 0 1 e]
    by (auto simp: act_node_def execute_turn_def ex_act_env_def simp del: One_nat_def split: if_splits sum.splits)
next
  case (Inr r)
  then obtain s' nxt where "act_node (ex_act_env (\<lambda>_. False)) n s = Inr (s', nxt)" by (cases r) auto
  moreover from this have "nxt = Continue" by (rule act_node_Inr)
  ultimately show ?thesis by blast
qed

lemma ex_compresses:
  assumes "length (rs_messages s) \<le> 5"
  shows "\<exists>s'. compress_node (ex_compaction 3 5) (\<lambda>n k. ex_llm) config n s = Inr (s', Continue) \<and>
    call_ids (rs_messages s') = call_ids (rs_messages s)"
proof -
  have "length (prune (ex_compaction 3 5) (rs_messages s)) = length (rs_messages s)"
    using prune_clears [of "ex_compaction 3 5" "rs_messages s"] by (metis length_clear_set)
  with assms have k: "compact ex_llm (ex_compaction 3 5) ms = Inr ms" if "ms = rs_messages s \<or> ms = prune (ex_compaction 3 5) (rs_messages s)" for ms
    using that by (auto simp: compact_def ex_compaction_def)
  show ?thesis by (simp add: compress_node_eq compact_twice_def compact_node_def pruned_state_def k prune_pending(2))
qed

lemma requests_are_complete_witness:
  "\<exists>s. react_visits ex_react_env (react_initial [User (User_Text ''go'')]) ''think'' s \<and>
     call_ids (rs_messages s) \<noteq> [] \<and> conv_ok (rs_messages s) \<and> sanitize_tool_call_ids show_nat (rs_messages s) = rs_messages s"
proof -
  let ?R = ex_react_env
  let ?s0 = "react_initial [User (User_Text ''go'')] :: agent_state"
  have ms: "rs_messages ?s0 = [User (User_Text ''go'')]" by (simp add: react_initial_def react_state_new_def)
  have ok: "conv_ok (rs_messages ?s0)" unfolding ms by (simp add: conv_ok_def paired_def ids_ok_def)
  let ?r = "ex_reply [ex_tc]"
  define s1 where "s1 = apply_think (rn_fresh ?R 0) (reply_content ?r) (lr_reasoning ?r) (lr_tool_calls ?r) (lr_usage ?r) ?s0"
  have think: "react_node ?R ''think'' 0 ?s0 = Inr (s1, Continue)"
    by (simp add: react_node_def think_node_def resolve_model_def ex_react_env_def s1_def react_initial_def react_state_new_def
        model_config_default_def)
  have s1: "rs_tool_calls s1 \<noteq> []" "length (rs_messages s1) = 2" "length (rs_tool_calls s1) = 1" "call_ids (rs_messages s1) \<noteq> []"
    by (simp_all add: s1_def ex_reply_def ex_tc_def reply_messages_def ms reply_call_ids tc_ids_def)
  have v1: "react_visits ?R ?s0 ''act'' s1"
    using visits_next [OF react_visits.start _ think] s1(1) by (simp add: react_names react_next react_nodes_not_END [symmetric])
  obtain s2 where s2: "act_node (ex_act_env (\<lambda>_. False)) 0 s1 = Inr (s2, Continue)" using ex_act_answers by blast
  have act: "react_node ?R ''act'' 0 s1 = Inr (s2, Continue)" using s2 by (simp add: react_node_def ex_react_env_def)
  have v2: "react_visits ?R ?s0 ''observe'' s2"
    using visits_next [OF v1 _ act] by (simp add: react_names react_next react_nodes_not_END [symmetric])
  have m2: "rs_messages s2 = rs_messages s1" "length (rs_tool_results s2) \<le> 1" "rs_tool_calls s2 \<noteq> []"
  proof -
    obtain rs where rs: "execute_calls (ex_act_env (\<lambda>_. False)) 0 0 (rs_messages s1) (rs_tool_calls s1) 0 1 = Inr rs"
      "s2 = s1\<lparr>rs_tool_calls := fst (backfill_call_ids (\<lambda>k. ae_fresh (ex_act_env (\<lambda>_. False)) (0, k)) 0 (rs_tool_calls s1) rs),
         rs_tool_results := snd (backfill_call_ids (\<lambda>k. ae_fresh (ex_act_env (\<lambda>_. False)) (0, k)) 0 (rs_tool_calls s1) rs)\<rparr>"
      by (rule act_node_Inr [OF s2])
    have "length rs = 1" using execute_calls_ids [OF rs(1)] s1(3) by (metis length_map)
    moreover have "length (rs_tool_results s2) = length rs"
      using arg_cong [OF backfill_obs(1), of length] by (simp add: rs(2))
    ultimately show "length (rs_tool_results s2) \<le> 1" by simp
    show "rs_messages s2 = rs_messages s1" by (simp add: rs(2))
    show "rs_tool_calls s2 \<noteq> []" using act_keeps_calls [OF s2 s1(1)] .
  qed
  obtain s3 where s3: "react_node ?R ''observe'' 0 s2 = Inr (s3, Continue)"
    "rs_messages s3 = rs_messages s2 @ observed_messages (rn_fresh ?R 0) (rs_tool_results s2)"
    using m2(3) by (simp add: react_node_def observe_node_def observe_with_loop_def Let_def)
  have v3: "react_visits ?R ?s0 ''compress'' s3"
    using visits_next [OF v2 _ s3(1)] by (simp add: react_names react_next react_nodes_not_END [symmetric])
  have m3: "length (rs_messages s3) \<le> 5" "call_ids (rs_messages s3) \<noteq> []"
    using m2 s1 by (simp_all add: s3(2) observed_messages_def)
  obtain s4 where s4: "react_node ?R ''compress'' 0 s3 = Inr (s4, Continue)" "call_ids (rs_messages s4) = call_ids (rs_messages s3)"
    using ex_compresses [OF m3(1), of default_config 0] by (auto simp: react_node_def ex_react_env_def)
  have v4: "react_visits ?R ?s0 ''think'' s4"
    using visits_next [OF v3 _ s4(1)] by (simp add: react_names react_next react_nodes_not_END [symmetric])
  have "call_ids (rs_messages s4) \<noteq> []" using s4(2) m3(2) by simp
  with v4 requests_are_complete [OF ex_unique ok v4] show ?thesis by blast
qed

end
