(* ===== verification/Chat_Request.thy ===== *)
theory Chat_Request
  imports Message_Pairing Tool_Registry
begin

text \<open>
  \<open>foundation/llm/src/client/openai_compat/request.rs\<close> and \<open>mod.rs\<close>: the request that is sent for a
  conversation. Floating-point settings are values of a type parameter, lower case is a parameter. The
  last part shows that a paired conversation whose calls have names makes a request the provider accepts.
\<close>

subsection \<open>The parts of a request\<close>

record big_model_tool_call =
  bm_id :: string
  bm_call_type :: string
  bm_name :: string
  bm_arguments :: string

record chat_message_request =
  cm_role :: string
  cm_content :: "json option"
  cm_tool_calls :: "big_model_tool_call list option"
  cm_tool_call_id :: "string option"
  cm_reasoning :: "string option"

record tool_spec_request =
  ts_type :: string
  ts_name :: string
  ts_description :: "string option"
  ts_parameters :: json

datatype tool_choice_mode = Choice_Auto | Choice_None | Choice_Required

record 'f chat_completion_request =
  cq_model :: string
  cq_messages :: "chat_message_request list"
  cq_stream :: bool
  cq_include_usage :: "bool option"
  cq_temperature :: "'f option"
  cq_max_tokens :: "u32 option"
  cq_top_p :: "'f option"
  cq_response_format :: "json option"
  cq_seed :: "u32 option"
  cq_tools :: "tool_spec_request list option"
  cq_tool_choice :: "string option"
  cq_reasoning_effort :: "string option"

subsection \<open>Messages\<close>

definition audio_format_from_media_type :: "string \<Rightarrow> string" where
  "audio_format_from_media_type media_type =
     (if media_type = ''audio/mpeg'' then ''mp3''
      else if media_type = ''audio/wav'' then ''wav''
      else if media_type = ''audio/mp4'' then ''m4a''
      else case rfind_sub ''/'' media_type of Some i \<Rightarrow> drop (i + 1) media_type | None \<Rightarrow> media_type)"

definition data_url :: "string \<Rightarrow> string \<Rightarrow> string" where
  "data_url media_type dat = ''data:'' @ media_type @ '';base64,'' @ dat"

definition opt_field :: "string \<Rightarrow> string option \<Rightarrow> (string \<times> json) list" where
  "opt_field k v = (case v of Some s \<Rightarrow> [(k, JStr s)] | None \<Rightarrow> [])"

definition typed_part :: "string \<Rightarrow> string \<Rightarrow> json \<Rightarrow> json" where
  "typed_part ty field v = json_object [(''type'', JStr ty), (field, v)]"

fun part_json :: "content_part \<Rightarrow> json" where
  "part_json (Part_Text t) = typed_part ''text'' ''text'' (JStr t)"
| "part_json (ImageUrl url detail) =
     typed_part ''image_url'' ''image_url'' (json_object ([(''url'', JStr url)] @ opt_field ''detail'' detail))"
| "part_json (ImageBase64 media_type dat) =
     typed_part ''image_url'' ''image_url'' (json_object [(''url'', JStr (data_url media_type dat))])"
| "part_json (AudioBase64 media_type dat) =
     typed_part ''input_audio'' ''input_audio''
       (json_object [(''data'', JStr dat), (''format'', JStr (audio_format_from_media_type media_type))])"
| "part_json (VideoUrl url) = typed_part ''video_url'' ''video_url'' (json_object [(''url'', JStr url)])"
| "part_json (VideoBase64 media_type dat) =
     typed_part ''input_video'' ''input_video'' (json_object [(''data'', JStr dat), (''format'', JStr media_type)])"
| "part_json (PdfUrl url) = typed_part ''file'' ''file'' (json_object [(''url'', JStr url)])"
| "part_json (PdfBase64 dat) =
     typed_part ''file'' ''file'' (json_object [(''data'', JStr dat), (''format'', JStr ''pdf'')])"
| "part_json (Part_File file_id file_data filename) =
     typed_part ''file'' ''file''
       (json_object (opt_field ''file_id'' file_id @ opt_field ''data'' file_data @ opt_field ''filename'' filename))"

fun user_json :: "user_content \<Rightarrow> json" where
  "user_json (User_Text s) = JStr s"
| "user_json (Multimodal parts) = JArr (map part_json parts)"

definition word_joiner :: string where
  "word_joiner = [CHR 0xE2, CHR 0x81, CHR 0xA0]"

definition assistant_content_for_chat_api :: "string \<Rightarrow> string" where
  "assistant_content_for_chat_api s = (if trim s = [] then word_joiner else s)"

definition plain_request :: "string \<Rightarrow> json \<Rightarrow> chat_message_request" where
  "plain_request role content =
     \<lparr>cm_role = role, cm_content = Some content, cm_tool_calls = None, cm_tool_call_id = None, cm_reasoning = None\<rparr>"

definition request_call :: "assistant_tool_call \<Rightarrow> big_model_tool_call" where
  "request_call tc =
     \<lparr>bm_id = atc_id tc, bm_call_type = ''function'', bm_name = atc_name tc, bm_arguments = atc_arguments tc\<rparr>"

definition assistant_request ::
    "bool \<Rightarrow> (nat \<Rightarrow> string) \<Rightarrow> nat \<Rightarrow> assistant_payload \<Rightarrow> chat_message_request \<times> nat" where
  "assistant_request use_space fresh n p =
     (case backfill_calls fresh n (filter (\<lambda>tc. atc_name tc \<noteq> []) (ap_tool_calls p)) of
        (valid, n') \<Rightarrow>
          (\<lparr>cm_role = ''assistant'',
            cm_content =
              (if valid = [] then
                 (let c = assistant_content_for_chat_api (ap_content p)
                  in Some (JStr (if use_space \<and> trim c = [] then '' '' else c)))
               else if trim (ap_content p) = [] then None
               else Some (JStr (ap_content p))),
            cm_tool_calls = (if valid = [] then None else Some (map request_call valid)),
            cm_tool_call_id = None, cm_reasoning = ap_reasoning p\<rparr>, n'))"

fun messages_to_request_from ::
    "bool \<Rightarrow> (nat \<Rightarrow> string) \<Rightarrow> nat \<Rightarrow> message list \<Rightarrow> chat_message_request list" where
  "messages_to_request_from use_space fresh n [] = []"
| "messages_to_request_from use_space fresh n (System s # ms) =
     plain_request ''system'' (JStr s) # messages_to_request_from use_space fresh n ms"
| "messages_to_request_from use_space fresh n (User c # ms) =
     plain_request ''user'' (user_json c) # messages_to_request_from use_space fresh n ms"
| "messages_to_request_from use_space fresh n (Assistant p # ms) =
     (case assistant_request use_space fresh n p of (r, n') \<Rightarrow> r # messages_to_request_from use_space fresh n' ms)"
| "messages_to_request_from use_space fresh n (Tool i c # ms) =
     (plain_request ''tool'' (JStr (to_display_string c)))\<lparr>cm_tool_call_id := Some i\<rparr> #
     messages_to_request_from use_space fresh n ms"

definition messages_to_request ::
    "(string \<Rightarrow> string) \<Rightarrow> (nat \<Rightarrow> string) \<Rightarrow> message list \<Rightarrow> string \<Rightarrow> chat_message_request list" where
  "messages_to_request lower fresh ms model =
     messages_to_request_from (starts_with ''kimi'' (lower model)) fresh 0 ms"

subsection \<open>The request\<close>

fun tool_choice_text :: "tool_choice_mode \<Rightarrow> string" where
  "tool_choice_text Choice_Auto = ''auto''"
| "tool_choice_text Choice_None = ''none''"
| "tool_choice_text Choice_Required = ''required''"

definition tool_request :: "tool_spec \<Rightarrow> tool_spec_request" where
  "tool_request t =
     \<lparr>ts_type = ''function'', ts_name = tp_name t, ts_description = tp_description t, ts_parameters = tp_input_schema t\<rparr>"

text \<open>The identifiers the sanitizer draws and those drawn while converting are two streams.\<close>

definition build_request_dto ::
    "(string \<Rightarrow> string) \<Rightarrow> (nat \<Rightarrow> string) \<Rightarrow> (nat \<Rightarrow> string) \<Rightarrow> string \<Rightarrow> message list \<Rightarrow> tool_spec list option \<Rightarrow> 'f option
     \<Rightarrow> tool_choice_mode option \<Rightarrow> string option \<Rightarrow> bool \<Rightarrow> 'f chat_completion_request" where
  "build_request_dto lower fresh fresh' model messages tools temperature tool_choice reasoning_effort stream =
     (let msgs = messages_to_request lower fresh' (sanitize_tool_call_ids fresh messages) model;
          has_tools = (case tools of Some ts \<Rightarrow> ts \<noteq> [] | None \<Rightarrow> False)
      in \<lparr>cq_model = model, cq_messages = msgs, cq_stream = stream,
          cq_include_usage = (if stream then Some True else None), cq_temperature = temperature, cq_max_tokens = None,
          cq_top_p = None, cq_response_format = None, cq_seed = None,
          cq_tools = (if has_tools then map_option (map tool_request) tools else None),
          cq_tool_choice = (if has_tools then map_option tool_choice_text tool_choice else None),
          cq_reasoning_effort =
            (case reasoning_effort of Some e \<Rightarrow> if e \<noteq> ''auto'' then Some e else None | None \<Rightarrow> None)\<rparr>)"

record llm_headers =
  lh_thread_id :: "string option"
  lh_trace_id :: "string option"
  lh_custom :: "(string \<times> string) list"

record 'f chat_openai_compat =
  co_base_url :: string
  co_model :: string
  co_tools :: "tool_spec list option"
  co_temperature :: "'f option"
  co_tool_choice :: "tool_choice_mode option"
  co_parse_thinking_tags :: bool
  co_headers :: "llm_headers option"
  co_reasoning_effort :: "string option"
  co_max_tokens :: "u32 option"
  co_top_p :: "'f option"
  co_response_format :: "json option"
  co_seed :: "u32 option"

definition with_config :: "string \<Rightarrow> string \<Rightarrow> 'f chat_openai_compat" where
  "with_config base_url model =
     \<lparr>co_base_url = base_url, co_model = model, co_tools = None, co_temperature = None, co_tool_choice = None,
      co_parse_thinking_tags = True, co_headers = None, co_reasoning_effort = None, co_max_tokens = None,
      co_top_p = None, co_response_format = None, co_seed = None\<rparr>"

definition build_request ::
    "(string \<Rightarrow> string) \<Rightarrow> (nat \<Rightarrow> string) \<Rightarrow> (nat \<Rightarrow> string) \<Rightarrow> 'f chat_openai_compat \<Rightarrow> message list \<Rightarrow> bool
     \<Rightarrow> 'f chat_completion_request" where
  "build_request lower fresh fresh' C messages stream =
     (build_request_dto lower fresh fresh' (co_model C) messages (co_tools C) (co_temperature C) (co_tool_choice C)
        (co_reasoning_effort C) stream)
     \<lparr>cq_max_tokens := co_max_tokens C, cq_top_p := co_top_p C, cq_response_format := co_response_format C,
      cq_seed := co_seed C\<rparr>"

definition chat_completions_url :: "'f chat_openai_compat \<Rightarrow> string" where
  "chat_completions_url C = rev (dropWhile (\<lambda>c. c = CHR ''/'') (rev (co_base_url C))) @ ''/chat/completions''"

definition request_headers :: "'f chat_openai_compat \<Rightarrow> string \<Rightarrow> (string \<times> string) list" where
  "request_headers C request_id =
     [(''X-Request-Id'', request_id)] @
     (case co_headers C of
        None \<Rightarrow> []
      | Some h \<Rightarrow>
          [(''X-App-Id'', ''anureo'')] @
          (case lh_thread_id h of Some t \<Rightarrow> [(''X-Thread-Id'', t)] | None \<Rightarrow> []) @
          (case lh_trace_id h of Some t \<Rightarrow> [(''X-Trace-Id'', t)] | None \<Rightarrow> []) @
          lh_custom h)"

subsection \<open>What the provider accepts\<close>

fun request_pending :: "string list \<Rightarrow> chat_message_request list \<Rightarrow> string list option" where
  "request_pending pend [] = Some pend"
| "request_pending pend (r # rs) =
     (if cm_role r = ''tool'' then
        (case pend of
           [] \<Rightarrow> None
         | j # js \<Rightarrow> if cm_tool_call_id r = Some j then request_pending js rs else None)
      else if pend \<noteq> [] then None
      else request_pending (case cm_tool_calls r of Some cs \<Rightarrow> map bm_id cs | None \<Rightarrow> []) rs)"

text \<open>What a message becomes in a request: its role and its text or parts as they are, a result with the
  identifier of its call, and of the assistant all calls and the reasoning. What an assistant says is carried unless it is
  blank: then there is no text beside calls, and a text that is not blank where there are none.\<close>

fun request_for :: "message \<Rightarrow> chat_message_request \<Rightarrow> bool" where
  "request_for (System s) r \<longleftrightarrow> r = plain_request ''system'' (JStr s)"
| "request_for (User c) r \<longleftrightarrow> r = plain_request ''user'' (user_json c)"
| "request_for (Tool i c) r \<longleftrightarrow> r = (plain_request ''tool'' (JStr (to_display_string c)))\<lparr>cm_tool_call_id := Some i\<rparr>"
| "request_for (Assistant p) r \<longleftrightarrow>
     cm_role r = ''assistant'' \<and> cm_tool_call_id r = None \<and> cm_reasoning r = ap_reasoning p \<and>
     cm_tool_calls r = (if ap_tool_calls p = [] then None else Some (map request_call (ap_tool_calls p))) \<and>
     (if trim (ap_content p) \<noteq> [] then cm_content r = Some (JStr (ap_content p))
      else if ap_tool_calls p \<noteq> [] then cm_content r = None
      else cm_content r = Some (JStr word_joiner))"

lemma word_joiner_trim: "trim word_joiner = word_joiner" by code_simp

lemma request_ids:
  assumes "\<forall>tc \<in> set (ap_tool_calls p). atc_name tc \<noteq> []" "[] \<notin> atc_id ` set (ap_tool_calls p)"
  shows "fst (assistant_request use_space fresh n p) =
      \<lparr>cm_role = ''assistant'', cm_content = cm_content (fst (assistant_request use_space fresh n p)),
       cm_tool_calls = (if ap_tool_calls p = [] then None else Some (map request_call (ap_tool_calls p))),
       cm_tool_call_id = None, cm_reasoning = ap_reasoning p\<rparr>"
proof -
  have "filter (\<lambda>tc. atc_name tc \<noteq> []) (ap_tool_calls p) = ap_tool_calls p" using assms(1) by (simp add: filter_id_conv)
  moreover have "backfill_calls fresh n (ap_tool_calls p) = (ap_tool_calls p, n)"
    using assms(2) by (intro backfill_calls_id) (metis image_eqI)
  ultimately show ?thesis by (simp add: assistant_request_def)
qed

lemma assistant_request_for:
  assumes "\<forall>tc \<in> set (ap_tool_calls p). atc_name tc \<noteq> []" "[] \<notin> atc_id ` set (ap_tool_calls p)"
  shows "request_for (Assistant p) (fst (assistant_request use_space fresh n p))"
proof -
  have "filter (\<lambda>tc. atc_name tc \<noteq> []) (ap_tool_calls p) = ap_tool_calls p" using assms(1) by (simp add: filter_id_conv)
  moreover have "backfill_calls fresh n (ap_tool_calls p) = (ap_tool_calls p, n)"
    using assms(2) by (intro backfill_calls_id) (metis image_eqI)
  moreover have "word_joiner \<noteq> []" by (simp add: word_joiner_def)
  ultimately show ?thesis
    by (simp add: assistant_request_def assistant_content_for_chat_api_def word_joiner_trim Let_def)
qed

lemma requests_for:
  assumes "[] \<notin> set (call_ids ms)" "\<forall>m \<in> set ms. \<forall>tc \<in> set (calls_of m). atc_name tc \<noteq> []"
  shows "list_all2 request_for ms (messages_to_request_from use_space fresh n ms)"
  using assms
proof (induction use_space fresh n ms rule: messages_to_request_from.induct)
  case (4 use_space fresh n p ms)
  obtain r n' where r: "assistant_request use_space fresh n p = (r, n')" by fastforce
  have "request_for (Assistant p) r" using assistant_request_for [of p use_space fresh n] 4(2,3) r by auto
  with 4(1) [OF r [symmetric]] 4(2,3) show ?case by (simp add: r del: request_for.simps)
qed simp_all

lemma request_pending_ok:
  assumes "run_pending pend ms = Some q" "[] \<notin> set (call_ids ms)"
    "\<forall>m \<in> set ms. \<forall>tc \<in> set (calls_of m). atc_name tc \<noteq> []"
  shows "request_pending pend (messages_to_request_from use_space fresh n ms) = Some q"
  using assms
proof (induction use_space fresh n ms arbitrary: pend rule: messages_to_request_from.induct)
  case (4 use_space fresh n p ms)
  obtain r n' where r: "assistant_request use_space fresh n p = (r, n')" by fastforce
  have e: "r = \<lparr>cm_role = ''assistant'', cm_content = cm_content r,
       cm_tool_calls = (if ap_tool_calls p = [] then None else Some (map request_call (ap_tool_calls p))),
       cm_tool_call_id = None, cm_reasoning = ap_reasoning p\<rparr>"
    using request_ids [of p use_space fresh n] 4(3,4) r by auto
  have c: "cm_role r = ''assistant''" "(case cm_tool_calls r of Some cs \<Rightarrow> map bm_id cs | None \<Rightarrow> []) = map atc_id (ap_tool_calls p)"
    by (subst e, simp add: request_call_def o_def)+
  have "pend = []" "run_pending (map atc_id (ap_tool_calls p)) ms = Some q"
    using 4(2) by (auto simp: bind_eq_Some_conv split: if_splits)
  with 4(1) [OF r [symmetric] this(2)] 4(3,4) c r show ?case by simp
qed (auto simp: bind_eq_Some_conv plain_request_def split: if_splits list.splits)

text \<open>C13: A conversation in which every call has a name and an identifier and is answered in order makes a request
  that the provider accepts: in the request too every result follows its call in order. Message by message the request
  says what the conversation says: the same role, the text or the parts as they are (empty ones too), each result with the
  identifier of its call, and of the assistant every call and the reasoning. Only blank text of the assistant is
  replaced: beside calls it is left out, and without calls a word joiner is sent, so that a message of the assistant is never
  without both text and calls.\<close>

theorem request_is_acceptable:
  assumes "paired ms" "[] \<notin> set (call_ids ms)" "\<forall>m \<in> set ms. \<forall>tc \<in> set (calls_of m). atc_name tc \<noteq> []"
  shows "request_pending [] (cq_messages (build_request lower fresh fresh' C ms stream)) = Some [] \<and>
    list_all2 request_for ms (cq_messages (build_request lower fresh fresh' C ms stream))"
proof -
  have s: "sanitize_tool_call_ids fresh ms = ms" using paired_clean [OF assms(1,2)] by simp
  have m: "cq_messages (build_request lower fresh fresh' C ms stream) = messages_to_request lower fresh' ms (co_model C)"
    by (simp add: build_request_def build_request_dto_def s Let_def)
  show ?thesis
    using request_pending_ok [OF _ assms(2,3)] assms(1) requests_for [OF assms(2,3)]
    unfolding m messages_to_request_def by (simp add: paired_def)
qed

theorem request_is_acceptable_witness:
  "request_pending [] (cq_messages (build_request (\<lambda>s. s) show_nat show_nat (with_config ''http://x'' ''m'' :: int chat_openai_compat)
     [User (User_Text ''go''), ex_asks [''c1''], ex_answer ''c1''] False)) = Some []"
proof -
  let ?ms = "[User (User_Text ''go''), ex_asks [''c1''], ex_answer ''c1'']"
  have "paired ?ms" "[] \<notin> set (call_ids ?ms)" "\<forall>m \<in> set ?ms. \<forall>tc \<in> set (calls_of m). atc_name tc \<noteq> []"
    by (simp_all add: paired_def ex_messages)
  from request_is_acceptable [OF this, where C = "with_config ''http://x'' ''m'' :: int chat_openai_compat"] show ?thesis by blast
qed

text \<open>A call without a name is left out of the request, and the result that answers it is not.\<close>

lemma nameless_call_orphans_result:
  "request_pending [] (messages_to_request lower fresh [Assistant \<lparr>ap_content = ''x'',
      ap_tool_calls = [\<lparr>atc_id = ''c1'', atc_name = [], atc_arguments = ''{}''\<rparr>], ap_reasoning = None\<rparr>, ex_answer ''c1''] model) = None"
  by (simp add: messages_to_request_def assistant_request_def plain_request_def ex_messages Let_def)

text \<open>The blank that the Kimi models are to get for an empty reply is never sent: what replaces an empty reply
  before is not blank.\<close>

lemma kimi_blank_never_sent: "assistant_request True fresh n p = assistant_request False fresh n p"
proof -
  have "trim (assistant_content_for_chat_api s) \<noteq> []" for s
    by (simp add: assistant_content_for_chat_api_def word_joiner_trim) (simp add: word_joiner_def)
  then show ?thesis by (simp add: assistant_request_def Let_def cong: if_cong)
qed

end
