(* ===== verification/Tool_Stream.thy ===== *)
theory Tool_Stream
  imports React_State
begin

text \<open>
  \<open>foundation/llm/src/support/tool_call_accumulator.rs\<close> and the \<open>ToolCallStreamForwarder\<close> of
  \<open>client/openai_compat/llm_client.rs\<close>: tool calls arrive in fragments, several calls at a time, each fragment
  with the index of its call. The accumulator puts the calls together for the agent, the forwarder shows
  them while they arrive. The hash maps are association lists in the order of insertion; the forwarder ends
  its calls in the order of the map, which is unspecified, so it is an argument. JSON is read and written by
  parameters.
\<close>

record json_env =
  je_parse :: "string \<Rightarrow> json option"
  je_text :: "json \<Rightarrow> string"

record raw_tool_call_delta =
  rd_index :: u32
  rd_id :: "string option"
  rd_name :: "string option"
  rd_arguments :: "string option"

subsection \<open>The accumulator\<close>

type_synonym acc_entry = "string \<times> string \<times> string"
type_synonym tool_call_accumulator = "(u32 \<times> acc_entry) list"

definition fallback_call_id :: "u32 \<Rightarrow> string" where
  "fallback_call_id index = ''stream_tool_'' @ show_nat (unat index)"

definition opt_str :: "string option \<Rightarrow> string" where
  "opt_str s = (case s of Some t \<Rightarrow> t | None \<Rightarrow> [])"

definition first_call_id :: "raw_tool_call_delta \<Rightarrow> string" where
  "first_call_id d = (if lacks_id (rd_id d) then fallback_call_id (rd_index d) else the (rd_id d))"

definition later_call_id :: "string \<Rightarrow> raw_tool_call_delta \<Rightarrow> string" where
  "later_call_id cur d =
     (case rd_id d of
        Some i \<Rightarrow> if i \<noteq> [] \<and> \<not> starts_with ''stream_tool_'' cur then i else cur
      | None \<Rightarrow> cur)"

definition acc_entry_push :: "raw_tool_call_delta \<Rightarrow> acc_entry \<Rightarrow> acc_entry" where
  "acc_entry_push d e =
     (case e of (i, name, args) \<Rightarrow> (later_call_id i d, name @ opt_str (rd_name d), args @ opt_str (rd_arguments d)))"

definition acc_push :: "raw_tool_call_delta \<Rightarrow> tool_call_accumulator \<Rightarrow> tool_call_accumulator" where
  "acc_push d acc =
     (let e = (case map_of acc (rd_index d) of Some e \<Rightarrow> e | None \<Rightarrow> (first_call_id d, [], []))
      in AList.update (rd_index d) (acc_entry_push d e) acc)"

definition acc_call_id :: "tool_call_accumulator \<Rightarrow> u32 \<Rightarrow> string option" where
  "acc_call_id acc index = map_option fst (map_of acc index)"

definition sanitize_arguments :: "json_env \<Rightarrow> string \<Rightarrow> string" where
  "sanitize_arguments J args =
     (if trim args = [] then ''{}''
      else if je_parse J (trim args) \<noteq> None then args
      else je_text J (json_object [(''_raw_args'', JStr args)]))"

definition acc_call :: "json_env \<Rightarrow> acc_entry \<Rightarrow> tool_call" where
  "acc_call J e =
     (case e of (i, name, args) \<Rightarrow> \<lparr>tc_id = Some i, tc_name = name, tc_arguments = sanitize_arguments J args\<rparr>)"

definition acc_finish :: "json_env \<Rightarrow> tool_call_accumulator \<Rightarrow> tool_call list" where
  "acc_finish J acc = map snd (sort_key fst (map (\<lambda>(index, e). (index, acc_call J e)) acc))"

definition acc_replace_from_vec :: "tool_call list \<Rightarrow> tool_call_accumulator" where
  "acc_replace_from_vec calls =
     fold (\<lambda>(i, tc) acc. AList.update (of_nat i) (opt_str (tc_id tc), tc_name tc, tc_arguments tc) acc) (enumerate 0 calls) []"

subsection \<open>The forwarder\<close>

datatype tool_call_chunk = Chunk_Started string string | Chunk_Delta string string | Chunk_Ended string string

record pending_tool_call =
  pt_call_id :: string
  pt_name :: string
  pt_arguments :: string
  pt_started :: bool

type_synonym tool_call_forwarder = "(u32 \<times> pending_tool_call) list"

definition pending_push :: "raw_tool_call_delta \<Rightarrow> pending_tool_call \<Rightarrow> tool_call_chunk list \<times> pending_tool_call" where
  "pending_push d p0 =
     (let p = p0\<lparr>pt_name := pt_name p0 @ opt_str (rd_name d), pt_arguments := pt_arguments p0 @ opt_str (rd_arguments d)\<rparr>
      in if \<not> pt_started p \<and> pt_name p \<noteq> [] then
           ([Chunk_Started (pt_call_id p) (pt_name p)] @
              (if pt_arguments p \<noteq> [] then [Chunk_Delta (pt_call_id p) (pt_arguments p)] else []), p\<lparr>pt_started := True\<rparr>)
         else if pt_started p then
           (case rd_arguments d of Some a \<Rightarrow> ([Chunk_Delta (pt_call_id p) a], p) | None \<Rightarrow> ([], p))
         else ([], p))"

definition forwarder_push :: "raw_tool_call_delta \<Rightarrow> tool_call_forwarder \<Rightarrow> tool_call_chunk list \<times> tool_call_forwarder" where
  "forwarder_push d fwd =
     (let p = (case map_of fwd (rd_index d) of
            Some p \<Rightarrow> p
          | None \<Rightarrow> \<lparr>pt_call_id = first_call_id d, pt_name = [], pt_arguments = [], pt_started = False\<rparr>)
      in case pending_push d p of (chunks, p') \<Rightarrow> (chunks, AList.update (rd_index d) p' fwd))"

definition forwarder_finish :: "(u32 list \<Rightarrow> u32 list) \<Rightarrow> tool_call_forwarder \<Rightarrow> tool_call_chunk list" where
  "forwarder_finish order fwd =
     map (\<lambda>p. Chunk_Ended (pt_call_id p) (pt_arguments p))
       (filter pt_started (map (\<lambda>i. the (map_of fwd i)) (order (map fst fwd))))"

fun forward_all :: "tool_call_forwarder \<Rightarrow> raw_tool_call_delta list \<Rightarrow> tool_call_chunk list \<times> tool_call_forwarder" where
  "forward_all fwd [] = ([], fwd)"
| "forward_all fwd (d # ds) =
     (case forwarder_push d fwd of (cs, fwd') \<Rightarrow> case forward_all fwd' ds of (cs', fwd'') \<Rightarrow> (cs @ cs', fwd''))"

subsection \<open>What the accumulator puts together\<close>

text \<open>The fragments of one call, and the call they make.\<close>

definition deltas_of :: "u32 \<Rightarrow> raw_tool_call_delta list \<Rightarrow> raw_tool_call_delta list" where
  "deltas_of index ds = filter (\<lambda>d. rd_index d = index) ds"

definition whole_arguments :: "raw_tool_call_delta list \<Rightarrow> string" where
  "whole_arguments ds = concat (map (opt_str \<circ> rd_arguments) ds)"

definition whole_name :: "raw_tool_call_delta list \<Rightarrow> string" where
  "whole_name ds = concat (map (opt_str \<circ> rd_name) ds)"

definition whole_entry :: "raw_tool_call_delta list \<Rightarrow> acc_entry" where
  "whole_entry ds =
     (foldl later_call_id (first_call_id (hd ds)) ds, whole_name ds, whole_arguments ds)"

lemma deltas_of_simps [simp]:
  "deltas_of i [] = []" "deltas_of i (ds @ es) = deltas_of i ds @ deltas_of i es"
  "deltas_of i (d # ds) = (if rd_index d = i then d # deltas_of i ds else deltas_of i ds)"
  by (simp_all add: deltas_of_def)

lemma deltas_of_empty: "deltas_of i ds = [] \<longleftrightarrow> i \<notin> rd_index ` set ds"
  by (auto simp: deltas_of_def filter_empty_conv)

lemma acc_push_lookup:
  "map_of (acc_push d acc) i =
     (if i = rd_index d
      then Some (acc_entry_push d (case map_of acc (rd_index d) of Some e \<Rightarrow> e | None \<Rightarrow> (first_call_id d, [], [])))
      else map_of acc i)"
  by (simp add: acc_push_def Let_def)

lemma whole_entry_snoc:
  "acc_entry_push d (if es = [] then (first_call_id d, [], []) else whole_entry es) = whole_entry (es @ [d])"
  by (simp add: acc_entry_push_def whole_entry_def whole_arguments_def whole_name_def)

lemma acc_lookup:
  "map_of (fold acc_push ds []) i = (if deltas_of i ds = [] then None else Some (whole_entry (deltas_of i ds)))"
proof (induction ds arbitrary: i rule: rev_induct)
  case (snoc d ds)
  let ?acc = "fold acc_push ds []" and ?es = "deltas_of (rd_index d) ds"
  have e: "(case map_of ?acc (rd_index d) of Some e \<Rightarrow> e | None \<Rightarrow> (first_call_id d, [], [])) =
      (if ?es = [] then (first_call_id d, [], []) else whole_entry ?es)" unfolding snoc by simp
  have "map_of (fold acc_push (ds @ [d]) []) i = map_of (acc_push d ?acc) i" by simp
  also have "\<dots> = (if i = rd_index d then Some (whole_entry (?es @ [d])) else map_of ?acc i)"
    unfolding acc_push_lookup e whole_entry_snoc by simp
  finally show ?case using snoc [of i] by simp
qed simp

lemma acc_keys: "fst ` set (fold acc_push ds acc) = fst ` set acc \<union> rd_index ` set ds"
  by (induction ds arbitrary: acc) (auto simp: acc_push_def Let_def dom_update)

lemma acc_distinct: "distinct (map fst acc) \<Longrightarrow> distinct (map fst (fold acc_push ds acc))"
  by (induction ds arbitrary: acc) (simp_all add: acc_push_def Let_def distinct_update)

lemma sort_by_key_unique:
  fixes xs :: "('k::linorder \<times> 'v) list"
  assumes "distinct (map fst xs)" "\<And>k v. (k, v) \<in> set xs \<Longrightarrow> v = f k"
  shows "sort_key fst xs = map (\<lambda>k. (k, f k)) (sorted_list_of_set (fst ` set xs))"
proof -
  let ?ys = "sort_key fst xs"
  have "distinct (map fst ?ys)" using assms(1) by (metis distinct_sort distinct_map set_sort)
  then have "sorted_list_of_set (set (map fst ?ys)) = map fst ?ys"
    by (intro sorted_list_of_set.idem_if_sorted_distinct) simp_all
  moreover have "map (\<lambda>k. (k, f k)) (map fst ?ys) = ?ys"
    unfolding map_map by (rule map_idI) (auto dest: assms(2))
  ultimately show ?thesis by simp
qed

lemma acc_finish_eq:
  "acc_finish J (fold acc_push ds []) =
   map (\<lambda>i. acc_call J (whole_entry (deltas_of i ds))) (sorted_list_of_set (rd_index ` set ds))"
proof -
  let ?acc = "fold acc_push ds []" and ?f = "\<lambda>i. acc_call J (whole_entry (deltas_of i ds))"
  let ?xs = "map (\<lambda>(index, e). (index, acc_call J e)) ?acc"
  have d: "distinct (map fst ?acc)" by (simp add: acc_distinct)
  have k: "map fst ?xs = map fst ?acc" by auto
  have v: "v = ?f k" if "(k, v) \<in> set ?xs" for k v
  proof -
    from that obtain p where "p \<in> set ?acc" "(k, v) = (\<lambda>(index, e). (index, acc_call J e)) p"
      unfolding set_map by blast
    then have e: "(k, snd p) \<in> set ?acc" "v = acc_call J (snd p)" by (simp_all add: case_prod_beta)
    then have "map_of ?acc k = Some (snd p)" using d by simp
    then show ?thesis using e(2) by (simp add: acc_lookup split: if_splits)
  qed
  have "set (map fst ?xs) = rd_index ` set ds" unfolding k using acc_keys [of ds "[]"] by simp
  then have "fst ` set ?xs = rd_index ` set ds" by (simp only: set_map)
  with sort_by_key_unique [of ?xs ?f, unfolded k, OF d v]
  have "sort_key fst ?xs = map (\<lambda>k. (k, ?f k)) (sorted_list_of_set (rd_index ` set ds))" by simp
  then show ?thesis unfolding acc_finish_def by (simp add: o_def)
qed

subsection \<open>What the forwarder shows\<close>

fun pending_all :: "raw_tool_call_delta list \<Rightarrow> pending_tool_call \<Rightarrow> tool_call_chunk list \<times> pending_tool_call" where
  "pending_all [] p = ([], p)"
| "pending_all (d # ds) p =
     (case pending_push d p of (cs, p') \<Rightarrow> case pending_all ds p' of (cs', p'') \<Rightarrow> (cs @ cs', p''))"

fun chunk_call_id :: "tool_call_chunk \<Rightarrow> string" where
  "chunk_call_id (Chunk_Started i n) = i"
| "chunk_call_id (Chunk_Delta i a) = i"
| "chunk_call_id (Chunk_Ended i a) = i"

lemma opt_str_simps [simp]: "opt_str None = []" "opt_str (Some t) = t"
  by (simp_all add: opt_str_def)

lemma whole_arguments_simps [simp]:
  "whole_arguments [] = []" "whole_arguments (d # ds) = opt_str (rd_arguments d) @ whole_arguments ds"
  by (simp_all add: whole_arguments_def)

lemma whole_name_simps [simp]:
  "whole_name [] = []" "whole_name (d # ds) = opt_str (rd_name d) @ whole_name ds"
  by (simp_all add: whole_name_def)

text \<open>Once a call is shown every fragment of its arguments is.\<close>

lemma pending_started:
  "pending_all ds p = (cs, p') \<Longrightarrow> pt_started p \<Longrightarrow>
   pt_started p' \<and> pt_call_id p' = pt_call_id p \<and> pt_arguments p' = pt_arguments p @ whole_arguments ds \<and>
   (\<exists>ps. cs = map (Chunk_Delta (pt_call_id p)) ps \<and> concat ps = whole_arguments ds)"
proof (induction ds arbitrary: p cs)
  case (Cons d ds)
  obtain cs1 p1 cs2 where a: "pending_push d p = (cs1, p1)" "pending_all ds p1 = (cs2, p')" "cs = cs1 @ cs2"
    using Cons.prems(1) by (auto split: prod.splits)
  have p1: "pt_started p1" "pt_call_id p1 = pt_call_id p" "pt_arguments p1 = pt_arguments p @ opt_str (rd_arguments d)"
    "cs1 = map (Chunk_Delta (pt_call_id p)) (case rd_arguments d of Some x \<Rightarrow> [x] | None \<Rightarrow> [])"
    using a(1) Cons.prems(2) by (auto simp: pending_push_def Let_def split: option.splits)
  obtain ps where ps: "cs2 = map (Chunk_Delta (pt_call_id p)) ps" "concat ps = whole_arguments ds"
    using Cons.IH [OF a(2) p1(1)] p1(2) by auto
  have "cs = map (Chunk_Delta (pt_call_id p)) ((case rd_arguments d of Some x \<Rightarrow> [x] | None \<Rightarrow> []) @ ps)"
    "concat ((case rd_arguments d of Some x \<Rightarrow> [x] | None \<Rightarrow> []) @ ps) = whole_arguments (d # ds)"
    using a(3) p1(4) ps by (auto split: option.splits)
  with Cons.IH [OF a(2) p1(1)] p1(2,3) show ?case by fastforce
qed auto

lemma pending_from_start:
  "pending_all ds p = (cs, p') \<Longrightarrow> \<not> pt_started p \<Longrightarrow> pt_name p = [] \<Longrightarrow>
   pt_call_id p' = pt_call_id p \<and> pt_arguments p' = pt_arguments p @ whole_arguments ds \<and>
   (if whole_name ds = [] then \<not> pt_started p' \<and> cs = []
    else pt_started p' \<and> (\<exists>n ps m. cs = Chunk_Started (pt_call_id p) n # map (Chunk_Delta (pt_call_id p)) ps \<and> n \<noteq> [] \<and>
      whole_name ds = n @ m \<and> concat ps = pt_arguments p'))"
proof (induction ds arbitrary: p cs)
  case (Cons d ds)
  obtain cs1 p1 cs2 where a: "pending_push d p = (cs1, p1)" "pending_all ds p1 = (cs2, p')" "cs = cs1 @ cs2"
    using Cons.prems(1) by (auto split: prod.splits)
  show ?case
  proof (cases "opt_str (rd_name d) = []")
    case True
    then have p1: "cs1 = []" "\<not> pt_started p1" "pt_name p1 = []" "pt_call_id p1 = pt_call_id p"
      "pt_arguments p1 = pt_arguments p @ opt_str (rd_arguments d)"
      using a(1) Cons.prems by (auto simp: pending_push_def Let_def)
    show ?thesis using Cons.IH [OF a(2) p1(2,3)] p1 a(3) True by auto
  next
    case False
    then have p1: "cs1 = Chunk_Started (pt_call_id p) (opt_str (rd_name d)) #
          (if pt_arguments p1 \<noteq> [] then [Chunk_Delta (pt_call_id p) (pt_arguments p1)] else [])"
      "pt_started p1" "pt_call_id p1 = pt_call_id p" "pt_arguments p1 = pt_arguments p @ opt_str (rd_arguments d)"
      using a(1) Cons.prems by (auto simp: pending_push_def Let_def)
    obtain ps where ps: "cs2 = map (Chunk_Delta (pt_call_id p)) ps" "concat ps = whole_arguments ds"
      and p': "pt_started p'" "pt_call_id p' = pt_call_id p" "pt_arguments p' = pt_arguments p1 @ whole_arguments ds"
      using pending_started [OF a(2) p1(2)] p1(3) by auto
    let ?ps = "(if pt_arguments p1 \<noteq> [] then [pt_arguments p1] else []) @ ps"
    have "cs = Chunk_Started (pt_call_id p) (opt_str (rd_name d)) # map (Chunk_Delta (pt_call_id p)) ?ps"
      "concat ?ps = pt_arguments p'" using a(3) p1(1) ps p'(3) by auto
    then have "\<exists>n ps m. cs = Chunk_Started (pt_call_id p) n # map (Chunk_Delta (pt_call_id p)) ps \<and> n \<noteq> [] \<and>
        whole_name (d # ds) = n @ m \<and> concat ps = pt_arguments p'"
      using False by (intro exI [of _ "opt_str (rd_name d)"] exI [of _ ?ps] exI [of _ "whole_name ds"]) simp
    with False p' p1(4) show ?thesis by simp
  qed
qed auto

text \<open>The chunks with the index of their call.\<close>

fun forward_tagged :: "tool_call_forwarder \<Rightarrow> raw_tool_call_delta list \<Rightarrow> (u32 \<times> tool_call_chunk) list" where
  "forward_tagged fwd [] = []"
| "forward_tagged fwd (d # ds) =
     (case forwarder_push d fwd of (cs, fwd') \<Rightarrow> map (Pair (rd_index d)) cs @ forward_tagged fwd' ds)"

definition pending_new :: "raw_tool_call_delta \<Rightarrow> pending_tool_call" where
  "pending_new d = \<lparr>pt_call_id = first_call_id d, pt_name = [], pt_arguments = [], pt_started = False\<rparr>"

definition pending_at :: "tool_call_forwarder \<Rightarrow> u32 \<Rightarrow> raw_tool_call_delta list \<Rightarrow> pending_tool_call" where
  "pending_at fwd i ds = (case map_of fwd i of Some p \<Rightarrow> p | None \<Rightarrow> pending_new (hd ds))"

definition chunks_at :: "u32 \<Rightarrow> (u32 \<times> tool_call_chunk) list \<Rightarrow> tool_call_chunk list" where
  "chunks_at i tcs = map snd (filter (\<lambda>tc. fst tc = i) tcs)"

lemma chunks_at_simps [simp]:
  "chunks_at i [] = []" "chunks_at i (xs @ ys) = chunks_at i xs @ chunks_at i ys"
  "chunks_at i (map (Pair j) cs) = (if i = j then cs else [])"
  by (auto simp: chunks_at_def filter_map o_def)

lemma forwarder_push_eq:
  "forwarder_push d fwd =
     (case pending_push d (pending_at fwd (rd_index d) [d]) of (cs, p) \<Rightarrow> (cs, AList.update (rd_index d) p fwd))"
  unfolding forwarder_push_def pending_at_def pending_new_def list.sel(1) Let_def ..

lemma forward_all_tagged: "forward_all fwd ds = (cs, fwd') \<Longrightarrow> cs = map snd (forward_tagged fwd ds)"
  by (induction ds arbitrary: fwd cs) (auto simp: o_def split: prod.splits)

lemma forward_keys:
  "forward_all fwd ds = (cs, fwd') \<Longrightarrow> distinct (map fst fwd) \<Longrightarrow>
   distinct (map fst fwd') \<and> fst ` set fwd' = fst ` set fwd \<union> rd_index ` set ds"
proof (induction ds arbitrary: fwd cs)
  case (Cons d ds)
  obtain cs1 fwd1 cs2 where a: "forwarder_push d fwd = (cs1, fwd1)" "forward_all fwd1 ds = (cs2, fwd')"
    using Cons.prems(1) by (auto split: prod.splits)
  then obtain p where "fwd1 = AList.update (rd_index d) p fwd" by (auto simp: forwarder_push_eq split: prod.splits)
  then have "distinct (map fst fwd1)" "fst ` set fwd1 = insert (rd_index d) (fst ` set fwd)"
    using Cons.prems(2) by (simp_all add: dom_update)
  with Cons.IH [OF a(2)] show ?case by simp
qed simp

text \<open>Seen from one call the others do not matter.\<close>

lemma forward_one_call:
  "forward_all fwd ds = (cs, fwd') \<Longrightarrow> deltas_of i ds \<noteq> [] \<Longrightarrow>
   \<exists>p. map_of fwd' i = Some p \<and>
       pending_all (deltas_of i ds) (pending_at fwd i (deltas_of i ds)) = (chunks_at i (forward_tagged fwd ds), p)"
proof (induction ds arbitrary: fwd cs)
  case (Cons d ds)
  obtain cs1 fwd1 cs2 where a: "forwarder_push d fwd = (cs1, fwd1)" "forward_all fwd1 ds = (cs2, fwd')"
    using Cons.prems(1) by (auto split: prod.splits)
  obtain p1 where p1: "pending_push d (pending_at fwd (rd_index d) [d]) = (cs1, p1)" "fwd1 = AList.update (rd_index d) p1 fwd"
    using a(1) by (auto simp: forwarder_push_eq split: prod.splits)
  show ?case
  proof (cases "rd_index d = i")
    case False
    then have "deltas_of i ds \<noteq> []" "pending_at fwd1 i es = pending_at fwd i es" for es
      using Cons.prems(2) p1(2) by (simp_all add: pending_at_def)
    with Cons.IH [OF a(2)] False a(1) show ?thesis by simp
  next
    case True
    have p0: "pending_at fwd i (d # es) = pending_at fwd i [d]" for es
      unfolding pending_at_def list.sel(1) ..
    have at1: "pending_at fwd1 i es = p1" for es using p1(2) True by (simp add: pending_at_def)
    show ?thesis
    proof (cases "deltas_of i ds = []")
      case True
      have "map_of fwd' i = map_of fwd1 i \<and> chunks_at i (forward_tagged fwd1 ds) = []" using a(2) True
      proof (induction ds arbitrary: fwd1 cs2)
        case (Cons e es)
        then show ?case by (auto simp: forwarder_push_eq split: prod.splits if_splits)
      qed simp
      then show ?thesis using \<open>rd_index d = i\<close> True p1 a(1) by simp
    next
      case False
      from Cons.IH [OF a(2) this] show ?thesis using True p1(1) a(1) at1 p0 [of "deltas_of i ds"] by auto
    qed
  qed
qed simp

subsection \<open>The calls\<close>

text \<open>The calls the agent gets are those of the stream, in the order of their indices, each put together from
  its own fragments in the order they came: how the fragments of different calls are mixed does not matter.\<close>

theorem accumulated_calls:
  "acc_finish J (fold acc_push ds []) =
   map (\<lambda>i. acc_call J (whole_entry (filter (\<lambda>d. rd_index d = i) ds))) (sorted_list_of_set (rd_index ` set ds))"
  unfolding acc_finish_eq deltas_of_def ..

text \<open>What a well-behaved provider sends: one identifier for each call, and different ones for different
  calls.\<close>

definition ids_stable :: "raw_tool_call_delta list \<Rightarrow> bool" where
  "ids_stable ds \<longleftrightarrow>
     (\<forall>d \<in> set ds. lacks_id (rd_id d) \<or> the (rd_id d) = first_call_id (hd (deltas_of (rd_index d) ds)) \<or>
       starts_with ''stream_tool_'' (first_call_id (hd (deltas_of (rd_index d) ds))))"

definition ids_distinct :: "raw_tool_call_delta list \<Rightarrow> bool" where
  "ids_distinct ds \<longleftrightarrow> distinct (map (\<lambda>i. first_call_id (hd (deltas_of i ds))) (remdups (map rd_index ds)))"

lemma stable_call_id:
  assumes "ids_stable ds"
  shows "foldl later_call_id (first_call_id (hd (deltas_of i ds))) (deltas_of i ds) = first_call_id (hd (deltas_of i ds))"
proof -
  let ?c = "first_call_id (hd (deltas_of i ds))"
  have "foldl later_call_id ?c es = ?c" if "set es \<subseteq> set (deltas_of i ds)" for es
    using that
  proof (induction es)
    case (Cons d es)
    then have "d \<in> set ds" "rd_index d = i" by (auto simp: deltas_of_def)
    with assms have "later_call_id ?c d = ?c"
      by (auto simp: ids_stable_def later_call_id_def lacks_id_def split: option.splits)
    with Cons show ?case by simp
  qed simp
  then show ?thesis by simp
qed

lemma distinct_call_ids:
  assumes "ids_distinct ds" "i \<in> rd_index ` set ds" "j \<in> rd_index ` set ds"
    "first_call_id (hd (deltas_of i ds)) = first_call_id (hd (deltas_of j ds))"
  shows "i = j"
  using assms by (auto simp: ids_distinct_def distinct_map inj_on_def)

lemma pending_chunk_ids:
  assumes "pending_all ds p = (cs, p')" "\<not> pt_started p" "pt_name p = []" "c \<in> set cs"
  shows "chunk_call_id c = pt_call_id p"
  using pending_from_start [OF assms(1-3)] assms(4) by (auto split: if_splits)

lemma single_filter:
  assumes "distinct xs" "x \<in> set xs" "\<And>y. y \<in> set xs \<Longrightarrow> P y \<longleftrightarrow> y = x"
  shows "filter P xs = [x]"
  using assms
proof (induction xs)
  case (Cons y ys)
  show ?case
  proof (cases "y = x")
    case True
    with Cons.prems(1,3) have "filter P ys = []" by (auto simp: filter_empty_conv)
    with True Cons.prems(3) show ?thesis by simp
  next
    case False
    with Cons show ?thesis by simp
  qed
qed simp

lemma filter_chunks_at:
  assumes "\<And>j c. (j, c) \<in> set tcs \<Longrightarrow> P c \<longleftrightarrow> j = i"
  shows "filter P (map snd tcs) = chunks_at i tcs"
proof -
  have "filter (P \<circ> snd) tcs = filter (\<lambda>tc. fst tc = i) tcs"
    by (rule filter_cong) (use assms in auto)
  then show ?thesis by (simp add: chunks_at_def filter_map)
qed

text \<open>The calls that are ended, in any order of the map.\<close>

lemma ended_chunk:
  assumes "distinct (order (map fst fwd))" "i \<in> set (order (map fst fwd))" "map_of fwd i = Some p"
    and "\<And>j q. map_of fwd j = Some q \<Longrightarrow> j \<in> set (order (map fst fwd)) \<Longrightarrow> pt_call_id q = cid \<Longrightarrow> j = i"
    and "pt_call_id p = cid" "\<And>j. j \<in> set (order (map fst fwd)) \<Longrightarrow> map_of fwd j \<noteq> None"
  shows "filter (\<lambda>c. chunk_call_id c = cid) (forwarder_finish order fwd) =
    (if pt_started p then [Chunk_Ended cid (pt_arguments p)] else [])"
proof -
  let ?P = "\<lambda>j. pt_started (the (map_of fwd j)) \<and> pt_call_id (the (map_of fwd j)) = cid"
  have e: "filter (\<lambda>c. chunk_call_id c = cid) (forwarder_finish order fwd) =
      map (\<lambda>j. Chunk_Ended (pt_call_id (the (map_of fwd j))) (pt_arguments (the (map_of fwd j)))) (filter ?P (order (map fst fwd)))"
    by (simp add: forwarder_finish_def filter_map o_def conj_commute)
  have u: "?P j \<longleftrightarrow> j = i \<and> pt_started p" if "j \<in> set (order (map fst fwd))" for j
    using assms(3,5,6) assms(4) [of j "the (map_of fwd j)"] that by auto
  show ?thesis
  proof (cases "pt_started p")
    case True
    then have "filter ?P (order (map fst fwd)) = [i]" using u by (intro single_filter assms(1,2)) auto
    then show ?thesis using True assms(3,5) unfolding e by simp
  next
    case False
    then have "filter ?P (order (map fst fwd)) = []" using u by (auto simp: filter_empty_conv)
    then show ?thesis using False unfolding e by simp
  qed
qed

lemma forwarded_call:
  assumes "forward_all [] ds = (cs, fwd)" "i \<in> rd_index ` set ds"
  obtains p where "map_of fwd i = Some p"
    "pending_all (deltas_of i ds) (pending_new (hd (deltas_of i ds))) = (chunks_at i (forward_tagged [] ds), p)"
proof -
  have "deltas_of i ds \<noteq> []" using assms(2) by (simp add: deltas_of_empty)
  from forward_one_call [OF assms(1) this] that show ?thesis by (auto simp: pending_at_def)
qed

lemma tagged_index: "(j, c) \<in> set (forward_tagged fwd ds) \<Longrightarrow> j \<in> rd_index ` set ds"
  by (induction ds arbitrary: fwd) (auto split: prod.splits)

text \<open>C22: What is shown of a call while it arrives is what the agent runs. When the provider sends one identifier
  for each call, each call with a name is announced once under the identifier it is run with and a first
  part of its name, then come its arguments piece by piece, and it is ended once with all of them, whatever
  the order in which the fragments of the calls are mixed and the calls are ended.\<close>

theorem shown_calls_are_run_calls:
  assumes "ids_stable ds" "ids_distinct ds"
    and "distinct (order (map fst fwd)) \<and> set (order (map fst fwd)) = set (map fst fwd)"
    and "forward_all [] ds = (chunks, fwd)"
    and "tc \<in> set (acc_finish J (fold acc_push ds []))" "tc_name tc \<noteq> []"
  shows "\<exists>cid n m ps. tc_id tc = Some cid \<and> tc_name tc = n @ m \<and> n \<noteq> [] \<and>
    tc_arguments tc = sanitize_arguments J (concat ps) \<and>
    filter (\<lambda>c. chunk_call_id c = cid) (chunks @ forwarder_finish order fwd) =
      Chunk_Started cid n # map (Chunk_Delta cid) ps @ [Chunk_Ended cid (concat ps)]"
proof -
  let ?first = "\<lambda>i. first_call_id (hd (deltas_of i ds))"
  obtain i where i: "i \<in> rd_index ` set ds" "tc = acc_call J (whole_entry (deltas_of i ds))"
    using assms(5) unfolding acc_finish_eq by auto
  let ?es = "deltas_of i ds"
  have tc: "tc_id tc = Some (?first i)" "tc_name tc = whole_name ?es" "tc_arguments tc = sanitize_arguments J (whole_arguments ?es)"
    using i(2) stable_call_id [OF assms(1)] by (simp_all add: acc_call_def whole_entry_def)
  obtain p where p: "map_of fwd i = Some p" "pending_all ?es (pending_new (hd ?es)) = (chunks_at i (forward_tagged [] ds), p)"
    using forwarded_call [OF assms(4) i(1)] by blast
  obtain n ps m where n: "chunks_at i (forward_tagged [] ds) = Chunk_Started (?first i) n # map (Chunk_Delta (?first i)) ps"
    "n \<noteq> []" "whole_name ?es = n @ m" "concat ps = whole_arguments ?es"
    and started: "pt_started p" "pt_call_id p = ?first i" "pt_arguments p = whole_arguments ?es"
    using pending_from_start [OF p(2)] assms(6) tc(2) by (auto simp: pending_new_def split: if_splits)
  have id_at: "chunk_call_id c = ?first j" if "(j, c) \<in> set (forward_tagged [] ds)" for j c
  proof -
    have j: "j \<in> rd_index ` set ds" using tagged_index [OF that] .
    obtain q where q: "pending_all (deltas_of j ds) (pending_new (hd (deltas_of j ds))) = (chunks_at j (forward_tagged [] ds), q)"
      using forwarded_call [OF assms(4) j] by blast
    have "c \<in> set (chunks_at j (forward_tagged [] ds))" using that by (force simp: chunks_at_def)
    from pending_chunk_ids [OF q _ _ this] show ?thesis by (simp add: pending_new_def)
  qed
  have "filter (\<lambda>c. chunk_call_id c = ?first i) chunks = chunks_at i (forward_tagged [] ds)"
    unfolding forward_all_tagged [OF assms(4)]
    by (rule filter_chunks_at) (metis id_at tagged_index distinct_call_ids [OF assms(2)] i(1))
  moreover have "filter (\<lambda>c. chunk_call_id c = ?first i) (forwarder_finish order fwd) = [Chunk_Ended (?first i) (whole_arguments ?es)]"
  proof -
    have keys: "set (order (map fst fwd)) = rd_index ` set ds"
      using assms(3) forward_keys [OF assms(4)] by simp
    have "j = i" if "map_of fwd j = Some q" "j \<in> set (order (map fst fwd))" "pt_call_id q = ?first i" for j q
    proof -
      have j: "j \<in> rd_index ` set ds" using that(2) keys by simp
      obtain q' where q': "map_of fwd j = Some q'"
        "pending_all (deltas_of j ds) (pending_new (hd (deltas_of j ds))) = (chunks_at j (forward_tagged [] ds), q')"
        using forwarded_call [OF assms(4) j] by blast
      have "pt_call_id q' = ?first j" using pending_from_start [OF q'(2)] by (simp add: pending_new_def)
      moreover have "q = q'" using that(1) q'(1) by (metis option.inject)
      ultimately have "?first j = ?first i" using that(3) by metis
      then show ?thesis by (rule distinct_call_ids [OF assms(2) j i(1)])
    qed
    moreover have "map_of fwd j \<noteq> None" if "j \<in> set (order (map fst fwd))" for j
      using that assms(3) by (metis set_keys_map_of)
    moreover have "distinct (order (map fst fwd))" "i \<in> set (order (map fst fwd))" using assms(3) keys i(1) by auto
    ultimately show ?thesis using ended_chunk [where cid = "?first i" and p = p] p(1) started by metis
  qed
  ultimately show ?thesis using n tc by (intro exI [of _ "?first i"] exI [of _ n] exI [of _ m] exI [of _ ps]) simp
qed

definition ex_deltas :: "raw_tool_call_delta list" where
  "ex_deltas =
     [\<lparr>rd_index = 1, rd_id = Some ''b'', rd_name = Some ''read'', rd_arguments = None\<rparr>,
      \<lparr>rd_index = 0, rd_id = Some ''a'', rd_name = Some ''ls'', rd_arguments = Some ''{''\<rparr>,
      \<lparr>rd_index = 1, rd_id = None, rd_name = None, rd_arguments = Some ''{}''\<rparr>,
      \<lparr>rd_index = 0, rd_id = None, rd_name = None, rd_arguments = Some ''}''\<rparr>]"

definition ex_json :: json_env where
  "ex_json = \<lparr>je_parse = (\<lambda>s. if s = ''{}'' then Some (JObj []) else None), je_text = (\<lambda>_. ''?'')\<rparr>"

lemma ex_deltas_ok: "ids_stable ex_deltas" "ids_distinct ex_deltas" by code_simp+

lemma ex_deltas_calls: "acc_finish ex_json (fold acc_push ex_deltas []) =
  [\<lparr>tc_id = Some ''a'', tc_name = ''ls'', tc_arguments = ''{}''\<rparr>, \<lparr>tc_id = Some ''b'', tc_name = ''read'', tc_arguments = ''{}''\<rparr>]"
proof -
  have t: "trim ''{}'' = ''{}''" by code_simp
  show ?thesis
    by (simp add: acc_finish_def ex_deltas_def acc_push_def acc_entry_push_def first_call_id_def later_call_id_def lacks_id_def
        starts_with_def acc_call_def sanitize_arguments_def t ex_json_def)
qed

theorem shown_calls_are_run_calls_witness:
  "\<exists>n m ps. ''ls'' = n @ m \<and> n \<noteq> [] \<and> filter (\<lambda>c. chunk_call_id c = ''a'')
     (fst (forward_all [] ex_deltas) @ forwarder_finish rev (snd (forward_all [] ex_deltas))) =
     Chunk_Started ''a'' n # map (Chunk_Delta ''a'') ps @ [Chunk_Ended ''a'' (concat ps)]"
proof -
  let ?tc = "\<lparr>tc_id = Some ''a'', tc_name = ''ls'', tc_arguments = ''{}''\<rparr> :: tool_call"
  obtain cs fwd where f: "forward_all [] ex_deltas = (cs, fwd)" by fastforce
  have o: "distinct (rev (map fst fwd)) \<and> set (rev (map fst fwd)) = set (map fst fwd)"
    using forward_keys [OF f] by simp
  have "?tc \<in> set (acc_finish ex_json (fold acc_push ex_deltas []))" unfolding ex_deltas_calls by simp
  from shown_calls_are_run_calls [where order = rev, OF ex_deltas_ok o f this] show ?thesis using f by auto
qed

text \<open>The identifiers that are made up start anew with every reply: two calls of different turns get the same
  one, so the conversation has the identifier twice.\<close>

lemma fallback_ids_repeat:
  "acc_finish J (fold acc_push [\<lparr>rd_index = 0, rd_id = None, rd_name = Some n, rd_arguments = None\<rparr>] []) =
   [\<lparr>tc_id = Some ''stream_tool_0'', tc_name = n, tc_arguments = ''{}''\<rparr>]"
proof -
  have "show_nat 0 = ''0''" "trim [] = []" by code_simp+
  then show ?thesis
    by (simp add: acc_finish_def acc_push_def acc_entry_push_def first_call_id_def later_call_id_def lacks_id_def
        acc_call_def sanitize_arguments_def fallback_call_id_def)
qed

text \<open>When the provider changes the identifier of a call the two sides part: the viewer is shown a call that is
  never run under that identifier.\<close>

lemma changed_id_parts_sides:
  "acc_call_id (fold acc_push [\<lparr>rd_index = 0, rd_id = Some ''a'', rd_name = Some ''ls'', rd_arguments = None\<rparr>,
      \<lparr>rd_index = 0, rd_id = Some ''b'', rd_name = None, rd_arguments = Some ''{}''\<rparr>] []) 0 = Some ''b''"
  "fst (forward_all [] [\<lparr>rd_index = 0, rd_id = Some ''a'', rd_name = Some ''ls'', rd_arguments = None\<rparr>,
      \<lparr>rd_index = 0, rd_id = Some ''b'', rd_name = None, rd_arguments = Some ''{}''\<rparr>]) =
     [Chunk_Started ''a'' ''ls'', Chunk_Delta ''a'' ''{}'']"
  by (simp_all add: acc_call_id_def acc_push_def acc_entry_push_def first_call_id_def later_call_id_def lacks_id_def
      starts_with_def forwarder_push_def pending_push_def)

end
