(* ===== verification/Chunked_Input.thy ===== *)
theory Chunked_Input
  imports Rust_Text
begin

text \<open>
  Readers of a stream that arrives in chunks: a step takes a chunk and gives the output that is certain by
  now, keeping the rest for later. \<open>meaning s xs\<close> is what the reader would put out in all when \<open>xs\<close> were the
  whole rest of the stream. The law says that a step puts out a part of the meaning and keeps what is
  missing; from it the output does not depend on how the stream was cut.
\<close>

locale chunk_reader =
  fixes step :: "'s \<Rightarrow> 'i list \<Rightarrow> 'o list \<times> 's"
    and meaning :: "'s \<Rightarrow> 'i list \<Rightarrow> 'o list"
  assumes step_meaning: "step s xs = (out, s') \<Longrightarrow> meaning s (xs @ rest) = out @ meaning s' rest"
begin

fun read_chunks :: "'s \<Rightarrow> 'i list list \<Rightarrow> 'o list \<times> 's" where
  "read_chunks s [] = ([], s)"
| "read_chunks s (c # cs) =
     (case step s c of (out, s') \<Rightarrow> case read_chunks s' cs of (outs, s'') \<Rightarrow> (out @ outs, s''))"

lemma read_chunks_meaning:
  "read_chunks s cs = (outs, s') \<Longrightarrow> meaning s (concat cs @ rest) = outs @ meaning s' rest"
proof (induction cs arbitrary: s outs)
  case (Cons c cs)
  obtain out s1 where a: "step s c = (out, s1)" by fastforce
  obtain outs' where b: "read_chunks s1 cs = (outs', s')" "outs = out @ outs'"
    using Cons.prems by (auto simp: a split: prod.splits)
  show ?case using step_meaning [OF a, of "concat cs @ rest"] Cons.IH [OF b(1)] b(2) by simp
qed simp

lemma chunking_irrelevant:
  assumes "read_chunks s cs = (outs, s1)" "read_chunks s ds = (outs', s2)" "concat cs = concat ds"
  shows "outs @ meaning s1 [] = outs' @ meaning s2 []"
  using read_chunks_meaning [OF assms(1), of "[]"] read_chunks_meaning [OF assms(2), of "[]"] assms(3) by simp

end

end
