(* ===== verification/Thinking_Tags.thy ===== *)
theory Thinking_Tags
  imports Chunked_Input
begin

text \<open>
  \<open>foundation/llm/src/support/thinking.rs\<close>: the parser that separates reasoning from the reply while the
  reply arrives in pieces, and the functions that remove tags from a complete reply. Every slice is at the
  place of a match or at a character boundary, so none of them panics.
\<close>

definition THINKING_START :: string where
  "THINKING_START = ''<think>''"

definition THINKING_END :: string where
  "THINKING_END = ''</think>''"

definition REASONING_TAGS :: "(string \<times> string) list" where
  "REASONING_TAGS =
     [(THINKING_START, THINKING_END), (''<thinking>'', ''</thinking>''), (''<reasoning>'', ''</reasoning>''),
      (''<REASONING_SCRATCHPAD>'', ''</REASONING_SCRATCHPAD>''), (''<thought>'', ''</thought>'')]"

definition TOOL_TAGS :: "(string \<times> string) list" where
  "TOOL_TAGS =
     [(''<tool_call>'', ''</tool_call>''), (''<tool_calls>'', ''</tool_calls>''), (''<tool_result>'', ''</tool_result>''),
      (''<function_call>'', ''</function_call>''), (''<function_calls>'', ''</function_calls>'')]"

datatype thinking_segment = Seg_Message string | Seg_Thinking string

subsection \<open>The incremental parser\<close>

datatype thinking_parse_state = Outside | Inside

record thinking_tag_parser =
  tp_buf :: string
  tp_state :: thinking_parse_state

definition thinking_tag_parser_new :: thinking_tag_parser where
  "thinking_tag_parser_new = \<lparr>tp_buf = [], tp_state = Outside\<rparr>"

fun other_state :: "thinking_parse_state \<Rightarrow> thinking_parse_state" where
  "other_state Outside = Inside"
| "other_state Inside = Outside"

fun state_tag :: "thinking_parse_state \<Rightarrow> string" where
  "state_tag Outside = THINKING_START"
| "state_tag Inside = THINKING_END"

fun segment :: "thinking_parse_state \<Rightarrow> string \<Rightarrow> thinking_segment list" where
  "segment Outside s = (if s = [] then [] else [Seg_Message s])"
| "segment Inside s = (if s = [] then [] else [Seg_Thinking s])"

lemma state_tag_nonempty [simp]: "state_tag st \<noteq> []"
  by (cases st) (simp_all add: THINKING_START_def THINKING_END_def)

text \<open>The two branches of the loop differ in the tag they look for and the kind of the segment.\<close>

function feed_loop :: "thinking_parse_state \<Rightarrow> string \<Rightarrow> thinking_segment list \<times> thinking_tag_parser" where
  "feed_loop st buf =
     (case find_sub (state_tag st) buf of
        Some i \<Rightarrow>
          (case feed_loop (other_state st) (drop (i + length (state_tag st)) buf) of
             (segments, p) \<Rightarrow> (segment st (take i buf) @ segments, p))
      | None \<Rightarrow>
          let keep = floor_char_boundary buf (length buf - (length (state_tag st) - 1))
          in (segment st (take keep buf), \<lparr>tp_buf = drop keep buf, tp_state = st\<rparr>))"
  by pat_completeness auto
termination
proof (relation "measure (length \<circ> snd)")
  fix st :: thinking_parse_state and buf :: string and i
  assume "find_sub (state_tag st) buf = Some i"
  from find_sub_split(2) [OF this]
  show "((other_state st, drop (i + length (state_tag st)) buf), st, buf) \<in> measure (length \<circ> snd)"
    by (cases "state_tag st") auto
qed simp

declare feed_loop.simps [simp del]

definition feed :: "thinking_tag_parser \<Rightarrow> string \<Rightarrow> thinking_segment list \<times> thinking_tag_parser" where
  "feed p delta = (if delta = [] then ([], p) else feed_loop (tp_state p) (tp_buf p @ delta))"

definition flush :: "thinking_tag_parser \<Rightarrow> thinking_segment list" where
  "flush p = segment (tp_state p) (tp_buf p)"

fun feed_all :: "thinking_tag_parser \<Rightarrow> string list \<Rightarrow> thinking_segment list \<times> thinking_tag_parser" where
  "feed_all p [] = ([], p)"
| "feed_all p (d # ds) =
     (case feed p d of (segs, p') \<Rightarrow> case feed_all p' ds of (segs', p'') \<Rightarrow> (segs @ segs', p''))"

subsection \<open>What it should put out\<close>

text \<open>The reply as a whole: every byte but those of the tags, marked as reply or reasoning.\<close>

function split_tags :: "thinking_parse_state \<Rightarrow> string \<Rightarrow> (thinking_parse_state \<times> char) list" where
  "split_tags st s =
     (case find_sub (state_tag st) s of
        Some i \<Rightarrow> map (Pair st) (take i s) @ split_tags (other_state st) (drop (i + length (state_tag st)) s)
      | None \<Rightarrow> map (Pair st) s)"
  by pat_completeness auto
termination
proof (relation "measure (length \<circ> snd)")
  fix st :: thinking_parse_state and s :: string and i
  assume "find_sub (state_tag st) s = Some i"
  from find_sub_split(2) [OF this]
  show "((other_state st, drop (i + length (state_tag st)) s), st, s) \<in> measure (length \<circ> snd)"
    by (cases "state_tag st") auto
qed simp

declare split_tags.simps [simp del]

fun marked :: "thinking_segment \<Rightarrow> (thinking_parse_state \<times> char) list" where
  "marked (Seg_Message s) = map (Pair Outside) s"
| "marked (Seg_Thinking s) = map (Pair Inside) s"

abbreviation all_marked :: "thinking_segment list \<Rightarrow> (thinking_parse_state \<times> char) list" where
  "all_marked segs \<equiv> concat (map marked segs)"

lemma marked_segment [simp]: "all_marked (segment st s) = map (Pair st) s"
  by (cases st) auto

subsection \<open>Searching in a text that grows\<close>

lemma occurs_at_append: "i + length p \<le> length s \<Longrightarrow> occurs_at p (s @ t) i = occurs_at p s i"
  by (auto simp: occurs_at_def)

lemma occurs_at_bound: "occurs_at p s i \<Longrightarrow> i + length p \<le> length s"
  by (auto simp: occurs_at_split)

lemma occurs_at_drop: "k \<le> i \<Longrightarrow> k \<le> length s \<Longrightarrow> occurs_at p s i = occurs_at p (drop k s) (i - k)"
  by (auto simp: occurs_at_def)

lemma find_sub_append:
  assumes "find_sub p s = Some i"
  shows "find_sub p (s @ t) = Some i"
proof -
  have b: "i + length p \<le> length s" using find_sub_split(2) [OF assms] .
  have "occurs_at p (s @ t) j = occurs_at p s j" if "j \<le> i" for j
    using that b by (intro occurs_at_append) simp
  then show ?thesis using assms by (simp add: find_sub_Some)
qed

text \<open>What is certain when no tag was found: all but one byte less than a tag.\<close>

lemma find_sub_suffix:
  assumes "find_sub p s = None" "p \<noteq> []" "k \<le> length s - (length p - 1)"
  shows "find_sub p (s @ t) = map_option ((+) k) (find_sub p (drop k s @ t))"
proof -
  have k: "k \<le> length s" using assms(3) by simp
  have "\<not> occurs_at p (s @ t) j" if "j < k" for j
  proof -
    have "j + length p \<le> length s" using that assms(2,3) by (cases p) auto
    then show ?thesis using assms(1) by (simp add: occurs_at_append find_sub_None)
  qed
  then have ge: "occurs_at p (s @ t) j \<longleftrightarrow> k \<le> j \<and> occurs_at p (drop k s @ t) (j - k)" for j
    using occurs_at_drop [of k j "s @ t" p] k by (cases "k \<le> j") auto
  show ?thesis
  proof (cases "find_sub p (drop k s @ t)")
    case None
    then have "find_sub p (s @ t) = None" by (simp add: find_sub_None ge)
    then show ?thesis using None by simp
  next
    case (Some i)
    then have "find_sub p (s @ t) = Some (k + i)"
      by (simp add: find_sub_Some ge)
    then show ?thesis using Some by simp
  qed
qed

lemma split_tags_skip:
  assumes "find_sub (state_tag st) s = None" "k \<le> length s - (length (state_tag st) - 1)"
  shows "split_tags st (s @ t) = map (Pair st) (take k s) @ split_tags st (drop k s @ t)"
proof -
  have k: "length (take k s) = k" using assms(2) by simp
  define u where "u = drop k s @ t"
  have st: "s @ t = take k s @ u" by (simp add: u_def)
  have "take (k + i) (take k s @ u) = take k s @ take i u" "drop (k + i + n) (take k s @ u) = drop (i + n) u" for i n
    using k by simp_all
  with find_sub_suffix [OF assms(1) state_tag_nonempty assms(2), of t] show ?thesis
    unfolding st u_def [symmetric] split_tags.simps [of st "take k s @ u"] split_tags.simps [of st u]
    by (auto split: option.splits)
qed

subsection \<open>The law of the parser\<close>

definition parser_meaning :: "thinking_tag_parser \<Rightarrow> string \<Rightarrow> (thinking_parse_state \<times> char) list" where
  "parser_meaning p rest = split_tags (tp_state p) (tp_buf p @ rest)"

definition parser_step :: "thinking_tag_parser \<Rightarrow> string \<Rightarrow> (thinking_parse_state \<times> char) list \<times> thinking_tag_parser" where
  "parser_step p delta = (case feed p delta of (segs, p') \<Rightarrow> (all_marked segs, p'))"

lemma feed_loop_meaning:
  "feed_loop st buf = (segs, p) \<Longrightarrow>
   split_tags st (buf @ rest) = all_marked segs @ parser_meaning p rest \<and> find_sub (state_tag (tp_state p)) (tp_buf p) = None"
proof (induction st buf arbitrary: segs rule: feed_loop.induct)
  case (1 st buf)
  show ?case
  proof (cases "find_sub (state_tag st) buf")
    case None
    let ?k = "floor_char_boundary buf (length buf - (length (state_tag st) - 1))"
    have k: "?k \<le> length buf - (length (state_tag st) - 1)" by (rule floor_char_boundary_le) simp
    then have f: "find_sub (state_tag st) (drop ?k buf) = None"
      using find_sub_suffix [OF None state_tag_nonempty k, of "[]"] None by simp
    show ?thesis using 1(2) None split_tags_skip [OF None k, of rest] f
      by (auto simp: feed_loop.simps [of st buf] parser_meaning_def Let_def)
  next
    case (Some i)
    obtain segs' where l: "feed_loop (other_state st) (drop (i + length (state_tag st)) buf) = (segs', p)"
      "segs = segment st (take i buf) @ segs'"
      using 1(2) Some by (auto simp: feed_loop.simps [of st buf] split: prod.splits)
    have b: "i + length (state_tag st) \<le> length buf" using find_sub_split(2) [OF Some] .
    have "split_tags st (buf @ rest) =
        map (Pair st) (take i buf) @ split_tags (other_state st) (drop (i + length (state_tag st)) buf @ rest)"
      unfolding split_tags.simps [of st "buf @ rest"] find_sub_append [OF Some] using b by simp
    with 1(1) [OF Some l(1)] l(2) show ?thesis by simp
  qed
qed

interpretation tags: chunk_reader parser_step parser_meaning
proof
  fix p delta out p' rest
  assume a: "parser_step p delta = (out, p')"
  show "parser_meaning p (delta @ rest) = out @ parser_meaning p' rest"
  proof (cases "delta = []")
    case True
    then show ?thesis using a by (auto simp: parser_step_def feed_def)
  next
    case False
    then obtain segs where s: "feed_loop (tp_state p) (tp_buf p @ delta) = (segs, p')" "out = all_marked segs"
      using a by (auto simp: parser_step_def feed_def split: prod.splits)
    from feed_loop_meaning [OF s(1)] s(2) show ?thesis by (simp add: parser_meaning_def)
  qed
qed

lemma feed_all_chunks: "feed_all p ds = (segs, p') \<Longrightarrow> tags.read_chunks p ds = (all_marked segs, p')"
  by (induction ds arbitrary: p segs) (auto simp: parser_step_def split: prod.splits)

lemma feed_keeps_no_tag:
  assumes "feed p d = (segs, p')" "find_sub (state_tag (tp_state p)) (tp_buf p) = None"
  shows "find_sub (state_tag (tp_state p')) (tp_buf p') = None"
proof (cases "d = []")
  case False
  with assms(1) have "feed_loop (tp_state p) (tp_buf p @ d) = (segs, p')" by (simp add: feed_def)
  from feed_loop_meaning [OF this] show ?thesis by simp
qed (use assms in \<open>simp add: feed_def\<close>)

lemma feed_all_keeps_no_tag:
  "feed_all p ds = (segs, p') \<Longrightarrow> find_sub (state_tag (tp_state p)) (tp_buf p) = None \<Longrightarrow>
   find_sub (state_tag (tp_state p')) (tp_buf p') = None"
  by (induction ds arbitrary: p segs) (auto split: prod.splits dest: feed_keeps_no_tag)

lemma new_parser: "find_sub (state_tag (tp_state thinking_tag_parser_new)) (tp_buf thinking_tag_parser_new) = None"
  by (simp add: thinking_tag_parser_new_def THINKING_START_def)

lemma feed_all_split:
  "all_marked (fst (feed_all thinking_tag_parser_new ds) @ flush (snd (feed_all thinking_tag_parser_new ds))) =
   split_tags Outside (concat ds)"
proof -
  obtain segs p where f: "feed_all thinking_tag_parser_new ds = (segs, p)" by fastforce
  have "flush p = segment (tp_state p) (tp_buf p)" by (simp add: flush_def)
  moreover have "parser_meaning p [] = map (Pair (tp_state p)) (tp_buf p)"
    using feed_all_keeps_no_tag [OF f new_parser] by (simp add: parser_meaning_def split_tags.simps)
  ultimately show ?thesis
    using tags.read_chunks_meaning [OF feed_all_chunks [OF f], of "[]"] f
    by (simp add: parser_meaning_def thinking_tag_parser_new_def)
qed

subsection \<open>Complete replies\<close>

text \<open>The two tables are the only ones \<open>strip_paired_tags\<close> is called with. Closers before the next opener are
  dropped pair by pair, each search going on where the one before has ended. A closer is never empty.\<close>

datatype tag_table = Reasoning_Tags | Tool_Tags

fun tag_pairs :: "tag_table \<Rightarrow> (string \<times> string) list" where
  "tag_pairs Reasoning_Tags = REASONING_TAGS"
| "tag_pairs Tool_Tags = TOOL_TAGS"

function drop_closer :: "string \<Rightarrow> string \<Rightarrow> string \<times> string" where
  "drop_closer closer scan =
     (if closer = [] then ([], scan)
      else case find_sub closer scan of
        Some j \<Rightarrow> (case drop_closer closer (drop (j + length closer) scan) of (d, r) \<Rightarrow> (take j scan @ d, r))
      | None \<Rightarrow> ([], scan))"
  by pat_completeness auto
termination
proof (relation "measure (length \<circ> snd)")
  fix closer scan :: string and j
  assume "closer \<noteq> []" "find_sub closer scan = Some j"
  from this(1) find_sub_split(2) [OF this(2)]
  show "((closer, drop (j + length closer) scan), closer, scan) \<in> measure (length \<circ> snd)"
    by (cases closer) auto
qed simp

declare drop_closer.simps [simp del]

fun drop_orphans :: "(string \<times> string) list \<Rightarrow> string \<Rightarrow> string" where
  "drop_orphans [] scan = scan"
| "drop_orphans ((_, closer) # pairs) scan = (case drop_closer closer scan of (d, r) \<Rightarrow> d @ drop_orphans pairs r)"

fun earliest_opener :: "(string \<times> string) list \<Rightarrow> string \<Rightarrow> (nat \<times> string \<times> string) option" where
  "earliest_opener [] s = None"
| "earliest_opener ((opener, closer) # pairs) s =
     (case (find_sub opener s, earliest_opener pairs s) of
        (None, r) \<Rightarrow> r
      | (Some i, Some (j, oc)) \<Rightarrow> if i \<le> j then Some (i, opener, closer) else Some (j, oc)
      | (Some i, None) \<Rightarrow> Some (i, opener, closer))"

lemma earliest_opener_some:
  "earliest_opener pairs s = Some (i, opener, closer) \<Longrightarrow> find_sub opener s = Some i \<and> (opener, closer) \<in> set pairs"
  by (induction pairs) (auto split: option.splits if_splits)

lemma tag_pairs_nonempty: "(opener, closer) \<in> set (tag_pairs t) \<Longrightarrow> opener \<noteq> [] \<and> closer \<noteq> []"
  by (cases t) (auto simp: REASONING_TAGS_def TOOL_TAGS_def THINKING_START_def THINKING_END_def)

function strip_paired_tags :: "tag_table \<Rightarrow> string \<Rightarrow> string" where
  "strip_paired_tags t rest =
     (case earliest_opener (tag_pairs t) rest of
        None \<Rightarrow> rest
      | Some (i, opener, closer) \<Rightarrow>
          let after_open = drop (i + length opener) rest
          in drop_orphans (tag_pairs t) (take i rest) @
             (case find_sub closer after_open of
                Some j \<Rightarrow> strip_paired_tags t (drop (j + length closer) after_open)
              | None \<Rightarrow> []))"
  by pat_completeness auto
termination
proof (relation "measure (length \<circ> snd)")
  fix t :: tag_table and rest after_open opener closer :: string and x :: "nat \<times> string \<times> string" and y i j
  assume a: "earliest_opener (tag_pairs t) rest = Some x" "(i, y) = x" "(opener, closer) = y"
    "after_open = drop (i + length opener) rest"
  then have "find_sub opener rest = Some i" "opener \<noteq> []"
    using earliest_opener_some [of "tag_pairs t" rest i opener closer] tag_pairs_nonempty by auto
  with find_sub_split(2) [OF this(1)]
  show "((t, drop (j + length closer) after_open), t, rest) \<in> measure (length \<circ> snd)"
    using a(4) by (cases opener) auto
qed simp

declare strip_paired_tags.simps [simp del]

definition strip_reasoning_and_tool_tags :: "string \<Rightarrow> string" where
  "strip_reasoning_and_tool_tags s = strip_paired_tags Tool_Tags (strip_paired_tags Reasoning_Tags s)"

function collect_blocks :: "string \<Rightarrow> string" where
  "collect_blocks rest =
     (case find_sub THINKING_START rest of
        None \<Rightarrow> []
      | Some i \<Rightarrow>
          let rest = drop (i + length THINKING_START) rest
          in case find_sub THINKING_END rest of
               Some j \<Rightarrow> take j rest @ collect_blocks (drop (j + length THINKING_END) rest)
             | None \<Rightarrow> [])"
  by pat_completeness auto
termination
proof (relation "measure length")
  fix s rest :: string and i j
  assume "find_sub THINKING_START s = Some i" "rest = drop (i + length THINKING_START) s"
  with find_sub_split(2) [OF this(1)]
  show "(drop (j + length THINKING_END) rest, s) \<in> measure length" by (auto simp: THINKING_START_def)
qed simp

declare collect_blocks.simps [simp del]

definition collect_thinking_tags :: "string \<Rightarrow> string option" where
  "collect_thinking_tags s = (let out = collect_blocks s in if out = [] then None else Some out)"

text \<open>What of the reasoning is not stored: a last block that is not closed.\<close>

function unclosed_block :: "string \<Rightarrow> string" where
  "unclosed_block rest =
     (case find_sub THINKING_START rest of
        None \<Rightarrow> []
      | Some i \<Rightarrow>
          let rest = drop (i + length THINKING_START) rest
          in case find_sub THINKING_END rest of
               Some j \<Rightarrow> unclosed_block (drop (j + length THINKING_END) rest)
             | None \<Rightarrow> rest)"
  by pat_completeness auto
termination
proof (relation "measure length")
  fix s rest :: string and i j
  assume "find_sub THINKING_START s = Some i" "rest = drop (i + length THINKING_START) s"
  with find_sub_split(2) [OF this(1)]
  show "(drop (j + length THINKING_END) rest, s) \<in> measure length" by (auto simp: THINKING_START_def)
qed simp

declare unclosed_block.simps [simp del]

definition bytes_of :: "thinking_parse_state \<Rightarrow> (thinking_parse_state \<times> char) list \<Rightarrow> string" where
  "bytes_of st ms = map snd (filter (\<lambda>m. fst m = st) ms)"

lemma bytes_of_simps [simp]:
  "bytes_of st [] = []" "bytes_of st (xs @ ys) = bytes_of st xs @ bytes_of st ys"
  "bytes_of st (map (Pair st') s) = (if st = st' then s else [])"
  by (auto simp: bytes_of_def filter_map o_def)

lemma collected_reasoning:
  "bytes_of Inside (split_tags Outside s) = collect_blocks s @ unclosed_block s"
proof (induction s rule: collect_blocks.induct)
  case (1 s)
  show ?case
  proof (cases "find_sub THINKING_START s")
    case None
    then show ?thesis by (simp add: split_tags.simps collect_blocks.simps unclosed_block.simps)
  next
    case (Some i)
    let ?r = "drop (i + length THINKING_START) s"
    show ?thesis
    proof (cases "find_sub THINKING_END ?r")
      case None
      then show ?thesis using Some
        by (simp add: split_tags.simps [of Outside s] split_tags.simps [of Inside ?r] collect_blocks.simps [of s] unclosed_block.simps [of s])
    next
      case (Some j)
      with 1 [OF \<open>find_sub THINKING_START s = Some i\<close> refl Some] \<open>find_sub THINKING_START s = Some i\<close> show ?thesis
        by (simp add: split_tags.simps [of Outside s] split_tags.simps [of Inside ?r] collect_blocks.simps [of s] unclosed_block.simps [of s])
    qed
  qed
qed

text \<open>C21: However a reply is cut into pieces, in the middle of a tag or of a character too, the segments the
  parser puts out, the one of the final flush included, are the reply without its tags, each byte once, in
  order and rightly marked as reply or reasoning.\<close>

theorem streamed_tags_any_chunks:
  "all_marked (fst (feed_all thinking_tag_parser_new ds) @ flush (snd (feed_all thinking_tag_parser_new ds))) =
   split_tags Outside (concat ds)"
  by (rule feed_all_split)

text \<open>The reasoning that is stored with the reply is what was shown as reasoning while it arrived, apart from
  a last block the model did not close: that one is shown and not stored.\<close>

theorem streamed_reasoning_is_stored:
  "bytes_of Inside (all_marked (fst (feed_all thinking_tag_parser_new ds) @ flush (snd (feed_all thinking_tag_parser_new ds)))) =
   (case collect_thinking_tags (concat ds) of Some t \<Rightarrow> t | None \<Rightarrow> []) @ unclosed_block (concat ds)"
  unfolding feed_all_split collected_reasoning by (simp add: collect_thinking_tags_def Let_def)

subsection \<open>What stripping leaves\<close>

text \<open>A reply without openers is returned as it is, with the closers that are documented to be dropped.\<close>

lemma orphan_closer_stays: "strip_reasoning_and_tool_tags ''a</think>b'' = ''a</think>b''"
  by code_simp

lemma orphan_of_later_pair_stays:
  "strip_reasoning_and_tool_tags ''</thinking>a</think><think></think>'' = ''</thinking>a''"
  by code_simp

text \<open>Removing a block can put a new tag together.\<close>

lemma stripping_makes_tag: "strip_reasoning_and_tool_tags ''<tool_<think></think>call>x'' = []"
  "strip_reasoning_and_tool_tags ''<th<think></think>ink>x'' = ''<think>x''"
  by code_simp+

end
