(* ===== verification/Provider_Error.thy ===== *)
theory Provider_Error
  imports Text_Format Rust_Text
begin

text \<open>
  \<open>foundation/model-spec-core/src/error\<close> and \<open>foundation/llm/src/error\<close>: how the answer of a provider that
  refused a request is classified, and what the classification means for retrying. Each provider has a
  parser of its own. The body is decoded by derived code: the decoders of the five shapes are parameters,
  as are the conversion to lower case, the replacement of invalid UTF-8 and the reading of a date.
\<close>

subsection \<open>Kinds\<close>

datatype error_kind =
    BadRequest | AuthFailed | Permission | Billing | Kind_NotFound | ContentFilter | Kind_RateLimited
  | QuotaExhausted | Overloaded | Server | RequestTooLarge | Kind_Unknown

datatype user_action =
    CheckApiKey | CheckPermission | TopUp | AdjustContent | WaitQuotaReset | ChangeModel | No_Action

definition kind_is_retryable :: "error_kind \<Rightarrow> bool" where
  "kind_is_retryable k \<longleftrightarrow> k = Server \<or> k = Overloaded \<or> k = Kind_RateLimited"

fun default_user_action :: "error_kind \<Rightarrow> user_action" where
  "default_user_action AuthFailed = CheckApiKey"
| "default_user_action Permission = CheckPermission"
| "default_user_action Billing = TopUp"
| "default_user_action ContentFilter = AdjustContent"
| "default_user_action QuotaExhausted = WaitQuotaReset"
| "default_user_action Kind_NotFound = ChangeModel"
| "default_user_action _ = No_Action"

datatype provider_retry = Retry | RetryAfter nat | Never_Retry user_action

record provider_error =
  pv_provider_id :: string
  pv_kind :: error_kind
  pv_status :: nat
  pv_code :: "string option"
  pv_message :: string
  pv_user_message :: string
  pv_retry_policy :: provider_retry
  pv_request_id :: "string option"
  pv_partial_tokens :: bool

fun policy_retries :: "provider_retry \<Rightarrow> bool" where
  "policy_retries (Never_Retry a) = False"
| "policy_retries _ = True"

definition error_is_retryable :: "provider_error \<Rightarrow> bool" where
  "error_is_retryable e = policy_retries (pv_retry_policy e)"

definition default_retry_policy :: "error_kind \<Rightarrow> provider_retry" where
  "default_retry_policy k = (if kind_is_retryable k then Retry else Never_Retry (default_user_action k))"

fun default_user_message :: "error_kind \<Rightarrow> string" where
  "default_user_message BadRequest =
     [CHR 0xE8, CHR 0xAF, CHR 0xB7, CHR 0xE6, CHR 0xB1, CHR 0x82, CHR 0xE5, CHR 0x8F, CHR 0x82, CHR 0xE6, CHR 0x95,
     CHR 0xB0, CHR 0xE9, CHR 0x94, CHR 0x99, CHR 0xE8, CHR 0xAF, CHR 0xAF, CHR 0xEF, CHR 0xBC, CHR 0x8C, CHR 0xE8, CHR
     0xAF, CHR 0xB7, CHR 0xE6, CHR 0xA3, CHR 0x80, CHR 0xE6, CHR 0x9F, CHR 0xA5, CHR 0xE8, CHR 0xAF, CHR 0xB7, CHR
     0xE6, CHR 0xB1, CHR 0x82, CHR 0xE5, CHR 0x86, CHR 0x85, CHR 0xE5, CHR 0xAE, CHR 0xB9]"
| "default_user_message AuthFailed =
     ''API Key '' @ [CHR 0xE6, CHR 0x97, CHR 0xA0, CHR 0xE6, CHR 0x95, CHR 0x88, CHR 0xE6, CHR 0x88, CHR 0x96, CHR
     0xE5, CHR 0xB7, CHR 0xB2, CHR 0xE8, CHR 0xBF, CHR 0x87, CHR 0xE6, CHR 0x9C, CHR 0x9F, CHR 0xEF, CHR 0xBC, CHR
     0x8C, CHR 0xE8, CHR 0xAF, CHR 0xB7, CHR 0xE6, CHR 0xA3, CHR 0x80, CHR 0xE6, CHR 0x9F, CHR 0xA5, CHR 0xE5, CHR
     0x87, CHR 0xAD, CHR 0xE6, CHR 0x8D, CHR 0xAE]"
| "default_user_message Permission =
     [CHR 0xE5, CHR 0xBD, CHR 0x93, CHR 0xE5, CHR 0x89, CHR 0x8D, CHR 0xE8, CHR 0xB4, CHR 0xA6, CHR 0xE5, CHR 0x8F,
     CHR 0xB7, CHR 0xE6, CHR 0x97, CHR 0xA0, CHR 0xE6, CHR 0x9D, CHR 0x83, CHR 0xE9, CHR 0x99, CHR 0x90, CHR 0xEF, CHR
     0xBC, CHR 0x88, CHR 0xE5, CHR 0x9C, CHR 0xB0, CHR 0xE5, CHR 0x8C, CHR 0xBA, CHR 0xE9, CHR 0x99, CHR 0x90, CHR
     0xE5, CHR 0x88, CHR 0xB6, CHR 0xE6, CHR 0x88, CHR 0x96, CHR 0xE6, CHR 0x9C, CHR 0xAA, CHR 0xE5, CHR 0xBC, CHR
     0x80, CHR 0xE9, CHR 0x80, CHR 0x9A, CHR 0xEF, CHR 0xBC, CHR 0x89]"
| "default_user_message Billing =
     [CHR 0xE8, CHR 0xB4, CHR 0xA6, CHR 0xE6, CHR 0x88, CHR 0xB7, CHR 0xE4, CHR 0xBD, CHR 0x99, CHR 0xE9, CHR 0xA2,
     CHR 0x9D, CHR 0xE4, CHR 0xB8, CHR 0x8D, CHR 0xE8, CHR 0xB6, CHR 0xB3, CHR 0xEF, CHR 0xBC, CHR 0x8C, CHR 0xE8, CHR
     0xAF, CHR 0xB7, CHR 0xE5, CHR 0x85, CHR 0x85, CHR 0xE5, CHR 0x80, CHR 0xBC, CHR 0xE5, CHR 0x90, CHR 0x8E, CHR
     0xE9, CHR 0x87, CHR 0x8D, CHR 0xE8, CHR 0xAF, CHR 0x95]"
| "default_user_message Kind_NotFound =
     [CHR 0xE6, CHR 0xA8, CHR 0xA1, CHR 0xE5, CHR 0x9E, CHR 0x8B, CHR 0xE4, CHR 0xB8, CHR 0x8D, CHR 0xE5, CHR 0xAD,
     CHR 0x98, CHR 0xE5, CHR 0x9C, CHR 0xA8, CHR 0xE6, CHR 0x88, CHR 0x96, CHR 0xE4, CHR 0xB8, CHR 0x8D, CHR 0xE5, CHR
     0x8F, CHR 0xAF, CHR 0xE7, CHR 0x94, CHR 0xA8, CHR 0xEF, CHR 0xBC, CHR 0x8C, CHR 0xE8, CHR 0xAF, CHR 0xB7, CHR
     0xE6, CHR 0xA3, CHR 0x80, CHR 0xE6, CHR 0x9F, CHR 0xA5, CHR 0xE6, CHR 0xA8, CHR 0xA1, CHR 0xE5, CHR 0x9E, CHR
     0x8B, CHR 0xE5, CHR 0x90, CHR 0x8D]"
| "default_user_message ContentFilter =
     [CHR 0xE8, CHR 0xAF, CHR 0xB7, CHR 0xE6, CHR 0xB1, CHR 0x82, CHR 0xE6, CHR 0x88, CHR 0x96, CHR 0xE8, CHR 0xBE,
     CHR 0x93, CHR 0xE5, CHR 0x87, CHR 0xBA, CHR 0xE8, CHR 0xA7, CHR 0xA6, CHR 0xE5, CHR 0x8F, CHR 0x91, CHR 0xE5, CHR
     0x86, CHR 0x85, CHR 0xE5, CHR 0xAE, CHR 0xB9, CHR 0xE5, CHR 0xAE, CHR 0xA1, CHR 0xE6, CHR 0xA0, CHR 0xB8, CHR
     0xEF, CHR 0xBC, CHR 0x8C, CHR 0xE8, CHR 0xAF, CHR 0xB7, CHR 0xE4, CHR 0xBF, CHR 0xAE, CHR 0xE6, CHR 0x94, CHR
     0xB9, CHR 0xE5, CHR 0x86, CHR 0x85, CHR 0xE5, CHR 0xAE, CHR 0xB9]"
| "default_user_message Kind_RateLimited =
     [CHR 0xE8, CHR 0xAF, CHR 0xB7, CHR 0xE6, CHR 0xB1, CHR 0x82, CHR 0xE8, CHR 0xBF, CHR 0x87, CHR 0xE4, CHR 0xBA,
     CHR 0x8E, CHR 0xE9, CHR 0xA2, CHR 0x91, CHR 0xE7, CHR 0xB9, CHR 0x81, CHR 0xEF, CHR 0xBC, CHR 0x8C, CHR 0xE8, CHR
     0xAF, CHR 0xB7, CHR 0xE7, CHR 0xA8, CHR 0x8D, CHR 0xE5, CHR 0x90, CHR 0x8E, CHR 0xE9, CHR 0x87, CHR 0x8D, CHR
     0xE8, CHR 0xAF, CHR 0x95]"
| "default_user_message QuotaExhausted =
     [CHR 0xE9, CHR 0x85, CHR 0x8D, CHR 0xE9, CHR 0xA2, CHR 0x9D, CHR 0xE5, CHR 0xB7, CHR 0xB2, CHR 0xE8, CHR 0x80,
     CHR 0x97, CHR 0xE5, CHR 0xB0, CHR 0xBD, CHR 0xEF, CHR 0xBC, CHR 0x8C, CHR 0xE8, CHR 0xAF, CHR 0xB7, CHR 0xE7, CHR
     0xAD, CHR 0x89, CHR 0xE5, CHR 0xBE, CHR 0x85, CHR 0xE9, CHR 0x87, CHR 0x8D, CHR 0xE7, CHR 0xBD, CHR 0xAE, CHR
     0xE6, CHR 0x88, CHR 0x96, CHR 0xE5, CHR 0x8D, CHR 0x87, CHR 0xE7, CHR 0xBA, CHR 0xA7, CHR 0xE5, CHR 0xA5, CHR
     0x97, CHR 0xE9, CHR 0xA4, CHR 0x90]"
| "default_user_message Overloaded =
     [CHR 0xE6, CHR 0x9C, CHR 0x8D, CHR 0xE5, CHR 0x8A, CHR 0xA1, CHR 0xE8, CHR 0xBF, CHR 0x87, CHR 0xE8, CHR 0xBD,
     CHR 0xBD, CHR 0xEF, CHR 0xBC, CHR 0x8C, CHR 0xE8, CHR 0xAF, CHR 0xB7, CHR 0xE7, CHR 0xA8, CHR 0x8D, CHR 0xE5, CHR
     0x90, CHR 0x8E, CHR 0xE9, CHR 0x87, CHR 0x8D, CHR 0xE8, CHR 0xAF, CHR 0x95]"
| "default_user_message Server =
     [CHR 0xE6, CHR 0x9C, CHR 0x8D, CHR 0xE5, CHR 0x8A, CHR 0xA1, CHR 0xE7, CHR 0xAB, CHR 0xAF, CHR 0xE9, CHR 0x94,
     CHR 0x99, CHR 0xE8, CHR 0xAF, CHR 0xAF, CHR 0xEF, CHR 0xBC, CHR 0x8C, CHR 0xE8, CHR 0xAF, CHR 0xB7, CHR 0xE7, CHR
     0xA8, CHR 0x8D, CHR 0xE5, CHR 0x90, CHR 0x8E, CHR 0xE9, CHR 0x87, CHR 0x8D, CHR 0xE8, CHR 0xAF, CHR 0x95]"
| "default_user_message RequestTooLarge =
     [CHR 0xE8, CHR 0xAF, CHR 0xB7, CHR 0xE6, CHR 0xB1, CHR 0x82, CHR 0xE4, CHR 0xBD, CHR 0x93, CHR 0xE8, CHR 0xBF,
     CHR 0x87, CHR 0xE5, CHR 0xA4, CHR 0xA7, CHR 0xEF, CHR 0xBC, CHR 0x8C, CHR 0xE8, CHR 0xAF, CHR 0xB7, CHR 0xE5, CHR
     0x87, CHR 0x8F, CHR 0xE5, CHR 0xB0, CHR 0x91, CHR 0xE8, CHR 0xBE, CHR 0x93, CHR 0xE5, CHR 0x85, CHR 0xA5, CHR
     0xE5, CHR 0x86, CHR 0x85, CHR 0xE5, CHR 0xAE, CHR 0xB9]"
| "default_user_message Kind_Unknown =
     [CHR 0xE6, CHR 0x9C, CHR 0xAA, CHR 0xE7, CHR 0x9F, CHR 0xA5, CHR 0xE9, CHR 0x94, CHR 0x99, CHR 0xE8, CHR 0xAF,
     CHR 0xAF, CHR 0xEF, CHR 0xBC, CHR 0x8C, CHR 0xE8, CHR 0xAF, CHR 0xB7, CHR 0xE7, CHR 0xA8, CHR 0x8D, CHR 0xE5, CHR
     0x90, CHR 0x8E, CHR 0xE9, CHR 0x87, CHR 0x8D, CHR 0xE8, CHR 0xAF, CHR 0x95]"

subsection \<open>The OpenAI protocol\<close>

record api_error_detail =
  ad_message :: "string option"
  ad_type :: "string option"
  ad_code :: "string option"

record api_error_response =
  ar_error :: "api_error_detail option"
  ar_request_id :: "string option"

record google_error =
  ge_message :: "string option"
  ge_status :: "string option"

record bedrock_body =
  bb_message :: "string option"
  bb_type :: "string option"

record openrouter_error =
  oe_message :: "string option"
  oe_error_type :: "string option"

record decode_env =
  de_api :: "string \<Rightarrow> api_error_response option"
  de_anthropic :: "string \<Rightarrow> api_error_response option"
  de_google :: "string \<Rightarrow> google_error option option"
  de_bedrock :: "string \<Rightarrow> bedrock_body option"
  de_openrouter :: "string \<Rightarrow> openrouter_error option option"
  de_lower :: "string \<Rightarrow> string"
  de_lossy :: "string \<Rightarrow> string"
  de_date :: "string \<Rightarrow> int option"

definition kind_from_status :: "nat \<Rightarrow> error_kind" where
  "kind_from_status status =
     (if status \<in> {400, 422} then BadRequest
      else if status = 401 then AuthFailed
      else if status = 402 then Billing
      else if status = 403 then Permission
      else if status = 404 then Kind_NotFound
      else if status = 413 then RequestTooLarge
      else if status = 429 then Kind_RateLimited
      else if status \<in> {500, 502, 504} then Server
      else if status \<in> {503, 529} then Overloaded
      else Kind_Unknown)"

definition kind_from_error_type :: "string \<Rightarrow> error_kind option" where
  "kind_from_error_type ty =
     (if ty \<in> {''content_filter'', ''content_filter_error''} then Some ContentFilter
      else if ty \<in> {''invalid_authentication_error'', ''incorrect_api_key_error''} then Some AuthFailed
      else if ty \<in> {''engine_overloaded_error'', ''overloaded_error''} then Some Overloaded
      else if ty \<in> {''exceeded_current_quota_error'', ''insufficient_quota'', ''credit_balance_exhausted''} then Some Billing
      else if ty \<in> {''rate_limit_reached_error'', ''rate_limit_error''} then Some Kind_RateLimited
      else if ty = ''request_too_large'' then Some RequestTooLarge
      else if ty = ''timeout_error'' then Some Server
      else if ty \<in> {''api_error'', ''server_error''} then Some Server
      else None)"

definition kind_from_error_code :: "string \<Rightarrow> error_kind option" where
  "kind_from_error_code code =
     (if code \<in> {''content_filter'', ''content_filter_error''} then Some ContentFilter
      else if code \<in> {''insufficient_quota'', ''credit_balance_exhausted''} then Some Billing
      else None)"

definition unwrap_str :: "string option \<Rightarrow> string" where
  "unwrap_str s = (case s of Some t \<Rightarrow> t | None \<Rightarrow> [])"

definition QUOTA_WORDS :: "string list" where
  "QUOTA_WORDS = [''quota'', ''credit'', ''balance'', ''insufficient'', ''spend limit'', ''usage limit'']"

definition is_quota_429 :: "decode_env \<Rightarrow> string \<Rightarrow> string option \<Rightarrow> bool" where
  "is_quota_429 D message code =
     (if code \<in> Some ` {''1308'', ''1309'', ''1310'', ''1311''} then True
      else if code \<in> Some ` {''1302'', ''1305''} then False
      else let haystack = de_lower D (message @ '' '' @ unwrap_str code)
           in list_ex (str_contains haystack) QUOTA_WORDS)"

definition finish_error ::
    "string \<Rightarrow> error_kind \<Rightarrow> nat \<Rightarrow> string option \<Rightarrow> string \<Rightarrow> string option \<Rightarrow> provider_error" where
  "finish_error provider_id kind status code message request_id =
     \<lparr>pv_provider_id = provider_id, pv_kind = kind, pv_status = status, pv_code = code, pv_message = message,
      pv_user_message = default_user_message kind, pv_retry_policy = default_retry_policy kind,
      pv_request_id = request_id, pv_partial_tokens = False\<rparr>"

definition detail_kind :: "error_kind \<Rightarrow> api_error_detail \<Rightarrow> error_kind" where
  "detail_kind kind detail =
     (case Option.bind (ad_type detail) kind_from_error_type of
        Some k \<Rightarrow> k
      | None \<Rightarrow> (case Option.bind (ad_code detail) kind_from_error_code of Some k \<Rightarrow> k | None \<Rightarrow> kind))"

definition parse_openai_compat :: "decode_env \<Rightarrow> string \<Rightarrow> nat \<Rightarrow> string \<Rightarrow> provider_error" where
  "parse_openai_compat D provider_id status body =
     (let kind0 = kind_from_status status;
          (kind, code, message, request_id) =
            (case de_api D body of
               None \<Rightarrow> (kind0, None, [], None)
             | Some resp \<Rightarrow>
                 (case ar_error resp of
                    None \<Rightarrow> (kind0, None, [], ar_request_id resp)
                  | Some d \<Rightarrow> (detail_kind kind0 d, ad_code d, unwrap_str (ad_message d), ar_request_id resp)));
          kind = (if status = 429 \<and> kind = Kind_RateLimited \<and> is_quota_429 D message code then QuotaExhausted else kind)
      in finish_error provider_id kind status code message request_id)"

text \<open>A new kind brings its policy and its message.\<close>

definition with_kind :: "error_kind \<Rightarrow> provider_error \<Rightarrow> provider_error" where
  "with_kind k e = e\<lparr>pv_kind := k, pv_retry_policy := default_retry_policy k, pv_user_message := default_user_message k\<rparr>"

subsection \<open>The parsers of the providers\<close>

datatype provider_parser =
    OpenAi_Parser string | Anthropic_Parser string | Azure_Parser string | Bedrock_Parser string | Google_Parser string
  | LongCat_Parser string | MiniMax_Parser string | Moonshot_Parser string | OpenRouter_Parser string
  | StepFun_Parser string | Xiaomi_Parser string | Zhipu_Parser string

definition anthropic_kind_from_status :: "nat \<Rightarrow> error_kind" where
  "anthropic_kind_from_status status =
     (if status = 400 then BadRequest
      else if status = 401 then AuthFailed
      else if status = 402 then Billing
      else if status = 403 then Permission
      else if status = 404 then Kind_NotFound
      else if status = 409 then BadRequest
      else if status = 413 then RequestTooLarge
      else if status = 429 then Kind_RateLimited
      else if status = 500 then Server
      else if status = 504 then Server
      else if status = 529 then Overloaded
      else Kind_Unknown)"

definition anthropic_kind_from_error_type :: "string \<Rightarrow> error_kind option" where
  "anthropic_kind_from_error_type ty =
     (if ty = ''invalid_request_error'' then Some BadRequest
      else if ty = ''authentication_error'' then Some AuthFailed
      else if ty = ''billing_error'' then Some Billing
      else if ty = ''permission_error'' then Some Permission
      else if ty = ''not_found_error'' then Some Kind_NotFound
      else if ty = ''request_too_large'' then Some RequestTooLarge
      else if ty = ''rate_limit_error'' then Some Kind_RateLimited
      else if ty = ''api_error'' then Some Server
      else if ty = ''timeout_error'' then Some Server
      else if ty = ''overloaded_error'' then Some Overloaded
      else None)"

definition parse_anthropic :: "decode_env \<Rightarrow> string \<Rightarrow> nat \<Rightarrow> string \<Rightarrow> provider_error" where
  "parse_anthropic D provider_id status body =
     (let kind0 = anthropic_kind_from_status status;
          (kind, message, request_id) =
            (case de_anthropic D body of
               None \<Rightarrow> (kind0, [], None)
             | Some resp \<Rightarrow>
                 (case ar_error resp of
                    None \<Rightarrow> (kind0, [], ar_request_id resp)
                  | Some d \<Rightarrow>
                      ((case Option.bind (ad_type d) anthropic_kind_from_error_type of Some k \<Rightarrow> k | None \<Rightarrow> kind0),
                       unwrap_str (ad_message d), ar_request_id resp)))
      in finish_error provider_id kind status None message request_id)"

definition before_char :: "char \<Rightarrow> string \<Rightarrow> string" where
  "before_char c s = takeWhile (\<lambda>x. x \<noteq> c) s"

definition kind_of_exception_name :: "string \<Rightarrow> error_kind" where
  "kind_of_exception_name name =
     (if name = ''ValidationException'' then BadRequest
      else if name = ''AccessDeniedException'' then Permission
      else if name = ''ResourceNotFoundException'' then Kind_NotFound
      else if name = ''ModelTimeoutException'' then Server
      else if name = ''ModelNotReadyException'' then BadRequest
      else if name = ''ThrottlingException'' then Kind_RateLimited
      else if name \<in> {''ModelErrorException'', ''InternalServerException''} then Server
      else if name = ''ServiceUnavailableException'' then Overloaded
      else Kind_Unknown)"

definition kind_from_exception :: "string \<Rightarrow> error_kind" where
  "kind_from_exception name = kind_of_exception_name (before_char (CHR '':'') (before_char (CHR ''#'') name))"

definition bedrock_kind_from_status :: "nat \<Rightarrow> error_kind" where
  "bedrock_kind_from_status status =
     (if status = 400 then BadRequest
      else if status = 403 then Permission
      else if status = 404 then Kind_NotFound
      else if status = 408 then Server
      else if status = 409 then BadRequest
      else if status = 429 then Kind_RateLimited
      else if status = 424 then Server
      else if status = 500 then Server
      else if status = 503 then Overloaded
      else Kind_Unknown)"

definition find_header :: "string \<Rightarrow> (string \<times> string) list \<Rightarrow> string option" where
  "find_header name headers =
     map_option snd (List.find (\<lambda>(k, _). map ascii_lower k = map ascii_lower name) headers)"

definition parse_bedrock :: "decode_env \<Rightarrow> string \<Rightarrow> nat \<Rightarrow> (string \<times> string) list \<Rightarrow> string \<Rightarrow> provider_error" where
  "parse_bedrock D provider_id status headers body =
     (let kind0 = bedrock_kind_from_status status;
          (kind, message) =
            (case find_header ''x-amzn-errortype'' headers of
               Some v \<Rightarrow> (kind_from_exception v, [])
             | None \<Rightarrow>
                 (case de_bedrock D body of
                    Some resp \<Rightarrow>
                      ((case bb_type resp of Some t \<Rightarrow> kind_from_exception t | None \<Rightarrow> kind0), unwrap_str (bb_message resp))
                  | None \<Rightarrow> (kind0, de_lossy D body)))
      in finish_error provider_id kind status None message None)"

definition google_kind_from_status :: "nat \<Rightarrow> error_kind" where
  "google_kind_from_status status =
     (if status = 400 then BadRequest
      else if status = 401 then AuthFailed
      else if status = 403 then Permission
      else if status = 404 then Kind_NotFound
      else if status = 429 then Kind_RateLimited
      else if status = 500 then Server
      else if status = 503 then Overloaded
      else if status = 504 then Server
      else Kind_Unknown)"

definition kind_from_grpc_status :: "string \<Rightarrow> error_kind option" where
  "kind_from_grpc_status status =
     (if status \<in> {''INVALID_ARGUMENT'', ''FAILED_PRECONDITION'', ''OUT_OF_RANGE''} then Some BadRequest
      else if status = ''UNAUTHENTICATED'' then Some AuthFailed
      else if status = ''PERMISSION_DENIED'' then Some Permission
      else if status = ''NOT_FOUND'' then Some Kind_NotFound
      else if status \<in> {''ABORTED'', ''ALREADY_EXISTS'', ''CONFLICT''} then Some BadRequest
      else if status = ''RESOURCE_EXHAUSTED'' then Some Kind_RateLimited
      else if status \<in> {''INTERNAL'', ''DATA_LOSS'', ''UNKNOWN''} then Some Server
      else if status = ''UNAVAILABLE'' then Some Overloaded
      else if status = ''DEADLINE_EXCEEDED'' then Some Server
      else None)"

definition parse_google :: "decode_env \<Rightarrow> string \<Rightarrow> nat \<Rightarrow> string \<Rightarrow> provider_error" where
  "parse_google D provider_id status body =
     (let kind0 = google_kind_from_status status;
          (kind, message) =
            (case de_google D body of
               Some (Some d) \<Rightarrow>
                 ((case Option.bind (ge_status d) kind_from_grpc_status of Some k \<Rightarrow> k | None \<Rightarrow> kind0), unwrap_str (ge_message d))
             | _ \<Rightarrow> (kind0, []))
      in finish_error provider_id kind status None message None)"

definition longcat_note :: string where
  "longcat_note =
     [CHR 0xEF, CHR 0xBC, CHR 0x88] @ ''LongCat '' @ [CHR 0xE4, CHR 0xBB, CHR 0x85] @ '' HTTP 200 '' @ [CHR 0xE6, CHR
     0x8C, CHR 0x89, CHR 0xE5, CHR 0xAE, CHR 0x9E, CHR 0xE9, CHR 0x99, CHR 0x85] @ '' Token '' @ [CHR 0xE8, CHR 0xAE,
     CHR 0xA1, CHR 0xE8, CHR 0xB4, CHR 0xB9, CHR 0xEF, CHR 0xBC, CHR 0x8C, CHR 0xE5, CHR 0xA4, CHR 0xB1, CHR 0xE8, CHR
     0xB4, CHR 0xA5, CHR 0xE5, CHR 0x93, CHR 0x8D, CHR 0xE5, CHR 0xBA, CHR 0x94, CHR 0xE4, CHR 0xB8, CHR 0x8D, CHR
     0xE8, CHR 0xAE, CHR 0xA1, CHR 0xE8, CHR 0xB4, CHR 0xB9, CHR 0xEF, CHR 0xBC, CHR 0x89]"

definition parse_longcat :: "decode_env \<Rightarrow> string \<Rightarrow> nat \<Rightarrow> string \<Rightarrow> provider_error" where
  "parse_longcat D provider_id status body =
     (let e = parse_openai_compat D provider_id status body
      in if pv_kind e = Billing \<or> pv_kind e = QuotaExhausted then e\<lparr>pv_user_message := pv_user_message e @ longcat_note\<rparr> else e)"

definition kind_from_business_code :: "string \<Rightarrow> error_kind option" where
  "kind_from_business_code code =
     (if code \<in> {''1001'', ''1033'', ''1024''} then Some Server
      else if code \<in> {''1002'', ''1041''} then Some Kind_RateLimited
      else if code = ''1004'' then Some AuthFailed
      else if code = ''1008'' then Some Billing
      else if code \<in> {''1026'', ''1027''} then Some ContentFilter
      else if code \<in> {''1039'', ''1042'', ''2013'', ''2049''} then Some BadRequest
      else None)"

definition parse_minimax :: "decode_env \<Rightarrow> string \<Rightarrow> nat \<Rightarrow> string \<Rightarrow> provider_error" where
  "parse_minimax D provider_id status body =
     (let e = parse_openai_compat D provider_id status body
      in case Option.bind (pv_code e) kind_from_business_code of
           Some k \<Rightarrow> if k \<noteq> pv_kind e then with_kind k e else e
         | None \<Rightarrow> e)"

definition moonshot_note :: string where
  "moonshot_note =
     ''API Key '' @ [CHR 0xE6, CHR 0x97, CHR 0xA0, CHR 0xE6, CHR 0x95, CHR 0x88, CHR 0xE6, CHR 0x88, CHR 0x96, CHR
     0xE5, CHR 0xB9, CHR 0xB3, CHR 0xE5, CHR 0x8F, CHR 0xB0, CHR 0xE6, CHR 0xB7, CHR 0xB7, CHR 0xE7, CHR 0x94, CHR
     0xA8, CHR 0xEF, CHR 0xBC, CHR 0x9A] @ ''kimi.com'' @ [CHR 0xEF, CHR 0xBC, CHR 0x88, CHR 0xE4, CHR 0xB8, CHR 0xAD,
     CHR 0xE5, CHR 0x9B, CHR 0xBD, CHR 0xE7, CHR 0xAB, CHR 0x99, CHR 0xEF, CHR 0xBC, CHR 0x89, CHR 0xE4, CHR 0xB8, CHR
     0x8E] @ '' kimi.ai'' @ [CHR 0xEF, CHR 0xBC, CHR 0x88, CHR 0xE5, CHR 0x9B, CHR 0xBD, CHR 0xE9, CHR 0x99, CHR 0x85,
     CHR 0xE7, CHR 0xAB, CHR 0x99, CHR 0xEF, CHR 0xBC, CHR 0x89, CHR 0xE8, CHR 0xB4, CHR 0xA6, CHR 0xE6, CHR 0x88, CHR
     0xB7, CHR 0xE3, CHR 0x80, CHR 0x81, CHR 0xE4, CHR 0xBD, CHR 0x99, CHR 0xE9, CHR 0xA2, CHR 0x9D, CHR 0xE3, CHR
     0x80, CHR 0x81] @ ''Key '' @ [CHR 0xE7, CHR 0x9B, CHR 0xB8, CHR 0xE4, CHR 0xBA, CHR 0x92, CHR 0xE7, CHR 0x8B, CHR
     0xAC, CHR 0xE7, CHR 0xAB, CHR 0x8B, CHR 0xEF, CHR 0xBC, CHR 0x8C, CHR 0xE8, CHR 0xAF, CHR 0xB7, CHR 0xE6, CHR
     0xA3, CHR 0x80, CHR 0xE6, CHR 0x9F, CHR 0xA5, CHR 0xE5, CHR 0x87, CHR 0xAD, CHR 0xE6, CHR 0x8D, CHR 0xAE]"

definition parse_moonshot :: "decode_env \<Rightarrow> string \<Rightarrow> nat \<Rightarrow> string \<Rightarrow> provider_error" where
  "parse_moonshot D provider_id status body =
     (let e = parse_openai_compat D provider_id status body
      in if pv_kind e = AuthFailed then e\<lparr>pv_user_message := moonshot_note\<rparr> else e)"

definition openrouter_kind_from_error_type :: "string \<Rightarrow> error_kind option" where
  "openrouter_kind_from_error_type ty =
     (if ty = ''insufficient_quota'' then Some Billing
      else if ty = ''rate_limit_exceeded'' then Some Kind_RateLimited
      else if ty \<in> {''context_length_exceeded'', ''invalid_request'', ''invalid_prompt'', ''prompt_too_long''} then Some BadRequest
      else if ty = ''authentication'' then Some AuthFailed
      else if ty = ''permission'' then Some Permission
      else if ty = ''not_found'' then Some Kind_NotFound
      else if ty \<in> {''server_error'', ''internal_error'', ''bad_gateway'', ''provider_switching''} then Some Server
      else if ty \<in> {''overloaded'', ''provider_failed''} then Some Overloaded
      else if ty = ''timeout'' then Some Server
      else None)"

definition parse_openrouter :: "decode_env \<Rightarrow> string \<Rightarrow> nat \<Rightarrow> string \<Rightarrow> provider_error" where
  "parse_openrouter D provider_id status body =
     (let e = parse_openai_compat D provider_id status body
      in case de_openrouter D body of
           Some (Some oe) \<Rightarrow>
             let e = (case oe_error_type oe of
                   Some ty \<Rightarrow>
                     (case openrouter_kind_from_error_type ty of Some k \<Rightarrow> (with_kind k e)\<lparr>pv_code := Some ty\<rparr> | None \<Rightarrow> e)
                 | None \<Rightarrow> e)
             in (case oe_message oe of Some msg \<Rightarrow> if msg \<noteq> [] then e\<lparr>pv_message := msg\<rparr> else e | None \<Rightarrow> e)
         | _ \<Rightarrow> e)"

definition parse_stepfun :: "decode_env \<Rightarrow> string \<Rightarrow> nat \<Rightarrow> string \<Rightarrow> provider_error" where
  "parse_stepfun D provider_id status body =
     (let e = parse_openai_compat D provider_id status body in if status = 451 then with_kind ContentFilter e else e)"

definition parse_xiaomi :: "decode_env \<Rightarrow> string \<Rightarrow> nat \<Rightarrow> string \<Rightarrow> provider_error" where
  "parse_xiaomi D provider_id status body =
     (let e = parse_openai_compat D provider_id status body in if status = 421 then with_kind ContentFilter e else e)"

definition zhipu_kind_from_code :: "string \<Rightarrow> error_kind option" where
  "zhipu_kind_from_code code =
     (if code \<in> {''1000'', ''1001'', ''1003'', ''1005''} then Some AuthFailed
      else if code = ''1113'' then Some Billing
      else if code = ''1200'' then Some Server
      else if code \<in> {''1210'', ''1211'', ''1212'', ''1213'', ''1214'', ''1215''} then Some BadRequest
      else if code \<in> {''1302'', ''1305''} then Some Kind_RateLimited
      else if code \<in> {''1308'', ''1309'', ''1310'', ''1311''} then Some QuotaExhausted
      else None)"

definition parse_zhipu :: "decode_env \<Rightarrow> string \<Rightarrow> nat \<Rightarrow> string \<Rightarrow> provider_error" where
  "parse_zhipu D provider_id status body =
     (let e = parse_openai_compat D provider_id status body
      in case pv_code e of
           Some code \<Rightarrow>
             let new_kind = (case zhipu_kind_from_code code of Some k \<Rightarrow> k | None \<Rightarrow> pv_kind e)
             in if new_kind \<noteq> pv_kind e then with_kind new_kind e else e
         | None \<Rightarrow> e)"

fun parse_error :: "decode_env \<Rightarrow> provider_parser \<Rightarrow> nat \<Rightarrow> (string \<times> string) list \<Rightarrow> string \<Rightarrow> provider_error" where
  "parse_error D (OpenAi_Parser p) status headers body = parse_openai_compat D p status body"
| "parse_error D (Anthropic_Parser p) status headers body = parse_anthropic D p status body"
| "parse_error D (Azure_Parser p) status headers body = parse_openai_compat D p status body"
| "parse_error D (Bedrock_Parser p) status headers body = parse_bedrock D p status headers body"
| "parse_error D (Google_Parser p) status headers body = parse_google D p status body"
| "parse_error D (LongCat_Parser p) status headers body = parse_longcat D p status body"
| "parse_error D (MiniMax_Parser p) status headers body = parse_minimax D p status body"
| "parse_error D (Moonshot_Parser p) status headers body = parse_moonshot D p status body"
| "parse_error D (OpenRouter_Parser p) status headers body = parse_openrouter D p status body"
| "parse_error D (StepFun_Parser p) status headers body = parse_stepfun D p status body"
| "parse_error D (Xiaomi_Parser p) status headers body = parse_xiaomi D p status body"
| "parse_error D (Zhipu_Parser p) status headers body = parse_zhipu D p status body"

definition parser_for :: "string \<Rightarrow> provider_parser" where
  "parser_for p =
     (if p \<in> {''zhipuai'', ''zhipuai-coding-plan'', ''zai'', ''zai-coding-plan''} then Zhipu_Parser p
      else if p \<in> {''xiaomi'', ''xiaomi-token-plan-cn'', ''xiaomi-token-plan-ams'', ''xiaomi-token-plan-sgp''} then Xiaomi_Parser p
      else if p \<in> {''stepfun'', ''stepfun-ai'', ''stepfun-step-plan'', ''stepfun-ai-step-plan''} then StepFun_Parser p
      else if p \<in> {''moonshotai'', ''moonshotai-cn'', ''kimi-for-coding''} then Moonshot_Parser p
      else if p = ''longcat'' then LongCat_Parser p
      else if p = ''openrouter'' then OpenRouter_Parser p
      else if p \<in> {''minimax'', ''minimax-coding-plan'', ''minimax-cn'', ''minimax-cn-coding-plan''} then MiniMax_Parser p
      else if p \<in> {''anthropic'', ''thinkingmachines'', ''freemodel'', ''subconscious''} then Anthropic_Parser p
      else if p \<in> {''google'', ''google-vertex'', ''google-vertex-anthropic''} then Google_Parser p
      else if p \<in> {''azure'', ''azure-cognitive-services''} then Azure_Parser p
      else if p = ''amazon-bedrock'' then Bedrock_Parser p
      else OpenAi_Parser p)"

subsection \<open>The decision\<close>

definition retry_after_millis :: "decode_env \<Rightarrow> (string \<times> string) list \<Rightarrow> nat option" where
  "retry_after_millis D headers =
     (case find_header ''retry-after'' headers of
        None \<Rightarrow> None
      | Some v \<Rightarrow>
          let value = trim v
          in case parse_u64 value of
               Some secs \<Rightarrow> Some (min (secs * 1000) (u64_bound - 1))
             | None \<Rightarrow> map_option (\<lambda>diff. nat (max diff 0) * 1000) (de_date D value))"

definition decide :: "decode_env \<Rightarrow> provider_parser \<Rightarrow> nat \<Rightarrow> (string \<times> string) list \<Rightarrow> string \<Rightarrow> provider_error" where
  "decide D parser status headers body =
     (let e = parse_error D parser status headers body
      in if kind_is_retryable (pv_kind e)
         then (case retry_after_millis D headers of Some ms \<Rightarrow> e\<lparr>pv_retry_policy := RetryAfter ms\<rparr> | None \<Rightarrow> e)
         else e)"

lemma finish_error_policy [simp]:
  "pv_retry_policy (finish_error p k st c m r) = default_retry_policy k" "pv_kind (finish_error p k st c m r) = k"
  "pv_provider_id (finish_error p k st c m r) = p" "pv_status (finish_error p k st c m r) = st"
  "pv_partial_tokens (finish_error p k st c m r) = False"
  by (simp_all add: finish_error_def)

text \<open>What every parser keeps: the policy is the one of the kind.\<close>

definition error_ok :: "string \<Rightarrow> nat \<Rightarrow> provider_error \<Rightarrow> bool" where
  "error_ok p status e \<longleftrightarrow> pv_retry_policy e = default_retry_policy (pv_kind e) \<and> pv_provider_id e = p \<and> pv_status e = status \<and>
     \<not> pv_partial_tokens e"

lemma error_ok_finish [intro!]: "error_ok p status (finish_error p k status c m r)"
  by (simp add: error_ok_def)

lemma error_ok_updates [intro]:
  assumes "error_ok p status e"
  shows "error_ok p status (with_kind k e)" "error_ok p status (e\<lparr>pv_user_message := m\<rparr>)"
    "error_ok p status (e\<lparr>pv_message := m\<rparr>)" "error_ok p status (e\<lparr>pv_code := c\<rparr>)"
  using assms by (simp_all add: error_ok_def with_kind_def)

lemma openai_ok: "error_ok p status (parse_openai_compat D p status body)"
  by (simp add: parse_openai_compat_def Let_def case_prod_beta error_ok_finish)

lemma parsed_ok: "error_ok p status (parse_error D (parser_for p) status headers body)"
proof -
  have "error_ok p status (parse_anthropic D p status body)" "error_ok p status (parse_bedrock D p status headers body)"
    "error_ok p status (parse_google D p status body)"
    by (simp_all add: parse_anthropic_def parse_bedrock_def parse_google_def Let_def case_prod_beta error_ok_finish)
  moreover have "error_ok p status (parse_longcat D p status body)" "error_ok p status (parse_moonshot D p status body)"
    "error_ok p status (parse_stepfun D p status body)" "error_ok p status (parse_xiaomi D p status body)"
    using openai_ok [of p status D body]
    by (auto simp: parse_longcat_def parse_moonshot_def parse_stepfun_def parse_xiaomi_def Let_def)
  moreover have "error_ok p status (parse_minimax D p status body)" "error_ok p status (parse_zhipu D p status body)"
    using openai_ok [of p status D body]
    by (auto simp: parse_minimax_def parse_zhipu_def Let_def split: option.split)
  moreover have "error_ok p status (parse_openrouter D p status body)"
    using openai_ok [of p status D body]
    by (auto simp: parse_openrouter_def Let_def split: option.split)
  moreover have "parser_for p \<in> {OpenAi_Parser p, Anthropic_Parser p, Azure_Parser p, Bedrock_Parser p, Google_Parser p,
      LongCat_Parser p, MiniMax_Parser p, Moonshot_Parser p, OpenRouter_Parser p, StepFun_Parser p, Xiaomi_Parser p, Zhipu_Parser p}"
    unfolding parser_for_def by (simp only: insert_iff if_splits) auto
  ultimately show ?thesis using openai_ok [of p status D body] by (elim insertE) simp_all
qed

text \<open>C23: Whatever a provider answers, and whichever parser reads it, the classified error is consistent: it is
  retried exactly when its kind is one that can pass, after the time the provider asked for when it asked
  for one, and when it is not retried it tells the user what its kind asks of him. The error names the
  provider and the status of the answer.\<close>

theorem decided_error_consistent:
  "let e = decide D (parser_for p) status headers body in
     pv_retry_policy e =
       (if kind_is_retryable (pv_kind e)
        then (case retry_after_millis D headers of Some ms \<Rightarrow> RetryAfter ms | None \<Rightarrow> Retry)
        else Never_Retry (default_user_action (pv_kind e))) \<and>
     (error_is_retryable e \<longleftrightarrow> kind_is_retryable (pv_kind e)) \<and> pv_provider_id e = p \<and> pv_status e = status"
  using parsed_ok [of p status D headers body]
  by (auto simp: decide_def Let_def error_ok_def default_retry_policy_def error_is_retryable_def split: option.split)

text \<open>The client looks its parser up by the address it sends to, and no address is the name of a provider.\<close>

lemma base_url_gets_default_parser:
  "parser_for ''https://open.bigmodel.cn/api/paas/v4'' = OpenAi_Parser ''https://open.bigmodel.cn/api/paas/v4''"
  by code_simp

text \<open>So a refusal for an account without money is taken for a limit that will pass.\<close>

definition arrears_env :: decode_env where
  "arrears_env =
     \<lparr>de_api = (\<lambda>_. Some \<lparr>ar_error = Some \<lparr>ad_message = Some ''arrears'', ad_type = None, ad_code = Some ''1113''\<rparr>, ar_request_id = None\<rparr>),
      de_anthropic = (\<lambda>_. None), de_google = (\<lambda>_. None), de_bedrock = (\<lambda>_. None), de_openrouter = (\<lambda>_. None), de_lower = (\<lambda>s. s),
      de_lossy = (\<lambda>s. s), de_date = (\<lambda>_. None)\<rparr>"

lemma arrears_is_retried:
  "pv_kind (parse_error arrears_env (parser_for ''zhipuai'') 429 [] []) = Billing"
  "pv_kind (parse_error arrears_env (parser_for ''https://open.bigmodel.cn/api/paas/v4'') 429 [] []) = Kind_RateLimited"
  by code_simp+

text \<open>When the exception is named in a header the message of the body is not read.\<close>

lemma bedrock_message_lost:
  "pv_message (parse_bedrock D p status [(''x-amzn-errortype'', v)] body) = []"
proof -
  have "find_header ''x-amzn-errortype'' [(''x-amzn-errortype'', v)] = Some v" by (simp add: find_header_def)
  then show ?thesis by (simp add: parse_bedrock_def Let_def finish_error_def)
qed

end
