(* ===== verification/Chat_Client.thy ===== *)
theory Chat_Client
  imports Chat_Request Tool_Stream Thinking_Tags Provider_Error
begin

text \<open>
  \<open>foundation/llm/src/client/openai_compat/llm_client.rs\<close> with its \<open>retry.rs\<close>, \<open>foundation/anureo-http-retry\<close>,
  \<open>client/retry.rs\<close> and \<open>error.rs\<close>: sending a request with retries, reading a whole answer and reading a
  stream of events. The network is a function: \<open>send k body\<close> is what becomes of the \<open>k\<close>-th request. Waiting
  is a list of milliseconds. The derived decoders of answers are parameters. The audit log and the time of
  the first chunk are left out.
\<close>

subsection \<open>Errors\<close>

datatype llm_error = Invoke_Failed string | Provider_Failed provider_error | Empty_Response nat | Llm_Cancelled

fun llm_error_is_retryable :: "llm_error \<Rightarrow> bool" where
  "llm_error_is_retryable (Invoke_Failed m) = True"
| "llm_error_is_retryable (Empty_Response n) = True"
| "llm_error_is_retryable (Provider_Failed e) = error_is_retryable e"
| "llm_error_is_retryable Llm_Cancelled = False"

fun show_llm_error :: "llm_error \<Rightarrow> string" where
  "show_llm_error (Invoke_Failed m) = ''LLM invoke failed: '' @ m"
| "show_llm_error (Provider_Failed e) = pv_user_message e"
| "show_llm_error (Empty_Response n) = ''LLM returned empty response after '' @ show_nat n @ '' retries''"
| "show_llm_error Llm_Cancelled = ''LLM call cancelled''"

fun graph_error_of_llm :: "llm_error \<Rightarrow> graph_error" where
  "graph_error_of_llm (Invoke_Failed m) = ExecutionFailed m"
| "graph_error_of_llm (Provider_Failed e) = ExecutionFailed (pv_user_message e)"
| "graph_error_of_llm (Empty_Response n) = ExecutionFailed (''LLM returned empty response after '' @ show_nat n @ '' retries'')"
| "graph_error_of_llm Llm_Cancelled = Cancelled_Err"

subsection \<open>Sending\<close>

record transport_error =
  te_timeout :: bool
  te_connect :: bool
  te_text :: string

record http_response =
  hr_status :: nat
  hr_headers :: "(string \<times> string) list"
  hr_chunks :: "string list"
  hr_broken :: "string option"

definition TRANSIENT_HTTP_MAX_RETRIES :: nat where "TRANSIENT_HTTP_MAX_RETRIES = 10"
definition COMPAT_RETRY_MAX_RETRIES :: nat where "COMPAT_RETRY_MAX_RETRIES = 20"

text \<open>Both backoffs double from their start up to a cap. The seconds are floating-point numbers in the code; all
  of them are exact.\<close>

definition retry_backoff_for_attempt :: "nat \<Rightarrow> nat" where
  "retry_backoff_for_attempt attempt = min (500 * 2 ^ attempt) 4000"

definition backoff_for_attempt :: "nat \<Rightarrow> nat" where
  "backoff_for_attempt attempt = min (1000 * 2 ^ attempt) 16000"

definition TRANSIENT_MARKERS :: "string list" where
  "TRANSIENT_MARKERS =
     [''incompletemessage'', ''connection closed before message completed'', ''unexpected eof'', ''connection reset'',
      ''broken pipe'', ''error decoding'', ''error sending request'', ''request failed'', ''tls'', ''ssl'']"

definition looks_like_transient_http_error_message :: "string \<Rightarrow> bool" where
  "looks_like_transient_http_error_message message =
     list_ex (str_contains (map ascii_lower message)) TRANSIENT_MARKERS"

definition is_retryable_reqwest_error :: "transport_error \<Rightarrow> bool" where
  "is_retryable_reqwest_error e \<longleftrightarrow>
     te_timeout e \<or> te_connect e \<or> looks_like_transient_http_error_message (te_text e)"

text \<open>The state of the sending: how many requests were sent, and what was waited for.\<close>

type_synonym net_state = "nat \<times> nat list"
type_synonym sender = "nat \<Rightarrow> transport_error + http_response"

fun send_post_from :: "sender \<Rightarrow> nat \<Rightarrow> net_state \<Rightarrow> (transport_error + http_response) \<times> net_state" where
  "send_post_from send left (k, w) =
     (case send k of
        Inr res \<Rightarrow> (Inr res, (k + 1, w))
      | Inl e \<Rightarrow>
          (case left of
             0 \<Rightarrow> (Inl e, (k + 1, w))
           | Suc left' \<Rightarrow>
               if is_retryable_reqwest_error e
               then send_post_from send left' (k + 1, w @ [retry_backoff_for_attempt (TRANSIENT_HTTP_MAX_RETRIES - left)])
               else (Inl e, (k + 1, w))))"

declare send_post_from.simps [simp del]

definition send_post :: "sender \<Rightarrow> net_state \<Rightarrow> (transport_error + http_response) \<times> net_state" where
  "send_post send = send_post_from send TRANSIENT_HTTP_MAX_RETRIES"

definition is_success :: "nat \<Rightarrow> bool" where
  "is_success status \<longleftrightarrow> 200 \<le> status \<and> status < 300"

definition response_bytes :: "http_response \<Rightarrow> string + string" where
  "response_bytes r = (case hr_broken r of Some e \<Rightarrow> Inl e | None \<Rightarrow> Inr (concat (hr_chunks r)))"

definition bytes_or_default :: "http_response \<Rightarrow> string" where
  "bytes_or_default r = (case response_bytes r of Inl e \<Rightarrow> [] | Inr b \<Rightarrow> b)"

definition request_failed :: "string \<Rightarrow> string \<Rightarrow> transport_error \<Rightarrow> llm_error" where
  "request_failed log_prefix trace_id e =
     Invoke_Failed (log_prefix @ '' request failed: '' @ te_text e @ '' (trace_id: '' @ trace_id @ '')'')"

definition retry_delay :: "provider_retry \<Rightarrow> nat \<Rightarrow> nat" where
  "retry_delay policy attempt = (case policy of RetryAfter ms \<Rightarrow> ms | _ \<Rightarrow> backoff_for_attempt attempt)"

definition classify :: "decode_env \<Rightarrow> provider_parser \<Rightarrow> http_response \<Rightarrow> provider_error" where
  "classify D parser r = decide D parser (hr_status r) (hr_headers r) (bytes_or_default r)"

text \<open>The loop over the attempts; falling out of it is a panic, \<open>None\<close>.\<close>

fun retry_loop ::
    "decode_env \<Rightarrow> provider_parser \<Rightarrow> string \<Rightarrow> string \<Rightarrow> sender \<Rightarrow> nat \<Rightarrow> provider_retry \<Rightarrow> net_state
     \<Rightarrow> (llm_error + http_response) option \<times> net_state" where
  "retry_loop D parser log_prefix trace_id send 0 policy st = (None, st)"
| "retry_loop D parser log_prefix trace_id send (Suc left) policy (k, w) =
     (let attempt = COMPAT_RETRY_MAX_RETRIES - Suc left
      in case send_post send (k, w @ [retry_delay policy attempt]) of
           (Inl e, st) \<Rightarrow>
             if is_retryable_reqwest_error e \<and> attempt < COMPAT_RETRY_MAX_RETRIES - 1
             then retry_loop D parser log_prefix trace_id send left policy st
             else (Some (Inl (request_failed log_prefix trace_id e)), st)
         | (Inr res, st) \<Rightarrow>
             if is_success (hr_status res) then (Some (Inr res), st)
             else
               let err = classify D parser res
               in if \<not> error_is_retryable err then (Some (Inl (Provider_Failed err)), st)
                  else if attempt = COMPAT_RETRY_MAX_RETRIES - 1 then (Some (Inl (Provider_Failed err)), st)
                  else retry_loop D parser log_prefix trace_id send left (pv_retry_policy err) st)"

definition send_with_retry ::
    "decode_env \<Rightarrow> string \<Rightarrow> string \<Rightarrow> string \<Rightarrow> sender \<Rightarrow> net_state \<Rightarrow> (llm_error + http_response) option \<times> net_state" where
  "send_with_retry D base_url log_prefix trace_id send st =
     (case send_post send st of
        (Inl e, st) \<Rightarrow> (Some (Inl (request_failed log_prefix trace_id e)), st)
      | (Inr res, st) \<Rightarrow>
          if is_success (hr_status res) then (Some (Inr res), st)
          else
            let parser = parser_for base_url; err = classify D parser res
            in if \<not> error_is_retryable err then (Some (Inl (Provider_Failed err)), st)
               else retry_loop D parser log_prefix trace_id send COMPAT_RETRY_MAX_RETRIES (pv_retry_policy err) st)"

subsection \<open>A whole answer\<close>

record response_tool_call =
  rt_id :: "string option"
  rt_function :: "(string \<times> string) option"

record response_message =
  rm_content :: "string option"
  rm_reasoning :: "string option"
  rm_tool_calls :: "response_tool_call list option"

record chat_completion_response =
  cr_choices :: "(response_message \<times> string option) list"
  cr_usage :: "llm_usage option"

record stream_tool_call_delta =
  sd_index :: u32
  sd_id :: "string option"
  sd_function :: "(string option \<times> string option) option"

record stream_delta =
  sl_content :: "string option"
  sl_reasoning :: "string option"
  sl_tool_calls :: "stream_tool_call_delta list option"

record stream_chunk =
  sk_choices :: "(stream_delta \<times> string option) list option"
  sk_usage :: "llm_usage option"

record 'f chat_env =
  ce_client :: "'f chat_openai_compat"
  ce_send :: "'f chat_completion_request \<Rightarrow> sender"
  ce_decode :: decode_env
  ce_json :: json_env
  ce_response :: "string \<Rightarrow> string + chat_completion_response"
  ce_chunk :: "string \<Rightarrow> stream_chunk option"
  ce_fresh :: "nat \<Rightarrow> string"
  ce_fresh' :: "nat \<Rightarrow> string"
  ce_trace :: "nat \<Rightarrow> string"
  ce_order :: "u32 list \<Rightarrow> u32 list"

definition response_call :: "response_tool_call \<Rightarrow> tool_call option" where
  "response_call tc = map_option (\<lambda>(name, args). \<lparr>tc_id = rt_id tc, tc_name = name, tc_arguments = args\<rparr>) (rt_function tc)"

definition strip_when :: "bool \<Rightarrow> string \<Rightarrow> string" where
  "strip_when parse s = (if parse then strip_reasoning_and_tool_tags s else s)"

definition whole_response :: "bool \<Rightarrow> chat_completion_response \<Rightarrow> response_message \<Rightarrow> string option \<Rightarrow> llm_response" where
  "whole_response parse r msg finish =
     (let content = opt_str (rm_content msg)
      in \<lparr>lr_content = strip_when parse content,
          lr_reasoning = (case rm_reasoning msg of Some t \<Rightarrow> Some t | None \<Rightarrow> collect_thinking_tags content),
          lr_tool_calls = (case rm_tool_calls msg of Some tcs \<Rightarrow> List.map_filter response_call tcs | None \<Rightarrow> []),
          lr_usage = cr_usage r, lr_finish_reason = finish\<rparr>)"

definition traced :: "string \<Rightarrow> string \<Rightarrow> llm_error" where
  "traced message trace_id = Invoke_Failed (message @ '' (trace_id: '' @ trace_id @ '')'')"

text \<open>\<open>invoke\<close>; \<open>t\<close> is the number of its trace. A panic is \<open>None\<close>.\<close>

definition chat_invoke ::
    "'f chat_env \<Rightarrow> nat \<Rightarrow> message list \<Rightarrow> net_state \<Rightarrow> (llm_error + llm_response) option \<times> net_state" where
  "chat_invoke E t messages st =
     (let C = ce_client E; trace = ce_trace E t;
          body = build_request (de_lower (ce_decode E)) (ce_fresh E) (ce_fresh' E) C messages False
      in case send_with_retry (ce_decode E) (co_base_url C) ''OpenAI-compat'' trace (ce_send E body) st of
           (None, st) \<Rightarrow> (None, st)
         | (Some (Inl e), st) \<Rightarrow> (Some (Inl e), st)
         | (Some (Inr res), st) \<Rightarrow>
             (Some (case response_bytes res of
                Inl e \<Rightarrow> Inl (traced (''OpenAI-compat response read: '' @ e) trace)
              | Inr bytes \<Rightarrow>
                  (case ce_response E bytes of
                     Inl e \<Rightarrow> Inl (traced (''OpenAI-compat response parse: '' @ e) trace)
                   | Inr r \<Rightarrow>
                       (case cr_choices r of
                          [] \<Rightarrow> Inl (traced ''OpenAI-compat returned no choices'' trace)
                        | (msg, finish) # _ \<Rightarrow> Inr (whole_response (co_parse_thinking_tags C) r msg finish)))), st))"

subsection \<open>A stream of events\<close>

text \<open>\<open>std::str::from_utf8\<close>: the byte sequences of RFC 3629.\<close>

fun utf8_valid_bytes :: "nat list \<Rightarrow> bool" where
  "utf8_valid_bytes [] = True"
| "utf8_valid_bytes (b # bs) =
     (let cont = (\<lambda>x. 128 \<le> x \<and> x < 192)
      in if b < 128 then utf8_valid_bytes bs
         else if 194 \<le> b \<and> b < 224 then
           (case bs of x # r \<Rightarrow> cont x \<and> utf8_valid_bytes r | _ \<Rightarrow> False)
         else if 224 \<le> b \<and> b < 240 then
           (case bs of
              x # y # r \<Rightarrow> cont x \<and> cont y \<and> (b = 224 \<longrightarrow> 160 \<le> x) \<and> (b = 237 \<longrightarrow> x < 160) \<and> utf8_valid_bytes r
            | _ \<Rightarrow> False)
         else if 240 \<le> b \<and> b < 245 then
           (case bs of
              x # y # z # r \<Rightarrow> cont x \<and> cont y \<and> cont z \<and> (b = 240 \<longrightarrow> 144 \<le> x) \<and> (b = 244 \<longrightarrow> x < 144) \<and> utf8_valid_bytes r
            | _ \<Rightarrow> False)
         else False)"

definition utf8_valid :: "string \<Rightarrow> bool" where
  "utf8_valid s = utf8_valid_bytes (map of_char s)"

datatype stream_event = Sent_Message string | Sent_Thinking string | Sent_Tool tool_call_chunk

record sse_state =
  ss_content :: string
  ss_reasoning :: string
  ss_sent_any :: bool
  ss_acc :: tool_call_accumulator
  ss_fwd :: tool_call_forwarder
  ss_usage :: "llm_usage option"
  ss_parser :: "thinking_tag_parser option"
  ss_finish :: "string option"
  ss_events :: "stream_event list"

definition sse_start :: "bool \<Rightarrow> sse_state" where
  "sse_start parse =
     \<lparr>ss_content = [], ss_reasoning = [], ss_sent_any = False, ss_acc = [], ss_fwd = [], ss_usage = None,
      ss_parser = (if parse then Some thinking_tag_parser_new else None), ss_finish = None, ss_events = []\<rparr>"

fun segment_event :: "thinking_segment \<Rightarrow> stream_event" where
  "segment_event (Seg_Message s) = Sent_Message s"
| "segment_event (Seg_Thinking s) = Sent_Thinking s"

definition raw_delta :: "stream_tool_call_delta \<Rightarrow> raw_tool_call_delta" where
  "raw_delta d =
     (case sd_function d of
        Some (name, args) \<Rightarrow> \<lparr>rd_index = sd_index d, rd_id = sd_id d, rd_name = name, rd_arguments = args\<rparr>
      | None \<Rightarrow> \<lparr>rd_index = sd_index d, rd_id = sd_id d, rd_name = None, rd_arguments = None\<rparr>)"

definition sse_finish_reason :: "string option \<Rightarrow> sse_state \<Rightarrow> sse_state" where
  "sse_finish_reason finish s =
     (case finish of Some f \<Rightarrow> if ss_finish s = None then s\<lparr>ss_finish := Some f\<rparr> else s | None \<Rightarrow> s)"

definition sse_reasoning :: "string option \<Rightarrow> sse_state \<Rightarrow> sse_state" where
  "sse_reasoning reasoning s =
     (case reasoning of
        Some r \<Rightarrow> if r \<noteq> [] then s\<lparr>ss_reasoning := ss_reasoning s @ r, ss_events := ss_events s @ [Sent_Thinking r]\<rparr> else s
      | None \<Rightarrow> s)"

definition sse_content :: "string option \<Rightarrow> sse_state \<Rightarrow> sse_state" where
  "sse_content content s =
     (case content of
        Some c \<Rightarrow>
          if c \<noteq> [] then
            let s = s\<lparr>ss_content := ss_content s @ c, ss_sent_any := True\<rparr>
            in case ss_parser s of
                 Some p \<Rightarrow> (case feed p c of (segs, p') \<Rightarrow>
                   s\<lparr>ss_parser := Some p', ss_events := ss_events s @ map segment_event segs\<rparr>)
               | None \<Rightarrow> s\<lparr>ss_events := ss_events s @ [Sent_Message c]\<rparr>
          else s
      | None \<Rightarrow> s)"

definition sse_tool_call :: "stream_tool_call_delta \<Rightarrow> sse_state \<Rightarrow> sse_state" where
  "sse_tool_call d s =
     (case forwarder_push (raw_delta d) (ss_fwd s) of
        (chunks, fwd) \<Rightarrow>
          s\<lparr>ss_fwd := fwd, ss_acc := acc_push (raw_delta d) (ss_acc s), ss_events := ss_events s @ map Sent_Tool chunks\<rparr>)"

definition sse_choice :: "stream_delta \<times> string option \<Rightarrow> sse_state \<Rightarrow> sse_state" where
  "sse_choice choice s =
     (case choice of (delta, finish) \<Rightarrow>
        fold sse_tool_call (case sl_tool_calls delta of Some ds \<Rightarrow> ds | None \<Rightarrow> [])
          (sse_content (sl_content delta) (sse_reasoning (sl_reasoning delta) (sse_finish_reason finish s))))"

datatype sse_step = Sse_Continue sse_state | Sse_Done sse_state | Sse_Failed llm_error sse_state

text \<open>The payload of a line: the prefix is taken off as often as it is there.\<close>

function trim_start_matches :: "string \<Rightarrow> string \<Rightarrow> string" where
  "trim_start_matches p s = (if p \<noteq> [] \<and> starts_with p s then trim_start_matches p (drop (length p) s) else s)"
  by pat_completeness auto
termination
proof (relation "measure (length \<circ> snd)")
  fix p s :: string
  assume "p \<noteq> [] \<and> starts_with p s"
  then have "0 < length p" "s \<noteq> []" by (auto simp: starts_with_def)
  then show "((p, drop (length p) s), p, s) \<in> measure (length \<circ> snd)" by simp
qed simp

declare trim_start_matches.simps [simp del]

definition sse_data :: "string \<Rightarrow> string option" where
  "sse_data line_bytes =
     (if \<not> utf8_valid line_bytes then None
      else let line = trim line_bytes
           in if line = [] \<or> \<not> starts_with ''data: '' line then None
              else Some (trim (trim_start_matches ''data: '' line)))"

definition sse_error :: "'f chat_env \<Rightarrow> string \<Rightarrow> bool" where
  "sse_error E dat \<longleftrightarrow> starts_with ''{'' dat \<and>
     (case je_parse (ce_json E) dat of
        Some v \<Rightarrow> json_get v ''error'' \<noteq> None \<and> json_get v ''choices'' = None
      | None \<Rightarrow> False)"

definition sse_line :: "'f chat_env \<Rightarrow> string \<Rightarrow> sse_state \<Rightarrow> sse_step" where
  "sse_line E line_bytes s =
     (case sse_data line_bytes of
        None \<Rightarrow> Sse_Continue s
      | Some dat \<Rightarrow>
          if dat = ''[DONE]'' then Sse_Done s
          else if sse_error E dat then
            Sse_Failed (Provider_Failed ((parse_error (ce_decode E) (parser_for (co_base_url (ce_client E))) 0 [] dat)
              \<lparr>pv_partial_tokens := ss_sent_any s\<rparr>)) s
          else case ce_chunk E dat of
            None \<Rightarrow> Sse_Continue s
          | Some chunk \<Rightarrow>
              let s = (case sk_usage chunk of Some u \<Rightarrow> s\<lparr>ss_usage := Some u\<rparr> | None \<Rightarrow> s)
              in Sse_Continue (case sk_choices chunk of Some cs \<Rightarrow> fold sse_choice cs s | None \<Rightarrow> s))"

fun sse_lines :: "'f chat_env \<Rightarrow> string list \<Rightarrow> sse_state \<Rightarrow> sse_step" where
  "sse_lines E [] s = Sse_Continue s"
| "sse_lines E (l # ls) s =
     (case sse_line E l s of Sse_Continue s' \<Rightarrow> sse_lines E ls s' | r \<Rightarrow> r)"

text \<open>The complete lines of the buffer, each with its newline, and what is left.\<close>

fun take_lines :: "string \<Rightarrow> string list \<times> string" where
  "take_lines [] = ([], [])"
| "take_lines (c # s) =
     (case take_lines s of
        (ls, rest) \<Rightarrow>
          if c = nl then ([c] # ls, rest)
          else case ls of [] \<Rightarrow> ([], c # rest) | l # ls' \<Rightarrow> ((c # l) # ls', rest))"

fun sse_body :: "'f chat_env \<Rightarrow> string \<Rightarrow> string list \<Rightarrow> string option \<Rightarrow> sse_state \<Rightarrow> sse_step" where
  "sse_body E buf [] broken s =
     (case broken of
        Some e \<Rightarrow> Sse_Failed (Invoke_Failed (''OpenAI-compat stream body: '' @ e)) s
      | None \<Rightarrow> Sse_Done s)"
| "sse_body E buf (c # cs) broken s =
     (case take_lines (buf @ c) of
        (ls, buf') \<Rightarrow>
          (case sse_lines E ls s of Sse_Continue s' \<Rightarrow> sse_body E buf' cs broken s' | r \<Rightarrow> r))"

end
