(* ===== verification/Chat_Stream.thy ===== *)
theory Chat_Stream
  imports Chat_Client
begin

text \<open>
  The end of \<open>invoke_stream\<close> in \<open>foundation/llm/src/client/openai_compat/llm_client.rs\<close>: what is left in the
  parser, the second request when nothing came, the end of the tool calls and the response. Then
  \<open>client/retry.rs\<close>, the client around a client that asks again after an empty response.
\<close>

definition sse_flush :: "sse_state \<Rightarrow> sse_state" where
  "sse_flush s =
     (case ss_parser s of
        Some p \<Rightarrow> s\<lparr>ss_events := ss_events s @ map segment_event (flush p)\<rparr>
      | None \<Rightarrow> s)"

definition nothing_came :: "sse_state \<Rightarrow> bool" where
  "nothing_came s \<longleftrightarrow>
     ss_content s = [] \<and> ss_reasoning s = [] \<and> ss_acc s = [] \<and>
     0 < (case ss_usage s of Some u \<Rightarrow> lu_completion u | None \<Rightarrow> 0)"

definition says_nothing :: "llm_response \<Rightarrow> bool" where
  "says_nothing r \<longleftrightarrow> lr_content r = [] \<and> lr_reasoning r = None \<and> lr_tool_calls r = []"

definition sse_take_fallback :: "llm_response \<Rightarrow> sse_state \<Rightarrow> sse_state" where
  "sse_take_fallback r s =
     (if says_nothing r then s
      else
        let s = s\<lparr>ss_content := lr_content r\<rparr>;
            s = (case lr_reasoning r of
                   Some t \<Rightarrow> s\<lparr>ss_reasoning := t, ss_events := ss_events s @ [Sent_Thinking t]\<rparr>
                 | None \<Rightarrow> s);
            s = (if ss_content s \<noteq> []
                 then s\<lparr>ss_sent_any := True, ss_events := ss_events s @ [Sent_Message (ss_content s)]\<rparr> else s);
            s = (if ss_usage s = None then s\<lparr>ss_usage := lr_usage r\<rparr> else s)
        in s\<lparr>ss_acc := acc_replace_from_vec (lr_tool_calls r)\<rparr>)"

definition sse_end :: "(u32 list \<Rightarrow> u32 list) \<Rightarrow> sse_state \<Rightarrow> sse_state" where
  "sse_end order s =
     (let s = (if \<not> ss_sent_any s \<and> ss_content s \<noteq> []
               then s\<lparr>ss_events := ss_events s @ [Sent_Message (ss_content s)]\<rparr> else s)
      in s\<lparr>ss_events := ss_events s @ map Sent_Tool (forwarder_finish order (ss_fwd s))\<rparr>)"

definition sse_response :: "json_env \<Rightarrow> bool \<Rightarrow> sse_state \<Rightarrow> llm_response" where
  "sse_response J parse s =
     \<lparr>lr_content = strip_when parse (ss_content s),
      lr_reasoning = (if ss_reasoning s = [] then collect_thinking_tags (ss_content s) else Some (ss_reasoning s)),
      lr_tool_calls = acc_finish J (ss_acc s), lr_usage = ss_usage s, lr_finish_reason = ss_finish s\<rparr>"

text \<open>Reading the answer. The trace of the second request is the next one.\<close>

definition chat_read_stream ::
    "'f chat_env \<Rightarrow> nat \<Rightarrow> message list \<Rightarrow> http_response \<Rightarrow> net_state
     \<Rightarrow> (llm_error + llm_response) option \<times> stream_event list \<times> net_state" where
  "chat_read_stream E t messages res st =
     (let parse = co_parse_thinking_tags (ce_client E)
      in case sse_body E [] (hr_chunks res) (hr_broken res) (sse_start parse) of
           Sse_Failed e s \<Rightarrow> (Some (Inl e), ss_events s, st)
         | Sse_Continue s \<Rightarrow> (None, ss_events s, st)
         | Sse_Done s \<Rightarrow>
             let s = sse_flush s
             in if \<not> nothing_came s
                then (let s = sse_end (ce_order E) s in (Some (Inr (sse_response (ce_json E) parse s)), ss_events s, st))
                else (case chat_invoke E (t + 1) messages st of
                        (None, st) \<Rightarrow> (None, ss_events s, st)
                      | (Some r, st) \<Rightarrow>
                          let s = (case r of Inr resp \<Rightarrow> sse_take_fallback resp s | Inl e \<Rightarrow> s);
                              s = sse_end (ce_order E) s
                          in (Some (Inr (sse_response (ce_json E) parse s)), ss_events s, st)))"

text \<open>\<open>invoke_stream\<close> of the client; \<open>sink\<close> tells whether there is one.\<close>

definition chat_invoke_stream ::
    "'f chat_env \<Rightarrow> nat \<Rightarrow> bool \<Rightarrow> message list \<Rightarrow> net_state
     \<Rightarrow> (llm_error + llm_response) option \<times> stream_event list \<times> net_state" where
  "chat_invoke_stream E t sink messages st =
     (if \<not> sink then (case chat_invoke E t messages st of (r, st) \<Rightarrow> (r, [], st))
      else
        let C = ce_client E;
            body = build_request (de_lower (ce_decode E)) (ce_fresh E) (ce_fresh' E) C messages True
        in case send_with_retry (ce_decode E) (co_base_url C) ''OpenAI-compat stream'' (ce_trace E t) (ce_send E body) st of
             (None, st) \<Rightarrow> (None, [], st)
           | (Some (Inl e), st) \<Rightarrow> (Some (Inl e), [], st)
           | (Some (Inr res), st) \<Rightarrow> chat_read_stream E t messages res st)"

subsection \<open>Asking again after an empty response\<close>

definition DEFAULT_MAX_RETRIES :: nat where "DEFAULT_MAX_RETRIES = 3"
definition BASE_DELAY :: nat where "BASE_DELAY = 500"

definition is_empty_response :: "llm_response \<Rightarrow> bool" where
  "is_empty_response r \<longleftrightarrow>
     trim (lr_content r) = [] \<and> (case lr_reasoning r of None \<Rightarrow> True | Some t \<Rightarrow> trim t = []) \<and> lr_tool_calls r = []"

record retry_llm_client =
  rl_max_retries :: nat
  rl_base_delay :: nat

definition retry_llm_client_new :: retry_llm_client where
  "retry_llm_client_new = \<lparr>rl_max_retries = DEFAULT_MAX_RETRIES, rl_base_delay = BASE_DELAY\<rparr>"

definition with_max_retries :: "nat \<Rightarrow> retry_llm_client \<Rightarrow> retry_llm_client" where
  "with_max_retries n C = C\<lparr>rl_max_retries := n\<rparr>"

definition with_base_delay :: "nat \<Rightarrow> retry_llm_client \<Rightarrow> retry_llm_client" where
  "with_base_delay d C = C\<lparr>rl_base_delay := d\<rparr>"

text \<open>The client inside is a function of its own state. The waits are listed; the power of two is a \<open>u32\<close>, its
  overflow a panic, \<open>None\<close>. \<open>f\<close> is what becomes of an error: nothing in the plain mode.\<close>

fun retry_from ::
    "(llm_error \<Rightarrow> llm_error) \<Rightarrow> ('s \<Rightarrow> (llm_error + llm_response) \<times> 's) \<Rightarrow> retry_llm_client \<Rightarrow> nat \<Rightarrow> 's \<Rightarrow> nat list
     \<Rightarrow> (llm_error + llm_response) option \<times> 's \<times> nat list" where
  "retry_from f inner C left s waits =
     (case inner s of
        (Inl e, s) \<Rightarrow> (Some (Inl (f e)), s, waits)
      | (Inr r, s) \<Rightarrow>
          if \<not> is_empty_response r then (Some (Inr r), s, waits)
          else
            let attempt = rl_max_retries C - left
            in if 2 ^ 32 \<le> (2::nat) ^ attempt then (None, s, waits)
               else
                 let waits = waits @ [rl_base_delay C * 2 ^ attempt]
                 in case left of
                      0 \<Rightarrow> (Some (Inl (Empty_Response (rl_max_retries C))), s, waits)
                    | Suc left' \<Rightarrow> retry_from f inner C left' s waits)"

declare retry_from.simps [simp del]

definition retry_invoke ::
    "('s \<Rightarrow> (llm_error + llm_response) \<times> 's) \<Rightarrow> retry_llm_client \<Rightarrow> 's \<Rightarrow> (llm_error + llm_response) option \<times> 's \<times> nat list" where
  "retry_invoke inner C s = retry_from id inner C (rl_max_retries C) s []"

definition retry_invoke_stream ::
    "('s \<Rightarrow> (llm_error + llm_response) \<times> 's) \<Rightarrow> retry_llm_client \<Rightarrow> 's \<Rightarrow> (llm_error + llm_response) option \<times> 's \<times> nat list" where
  "retry_invoke_stream inner C s = retry_from (\<lambda>e. Invoke_Failed (show_llm_error e)) inner C (rl_max_retries C) s []"

end
