(* ===== verification/Chat_Sending_Facts.thy ===== *)
theory Chat_Sending_Facts
  imports Chat_Stream
begin

text \<open>
  Sending with retries: how many requests there can be, how long each wait is, and whose answer is given
  back. Then the client that asks again after an empty response.
\<close>

subsection \<open>One request with its transport retries\<close>

text \<open>A wait is a step of a backoff, or the time an earlier answer has asked for.\<close>

definition wait_allowed :: "decode_env \<Rightarrow> sender \<Rightarrow> nat \<Rightarrow> nat \<Rightarrow> bool" where
  "wait_allowed D send k ms \<longleftrightarrow>
     ms \<le> 16000 \<or> (\<exists>j res. j < k \<and> send j = Inr res \<and> retry_after_millis D (hr_headers res) = Some ms)"

lemma wait_allowed_mono: "wait_allowed D send k ms \<Longrightarrow> k \<le> k' \<Longrightarrow> wait_allowed D send k' ms"
  unfolding wait_allowed_def by (meson order.strict_trans2)

lemma waits_allowed_mono: "list_all (wait_allowed D send k) w \<Longrightarrow> k \<le> k' \<Longrightarrow> list_all (wait_allowed D send k') w"
  by (auto simp: list_all_iff intro: wait_allowed_mono)

lemma backoff_bounds [simp]: "retry_backoff_for_attempt a \<le> 4000" "backoff_for_attempt a \<le> 16000"
  by (simp_all add: retry_backoff_for_attempt_def backoff_for_attempt_def)

lemma short_wait_allowed [simp]: "wait_allowed D send k (retry_backoff_for_attempt a)" "wait_allowed D send k (backoff_for_attempt a)"
  using order.trans [OF backoff_bounds(1) [of a], of 16000] by (simp_all add: wait_allowed_def)

lemma send_post_from_bounds:
  "send_post_from send left (k, w) = (r, k', w') \<Longrightarrow> list_all (wait_allowed D send k) w \<Longrightarrow>
   k < k' \<and> k' \<le> k + left + 1 \<and> send (k' - 1) = r \<and> list_all (wait_allowed D send k') w'"
proof (induction left arbitrary: k w)
  case 0
  then show ?case by (auto simp: send_post_from.simps [of _ 0] split: sum.splits elim: waits_allowed_mono)
next
  case (Suc left)
  show ?case
  proof (cases "\<exists>e. send k = Inl e \<and> is_retryable_reqwest_error e")
    case True
    let ?w = "w @ [retry_backoff_for_attempt (TRANSIENT_HTTP_MAX_RETRIES - Suc left)]"
    have "send_post_from send left (k + 1, ?w) = (r, k', w')"
      using Suc.prems(1) True by (auto simp: send_post_from.simps [of _ "Suc left"])
    moreover have "list_all (wait_allowed D send (k + 1)) ?w"
      using waits_allowed_mono [OF Suc.prems(2), of "k + 1"] by simp
    ultimately show ?thesis using Suc.IH by fastforce
  next
    case False
    then have "send k = r \<and> k' = k + 1 \<and> w' = w"
      using Suc.prems(1) by (auto simp: send_post_from.simps [of _ "Suc left"] split: sum.splits)
    then show ?thesis using waits_allowed_mono [OF Suc.prems(2), of "k + 1"] by simp
  qed
qed

lemmas send_post_bounds = send_post_from_bounds [where left = TRANSIENT_HTTP_MAX_RETRIES, folded send_post_def]

subsection \<open>The loop over the attempts\<close>

lemma asked_wait:
  assumes "pv_retry_policy (classify D (parser_for p) res) = RetryAfter ms"
  shows "retry_after_millis D (hr_headers res) = Some ms"
  using assms parsed_ok [of p "hr_status res" D "hr_headers res" "bytes_or_default res"]
  by (auto simp: classify_def decide_def Let_def error_ok_def default_retry_policy_def split: option.splits if_splits)

definition policy_asked :: "decode_env \<Rightarrow> sender \<Rightarrow> nat \<Rightarrow> provider_retry \<Rightarrow> bool" where
  "policy_asked D send k policy \<longleftrightarrow> (\<forall>a. wait_allowed D send k (retry_delay policy a))"

lemma classified_policy_asked:
  assumes "send (k - 1) = Inr res" "0 < k"
  shows "policy_asked D send k (pv_retry_policy (classify D (parser_for p) res))"
proof (cases "pv_retry_policy (classify D (parser_for p) res)")
  case (RetryAfter ms)
  have "k - 1 < k" using assms(2) by simp
  then show ?thesis using assms(1) asked_wait [OF RetryAfter] RetryAfter
    unfolding policy_asked_def wait_allowed_def retry_delay_def by auto
qed (simp_all add: policy_asked_def retry_delay_def)

text \<open>What is given back is the last answer: a success as it is, a refusal as its classified error, a
  transport error as such.\<close>

definition outcome_of :: "decode_env \<Rightarrow> string \<Rightarrow> string \<Rightarrow> string \<Rightarrow> transport_error + http_response \<Rightarrow> llm_error + http_response" where
  "outcome_of D base_url log_prefix trace_id r =
     (case r of
        Inl e \<Rightarrow> Inl (request_failed log_prefix trace_id e)
      | Inr res \<Rightarrow>
          if is_success (hr_status res) then Inr res
          else Inl (Provider_Failed (classify D (parser_for base_url) res)))"

lemma retry_loop_bounds:
  "retry_loop D (parser_for b) p t send left policy (k, w) = (r, k', w') \<Longrightarrow>
   list_all (wait_allowed D send k) w \<Longrightarrow> policy_asked D send k policy \<Longrightarrow> 0 < left \<Longrightarrow> left \<le> COMPAT_RETRY_MAX_RETRIES \<Longrightarrow>
   r = Some (outcome_of D b p t (send (k' - 1))) \<and> k < k' \<and>
   k' \<le> k + (TRANSIENT_HTTP_MAX_RETRIES + 1) * left \<and> list_all (wait_allowed D send k') w'"
proof (induction left arbitrary: policy k w)
  case (Suc left)
  let ?a = "COMPAT_RETRY_MAX_RETRIES - Suc left"
  have last_attempt: "?a = COMPAT_RETRY_MAX_RETRIES - 1 \<longleftrightarrow> left = 0" "?a < COMPAT_RETRY_MAX_RETRIES - 1 \<longleftrightarrow> 0 < left"
    using Suc.prems(5) by auto
  obtain q k1 w1 where s: "send_post send (k, w @ [retry_delay policy ?a]) = (q, k1, w1)" by (metis prod_cases3)
  have "list_all (wait_allowed D send k) (w @ [retry_delay policy ?a])"
    using Suc.prems(2,3) by (simp add: policy_asked_def)
  from send_post_bounds [OF s this]
  have b: "k < k1" "k1 \<le> k + TRANSIENT_HTTP_MAX_RETRIES + 1" "send (k1 - 1) = q" "list_all (wait_allowed D send k1) w1"
    by auto
  have again: ?case if "retry_loop D (parser_for b) p t send left policy' (k1, w1) = (r, k', w')" "0 < left"
      "policy_asked D send k1 policy'" for policy'
    using Suc.IH [OF that(1) b(4) that(3,2)] Suc.prems(5) b(1,2) by simp
  note step = Suc.prems(1) [simplified, unfolded Let_def s prod.case]
  show ?case
  proof (cases q)
    case (Inl e)
    show ?thesis
    proof (cases "is_retryable_reqwest_error e \<and> 0 < left")
      case True
      with step Inl last_attempt have "retry_loop D (parser_for b) p t send left policy (k1, w1) = (r, k', w')" by simp
      moreover have "policy_asked D send k1 policy"
        using Suc.prems(3) b(1) unfolding policy_asked_def by (meson wait_allowed_mono less_imp_le)
      ultimately show ?thesis using again True by blast
    next
      case False
      with step Inl last_attempt have "r = Some (Inl (request_failed p t e)) \<and> k' = k1 \<and> w' = w1" by auto
      then show ?thesis using Inl b by (simp add: outcome_of_def)
    qed
  next
    case (Inr res)
    let ?err = "classify D (parser_for b) res"
    show ?thesis
    proof (cases "\<not> is_success (hr_status res) \<and> error_is_retryable ?err \<and> left \<noteq> 0")
      case True
      with step Inr last_attempt
      have "retry_loop D (parser_for b) p t send left (pv_retry_policy ?err) (k1, w1) = (r, k', w')" by simp
      moreover have "policy_asked D send k1 (pv_retry_policy ?err)"
        using classified_policy_asked b(1,3) Inr by fastforce
      ultimately show ?thesis using again True by blast
    next
      case False
      with step Inr last_attempt have "r = Some (outcome_of D b p t (Inr res)) \<and> k' = k1 \<and> w' = w1"
        by (auto simp: outcome_of_def split: if_splits)
      then show ?thesis using Inr b by simp
    qed
  qed
qed simp

lemma send_with_retry_bounds:
  assumes "send_with_retry D b p t send (k, w) = (r, k', w')" "list_all (wait_allowed D send k) w"
  shows "r = Some (outcome_of D b p t (send (k' - 1))) \<and> k < k' \<and> k' \<le> k + 231 \<and> list_all (wait_allowed D send k') w'"
proof -
  obtain q k1 w1 where s: "send_post send (k, w) = (q, k1, w1)" by (metis prod_cases3)
  from send_post_bounds [OF s assms(2)]
  have b: "k < k1" "k1 \<le> k + 11" "send (k1 - 1) = q" "list_all (wait_allowed D send k1) w1"
    by (auto simp: TRANSIENT_HTTP_MAX_RETRIES_def)
  note step = assms(1) [unfolded send_with_retry_def s prod.case Let_def]
  show ?thesis
  proof (cases "\<exists>res. q = Inr res \<and> \<not> is_success (hr_status res) \<and> error_is_retryable (classify D (parser_for b) res)")
    case True
    then obtain res where res: "q = Inr res" "\<not> is_success (hr_status res)" "error_is_retryable (classify D (parser_for b) res)"
      by blast
    let ?p = "pv_retry_policy (classify D (parser_for b) res)"
    have l: "retry_loop D (parser_for b) p t send COMPAT_RETRY_MAX_RETRIES ?p (k1, w1) = (r, k', w')" using step res by simp
    have "policy_asked D send k1 ?p" using classified_policy_asked res(1) b(1,3) by fastforce
    from retry_loop_bounds [OF l b(4) this] b(1,2) show ?thesis
      by (simp add: COMPAT_RETRY_MAX_RETRIES_def TRANSIENT_HTTP_MAX_RETRIES_def)
  next
    case False
    with step have "r = Some (outcome_of D b p t q) \<and> k' = k1 \<and> w' = w1"
      by (auto simp: outcome_of_def split: sum.splits if_splits)
    then show ?thesis using b by simp
  qed
qed

text \<open>C10: Sending a request always comes to an end and never reaches the panic behind the loop: it takes at least
  one and at most 231 requests, every wait is at most sixteen seconds or the time an earlier answer asked
  for, and what comes back is the answer to the last request, a refusal as its classified error.\<close>

theorem sending_is_bounded:
  "case send_with_retry D base_url log_prefix trace_id send (0, []) of
     (r, k, w) \<Rightarrow> 1 \<le> k \<and> k \<le> 231 \<and> r = Some (outcome_of D base_url log_prefix trace_id (send (k - 1))) \<and>
       list_all (wait_allowed D send k) w"
  using send_with_retry_bounds [of D base_url log_prefix trace_id send 0 "[]"]
  by (cases "send_with_retry D base_url log_prefix trace_id send (0, [])") auto

text \<open>The time a provider asks for has no bound of its own: whatever it is, it is waited for.\<close>

lemma asked_time_is_waited:
  assumes "send 0 = Inr r0" "\<not> is_success (hr_status r0)" "error_is_retryable (classify D (parser_for b) r0)"
    and "retry_after_millis D (hr_headers r0) = Some ms" "send 1 = Inr r1" "is_success (hr_status r1)"
  shows "send_with_retry D b p t send (0, []) = (Some (Inr r1), 2, [ms])"
proof -
  have policy: "pv_retry_policy (classify D (parser_for b) r0) = RetryAfter ms"
    using assms(3,4) parsed_ok [of b "hr_status r0" D "hr_headers r0" "bytes_or_default r0"]
    by (auto simp: classify_def decide_def Let_def error_ok_def default_retry_policy_def error_is_retryable_def split: if_splits)
  have post: "send_post send (k, w) = (send k, k + 1, w)" if "send k = Inr r" for k w r
    using that unfolding send_post_def TRANSIENT_HTTP_MAX_RETRIES_def by (simp add: send_post_from.simps)
  have n: "COMPAT_RETRY_MAX_RETRIES = Suc 19" by (simp add: COMPAT_RETRY_MAX_RETRIES_def)
  have "retry_loop D (parser_for b) p t send (Suc 19) (RetryAfter ms) (1, []) = (Some (Inr r1), 2, [ms])"
    using assms(5,6) post [OF assms(5)] unfolding retry_loop.simps by (simp add: retry_delay_def)
  then show ?thesis
    using assms(1-3) policy post [OF assms(1)] unfolding n by (simp add: send_with_retry_def n)
qed

subsection \<open>Asking again after an empty response\<close>

text \<open>The answers of the client inside, one after the other.\<close>

definition answering :: "(nat \<Rightarrow> llm_error + llm_response) \<Rightarrow> nat \<Rightarrow> (llm_error + llm_response) \<times> nat" where
  "answering ans k = (ans k, k + 1)"

definition answered_empty :: "(nat \<Rightarrow> llm_error + llm_response) \<Rightarrow> nat \<Rightarrow> bool" where
  "answered_empty ans k = (case ans k of Inr r \<Rightarrow> is_empty_response r | Inl e \<Rightarrow> False)"

text \<open>What it gives back: the first answer that is not empty, or that all were empty.\<close>

definition first_said :: "(llm_error \<Rightarrow> llm_error) \<Rightarrow> (nat \<Rightarrow> llm_error + llm_response) \<Rightarrow> nat \<Rightarrow> llm_error + llm_response" where
  "first_said f ans n =
     (case List.find (\<lambda>k. \<not> answered_empty ans k) [0..<n + 1] of
        Some k \<Rightarrow> map_sum f id (ans k)
      | None \<Rightarrow> Inl (Empty_Response n))"

definition asked_times :: "(nat \<Rightarrow> llm_error + llm_response) \<Rightarrow> nat \<Rightarrow> nat" where
  "asked_times ans n = length (takeWhile (answered_empty ans) [0..<n + 1])"

lemma retry_from_answering:
  "rl_max_retries C < 32 \<Longrightarrow> k + left = rl_max_retries C \<Longrightarrow>
   retry_from f (answering ans) C left k waits =
     (Some (case List.find (\<lambda>k. \<not> answered_empty ans k) [k..<rl_max_retries C + 1] of
        Some k \<Rightarrow> map_sum f id (ans k) | None \<Rightarrow> Inl (Empty_Response (rl_max_retries C))),
      min (k + length (takeWhile (answered_empty ans) [k..<rl_max_retries C + 1])) (rl_max_retries C) + 1,
      waits @ map (\<lambda>i. rl_base_delay C * 2 ^ i)
        [k..<k + length (takeWhile (answered_empty ans) [k..<rl_max_retries C + 1])])"
proof (induction left arbitrary: k waits)
  case 0
  have "(2::nat) ^ k < 2 ^ 32" using 0 by (intro power_strict_increasing) simp_all
  then show ?case using 0
    by (auto simp: retry_from.simps [of _ _ _ 0] answering_def answered_empty_def Let_def split: sum.splits)
next
  case (Suc left)
  have k: "k < 32" "k = rl_max_retries C - Suc left" "k < rl_max_retries C + 1" using Suc.prems by simp_all
  then have p: "(2::nat) ^ k < 2 ^ 32" by (intro power_strict_increasing) simp_all
  show ?case
  proof (cases "answered_empty ans k")
    case False
    then show ?thesis using k Suc.prems
      by (auto simp: retry_from.simps [of _ _ _ "Suc left"] answering_def answered_empty_def upt_conv_Cons split: sum.splits)
  next
    case True
    then obtain r where r: "ans k = Inr r" "is_empty_response r" by (auto simp: answered_empty_def split: sum.splits)
    have "retry_from f (answering ans) C (Suc left) k waits =
        retry_from f (answering ans) C left (k + 1) (waits @ [rl_base_delay C * 2 ^ k])"
      using r p k(2) by (simp add: retry_from.simps [of _ _ _ "Suc left"] answering_def Let_def)
    moreover have "k + 1 + left = rl_max_retries C" using Suc.prems(2) by simp
    note Suc.IH [OF Suc.prems(1) this, of "waits @ [rl_base_delay C * 2 ^ k]"]
    moreover define u where "u = length (takeWhile (answered_empty ans) [k + 1..<rl_max_retries C + 1])"
    moreover have "[k..<rl_max_retries C + 1] = k # [k + 1..<rl_max_retries C + 1]" "[k..<k + Suc u] = k # [k + 1..<k + 1 + u]"
      using k(3) by (simp_all add: upt_conv_Cons)
    ultimately show ?thesis using True by (simp del: upt_Suc)
  qed
qed

text \<open>A client that asks again asks at most once more than it may retry, waits twice as long each time, and
  gives back the first answer that says something: a response, or an error at once. When all were empty it
  says so; then it has waited after the last answer too.\<close>

theorem empty_answers_are_retried:
  assumes "rl_max_retries C < 32"
  shows "retry_invoke (answering ans) C 0 =
    (Some (first_said id ans (rl_max_retries C)), min (asked_times ans (rl_max_retries C)) (rl_max_retries C) + 1,
     map (\<lambda>i. rl_base_delay C * 2 ^ i) [0..<asked_times ans (rl_max_retries C)])"
  unfolding retry_invoke_def using retry_from_answering [OF assms, of 0 "rl_max_retries C"]
  by (simp only: add_0 append_Nil first_said_def asked_times_def)

theorem empty_answers_are_retried_witness:
  "snd (snd (retry_invoke (answering (\<lambda>_. Inr \<lparr>lr_content = '' '', lr_reasoning = None, lr_tool_calls = [],
      lr_usage = None, lr_finish_reason = None\<rparr>)) retry_llm_client_new 0)) = [500, 1000, 2000, 4000]"
proof -
  have "rl_max_retries retry_llm_client_new = 3" "rl_base_delay retry_llm_client_new = 500"
    by (simp_all add: retry_llm_client_new_def DEFAULT_MAX_RETRIES_def BASE_DELAY_def)
  moreover have "trim '' '' = []" by code_simp
  moreover have "[0..<4] = [0, 1, 2, 3::nat]" by (simp add: upt_rec)
  ultimately show ?thesis
    using empty_answers_are_retried [of retry_llm_client_new "\<lambda>_. Inr \<lparr>lr_content = '' '', lr_reasoning = None, lr_tool_calls = [],
      lr_usage = None, lr_finish_reason = None\<rparr>"]
    by (simp add: asked_times_def answered_empty_def is_empty_response_def)
qed

text \<open>While streaming every error becomes a failed call, so a cancelled one counts as one that may be retried.\<close>

lemma stream_forgets_cancelling:
  "fst (retry_invoke_stream (answering (\<lambda>_. Inl Llm_Cancelled)) C 0) = Some (Inl (Invoke_Failed ''LLM call cancelled''))"
  "llm_error_is_retryable (Invoke_Failed ''LLM call cancelled'') \<and> \<not> llm_error_is_retryable Llm_Cancelled"
  by (simp_all add: retry_invoke_stream_def retry_from.simps answering_def)

end
