(* ===== verification/Chat_Stream_Facts.thy ===== *)
theory Chat_Stream_Facts
  imports Chat_Stream
begin

text \<open>
  Facts on a streamed answer: it does not matter how the network cuts it, and what the sink was shown is what
  the response says.
\<close>

subsection \<open>Lines\<close>

lemma take_lines_append:
  "take_lines (a @ b) = (case take_lines a of (ls, r) \<Rightarrow> case take_lines (r @ b) of (ls', r') \<Rightarrow> (ls @ ls', r'))"
proof (induction a)
  case (Cons c a)
  obtain ls r where a: "take_lines a = (ls, r)" by fastforce
  show ?case
  proof (cases "c = nl \<or> ls \<noteq> []")
    case True
    then show ?thesis using Cons a by (auto simp: case_prod_beta split: list.splits)
  next
    case False
    then show ?thesis using Cons a by (auto simp: case_prod_beta split: list.splits)
  qed
qed simp

definition line_step :: "string \<Rightarrow> string \<Rightarrow> string list \<times> string" where
  "line_step buf c = take_lines (buf @ c)"

definition line_meaning :: "string \<Rightarrow> string \<Rightarrow> string list" where
  "line_meaning buf rest = fst (take_lines (buf @ rest))"

interpretation event_lines: chunk_reader line_step line_meaning
proof
  fix buf c out buf' rest
  assume "line_step buf c = (out, buf')"
  then show "line_meaning buf (c @ rest) = out @ line_meaning buf' rest"
    using take_lines_append [of "buf @ c" rest] by (simp add: line_step_def line_meaning_def case_prod_beta)
qed

lemma take_lines_rest: "take_lines a = (ls, r) \<Longrightarrow> take_lines r = ([], r)"
  by (induction a arbitrary: ls r) (auto split: prod.splits list.splits if_splits)

lemma lines_meaning_Nil: "event_lines.read_chunks [] cs = (ls, buf) \<Longrightarrow> ls = fst (take_lines (concat cs))"
proof -
  assume a: "event_lines.read_chunks [] cs = (ls, buf)"
  have "take_lines buf = ([], buf)" if "event_lines.read_chunks b cs = (ls, buf)" "take_lines b = ([], b)" for b
    using that
  proof (induction cs arbitrary: b ls)
    case (Cons c cs)
    then obtain l1 b1 l2 where l: "line_step b c = (l1, b1)" "event_lines.read_chunks b1 cs = (l2, buf)"
      by (auto split: prod.splits)
    show ?case using Cons.IH [OF l(2)] take_lines_rest [OF l(1) [unfolded line_step_def]] by blast
  qed auto
  then have "take_lines buf = ([], buf)" using a by simp
  then show ?thesis using event_lines.read_chunks_meaning [OF a, of "[]"] by (simp add: line_meaning_def)
qed

lemma sse_lines_append:
  "sse_lines E (a @ b) s = (case sse_lines E a s of Sse_Continue s' \<Rightarrow> sse_lines E b s' | r \<Rightarrow> r)"
  by (induction a arbitrary: s) (auto split: sse_step.splits)

definition sse_stop :: "string option \<Rightarrow> sse_state \<Rightarrow> sse_step" where
  "sse_stop broken s =
     (case broken of
        Some e \<Rightarrow> Sse_Failed (Invoke_Failed (''OpenAI-compat stream body: '' @ e)) s
      | None \<Rightarrow> Sse_Done s)"

lemma sse_body_chunks:
  "event_lines.read_chunks buf cs = (ls, buf') \<Longrightarrow>
   sse_body E buf cs broken s = (case sse_lines E ls s of Sse_Continue s' \<Rightarrow> sse_stop broken s' | r \<Rightarrow> r)"
proof (induction cs arbitrary: buf ls s)
  case Nil
  then show ?case by (auto simp: sse_stop_def split: option.splits)
next
  case (Cons c cs)
  then obtain l1 b1 l2 where l: "line_step buf c = (l1, b1)" "event_lines.read_chunks b1 cs = (l2, buf')" "ls = l1 @ l2"
    by (auto split: prod.splits)
  then show ?case using Cons.IH [OF l(2)] l(1) [unfolded line_step_def] by (auto simp: sse_lines_append split: sse_step.splits)
qed

lemma sse_body_eq:
  "sse_body E [] cs broken s =
   (case sse_lines E (fst (take_lines (concat cs))) s of Sse_Continue s' \<Rightarrow> sse_stop broken s' | r \<Rightarrow> r)"
proof -
  obtain ls buf where r: "event_lines.read_chunks [] cs = (ls, buf)" by fastforce
  show ?thesis unfolding sse_body_chunks [OF r] lines_meaning_Nil [OF r] ..
qed

subsection \<open>Answers in one piece\<close>

definition in_one_piece :: "http_response \<Rightarrow> http_response" where
  "in_one_piece r = r\<lparr>hr_chunks := [concat (hr_chunks r)]\<rparr>"

definition whole_sender :: "sender \<Rightarrow> sender" where
  "whole_sender send k = map_sum id in_one_piece (send k)"

lemma in_one_piece_simps [simp]:
  "hr_status (in_one_piece r) = hr_status r" "hr_headers (in_one_piece r) = hr_headers r"
  "hr_chunks (in_one_piece r) = [concat (hr_chunks r)]" "hr_broken (in_one_piece r) = hr_broken r"
  "response_bytes (in_one_piece r) = response_bytes r" "classify D p (in_one_piece r) = classify D p r"
  by (simp_all add: in_one_piece_def response_bytes_def bytes_or_default_def classify_def split: option.split)

lemma send_post_whole:
  "send_post (whole_sender send) st = (case send_post send st of (r, st) \<Rightarrow> (map_sum id in_one_piece r, st))"
proof -
  have "send_post_from (whole_sender send) left (k, w) =
      (case send_post_from send left (k, w) of (r, st) \<Rightarrow> (map_sum id in_one_piece r, st))" for left k w
  proof (induction left arbitrary: k w)
    case 0
    then show ?case by (simp add: send_post_from.simps [of _ 0] whole_sender_def split: sum.splits)
  next
    case (Suc left)
    then show ?case by (auto simp: send_post_from.simps [of _ "Suc left"] whole_sender_def split: sum.splits)
  qed
  then show ?thesis by (cases st) (simp add: send_post_def)
qed

lemma retry_loop_whole:
  "retry_loop D parser p t (whole_sender send) left policy st =
   (case retry_loop D parser p t send left policy st of (r, st) \<Rightarrow> (map_option (map_sum id in_one_piece) r, st))"
proof (induction D parser p t send left policy st rule: retry_loop.induct)
  case (2 D parser p t send left policy k w)
  let ?a = "COMPAT_RETRY_MAX_RETRIES - Suc left"
  obtain q st1 where s: "send_post send (k, w @ [retry_delay policy ?a]) = (q, st1)" by (metis surj_pair)
  show ?case using 2 s
    by (cases q) (auto simp: send_post_whole Let_def)
qed simp

lemma send_with_retry_whole:
  "send_with_retry D b p t (whole_sender send) st =
   (case send_with_retry D b p t send st of (r, st) \<Rightarrow> (map_option (map_sum id in_one_piece) r, st))"
proof -
  obtain q st1 where s: "send_post send st = (q, st1)" by (metis surj_pair)
  show ?thesis
    by (cases q) (auto simp: send_with_retry_def s send_post_whole retry_loop_whole Let_def)
qed

definition whole_env :: "'f chat_env \<Rightarrow> 'f chat_env" where
  "whole_env E = E\<lparr>ce_send := \<lambda>body. whole_sender (ce_send E body)\<rparr>"

lemma whole_env_simps [simp]:
  "ce_client (whole_env E) = ce_client E" "ce_decode (whole_env E) = ce_decode E" "ce_json (whole_env E) = ce_json E"
  "ce_response (whole_env E) = ce_response E" "ce_chunk (whole_env E) = ce_chunk E" "ce_fresh (whole_env E) = ce_fresh E"
  "ce_fresh' (whole_env E) = ce_fresh' E" "ce_trace (whole_env E) = ce_trace E" "ce_order (whole_env E) = ce_order E"
  "ce_send (whole_env E) body = whole_sender (ce_send E body)"
  by (simp_all add: whole_env_def)

lemma chat_invoke_whole: "chat_invoke (whole_env E) t messages st = chat_invoke E t messages st"
  unfolding chat_invoke_def Let_def whole_env_simps send_with_retry_whole
  by (auto split: prod.splits option.splits sum.splits)

lemma sse_lines_whole: "sse_lines (whole_env E) ls s = sse_lines E ls s"
proof (induction ls arbitrary: s)
  case (Cons l ls)
  have "sse_error (whole_env E) = sse_error E" by (rule ext) (simp add: sse_error_def)
  then have "sse_line (whole_env E) l s = sse_line E l s" by (simp only: sse_line_def whole_env_simps)
  then show ?case using Cons by (simp split: sse_step.split)
qed simp

lemma sse_body_whole: "sse_body (whole_env E) [] [concat cs] broken s = sse_body E [] cs broken s"
  by (simp only: sse_body_eq sse_lines_whole concat.simps append_Nil2)

lemma chat_read_stream_whole:
  "chat_read_stream (whole_env E) t messages (in_one_piece res) st = chat_read_stream E t messages res st"
  by (simp only: chat_read_stream_def whole_env_simps in_one_piece_simps sse_body_whole chat_invoke_whole)

text \<open>C11: It does not matter how the network cuts the answers: events, response, errors, requests and waits are the
  same when every answer comes in one piece.\<close>

theorem chunks_do_not_matter:
  "chat_invoke_stream (whole_env E) t sink messages st = chat_invoke_stream E t sink messages st"
  unfolding chat_invoke_stream_def Let_def whole_env_simps send_with_retry_whole chat_invoke_whole
  by (auto simp: chat_read_stream_whole split: prod.split option.split sum.split)

subsection \<open>What the sink was shown\<close>

fun event_message :: "stream_event \<Rightarrow> string" where
  "event_message (Sent_Message s) = s"
| "event_message e = []"

fun event_thinking :: "stream_event \<Rightarrow> string" where
  "event_thinking (Sent_Thinking s) = s"
| "event_thinking e = []"

fun event_chunks :: "stream_event \<Rightarrow> tool_call_chunk list" where
  "event_chunks (Sent_Tool c) = [c]"
| "event_chunks e = []"

definition message_text :: "stream_event list \<Rightarrow> string" where
  "message_text evs = concat (map event_message evs)"

definition thinking_text :: "stream_event list \<Rightarrow> string" where
  "thinking_text evs = concat (map event_thinking evs)"

definition tool_events :: "stream_event list \<Rightarrow> tool_call_chunk list" where
  "tool_events evs = concat (map event_chunks evs)"

lemma shown_simps [simp]:
  "message_text [] = []" "message_text (e # evs) = event_message e @ message_text evs"
  "message_text (evs @ evs') = message_text evs @ message_text evs'"
  "thinking_text [] = []" "thinking_text (e # evs) = event_thinking e @ thinking_text evs"
  "thinking_text (evs @ evs') = thinking_text evs @ thinking_text evs'"
  "tool_events [] = []" "tool_events (e # evs) = event_chunks e @ tool_events evs"
  "tool_events (evs @ evs') = tool_events evs @ tool_events evs'"
  by (simp_all add: message_text_def thinking_text_def tool_events_def)

lemma shown_tools [simp]:
  "message_text (map Sent_Tool cs) = []" "thinking_text (map Sent_Tool cs) = []" "tool_events (map Sent_Tool cs) = cs"
  by (induction cs) simp_all

lemma shown_segments [simp]:
  "message_text (map segment_event segs) = bytes_of Outside (all_marked segs)"
  "tool_events (map segment_event segs) = []"
proof (induction segs)
  case (Cons a segs)
  { case 1 then show ?case using Cons by (cases a) simp_all }
  { case 2 then show ?case using Cons by (cases a) simp_all }
qed simp_all

lemma feed_all_snoc:
  "feed_all p (ds @ [d]) = (case feed_all p ds of (segs, p') \<Rightarrow> case feed p' d of (segs', p'') \<Rightarrow> (segs @ segs', p''))"
  by (induction ds arbitrary: p) (simp_all add: case_prod_beta)

lemma forward_all_snoc:
  "forward_all fwd (ds @ [d]) =
   (case forward_all fwd ds of (cs, fwd') \<Rightarrow> case forwarder_push d fwd' of (cs', fwd'') \<Rightarrow> (cs @ cs', fwd''))"
  by (induction ds arbitrary: fwd) (simp_all add: case_prod_beta)

text \<open>The reply: without the parser it is shown as it is; with it, what the parser makes of the pieces.\<close>

definition text_shown :: "sse_state \<Rightarrow> bool" where
  "text_shown s \<longleftrightarrow>
     (case ss_parser s of
        None \<Rightarrow> message_text (ss_events s) = ss_content s \<and> thinking_text (ss_events s) = ss_reasoning s
      | Some p \<Rightarrow>
          (\<exists>ds segs. feed_all thinking_tag_parser_new ds = (segs, p) \<and> concat ds = ss_content s \<and>
             message_text (ss_events s) = bytes_of Outside (all_marked segs)))"

definition calls_shown :: "sse_state \<Rightarrow> bool" where
  "calls_shown s \<longleftrightarrow>
     (\<exists>ds. ss_acc s = fold acc_push ds [] \<and> forward_all [] ds = (tool_events (ss_events s), ss_fwd s))"

definition stream_shown :: "bool \<Rightarrow> sse_state \<Rightarrow> bool" where
  "stream_shown parse s \<longleftrightarrow>
     text_shown s \<and> calls_shown s \<and> (ss_sent_any s \<longleftrightarrow> ss_content s \<noteq> []) \<and> (ss_parser s = None \<longleftrightarrow> \<not> parse)"

lemma sse_start_shown: "stream_shown parse (sse_start parse)"
proof -
  have "feed_all thinking_tag_parser_new [] = ([], thinking_tag_parser_new)" "concat [] = []"
    "forward_all [] [] = ([], [])" "fold acc_push [] [] = []" by simp_all
  then show ?thesis unfolding stream_shown_def text_shown_def calls_shown_def sse_start_def by (auto intro: exI [of _ "[]"])
qed

lemma sse_finish_reason_shown: "stream_shown parse s \<Longrightarrow> stream_shown parse (sse_finish_reason f s)"
  by (auto simp: sse_finish_reason_def stream_shown_def text_shown_def calls_shown_def split: option.split)

lemma sse_reasoning_shown: "stream_shown parse s \<Longrightarrow> stream_shown parse (sse_reasoning r s)"
  by (auto simp: sse_reasoning_def stream_shown_def text_shown_def calls_shown_def split: option.splits)

lemma sse_content_shown:
  assumes "stream_shown parse s"
  shows "stream_shown parse (sse_content c s)"
proof (cases "c = None \<or> c = Some []")
  case True
  then show ?thesis using assms by (auto simp: sse_content_def)
next
  case False
  then obtain t where t: "c = Some t" "t \<noteq> []" by auto
  show ?thesis
  proof (cases "ss_parser s")
    case None
    then show ?thesis using assms t by (simp add: sse_content_def stream_shown_def text_shown_def calls_shown_def)
  next
    case (Some p)
    then obtain ds segs where d: "feed_all thinking_tag_parser_new ds = (segs, p)" "concat ds = ss_content s"
      "message_text (ss_events s) = bytes_of Outside (all_marked segs)"
      using assms by (auto simp: stream_shown_def text_shown_def)
    obtain segs' p' where f: "feed p t = (segs', p')" by fastforce
    have e: "sse_content c s = s\<lparr>ss_content := ss_content s @ t, ss_sent_any := True, ss_parser := Some p',
        ss_events := ss_events s @ map segment_event segs'\<rparr>"
      using t Some f by (simp add: sse_content_def)
    have "feed_all thinking_tag_parser_new (ds @ [t]) = (segs @ segs', p')" using d(1) f by (simp add: feed_all_snoc)
    moreover have "concat (ds @ [t]) = ss_content (sse_content c s)" using d(2) e by simp
    moreover have "message_text (ss_events (sse_content c s)) = bytes_of Outside (all_marked (segs @ segs'))"
      using d(3) e by simp
    moreover have "ss_parser (sse_content c s) = Some p'" using e by simp
    ultimately have "text_shown (sse_content c s)"
      by (simp only: text_shown_def option.case) blast
    then show ?thesis using assms t(2) Some by (simp add: stream_shown_def calls_shown_def e)
  qed
qed

lemma sse_tool_call_shown:
  assumes "stream_shown parse s"
  shows "stream_shown parse (sse_tool_call d s)"
proof -
  obtain ds where d: "ss_acc s = fold acc_push ds []" "forward_all [] ds = (tool_events (ss_events s), ss_fwd s)"
    using assms by (auto simp: stream_shown_def calls_shown_def)
  obtain cs fwd where f: "forwarder_push (raw_delta d) (ss_fwd s) = (cs, fwd)" by fastforce
  have "acc_push (raw_delta d) (ss_acc s) = fold acc_push (ds @ [raw_delta d]) []" using d(1) by simp
  moreover have "forward_all [] (ds @ [raw_delta d]) = (tool_events (ss_events s @ map Sent_Tool cs), fwd)"
    using d(2) f by (simp add: forward_all_snoc)
  ultimately have "calls_shown (sse_tool_call d s)" unfolding calls_shown_def sse_tool_call_def f prod.case
    by (intro exI [of _ "ds @ [raw_delta d]"]) simp
  then show ?thesis using assms f by (auto simp: stream_shown_def sse_tool_call_def text_shown_def split: option.split)
qed

lemma sse_choice_shown: "stream_shown parse s \<Longrightarrow> stream_shown parse (sse_choice c s)"
proof -
  have "stream_shown parse s \<Longrightarrow> stream_shown parse (fold sse_tool_call ds s)" for ds s
    by (induction ds arbitrary: s) (simp_all add: sse_tool_call_shown)
  then show "stream_shown parse s \<Longrightarrow> stream_shown parse (sse_choice c s)"
    by (simp add: sse_choice_def case_prod_beta sse_content_shown sse_reasoning_shown sse_finish_reason_shown)
qed

fun step_state :: "sse_step \<Rightarrow> sse_state" where
  "step_state (Sse_Continue s) = s"
| "step_state (Sse_Done s) = s"
| "step_state (Sse_Failed e s) = s"

lemma sse_line_shown: "stream_shown parse s \<Longrightarrow> stream_shown parse (step_state (sse_line E l s))"
proof -
  assume s: "stream_shown parse s"
  have f: "stream_shown parse s \<Longrightarrow> stream_shown parse (fold sse_choice cs s)" for cs s
    by (induction cs arbitrary: s) (simp_all add: sse_choice_shown)
  have "stream_shown parse (s\<lparr>ss_usage := u\<rparr>)" for u using s by (auto simp: stream_shown_def text_shown_def calls_shown_def split: option.split)
  then show ?thesis using s f by (auto simp: sse_line_def Let_def split: option.split)
qed

lemma sse_lines_shown: "stream_shown parse s \<Longrightarrow> stream_shown parse (step_state (sse_lines E ls s))"
proof (induction ls arbitrary: s)
  case (Cons l ls)
  from sse_line_shown [OF Cons.prems, of E l] Cons.IH show ?case by (cases "sse_line E l s") auto
qed simp

lemma sse_body_shown: "stream_shown parse s \<Longrightarrow> stream_shown parse (step_state (sse_body E [] cs broken s))"
proof -
  assume s: "stream_shown parse s"
  have "step_state (sse_stop broken s) = s" for s by (simp add: sse_stop_def split: option.split)
  then show ?thesis using sse_lines_shown [OF s, of E "fst (take_lines (concat cs))"]
    unfolding sse_body_eq by (cases "sse_lines E (fst (take_lines (concat cs))) s") simp_all
qed

subsection \<open>The end of a stream\<close>

text \<open>A response comes from a body that was read to its end, with or without the second request.\<close>

lemma stream_response_cases:
  assumes "chat_invoke_stream E t True messages st = (Some (Inr r), evs, st')"
  obtains (read) s where "stream_shown (co_parse_thinking_tags (ce_client E)) s"
      "evs = ss_events (sse_end (ce_order E) (sse_flush s))"
      "r = sse_response (ce_json E) (co_parse_thinking_tags (ce_client E)) (sse_end (ce_order E) (sse_flush s))"
    | (again) s resp where "stream_shown (co_parse_thinking_tags (ce_client E)) s" "nothing_came (sse_flush s)"
      "evs = ss_events (sse_end (ce_order E) (sse_take_fallback resp (sse_flush s)))"
      "r = sse_response (ce_json E) (co_parse_thinking_tags (ce_client E))
        (sse_end (ce_order E) (sse_take_fallback resp (sse_flush s)))"
proof -
  let ?parse = "co_parse_thinking_tags (ce_client E)"
  obtain res st1 where read: "chat_read_stream E t messages res st1 = (Some (Inr r), evs, st')"
    using assms by (auto simp: chat_invoke_stream_def Let_def split: prod.splits option.splits sum.splits)
  let ?b = "sse_body E [] (hr_chunks res) (hr_broken res) (sse_start ?parse)"
  obtain s where s: "?b = Sse_Done s" using read by (cases ?b) (simp_all add: chat_read_stream_def Let_def)
  have shown: "stream_shown ?parse s" using sse_body_shown [OF sse_start_shown, of ?parse E] s by (metis step_state.simps(2))
  note step = read [unfolded chat_read_stream_def Let_def s sse_step.case]
  show ?thesis
  proof (cases "nothing_came (sse_flush s)")
    case False
    then show ?thesis using step by (intro that(1) [OF shown]) auto
  next
    case True
    obtain q st2 where q: "chat_invoke E (t + 1) messages st1 = (q, st2)" by (metis surj_pair)
    show ?thesis
    proof (cases "\<exists>resp. q = Some (Inr resp)")
      case True
      then show ?thesis using step q \<open>nothing_came (sse_flush s)\<close> by (auto intro: that(2) [OF shown])
    next
      case False
      then show ?thesis using step q True by (intro that(1) [OF shown]) (auto split: option.splits sum.splits)
    qed
  qed
qed

lemma sse_flush_plain: "stream_shown False s \<Longrightarrow> sse_flush s = s"
  by (simp add: stream_shown_def sse_flush_def)

lemma plain_shown:
  assumes "stream_shown False s"
  shows "ss_sent_any s \<longleftrightarrow> ss_content s \<noteq> []" "message_text (ss_events s) = ss_content s"
    "thinking_text (ss_events s) = ss_reasoning s"
  using assms by (cases "ss_parser s"; simp add: stream_shown_def text_shown_def)+

lemma sse_flush_simps [simp]:
  "ss_content (sse_flush s) = ss_content s" "ss_reasoning (sse_flush s) = ss_reasoning s" "ss_acc (sse_flush s) = ss_acc s"
  "ss_fwd (sse_flush s) = ss_fwd s" "ss_sent_any (sse_flush s) = ss_sent_any s" "ss_usage (sse_flush s) = ss_usage s"
  "tool_events (ss_events (sse_flush s)) = tool_events (ss_events s)"
  by (simp_all add: sse_flush_def split: option.split)

lemma sse_end_events:
  "(ss_sent_any s \<longleftrightarrow> ss_content s \<noteq> []) \<Longrightarrow>
   sse_end order s = s\<lparr>ss_events := ss_events s @ map Sent_Tool (forwarder_finish order (ss_fwd s))\<rparr>"
  by (simp add: sse_end_def)

lemma fallback_fields:
  assumes "\<not> says_nothing r"
  shows "ss_content (sse_take_fallback r s) = lr_content r"
    "ss_reasoning (sse_take_fallback r s) = (case lr_reasoning r of Some t \<Rightarrow> t | None \<Rightarrow> ss_reasoning s)"
    "ss_sent_any (sse_take_fallback r s) = (ss_sent_any s \<or> lr_content r \<noteq> [])"
    "ss_fwd (sse_take_fallback r s) = ss_fwd s"
    "message_text (ss_events (sse_take_fallback r s)) = message_text (ss_events s) @ lr_content r"
    "thinking_text (ss_events (sse_take_fallback r s)) =
       thinking_text (ss_events s) @ (case lr_reasoning r of Some t \<Rightarrow> t | None \<Rightarrow> [])"
    "tool_events (ss_events (sse_take_fallback r s)) = tool_events (ss_events s)"
  using assms by (auto simp: sse_take_fallback_def Let_def split: option.split)

lemma fallback_calls:
  "ss_fwd (sse_take_fallback r s) = ss_fwd s" "tool_events (ss_events (sse_take_fallback r s)) = tool_events (ss_events s)"
proof (atomize (full), cases "says_nothing r")
  case True
  then have "sse_take_fallback r s = s" unfolding sse_take_fallback_def by (simp only: if_True)
  then show "ss_fwd (sse_take_fallback r s) = ss_fwd s \<and> tool_events (ss_events (sse_take_fallback r s)) = tool_events (ss_events s)"
    by simp
next
  case False
  show "ss_fwd (sse_take_fallback r s) = ss_fwd s \<and> tool_events (ss_events (sse_take_fallback r s)) = tool_events (ss_events s)"
    using fallback_fields(4,7) [OF False] by blast
qed

lemma plain_response:
  assumes "ss_sent_any s \<longleftrightarrow> ss_content s \<noteq> []" "message_text (ss_events s) = ss_content s"
    "thinking_text (ss_events s) = ss_reasoning s"
  shows "lr_content (sse_response J False (sse_end order s)) = message_text (ss_events (sse_end order s))"
    "lr_reasoning (sse_response J False (sse_end order s)) =
       (if thinking_text (ss_events (sse_end order s)) = [] then collect_thinking_tags (message_text (ss_events (sse_end order s)))
        else Some (thinking_text (ss_events (sse_end order s))))"
  using assms by (simp_all add: sse_end_events sse_response_def strip_when_def)

text \<open>C12: Without tags to look for, what is stored is what was shown: the content is the text of the messages sent
  to the sink, and the reasoning the text sent as thinking, or when there is none what tags in the content
  hold. That is so with the second request too.\<close>

theorem stream_shows_reply:
  assumes "\<not> co_parse_thinking_tags (ce_client E)"
    and "chat_invoke_stream E t True messages st = (Some (Inr r), evs, st')"
  shows "lr_content r = message_text evs \<and>
    lr_reasoning r = (if thinking_text evs = [] then collect_thinking_tags (message_text evs) else Some (thinking_text evs))"
  using assms(2)
proof (cases rule: stream_response_cases)
  case (read s)
  then have s: "stream_shown False s" "sse_flush s = s" using assms(1) sse_flush_plain by simp_all
  from plain_response [OF plain_shown [OF this(1)]] show ?thesis using read(2,3) s(2) assms(1) by simp
next
  case (again s resp)
  then have s: "stream_shown False s" "sse_flush s = s" using assms(1) sse_flush_plain by simp_all
  then have shown: "ss_content s = []" "ss_reasoning s = []" "message_text (ss_events s) = []" "thinking_text (ss_events s) = []"
    "\<not> ss_sent_any s"
    using again(2) plain_shown [OF s(1)] by (simp_all add: nothing_came_def)
  show ?thesis
  proof (cases "says_nothing resp")
    case True
    then have "sse_take_fallback resp s = s" by (simp add: sse_take_fallback_def)
    then show ?thesis using again(3,4) s shown assms(1) by (simp add: plain_response)
  next
    case False
    let ?s = "sse_take_fallback resp s"
    have "ss_sent_any ?s \<longleftrightarrow> ss_content ?s \<noteq> []" "message_text (ss_events ?s) = ss_content ?s"
      "thinking_text (ss_events ?s) = ss_reasoning ?s"
      using shown by (simp_all add: fallback_fields [OF False] split: option.split)
    then show ?thesis using again(3,4) s(2) assms(1) by (simp add: plain_response)
  qed
qed

text \<open>With tags to look for, what the sink is shown as reply is the content as it came, without its reasoning
  blocks, up to the last byte.\<close>

theorem tagged_stream_shows_reply:
  assumes "sse_body E [] chunks broken (sse_start True) = Sse_Done s"
  shows "message_text (ss_events (sse_flush s)) = bytes_of Outside (split_tags Outside (ss_content s))"
proof -
  have "stream_shown True s" using sse_body_shown [OF sse_start_shown, of True E] assms by (metis step_state.simps(2))
  then obtain p ds segs where p: "ss_parser s = Some p" "feed_all thinking_tag_parser_new ds = (segs, p)" "concat ds = ss_content s"
    "message_text (ss_events s) = bytes_of Outside (all_marked segs)"
    by (cases "ss_parser s") (auto simp: stream_shown_def text_shown_def)
  from feed_all_split [of ds] p(2,3) have "bytes_of Outside (all_marked (segs @ flush p)) = bytes_of Outside (split_tags Outside (ss_content s))"
    by (metis fst_conv snd_conv)
  then show ?thesis using p(1,4) by (simp add: sse_flush_def)
qed

text \<open>A call that the sink was shown came in the same fragments as the calls of the response.\<close>

theorem stream_calls_from_fragments:
  assumes "chat_invoke_stream E t True messages st = (Some (Inr r), evs, st')"
    and "tool_events evs \<noteq> []" "ce_order E [] = []"
  shows "\<exists>ds. lr_tool_calls r = acc_finish (ce_json E) (fold acc_push ds []) \<and>
    tool_events evs = fst (forward_all [] ds) @ forwarder_finish (ce_order E) (snd (forward_all [] ds))"
  using assms(1)
proof (cases rule: stream_response_cases)
  case (read s)
  then show ?thesis using read(2,3)
    by (auto simp: sse_end_events stream_shown_def calls_shown_def sse_response_def)
next
  case (again s resp)
  then obtain ds where d: "ss_acc s = fold acc_push ds []" "forward_all [] ds = (tool_events (ss_events s), ss_fwd s)"
    by (auto simp: stream_shown_def calls_shown_def)
  have "fst ` set (fold acc_push ds []) = rd_index ` set ds" using acc_keys [of ds "[]"] by simp
  then have "ds = []" using d(1) again(2) by (simp add: nothing_came_def)
  then have n: "tool_events (ss_events s) = []" "ss_fwd s = []" using d(2) by simp_all
  have "tool_events (ss_events (sse_take_fallback resp (sse_flush s))) = []" "ss_fwd (sse_take_fallback resp (sse_flush s)) = []"
    using n by (simp_all add: fallback_calls)
  then have "tool_events evs = []" using again(3) assms(3) by (simp add: sse_end_def Let_def forwarder_finish_def)
  then show ?thesis using assms(2) by simp
qed

subsection \<open>A stream\<close>

text \<open>One event with a piece of reasoning, a piece of the reply and a call, cut in two by the network.\<close>

definition ex_stream_client :: "int chat_openai_compat" where
  "ex_stream_client = (with_config ''u'' ''m'')\<lparr>co_parse_thinking_tags := False\<rparr>"

definition ex_stream_decode :: decode_env where
  "ex_stream_decode =
     \<lparr>de_api = (\<lambda>_. None), de_anthropic = (\<lambda>_. None), de_google = (\<lambda>_. None), de_bedrock = (\<lambda>_. None),
      de_openrouter = (\<lambda>_. None), de_lower = (\<lambda>s. s), de_lossy = (\<lambda>s. s), de_date = (\<lambda>_. None)\<rparr>"

definition ex_stream_chunk :: stream_chunk where
  "ex_stream_chunk = \<lparr>sk_choices = Some [(\<lparr>sl_content = Some ''hi'', sl_reasoning = Some ''r'',
     sl_tool_calls = Some [\<lparr>sd_index = 0, sd_id = Some ''a'', sd_function = Some (Some ''ls'', Some ''{}'')\<rparr>]\<rparr>, None)], sk_usage = None\<rparr>"

definition ex_stream_answer :: http_response where
  "ex_stream_answer = \<lparr>hr_status = 200, hr_headers = [], hr_chunks = [''data: '', ''x'' @ [nl]], hr_broken = None\<rparr>"

definition ex_stream_env :: "int chat_env" where
  "ex_stream_env = \<lparr>ce_client = ex_stream_client, ce_send = (\<lambda>_ _. Inr ex_stream_answer),
     ce_decode = ex_stream_decode, ce_json = \<lparr>je_parse = (\<lambda>_. Some JNull), je_text = (\<lambda>_. [])\<rparr>, ce_response = (\<lambda>_. Inl []),
     ce_chunk = (\<lambda>_. Some ex_stream_chunk), ce_fresh = (\<lambda>_. []), ce_fresh' = (\<lambda>_. []), ce_trace = (\<lambda>_. []), ce_order = id\<rparr>"

lemma ex_sent: "send_with_retry D b p t (ce_send ex_stream_env body) (0, []) = (Some (Inr ex_stream_answer), 1, [])"
  by (simp add: send_with_retry_def send_post_def send_post_from.simps is_success_def ex_stream_env_def ex_stream_answer_def split: nat.split)

lemma ex_data: "sse_data (''data: x'' @ [nl]) = Some ''x''"
proof -
  have "utf8_valid (''data: x'' @ [nl])" by (simp add: utf8_valid_def)
  moreover have "trim (''data: x'' @ [nl]) = ''data: x''" "trim (trim_start_matches ''data: '' ''data: x'') = ''x''" by code_simp+
  ultimately show ?thesis unfolding sse_data_def by (simp add: starts_with_def)
qed

lemma ex_lines: "fst (take_lines (''data: '' @ ''x'' @ [nl])) = [''data: x'' @ [nl]]" by simp

lemma ex_body: "sse_body ex_stream_env [] (hr_chunks ex_stream_answer) (hr_broken ex_stream_answer) (sse_start False) =
   Sse_Done (sse_choice (hd (the (sk_choices ex_stream_chunk))) (sse_start False))"
  using ex_data
  by (simp add: sse_body_eq ex_stream_answer_def sse_line_def sse_error_def ex_stream_env_def starts_with_def ex_stream_chunk_def sse_stop_def)

lemma ex_stream_run:
  "chat_invoke_stream ex_stream_env 0 True [] (0, []) =
   (Some (Inr \<lparr>lr_content = ''hi'', lr_reasoning = Some ''r'',
       lr_tool_calls = [\<lparr>tc_id = Some ''a'', tc_name = ''ls'', tc_arguments = ''{}''\<rparr>], lr_usage = None, lr_finish_reason = None\<rparr>),
    [Sent_Thinking ''r'', Sent_Message ''hi'', Sent_Tool (Chunk_Started ''a'' ''ls''), Sent_Tool (Chunk_Delta ''a'' ''{}''),
     Sent_Tool (Chunk_Ended ''a'' ''{}'')], (1, []))"
proof -
  let ?s = "\<lparr>ss_content = ''hi'', ss_reasoning = ''r'', ss_sent_any = True, ss_acc = [(0, ''a'', ''ls'', ''{}'')],
      ss_fwd = [(0, \<lparr>pt_call_id = ''a'', pt_name = ''ls'', pt_arguments = ''{}'', pt_started = True\<rparr>)], ss_usage = None,
      ss_parser = None, ss_finish = None, ss_events = [Sent_Thinking ''r'', Sent_Message ''hi'',
        Sent_Tool (Chunk_Started ''a'' ''ls''), Sent_Tool (Chunk_Delta ''a'' ''{}'')]\<rparr>"
  have "sse_choice (hd (the (sk_choices ex_stream_chunk))) (sse_start False) = ?s"
    by (simp add: ex_stream_chunk_def sse_start_def sse_choice_def sse_finish_reason_def sse_reasoning_def sse_content_def
        sse_tool_call_def raw_delta_def forwarder_push_def pending_push_def acc_push_def acc_entry_push_def first_call_id_def
        later_call_id_def lacks_id_def)
  moreover have "trim ''{}'' = ''{}''" by code_simp
  moreover have "co_parse_thinking_tags (ce_client ex_stream_env) = False" "ce_order ex_stream_env = id"
    "je_parse (ce_json ex_stream_env) x = Some JNull" for x
    by (simp_all add: ex_stream_env_def ex_stream_client_def)
  ultimately show ?thesis
    using ex_body
    by (simp add: chat_invoke_stream_def ex_sent chat_read_stream_def sse_flush_def nothing_came_def sse_end_def sse_response_def
        forwarder_finish_def acc_finish_def acc_call_def sanitize_arguments_def strip_when_def)
qed
theorem stream_shows_reply_witness:
  "''hi'' = message_text (fst (snd (chat_invoke_stream ex_stream_env 0 True [] (0, []))))"
  using stream_shows_reply [OF _ ex_stream_run] ex_stream_run by (simp add: ex_stream_env_def ex_stream_client_def)

theorem stream_calls_from_fragments_witness:
  "\<exists>ds. acc_finish (ce_json ex_stream_env) (fold acc_push ds []) = [\<lparr>tc_id = Some ''a'', tc_name = ''ls'', tc_arguments = ''{}''\<rparr>] \<and>
     fst (forward_all [] ds) @ forwarder_finish (ce_order ex_stream_env) (snd (forward_all [] ds)) =
       [Chunk_Started ''a'' ''ls'', Chunk_Delta ''a'' ''{}'', Chunk_Ended ''a'' ''{}'']"
proof -
  have "ce_order ex_stream_env [] = []" by (simp add: ex_stream_env_def)
  from stream_calls_from_fragments [OF ex_stream_run _ this] show ?thesis by auto
qed

lemma ex_tagged: "sse_body ex_stream_env [] [''data: x'', [nl]] None (sse_start True) =
  Sse_Done (sse_choice (hd (the (sk_choices ex_stream_chunk))) (sse_start True))"
  using ex_data
  by (simp add: sse_body_eq sse_line_def sse_error_def ex_stream_env_def starts_with_def ex_stream_chunk_def sse_stop_def)

theorem tagged_stream_shows_reply_witness:
  "message_text (ss_events (sse_flush (sse_choice (hd (the (sk_choices ex_stream_chunk))) (sse_start True)))) = ''hi''"
proof -
  have "ss_content (sse_choice (hd (the (sk_choices ex_stream_chunk))) (sse_start True)) = ''hi''"
    by (simp add: ex_stream_chunk_def sse_start_def sse_choice_def sse_finish_reason_def sse_reasoning_def sse_content_def
        sse_tool_call_def case_prod_beta)
  moreover have "bytes_of Outside (split_tags Outside ''hi'') = ''hi''" by code_simp
  ultimately show ?thesis using tagged_stream_shows_reply [OF ex_tagged] by simp
qed

subsection \<open>What is lost\<close>

text \<open>A last line without its newline is never read, even when the body ends there.\<close>

lemma last_line_needs_newline: "take_lines body = ([], rest) \<Longrightarrow> sse_body E [] [body] None s = Sse_Done s"
  by (simp add: sse_body_eq sse_stop_def)

text \<open>The calls of a second request are run and never shown.\<close>

lemma fallback_calls_not_shown:
  "ss_events (sse_take_fallback \<lparr>lr_content = [], lr_reasoning = None, lr_tool_calls = [tc], lr_usage = None, lr_finish_reason = None\<rparr> s) =
   ss_events s"
  by (simp add: sse_take_fallback_def says_nothing_def Let_def)

end
