(* ===== verification/Spec2Isabelle.thy ===== *)
theory Spec2Isabelle
  imports Pregel_Loop_Facts Pregel_Runtime_Facts Memory_Store Uuid6 Graph_Run Graph_Channels Goal_Session_Facts
    Text_Distance File_Tools_Facts Patch_Print Got_Facts React_Facts Chat_Sending_Facts Chat_Stream_Facts
begin

section \<open>The anureo agent runtime\<close>

text \<open>
  Anureo runs language-model agents. This development follows its core: the graph engines that run an
  agent step by step, the stores that keep what a run leaves behind, the goals that tell a session what
  to pursue and when to stop, and the tools with which an agent edits files. Paths below are relative to
  \<open>src/\<close>.

  \<^bold>\<open>The parts and how they interact.\<close>

  \<^item> \<open>foundation/pregel\<close> is a bulk-synchronous engine. A graph has nodes and channels. A step picks the
    nodes whose trigger channels changed (\<open>prepare_next_tasks\<close>), runs them, and applies their writes to
    the channels at a barrier (\<open>apply_writes\<close>); \<open>tick\<close> and \<open>after_tick\<close> drive this as a state machine with
    interrupts, checkpoints and a step limit; \<open>runtime.rs\<close> restores a thread from its last checkpoint,
    turns human answers into resume values, replays cached writes and forks old checkpoints.
  \<^item> \<open>foundation/graph-core\<close> is the older linear or branching state graph: \<open>compile\<close> checks a graph, the
    run loop executes it node by node with retries, routers and interrupts, and saves the final state.
  \<^item> \<open>foundation/checkpoint\<close> holds the checkpoint types, the in-memory checkpointer both engines write
    to, the long-term memory store and the identifiers of checkpoints.
  \<^item> \<open>agent/goal\<close> keeps one goal per thread in two SQL tables. The session's hooks charge time and tokens
    to it, the model ends it through a tool, and steering messages remind the model of it.
  \<^item> \<open>foundation/anureo-util\<close> and \<open>agent/tool/tool-basic\<close> find and replace text inexactly, and let an
    agent edit, patch and move files under a working folder.
  \<^item> \<open>agent/agent-core/src/agent/got\<close> plans a task as a graph of subtasks and runs them in the order of
    their dependencies, expanding some of them on the way.
  \<^item> \<open>agent/agent-core/src/agent/react\<close> is the agent that answers a user: it asks the model, runs the tools
    the model calls through the registry of \<open>agent/tool/tool-core\<close>, puts the results into the conversation
    and asks again, until the model calls none. \<open>compress\<close> shortens a conversation that has grown too long
    and \<open>tool_output_normalizer.rs\<close> the results.
  \<^item> \<open>foundation/llm\<close> has the messages of a conversation and the client that sends them: it builds a
    request, sends it with retries, reads the answer whole or as a stream of events, classifies errors by
    provider, separates reasoning from reply and puts streamed tool calls together.

  \<^bold>\<open>Which theory models what.\<close> Definitions carry the names of the functions they translate.

  \<^item> \<open>Prelude\<close>, \<open>Text_Format\<close>, \<open>Rust_Str\<close>, \<open>Rust_Text\<close>, \<open>Json_Value\<close>: strings as UTF-8 bytes, ordered maps as
    sorted association lists, printing and parsing of numbers, the \<open>str\<close> operations of the standard
    library, JSON values. The simp set and the collections of the component proofs live there.
  \<^item> \<open>Pregel_Types\<close> (\<open>types.rs\<close>), \<open>Pregel_Channel\<close> (\<open>channel.rs\<close>), \<open>Hash_Stream\<close> and \<open>Pregel_Algo\<close>
    (\<open>algo.rs\<close>), \<open>Pregel_Graph\<close> (\<open>node.rs\<close>, \<open>config.rs\<close>, \<open>validate.rs\<close>), \<open>Pregel_Loop\<close> (\<open>loop_state.rs\<close>),
    \<open>Pregel_Cache\<close> (\<open>cache.rs\<close>), \<open>Pregel_Runner\<close> (\<open>runner.rs\<close>), \<open>Pregel_Resume\<close> and \<open>Pregel_Runtime\<close>
    (\<open>runtime.rs\<close>, \<open>state.rs\<close>, \<open>replay.rs\<close>) are the Pregel engine. \<open>Pregel_Barrier\<close>, \<open>Pregel_Pending\<close>,
    \<open>Pregel_Tasks\<close>, \<open>Pregel_Loop_Facts\<close> and \<open>Pregel_Runtime_Facts\<close> prove what it does: a barrier commits
    all writes of a step or none, pending writes are settled exactly once, delivered packets are gone,
    the order of independent tasks does not matter, every run ends, replay and fork leave history alone.
  \<^item> \<open>Checkpoint_Types\<close>, \<open>Memory_Saver\<close>, \<open>Memory_Store\<close>, \<open>Uuid6\<close> are the stores: a checkpointer returns what
    was put, the memory store refines a finite map, identifiers drawn by any number of threads are
    strictly ordered in time.
  \<^item> \<open>Graph_Error\<close>, \<open>Graph_Compile\<close>, \<open>Graph_Run\<close>, \<open>Graph_Channels\<close> are the state graph: what \<open>compile\<close> accepts
    is well formed, and a compiled graph whose routers stay within their maps panics only when START leads to
    END at once.
  \<^item> \<open>Goal_Types\<close>, \<open>Goal_Store\<close>, \<open>Goal_Lifecycle\<close>, \<open>Goal_Accounting\<close>, \<open>Goal_Audit\<close>, \<open>Goal_Steering\<close>,
    \<open>Goal_Runtime\<close>, \<open>Goal_Service\<close>, \<open>Goal_Session_Facts\<close> are the goal component: the statements of
    \<open>store.rs\<close> are the steps of a transition system over the two tables, with the invariant of the
    reachable tables and the diagram of statuses; usage is charged once and never to a goal that
    replaced the one that was running; completion goes through the verify command.
  \<^item> \<open>Text_Distance\<close>, \<open>Text_Replacers\<close>, \<open>Text_Edit\<close> are \<open>text/fuzzy_replace.rs\<close>: the matrix algorithm is
    the Levenshtein distance, a replacement touches one occurrence only, and the slices that panic are
    kept as panics. \<open>Patch_Text\<close> and \<open>Patch_Print\<close> are the language of \<open>apply_patch.rs\<close> with a printer it
    inverts. \<open>File_System\<close> is a tree of directories, files and symbolic links; \<open>Tool_Path\<close> and \<open>File_Tools\<close>
    are the tools of \<open>tool-basic/src/file\<close>, and \<open>File_Tools_Facts\<close> shows that they stay in the working
    folder as long as their paths are checked and it starts out without links, and what a failed call leaves behind.
  \<^item> \<open>Got_Graph\<close> and \<open>Got_Run\<close> are \<open>agent/got\<close>, run by the model of \<open>graph-core\<close>; \<open>Got_Facts\<close> shows that
    every run ends, verbose or not, that a task starts only after all it depends on is done, and which tasks a
    finished run has left out, as long as the plan names its tasks apart from those an expansion adds.
  \<^item> \<open>Llm_Message\<close> and \<open>Message_Pairing\<close> are \<open>llm/src/message.rs\<close>: what the sanitizer keeps and how calls
    and results pair up. \<open>Tool_Output\<close> and \<open>Tool_Registry\<close> are the normalizer and the registry.
    \<open>React_State\<close>, \<open>React_Act\<close>, \<open>React_Compress\<close>, \<open>React_Run\<close> are the agent, run by the model of
    \<open>graph-core\<close>. \<open>React_Act_Facts\<close>, \<open>React_Compress_Facts\<close> and \<open>React_Facts\<close> show that every call gets
    one result, that every request the model is sent is a complete conversation, over any number of turns,
    resumptions and compactions, as long as identifiers of calls are not used twice, and that a turn ends once
    the model stops calling tools.
  \<^item> \<open>Chat_Request\<close> (\<open>client/openai_compat/request.rs\<close>) builds requests a provider accepts.
    \<open>Chunked_Input\<close> is the theory of readers of chunked input, used by \<open>Thinking_Tags\<close>
    (\<open>support/thinking.rs\<close>) and by the reader of event lines. \<open>Tool_Stream\<close> is
    \<open>support/tool_call_accumulator.rs\<close> with the forwarder of \<open>llm_client.rs\<close>: what the viewer is shown of a
    call is what is run. \<open>Provider_Error\<close> is \<open>error/provider\<close> with the error types of
    \<open>model-spec-core\<close>. \<open>Chat_Client\<close> and \<open>Chat_Stream\<close> are \<open>llm_client.rs\<close> and \<open>client/retry.rs\<close>;
    \<open>Chat_Sending_Facts\<close> bounds requests and waits, \<open>Chat_Stream_Facts\<close> shows that the cuts of the network do
    not matter and that the stored response is what the sink was sent.

  \<^bold>\<open>Interfaces.\<close> The traits of the code are locales, interpreted on the modelled implementations:
  \<open>channel_ops\<close> (the six channels and the dispatch over them), \<open>codec\<close> (derived encodings),
  \<open>checkpointer\<close> (\<open>MemorySaver\<close>), \<open>task_cache\<close> (the in-memory cache), \<open>kv_store\<close> (\<open>InMemoryStore\<close>),
  \<open>batch_channel\<close> (the typed channels of the state graph) and \<open>chunk_reader\<close> (the parser of thinking tags
  and the reader of event lines).

  \<^bold>\<open>Conventions.\<close> A struct is a record, an enum a datatype, an error a value of a sum or option type, a
  panic a value of its own. Counters are words where they can wrap. Time, fresh ids and random draws are
  arguments. Loops that follow the data are structural recursion; loops bounded by a limit of the
  program take fuel: \<open>run_loop\<close> gets the remaining steps plus one, and \<open>invoke_returns\<close> shows that this is
  enough for every input. Where order of completion matters it is an argument.

  \<^bold>\<open>Parameters.\<close> Code that is not part of the repository is an argument with its documented behaviour
  as named hypotheses: the sip hash, the serde conversions of user types, node bodies, language-model
  answers, what becomes of a request on the network, the derived decoders of its answer, rounding of floating-point operations, the regex engine, letter case and JSON number
  comparison, the verify command.

  \<^bold>\<open>Not modelled.\<close> Streaming of events, tracing and metrics, sleeping and futures (only the order they
  produce), the SQLite checkpoint store, the client over a third-party OpenAI crate, the audit log, the front ends under \<open>apps\<close>,
  and the experimental crates: they are I/O around the modelled core. Of the file tools: listing and
  pattern search (\<open>ls\<close>, \<open>glob\<close>, \<open>grep\<close>), Windows path prefixes, permissions, files that are not UTF-8 and
  the texts of error messages. Of the agents: prompt building, sub-agents, the tree-of-thoughts graph and
  the hooks around a tool call. Of the repository besides: skills, workflow and memory tools, the resolver of
  model specifications and the terminal protocol, which no modelled part depends on.
\<close>

end
